(* ===== verification/Prelude.thy ===== *)
theory Prelude
  imports Main "HOL-Library.Word"
begin

text \<open>
  Shared vocabulary of the development: the machine types of the C++ and C sources as words or
  as integers with explicit ranges, the conversions the sources write as \<open>static_cast\<close>, and
  the lemma collections the component theories extend.

  Identifiers, masks and bytes are words (\<open>u8\<close>, \<open>u16\<close>, \<open>u32\<close>, \<open>u64\<close>).  Coordinates, sizes
  and SYNC values, on which the sources do arithmetic with range checks, are integers; the range
  predicates and the casts below say where the machine would wrap.
\<close>

unbundle bit_operations_syntax

type_synonym u8 = "8 word"
type_synonym u16 = "16 word"
type_synonym u32 = "32 word"
type_synonym u64 = "64 word"

named_theorems map_simps \<open>lookup and update laws of the association-list containers\<close>
named_theorems queue_simps \<open>frame and counting facts of the event queues\<close>

subsection \<open>Ranges and casts of fixed-width integers\<close>

definition in_i16 :: "int \<Rightarrow> bool" where
  "in_i16 v \<longleftrightarrow> - (2 ^ 15) \<le> v \<and> v < 2 ^ 15"

definition in_u16 :: "int \<Rightarrow> bool" where
  "in_u16 v \<longleftrightarrow> 0 \<le> v \<and> v < 2 ^ 16"

definition in_i32 :: "int \<Rightarrow> bool" where
  "in_i32 v \<longleftrightarrow> - (2 ^ 31) \<le> v \<and> v < 2 ^ 31"

definition in_u32 :: "int \<Rightarrow> bool" where
  "in_u32 v \<longleftrightarrow> 0 \<le> v \<and> v < 2 ^ 32"

definition in_i64 :: "int \<Rightarrow> bool" where
  "in_i64 v \<longleftrightarrow> - (2 ^ 63) \<le> v \<and> v < 2 ^ 63"

definition in_u64 :: "int \<Rightarrow> bool" where
  "in_u64 v \<longleftrightarrow> 0 \<le> v \<and> v < 2 ^ 64"

lemmas range_defs = in_i16_def in_u16_def in_i32_def in_u32_def in_i64_def in_u64_def

text \<open>\<open>static_cast\<close> to an unsigned type keeps the value modulo the width; to a signed type it
  is the two's complement reading of that residue.\<close>

definition to_unsigned :: "nat \<Rightarrow> int \<Rightarrow> int" where
  "to_unsigned w v = v mod 2 ^ w"

definition to_signed :: "nat \<Rightarrow> int \<Rightarrow> int" where
  "to_signed w v = (v + 2 ^ (w - 1)) mod 2 ^ w - 2 ^ (w - 1)"

lemma to_unsigned_id [simp]: "0 \<le> v \<Longrightarrow> v < 2 ^ w \<Longrightarrow> to_unsigned w v = v"
  by (simp add: to_unsigned_def)

lemma to_unsigned_bounds: "0 \<le> to_unsigned w v \<and> to_unsigned w v < 2 ^ w"
  by (simp add: to_unsigned_def)

lemma to_signed_id:
  assumes "0 < w" "- (2 ^ (w - 1)) \<le> v" "v < 2 ^ (w - 1)"
  shows "to_signed w v = v"
proof -
  have "(2::int) ^ w = 2 * 2 ^ (w - 1)"
    using assms(1) by (cases w) simp_all
  with assms show ?thesis by (simp add: to_signed_def)
qed

text \<open>\<open>size_t\<close> values are natural numbers below \<open>2 ^ 64\<close>; their subtraction wraps.\<close>

definition size_sub :: "nat \<Rightarrow> nat \<Rightarrow> nat" where
  "size_sub a b = (if b \<le> a then a - b else a + 2 ^ 64 - b)"

lemma size_sub_le [simp]: "b \<le> a \<Longrightarrow> size_sub a b = a - b"
  by (simp add: size_sub_def)

subsection \<open>Lists\<close>

lemma count_filter_sum:
  "length (filter P xs) + length (filter (\<lambda>x. \<not> P x) xs) = length xs"
  by (induction xs) auto

lemma sum_list_nth_update_nat:
  "i < length xs \<Longrightarrow> sum_list (xs[i := v]) + xs ! i = sum_list xs + (v::nat)"
  by (induction xs arbitrary: i) (auto split: nat.splits)

lemma filter_neq_notin [simp]: "x \<notin> set xs \<Longrightarrow> filter (\<lambda>y. y \<noteq> x) xs = xs"
  by (induction xs) auto

lemma distinct_filter_snoc: "distinct xs \<Longrightarrow> distinct (filter (\<lambda>y. y \<noteq> x) xs @ [x])"
  by simp

end
