(* ===== verification/Checked.thy ===== *)
theory Checked
  imports Prelude
begin

text \<open>
  Overflow-checked arithmetic (\<^verbatim>\<open>src/server/include/xmin/server/checked.hpp\<close>).  A template instance
  is given by its width; its values are integers in the range of the type, the result cast is
  written out.  Every intermediate of the guards is computed as the source computes it.
\<close>

definition u_max :: "nat \<Rightarrow> int" where "u_max w = 2 ^ w - 1"
definition s_max :: "nat \<Rightarrow> int" where "s_max w = 2 ^ (w - 1) - 1"
definition s_min :: "nat \<Rightarrow> int" where "s_min w = - (2 ^ (w - 1))"

definition checked_add_unsigned :: "nat \<Rightarrow> int \<Rightarrow> int \<Rightarrow> int option" where
  "checked_add_unsigned w left right =
     (if right > u_max w - left then None else Some (to_unsigned w (left + right)))"

definition checked_add_signed :: "nat \<Rightarrow> int \<Rightarrow> int \<Rightarrow> int option" where
  "checked_add_signed w left right =
     (if (right > 0 \<and> left > s_max w - right) \<or> (right < 0 \<and> left < s_min w - right) then None
      else Some (to_signed w (left + right)))"

definition checked_subtract_unsigned :: "nat \<Rightarrow> int \<Rightarrow> int \<Rightarrow> int option" where
  "checked_subtract_unsigned w left right =
     (if right > left then None else Some (to_unsigned w (left - right)))"

definition checked_subtract_signed :: "nat \<Rightarrow> int \<Rightarrow> int \<Rightarrow> int option" where
  "checked_subtract_signed w left right =
     (if (right > 0 \<and> left < s_min w + right) \<or> (right < 0 \<and> left > s_max w + right) then None
      else Some (to_signed w (left - right)))"

definition checked_multiply :: "nat \<Rightarrow> int \<Rightarrow> int \<Rightarrow> int option" where
  "checked_multiply w left right =
     (if left \<noteq> 0 \<and> right > u_max w div left then None else Some (to_unsigned w (left * right)))"

text \<open>\<open>*sum & ~size_t{3}\<close> clears the two low bits of a \<open>size_t\<close>.\<close>

definition padded_to_four :: "nat \<Rightarrow> nat option" where
  "padded_to_four value =
     map_option (\<lambda>sum. nat (sum - sum mod 4)) (checked_add_unsigned 64 (int value) 3)"

definition fits_unsigned :: "nat \<Rightarrow> int \<Rightarrow> bool" where
  "fits_unsigned w v \<longleftrightarrow> 0 \<le> v \<and> v \<le> u_max w"

definition fits_signed :: "nat \<Rightarrow> int \<Rightarrow> bool" where
  "fits_signed w v \<longleftrightarrow> s_min w \<le> v \<and> v \<le> s_max w"

lemma to_unsigned_fits: "fits_unsigned w v \<Longrightarrow> to_unsigned w v = v"
  by (simp add: fits_unsigned_def u_max_def)

lemma to_signed_fits: "0 < w \<Longrightarrow> fits_signed w v \<Longrightarrow> to_signed w v = v"
  by (rule to_signed_id) (simp_all add: fits_signed_def s_min_def s_max_def)

lemma checked_add_unsigned_exact:
  "fits_unsigned w a \<Longrightarrow> fits_unsigned w b \<Longrightarrow>
   checked_add_unsigned w a b = (if fits_unsigned w (a + b) then Some (a + b) else None)"
  by (auto simp: checked_add_unsigned_def to_unsigned_fits) (auto simp: fits_unsigned_def)

lemma checked_subtract_unsigned_exact:
  "fits_unsigned w a \<Longrightarrow> fits_unsigned w b \<Longrightarrow>
   checked_subtract_unsigned w a b = (if fits_unsigned w (a - b) then Some (a - b) else None)"
  by (auto simp: checked_subtract_unsigned_def to_unsigned_fits) (auto simp: fits_unsigned_def)

lemma checked_add_signed_exact:
  "0 < w \<Longrightarrow> fits_signed w a \<Longrightarrow> fits_signed w b \<Longrightarrow>
   checked_add_signed w a b = (if fits_signed w (a + b) then Some (a + b) else None)"
  by (auto simp: checked_add_signed_def to_signed_fits) (auto simp: fits_signed_def)

lemma checked_subtract_signed_exact:
  "0 < w \<Longrightarrow> fits_signed w a \<Longrightarrow> fits_signed w b \<Longrightarrow>
   checked_subtract_signed w a b = (if fits_signed w (a - b) then Some (a - b) else None)"
  by (auto simp: checked_subtract_signed_def to_signed_fits) (auto simp: fits_signed_def)

lemma checked_multiply_exact:
  assumes "fits_unsigned w a" "fits_unsigned w b"
  shows "checked_multiply w a b = (if fits_unsigned w (a * b) then Some (a * b) else None)"
proof (cases "a = 0")
  case True
  then show ?thesis using assms
    by (simp add: checked_multiply_def fits_unsigned_def u_max_def)
next
  case False
  then have a: "0 < a" using assms by (simp add: fits_unsigned_def)
  have "b \<le> u_max w div a \<longleftrightarrow> a * b \<le> u_max w"
  proof
    assume "b \<le> u_max w div a"
    then have "a * b \<le> a * (u_max w div a)" using a by (intro mult_left_mono) simp_all
    also have "\<dots> \<le> u_max w"
      using a pos_mod_sign [of a "u_max w"] mult_div_mod_eq [of a "u_max w"] by linarith
    finally show "a * b \<le> u_max w" .
  next
    assume "a * b \<le> u_max w"
    then show "b \<le> u_max w div a" using zdiv_mono1 [of "a * b" "u_max w" a] a by simp
  qed
  with False assms show ?thesis
    by (auto simp: checked_multiply_def fits_unsigned_def to_unsigned_fits)
qed

text \<open>Every checked operation is exact: on operands of its type it yields the mathematical
  result when that is representable and \<open>nullopt\<close> otherwise, for every width, signed and unsigned;
  no guard or cast of it wraps.\<close>

theorem checked_arithmetic_exact:
  assumes "0 < w"
  shows "(fits_unsigned w a \<and> fits_unsigned w b \<longrightarrow>
      checked_add_unsigned w a b = (if fits_unsigned w (a + b) then Some (a + b) else None) \<and>
      checked_subtract_unsigned w a b = (if fits_unsigned w (a - b) then Some (a - b) else None) \<and>
      checked_multiply w a b = (if fits_unsigned w (a * b) then Some (a * b) else None)) \<and>
    (fits_signed w a \<and> fits_signed w b \<longrightarrow>
      checked_add_signed w a b = (if fits_signed w (a + b) then Some (a + b) else None) \<and>
      checked_subtract_signed w a b = (if fits_signed w (a - b) then Some (a - b) else None))"
  using assms
  by (simp add: checked_add_unsigned_exact checked_subtract_unsigned_exact checked_multiply_exact
      checked_add_signed_exact checked_subtract_signed_exact)

theorem checked_arithmetic_exact_witness:
  "checked_add_unsigned 8 200 55 = Some 255 \<and> checked_add_unsigned 8 200 56 = None \<and>
   checked_multiply 8 16 16 = None \<and> checked_add_signed 8 (-100) (-28) = Some (-128) \<and>
   checked_add_signed 8 (-100) (-29) = None"
  using checked_arithmetic_exact [of 8 200 55] checked_arithmetic_exact [of 8 200 56]
    checked_arithmetic_exact [of 8 16 16] checked_arithmetic_exact [of 8 "-100" "-28"]
    checked_arithmetic_exact [of 8 "-100" "-29"]
  by (simp add: fits_unsigned_def fits_signed_def u_max_def s_max_def s_min_def)

lemma padded_to_four_some:
  assumes "n + 3 < 2 ^ 64"
  shows "padded_to_four n = Some (4 * ((n + 3) div 4))"
proof -
  have "checked_add_unsigned 64 (int n) 3 = Some (int (n + 3))"
    using assms checked_add_unsigned_exact [of 64 "int n" 3] by (simp add: fits_unsigned_def u_max_def)
  moreover have "int (n + 3) - int (n + 3) mod 4 = int (4 * ((n + 3) div 4))"
    by (simp add: minus_mod_eq_mult_div zdiv_int)
  ultimately show ?thesis by (simp only: padded_to_four_def option.map nat_int)
qed

end
