(* ===== verification/Wire.thy ===== *)
theory Wire
  imports Prelude
begin

text \<open>
  The wire codec (\<^verbatim>\<open>src/server/wire.hpp\<close>, \<^verbatim>\<open>wire.cpp\<close>): the bounds-checked reader over a
  borrowed buffer and the growing writer, each with the byte order of its client.  The lemmas
  show that a failed read consumes nothing, that a reader never leaves its buffer, and that what
  a writer emits a reader of the same order reads back, field by field.
\<close>

datatype byte_order = Little | Big

record wire_reader =
  rdData :: "u8 list"
  rdSize :: nat
  rdOffset :: nat
  rdOrder :: byte_order

definition wire_reader_init :: "u8 list \<Rightarrow> byte_order \<Rightarrow> wire_reader" where
  "wire_reader_init bytes order =
     \<lparr>rdData = bytes, rdSize = length bytes, rdOffset = 0, rdOrder = order\<rparr>"

definition rd_remaining :: "wire_reader \<Rightarrow> nat" where
  "rd_remaining r = rdSize r - rdOffset r"

text \<open>The shift amounts of the loops: ascending for little endian, descending for big.\<close>

definition wire_shifts :: "byte_order \<Rightarrow> nat \<Rightarrow> nat list" where
  "wire_shifts order n =
     (case order of
        Little \<Rightarrow> map (\<lambda>i. 8 * i) [0..<n]
      | Big \<Rightarrow> rev (map (\<lambda>i. 8 * i) [0..<n]))"

text \<open>\<open>result |= static_cast<T>(data_[offset_++]) << shift\<close>, once per shift.\<close>

fun rd_accumulate :: "nat list \<Rightarrow> wire_reader \<Rightarrow> 'a::len word \<Rightarrow> 'a word \<times> wire_reader" where
  "rd_accumulate [] r result = (result, r)"
| "rd_accumulate (shift # shifts) r result =
     rd_accumulate shifts (r\<lparr>rdOffset := rdOffset r + 1\<rparr>)
       (result OR push_bit shift (ucast (rdData r ! rdOffset r)))"

definition rd_u8 :: "wire_reader \<Rightarrow> u8 option \<times> wire_reader" where
  "rd_u8 r = (if rd_remaining r < 1 then (None, r)
     else (Some (rdData r ! rdOffset r), r\<lparr>rdOffset := rdOffset r + 1\<rparr>))"

definition rd_u16 :: "wire_reader \<Rightarrow> u16 option \<times> wire_reader" where
  "rd_u16 r = (if rd_remaining r < 2 then (None, r)
     else let first = ucast (rdData r ! rdOffset r) :: u16;
              second = ucast (rdData r ! (rdOffset r + 1)) :: u16;
              r' = r\<lparr>rdOffset := rdOffset r + 2\<rparr>
          in if rdOrder r = Little then (Some (first OR push_bit 8 second), r')
             else (Some (push_bit 8 first OR second), r'))"

definition rd_u32 :: "wire_reader \<Rightarrow> u32 option \<times> wire_reader" where
  "rd_u32 r = (if rd_remaining r < 4 then (None, r)
     else let (result, r') = rd_accumulate (wire_shifts (rdOrder r) 4) r 0
          in (Some result, r'))"

definition rd_u64 :: "wire_reader \<Rightarrow> u64 option \<times> wire_reader" where
  "rd_u64 r = (if rd_remaining r < 8 then (None, r)
     else let (result, r') = rd_accumulate (wire_shifts (rdOrder r) 8) r 0
          in (Some result, r'))"

definition rd_skip :: "nat \<Rightarrow> wire_reader \<Rightarrow> bool \<times> wire_reader" where
  "rd_skip count r = (if rd_remaining r < count then (False, r)
     else (True, r\<lparr>rdOffset := rdOffset r + count\<rparr>))"

record wire_writer =
  wrOrder :: byte_order
  wrBytes :: "u8 list"

definition wire_writer_init :: "byte_order \<Rightarrow> wire_writer" where
  "wire_writer_init order = \<lparr>wrOrder = order, wrBytes = []\<rparr>"

definition wr_u8 :: "u8 \<Rightarrow> wire_writer \<Rightarrow> wire_writer" where
  "wr_u8 v w = w\<lparr>wrBytes := wrBytes w @ [v]\<rparr>"

definition wr_u16 :: "u16 \<Rightarrow> wire_writer \<Rightarrow> wire_writer" where
  "wr_u16 v w =
     (if wrOrder w = Little then wr_u8 (ucast (drop_bit 8 v)) (wr_u8 (ucast v) w)
      else wr_u8 (ucast v) (wr_u8 (ucast (drop_bit 8 v)) w))"

text \<open>A signed 16-bit value is written as the unsigned value with the same bits; the model's
  word already stands for both readings.\<close>

definition wr_i16 :: "int \<Rightarrow> wire_writer \<Rightarrow> wire_writer" where
  "wr_i16 v w = wr_u16 (word_of_int v) w"

fun wr_shifts :: "nat list \<Rightarrow> 'a::len word \<Rightarrow> wire_writer \<Rightarrow> wire_writer" where
  "wr_shifts [] v w = w"
| "wr_shifts (shift # shifts) v w = wr_shifts shifts v (wr_u8 (ucast (drop_bit shift v)) w)"

definition wr_u32 :: "u32 \<Rightarrow> wire_writer \<Rightarrow> wire_writer" where
  "wr_u32 v w = wr_shifts (wire_shifts (wrOrder w) 4) v w"

definition wr_u64 :: "u64 \<Rightarrow> wire_writer \<Rightarrow> wire_writer" where
  "wr_u64 v w = wr_shifts (wire_shifts (wrOrder w) 8) v w"

definition wr_bytes :: "u8 list \<Rightarrow> wire_writer \<Rightarrow> wire_writer" where
  "wr_bytes bs w = w\<lparr>wrBytes := wrBytes w @ bs\<rparr>"

fun wr_string :: "string \<Rightarrow> wire_writer \<Rightarrow> wire_writer" where
  "wr_string [] w = w"
| "wr_string (c # cs) w = wr_string cs (wr_u8 (of_char c) w)"

definition wr_size :: "wire_writer \<Rightarrow> nat" where
  "wr_size w = length (wrBytes w)"

definition wr_pad :: "nat \<Rightarrow> wire_writer \<Rightarrow> wire_writer" where
  "wr_pad count w = w\<lparr>wrBytes := wrBytes w @ replicate count 0\<rparr>"

text \<open>\<open>pad((4 - (size() & 3)) & 3)\<close>; \<open>x & 3\<close> is the remainder modulo 4.\<close>

definition wr_pad_to_four :: "wire_writer \<Rightarrow> wire_writer" where
  "wr_pad_to_four w = wr_pad ((4 - wr_size w mod 4) mod 4) w"

subsection \<open>Values as byte sequences\<close>

definition assemble :: "(nat \<times> u8) list \<Rightarrow> 'a::len word \<Rightarrow> 'a word" where
  "assemble ps acc = fold (\<lambda>(s, b) w. w OR push_bit s (ucast b)) ps acc"

lemma assemble_rev: "assemble (rev ps) acc = assemble ps acc"
  unfolding assemble_def by (subst fold_rev) (auto simp: fun_eq_iff ac_simps)

lemma rd_accumulate_assemble:
  "rdOffset r + length shifts \<le> length (rdData r) \<Longrightarrow>
   rd_accumulate shifts r acc =
     (assemble (zip shifts (take (length shifts) (drop (rdOffset r) (rdData r)))) acc,
      r\<lparr>rdOffset := rdOffset r + length shifts\<rparr>)"
proof (induction shifts arbitrary: r acc)
  case Nil
  then show ?case by (simp add: assemble_def)
next
  case (Cons s shifts)
  then have "drop (rdOffset r) (rdData r) = rdData r ! rdOffset r # drop (Suc (rdOffset r)) (rdData r)"
    by (simp add: Cons_nth_drop_Suc)
  with Cons show ?case by (simp add: assemble_def)
qed

lemma assemble_take_bit:
  "assemble (map (\<lambda>i. (8 * i, ucast (drop_bit (8 * i) v))) [0..<n]) 0 = take_bit (8 * n) (v :: 'a::len word)"
proof (induction n)
  case 0
  then show ?case by (simp add: assemble_def)
next
  case (Suc n)
  have "take_bit (8 * n) v OR push_bit (8 * n) (ucast (ucast (drop_bit (8 * n) v) :: u8)) = take_bit (8 * Suc n) v"
    by (rule bit_word_eqI) (auto simp: bit_simps)
  with Suc show ?case by (simp add: assemble_def)
qed

lemma wr_shifts_bytes:
  "wr_shifts shifts v w = w\<lparr>wrBytes := wrBytes w @ map (\<lambda>s. ucast (drop_bit s v)) shifts\<rparr>"
  by (induction shifts arbitrary: w) (simp_all add: wr_u8_def)

text \<open>A value's bytes in the order the writer emits them.\<close>

definition wire_bytes :: "byte_order \<Rightarrow> nat \<Rightarrow> 'a::len word \<Rightarrow> u8 list" where
  "wire_bytes order n v = map (\<lambda>s. ucast (drop_bit s v)) (wire_shifts order n)"

lemma length_wire_shifts [simp]: "length (wire_shifts order n) = n"
  by (simp add: wire_shifts_def split: byte_order.split)

lemma length_wire_bytes [simp]: "length (wire_bytes order n v) = n"
  by (simp add: wire_bytes_def)

lemma zip_wire_shifts_bytes:
  "zip (wire_shifts order n) (wire_bytes order n v) =
     (let ps = map (\<lambda>i. (8 * i, ucast (drop_bit (8 * i) v))) [0..<n]
      in case order of Little \<Rightarrow> ps | Big \<Rightarrow> rev ps)"
  by (cases order)
    (simp_all add: wire_bytes_def wire_shifts_def zip_map_map zip_rev rev_map zip_same_conv_map o_def)

lemma assemble_wire_bytes:
  "assemble (zip (wire_shifts order n) (wire_bytes order n v)) 0 = take_bit (8 * n) v"
  using assemble_take_bit [of v n]
  by (simp add: zip_wire_shifts_bytes assemble_rev Let_def split: byte_order.split)

lemma rd_accumulate_wire_bytes:
  assumes "drop (rdOffset r) (rdData r) = wire_bytes order n v @ rest"
    and "rdOffset r \<le> length (rdData r)"
  shows "rd_accumulate (wire_shifts order n) r (0 :: 'a::len word) =
           (take_bit (8 * n) v, r\<lparr>rdOffset := rdOffset r + n\<rparr>)"
proof -
  have "length (rdData r) - rdOffset r = n + length rest"
    using arg_cong [OF assms(1), of length] by simp
  then have "rdOffset r + length (wire_shifts order n) \<le> length (rdData r)"
    using assms(2) by simp
  then show ?thesis
    using assms(1) by (simp add: rd_accumulate_assemble assemble_wire_bytes)
qed

lemma wr_u16_bytes: "wr_u16 v w = w\<lparr>wrBytes := wrBytes w @ wire_bytes (wrOrder w) 2 v\<rparr>"
  by (cases "wrOrder w") (simp_all add: wr_u16_def wr_u8_def wire_bytes_def wire_shifts_def upt_rec)

lemma wr_u32_bytes: "wr_u32 v w = w\<lparr>wrBytes := wrBytes w @ wire_bytes (wrOrder w) 4 v\<rparr>"
  by (simp add: wr_u32_def wr_shifts_bytes wire_bytes_def)

lemma wr_u64_bytes: "wr_u64 v w = w\<lparr>wrBytes := wrBytes w @ wire_bytes (wrOrder w) 8 v\<rparr>"
  by (simp add: wr_u64_def wr_shifts_bytes wire_bytes_def)

subsection \<open>Readers positioned in a buffer\<close>

text \<open>A reader is well formed while it stands inside its buffer; \<open>rd_left\<close> is what it has not read.\<close>

definition wf_reader :: "wire_reader \<Rightarrow> bool" where
  "wf_reader r \<longleftrightarrow> rdSize r = length (rdData r) \<and> rdOffset r \<le> rdSize r"

definition rd_left :: "wire_reader \<Rightarrow> u8 list" where
  "rd_left r = drop (rdOffset r) (rdData r)"

lemma rd_remaining_left: "wf_reader r \<Longrightarrow> rd_remaining r = length (rd_left r)"
  by (simp add: wf_reader_def rd_remaining_def rd_left_def)

lemma rd_left_advance:
  "rd_left r = bs @ rest \<Longrightarrow> rd_left (r\<lparr>rdOffset := rdOffset r + length bs\<rparr>) = rest"
  by (simp add: rd_left_def drop_drop [symmetric] add.commute [of "rdOffset r"] del: drop_drop)

lemma wf_reader_advance:
  "wf_reader r \<Longrightarrow> n \<le> rd_remaining r \<Longrightarrow> wf_reader (r\<lparr>rdOffset := rdOffset r + n\<rparr>)"
  by (auto simp: wf_reader_def rd_remaining_def)

lemma rd_nth_left:
  "wf_reader r \<Longrightarrow> i < rd_remaining r \<Longrightarrow> rdData r ! (rdOffset r + i) = rd_left r ! i"
  by (simp add: wf_reader_def rd_remaining_def rd_left_def)

lemma rd_u8_left:
  assumes "wf_reader r" "rd_left r = b # rest"
  shows "rd_u8 r = (Some b, r\<lparr>rdOffset := rdOffset r + 1\<rparr>)"
  using assms rd_nth_left [OF assms(1), of 0] by (simp add: rd_u8_def rd_remaining_left)

lemma rd_u16_left:
  assumes "wf_reader r" "rd_left r = wire_bytes (rdOrder r) 2 v @ rest"
  shows "rd_u16 r = (Some v, r\<lparr>rdOffset := rdOffset r + 2\<rparr>)"
proof -
  have v: "ucast (ucast v :: u8) OR push_bit 8 (ucast (ucast (drop_bit 8 v) :: u8)) = v"
    "push_bit 8 (ucast (ucast (drop_bit 8 v) :: u8)) OR ucast (ucast v :: u8) = v"
    by (rule bit_word_eqI, auto simp: bit_simps)+
  have n: "rd_remaining r = 2 + length rest"
    using assms by (simp add: rd_remaining_left)
  have "rdData r ! rdOffset r = wire_bytes (rdOrder r) 2 v ! 0"
    using rd_nth_left [OF assms(1), of 0] n assms(2) by (simp add: nth_append)
  moreover have "rdData r ! (rdOffset r + 1) = wire_bytes (rdOrder r) 2 v ! 1"
    using rd_nth_left [OF assms(1), of 1] n assms(2) by (simp add: nth_append)
  ultimately show ?thesis
    using v n by (cases "rdOrder r")
      (simp_all add: rd_u16_def Let_def wire_bytes_def wire_shifts_def upt_rec)
qed

lemma rd_u32_left:
  assumes "wf_reader r" "rd_left r = wire_bytes (rdOrder r) 4 v @ rest"
  shows "rd_u32 r = (Some v, r\<lparr>rdOffset := rdOffset r + 4\<rparr>)"
proof -
  have "rd_remaining r = 4 + length rest"
    using assms by (simp add: rd_remaining_left)
  then show ?thesis
    using rd_accumulate_wire_bytes [of r "rdOrder r" 4 v rest] assms
    by (simp add: rd_u32_def rd_left_def wf_reader_def take_bit_word_eq_self)
qed

lemma rd_u64_left:
  assumes "wf_reader r" "rd_left r = wire_bytes (rdOrder r) 8 v @ rest"
  shows "rd_u64 r = (Some v, r\<lparr>rdOffset := rdOffset r + 8\<rparr>)"
proof -
  have "rd_remaining r = 8 + length rest"
    using assms by (simp add: rd_remaining_left)
  then show ?thesis
    using rd_accumulate_wire_bytes [of r "rdOrder r" 8 v rest] assms
    by (simp add: rd_u64_def rd_left_def wf_reader_def take_bit_word_eq_self)
qed

subsection \<open>Sequences of typed fields\<close>

datatype wire_field = F8 u8 | F16 u16 | F32 u32 | F64 u64
datatype wire_kind = K8 | K16 | K32 | K64

fun field_kind :: "wire_field \<Rightarrow> wire_kind" where
  "field_kind (F8 _) = K8"
| "field_kind (F16 _) = K16"
| "field_kind (F32 _) = K32"
| "field_kind (F64 _) = K64"

fun write_field :: "wire_field \<Rightarrow> wire_writer \<Rightarrow> wire_writer" where
  "write_field (F8 v) w = wr_u8 v w"
| "write_field (F16 v) w = wr_u16 v w"
| "write_field (F32 v) w = wr_u32 v w"
| "write_field (F64 v) w = wr_u64 v w"

fun read_field :: "wire_kind \<Rightarrow> wire_reader \<Rightarrow> wire_field option \<times> wire_reader" where
  "read_field K8 r = (let (v, r') = rd_u8 r in (map_option F8 v, r'))"
| "read_field K16 r = (let (v, r') = rd_u16 r in (map_option F16 v, r'))"
| "read_field K32 r = (let (v, r') = rd_u32 r in (map_option F32 v, r'))"
| "read_field K64 r = (let (v, r') = rd_u64 r in (map_option F64 v, r'))"

fun read_fields :: "wire_kind list \<Rightarrow> wire_reader \<Rightarrow> wire_field list option \<times> wire_reader" where
  "read_fields [] r = (Some [], r)"
| "read_fields (k # ks) r =
     (case read_field k r of
        (None, r') \<Rightarrow> (None, r')
      | (Some f, r') \<Rightarrow> (let (fs, r'') = read_fields ks r' in (map_option ((#) f) fs, r'')))"

fun field_bytes :: "byte_order \<Rightarrow> wire_field \<Rightarrow> u8 list" where
  "field_bytes order (F8 v) = [v]"
| "field_bytes order (F16 v) = wire_bytes order 2 v"
| "field_bytes order (F32 v) = wire_bytes order 4 v"
| "field_bytes order (F64 v) = wire_bytes order 8 v"

lemma write_field_bytes:
  "write_field f w = w\<lparr>wrBytes := wrBytes w @ field_bytes (wrOrder w) f\<rparr>"
  by (cases f) (simp_all add: wr_u8_def wr_u16_bytes wr_u32_bytes wr_u64_bytes)

lemma write_fields_bytes:
  "fold write_field fs w = w\<lparr>wrBytes := wrBytes w @ concat (map (field_bytes (wrOrder w)) fs)\<rparr>"
  by (induction fs arbitrary: w) (simp_all add: write_field_bytes)

lemma read_field_left:
  assumes "wf_reader r" "rd_left r = field_bytes (rdOrder r) f @ rest"
  shows "read_field (field_kind f) r =
           (Some f, r\<lparr>rdOffset := rdOffset r + length (field_bytes (rdOrder r) f)\<rparr>)"
  using assms by (cases f) (simp_all add: rd_u8_left rd_u16_left rd_u32_left rd_u64_left)

lemma read_fields_left:
  assumes "wf_reader r" "rd_left r = concat (map (field_bytes (rdOrder r)) fs) @ rest"
  shows "read_fields (map field_kind fs) r =
           (Some fs, r\<lparr>rdOffset := rdOffset r + length (concat (map (field_bytes (rdOrder r)) fs))\<rparr>)"
  using assms
proof (induction fs arbitrary: r)
  case Nil
  then show ?case by simp
next
  case (Cons f fs)
  let ?n = "length (field_bytes (rdOrder r) f)"
  let ?r = "r\<lparr>rdOffset := rdOffset r + ?n\<rparr>"
  have left: "rd_left r = field_bytes (rdOrder r) f @
      (concat (map (field_bytes (rdOrder r)) fs) @ rest)"
    using Cons.prems(2) by simp
  have "wf_reader ?r"
    using Cons.prems(1) left by (simp add: wf_reader_advance rd_remaining_left)
  moreover have "rd_left ?r = concat (map (field_bytes (rdOrder ?r)) fs) @ rest"
    using rd_left_advance [OF left] by simp
  ultimately have "read_fields (map field_kind fs) ?r = (Some fs, ?r\<lparr>rdOffset := rdOffset ?r
      + length (concat (map (field_bytes (rdOrder ?r)) fs))\<rparr>)"
    by (rule Cons.IH)
  then show ?case
    using read_field_left [OF Cons.prems(1) left] by (simp add: add.assoc)
qed

text \<open>C35. Whatever sequence of 8-, 16-, 32- and 64-bit fields a writer emits, a reader of the
  same byte order over those bytes, whatever follows them in the buffer, returns the same fields
  and stands exactly behind them.\<close>

theorem wire_fields_roundtrip:
  "let bytes = wrBytes (fold write_field fs (wire_writer_init order));
       (result, r) = read_fields (map field_kind fs) (wire_reader_init (bytes @ rest) order)
   in result = Some fs \<and> rd_remaining r = length rest \<and> rdOffset r = length bytes"
proof -
  let ?bytes = "concat (map (field_bytes order) fs)"
  let ?r = "wire_reader_init (?bytes @ rest) order"
  have w: "wrBytes (fold write_field fs (wire_writer_init order)) = ?bytes"
    by (simp add: write_fields_bytes wire_writer_init_def)
  have "wf_reader ?r" "rd_left ?r = concat (map (field_bytes (rdOrder ?r)) fs) @ rest"
    by (simp_all add: wf_reader_def rd_left_def wire_reader_init_def)
  then have "read_fields (map field_kind fs) ?r =
      (Some fs, ?r\<lparr>rdOffset := rdOffset ?r + length (concat (map (field_bytes (rdOrder ?r)) fs))\<rparr>)"
    by (rule read_fields_left)
  then show ?thesis
    by (simp add: w wire_reader_init_def rd_remaining_def)
qed

text \<open>Width in bytes of a field kind: what the reader must have left.\<close>

fun kind_width :: "wire_kind \<Rightarrow> nat" where
  "kind_width K8 = 1"
| "kind_width K16 = 2"
| "kind_width K32 = 4"
| "kind_width K64 = 8"

lemma rd_accumulate_offset:
  "snd (rd_accumulate shifts r acc) = r\<lparr>rdOffset := rdOffset r + length shifts\<rparr>"
  by (induction shifts arbitrary: r acc) simp_all

lemma rd_u32_cases:
  "rd_u32 r = (if rd_remaining r < 4 then (None, r)
     else (Some (fst (rd_accumulate (wire_shifts (rdOrder r) 4) r 0)), r\<lparr>rdOffset := rdOffset r + 4\<rparr>))"
  by (simp add: rd_u32_def case_prod_beta rd_accumulate_offset)

lemma rd_u64_cases:
  "rd_u64 r = (if rd_remaining r < 8 then (None, r)
     else (Some (fst (rd_accumulate (wire_shifts (rdOrder r) 8) r 0)), r\<lparr>rdOffset := rdOffset r + 8\<rparr>))"
  by (simp add: rd_u64_def case_prod_beta rd_accumulate_offset)

lemma read_field_cases:
  "(rd_remaining r < kind_width k \<longrightarrow> read_field k r = (None, r)) \<and>
   (kind_width k \<le> rd_remaining r \<longrightarrow> (\<exists>f. field_kind f = k \<and>
      read_field k r = (Some f, r\<lparr>rdOffset := rdOffset r + kind_width k\<rparr>)))"
  by (cases k) (auto simp: rd_u8_def rd_u16_def Let_def rd_u32_cases rd_u64_cases)

text \<open>C36. Bounds: on a reader within its buffer every read either fails, because fewer bytes are
  left than the field is wide, and then consumes nothing, or returns a field of that kind and
  consumes exactly its width; in both cases the reader stays within its buffer.  Skipping has the
  same contract.\<close>

theorem wire_reads_bounded:
  assumes "wf_reader r"
  shows "(case read_field k r of
            (None, r') \<Rightarrow> rd_remaining r < kind_width k \<and> r' = r
          | (Some f, r') \<Rightarrow> field_kind f = k \<and> rd_remaining r = rd_remaining r' + kind_width k \<and> wf_reader r')
         \<and> (case rd_skip n r of
            (False, r') \<Rightarrow> rd_remaining r < n \<and> r' = r
          | (True, r') \<Rightarrow> rd_remaining r = rd_remaining r' + n \<and> wf_reader r')"
proof (intro conjI)
  show "case read_field k r of
          (None, r') \<Rightarrow> rd_remaining r < kind_width k \<and> r' = r
        | (Some f, r') \<Rightarrow> field_kind f = k \<and> rd_remaining r = rd_remaining r' + kind_width k \<and> wf_reader r'"
  proof (cases "rd_remaining r < kind_width k")
    case True
    then show ?thesis using read_field_cases [of r k] by simp
  next
    case False
    then obtain f where f: "field_kind f = k"
      "read_field k r = (Some f, r\<lparr>rdOffset := rdOffset r + kind_width k\<rparr>)"
      using read_field_cases [of r k] by auto
    moreover have "wf_reader (r\<lparr>rdOffset := rdOffset r + kind_width k\<rparr>)"
      using assms False by (intro wf_reader_advance) auto
    ultimately show ?thesis using False by (simp add: rd_remaining_def)
  qed
  show "case rd_skip n r of
          (False, r') \<Rightarrow> rd_remaining r < n \<and> r' = r
        | (True, r') \<Rightarrow> rd_remaining r = rd_remaining r' + n \<and> wf_reader r'"
    using assms by (auto simp: rd_skip_def wf_reader_def rd_remaining_def)
qed

theorem wire_reads_bounded_witness:
  "case read_field K32 (wire_reader_init [1, 2, 3] Big) of
     (None, r') \<Rightarrow> r' = wire_reader_init [1, 2, 3] Big | (Some f, r') \<Rightarrow> False"
proof -
  have "wf_reader (wire_reader_init [1, 2, 3] Big)"
    by (simp add: wf_reader_def wire_reader_init_def)
  from wire_reads_bounded [OF this, of K32 0] show ?thesis
    by (simp add: rd_u32_def rd_remaining_def wire_reader_init_def)
qed

lemma pad_four_mod: "(m + (4 - m mod 4) mod 4) mod 4 = (0 :: nat)"
proof -
  have "m mod 4 \<in> {0, 1, 2, 3}" using mod_less_divisor [of 4 m] by auto
  then show ?thesis by (auto simp: mod_add_left_eq [of m 4, symmetric])
qed

lemma pad_four_zero: "(4 - m mod 4) mod 4 = 0 \<longleftrightarrow> m mod 4 = (0 :: nat)"
proof -
  have "m mod 4 \<in> {0, 1, 2, 3}" using mod_less_divisor [of 4 m] by auto
  then show ?thesis by auto
qed

text \<open>\<open>pad_to_four\<close> appends fewer than four zero bytes and leaves a size that is a multiple of
  four; on an aligned writer it does nothing.\<close>

theorem wr_pad_to_four_aligns:
  "\<exists>n < 4. wrBytes (wr_pad_to_four w) = wrBytes w @ replicate n 0 \<and>
     wr_size (wr_pad_to_four w) mod 4 = 0 \<and> (n = 0 \<longleftrightarrow> wr_size w mod 4 = 0)"
proof -
  let ?n = "(4 - wr_size w mod 4) mod 4"
  have "?n < 4" by simp
  moreover have "(wr_size w + ?n) mod 4 = 0" "?n = 0 \<longleftrightarrow> wr_size w mod 4 = 0"
    by (simp_all add: pad_four_mod pad_four_zero)
  ultimately show ?thesis
    by (intro exI [of _ ?n]) (simp add: wr_pad_to_four_def wr_pad_def wr_size_def)
qed

end
