(* ===== verification/Color.thy ===== *)
theory Color
  imports Prelude
begin

text \<open>
  Colour names and TrueColor pixels (\<^verbatim>\<open>src/server/color.cpp\<close>).  Characters are HOL's 8-bit \<open>char\<close>;
  \<open>isspace\<close> and \<open>tolower\<close> are those of the C locale, which the server never leaves.
\<close>

record rgb_color =
  rgbRed :: u16
  rgbGreen :: u16
  rgbBlue :: u16

definition named_colors :: "(string \<times> rgb_color) list" where
  "named_colors = map (\<lambda>(n, r, g, b). (n, \<lparr>rgbRed = r, rgbGreen = g, rgbBlue = b\<rparr>))
    [(''black'', 0x0000, 0x0000, 0x0000),
     (''silver'', 0xc0c0, 0xc0c0, 0xc0c0),
     (''gray'', 0x8080, 0x8080, 0x8080),
     (''white'', 0xffff, 0xffff, 0xffff),
     (''maroon'', 0x8080, 0x0000, 0x0000),
     (''red'', 0xffff, 0x0000, 0x0000),
     (''purple'', 0x8080, 0x0000, 0x8080),
     (''fuchsia'', 0xffff, 0x0000, 0xffff),
     (''green'', 0x0000, 0x8080, 0x0000),
     (''lime'', 0x0000, 0xffff, 0x0000),
     (''olive'', 0x8080, 0x8080, 0x0000),
     (''yellow'', 0xffff, 0xffff, 0x0000),
     (''navy'', 0x0000, 0x0000, 0x8080),
     (''blue'', 0x0000, 0x0000, 0xffff),
     (''teal'', 0x0000, 0x8080, 0x8080),
     (''aqua'', 0x0000, 0xffff, 0xffff)]"

definition hex_digit :: "char \<Rightarrow> nat option" where
  "hex_digit c =
     (let d = of_char c :: nat
      in if of_char (CHR ''0'') \<le> d \<and> d \<le> of_char (CHR ''9'') then Some (d - of_char (CHR ''0''))
         else if of_char (CHR ''a'') \<le> d \<and> d \<le> of_char (CHR ''f'')
         then Some (d - of_char (CHR ''a'') + 10)
         else if of_char (CHR ''A'') \<le> d \<and> d \<le> of_char (CHR ''F'')
         then Some (d - of_char (CHR ''A'') + 10)
         else None)"

fun hex_value :: "string \<Rightarrow> u16 \<Rightarrow> u16 option" where
  "hex_value [] value = Some value"
| "hex_value (digit # digits) value =
     (case hex_digit digit of
        None \<Rightarrow> None
      | Some d \<Rightarrow> hex_value digits (push_bit 4 value + of_nat d))"

definition hex_component :: "string \<Rightarrow> u16 option" where
  "hex_component digits =
     map_option (\<lambda>value. if length digits = 1 then value * 0x1111
                         else if length digits = 2 then value * 0x0101 else value)
       (hex_value digits 0)"

definition c_isspace :: "char \<Rightarrow> bool" where
  "c_isspace c \<longleftrightarrow> (let n = of_char c :: nat in n = 32 \<or> (9 \<le> n \<and> n \<le> 13))"

definition c_tolower :: "char \<Rightarrow> char" where
  "c_tolower c = (let n = of_char c :: nat in if 65 \<le> n \<and> n \<le> 90 then char_of (n + 32) else c)"

definition normalized_name :: "string \<Rightarrow> string" where
  "normalized_name name =
     (let normalized = map c_tolower (filter (\<lambda>c. \<not> c_isspace c) name)
      in if normalized = ''grey'' then ''gray'' else normalized)"

definition parse_color :: "string \<Rightarrow> rgb_color option" where
  "parse_color name =
     (if name \<noteq> [] \<and> hd name = CHR ''#'' \<and> length name \<in> {4, 7, 13}
      then let digits = (length name - 1) div 3;
               red = hex_component (take digits (drop 1 name));
               green = hex_component (take digits (drop (1 + digits) name));
               blue = hex_component (take digits (drop (1 + digits * 2) name))
           in (case (red, green, blue) of
                 (Some r, Some g, Some b) \<Rightarrow> Some \<lparr>rgbRed = r, rgbGreen = g, rgbBlue = b\<rparr>
               | _ \<Rightarrow> None)
      else map_of named_colors (normalized_name name))"

definition true_color_pixel :: "rgb_color \<Rightarrow> u32" where
  "true_color_pixel color =
     push_bit 16 (ucast (drop_bit 8 (rgbRed color))) OR
     push_bit 8 (ucast (drop_bit 8 (rgbGreen color))) OR
     ucast (drop_bit 8 (rgbBlue color))"

definition true_color_rgb :: "u32 \<Rightarrow> rgb_color" where
  "true_color_rgb pixel =
     \<lparr>rgbRed = ucast (drop_bit 16 pixel AND 0xff) * 0x0101,
      rgbGreen = ucast (drop_bit 8 pixel AND 0xff) * 0x0101,
      rgbBlue = ucast (pixel AND 0xff) * 0x0101\<rparr>"

subsection \<open>Pixels\<close>

lemma mask_eight: "(0xff :: 'a::len word) = mask 8"
  by (simp add: mask_eq_exp_minus_1)

lemma replicate_byte:
  assumes "take_bit 8 v = (v :: u16)"
  shows "v * 0x0101 = push_bit 8 v OR v"
proof -
  have low: "bit v n \<Longrightarrow> n < 8" for n
    using assms by (metis bit_take_bit_iff)
  have "push_bit 8 v AND v = 0"
    by (rule bit_word_eqI) (auto simp: bit_simps dest: low)
  then have "push_bit 8 v + v = push_bit 8 v OR v"
    by (rule disjunctive_add_eq_or)
  then show ?thesis by (simp add: push_bit_eq_mult mult.commute)
qed

lemma bit_replicate_byte:
  assumes "take_bit 8 v = (v :: u16)" "n < 16"
  shows "bit (v * 0x0101) n \<longleftrightarrow> bit v (n mod 8)"
proof -
  have low: "bit v n \<Longrightarrow> n < 8" for n
    using assms(1) by (metis bit_take_bit_iff)
  show ?thesis
  proof (cases "n < 8")
    case True
    then show ?thesis by (simp add: replicate_byte [OF assms(1)] bit_or_iff bit_push_bit_iff)
  next
    case False
    then have "n mod 8 = n - 8" using assms(2) by (simp add: mod_if)
    with False assms(2) low [of n] show ?thesis
      by (auto simp: replicate_byte [OF assms(1)] bit_or_iff bit_push_bit_iff)
  qed
qed

lemma drop_replicate_byte:
  assumes "take_bit 8 v = (v :: u16)"
  shows "drop_bit 8 (v * 0x0101) = v"
proof (rule bit_word_eqI)
  fix n
  have low: "bit v n \<Longrightarrow> n < 8"
    using assms by (metis bit_take_bit_iff)
  assume "n < LENGTH(16)"
  show "bit (drop_bit 8 (v * 0x0101)) n = bit v n"
  proof (cases "n < 8")
    case True
    then show ?thesis
      using bit_replicate_byte [OF assms, of "n + 8"] by (simp add: bit_drop_bit_eq add.commute)
  next
    case False
    then have "\<not> bit (v * 0x0101) (8 + n)"
      using bit_imp_le_length [of "v * 0x0101" "8 + n"] by auto
    with False low show ?thesis by (auto simp: bit_drop_bit_eq)
  qed
qed

lemma byte_of_pixel: "take_bit 8 (ucast (drop_bit k pixel AND 0xff :: u32) :: u16) = ucast (drop_bit k pixel AND 0xff)"
  by (rule bit_word_eqI) (auto simp: bit_simps mask_eight)

lemma pixel_of_rgb: "true_color_pixel (true_color_rgb pixel) = take_bit 24 pixel"
proof -
  have e: "drop_bit 8 (ucast (drop_bit k pixel AND 0xff) * 0x0101 :: u16) = ucast (drop_bit k pixel AND 0xff)" for k
    by (rule drop_replicate_byte) (rule byte_of_pixel)
  have e0: "drop_bit 8 (ucast (pixel AND 0xff) * 0x0101 :: u16) = ucast (pixel AND 0xff)"
    using e [of 0] by simp
  show ?thesis
    unfolding true_color_pixel_def true_color_rgb_def rgb_color.simps e e0
    by (rule bit_word_eqI, case_tac "n < 16") (auto simp: bit_simps mask_eight)
qed

text \<open>Pixels and colours agree: the colour read from a pixel gives the pixel back, up to the
  unused top byte; every colour survives the pixel in its upper byte, replicated into the lower.\<close>

theorem true_color_roundtrip:
  "true_color_pixel (true_color_rgb pixel) = take_bit 24 pixel \<and>
   true_color_rgb (true_color_pixel color) =
     \<lparr>rgbRed = drop_bit 8 (rgbRed color) * 0x0101, rgbGreen = drop_bit 8 (rgbGreen color) * 0x0101,
      rgbBlue = drop_bit 8 (rgbBlue color) * 0x0101\<rparr>"
proof
  have c: "ucast (drop_bit 16 (true_color_pixel color) AND 0xff) = drop_bit 8 (rgbRed color)"
    "ucast (drop_bit 8 (true_color_pixel color) AND 0xff) = drop_bit 8 (rgbGreen color)"
    "ucast (true_color_pixel color AND 0xff) = drop_bit 8 (rgbBlue color)"
    unfolding true_color_pixel_def
    by (rule bit_word_eqI, auto simp: bit_simps mask_eight dest: bit_imp_le_length)+
  show "true_color_rgb (true_color_pixel color) =
     \<lparr>rgbRed = drop_bit 8 (rgbRed color) * 0x0101, rgbGreen = drop_bit 8 (rgbGreen color) * 0x0101,
      rgbBlue = drop_bit 8 (rgbBlue color) * 0x0101\<rparr>"
    by (simp only: true_color_rgb_def c)
qed (rule pixel_of_rgb)

text \<open>Names are matched without regard to case and white space, and \<open>grey\<close> is \<open>gray\<close>.\<close>

lemma parse_color_examples:
  "parse_color '' Light'' = None" "parse_color ''GREY'' = parse_color '' g r a y''"
  "parse_color ''#f80'' = Some \<lparr>rgbRed = 0xffff, rgbGreen = 0x8888, rgbBlue = 0\<rparr>"
  "parse_color ''#fg0'' = None"
  by code_simp+

end
