(* ===== verification/Property_Data.thy ===== *)
theory Property_Data
  imports Wire
begin

text \<open>
  Property bytes (\<^verbatim>\<open>src/server/property_data.cpp\<close>).  Properties are stored in a canonical little
  endian form; \<open>canonical_property_data\<close> reads a client's bytes, \<open>wire_property_data\<close> writes
  them for a client.  The writer indexes its buffer without checks, so the model yields
  \<open>None\<close> where the source would read outside it or, for formats below 8, never end.
\<close>

lemma rd_u16_decreases: "rd_u16 r = (Some v, r') \<Longrightarrow> rd_remaining r' < rd_remaining r"
  by (auto simp: rd_u16_def rd_remaining_def Let_def split: if_splits)

lemma rd_u32_decreases: "rd_u32 r = (Some v, r') \<Longrightarrow> rd_remaining r' < rd_remaining r"
  using rd_u32_cases [of r]
  by (auto simp: rd_remaining_def rd_u32_def split: if_splits)

text \<open>The reading loop; \<open>canonical\<close> is what has been pushed.\<close>

function canonical_units :: "nat \<Rightarrow> wire_reader \<Rightarrow> u8 list \<Rightarrow> u8 list option" where
  "canonical_units format r canonical =
     (if rd_remaining r = 0 then Some canonical
      else if format = 16
      then (case rd_u16 r of
              (None, _) \<Rightarrow> None
            | (Some v, r') \<Rightarrow>
                canonical_units format r' (canonical @ [ucast v, ucast (drop_bit 8 v)]))
      else (case rd_u32 r of
              (None, _) \<Rightarrow> None
            | (Some v, r') \<Rightarrow>
                canonical_units format r'
                  (canonical @ map (\<lambda>shift. ucast (drop_bit shift v)) [0, 8, 16, 24])))"
  by pat_completeness auto
termination
  by (relation "measure (\<lambda>(format, r, canonical). rd_remaining r)")
    (auto dest: rd_u16_decreases [OF sym] rd_u32_decreases [OF sym])

declare canonical_units.simps [simp del]

definition canonical_property_data :: "u8 list \<Rightarrow> nat \<Rightarrow> byte_order \<Rightarrow> u8 list option" where
  "canonical_property_data data format order =
     (if format = 8 then Some data
      else canonical_units format (wire_reader_init data order) [])"

text \<open>\<open>data[i]\<close>, defined inside the buffer only.\<close>

definition byte_at :: "u8 list \<Rightarrow> nat \<Rightarrow> u8 option" where
  "byte_at data i = (if i < length data then Some (data ! i) else None)"

partial_function (option) wire_units ::
  "nat \<Rightarrow> u8 list \<Rightarrow> nat \<Rightarrow> wire_writer \<Rightarrow> wire_writer option" where
  "wire_units format data offset w =
     (if \<not> offset < length data then Some w
      else if format = 16
      then Option.bind (byte_at data offset) (\<lambda>a.
           Option.bind (byte_at data (offset + 1)) (\<lambda>b.
             wire_units format data (offset + format div 8)
               (wr_u16 (ucast a OR push_bit 8 (ucast b)) w)))
      else Option.bind (byte_at data offset) (\<lambda>a.
           Option.bind (byte_at data (offset + 1)) (\<lambda>b.
           Option.bind (byte_at data (offset + 2)) (\<lambda>c.
           Option.bind (byte_at data (offset + 3)) (\<lambda>d.
             wire_units format data (offset + format div 8)
               (wr_u32 (ucast a OR push_bit 8 (ucast b) OR push_bit 16 (ucast c)
                        OR push_bit 24 (ucast d)) w))))))"

definition wire_property_data :: "u8 list \<Rightarrow> nat \<Rightarrow> byte_order \<Rightarrow> u8 list option" where
  "wire_property_data data format order =
     (if format = 8 then Some data
      else map_option wrBytes (wire_units format data 0 (wire_writer_init order)))"

subsection \<open>Property data as a list of units\<close>

text \<open>The bytes of a list of 16- or 32-bit values in an order.\<close>

definition units_bytes :: "byte_order \<Rightarrow> nat \<Rightarrow> 'a::len word list \<Rightarrow> u8 list" where
  "units_bytes order n vs = concat (map (wire_bytes order n) vs)"

lemma units_bytes_simps [simp]:
  "units_bytes order n [] = []"
  "units_bytes order n (v # vs) = wire_bytes order n v @ units_bytes order n vs"
  by (simp_all add: units_bytes_def)

lemma wire_bytes_Little_2: "wire_bytes Little 2 v = [ucast v, ucast (drop_bit 8 v)]"
  by (simp add: wire_bytes_def wire_shifts_def upt_rec)

lemma wire_bytes_Little_4:
  "wire_bytes Little 4 v = map (\<lambda>shift. ucast (drop_bit shift v)) [0, 8, 16, 24]"
  by (simp add: wire_bytes_def wire_shifts_def upt_rec)

lemma canonical_units_16:
  "wf_reader r \<Longrightarrow> rd_left r = units_bytes (rdOrder r) 2 (vs :: u16 list) \<Longrightarrow>
   canonical_units 16 r acc = Some (acc @ units_bytes Little 2 vs)"
proof (induction vs arbitrary: r acc)
  case Nil
  then show ?case by (subst canonical_units.simps) (simp add: rd_remaining_left)
next
  case (Cons v vs)
  let ?r = "r\<lparr>rdOffset := rdOffset r + 2\<rparr>"
  have left: "rd_left r = wire_bytes (rdOrder r) 2 v @ units_bytes (rdOrder r) 2 vs"
    using Cons.prems by simp
  have rem: "rd_remaining r = 2 + length (units_bytes (rdOrder r) 2 vs)"
    using Cons.prems left by (simp add: rd_remaining_left)
  have "rd_left ?r = units_bytes (rdOrder r) 2 vs" using rd_left_advance [OF left] by simp
  moreover have "wf_reader ?r" using wf_reader_advance [OF Cons.prems(1), of 2] rem by simp
  ultimately have "canonical_units 16 ?r a = Some (a @ units_bytes Little 2 vs)" for a
    using Cons.IH [of ?r a] by simp
  then show ?case using rem rd_u16_left [OF Cons.prems(1) left]
    by (subst canonical_units.simps) (simp add: wire_bytes_Little_2)
qed

lemma canonical_units_32:
  "wf_reader r \<Longrightarrow> rd_left r = units_bytes (rdOrder r) 4 (vs :: u32 list) \<Longrightarrow>
   canonical_units 32 r acc = Some (acc @ units_bytes Little 4 vs)"
proof (induction vs arbitrary: r acc)
  case Nil
  then show ?case by (subst canonical_units.simps) (simp add: rd_remaining_left)
next
  case (Cons v vs)
  let ?r = "r\<lparr>rdOffset := rdOffset r + 4\<rparr>"
  have left: "rd_left r = wire_bytes (rdOrder r) 4 v @ units_bytes (rdOrder r) 4 vs"
    using Cons.prems by simp
  have rem: "rd_remaining r = 4 + length (units_bytes (rdOrder r) 4 vs)"
    using Cons.prems left by (simp add: rd_remaining_left)
  have "rd_left ?r = units_bytes (rdOrder r) 4 vs" using rd_left_advance [OF left] by simp
  moreover have "wf_reader ?r" using wf_reader_advance [OF Cons.prems(1), of 4] rem by simp
  ultimately have "canonical_units 32 ?r a = Some (a @ units_bytes Little 4 vs)" for a
    using Cons.IH [of ?r a] by simp
  then show ?case using rem rd_u32_left [OF Cons.prems(1) left]
    by (subst canonical_units.simps) (simp add: wire_bytes_Little_4)
qed

lemma wire_reader_init_left [simp]:
  "wf_reader (wire_reader_init data order)" "rd_left (wire_reader_init data order) = data"
  "rdOrder (wire_reader_init data order) = order"
  by (simp_all add: wf_reader_def rd_left_def wire_reader_init_def)

lemma canonical_property_data_16:
  "canonical_property_data (units_bytes order 2 (vs :: u16 list)) 16 order
     = Some (units_bytes Little 2 vs)"
  by (simp add: canonical_property_data_def canonical_units_16)

lemma canonical_property_data_32:
  "canonical_property_data (units_bytes order 4 (vs :: u32 list)) 32 order
     = Some (units_bytes Little 4 vs)"
  by (simp add: canonical_property_data_def canonical_units_32)

lemma byte_at_append [simp]:
  "byte_at (pre @ xs) (length pre + i) = byte_at xs i"
  by (simp add: byte_at_def nth_append)

lemma byte_at_append0 [simp]: "byte_at (pre @ xs) (length pre) = byte_at xs 0"
  using byte_at_append [of pre xs 0] by simp

lemma word_of_bytes_2:
  "(ucast (ucast v :: u8) OR push_bit 8 (ucast (ucast (drop_bit 8 v) :: u8))) = (v :: u16)"
  by (rule bit_word_eqI) (auto simp: bit_simps)

lemma word_of_bytes_4:
  "(ucast (ucast v :: u8) OR push_bit 8 (ucast (ucast (drop_bit 8 v) :: u8))
     OR push_bit 16 (ucast (ucast (drop_bit 16 v) :: u8))
     OR push_bit 24 (ucast (ucast (drop_bit 24 v) :: u8))) = (v :: u32)"
proof (rule bit_word_eqI)
  fix n assume "n < LENGTH(32)"
  then show "bit (ucast (ucast v :: u8) OR push_bit 8 (ucast (ucast (drop_bit 8 v) :: u8))
     OR push_bit 16 (ucast (ucast (drop_bit 16 v) :: u8))
     OR push_bit 24 (ucast (ucast (drop_bit 24 v) :: u8)) :: u32) n = bit v n"
    by (cases "n < 8"; cases "n < 16"; cases "n < 24") (auto simp: bit_simps)
qed

lemma wire_units_16:
  "wire_units 16 (pre @ units_bytes Little 2 (vs :: u16 list)) (length pre) w =
     Some (w\<lparr>wrBytes := wrBytes w @ units_bytes (wrOrder w) 2 vs\<rparr>)"
proof (induction vs arbitrary: pre w)
  case Nil
  then show ?case by (subst wire_units.simps) simp
next
  case (Cons v vs)
  have "wire_units 16 (pre @ units_bytes Little 2 (v # vs)) (length pre) w =
      wire_units 16 ((pre @ wire_bytes Little 2 v) @ units_bytes Little 2 vs)
        (length (pre @ wire_bytes Little 2 v)) (wr_u16 v w)"
    by (subst wire_units.simps)
      (simp add: wire_bytes_Little_2 byte_at_def word_of_bytes_2 nth_append)
  also have "\<dots> = Some (w\<lparr>wrBytes := wrBytes w @ units_bytes (wrOrder w) 2 (v # vs)\<rparr>)"
    by (subst Cons.IH) (simp add: wr_u16_bytes)
  finally show ?case .
qed

lemma wire_units_32:
  "wire_units 32 (pre @ units_bytes Little 4 (vs :: u32 list)) (length pre) w =
     Some (w\<lparr>wrBytes := wrBytes w @ units_bytes (wrOrder w) 4 vs\<rparr>)"
proof (induction vs arbitrary: pre w)
  case Nil
  then show ?case by (subst wire_units.simps) simp
next
  case (Cons v vs)
  have b: "byte_at (pre @ wire_bytes Little 4 v @ rest) (length pre + i) = Some (wire_bytes Little 4 v ! i)"
    if "i < 4" for i rest
    using that by (simp add: byte_at_def nth_append)
  have four: "length pre + 4 = Suc (Suc (Suc (Suc (length pre))))" by simp
  have "wire_units 32 (pre @ units_bytes Little 4 (v # vs)) (length pre) w =
      wire_units 32 ((pre @ wire_bytes Little 4 v) @ units_bytes Little 4 vs)
        (length (pre @ wire_bytes Little 4 v)) (wr_u32 v w)"
    using b [of 0 "units_bytes Little 4 vs"] b [of 1 "units_bytes Little 4 vs"]
      b [of 2 "units_bytes Little 4 vs"] b [of 3 "units_bytes Little 4 vs"]
    by (subst wire_units.simps)
      (simp add: wire_bytes_Little_4 word_of_bytes_4 [simplified] four)
  also have "\<dots> = Some (w\<lparr>wrBytes := wrBytes w @ units_bytes (wrOrder w) 4 (v # vs)\<rparr>)"
    by (subst Cons.IH) (simp add: wr_u32_bytes)
  finally show ?case .
qed

text \<open>Property data crosses the server unchanged between clients of either byte order: what a
  client of order \<open>from\<close> sends as a list of 16- or 32-bit values is stored little endian, and a
  client of order \<open>to\<close> receives the same values in its own order; the stored form is canonical,
  and format 8 is kept as it is.\<close>

theorem property_data_roundtrip:
  fixes vs :: "u16 list" and ws :: "u32 list"
  shows "canonical_property_data (units_bytes from 2 vs) 16 from = Some (units_bytes Little 2 vs) \<and>
    wire_property_data (units_bytes Little 2 vs) 16 to = Some (units_bytes to 2 vs) \<and>
    canonical_property_data (units_bytes from 4 ws) 32 from = Some (units_bytes Little 4 ws) \<and>
    wire_property_data (units_bytes Little 4 ws) 32 to = Some (units_bytes to 4 ws) \<and>
    canonical_property_data bs 8 from = Some bs \<and> wire_property_data bs 8 to = Some bs"
  using wire_units_16 [of "[]" vs "wire_writer_init to"] wire_units_32 [of "[]" ws "wire_writer_init to"]
  by (simp add: canonical_property_data_16 canonical_property_data_32 wire_property_data_def
      canonical_property_data_def [of bs] wire_writer_init_def)

end
