(* ===== verification/Containers.thy ===== *)
theory Containers
  imports Prelude "HOL-Library.AList"
begin

text \<open>
  The model of \<^verbatim>\<open>std::unordered_map\<close>.  A map is an association list with distinct keys; the
  list order stands for the iteration order of the container, which the standard leaves open, so
  the theorems of the development hold for lists in any order.  \<open>find\<close> is \<open>map_of\<close>, assignment
  through \<open>operator[]\<close> is \<open>AList.update\<close>, \<open>erase(key)\<close> is \<open>AList.delete\<close>.

  The contract every component relies on is the locale \<open>keyed_store\<close>; it is interpreted on these
  operations at the end of the theory.
\<close>

type_synonym ('k, 'v) umap = "('k \<times> 'v) list"

definition umap_ok :: "('k, 'v) umap \<Rightarrow> bool" where
  "umap_ok m \<longleftrightarrow> distinct (map fst m)"

definition umap_find :: "'k \<Rightarrow> ('k, 'v) umap \<Rightarrow> 'v option" where
  "umap_find k m = map_of m k"

definition umap_contains :: "'k \<Rightarrow> ('k, 'v) umap \<Rightarrow> bool" where
  "umap_contains k m \<longleftrightarrow> umap_find k m \<noteq> None"

text \<open>\<open>emplace\<close>: the second component says whether the key was new.\<close>

definition umap_emplace :: "'k \<Rightarrow> 'v \<Rightarrow> ('k, 'v) umap \<Rightarrow> ('k, 'v) umap \<times> bool" where
  "umap_emplace k v m = (if umap_contains k m then (m, False) else (m @ [(k, v)], True))"

definition umap_put :: "'k \<Rightarrow> 'v \<Rightarrow> ('k, 'v) umap \<Rightarrow> ('k, 'v) umap" where
  "umap_put k v m = AList.update k v m"

definition umap_erase :: "'k \<Rightarrow> ('k, 'v) umap \<Rightarrow> ('k, 'v) umap" where
  "umap_erase k m = AList.delete k m"

text \<open>The erase-while-iterating loops: every entry the predicate selects is removed.\<close>

definition umap_erase_if :: "('k \<Rightarrow> 'v \<Rightarrow> bool) \<Rightarrow> ('k, 'v) umap \<Rightarrow> ('k, 'v) umap" where
  "umap_erase_if P m = filter (\<lambda>(k, v). \<not> P k v) m"

definition umap_map :: "('k \<Rightarrow> 'v \<Rightarrow> 'v) \<Rightarrow> ('k, 'v) umap \<Rightarrow> ('k, 'v) umap" where
  "umap_map f m = map (\<lambda>(k, v). (k, f k v)) m"

subsection \<open>Lookup after each operation\<close>

lemma umap_find_Nil [simp, map_simps]: "umap_find k [] = None"
  by (simp add: umap_find_def)

lemma umap_find_put [simp, map_simps]:
  "umap_find j (umap_put k v m) = (if j = k then Some v else umap_find j m)"
  by (simp add: umap_find_def umap_put_def update_conv)

lemma umap_find_erase [simp, map_simps]:
  "umap_find j (umap_erase k m) = (if j = k then None else umap_find j m)"
  by (simp add: umap_find_def umap_erase_def delete_conv)

lemma umap_find_emplace [map_simps]:
  "umap_find j (fst (umap_emplace k v m)) =
     (if j = k \<and> \<not> umap_contains k m then Some v else umap_find j m)"
  by (auto simp: umap_emplace_def umap_contains_def umap_find_def map_add_def split: option.splits)

lemma umap_find_erase_if [map_simps]:
  assumes "umap_ok m"
  shows "umap_find j (umap_erase_if P m) =
     (case umap_find j m of None \<Rightarrow> None | Some v \<Rightarrow> if P j v then None else Some v)"
  using assms
  by (induction m)
    (auto simp: umap_ok_def umap_find_def umap_erase_if_def map_of_eq_None_iff split: option.splits)

lemma umap_find_map [simp, map_simps]:
  "umap_find j (umap_map f m) = map_option (f j) (umap_find j m)"
  by (induction m) (auto simp: umap_find_def umap_map_def)

subsection \<open>Well-formedness\<close>

lemma umap_ok_Nil [simp]: "umap_ok []"
  by (simp add: umap_ok_def)

lemma umap_ok_put [simp]: "umap_ok m \<Longrightarrow> umap_ok (umap_put k v m)"
  by (simp add: umap_ok_def umap_put_def distinct_update)

lemma umap_ok_erase [simp]: "umap_ok m \<Longrightarrow> umap_ok (umap_erase k m)"
  by (simp add: umap_ok_def umap_erase_def distinct_delete)

lemma umap_contains_keys: "umap_contains k m \<longleftrightarrow> k \<in> fst ` set m"
  by (simp add: umap_contains_def umap_find_def map_of_eq_None_iff)

lemma umap_find_keys: "umap_find k m = None \<longleftrightarrow> k \<notin> fst ` set m"
  by (simp add: umap_find_def map_of_eq_None_iff)

lemma umap_ok_emplace [simp]: "umap_ok m \<Longrightarrow> umap_ok (fst (umap_emplace k v m))"
  by (auto simp: umap_ok_def umap_emplace_def umap_contains_keys)

lemma umap_ok_erase_if [simp]: "umap_ok m \<Longrightarrow> umap_ok (umap_erase_if P m)"
  by (induction m) (auto simp: umap_ok_def umap_erase_if_def)

lemma map_fst_umap_map [simp]: "map fst (umap_map f m) = map fst m"
  by (induction m) (auto simp: umap_map_def)

lemma umap_ok_map [simp]: "umap_ok (umap_map f m) = umap_ok m"
  by (simp add: umap_ok_def)

lemma length_umap_map [simp]: "length (umap_map f m) = length m"
  by (simp add: umap_map_def)

lemma umap_find_in: "umap_ok m \<Longrightarrow> umap_find k m = Some v \<longleftrightarrow> (k, v) \<in> set m"
  by (simp add: umap_ok_def umap_find_def)

lemma umap_find_mem: "umap_find k m = Some v \<Longrightarrow> (k, v) \<in> set m"
  by (simp add: umap_find_def map_of_SomeD)

lemma keys_put: "fst ` set (umap_put k v m) = insert k (fst ` set m)"
  by (simp add: umap_put_def dom_map_of_conv_image_fst [symmetric] update_conv')

lemma keys_erase: "fst ` set (umap_erase k m) = fst ` set m - {k}"
  by (simp add: umap_erase_def dom_map_of_conv_image_fst [symmetric] delete_conv' dom_fun_upd)

lemma set_umap_erase: "set (umap_erase k m) = {e \<in> set m. fst e \<noteq> k}"
  by (auto simp: umap_erase_def AList.delete_eq)

lemma set_umap_put: "umap_ok m \<Longrightarrow> set (umap_put k v m) = insert (k, v) {e \<in> set m. fst e \<noteq> k}"
  by (induction m) (force simp: umap_put_def umap_ok_def)+

lemma umap_map_map: "umap_map f (umap_map g m) = umap_map (\<lambda>k v. f k (g k v)) m"
  by (simp add: umap_map_def comp_def case_prod_beta)

lemma umap_map_same: "(\<And>k v. umap_find k m = Some v \<Longrightarrow> f k v = v) \<Longrightarrow> umap_ok m \<Longrightarrow> umap_map f m = m"
  by (auto simp: umap_map_def umap_find_in intro!: map_idI)

lemma umap_put_map: "umap_ok m \<Longrightarrow> umap_find k m \<noteq> None \<Longrightarrow> umap_put k v m = umap_map (\<lambda>j u. if j = k then v else u) m"
proof (induction m)
  case (Cons e m)
  show ?case
  proof (cases "fst e = k")
    case True
    then have "umap_find k m = None" "umap_ok m" using Cons.prems(1) by (auto simp: umap_ok_def umap_find_keys)
    then have "umap_map (\<lambda>j u. if j = k then v else u) m = m" by (intro umap_map_same) auto
    with True show ?thesis by (cases e) (simp add: umap_put_def umap_map_def)
  next
    case False
    with Cons show ?thesis
      by (cases e) (simp add: umap_put_def umap_map_def umap_ok_def umap_find_def del: not_None_eq)
  qed
qed simp

lemma umap_map_cong: "(\<And>k v. umap_find k m = Some v \<Longrightarrow> f k v = g k v) \<Longrightarrow> umap_ok m \<Longrightarrow> umap_map f m = umap_map g m"
  by (auto simp: umap_map_def umap_find_in)

subsection \<open>Sums over the entries\<close>

definition umap_sum :: "('v \<Rightarrow> nat) \<Rightarrow> ('k, 'v) umap \<Rightarrow> nat" where
  "umap_sum f m = sum_list (map (\<lambda>e. f (snd e)) m)"

lemma umap_sum_Nil [simp]: "umap_sum f [] = 0"
  by (simp add: umap_sum_def)

lemma umap_sum_put:
  "umap_ok m \<Longrightarrow> umap_sum f (umap_put k v m) + (case umap_find k m of None \<Rightarrow> 0 | Some u \<Rightarrow> f u)
     = umap_sum f m + f v"
  by (induction m)
    (auto simp: umap_sum_def umap_put_def umap_find_def umap_ok_def split: option.splits)

lemma umap_sum_erase:
  "umap_ok m \<Longrightarrow> umap_sum f (umap_erase k m) + (case umap_find k m of None \<Rightarrow> 0 | Some u \<Rightarrow> f u)
     = umap_sum f m"
proof (induction m)
  case Nil
  then show ?case by (simp add: umap_erase_def)
next
  case (Cons e m)
  obtain j u where e: "e = (j, u)" by (cases e)
  show ?case
  proof (cases "j = k")
    case True
    with Cons.prems e have "k \<notin> fst ` set m" by (simp add: umap_ok_def)
    then have "AList.delete k m = m" by (simp add: AList.delete_eq filter_id_conv) force
    with True e show ?thesis by (simp add: umap_sum_def umap_erase_def umap_find_def)
  next
    case False
    with Cons e show ?thesis
      by (simp add: umap_sum_def umap_erase_def umap_find_def umap_ok_def)
  qed
qed

lemma umap_sum_find_le: "umap_find k m = Some v \<Longrightarrow> f v \<le> umap_sum f m"
  by (induction m) (auto simp: umap_sum_def umap_find_def split: if_splits)

lemma length_umap_erase_in:
  "umap_ok m \<Longrightarrow> umap_contains k m \<Longrightarrow> Suc (length (umap_erase k m)) = length m"
  using umap_sum_erase [of m "\<lambda>_. 1" k]
  by (auto simp: umap_contains_def umap_sum_def sum_list_triv split: option.splits)

subsection \<open>The store contract\<close>

text \<open>What a table of the server promises its clients: lookups after an insertion, an assignment
  and a removal, and the well-formedness each keeps.\<close>

locale keyed_store =
  fixes lookup :: "'k \<Rightarrow> 'm \<Rightarrow> 'v option"
    and put :: "'k \<Rightarrow> 'v \<Rightarrow> 'm \<Rightarrow> 'm"
    and emplace :: "'k \<Rightarrow> 'v \<Rightarrow> 'm \<Rightarrow> 'm \<times> bool"
    and erase :: "'k \<Rightarrow> 'm \<Rightarrow> 'm"
    and ok :: "'m \<Rightarrow> bool"
  assumes lookup_put: "lookup j (put k v m) = (if j = k then Some v else lookup j m)"
    and lookup_erase: "lookup j (erase k m) = (if j = k then None else lookup j m)"
    and lookup_emplace: "lookup j (fst (emplace k v m)) =
          (if j = k \<and> lookup k m = None then Some v else lookup j m)"
    and emplace_new: "snd (emplace k v m) \<longleftrightarrow> lookup k m = None"
    and ok_put: "ok m \<Longrightarrow> ok (put k v m)"
    and ok_erase: "ok m \<Longrightarrow> ok (erase k m)"
    and ok_emplace: "ok m \<Longrightarrow> ok (fst (emplace k v m))"
begin

lemma erase_put: "lookup j (erase k (put k v m)) = lookup j (erase k m)"
  by (simp add: lookup_put lookup_erase)

lemma put_put: "lookup j (put k v (put k u m)) = lookup j (put k v m)"
  by (simp add: lookup_put)

lemma emplace_present: "lookup k m = Some u \<Longrightarrow> lookup j (fst (emplace k v m)) = lookup j m"
  by (simp add: lookup_emplace)

lemma emplace_erase_rollback:
  "lookup k m = None \<Longrightarrow> lookup j (erase k (fst (emplace k v m))) = lookup j m"
  by (simp add: lookup_emplace lookup_erase)

end

lemma umap_emplace_new: "snd (umap_emplace k v m) \<longleftrightarrow> umap_find k m = None"
  by (simp add: umap_emplace_def umap_contains_def)

interpretation umap: keyed_store umap_find umap_put umap_emplace umap_erase umap_ok
  by unfold_locales (auto simp: umap_find_emplace umap_contains_def umap_emplace_new)

subsection \<open>Vectors searched by a key\<close>

text \<open>\<^verbatim>\<open>find_if\<close> followed by an erasure or an assignment through the iterator.\<close>

fun remove_first :: "('a \<Rightarrow> bool) \<Rightarrow> 'a list \<Rightarrow> 'a list" where
  "remove_first P [] = []"
| "remove_first P (x # xs) = (if P x then xs else x # remove_first P xs)"

fun update_first :: "('a \<Rightarrow> bool) \<Rightarrow> ('a \<Rightarrow> 'a) \<Rightarrow> 'a list \<Rightarrow> 'a list" where
  "update_first P f [] = []"
| "update_first P f (x # xs) = (if P x then f x # xs else x # update_first P f xs)"

lemma find_remove_first:
  "distinct (map key xs) \<Longrightarrow>
     find (\<lambda>x. key x = j) (remove_first (\<lambda>x. key x = k) xs) =
       (if j = k then None else find (\<lambda>x. key x = j) xs)"
  by (induction xs) (auto simp: find_None_iff image_iff)

lemma find_update_first:
  "(\<And>x. key x = k \<Longrightarrow> key (f x) = k) \<Longrightarrow>
     find (\<lambda>x. key x = j) (update_first (\<lambda>x. key x = k) f xs) =
       (if j = k then map_option f (find (\<lambda>x. key x = j) xs) else find (\<lambda>x. key x = j) xs)"
  by (induction xs) auto

lemma map_key_update_first [simp]: "(\<And>x. P x \<Longrightarrow> key (f x) = key x) \<Longrightarrow> map key (update_first P f xs) = map key xs"
  by (induction xs) auto

lemma length_update_first [simp]: "length (update_first P f xs) = length xs"
  by (induction xs) auto

lemma set_remove_first: "set (remove_first P xs) \<subseteq> set xs"
  by (induction xs) auto

lemma length_remove_first: "length (remove_first P xs) \<le> length xs"
  by (induction xs) auto

lemma set_update_first: "x \<in> set (update_first P f xs) \<Longrightarrow> x \<in> set xs \<or> (\<exists>y \<in> set xs. x = f y)"
  by (induction xs) (auto split: if_splits)

lemma distinct_remove_first: "distinct (map key xs) \<Longrightarrow> distinct (map key (remove_first P xs))"
proof (induction xs)
  case (Cons x xs)
  then show ?case using set_remove_first [of P xs] by auto
qed simp

end
