(* ===== verification/Atoms.thy ===== *)
theory Atoms
  imports Containers
begin

text \<open>
  The atom table (\<^verbatim>\<open>src/server/atom_table.cpp\<close>): names interned to consecutive identifiers from 1,
  the 68 predefined ones first.  \<open>atNames\<close> is the vector whose entry 0 is the empty string,
  \<open>atIds\<close> the map back.
\<close>

definition maximum_atoms :: nat where
  "maximum_atoms = 4096"

record atom_table =
  atNames :: "string list"
  atIds :: "(string, u32) umap"

definition predefined_atoms :: "string list" where
  "predefined_atoms = [
    ''PRIMARY'', ''SECONDARY'', ''ARC'', ''ATOM'', ''BITMAP'', ''CARDINAL'',
    ''COLORMAP'', ''CURSOR'', ''CUT_BUFFER0'', ''CUT_BUFFER1'', ''CUT_BUFFER2'',
    ''CUT_BUFFER3'', ''CUT_BUFFER4'', ''CUT_BUFFER5'', ''CUT_BUFFER6'',
    ''CUT_BUFFER7'', ''DRAWABLE'', ''FONT'', ''INTEGER'', ''PIXMAP'', ''POINT'',
    ''RECTANGLE'', ''RESOURCE_MANAGER'', ''RGB_COLOR_MAP'', ''RGB_BEST_MAP'',
    ''RGB_BLUE_MAP'', ''RGB_DEFAULT_MAP'', ''RGB_GRAY_MAP'', ''RGB_GREEN_MAP'',
    ''RGB_RED_MAP'', ''STRING'', ''VISUALID'', ''WINDOW'', ''WM_COMMAND'',
    ''WM_HINTS'', ''WM_CLIENT_MACHINE'', ''WM_ICON_NAME'', ''WM_ICON_SIZE'',
    ''WM_NAME'', ''WM_NORMAL_HINTS'', ''WM_SIZE_HINTS'', ''WM_ZOOM_HINTS'',
    ''MIN_SPACE'', ''NORM_SPACE'', ''MAX_SPACE'', ''END_SPACE'',
    ''SUPERSCRIPT_X'', ''SUPERSCRIPT_Y'', ''SUBSCRIPT_X'', ''SUBSCRIPT_Y'',
    ''UNDERLINE_POSITION'', ''UNDERLINE_THICKNESS'', ''STRIKEOUT_ASCENT'',
    ''STRIKEOUT_DESCENT'', ''ITALIC_ANGLE'', ''X_HEIGHT'', ''QUAD_WIDTH'',
    ''WEIGHT'', ''POINT_SIZE'', ''RESOLUTION'', ''COPYRIGHT'', ''NOTICE'',
    ''FONT_NAME'', ''FAMILY_NAME'', ''FULL_NAME'', ''CAP_HEIGHT'', ''WM_CLASS'',
    ''WM_TRANSIENT_FOR'']"

definition atom_table_size :: "atom_table \<Rightarrow> nat" where
  "atom_table_size t = size_sub (length (atNames t)) 1"

definition intern :: "string \<Rightarrow> bool \<Rightarrow> atom_table \<Rightarrow> u32 \<times> atom_table" where
  "intern name only_if_exists t =
     (case umap_find name (atIds t) of
        Some found \<Rightarrow> (found, t)
      | None \<Rightarrow>
          if only_if_exists then (0, t)
          else if maximum_atoms \<le> atom_table_size t then (0, t)
          else let id = of_nat (length (atNames t))
               in (id, t\<lparr>atNames := atNames t @ [name],
                         atIds := fst (umap_emplace name id (atIds t))\<rparr>))"

definition atom_name :: "u32 \<Rightarrow> atom_table \<Rightarrow> string option" where
  "atom_name atom t =
     (if atom = 0 \<or> length (atNames t) \<le> unat atom then None
      else Some (atNames t ! unat atom))"

definition atom_table_init :: atom_table where
  "atom_table_init =
     fold (\<lambda>atom t. snd (intern atom False t)) predefined_atoms \<lparr>atNames = [[]], atIds = []\<rparr>"

subsection \<open>The table invariant\<close>

text \<open>The two containers describe the same numbering: the map sends exactly the names after the
  first to their positions, and the table is within its limit.\<close>

definition atoms_ok :: "atom_table \<Rightarrow> bool" where
  "atoms_ok t \<longleftrightarrow> atNames t \<noteq> [] \<and> length (atNames t) \<le> maximum_atoms + 1 \<and>
     (\<forall>name k. umap_find name (atIds t) = Some k \<longleftrightarrow>
        0 < unat k \<and> unat k < length (atNames t) \<and> atNames t ! unat k = name)"

lemma atoms_ok_find:
  "atoms_ok t \<Longrightarrow> umap_find name (atIds t) = Some k \<longleftrightarrow>
     0 < unat k \<and> unat k < length (atNames t) \<and> atNames t ! unat k = name"
  by (simp add: atoms_ok_def)

lemma atoms_ok_name:
  "atoms_ok t \<Longrightarrow> atom_name k t = Some name \<longleftrightarrow> umap_find name (atIds t) = Some k"
  by (auto simp: atoms_ok_find atom_name_def unat_gt_0)

lemma atoms_ok_size: "atoms_ok t \<Longrightarrow> length (atNames t) = Suc (atom_table_size t)"
  by (cases "atNames t") (simp_all add: atoms_ok_def atom_table_size_def)

lemma unat_length_names:
  "atoms_ok t \<Longrightarrow> unat (of_nat (length (atNames t)) :: u32) = length (atNames t)"
  by (rule of_nat_inverse) (auto simp: atoms_ok_def maximum_atoms_def)

lemma intern_ok:
  assumes "atoms_ok t"
  shows "atoms_ok (snd (intern name only t))"
proof (cases "umap_find name (atIds t) = None \<and> \<not> only \<and> atom_table_size t < maximum_atoms")
  case False
  with assms show ?thesis by (auto simp: intern_def Let_def split: option.split)
next
  case True
  let ?n = "length (atNames t)" and ?id = "of_nat (length (atNames t)) :: u32"
  have n: "0 < ?n" "?n < maximum_atoms + 1" "unat ?id = ?n"
    using assms True unat_length_names [OF assms] atoms_ok_size [OF assms] by simp_all
  have eq: "k = ?id \<longleftrightarrow> unat k = ?n" for k
    using n(3) by (metis word_unat_eq_iff)
  have step: "snd (intern name only t) =
      t\<lparr>atNames := atNames t @ [name], atIds := fst (umap_emplace name ?id (atIds t))\<rparr>"
    using True by (simp add: intern_def Let_def)
  have "umap_find m (fst (umap_emplace name ?id (atIds t))) = Some k \<longleftrightarrow>
      0 < unat k \<and> unat k < Suc ?n \<and> (atNames t @ [name]) ! unat k = m" for m k
  proof (cases "m = name")
    case m: True
    have "\<not> (0 < unat k \<and> unat k < ?n \<and> atNames t ! unat k = name)"
      using atoms_ok_find [OF assms, of name k] True by simp
    then show ?thesis
      using m True n(1) by (auto simp: umap_find_emplace umap_contains_def eq [symmetric]
          nth_append less_Suc_eq n(3))
  next
    case False
    then show ?thesis
      using n(1) by (auto simp: umap_find_emplace atoms_ok_find [OF assms] nth_append less_Suc_eq)
  qed
  with n(1,2) step show ?thesis by (simp add: atoms_ok_def)
qed

lemma atoms_ok_empty: "atoms_ok \<lparr>atNames = [[]], atIds = []\<rparr>"
  by (auto simp: atoms_ok_def)

lemma atoms_ok_init: "atoms_ok atom_table_init"
proof -
  have "atoms_ok t \<Longrightarrow> atoms_ok (fold (\<lambda>atom t. snd (intern atom False t)) names t)" for names t
    by (induction names arbitrary: t) (simp_all add: intern_ok)
  then show ?thesis by (simp add: atom_table_init_def atoms_ok_empty)
qed

lemma intern_keeps_names:
  assumes "atoms_ok t" "atom_name a t = Some n"
  shows "atom_name a (snd (intern name only t)) = Some n"
  using assms
  by (auto simp: intern_def atom_name_def Let_def nth_append split: option.split if_splits)

lemma intern_name:
  assumes "atoms_ok t" "fst (intern name only t) \<noteq> 0"
  shows "atom_name (fst (intern name only t)) (snd (intern name only t)) = Some name"
proof (cases "umap_find name (atIds t)")
  case (Some k)
  with assms(1) show ?thesis by (simp add: intern_def atoms_ok_name)
next
  case None
  with assms unat_length_names [OF assms(1)] show ?thesis
    by (auto simp: intern_def atom_name_def Let_def split: if_splits)
qed

text \<open>C39. Interning and naming are inverse on a table in its invariant, which every call keeps: a
  non-zero answer of \<open>intern\<close> names the string, known atoms are never renumbered or renamed,
  interning a name again gives the same atom and leaves the table alone, asking
  \<open>only_if_exists\<close> changes nothing, and 0 is answered only for an unknown name that was
  not to be created or does not fit.\<close>

theorem atom_intern_name:
  assumes "atoms_ok t" and "intern name only t = (a, t')"
  shows "atoms_ok t' \<and>
    (a \<noteq> 0 \<longrightarrow> atom_name a t' = Some name \<and> intern name only' t' = (a, t')) \<and>
    (\<forall>b n. atom_name b t = Some n \<longrightarrow> atom_name b t' = Some n) \<and>
    (only \<longrightarrow> t' = t) \<and>
    (a = 0 \<longleftrightarrow> (\<forall>b. atom_name b t \<noteq> Some name) \<and> (only \<or> atom_table_size t = maximum_atoms))"
proof -
  have a: "a = fst (intern name only t)" and t': "t' = snd (intern name only t)"
    using assms(2) by simp_all
  have ok: "atoms_ok t'" using intern_ok [OF assms(1)] t' by simp
  have nm: "a \<noteq> 0 \<Longrightarrow> atom_name a t' = Some name"
    using intern_name [OF assms(1)] a t' by simp
  then have again: "a \<noteq> 0 \<Longrightarrow> intern name only' t' = (a, t')"
    using atoms_ok_name [OF ok] by (simp add: intern_def)
  have keep: "\<forall>b n. atom_name b t = Some n \<longrightarrow> atom_name b t' = Some n"
    using intern_keeps_names [OF assms(1)] t' by blast
  have zero: "a = 0 \<longleftrightarrow> (\<forall>b. atom_name b t \<noteq> Some name) \<and> (only \<or> atom_table_size t = maximum_atoms)"
  proof (cases "umap_find name (atIds t)")
    case (Some k)
    then have "a = k" "0 < unat k"
      using assms(2) Some atoms_ok_find [OF assms(1), of name k] by (simp_all add: intern_def)
    then have "a \<noteq> 0" by auto
    with Some show ?thesis by (auto simp: atoms_ok_name [OF assms(1)])
  next
    case None
    have "(of_nat (length (atNames t)) :: u32) \<noteq> 0"
      using unat_length_names [OF assms(1)] assms(1) by (metis atoms_ok_def length_0_conv unat_0)
    with None assms atoms_ok_size [OF assms(1)] show ?thesis
      by (auto simp: atoms_ok_name intern_def Let_def atoms_ok_def split: if_splits)
  qed
  have "only \<longrightarrow> t' = t" using t' by (auto simp: intern_def split: option.split)
  with ok nm again keep zero show ?thesis by blast
qed

lemma predefined_atoms_numbered:
  "length predefined_atoms = 68" "distinct predefined_atoms"
  by (simp_all add: predefined_atoms_def)

lemma intern_new_names:
  "atoms_ok t \<Longrightarrow> distinct names \<Longrightarrow> set names \<inter> set (tl (atNames t)) = {} \<Longrightarrow>
   atom_table_size t + length names \<le> maximum_atoms \<Longrightarrow>
   atNames (fold (\<lambda>atom t. snd (intern atom False t)) names t) = atNames t @ names"
proof (induction names arbitrary: t)
  case Nil
  then show ?case by simp
next
  case (Cons n names)
  have "umap_find n (atIds t) = None"
  proof (rule ccontr)
    assume "umap_find n (atIds t) \<noteq> None"
    then obtain k where "umap_find n (atIds t) = Some k" by auto
    then have "0 < unat k" "unat k < length (atNames t)" "atNames t ! unat k = n"
      using atoms_ok_find [OF Cons.prems(1), of n k] by simp_all
    moreover then obtain i where "unat k = Suc i" by (cases "unat k") simp_all
    ultimately have "tl (atNames t) ! i = n" "i < length (tl (atNames t))"
      using nth_tl [of i "atNames t"] by auto
    then have "n \<in> set (tl (atNames t))" by (metis nth_mem)
    with Cons.prems(3) show False by simp
  qed
  then have s: "atNames (snd (intern n False t)) = atNames t @ [n]"
    using Cons.prems(4) by (simp add: intern_def Let_def)
  have ok: "atoms_ok (snd (intern n False t))" using intern_ok [OF Cons.prems(1)] .
  have "atNames t \<noteq> []" using Cons.prems(1) by (simp add: atoms_ok_def)
  then have "atNames (fold (\<lambda>atom t. snd (intern atom False t)) names (snd (intern n False t)))
      = (atNames t @ [n]) @ names"
    using Cons.prems s atoms_ok_size [OF ok] atoms_ok_size [OF Cons.prems(1)]
    by (subst Cons.IH) (auto simp: ok)
  then show ?case by simp
qed

lemma atom_table_init_names: "atNames atom_table_init = [] # predefined_atoms"
  unfolding atom_table_init_def
  by (subst intern_new_names)
    (simp_all add: atoms_ok_empty predefined_atoms_numbered atom_table_size_def maximum_atoms_def)

theorem atom_intern_name_witness:
  "intern ''WM_NAME'' True atom_table_init = (39, atom_table_init) \<and>
   atom_name 39 (snd (intern ''WM_NAME'' True atom_table_init)) = Some ''WM_NAME''"
proof -
  have n: "atom_name 39 atom_table_init = Some ''WM_NAME''"
    by (simp add: atom_name_def atom_table_init_names predefined_atoms_def)
  obtain a t' where i: "intern ''WM_NAME'' True atom_table_init = (a, t')" by force
  have "a = 39" "t' = atom_table_init"
    using i n atoms_ok_name [OF atoms_ok_init] by (simp_all add: intern_def)
  with atom_intern_name [OF atoms_ok_init i] i show ?thesis by simp
qed

end
