(* ===== verification/Events.thy ===== *)
theory Events
  imports Prelude
begin

text \<open>
  The events the server delivers to clients (\<^verbatim>\<open>src/server/include/xmin/server/client_event.hpp\<close>).
  Each structure of the header is a constructor whose arguments are the structure's members in
  order, or a record of them for the largest ones; the \<open>std::variant\<close> is split by protocol family.  The member \<open>sequence\<close>, which every
  structure has and which only \<open>queue_event\<close> writes, is held once, in the record \<open>client_event\<close>.
  Coordinates are integers; identifiers, masks, times and codes are words.
\<close>

datatype selection_event =
    SelectionClear u32 u32 u32                    \<comment> \<open>time, window, selection\<close>
  | SelectionRequest u32 u32 u32 u32 u32 u32      \<comment> \<open>time, owner, requestor, selection, target, property\<close>
  | SelectionNotify u32 u32 u32 u32 u32           \<comment> \<open>time, requestor, selection, target, property\<close>

datatype message_event =
    ClientMessage u8 u32 u32 "u32 list"           \<comment> \<open>format, window, type, data (20 words)\<close>
  | PropertyNotify u8 u32 u32 u32                 \<comment> \<open>state, window, atom, time\<close>
  | MappingNotify u8 u8 u8                        \<comment> \<open>request, first_keycode, count\<close>

datatype window_event =
    CreateNotify u32 u32 int int int int int bool
      \<comment> \<open>parent, window, x, y, width, height, border_width, override_redirect\<close>
  | MapNotify u32 u32 bool                        \<comment> \<open>event, window, override_redirect\<close>
  | MapRequest u32 u32                            \<comment> \<open>parent, window\<close>
  | VisibilityNotify u32 u8                       \<comment> \<open>window, state\<close>
  | Expose u32 int int int int int                \<comment> \<open>window, x, y, width, height, count\<close>
  | NoExpose u32 u16 u8                           \<comment> \<open>drawable, minor_opcode, major_opcode\<close>
  | ConfigureNotify u32 u32 u32 int int int int int bool
      \<comment> \<open>event, window, above_sibling, x, y, width, height, border_width, override_redirect\<close>
  | ConfigureRequest u8 u32 u32 u32 int int int int int u16
      \<comment> \<open>stack_mode, parent, window, sibling, x, y, width, height, border_width, value_mask\<close>
  | ResizeRequest u32 int int                     \<comment> \<open>window, width, height\<close>
  | CirculateNotify u32 u32 u8                    \<comment> \<open>event, window, place\<close>
  | CirculateRequest u32 u32 u8                   \<comment> \<open>parent, window, place\<close>
  | UnmapNotify u32 u32 bool                      \<comment> \<open>event, window, from_configure\<close>

datatype extension_event =
    ShapeNotify u8 u32 int int int int u32 bool   \<comment> \<open>kind, window, x, y, width, height, time, shaped\<close>
  | SyncCounterNotify u32 int int u32 nat bool
      \<comment> \<open>counter, wait_value, counter_value, time, count, destroyed\<close>
  | SyncAlarmNotify u32 int int u32 u8            \<comment> \<open>alarm, counter_value, alarm_value, time, state\<close>
  | XFixesSelectionNotify u8 u32 u32 u32 u32 u32
      \<comment> \<open>subtype, window, owner, selection, time, selection_time\<close>
  | XFixesCursorNotify u8 u32 u32 u32 u32         \<comment> \<open>subtype, window, cursor_serial, time, name\<close>

datatype randr_event =
    RandrScreenChangeNotify u32 u32 u32 int int int int u16
      \<comment> \<open>timestamp, config_timestamp, request_window, width, height, mm_width, mm_height, rotation\<close>
  | RandrNotify u8 u32 u32 u32 u32 u32 u32 u32 int int int int u16 u8 u8 u8
      \<comment> \<open>subtype, timestamp, config_timestamp, window, crtc, output, mode, atom, x, y, width,
          height, rotation, connection, subpixel_order, property_status\<close>

datatype drawing_event =
    DamageNotify u8 u32 u32 u32 int int int int int int int int
      \<comment> \<open>level, drawable, damage, timestamp, area x y width height, geometry x y width height\<close>
  | PresentConfigureNotify u32 u32 int int int int int int int int u32
      \<comment> \<open>event, window, x, y, width, height, off_x, off_y, pixmap_width, pixmap_height, flags\<close>
  | PresentCompleteNotify u8 u8 u32 u32 u32 u64 u64
      \<comment> \<open>kind, mode, event, window, serial, ust, msc\<close>
  | PresentIdleNotify u32 u32 u32 u32 u32         \<comment> \<open>event, window, serial, pixmap, idle_fence\<close>

datatype xkb_event =
    XkbStateNotify u32 u8 u8 u8 u8 u8 u8 int int u8 u16 u16 u8 u8 u8 u8
      \<comment> \<open>time, device, mods, base_mods, latched_mods, locked_mods, group, base_group,
          latched_group, locked_group, pointer_buttons, changed, keycode, event_type,
          request_major, request_minor\<close>
  | XkbMapNotify u32 u8 u16 u8 u8 u8 u8 u8 u8 u8 u8
      \<comment> \<open>time, device, changed, min_keycode, max_keycode, first_type, type_count, first_keysym,
          keysym_count, first_modmap, modmap_count\<close>
  | XkbControlsNotify u32 u8 u8 u32 u32 u32 u8 u8 u8 u8
      \<comment> \<open>time, device, groups, changed, enabled, enabled_changes, keycode, event_type,
          request_major, request_minor\<close>

record core_input_event =
  ivType :: u8
  ivDetail :: u8
  ivTime :: u32
  ivRoot :: u32
  ivEvent :: u32
  ivChild :: u32
  ivRootX :: int
  ivRootY :: int
  ivEventX :: int
  ivEventY :: int
  ivState :: u16
  ivSameScreen :: bool

record crossing_event =
  cvType :: u8
  cvDetail :: u8
  cvTime :: u32
  cvRoot :: u32
  cvEvent :: u32
  cvChild :: u32
  cvRootX :: int
  cvRootY :: int
  cvEventX :: int
  cvEventY :: int
  cvState :: u16
  cvMode :: u8
  cvSameScreen :: bool
  cvFocus :: bool

datatype input_event =
    CoreInput core_input_event
  | Crossing crossing_event
  | Focus u8 u8 u32 u8                            \<comment> \<open>type, detail, event, mode\<close>

record xi2_device_event =
  xdType :: u16
  xdDevice :: u16
  xdSource :: u16
  xdTime :: u32
  xdDetail :: u32
  xdRoot :: u32
  xdEvent :: u32
  xdChild :: u32
  xdRootX :: int
  xdRootY :: int
  xdEventX :: int
  xdEventY :: int
  xdButtons :: u32
  xdBaseMods :: u8
  xdLatchedMods :: u8
  xdLockedMods :: u8
  xdEffectiveMods :: u8
  xdBaseGroup :: u8
  xdLatchedGroup :: u8
  xdLockedGroup :: u8
  xdEffectiveGroup :: u8
  xdFlags :: u32

record xi2_crossing_event =
  xvType :: u16
  xvDevice :: u16
  xvSource :: u16
  xvTime :: u32
  xvMode :: u8
  xvDetail :: u8
  xvRoot :: u32
  xvEvent :: u32
  xvChild :: u32
  xvRootX :: int
  xvRootY :: int
  xvEventX :: int
  xvEventY :: int
  xvButtons :: u32
  xvBaseMods :: u8
  xvLatchedMods :: u8
  xvLockedMods :: u8
  xvEffectiveMods :: u8
  xvBaseGroup :: u8
  xvLatchedGroup :: u8
  xvLockedGroup :: u8
  xvEffectiveGroup :: u8
  xvSameScreen :: bool
  xvFocus :: bool

datatype xi2_event =
    Xi2Device xi2_device_event
  | Xi2Raw u16 u16 u16 u32 u32 int int u32
      \<comment> \<open>event_type, device, source, time, detail, root_x, root_y, flags\<close>
  | Xi2Property u16 u32 u32 u8                    \<comment> \<open>device, time, property, what\<close>
  | Xi2Crossing xi2_crossing_event

datatype event_body =
    EvSelection selection_event
  | EvMessage message_event
  | EvWindow window_event
  | EvExtension extension_event
  | EvRandr randr_event
  | EvDrawing drawing_event
  | EvXkb xkb_event
  | EvInput input_event
  | EvXi2 xi2_event

record client_event =
  ceBody :: event_body
  ceSequence :: u16

text \<open>A planned event: the client it is for and what it says.\<close>

type_synonym planned_event = "u32 \<times> event_body"

end
