(* ===== verification/Event_Queue.thy ===== *)
theory Event_Queue
  imports Containers Events
begin

text \<open>
  Clients, their event queues and the atomic delivery of planned events
  (\<^verbatim>\<open>src/server/server_state.cpp\<close>: \<open>register_client\<close> to \<open>queue_events_atomically\<close>, and
  \<open>has_pending_event\<close>, \<open>next_event\<close>, \<open>pop_event\<close>).  The state record is the first layer of
  \<open>ServerState\<close>; the records of the other components extend it, so every operation here works on
  the whole server state.  Allocation failure is not modelled.
\<close>

definition maximum_pending_events_per_client :: nat where
  "maximum_pending_events_per_client = 256"

definition maximum_pending_events :: nat where
  "maximum_pending_events = 4096"

record queue_state =
  ssClients :: "(u32 \<times> u16) list"
  ssEventQueues :: "(u32, client_event list) umap"
  ssPendingEvents :: nat
  ssCurrentTime :: u32
  ssClientsToTerminate :: "u32 list"
  ssSyncPriorities :: "(u32, int) umap"

datatype event_delivery = Delivered | NoRecipient | QueueFull

subsection \<open>Clients\<close>

definition register_client :: "u32 \<Rightarrow> 'a queue_state_scheme \<Rightarrow> bool \<times> 'a queue_state_scheme" where
  "register_client client s =
     (if client = 0 then (False, s)
      else if List.find (\<lambda>e. fst e = client) (ssClients s) \<noteq> None then (True, s)
      else (True, s\<lparr>ssClients := ssClients s @ [(client, 0)],
                    ssSyncPriorities := fst (umap_emplace client 0 (ssSyncPriorities s))\<rparr>))"

fun set_first_sequence :: "u32 \<Rightarrow> u16 \<Rightarrow> (u32 \<times> u16) list \<Rightarrow> (u32 \<times> u16) list" where
  "set_first_sequence client sequence [] = []"
| "set_first_sequence client sequence (e # es) =
     (if fst e = client then (fst e, sequence) # es
      else e # set_first_sequence client sequence es)"

definition note_client_sequence :: "u32 \<Rightarrow> u16 \<Rightarrow> 'a queue_state_scheme \<Rightarrow> 'a queue_state_scheme" where
  "note_client_sequence client sequence s =
     s\<lparr>ssClients := set_first_sequence client sequence (ssClients s)\<rparr>"

definition client_sequence :: "'a queue_state_scheme \<Rightarrow> u32 \<Rightarrow> u16" where
  "client_sequence s client =
     (case List.find (\<lambda>e. fst e = client) (ssClients s) of None \<Rightarrow> 0 | Some e \<Rightarrow> snd e)"

definition client_termination_requested :: "'a queue_state_scheme \<Rightarrow> u32 \<Rightarrow> bool" where
  "client_termination_requested s client \<longleftrightarrow> client \<in> set (ssClientsToTerminate s)"

text \<open>The server clock skips the reserved time 0 (CurrentTime) when it wraps.\<close>

definition advance_time :: "'a queue_state_scheme \<Rightarrow> 'a queue_state_scheme" where
  "advance_time s =
     (let t = ssCurrentTime s + 1 in s\<lparr>ssCurrentTime := (if t = 0 then 1 else t)\<rparr>)"

text \<open>Times are compared through the sign of their difference, so the order survives wrapping.\<close>

definition later_than :: "u32 \<Rightarrow> u32 \<Rightarrow> bool" where
  "later_than left right \<longleftrightarrow> sint (left - right) > 0"

definition earlier_than :: "u32 \<Rightarrow> u32 \<Rightarrow> bool" where
  "earlier_than left right \<longleftrightarrow> sint (left - right) < 0"

subsection \<open>One queue\<close>

definition queued_events :: "'a queue_state_scheme \<Rightarrow> u32 \<Rightarrow> client_event list" where
  "queued_events s client = (case umap_find client (ssEventQueues s) of None \<Rightarrow> [] | Some q \<Rightarrow> q)"

definition can_queue_event :: "'a queue_state_scheme \<Rightarrow> u32 \<Rightarrow> bool" where
  "can_queue_event s client \<longleftrightarrow>
     \<not> (client = 0 \<or> maximum_pending_events \<le> ssPendingEvents s) \<and>
     (case umap_find client (ssEventQueues s) of
        None \<Rightarrow> True
      | Some q \<Rightarrow> length q < maximum_pending_events_per_client)"

definition queue_event ::
  "u32 \<Rightarrow> event_body \<Rightarrow> 'a queue_state_scheme \<Rightarrow> bool \<times> 'a queue_state_scheme" where
  "queue_event client event s =
     (if \<not> can_queue_event s client then (False, s)
      else let stamped = \<lparr>ceBody = event, ceSequence = client_sequence s client\<rparr>
           in (True, s\<lparr>ssEventQueues :=
                         umap_put client (queued_events s client @ [stamped]) (ssEventQueues s),
                       ssPendingEvents := ssPendingEvents s + 1\<rparr>))"

definition has_pending_event :: "'a queue_state_scheme \<Rightarrow> u32 \<Rightarrow> bool" where
  "has_pending_event s client \<longleftrightarrow>
     (case umap_find client (ssEventQueues s) of None \<Rightarrow> False | Some q \<Rightarrow> q \<noteq> [])"

definition next_event :: "'a queue_state_scheme \<Rightarrow> u32 \<Rightarrow> client_event option" where
  "next_event s client =
     (case umap_find client (ssEventQueues s) of
        None \<Rightarrow> None
      | Some [] \<Rightarrow> None
      | Some (e # _) \<Rightarrow> Some e)"

definition pop_event :: "u32 \<Rightarrow> 'a queue_state_scheme \<Rightarrow> 'a queue_state_scheme" where
  "pop_event client s =
     (case umap_find client (ssEventQueues s) of
        None \<Rightarrow> s
      | Some [] \<Rightarrow> s
      | Some (_ # rest) \<Rightarrow>
          s\<lparr>ssEventQueues := (if rest = [] then umap_erase client (ssEventQueues s)
                              else umap_put client rest (ssEventQueues s)),
            ssPendingEvents := size_sub (ssPendingEvents s) 1\<rparr>)"

subsection \<open>Atomic delivery\<close>

text \<open>The validation loop: every recipient is a client, and for each event the events planned for
  the same recipient up to it fit into what its queue has left.\<close>

fun validate_planned :: "'a queue_state_scheme \<Rightarrow> planned_event list \<Rightarrow> planned_event list \<Rightarrow> bool" where
  "validate_planned s previous [] = True"
| "validate_planned s previous (event # events) =
     (let recipient = fst event;
          additions = 1 + length (filter (\<lambda>p. fst p = recipient) previous);
          queued = (case umap_find recipient (ssEventQueues s) of None \<Rightarrow> 0 | Some q \<Rightarrow> length q)
      in if recipient = 0 then False
         else if size_sub maximum_pending_events_per_client queued < additions then False
         else validate_planned s (previous @ [event]) events)"

text \<open>The rollback of the delivery loop: the failed recipient's empty queue is dropped, then the
  events delivered so far are taken back, newest first.\<close>

fun unqueue_events :: "planned_event list \<Rightarrow> 'a queue_state_scheme \<Rightarrow> 'a queue_state_scheme" where
  "unqueue_events [] s = s"
| "unqueue_events (event # events) s =
     (case umap_find (fst event) (ssEventQueues s) of
        None \<Rightarrow> unqueue_events events s
      | Some q \<Rightarrow>
          if q = [] then unqueue_events events s
          else unqueue_events events
            (s\<lparr>ssEventQueues := (if butlast q = [] then umap_erase (fst event) (ssEventQueues s)
                                 else umap_put (fst event) (butlast q) (ssEventQueues s)),
               ssPendingEvents := size_sub (ssPendingEvents s) 1\<rparr>))"

definition drop_empty_queue :: "u32 \<Rightarrow> 'a queue_state_scheme \<Rightarrow> 'a queue_state_scheme" where
  "drop_empty_queue client s =
     (if umap_find client (ssEventQueues s) = Some []
      then s\<lparr>ssEventQueues := umap_erase client (ssEventQueues s)\<rparr> else s)"

text \<open>The delivery loop; \<open>delivered\<close> holds the events queued so far, newest first.\<close>

fun deliver_planned ::
  "planned_event list \<Rightarrow> planned_event list \<Rightarrow> 'a queue_state_scheme \<Rightarrow> bool \<times> 'a queue_state_scheme" where
  "deliver_planned delivered [] s = (True, s)"
| "deliver_planned delivered (event # events) s =
     (let (queued, s') = queue_event (fst event) (snd event) s
      in if queued then deliver_planned (event # delivered) events s'
         else (False, unqueue_events delivered (drop_empty_queue (fst event) s')))"

definition queue_events_atomically ::
  "planned_event list \<Rightarrow> 'a queue_state_scheme \<Rightarrow> bool \<times> 'a queue_state_scheme" where
  "queue_events_atomically events s =
     (if size_sub maximum_pending_events (ssPendingEvents s) < length events then (False, s)
      else if \<not> validate_planned s [] events then (False, s)
      else deliver_planned [] events s)"

subsection \<open>The queue invariant\<close>

text \<open>What the queues always satisfy: one queue per client, none of them for the server itself,
  none empty, none over its limit, and the total counted in \<open>pending_events_\<close> and bounded.\<close>

definition queues_ok :: "'a queue_state_scheme \<Rightarrow> bool" where
  "queues_ok s \<longleftrightarrow>
     umap_ok (ssEventQueues s) \<and>
     (\<forall>(client, q) \<in> set (ssEventQueues s). client \<noteq> 0 \<and> q \<noteq> [] \<and>
        length q \<le> maximum_pending_events_per_client) \<and>
     ssPendingEvents s = umap_sum length (ssEventQueues s) \<and>
     ssPendingEvents s \<le> maximum_pending_events"

text \<open>The events of a plan that are for one client, stamped with its current sequence number.\<close>

definition stamped_for :: "'a queue_state_scheme \<Rightarrow> u32 \<Rightarrow> planned_event list \<Rightarrow> client_event list" where
  "stamped_for s client events =
     map (\<lambda>e. \<lparr>ceBody = snd e, ceSequence = client_sequence s client\<rparr>)
       (filter (\<lambda>e. fst e = client) events)"

lemma queues_okD:
  assumes "queues_ok s" "umap_find client (ssEventQueues s) = Some q"
  shows "client \<noteq> 0" "q \<noteq> []" "length q \<le> maximum_pending_events_per_client"
  using assms by (auto simp: queues_ok_def dest!: umap_find_mem)

lemma queued_events_length:
  "length (queued_events s c) =
     (case umap_find c (ssEventQueues s) of None \<Rightarrow> 0 | Some q \<Rightarrow> length q)"
  by (simp add: queued_events_def split: option.split)

lemma queued_events_bound:
  "queues_ok s \<Longrightarrow> length (queued_events s c) \<le> maximum_pending_events_per_client"
  by (auto simp: queued_events_def maximum_pending_events_per_client_def
      dest: queues_okD(3) split: option.splits)

lemma can_queue_event_iff:
  "queues_ok s \<Longrightarrow> can_queue_event s c \<longleftrightarrow>
     c \<noteq> 0 \<and> ssPendingEvents s < maximum_pending_events \<and>
     length (queued_events s c) < maximum_pending_events_per_client"
  by (auto simp: can_queue_event_def queued_events_def maximum_pending_events_per_client_def
      split: option.splits)

lemma queue_event_frame:
  "queue_event c e s = (ok, s') \<Longrightarrow>
     s' = s\<lparr>ssEventQueues := ssEventQueues s', ssPendingEvents := ssPendingEvents s'\<rparr>"
  by (auto simp: queue_event_def Let_def split: if_splits)

lemma client_sequence_queues [simp]:
  "client_sequence (s\<lparr>ssEventQueues := q\<rparr>) = client_sequence s"
  "client_sequence (s\<lparr>ssPendingEvents := n\<rparr>) = client_sequence s"
  by (simp_all add: client_sequence_def fun_eq_iff)

lemma queued_events_queue_event:
  assumes "can_queue_event s c"
  shows "queued_events (snd (queue_event c e s)) d =
    queued_events s d @ stamped_for s d [(c, e)]"
  using assms by (auto simp: queue_event_def Let_def queued_events_def stamped_for_def)

lemma umap_sum_put_length:
  assumes "umap_ok m"
  shows "umap_sum length (umap_put c ((case umap_find c m of None \<Rightarrow> [] | Some q \<Rightarrow> q) @ [x]) m)
    = Suc (umap_sum length m)"
  using umap_sum_put [OF assms, of length c "(case umap_find c m of None \<Rightarrow> [] | Some q \<Rightarrow> q) @ [x]"]
  by (auto split: option.splits)

lemma queue_event_ok:
  assumes "queues_ok s"
  shows "queues_ok (snd (queue_event c e s))"
proof (cases "can_queue_event s c")
  case False
  with assms show ?thesis by (simp add: queue_event_def)
next
  case True
  with assms show ?thesis
    by (auto simp: queue_event_def Let_def can_queue_event_iff queues_ok_def set_umap_put
        umap_sum_put_length queued_events_def split: option.splits)
qed

subsection \<open>Delivery is all or nothing\<close>

abbreviation planned_for :: "u32 \<Rightarrow> planned_event list \<Rightarrow> nat" where
  "planned_for c events \<equiv> length (filter (\<lambda>e. fst e = c) events)"

lemma validate_planned_iff:
  assumes "queues_ok s"
  shows "validate_planned s previous events \<longleftrightarrow>
     (\<forall>e \<in> set events. fst e \<noteq> 0 \<and>
        length (queued_events s (fst e)) + planned_for (fst e) (previous @ events)
          \<le> maximum_pending_events_per_client)"
proof (induction events arbitrary: previous)
  case Nil
  then show ?case by simp
next
  case (Cons event events)
  let ?c = "fst event"
  have fits: "\<not> size_sub maximum_pending_events_per_client (length (queued_events s c)) < n \<longleftrightarrow>
      length (queued_events s c) + n \<le> maximum_pending_events_per_client" for c n
    using queued_events_bound [OF assms, of c] by auto
  have last: "planned_for ?c (previous @ event # events) = 1 + planned_for ?c previous"
    if "\<forall>e \<in> set events. fst e \<noteq> ?c"
    using that by (simp add: filter_empty_conv)
  have step: "validate_planned s previous (event # events) \<longleftrightarrow>
      ?c \<noteq> 0 \<and> length (queued_events s ?c) + (1 + planned_for ?c previous)
        \<le> maximum_pending_events_per_client \<and>
      validate_planned s (previous @ [event]) events"
    using fits [of ?c "1 + planned_for ?c previous"]
    by (auto simp: Let_def queued_events_length)
  show ?case
  proof (cases "\<exists>e \<in> set events. fst e = ?c")
    case True
    then obtain e where e: "e \<in> set events" "fst e = ?c" by blast
    then have "1 + planned_for ?c previous \<le> planned_for ?c (previous @ event # events)" by simp
    with e show ?thesis unfolding step Cons.IH by fastforce
  next
    case False
    with last show ?thesis unfolding step Cons.IH by auto
  qed
qed

lemma stamped_for_Nil [simp]: "stamped_for s c [] = []"
  by (simp add: stamped_for_def)

lemma stamped_for_Cons:
  "stamped_for s c (e # es) = stamped_for s c [e] @ stamped_for s c es"
  by (simp add: stamped_for_def)

lemma length_stamped_for [simp]: "length (stamped_for s c es) = planned_for c es"
  by (simp add: stamped_for_def)

lemma stamped_for_queue_event [simp]:
  "stamped_for (snd (queue_event c e s)) = stamped_for s"
  by (simp add: queue_event_def Let_def stamped_for_def fun_eq_iff)

lemma deliver_planned_succeeds:
  assumes "queues_ok s"
    and "\<forall>e \<in> set events. fst e \<noteq> 0"
    and "\<forall>e \<in> set events. length (queued_events s (fst e)) + planned_for (fst e) events
          \<le> maximum_pending_events_per_client"
    and "ssPendingEvents s + length events \<le> maximum_pending_events"
  shows "\<exists>s'. deliver_planned delivered events s = (True, s') \<and> queues_ok s' \<and>
     (\<forall>c. queued_events s' c = queued_events s c @ stamped_for s c events) \<and>
     s' = s\<lparr>ssEventQueues := ssEventQueues s', ssPendingEvents := ssPendingEvents s + length events\<rparr>"
  using assms
proof (induction events arbitrary: s delivered)
  case Nil
  then show ?case by simp
next
  case (Cons event events)
  let ?c = "fst event" and ?s = "snd (queue_event (fst event) (snd event) s)"
  have can: "can_queue_event s ?c"
    using Cons.prems by (auto simp: can_queue_event_iff)
  then have ok: "fst (queue_event ?c (snd event) s)"
    by (simp add: queue_event_def Let_def)
  have q: "queued_events ?s d = queued_events s d @ stamped_for s d [event]" for d
    using queued_events_queue_event [OF can, of "snd event" d] by simp
  have frame: "?s = s\<lparr>ssEventQueues := ssEventQueues ?s, ssPendingEvents := ssPendingEvents s + 1\<rparr>"
    using can by (simp add: queue_event_def Let_def)
  have "\<exists>s'. deliver_planned (event # delivered) events ?s = (True, s') \<and> queues_ok s' \<and>
     (\<forall>c. queued_events s' c = queued_events ?s c @ stamped_for ?s c events) \<and>
     s' = ?s\<lparr>ssEventQueues := ssEventQueues s', ssPendingEvents := ssPendingEvents ?s + length events\<rparr>"
  proof (rule Cons.IH)
    show "queues_ok ?s" using Cons.prems(1) by (rule queue_event_ok)
    show "\<forall>e \<in> set events. fst e \<noteq> 0" using Cons.prems(2) by simp
    show "\<forall>e \<in> set events. length (queued_events ?s (fst e)) + planned_for (fst e) events
          \<le> maximum_pending_events_per_client"
      using Cons.prems(3) by (auto simp: q)
    have "ssPendingEvents ?s = ssPendingEvents s + 1" using frame by (metis queue_state.select_convs(3) queue_state.surjective queue_state.update_convs(3))
    then show "ssPendingEvents ?s + length events \<le> maximum_pending_events"
      using Cons.prems(4) by simp
  qed
  then obtain s' where s': "deliver_planned (event # delivered) events ?s = (True, s')" "queues_ok s'"
     "\<forall>c. queued_events s' c = queued_events ?s c @ stamped_for ?s c events"
     "s' = ?s\<lparr>ssEventQueues := ssEventQueues s', ssPendingEvents := ssPendingEvents ?s + length events\<rparr>"
    by blast
  have "s' = s\<lparr>ssEventQueues := ssEventQueues s', ssPendingEvents := ssPendingEvents s + length (event # events)\<rparr>"
    using s'(4) can by (simp add: queue_event_def Let_def)
  moreover have "\<forall>c. queued_events s' c = queued_events s c @ stamped_for s c (event # events)"
    using s'(3) by (simp add: q stamped_for_Cons [of _ _ event events])
  ultimately show ?case
    using s'(1,2) ok by (intro exI [of _ s']) (simp add: case_prod_beta Let_def)
qed

lemma queue_events_atomically_True:
  assumes ok: "queues_ok s" and run: "queue_events_atomically events s = (True, s')"
  shows "queues_ok s'"
    and "queued_events s' c = queued_events s c @ stamped_for s c events"
    and "s' = s\<lparr>ssEventQueues := ssEventQueues s', ssPendingEvents := ssPendingEvents s + length events\<rparr>"
    and "\<forall>e \<in> set events. fst e \<noteq> 0"
proof -
  have le: "ssPendingEvents s \<le> maximum_pending_events" using ok by (simp add: queues_ok_def)
  have v: "validate_planned s [] events" "ssPendingEvents s + length events \<le> maximum_pending_events"
    using run le by (auto simp: queue_events_atomically_def split: if_splits)
  obtain t where t: "deliver_planned [] events s = (True, t)" "queues_ok t"
      "\<forall>c. queued_events t c = queued_events s c @ stamped_for s c events"
      "t = s\<lparr>ssEventQueues := ssEventQueues t, ssPendingEvents := ssPendingEvents s + length events\<rparr>"
    using deliver_planned_succeeds [OF ok, of events "[]"] v
    by (auto simp: validate_planned_iff [OF ok])
  have "\<not> maximum_pending_events - ssPendingEvents s < length events" using v(2) by arith
  then have "s' = t" using run v(1) t(1) le by (simp add: queue_events_atomically_def)
  with t show "queues_ok s'" "queued_events s' c = queued_events s c @ stamped_for s c events"
    "s' = s\<lparr>ssEventQueues := ssEventQueues s', ssPendingEvents := ssPendingEvents s + length events\<rparr>"
    by simp_all
  show "\<forall>e \<in> set events. fst e \<noteq> 0" using v(1) by (simp add: validate_planned_iff [OF ok])
qed

lemma queue_events_atomically_iff:
  assumes ok: "queues_ok s"
  shows "fst (queue_events_atomically events s) \<longleftrightarrow>
     ssPendingEvents s + length events \<le> maximum_pending_events \<and>
     (\<forall>e \<in> set events. fst e \<noteq> 0 \<and> length (queued_events s (fst e)) + planned_for (fst e) events
          \<le> maximum_pending_events_per_client)"
proof -
  have le: "ssPendingEvents s \<le> maximum_pending_events" using ok by (simp add: queues_ok_def)
  show ?thesis
  proof (cases "validate_planned s [] events \<and> ssPendingEvents s + length events \<le> maximum_pending_events")
    case True
    then obtain t where "deliver_planned [] events s = (True, t)"
      using deliver_planned_succeeds [OF ok, of events "[]"] by (auto simp: validate_planned_iff [OF ok])
    with True le show ?thesis
      by (auto simp: queue_events_atomically_def validate_planned_iff [OF ok])
  next
    case False
    with le show ?thesis
      by (auto simp: queue_events_atomically_def validate_planned_iff [OF ok])
  qed
qed

lemma queue_events_atomically_False:
  assumes ok: "queues_ok s" and run: "queue_events_atomically events s = (False, s')"
  shows "s' = s"
proof -
  have "\<not> (validate_planned s [] events \<and> ssPendingEvents s + length events \<le> maximum_pending_events)"
    using queue_events_atomically_iff [OF ok, of events] run
    by (auto simp: validate_planned_iff [OF ok])
  then show ?thesis
    using run ok by (auto simp: queue_events_atomically_def queues_ok_def split: if_splits)
qed

lemma queue_events_atomically_Nil [simp]:
  "queues_ok s \<Longrightarrow> queue_events_atomically [] s = (True, s)"
  by (simp add: queue_events_atomically_def)

lemma queue_events_atomically_ok:
  "queues_ok s \<Longrightarrow> queues_ok (snd (queue_events_atomically events s))"
  by (cases "queue_events_atomically events s"; cases "fst (queue_events_atomically events s)")
    (auto dest: queue_events_atomically_True(1) queue_events_atomically_False)

text \<open>The delivery contract, as the components that plan events rely on it.  \<open>enqueue\<close> either
  refuses a plan and changes nothing, or appends to each client's queue exactly the events planned
  for it, in plan order.\<close>

locale event_sink =
  fixes enqueue :: "planned_event list \<Rightarrow> 's \<Rightarrow> bool \<times> 's"
    and queue_of :: "'s \<Rightarrow> u32 \<Rightarrow> client_event list"
    and stamp :: "'s \<Rightarrow> u32 \<Rightarrow> planned_event list \<Rightarrow> client_event list"
    and inv :: "'s \<Rightarrow> bool"
  assumes refused: "inv s \<Longrightarrow> enqueue events s = (False, s') \<Longrightarrow> s' = s"
    and accepted: "inv s \<Longrightarrow> enqueue events s = (True, s') \<Longrightarrow>
          queue_of s' c = queue_of s c @ stamp s c events"
    and keeps_inv: "inv s \<Longrightarrow> inv (snd (enqueue events s))"
    and stamp_none: "(\<forall>e \<in> set events. fst e \<noteq> c) \<Longrightarrow> stamp s c events = []"
begin

text \<open>A step that plans, delivers and commits only when delivery succeeded is itself atomic.\<close>

lemma refused_step:
  "inv s \<Longrightarrow>
   (let (ok, s') = enqueue events s in if ok then (True, commit s') else (False, s')) = (False, t) \<Longrightarrow>
   t = s"
  by (auto simp: Let_def split: prod.splits if_splits dest: refused)

lemma other_queues_kept:
  "inv s \<Longrightarrow> \<forall>e \<in> set events. fst e \<noteq> c \<Longrightarrow> queue_of (snd (enqueue events s)) c = queue_of s c"
  by (cases "enqueue events s"; cases "fst (enqueue events s)")
    (auto dest: refused accepted [of _ _ _ c] simp: stamp_none)

lemma queue_grows:
  "inv s \<Longrightarrow> \<exists>new. queue_of (snd (enqueue events s)) c = queue_of s c @ new"
  by (cases "enqueue events s"; cases "fst (enqueue events s)")
    (auto dest: refused accepted [of _ _ _ c])

end

interpretation queues: event_sink queue_events_atomically queued_events stamped_for queues_ok
proof unfold_locales
  show "stamped_for s c events = []" if "\<forall>e \<in> set events. fst e \<noteq> c" for s :: "'a queue_state_scheme" and c events
    using that by (simp add: stamped_for_def filter_empty_conv)
qed (auto intro: queue_events_atomically_ok queue_events_atomically_False
      queue_events_atomically_True(2))

subsection \<open>Taking back delivered events\<close>

lemma update_restore: "map_of m k = Some q \<Longrightarrow> AList.update k q m = m"
  by (induction m) auto

lemma update_update_same: "AList.update k q (AList.update k r m) = AList.update k q m"
  by (induction m) auto

lemma delete_update_new: "k \<notin> fst ` set m \<Longrightarrow> AList.delete k (AList.update k q m) = m"
  by (induction m) auto

lemma unqueue_queue_event:
  assumes ok: "queues_ok s" and can: "can_queue_event s (fst e)"
  shows "unqueue_events (e # es) (snd (queue_event (fst e) (snd e) s)) = unqueue_events es s"
proof (cases "umap_find (fst e) (ssEventQueues s)")
  case None
  then have "umap_erase (fst e) (umap_put (fst e) q (ssEventQueues s)) = ssEventQueues s" for q
    by (simp add: umap_erase_def umap_put_def delete_update_new umap_find_keys)
  with None can show ?thesis
    by (simp add: queue_event_def Let_def queued_events_def)
next
  case (Some q)
  then have "q \<noteq> []" using ok by (auto dest: queues_okD)
  moreover have "umap_put (fst e) q (umap_put (fst e) r (ssEventQueues s)) = ssEventQueues s" for r
    using Some by (simp add: umap_put_def update_update_same update_restore umap_find_def)
  ultimately show ?thesis
    using Some can by (simp add: queue_event_def Let_def queued_events_def butlast_append)
qed

lemma deliver_planned_rolls_back:
  "queues_ok s \<Longrightarrow> deliver_planned delivered events s = (False, s') \<Longrightarrow>
   s' = unqueue_events delivered s"
proof (induction events arbitrary: s delivered)
  case Nil
  then show ?case by simp
next
  case (Cons event events)
  show ?case
  proof (cases "can_queue_event s (fst event)")
    case False
    have "drop_empty_queue (fst event) s = s"
      using Cons.prems(1) by (auto simp: drop_empty_queue_def dest: queues_okD)
    with False Cons.prems show ?thesis by (simp add: queue_event_def)
  next
    case True
    let ?s = "snd (queue_event (fst event) (snd event) s)"
    have "deliver_planned (event # delivered) events ?s = (False, s')"
      using Cons.prems(2) True by (simp add: queue_event_def Let_def)
    then have "s' = unqueue_events (event # delivered) ?s"
      using Cons.IH queue_event_ok [OF Cons.prems(1)] by blast
    then show ?thesis
      using unqueue_queue_event [OF Cons.prems(1) True] by simp
  qed
qed

text \<open>C1. Atomic delivery: on queues in their invariant the call succeeds exactly when the plan
  names clients only and fits both the global and every recipient's bound; then each client's
  queue is extended by exactly its planned events, in order, stamped with its sequence number, and
  the count grows by the length of the plan; otherwise nothing at all changes.\<close>

theorem queue_events_atomically_all_or_nothing:
  assumes "queues_ok s" and "queue_events_atomically events s = (ok, s')"
  shows "queues_ok s' \<and>
    (if ok
     then ssPendingEvents s + length events \<le> maximum_pending_events \<and>
          (\<forall>e \<in> set events. fst e \<noteq> 0 \<and>
             length (queued_events s (fst e)) + planned_for (fst e) events
               \<le> maximum_pending_events_per_client) \<and>
          (\<forall>c. queued_events s' c = queued_events s c @ stamped_for s c events) \<and>
          ssPendingEvents s' = ssPendingEvents s + length events
     else s' = s \<and>
          \<not> (ssPendingEvents s + length events \<le> maximum_pending_events \<and>
             (\<forall>e \<in> set events. fst e \<noteq> 0 \<and>
                length (queued_events s (fst e)) + planned_for (fst e) events
                  \<le> maximum_pending_events_per_client)))"
proof -
  have iff: "ok \<longleftrightarrow> ssPendingEvents s + length events \<le> maximum_pending_events \<and>
           (\<forall>e \<in> set events. fst e \<noteq> 0 \<and>
              length (queued_events s (fst e)) + planned_for (fst e) events
                \<le> maximum_pending_events_per_client)"
    using queue_events_atomically_iff [OF assms(1), of events] assms(2) by simp
  have inv: "queues_ok s'" using queues.keeps_inv [OF assms(1), of events] assms(2) by simp
  show ?thesis
  proof (cases ok)
    case True
    with assms have run: "queue_events_atomically events s = (True, s')" by simp
    have "ssPendingEvents s' = ssPendingEvents s + length events"
      by (subst queue_events_atomically_True(3) [OF assms(1) run]) simp
    with True iff inv queues.accepted [OF assms(1) run] show ?thesis by simp
  next
    case False
    with assms have "s' = s" using queues.refused by simp
    with False iff inv show ?thesis by auto
  qed
qed

text \<open>A state with one registered client and empty queues, on which the witnesses run.\<close>

definition one_client_state :: queue_state where
  "one_client_state = \<lparr>ssClients = [(5, 7)], ssEventQueues = [], ssPendingEvents = 0,
     ssCurrentTime = 1, ssClientsToTerminate = [], ssSyncPriorities = [(5, 0)]\<rparr>"

lemma queues_ok_one_client: "queues_ok one_client_state"
  by (simp add: queues_ok_def one_client_state_def umap_sum_def)

theorem queue_events_atomically_all_or_nothing_witness:
  "snd (queue_events_atomically [(0, EvMessage (MappingNotify 1 8 2))] one_client_state) = one_client_state
   \<and> queued_events (snd (queue_events_atomically [(5, EvMessage (MappingNotify 1 8 2))] one_client_state)) 5
       = [\<lparr>ceBody = EvMessage (MappingNotify 1 8 2), ceSequence = 7\<rparr>]"
proof -
  let ?e = "EvMessage (MappingNotify 1 8 2)"
  have "fst (queue_events_atomically [(0, ?e)] one_client_state) = False"
    by (simp add: queue_events_atomically_def one_client_state_def)
  moreover have "fst (queue_events_atomically [(5, ?e)] one_client_state) = True"
    by (simp add: queue_events_atomically_def one_client_state_def maximum_pending_events_def
        maximum_pending_events_per_client_def queue_event_def can_queue_event_def Let_def)
  ultimately show ?thesis
    using queue_events_atomically_all_or_nothing [OF queues_ok_one_client, of "[(0, ?e)]" False]
      queue_events_atomically_all_or_nothing [OF queues_ok_one_client, of "[(5, ?e)]" True]
    by (cases "queue_events_atomically [(0, ?e)] one_client_state";
        cases "queue_events_atomically [(5, ?e)] one_client_state")
      (simp add: stamped_for_def client_sequence_def one_client_state_def queued_events_def)
qed

text \<open>The rollback is exact: whatever plan the delivery loop is given, validated or not, when
  an event of it cannot be queued the loop leaves the very state it started from.\<close>

theorem deliver_planned_failure_restores:
  assumes "queues_ok s" and "deliver_planned [] events s = (False, s')"
  shows "s' = s"
  using deliver_planned_rolls_back [OF assms] by simp

theorem deliver_planned_failure_restores_witness:
  "snd (deliver_planned [] [(5, EvMessage (MappingNotify 1 8 2)), (0, EvMessage (MappingNotify 0 0 0))]
      one_client_state) = one_client_state"
proof -
  let ?es = "[(5, EvMessage (MappingNotify 1 8 2)), (0, EvMessage (MappingNotify 0 0 0))]"
  have "fst (deliver_planned [] ?es one_client_state) = False"
    by (simp add: queue_event_def can_queue_event_def Let_def one_client_state_def
        maximum_pending_events_def)
  then show ?thesis
    using deliver_planned_failure_restores [OF queues_ok_one_client, of ?es]
    by (cases "deliver_planned [] ?es one_client_state") simp
qed

subsection \<open>Reading the queues\<close>

lemma pop_event_queues:
  assumes "queues_ok s"
  shows "queued_events (pop_event c s) d =
    (if d = c then tl (queued_events s c) else queued_events s d)"
  using assms
  by (auto simp: pop_event_def queued_events_def split: option.splits list.splits)

lemma umap_sum_pop:
  assumes "umap_ok m" "umap_find c m = Some (e # rest)"
  shows "Suc (umap_sum length (if rest = [] then umap_erase c m else umap_put c rest m))
    = umap_sum length m"
  using umap_sum_erase [OF assms(1), of length c] umap_sum_put [OF assms(1), of length c rest] assms(2)
  by auto

lemma pop_event_ok:
  assumes "queues_ok s"
  shows "queues_ok (pop_event c s)"
proof (cases "umap_find c (ssEventQueues s)")
  case None
  with assms show ?thesis by (simp add: pop_event_def)
next
  case (Some q)
  show ?thesis
  proof (cases q)
    case Nil
    with Some assms show ?thesis by (simp add: pop_event_def)
  next
    case (Cons e rest)
    have sum: "Suc (umap_sum length (if rest = [] then umap_erase c (ssEventQueues s)
        else umap_put c rest (ssEventQueues s))) = umap_sum length (ssEventQueues s)"
      using assms Some Cons by (intro umap_sum_pop) (auto simp: queues_ok_def)
    have "c \<noteq> 0" "length rest < maximum_pending_events_per_client"
      using queues_okD [OF assms Some] Cons by auto
    with assms Some Cons sum show ?thesis
      by (auto simp: pop_event_def queues_ok_def set_umap_put set_umap_erase)
  qed
qed

text \<open>C37. A client's queue is first in, first out: an event queued on an invariant state is behind
  those already there, \<open>next_event\<close> shows the oldest without removing it, \<open>pop_event\<close> removes
  exactly that one, other clients' queues are untouched and the invariant is kept.\<close>

theorem event_queue_fifo:
  assumes "queues_ok s" and "queue_event c e s = (True, s')"
  shows "queued_events s' c = queued_events s c @ [\<lparr>ceBody = e, ceSequence = client_sequence s c\<rparr>] \<and>
    next_event s' c = Some (hd (queued_events s' c)) \<and>
    queued_events (pop_event c s') c = tl (queued_events s' c) \<and>
    (d \<noteq> c \<longrightarrow> queued_events (pop_event c s') d = queued_events s d) \<and>
    has_pending_event s' c \<and> queues_ok s' \<and> queues_ok (pop_event c s')"
proof -
  have can: "can_queue_event s c" and s': "s' = snd (queue_event c e s)"
    using assms(2) by (auto simp: queue_event_def split: if_splits)
  have q: "queued_events s' x = queued_events s x @ stamped_for s x [(c, e)]" for x
    using queued_events_queue_event [OF can] s' by simp
  have ok: "queues_ok s'" using queue_event_ok [OF assms(1)] s' by simp
  have "queued_events s' c \<noteq> []" using q [of c] by (simp add: stamped_for_def)
  then have "next_event s' c = Some (hd (queued_events s' c))" "has_pending_event s' c"
    by (auto simp: next_event_def has_pending_event_def queued_events_def
        split: option.splits list.splits)
  with ok q pop_event_queues [OF ok, of c] pop_event_ok [OF ok] show ?thesis
    by (simp add: stamped_for_def)
qed

theorem event_queue_fifo_witness:
  "next_event (snd (queue_event 5 (EvMessage (MappingNotify 1 8 2)) one_client_state)) 5
     = Some \<lparr>ceBody = EvMessage (MappingNotify 1 8 2), ceSequence = 7\<rparr>"
proof -
  have "fst (queue_event 5 (EvMessage (MappingNotify 1 8 2)) one_client_state) = True"
    by (simp add: queue_event_def can_queue_event_def Let_def one_client_state_def
        maximum_pending_events_def)
  then show ?thesis
    using event_queue_fifo [OF queues_ok_one_client, of 5 "EvMessage (MappingNotify 1 8 2)"]
    by (cases "queue_event 5 (EvMessage (MappingNotify 1 8 2)) one_client_state")
      (simp add: one_client_state_def queued_events_def client_sequence_def)
qed

lemma sint_uminus_pos:
  fixes x :: u32
  assumes "0 < sint x"
  shows "sint (- x) = - sint x"
proof -
  have "sint x < 2 ^ 31" using sint_lt [of x] by simp
  then have "signed_take_bit 31 (- sint x) = - sint x"
    using assms by (intro signed_take_bit_int_eq_self) simp_all
  then show ?thesis by (simp add: sint_word_ariths)
qed

text \<open>The server clock never shows time 0, advancing it makes it strictly later in the
  wrap-around order, and no time is both later and earlier than another.\<close>

theorem advance_time_later:
  assumes "ssCurrentTime s \<noteq> 0"
  shows "ssCurrentTime (advance_time s) \<noteq> 0 \<and>
    later_than (ssCurrentTime (advance_time s)) (ssCurrentTime s) \<and>
    \<not> (later_than a b \<and> earlier_than a b) \<and>
    (later_than a b \<longrightarrow> earlier_than b a)"
proof (intro conjI)
  let ?t = "ssCurrentTime s"
  show "ssCurrentTime (advance_time s) \<noteq> 0"
    by (simp add: advance_time_def Let_def)
  show "later_than (ssCurrentTime (advance_time s)) ?t"
  proof (cases "?t + 1 = 0")
    case True
    then have "?t = - 1" by (simp add: eq_neg_iff_add_eq_0)
    then show ?thesis by (simp add: advance_time_def later_than_def)
  next
    case False
    then show ?thesis by (simp add: advance_time_def later_than_def Let_def)
  qed
  show "\<not> (later_than a b \<and> earlier_than a b)"
    by (simp add: later_than_def earlier_than_def)
  show "later_than a b \<longrightarrow> earlier_than b a"
    using sint_uminus_pos [of "a - b"] by (simp add: later_than_def earlier_than_def)
qed

theorem advance_time_later_witness:
  "ssCurrentTime (advance_time (one_client_state\<lparr>ssCurrentTime := 0xFFFFFFFF\<rparr>)) = 1 \<and>
   later_than (ssCurrentTime (advance_time (one_client_state\<lparr>ssCurrentTime := 0xFFFFFFFF\<rparr>))) 0xFFFFFFFF"
  using advance_time_later [of "one_client_state\<lparr>ssCurrentTime := 0xFFFFFFFF\<rparr>" 0 0]
  by (simp add: advance_time_def one_client_state_def)

end
