(* ===== verification/Server_Model.thy ===== *)
theory Server_Model
  imports Event_Queue Atoms
begin

text \<open>
  The data of the server (\<^verbatim>\<open>src/server/include/xmin/server/server_state.hpp\<close>,
  \<^verbatim>\<open>resource_registry.hpp\<close>): one record per structure, members in the order of the header, one
  datatype per enumeration, and the state record \<open>server_state\<close>, which extends the queue layer
  of \<^theory_text>\<open>Event_Queue\<close>.

  A \<^verbatim>\<open>shared_ptr\<close> to a surface or a cursor image is an optional handle; two pointers are equal
  exactly when their handles are.  Cursor images, which the state reads and numbers, are held in the
  store \<open>ssCursorImages\<close>; the pixels behind surface handles are the subject of the surface
  component.  A region is its list of rectangles.
\<close>

subsection \<open>Constants\<close>

definition root_window_id :: u32 where "root_window_id = 0x100"
definition pointer_root_id :: u32 where "pointer_root_id = 1"
definition default_colormap_id :: u32 where "default_colormap_id = 2"
definition root_visual_id :: u32 where "root_visual_id = 3"
definition client_resource_mask :: u32 where "client_resource_mask = 0x001fffff"
definition maximum_client_resources :: nat where "maximum_client_resources = 4096"
definition maximum_server_resources :: nat where "maximum_server_resources = 65536"
definition maximum_property_bytes :: nat where "maximum_property_bytes = 1024 * 1024"
definition maximum_server_property_bytes :: nat where
  "maximum_server_property_bytes = 16 * 1024 * 1024"
definition maximum_passive_grabs_per_client :: nat where "maximum_passive_grabs_per_client = 256"
definition maximum_passive_grabs :: nat where "maximum_passive_grabs = 4096"
definition maximum_xfixes_regions :: nat where "maximum_xfixes_regions = 4096"
definition maximum_xfixes_barriers :: nat where "maximum_xfixes_barriers = 4096"
definition maximum_xfixes_subscriptions :: nat where "maximum_xfixes_subscriptions = 4096"
definition maximum_sync_wait_conditions :: nat where
  "maximum_sync_wait_conditions = maximum_pending_events_per_client"
definition maximum_damage_objects :: nat where "maximum_damage_objects = 4096"
definition maximum_composite_redirects :: nat where "maximum_composite_redirects = 4096"
definition maximum_shared_memory_segments :: nat where "maximum_shared_memory_segments = 256"
definition any_modifier :: u16 where "any_modifier = 0x8000"
definition all_modifiers_mask :: u16 where "all_modifiers_mask = 0x00ff"

definition structure_notify_mask :: u32 where "structure_notify_mask = push_bit 17 1"
definition visibility_change_mask :: u32 where "visibility_change_mask = push_bit 16 1"
definition exposure_mask :: u32 where "exposure_mask = push_bit 15 1"
definition resize_redirect_mask :: u32 where "resize_redirect_mask = push_bit 18 1"
definition substructure_notify_mask :: u32 where "substructure_notify_mask = push_bit 19 1"
definition substructure_redirect_mask :: u32 where "substructure_redirect_mask = push_bit 20 1"
definition property_change_mask :: u32 where "property_change_mask = push_bit 22 1"

subsection \<open>Resources\<close>

datatype resource_kind =
    KWindow | KPixmap | KGraphicsContext | KColormap | KSyncCounter | KSyncAlarm | KSyncFence
  | KRenderPicture | KRenderGlyphSet | KCursor | KXfixesRegion | KXfixesBarrier | KDamage
  | KPresentEvent | KSharedMemory | KFont | KDbeBuffer | KGlxContext | KGlxDrawable

record resource_record =
  rrKind :: resource_kind
  rrOwner :: u32

type_synonym surface_ref = "nat option"
type_synonym cursor_ref = "nat option"

record rectangle =
  rcX :: int
  rcY :: int
  rcWidth :: int
  rcHeight :: int

type_synonym region = "rectangle list"

subsection \<open>Windows and drawables\<close>

datatype window_class = InputOutput | InputOnly

record property_value =
  pvType :: u32
  pvFormat :: nat
  pvData :: "u8 list"

record window_record =
  wnId :: u32
  wnOwner :: u32
  wnParent :: u32
  wnChildren :: "u32 list"
  wnEventMasks :: "(u32, u32) umap"
  wnProperties :: "(u32, property_value) umap"
  wnShapes :: "region option list"
  wnShapeEventClients :: "u32 list"
  wnSurface :: surface_ref
  wnX :: int
  wnY :: int
  wnWidth :: int
  wnHeight :: int
  wnBorderWidth :: int
  wnDoNotPropagateMask :: u16
  wnVisual :: u32
  wnColormap :: u32
  wnBackgroundPixel :: u32
  wnBorderPixel :: u32
  wnCursor :: cursor_ref
  wnBackingPlanes :: u32
  wnBackingPixel :: u32
  wnDepth :: u8
  wnClass :: window_class
  wnBitGravity :: nat
  wnWindowGravity :: nat
  wnBackingStore :: u8
  wnOverrideRedirect :: bool
  wnSaveUnder :: bool
  wnMapped :: bool

definition window_default :: window_record where
  "window_default =
     \<lparr>wnId = 0, wnOwner = 0, wnParent = 0, wnChildren = [], wnEventMasks = [], wnProperties = [],
      wnShapes = [None, None, None], wnShapeEventClients = [], wnSurface = None,
      wnX = 0, wnY = 0, wnWidth = 0, wnHeight = 0, wnBorderWidth = 0, wnDoNotPropagateMask = 0,
      wnVisual = root_visual_id, wnColormap = default_colormap_id, wnBackgroundPixel = 0,
      wnBorderPixel = 0, wnCursor = None, wnBackingPlanes = 0xffffffff, wnBackingPixel = 0,
      wnDepth = 24, wnClass = InputOutput, wnBitGravity = 0, wnWindowGravity = 1,
      wnBackingStore = 0, wnOverrideRedirect = False, wnSaveUnder = False, wnMapped = False\<rparr>"

definition default_shape :: "window_record \<Rightarrow> nat \<Rightarrow> rectangle" where
  "default_shape w kind =
     (if kind = 1 then \<lparr>rcX = 0, rcY = 0, rcWidth = wnWidth w, rcHeight = wnHeight w\<rparr>
      else \<lparr>rcX = - wnBorderWidth w, rcY = - wnBorderWidth w,
            rcWidth = wnWidth w + 2 * wnBorderWidth w,
            rcHeight = wnHeight w + 2 * wnBorderWidth w\<rparr>)"

record pixmap_record =
  pxId :: u32
  pxSurface :: surface_ref

record dbe_buffer_record =
  dbId :: u32
  dbWindow :: u32
  dbSwapAction :: u8
  dbSurface :: surface_ref

record font_record =
  fnId :: u32
  fnFont :: "nat option"    \<comment> \<open>the embedded font, by its index\<close>

record graphics_context_record =
  gcId :: u32
  gcDepth :: u8
  gcFunction :: u8
  gcPlaneMask :: u32
  gcForeground :: u32
  gcBackground :: u32
  gcFont :: "nat option"
  gcLineWidth :: u16
  gcDashOffset :: u16
  gcLineStyle :: u8
  gcCapStyle :: u8
  gcJoinStyle :: u8
  gcFillStyle :: u8
  gcFillRule :: u8
  gcArcMode :: u8
  gcTile :: surface_ref
  gcStipple :: surface_ref
  gcTileXOrigin :: int
  gcTileYOrigin :: int
  gcSubwindowMode :: u8
  gcGraphicsExposures :: bool
  gcDashes :: "u8 list"
  gcDashCount :: nat
  gcClipXOrigin :: int
  gcClipYOrigin :: int
  gcClipRegion :: "region option"

definition graphics_context_default :: graphics_context_record where
  "graphics_context_default =
     \<lparr>gcId = 0, gcDepth = 0, gcFunction = 3, gcPlaneMask = 0xffffffff, gcForeground = 0,
      gcBackground = 1, gcFont = None, gcLineWidth = 0, gcDashOffset = 0, gcLineStyle = 0,
      gcCapStyle = 1, gcJoinStyle = 0, gcFillStyle = 0, gcFillRule = 0, gcArcMode = 1,
      gcTile = None, gcStipple = None, gcTileXOrigin = 0, gcTileYOrigin = 0, gcSubwindowMode = 0,
      gcGraphicsExposures = True, gcDashes = [4, 4] @ replicate 510 0, gcDashCount = 2,
      gcClipXOrigin = 0, gcClipYOrigin = 0, gcClipRegion = None\<rparr>"

record cursor_image =
  ciSerial :: u32
  ciName :: u32
  ciWidth :: int
  ciHeight :: int
  ciXHot :: int
  ciYHot :: int

record cursor_record =
  crId :: u32
  crImage :: cursor_ref

subsection \<open>Selections, screen saver, XFIXES, save sets\<close>

record selection_record =
  slWindow :: u32
  slClient :: u32
  slChangedAt :: u32

record screen_saver_state =
  svTimeout :: int
  svInterval :: int
  svPreferBlanking :: u8
  svAllowExposures :: u8
  svActive :: bool

record xfixes_selection_subscription =
  xsClient :: u32
  xsWindow :: u32
  xsSelection :: u32
  xsEventMask :: u32

record xfixes_cursor_subscription =
  xcClient :: u32
  xcWindow :: u32
  xcEventMask :: u32

record xfixes_barrier_record =
  xbId :: u32
  xbWindow :: u32
  xbX1 :: int
  xbY1 :: int
  xbX2 :: int
  xbY2 :: int
  xbDirections :: u32
  xbDevices :: "u16 list"

record save_set_entry =
  seWindow :: u32
  seToRoot :: bool
  seMap :: bool

subsection \<open>Focus and grabs\<close>

datatype focus_kind = FocusNone | FocusPointerRoot | FocusWindow

record focus_state =
  fsKind :: focus_kind
  fsWindow :: u32
  fsChangedAt :: u32
  fsRevertTo :: nat

definition focus_wire_id :: "focus_state \<Rightarrow> u32" where
  "focus_wire_id f =
     (case fsKind f of FocusNone \<Rightarrow> 0 | FocusPointerRoot \<Rightarrow> pointer_root_id | FocusWindow \<Rightarrow> fsWindow f)"

record active_grab =
  agOwner :: u32
  agWindow :: u32
  agConfineTo :: u32
  agActivatedAt :: u32
  agEventMask :: u32
  agPointerMode :: u8
  agKeyboardMode :: u8
  agOwnerEvents :: bool
  agPassive :: bool
  agPassiveDetail :: u8
  agAutomatic :: bool
  agCursor :: cursor_ref
  agXi2 :: bool
  agXi2EventMask :: u32

datatype passive_grab_kind = GrabsButton | GrabsKey

text \<open>\<^verbatim>\<open>std::bitset<256>\<close> is a 256-bit word.\<close>

type_synonym passive_grab_domain = "256 word"

record passive_grab =
  pgKind :: passive_grab_kind
  pgDetails :: passive_grab_domain
  pgModifiers :: passive_grab_domain
  pgOwner :: u32
  pgWindow :: u32
  pgConfineTo :: u32
  pgEventMask :: u16
  pgPointerMode :: u8
  pgKeyboardMode :: u8
  pgOwnerEvents :: bool
  pgCursor :: cursor_ref
  pgXi2 :: bool
  pgXi2EventMask :: u32

subsection \<open>SYNC\<close>

datatype sync_test_type =
  PositiveTransition | NegativeTransition | PositiveComparison | NegativeComparison

record sync_trigger =
  stCounter :: u32
  stWaitValue :: int
  stTestValue :: int
  stValueType :: u8
  stTestType :: sync_test_type

record sync_counter_record =
  scId :: u32
  scValue :: int

record sync_alarm_record =
  saId :: u32
  saOwner :: u32
  saTrigger :: sync_trigger
  saDelta :: int
  saEventClients :: "u32 list"
  saState :: u8

record sync_fence_record =
  sfId :: u32
  sfTriggered :: bool

record sync_wait_condition =
  swTrigger :: sync_trigger
  swEventThreshold :: int

subsection \<open>DAMAGE and COMPOSITE\<close>

record damage_record =
  dmId :: u32
  dmOwner :: u32
  dmDrawable :: u32
  dmLevel :: u8
  dmAccumulated :: region

record composite_redirect =
  cmOwner :: u32
  cmWindow :: u32
  cmUpdate :: u8
  cmSubwindows :: bool

subsection \<open>RANDR\<close>

record randr_mode_info =
  rmId :: u32
  rmWidth :: int
  rmHeight :: int
  rmDotClock :: int
  rmHsyncStart :: int
  rmHsyncEnd :: int
  rmHtotal :: int
  rmHskew :: int
  rmVsyncStart :: int
  rmVsyncEnd :: int
  rmVtotal :: int
  rmFlags :: u32
  rmName :: string
  rmBuiltIn :: bool

record randr_output_property =
  roValue :: property_value
  roPendingValue :: property_value
  roValidValues :: "int list"
  roPending :: bool
  roRange :: bool
  roImmutable :: bool

record randr_transform =
  rtMatrix :: "int list"
  rtFilter :: string
  rtParameters :: "int list"

record randr_panning =
  rpLeft :: int
  rpTop :: int
  rpWidth :: int
  rpHeight :: int
  rpTrackLeft :: int
  rpTrackTop :: int
  rpTrackWidth :: int
  rpTrackHeight :: int
  rpBorderLeft :: int
  rpBorderTop :: int
  rpBorderRight :: int
  rpBorderBottom :: int

record randr_monitor =
  rnName :: u32
  rnPrimary :: bool
  rnAutomatic :: bool
  rnX :: int
  rnY :: int
  rnWidth :: int
  rnHeight :: int
  rnMillimetreWidth :: int
  rnMillimetreHeight :: int
  rnOutputs :: "u32 list"

record randr_subscription =
  rsClient :: u32
  rsWindow :: u32
  rsMask :: u16

record randr_state =
  rdTimestamp :: u32
  rdConfigTimestamp :: u32
  rdMillimetreWidth :: int
  rdMillimetreHeight :: int
  rdModes :: "(u32, randr_mode_info) umap"
  rdOutputModes :: "u32 list"
  rdCurrentMode :: u32
  rdNextModeId :: u32
  rdPrimaryOutput :: u32
  rdCrtcX :: int
  rdCrtcY :: int
  rdRotation :: u16
  rdGammaRed :: "u16 list"
  rdGammaGreen :: "u16 list"
  rdGammaBlue :: "u16 list"
  rdTransform :: randr_transform
  rdPanning :: randr_panning
  rdOutputProperties :: "(u32, randr_output_property) umap"
  rdMonitors :: "(u32, randr_monitor) umap"
  rdSubscriptions :: "randr_subscription list"

subsection \<open>Present\<close>

record present_subscription =
  psId :: u32
  psOwner :: u32
  psWindow :: u32
  psMask :: u32

record present_notify =
  pnWindow :: u32
  pnSerial :: u32

datatype present_kind = PresentPixmap | PresentNotifyMsc

record present_operation =
  poKind :: present_kind
  poOwner :: u32
  poWindow :: u32
  poPixmap :: u32
  poSerial :: u32
  poPixmapSurface :: surface_ref
  poUpdate :: "region option"
  poXOff :: int
  poYOff :: int
  poWaitFence :: u32
  poIdleFence :: u32
  poOptions :: u32
  poTargetMsc :: u64
  poDivisor :: u64
  poRemainder :: u64
  poNotifies :: "present_notify list"

subsection \<open>XKB and XI2\<close>

record xkb_controls =
  kcMouseKeysDefaultButton :: u8
  kcGroupsWrap :: u8
  kcInternalMods :: u8
  kcIgnoreLockMods :: u8
  kcInternalVirtualMods :: u16
  kcIgnoreLockVirtualMods :: u16
  kcRepeatDelay :: nat
  kcRepeatInterval :: nat
  kcSlowKeysDelay :: u16
  kcDebounceDelay :: u16
  kcMouseKeysDelay :: u16
  kcMouseKeysInterval :: u16
  kcMouseKeysTimeToMax :: u16
  kcMouseKeysMaxSpeed :: u16
  kcMouseKeysCurve :: int
  kcAccessXOptions :: u16
  kcAccessXTimeout :: u16
  kcAccessXTimeoutOptionsMask :: u16
  kcAccessXTimeoutOptionsValues :: u16
  kcAccessXTimeoutMask :: u32
  kcAccessXTimeoutValues :: u32
  kcEnabled :: u32
  kcPerKeyRepeat :: "u8 list"

record xkb_keyboard_state =
  xkLatchedMods :: u8
  xkLockedMods :: u8
  xkBaseGroup :: int
  xkLatchedGroup :: int
  xkLockedGroup :: u8
  xkControls :: xkb_controls

record xkb_state_snapshot =
  xsnMods :: u8
  xsnBaseMods :: u8
  xsnLatchedMods :: u8
  xsnLockedMods :: u8
  xsnGroup :: u8
  xsnBaseGroup :: int
  xsnLatchedGroup :: int
  xsnLockedGroup :: u8
  xsnPointerButtons :: u16

record xkb_event_selection =
  xeOwner :: u32
  xeEvents :: u16
  xeMap :: u16
  xeNewKeyboard :: u16
  xeState :: u16
  xeControls :: u32
  xeIndicatorState :: u32
  xeIndicatorMap :: u32
  xeNames :: u16
  xeCompatibility :: u8
  xeBell :: u8
  xeActionMessage :: u8
  xeAccessX :: u16
  xeExtensionDevice :: u16

record xi2_event_mask =
  xmDevice :: u16
  xmWords :: "u32 list"

record xi2_event_selection =
  xlOwner :: u32
  xlWindow :: u32
  xlMasks :: "xi2_event_mask list"

record key_repeat =
  krKey :: u8
  krDeadline :: int    \<comment> \<open>a reading of the server's clock, in nanoseconds since its start\<close>

subsection \<open>Frozen pointer events and input defaults\<close>

record pending_input =
  piType :: u8
  piDetail :: u8
  piRootX :: int
  piRootY :: int

record frozen_pointer_event =
  fpEvent :: core_input_event
  fpMask :: u32
  fpSource :: u32
  fpPropagationStop :: u32
  fpPointerWindow :: u32
  fpPending :: "pending_input list"

definition keys_per_modifier :: nat where "keys_per_modifier = 4"

definition core_modifier_map :: "u8 list" where
  "core_modifier_map =
     [50, 62, 0, 0, 66, 0, 0, 0,
      37, 105, 0, 0, 64, 108, 204, 205,
      77, 0, 0, 0, 203, 0, 0, 0,
      133, 134, 206, 0, 92, 0, 0, 0]"

definition default_auto_repeats :: "u8 list" where
  "default_auto_repeats =
     [0, 255, 255, 255, 223, 255, 251, 191,
      250, 223, 255, 239, 255, 237, 255, 255,
      159, 255, 255, 255, 255, 255, 255, 255,
      255, 247, 255, 255, 255, 255, 255, 255]"

definition default_pointer_map :: "u8 list" where
  "default_pointer_map = [1, 2, 3, 4, 5, 6, 7, 8, 9, 10]"

definition xkb_supported_boolean_controls :: u32 where
  "xkb_supported_boolean_controls = push_bit 0 1 OR push_bit 9 1"

definition xkb_controls_default :: xkb_controls where
  "xkb_controls_default =
     \<lparr>kcMouseKeysDefaultButton = 1, kcGroupsWrap = 1, kcInternalMods = 0, kcIgnoreLockMods = 0,
      kcInternalVirtualMods = 0, kcIgnoreLockVirtualMods = 0, kcRepeatDelay = 660,
      kcRepeatInterval = 40, kcSlowKeysDelay = 300, kcDebounceDelay = 300, kcMouseKeysDelay = 160,
      kcMouseKeysInterval = 40, kcMouseKeysTimeToMax = 30, kcMouseKeysMaxSpeed = 500,
      kcMouseKeysCurve = 0, kcAccessXOptions = 0, kcAccessXTimeout = 0,
      kcAccessXTimeoutOptionsMask = 0, kcAccessXTimeoutOptionsValues = 0, kcAccessXTimeoutMask = 0,
      kcAccessXTimeoutValues = 0, kcEnabled = xkb_supported_boolean_controls,
      kcPerKeyRepeat = default_auto_repeats\<rparr>"

definition xkb_keyboard_default :: xkb_keyboard_state where
  "xkb_keyboard_default =
     \<lparr>xkLatchedMods = 0, xkLockedMods = 0, xkBaseGroup = 0, xkLatchedGroup = 0, xkLockedGroup = 0,
      xkControls = xkb_controls_default\<rparr>"

subsection \<open>Outcomes\<close>

datatype selection_update = SelUpdated | SelIgnored | SelEventQueueFull
datatype redirect_delivery = NotRedirected | Redirected | RedirectQueueFull
datatype focus_update = FocusUpdated | FocusIgnored | FocusQueueFull
datatype reparent_update = ReparentUpdated | ReparentInvalid | ReparentQueueFull
datatype passive_grab_update = GrabUpdated | GrabAccessDenied | GrabResourceExhausted

text \<open>The outcome enumerations \<^verbatim>\<open>ShapeUpdate\<close>, \<^verbatim>\<open>XFixesUpdate\<close>, \<^verbatim>\<open>SyncUpdate\<close> and
  \<^verbatim>\<open>DamageUpdate\<close> have the same four members.\<close>

datatype table_update = Updated | Invalid | ResourceExhausted | UpdateQueueFull
datatype composite_update =
  CompositeUpdated | CompositeInvalid | CompositeAccessDenied | CompositeResourceExhausted

subsection \<open>The server state\<close>

record input_state =
  inPointerX :: int
  inPointerY :: int
  inModifierButtonMask :: u16
  inModifierMap :: "u8 list"
  inModifierKeysPerGroup :: nat
  inAutoRepeats :: "u8 list"
  inPointerMap :: "u8 list"
  inPressedButtons :: "256 word"
  inPressedKeys :: "u8 list"
  inLedMask :: u32
  inGlobalAutoRepeat :: bool
  inXkb :: xkb_keyboard_state
  inFrozenPointerEvent :: "frozen_pointer_event option"
  inFocus :: focus_state
  inPointerGrab :: "active_grab option"
  inKeyboardGrab :: "active_grab option"
  inPointerGrabTime :: u32
  inKeyboardGrabTime :: u32
  inPointerAccelerationNumerator :: int
  inPointerAccelerationDenominator :: int
  inPointerThreshold :: int
  inBellPitch :: int
  inBellDuration :: int
  inKeyClickPercent :: u8
  inBellPercent :: u8

definition default_global_auto_repeat :: bool where "default_global_auto_repeat = True"
definition default_key_click_percent :: u8 where "default_key_click_percent = 0"
definition default_bell_percent :: u8 where "default_bell_percent = 50"
definition default_bell_pitch :: int where "default_bell_pitch = 400"
definition default_bell_duration :: int where "default_bell_duration = 100"
definition default_pointer_acceleration_numerator :: int where "default_pointer_acceleration_numerator = 2"
definition default_pointer_acceleration_denominator :: int where "default_pointer_acceleration_denominator = 1"
definition default_pointer_threshold :: int where "default_pointer_threshold = 4"

definition screen_millimetres :: "int \<Rightarrow> int" where
  "screen_millimetres pixels = (pixels * 254 + 480) div 960"

text \<open>\<^verbatim>\<open>std::to_string\<close> of an unsigned number.\<close>

fun decimal :: "nat \<Rightarrow> string" where
  "decimal n = (if n < 10 then [char_of (48 + n)] else decimal (n div 10) @ [char_of (48 + n mod 10)])"

declare decimal.simps [simp del]

definition randr_initial_mode_id :: u32 where "randr_initial_mode_id = 0x202"
definition randr_output_id :: u32 where "randr_output_id = 0x201"

definition initial_randr :: "int \<Rightarrow> int \<Rightarrow> u32 \<Rightarrow> randr_state" where
  "initial_randr width height monitor_name =
     (let mode = \<lparr>rmId = randr_initial_mode_id, rmWidth = width, rmHeight = height,
            rmDotClock = min (width * height * 60) (2 ^ 32 - 1), rmHsyncStart = width,
            rmHsyncEnd = width, rmHtotal = width, rmHskew = 0, rmVsyncStart = height,
            rmVsyncEnd = height, rmVtotal = height, rmFlags = 0,
            rmName = decimal (nat width) @ ''x'' @ decimal (nat height), rmBuiltIn = True\<rparr>;
          gamma = map (\<lambda>i. of_nat (i * 257)) [0..<256];
          monitor = \<lparr>rnName = monitor_name, rnPrimary = True, rnAutomatic = True, rnX = 0, rnY = 0,
            rnWidth = width, rnHeight = height, rnMillimetreWidth = screen_millimetres width,
            rnMillimetreHeight = screen_millimetres height, rnOutputs = [randr_output_id]\<rparr>
      in \<lparr>rdTimestamp = 1, rdConfigTimestamp = 1, rdMillimetreWidth = screen_millimetres width,
          rdMillimetreHeight = screen_millimetres height, rdModes = [(randr_initial_mode_id, mode)],
          rdOutputModes = [randr_initial_mode_id], rdCurrentMode = randr_initial_mode_id,
          rdNextModeId = randr_initial_mode_id + 1, rdPrimaryOutput = randr_output_id,
          rdCrtcX = 0, rdCrtcY = 0, rdRotation = 1, rdGammaRed = gamma, rdGammaGreen = gamma,
          rdGammaBlue = gamma,
          rdTransform = \<lparr>rtMatrix = [65536, 0, 0, 0, 65536, 0, 0, 0, 65536], rtFilter = [],
                         rtParameters = []\<rparr>,
          rdPanning = \<lparr>rpLeft = 0, rpTop = 0, rpWidth = 0, rpHeight = 0, rpTrackLeft = 0,
            rpTrackTop = 0, rpTrackWidth = 0, rpTrackHeight = 0, rpBorderLeft = 0, rpBorderTop = 0,
            rpBorderRight = 0, rpBorderBottom = 0\<rparr>,
          rdOutputProperties = [], rdMonitors = [(monitor_name, monitor)], rdSubscriptions = []\<rparr>)"

record server_state = queue_state +
  ssAtoms :: atom_table
  ssResources :: "(u32, resource_record) umap"
  ssWindows :: "(u32, window_record) umap"
  ssPixmaps :: "(u32, pixmap_record) umap"
  ssDamages :: "(u32, damage_record) umap"
  ssCompositeRedirects :: "composite_redirect list"
  ssGraphicsContexts :: "(u32, graphics_context_record) umap"
  ssFonts :: "(u32, font_record) umap"
  ssDbeBuffers :: "(u32, dbe_buffer_record) umap"
  ssSharedMemory :: "(u32, nat) umap"
  ssSyncCounters :: "(u32, sync_counter_record) umap"
  ssSyncAlarms :: "(u32, sync_alarm_record) umap"
  ssSyncFences :: "(u32, sync_fence_record) umap"
  ssCursors :: "(u32, cursor_record) umap"
  ssCursorImages :: "(nat, cursor_image) umap"
  ssXfixesRegions :: "(u32, region) umap"
  ssXfixesBarriers :: "(u32, xfixes_barrier_record) umap"
  ssXfixesSelectionInputs :: "xfixes_selection_subscription list"
  ssXfixesCursorInputs :: "xfixes_cursor_subscription list"
  ssCursorHideCounts :: "(u32, u32) umap"
  ssSaveSets :: "(u32, save_set_entry list) umap"
  ssSyncCounterWaits :: "(u32, sync_wait_condition list) umap"
  ssSyncFenceWaits :: "(u32, u32 list) umap"
  ssSelections :: "(u32, selection_record) umap"
  ssWidth :: int
  ssHeight :: int
  ssSurfaceBytes :: nat
  ssPropertyBytes :: nat
  ssInstalledColormap :: u32
  ssServerGrabOwner :: u32
  ssScreenSaver :: screen_saver_state
  ssAccessControlEnabled :: bool
  ssInput :: input_state
  ssPassiveGrabs :: "passive_grab list"
  ssPresentSubscriptions :: "present_subscription list"
  ssPresentOperations :: "present_operation list"
  ssXkbSelections :: "xkb_event_selection list"
  ssXkbClientFlags :: "(u32, u32) umap"
  ssRandr :: randr_state
  ssKeyRepeat :: "key_repeat option"
  ssXi2Selections :: "xi2_event_selection list"
  ssXi2Properties :: "(u32, property_value) umap list"
  ssDisplayedCursor :: cursor_ref
  ssNextCursorSerial :: u32
  ssSceneDirty :: bool

text \<open>\<open>window(id)\<close> and the other finders of \<open>ServerState\<close>.\<close>

definition window :: "server_state \<Rightarrow> u32 \<Rightarrow> window_record option" where
  "window s w = umap_find w (ssWindows s)"

text \<open>A write through a \<open>WindowRecord &\<close>.\<close>

definition put_window :: "window_record \<Rightarrow> server_state \<Rightarrow> server_state" where
  "put_window w s = s\<lparr>ssWindows := umap_put (wnId w) w (ssWindows s)\<rparr>"

definition invalidate_scene :: "server_state \<Rightarrow> server_state" where
  "invalidate_scene s = s\<lparr>ssSceneDirty := True\<rparr>"

subsection \<open>The initial state\<close>

definition root_window_record :: "int \<Rightarrow> int \<Rightarrow> window_record" where
  "root_window_record width height =
     window_default\<lparr>wnId := root_window_id, wnWidth := width, wnHeight := height,
       wnBackgroundPixel := 0x0020252b, wnMapped := True, wnSurface := Some 0\<rparr>"

text \<open>The constructor, for a screen whose surfaces could be created; \<open>surface_bytes\<close> is what the
  root and composite surfaces take of the budget.\<close>

definition initial_state :: "int \<Rightarrow> int \<Rightarrow> nat \<Rightarrow> server_state" where
  "initial_state width height surface_bytes =
     \<lparr>ssClients = [], ssEventQueues = [], ssPendingEvents = 0, ssCurrentTime = 1,
      ssClientsToTerminate = [], ssSyncPriorities = [],
      ssAtoms = snd (intern ''XMIN-0'' False atom_table_init),
      ssResources = [(root_window_id, \<lparr>rrKind = KWindow, rrOwner = 0\<rparr>),
                     (default_colormap_id, \<lparr>rrKind = KColormap, rrOwner = 0\<rparr>)],
      ssWindows = [(root_window_id, root_window_record width height)],
      ssPixmaps = [], ssDamages = [], ssCompositeRedirects = [], ssGraphicsContexts = [],
      ssFonts = [], ssDbeBuffers = [], ssSharedMemory = [], ssSyncCounters = [],
      ssSyncAlarms = [], ssSyncFences = [], ssCursors = [], ssCursorImages = [],
      ssXfixesRegions = [], ssXfixesBarriers = [], ssXfixesSelectionInputs = [],
      ssXfixesCursorInputs = [], ssCursorHideCounts = [], ssSaveSets = [],
      ssSyncCounterWaits = [], ssSyncFenceWaits = [], ssSelections = [],
      ssWidth = width, ssHeight = height, ssSurfaceBytes = surface_bytes, ssPropertyBytes = 0,
      ssInstalledColormap = default_colormap_id, ssServerGrabOwner = 0,
      ssScreenSaver = \<lparr>svTimeout = 0, svInterval = 0, svPreferBlanking = 2, svAllowExposures = 2,
                       svActive = False\<rparr>,
      ssAccessControlEnabled = True,
      ssInput = \<lparr>inPointerX = width div 2, inPointerY = height div 2, inModifierButtonMask = 0,
                 inModifierMap = core_modifier_map, inModifierKeysPerGroup = keys_per_modifier,
                 inAutoRepeats = default_auto_repeats, inPointerMap = default_pointer_map,
                 inPressedButtons = 0, inPressedKeys = replicate 32 0, inLedMask = 0,
                 inGlobalAutoRepeat = default_global_auto_repeat, inXkb = xkb_keyboard_default, inFrozenPointerEvent = None,
                 inFocus = \<lparr>fsKind = FocusPointerRoot, fsWindow = 0, fsChangedAt = 1, fsRevertTo = 0\<rparr>,
                 inPointerGrab = None, inKeyboardGrab = None, inPointerGrabTime = 1,
                 inKeyboardGrabTime = 1,
                 inPointerAccelerationNumerator = default_pointer_acceleration_numerator,
                 inPointerAccelerationDenominator = default_pointer_acceleration_denominator,
                 inPointerThreshold = default_pointer_threshold, inBellPitch = default_bell_pitch,
                 inBellDuration = default_bell_duration, inKeyClickPercent = default_key_click_percent,
                 inBellPercent = default_bell_percent\<rparr>,
      ssPassiveGrabs = [], ssPresentSubscriptions = [], ssPresentOperations = [],
      ssXkbSelections = [], ssXkbClientFlags = [],
      ssRandr = initial_randr width height (fst (intern ''XMIN-0'' False atom_table_init)),
      ssKeyRepeat = None, ssXi2Selections = [], ssXi2Properties = [[], []], ssDisplayedCursor = None, ssNextCursorSerial = 1, ssSceneDirty = True\<rparr>"

subsection \<open>What event delivery leaves alone\<close>

lemma queue_event_server_frame:
  fixes s :: "'a queue_state_scheme"
  shows "snd (queue_event c e s) =
    s\<lparr>ssEventQueues := ssEventQueues (snd (queue_event c e s)),
      ssPendingEvents := ssPendingEvents (snd (queue_event c e s))\<rparr>"
  by (cases s) (simp add: queue_event_def Let_def)

lemma unqueue_events_server_frame:
  fixes s :: "'a queue_state_scheme"
  shows "\<exists>q n. unqueue_events es s = s\<lparr>ssEventQueues := q, ssPendingEvents := n\<rparr>"
proof (induction es s rule: unqueue_events.induct)
  case (1 s)
  then show ?case by (cases s) auto
next
  case (2 e es s)
  then show ?case by (cases s) (fastforce split: option.splits)
qed

lemma deliver_planned_server_frame:
  fixes s :: "'a queue_state_scheme"
  shows "\<exists>q n. snd (deliver_planned d es s) = s\<lparr>ssEventQueues := q, ssPendingEvents := n\<rparr>"
proof (induction es arbitrary: d s)
  case Nil
  then show ?case by (cases s) auto
next
  case (Cons e es)
  obtain q n where q: "snd (queue_event (fst e) (snd e) s) = s\<lparr>ssEventQueues := q, ssPendingEvents := n\<rparr>"
    using queue_event_server_frame by blast
  show ?case
  proof (cases "fst (queue_event (fst e) (snd e) s)")
    case True
    with Cons [of "e # d" "snd (queue_event (fst e) (snd e) s)"] q show ?thesis
      by (auto simp: case_prod_beta)
  next
    case False
    have "drop_empty_queue (fst e) (snd (queue_event (fst e) (snd e) s))
        = s\<lparr>ssEventQueues := (if umap_find (fst e) q = Some [] then umap_erase (fst e) q else q),
            ssPendingEvents := n\<rparr>"
      by (simp add: drop_empty_queue_def q)
    with False unqueue_events_server_frame [of d "drop_empty_queue (fst e) (snd (queue_event (fst e) (snd e) s))"]
    show ?thesis by (auto simp: case_prod_beta)
  qed
qed

lemma queue_events_server_frame:
  fixes s :: "'a queue_state_scheme"
  shows "\<exists>q n. snd (queue_events_atomically es s) = s\<lparr>ssEventQueues := q, ssPendingEvents := n\<rparr>"
proof -
  have "\<exists>q n. s = s\<lparr>ssEventQueues := q, ssPendingEvents := n\<rparr>"
    by (rule exI [of _ "ssEventQueues s"], rule exI [of _ "ssPendingEvents s"]) simp
  then show ?thesis
    using deliver_planned_server_frame [of "[]" es s] by (auto simp: queue_events_atomically_def)
qed

lemma queue_events_frame [simp]:
  fixes s :: server_state
  shows "ssClients (snd (queue_events_atomically es s)) = ssClients s"
    "ssCurrentTime (snd (queue_events_atomically es s)) = ssCurrentTime s"
    "ssClientsToTerminate (snd (queue_events_atomically es s)) = ssClientsToTerminate s"
    "ssSyncPriorities (snd (queue_events_atomically es s)) = ssSyncPriorities s"
    "ssAtoms (snd (queue_events_atomically es s)) = ssAtoms s"
    "ssResources (snd (queue_events_atomically es s)) = ssResources s"
    "ssWindows (snd (queue_events_atomically es s)) = ssWindows s"
    "ssPixmaps (snd (queue_events_atomically es s)) = ssPixmaps s"
    "ssDamages (snd (queue_events_atomically es s)) = ssDamages s"
    "ssCompositeRedirects (snd (queue_events_atomically es s)) = ssCompositeRedirects s"
    "ssGraphicsContexts (snd (queue_events_atomically es s)) = ssGraphicsContexts s"
    "ssFonts (snd (queue_events_atomically es s)) = ssFonts s"
    "ssDbeBuffers (snd (queue_events_atomically es s)) = ssDbeBuffers s"
    "ssSharedMemory (snd (queue_events_atomically es s)) = ssSharedMemory s"
    "ssSyncCounters (snd (queue_events_atomically es s)) = ssSyncCounters s"
    "ssSyncAlarms (snd (queue_events_atomically es s)) = ssSyncAlarms s"
    "ssSyncFences (snd (queue_events_atomically es s)) = ssSyncFences s"
    "ssCursors (snd (queue_events_atomically es s)) = ssCursors s"
    "ssCursorImages (snd (queue_events_atomically es s)) = ssCursorImages s"
    "ssXfixesRegions (snd (queue_events_atomically es s)) = ssXfixesRegions s"
    "ssXfixesBarriers (snd (queue_events_atomically es s)) = ssXfixesBarriers s"
    "ssXfixesSelectionInputs (snd (queue_events_atomically es s)) = ssXfixesSelectionInputs s"
    "ssXfixesCursorInputs (snd (queue_events_atomically es s)) = ssXfixesCursorInputs s"
    "ssCursorHideCounts (snd (queue_events_atomically es s)) = ssCursorHideCounts s"
    "ssSaveSets (snd (queue_events_atomically es s)) = ssSaveSets s"
    "ssSyncCounterWaits (snd (queue_events_atomically es s)) = ssSyncCounterWaits s"
    "ssSyncFenceWaits (snd (queue_events_atomically es s)) = ssSyncFenceWaits s"
    "ssSelections (snd (queue_events_atomically es s)) = ssSelections s"
    "ssWidth (snd (queue_events_atomically es s)) = ssWidth s"
    "ssHeight (snd (queue_events_atomically es s)) = ssHeight s"
    "ssSurfaceBytes (snd (queue_events_atomically es s)) = ssSurfaceBytes s"
    "ssPropertyBytes (snd (queue_events_atomically es s)) = ssPropertyBytes s"
    "ssInstalledColormap (snd (queue_events_atomically es s)) = ssInstalledColormap s"
    "ssServerGrabOwner (snd (queue_events_atomically es s)) = ssServerGrabOwner s"
    "ssScreenSaver (snd (queue_events_atomically es s)) = ssScreenSaver s"
    "ssAccessControlEnabled (snd (queue_events_atomically es s)) = ssAccessControlEnabled s"
    "ssInput (snd (queue_events_atomically es s)) = ssInput s"
    "ssPassiveGrabs (snd (queue_events_atomically es s)) = ssPassiveGrabs s"
    "ssPresentSubscriptions (snd (queue_events_atomically es s)) = ssPresentSubscriptions s"
    "ssPresentOperations (snd (queue_events_atomically es s)) = ssPresentOperations s"
    "ssXkbSelections (snd (queue_events_atomically es s)) = ssXkbSelections s"
    "ssXkbClientFlags (snd (queue_events_atomically es s)) = ssXkbClientFlags s"
    "ssRandr (snd (queue_events_atomically es s)) = ssRandr s"
    "ssKeyRepeat (snd (queue_events_atomically es s)) = ssKeyRepeat s"
    "ssXi2Selections (snd (queue_events_atomically es s)) = ssXi2Selections s"
    "ssXi2Properties (snd (queue_events_atomically es s)) = ssXi2Properties s"
    "ssDisplayedCursor (snd (queue_events_atomically es s)) = ssDisplayedCursor s"
    "ssNextCursorSerial (snd (queue_events_atomically es s)) = ssNextCursorSerial s"
    "ssSceneDirty (snd (queue_events_atomically es s)) = ssSceneDirty s"
proof -
  obtain q n where "snd (queue_events_atomically es s) = s\<lparr>ssEventQueues := q, ssPendingEvents := n\<rparr>"
    using queue_events_server_frame by blast
  then show "ssClients (snd (queue_events_atomically es s)) = ssClients s"
    "ssCurrentTime (snd (queue_events_atomically es s)) = ssCurrentTime s"
    "ssClientsToTerminate (snd (queue_events_atomically es s)) = ssClientsToTerminate s"
    "ssSyncPriorities (snd (queue_events_atomically es s)) = ssSyncPriorities s"
    "ssAtoms (snd (queue_events_atomically es s)) = ssAtoms s"
    "ssResources (snd (queue_events_atomically es s)) = ssResources s"
    "ssWindows (snd (queue_events_atomically es s)) = ssWindows s"
    "ssPixmaps (snd (queue_events_atomically es s)) = ssPixmaps s"
    "ssDamages (snd (queue_events_atomically es s)) = ssDamages s"
    "ssCompositeRedirects (snd (queue_events_atomically es s)) = ssCompositeRedirects s"
    "ssGraphicsContexts (snd (queue_events_atomically es s)) = ssGraphicsContexts s"
    "ssFonts (snd (queue_events_atomically es s)) = ssFonts s"
    "ssDbeBuffers (snd (queue_events_atomically es s)) = ssDbeBuffers s"
    "ssSharedMemory (snd (queue_events_atomically es s)) = ssSharedMemory s"
    "ssSyncCounters (snd (queue_events_atomically es s)) = ssSyncCounters s"
    "ssSyncAlarms (snd (queue_events_atomically es s)) = ssSyncAlarms s"
    "ssSyncFences (snd (queue_events_atomically es s)) = ssSyncFences s"
    "ssCursors (snd (queue_events_atomically es s)) = ssCursors s"
    "ssCursorImages (snd (queue_events_atomically es s)) = ssCursorImages s"
    "ssXfixesRegions (snd (queue_events_atomically es s)) = ssXfixesRegions s"
    "ssXfixesBarriers (snd (queue_events_atomically es s)) = ssXfixesBarriers s"
    "ssXfixesSelectionInputs (snd (queue_events_atomically es s)) = ssXfixesSelectionInputs s"
    "ssXfixesCursorInputs (snd (queue_events_atomically es s)) = ssXfixesCursorInputs s"
    "ssCursorHideCounts (snd (queue_events_atomically es s)) = ssCursorHideCounts s"
    "ssSaveSets (snd (queue_events_atomically es s)) = ssSaveSets s"
    "ssSyncCounterWaits (snd (queue_events_atomically es s)) = ssSyncCounterWaits s"
    "ssSyncFenceWaits (snd (queue_events_atomically es s)) = ssSyncFenceWaits s"
    "ssSelections (snd (queue_events_atomically es s)) = ssSelections s"
    "ssWidth (snd (queue_events_atomically es s)) = ssWidth s"
    "ssHeight (snd (queue_events_atomically es s)) = ssHeight s"
    "ssSurfaceBytes (snd (queue_events_atomically es s)) = ssSurfaceBytes s"
    "ssPropertyBytes (snd (queue_events_atomically es s)) = ssPropertyBytes s"
    "ssInstalledColormap (snd (queue_events_atomically es s)) = ssInstalledColormap s"
    "ssServerGrabOwner (snd (queue_events_atomically es s)) = ssServerGrabOwner s"
    "ssScreenSaver (snd (queue_events_atomically es s)) = ssScreenSaver s"
    "ssAccessControlEnabled (snd (queue_events_atomically es s)) = ssAccessControlEnabled s"
    "ssInput (snd (queue_events_atomically es s)) = ssInput s"
    "ssPassiveGrabs (snd (queue_events_atomically es s)) = ssPassiveGrabs s"
    "ssPresentSubscriptions (snd (queue_events_atomically es s)) = ssPresentSubscriptions s"
    "ssPresentOperations (snd (queue_events_atomically es s)) = ssPresentOperations s"
    "ssXkbSelections (snd (queue_events_atomically es s)) = ssXkbSelections s"
    "ssXkbClientFlags (snd (queue_events_atomically es s)) = ssXkbClientFlags s"
    "ssRandr (snd (queue_events_atomically es s)) = ssRandr s"
    "ssKeyRepeat (snd (queue_events_atomically es s)) = ssKeyRepeat s"
    "ssXi2Selections (snd (queue_events_atomically es s)) = ssXi2Selections s"
    "ssXi2Properties (snd (queue_events_atomically es s)) = ssXi2Properties s"
    "ssDisplayedCursor (snd (queue_events_atomically es s)) = ssDisplayedCursor s"
    "ssNextCursorSerial (snd (queue_events_atomically es s)) = ssNextCursorSerial s"
    "ssSceneDirty (snd (queue_events_atomically es s)) = ssSceneDirty s"
    by simp_all
qed

lemma queue_event_frame_server [simp]:
  fixes s :: server_state
  shows "ssClients (snd (queue_event c e s)) = ssClients s"
    "ssCurrentTime (snd (queue_event c e s)) = ssCurrentTime s"
    "ssClientsToTerminate (snd (queue_event c e s)) = ssClientsToTerminate s"
    "ssSyncPriorities (snd (queue_event c e s)) = ssSyncPriorities s"
    "ssAtoms (snd (queue_event c e s)) = ssAtoms s"
    "ssResources (snd (queue_event c e s)) = ssResources s"
    "ssWindows (snd (queue_event c e s)) = ssWindows s"
    "ssPixmaps (snd (queue_event c e s)) = ssPixmaps s"
    "ssDamages (snd (queue_event c e s)) = ssDamages s"
    "ssCompositeRedirects (snd (queue_event c e s)) = ssCompositeRedirects s"
    "ssGraphicsContexts (snd (queue_event c e s)) = ssGraphicsContexts s"
    "ssFonts (snd (queue_event c e s)) = ssFonts s"
    "ssDbeBuffers (snd (queue_event c e s)) = ssDbeBuffers s"
    "ssSharedMemory (snd (queue_event c e s)) = ssSharedMemory s"
    "ssSyncCounters (snd (queue_event c e s)) = ssSyncCounters s"
    "ssSyncAlarms (snd (queue_event c e s)) = ssSyncAlarms s"
    "ssSyncFences (snd (queue_event c e s)) = ssSyncFences s"
    "ssCursors (snd (queue_event c e s)) = ssCursors s"
    "ssCursorImages (snd (queue_event c e s)) = ssCursorImages s"
    "ssXfixesRegions (snd (queue_event c e s)) = ssXfixesRegions s"
    "ssXfixesBarriers (snd (queue_event c e s)) = ssXfixesBarriers s"
    "ssXfixesSelectionInputs (snd (queue_event c e s)) = ssXfixesSelectionInputs s"
    "ssXfixesCursorInputs (snd (queue_event c e s)) = ssXfixesCursorInputs s"
    "ssCursorHideCounts (snd (queue_event c e s)) = ssCursorHideCounts s"
    "ssSaveSets (snd (queue_event c e s)) = ssSaveSets s"
    "ssSyncCounterWaits (snd (queue_event c e s)) = ssSyncCounterWaits s"
    "ssSyncFenceWaits (snd (queue_event c e s)) = ssSyncFenceWaits s"
    "ssSelections (snd (queue_event c e s)) = ssSelections s"
    "ssWidth (snd (queue_event c e s)) = ssWidth s"
    "ssHeight (snd (queue_event c e s)) = ssHeight s"
    "ssSurfaceBytes (snd (queue_event c e s)) = ssSurfaceBytes s"
    "ssPropertyBytes (snd (queue_event c e s)) = ssPropertyBytes s"
    "ssInstalledColormap (snd (queue_event c e s)) = ssInstalledColormap s"
    "ssServerGrabOwner (snd (queue_event c e s)) = ssServerGrabOwner s"
    "ssScreenSaver (snd (queue_event c e s)) = ssScreenSaver s"
    "ssAccessControlEnabled (snd (queue_event c e s)) = ssAccessControlEnabled s"
    "ssInput (snd (queue_event c e s)) = ssInput s"
    "ssPassiveGrabs (snd (queue_event c e s)) = ssPassiveGrabs s"
    "ssPresentSubscriptions (snd (queue_event c e s)) = ssPresentSubscriptions s"
    "ssPresentOperations (snd (queue_event c e s)) = ssPresentOperations s"
    "ssXkbSelections (snd (queue_event c e s)) = ssXkbSelections s"
    "ssXkbClientFlags (snd (queue_event c e s)) = ssXkbClientFlags s"
    "ssRandr (snd (queue_event c e s)) = ssRandr s"
    "ssKeyRepeat (snd (queue_event c e s)) = ssKeyRepeat s"
    "ssXi2Selections (snd (queue_event c e s)) = ssXi2Selections s"
    "ssXi2Properties (snd (queue_event c e s)) = ssXi2Properties s"
    "ssDisplayedCursor (snd (queue_event c e s)) = ssDisplayedCursor s"
    "ssNextCursorSerial (snd (queue_event c e s)) = ssNextCursorSerial s"
    "ssSceneDirty (snd (queue_event c e s)) = ssSceneDirty s"
  by (simp_all add: queue_event_def Let_def)

end
