(* ===== verification/Region.thy ===== *)
theory Region
  imports Server_Model
begin

text \<open>
  Regions as the server handles them (\<^verbatim>\<open>src/server/region.cpp\<close>): the point query, the extents,
  and the conversions between rectangles and the half-open boxes of pixman.  A rectangle covers
  the points \<open>x \<le> px < x + width\<close>, \<open>y \<le> py < y + height\<close>.
\<close>

definition rect_contains :: "rectangle \<Rightarrow> int \<Rightarrow> int \<Rightarrow> bool" where
  "rect_contains r x y \<longleftrightarrow> rcX r \<le> x \<and> rcY r \<le> y \<and> x < rcX r + rcWidth r \<and> y < rcY r + rcHeight r"

definition region_contains :: "region \<Rightarrow> int \<Rightarrow> int \<Rightarrow> bool" where
  "region_contains rects x y \<longleftrightarrow> list_ex (\<lambda>r. rect_contains r x y) rects"

record pixman_box =
  bxX1 :: int
  bxY1 :: int
  bxX2 :: int
  bxY2 :: int

definition box_contains :: "pixman_box \<Rightarrow> int \<Rightarrow> int \<Rightarrow> bool" where
  "box_contains b x y \<longleftrightarrow> bxX1 b \<le> x \<and> x < bxX2 b \<and> bxY1 b \<le> y \<and> y < bxY2 b"

text \<open>\<open>make_boxes\<close>: empty rectangles are skipped; an edge beyond \<open>int32\<close> fails the conversion.\<close>

fun make_boxes :: "rectangle list \<Rightarrow> pixman_box list option" where
  "make_boxes [] = Some []"
| "make_boxes (r # rs) =
     (if rcWidth r = 0 \<or> rcHeight r = 0 then make_boxes rs
      else if 2 ^ 31 - 1 < rcX r + rcWidth r \<or> 2 ^ 31 - 1 < rcY r + rcHeight r then None
      else map_option ((#) \<lparr>bxX1 = rcX r, bxY1 = rcY r, bxX2 = rcX r + rcWidth r,
                            bxY2 = rcY r + rcHeight r\<rparr>) (make_boxes rs))"

definition make_rectangles :: "pixman_box list \<Rightarrow> rectangle list" where
  "make_rectangles boxes =
     map (\<lambda>b. \<lparr>rcX = bxX1 b, rcY = bxY1 b, rcWidth = to_unsigned 32 (bxX2 b - bxX1 b),
               rcHeight = to_unsigned 32 (bxY2 b - bxY1 b)\<rparr>) boxes"

definition region_extents :: "region \<Rightarrow> rectangle" where
  "region_extents rects =
     (case rects of
        [] \<Rightarrow> \<lparr>rcX = 0, rcY = 0, rcWidth = 0, rcHeight = 0\<rparr>
      | r # _ \<Rightarrow>
          let (left, top, right, bottom) =
                fold (\<lambda>q (left, top, right, bottom).
                        (min left (rcX q), min top (rcY q), max right (rcX q + rcWidth q),
                         max bottom (rcY q + rcHeight q)))
                  rects (rcX r, rcY r, rcX r + rcWidth r, rcY r + rcHeight r)
          in \<lparr>rcX = left, rcY = top, rcWidth = to_unsigned 32 (right - left),
              rcHeight = to_unsigned 32 (bottom - top)\<rparr>)"

text \<open>The rectangles of a \<open>Region\<close>: members in their types' ranges, edges within \<open>int32\<close>.\<close>

definition rect_ok :: "rectangle \<Rightarrow> bool" where
  "rect_ok r \<longleftrightarrow> in_i32 (rcX r) \<and> in_i32 (rcY r) \<and> in_u32 (rcWidth r) \<and> in_u32 (rcHeight r) \<and>
     rcX r + rcWidth r < 2 ^ 31 \<and> rcY r + rcHeight r < 2 ^ 31"

lemma region_contains_iff: "region_contains rects x y \<longleftrightarrow> (\<exists>r \<in> set rects. rect_contains r x y)"
  by (simp add: region_contains_def list_ex_iff)

lemma region_contains_simps [simp]:
  "region_contains [] x y = False"
  "region_contains (r # rs) x y = (rect_contains r x y \<or> region_contains rs x y)"
  "region_contains (rs @ ss) x y = (region_contains rs x y \<or> region_contains ss x y)"
  by (auto simp: region_contains_iff)

lemma make_boxes_contains:
  "make_boxes rects = Some boxes \<Longrightarrow> (\<exists>b \<in> set boxes. box_contains b x y) = region_contains rects x y"
proof (induction rects arbitrary: boxes)
  case Nil
  then show ?case by simp
next
  case (Cons r rects)
  then show ?case by (auto simp: rect_contains_def box_contains_def split: if_splits)
qed

lemma make_boxes_total: "\<forall>r \<in> set rects. rect_ok r \<Longrightarrow> \<exists>boxes. make_boxes rects = Some boxes"
  by (induction rects) (auto simp: rect_ok_def)

lemma make_rectangles_contains:
  assumes "\<forall>b \<in> set boxes. bxX1 b \<le> bxX2 b \<and> bxX2 b - bxX1 b < 2 ^ 32 \<and> bxY1 b \<le> bxY2 b \<and> bxY2 b - bxY1 b < 2 ^ 32"
  shows "region_contains (make_rectangles boxes) x y \<longleftrightarrow> (\<exists>b \<in> set boxes. box_contains b x y)"
  using assms by (auto simp: region_contains_iff make_rectangles_def rect_contains_def box_contains_def)

text \<open>What the loop of \<open>extents\<close> accumulates.\<close>

definition bounds_step :: "rectangle \<Rightarrow> int \<times> int \<times> int \<times> int \<Rightarrow> int \<times> int \<times> int \<times> int" where
  "bounds_step q b = (case b of (l, t, r, m) \<Rightarrow>
     (min l (rcX q), min t (rcY q), max r (rcX q + rcWidth q), max m (rcY q + rcHeight q)))"

lemma fold_bounds:
  "\<exists>l' t' r' m'. fold bounds_step rects (l, t, r, m) = (l', t', r', m') \<and>
     l' \<le> l \<and> t' \<le> t \<and> r \<le> r' \<and> m \<le> m' \<and>
     (\<forall>q \<in> set rects. l' \<le> rcX q \<and> t' \<le> rcY q \<and> rcX q + rcWidth q \<le> r' \<and> rcY q + rcHeight q \<le> m') \<and>
     (l' = l \<or> (\<exists>q \<in> set rects. l' = rcX q)) \<and> (t' = t \<or> (\<exists>q \<in> set rects. t' = rcY q)) \<and>
     (r' = r \<or> (\<exists>q \<in> set rects. r' = rcX q + rcWidth q)) \<and>
     (m' = m \<or> (\<exists>q \<in> set rects. m' = rcY q + rcHeight q))"
proof (induction rects arbitrary: l t r m)
  case Nil
  then show ?case by simp
next
  case (Cons q rects)
  obtain l1 t1 r1 m1 where b: "bounds_step q (l, t, r, m) = (l1, t1, r1, m1)" by (metis prod_cases4)
  have c: "l1 = min l (rcX q)" "t1 = min t (rcY q)" "r1 = max r (rcX q + rcWidth q)"
    "m1 = max m (rcY q + rcHeight q)" using b by (simp_all add: bounds_step_def)
  obtain l' t' r' m' where f: "fold bounds_step rects (l1, t1, r1, m1) = (l', t', r', m')"
    "l' \<le> l1" "t' \<le> t1" "r1 \<le> r'" "m1 \<le> m'"
    "\<forall>q \<in> set rects. l' \<le> rcX q \<and> t' \<le> rcY q \<and> rcX q + rcWidth q \<le> r' \<and> rcY q + rcHeight q \<le> m'"
    "l' = l1 \<or> (\<exists>q \<in> set rects. l' = rcX q)" "t' = t1 \<or> (\<exists>q \<in> set rects. t' = rcY q)"
    "r' = r1 \<or> (\<exists>q \<in> set rects. r' = rcX q + rcWidth q)"
    "m' = m1 \<or> (\<exists>q \<in> set rects. m' = rcY q + rcHeight q)"
    using Cons.IH [of l1 t1 r1 m1] by blast
  have "l' \<le> l \<and> t' \<le> t \<and> r \<le> r' \<and> m \<le> m'" "l' \<le> rcX q \<and> t' \<le> rcY q \<and> rcX q + rcWidth q \<le> r' \<and> rcY q + rcHeight q \<le> m'"
    using f(2-5) c by linarith+
  moreover have "l' = l \<or> (\<exists>a \<in> set (q # rects). l' = rcX a)" "t' = t \<or> (\<exists>a \<in> set (q # rects). t' = rcY a)"
    "r' = r \<or> (\<exists>a \<in> set (q # rects). r' = rcX a + rcWidth a)"
    "m' = m \<or> (\<exists>a \<in> set (q # rects). m' = rcY a + rcHeight a)"
    using f(7-10) c by (auto simp: min_def max_def split: if_splits)
  ultimately show ?case using f(1,6) b by simp
qed

text \<open>The extents are the bounding box: every rectangle of the region lies within them, and when
  the region is not empty each of their four edges is an edge of some rectangle.\<close>

theorem region_extents_bounding_box:
  assumes "\<forall>r \<in> set rects. rect_ok r" and "rects \<noteq> []"
  shows "(\<forall>q \<in> set rects. rcX (region_extents rects) \<le> rcX q \<and> rcY (region_extents rects) \<le> rcY q \<and>
      rcX q + rcWidth q \<le> rcX (region_extents rects) + rcWidth (region_extents rects) \<and>
      rcY q + rcHeight q \<le> rcY (region_extents rects) + rcHeight (region_extents rects)) \<and>
    (\<exists>q \<in> set rects. rcX (region_extents rects) = rcX q) \<and>
    (\<exists>q \<in> set rects. rcY (region_extents rects) = rcY q) \<and>
    (\<exists>q \<in> set rects. rcX (region_extents rects) + rcWidth (region_extents rects) = rcX q + rcWidth q) \<and>
    (\<exists>q \<in> set rects. rcY (region_extents rects) + rcHeight (region_extents rects) = rcY q + rcHeight q)"
proof -
  obtain r rs where rects: "rects = r # rs" using assms(2) by (cases rects) auto
  obtain l t e m where f: "fold bounds_step rects (rcX r, rcY r, rcX r + rcWidth r, rcY r + rcHeight r) = (l, t, e, m)"
    "l \<le> rcX r" "t \<le> rcY r" "rcX r + rcWidth r \<le> e" "rcY r + rcHeight r \<le> m"
    "\<forall>q \<in> set rects. l \<le> rcX q \<and> t \<le> rcY q \<and> rcX q + rcWidth q \<le> e \<and> rcY q + rcHeight q \<le> m"
    "l = rcX r \<or> (\<exists>q \<in> set rects. l = rcX q)" "t = rcY r \<or> (\<exists>q \<in> set rects. t = rcY q)"
    "e = rcX r + rcWidth r \<or> (\<exists>q \<in> set rects. e = rcX q + rcWidth q)"
    "m = rcY r + rcHeight r \<or> (\<exists>q \<in> set rects. m = rcY q + rcHeight q)"
    using fold_bounds [of rects "rcX r" "rcY r"] by blast
  have r: "r \<in> set rects" by (simp add: rects)
  have edges: "\<exists>q \<in> set rects. l = rcX q" "\<exists>q \<in> set rects. t = rcY q"
    "\<exists>q \<in> set rects. e = rcX q + rcWidth q" "\<exists>q \<in> set rects. m = rcY q + rcHeight q"
    using f(7-10) r by blast+
  have "- (2 ^ 31) \<le> l" "- (2 ^ 31) \<le> t" "e < 2 ^ 31" "m < 2 ^ 31" "0 \<le> rcWidth r" "0 \<le> rcHeight r"
    using edges assms(1) r by (auto simp: rect_ok_def range_defs)
  then have range: "0 \<le> e - l" "e - l < 2 ^ 32" "0 \<le> m - t" "m - t < 2 ^ 32"
    using f(2-5) by simp_all
  have step: "(\<lambda>q (left, top, right, bottom). (min left (rcX q), min top (rcY q),
      max right (rcX q + rcWidth q), max bottom (rcY q + rcHeight q))) = bounds_step"
    by (simp add: bounds_step_def fun_eq_iff)
  have "region_extents rects = \<lparr>rcX = l, rcY = t, rcWidth = e - l, rcHeight = m - t\<rparr>"
    using f(1) range unfolding region_extents_def step by (simp add: rects)
  then show ?thesis using f(6) edges by simp
qed

theorem region_extents_bounding_box_witness:
  "rcX (region_extents [\<lparr>rcX = 5, rcY = 0, rcWidth = 2, rcHeight = 3\<rparr>,
      \<lparr>rcX = - 4, rcY = 1, rcWidth = 3, rcHeight = 9\<rparr>]) \<le> - 4"
  using region_extents_bounding_box [of "[\<lparr>rcX = 5, rcY = 0, rcWidth = 2, rcHeight = 3\<rparr>,
      \<lparr>rcX = - 4, rcY = 1, rcWidth = 3, rcHeight = 9\<rparr>]"]
  by (simp add: rect_ok_def range_defs)

end
