(* ===== verification/Geometry.thy ===== *)
theory Geometry
  imports Region "HOL-Library.Signed_Division"
begin

text \<open>
  Geometry helpers of \<^verbatim>\<open>src/server/server_state.cpp\<close>: what survives a resize under each bit
  gravity (\<open>resize_preservation\<close>), the clamping conversions to wire types, and the millimetres of a
  screen.  C's integer division truncates, hence \<open>sdiv\<close>.
\<close>

record resize_preservation =
  rpDestinationX :: int
  rpDestinationY :: int
  rpExposed :: "rectangle list"

text \<open>The lambda \<open>add_exposed\<close>: rectangles without area are not recorded.\<close>

definition add_exposed :: "int \<Rightarrow> int \<Rightarrow> int \<Rightarrow> int \<Rightarrow> resize_preservation \<Rightarrow> resize_preservation" where
  "add_exposed x y width height result =
     (if 0 < width \<and> 0 < height
      then result\<lparr>rpExposed := rpExposed result @
             [\<lparr>rcX = x, rcY = y, rcWidth = to_unsigned 32 width, rcHeight = to_unsigned 32 height\<rparr>]\<rparr>
      else result)"

text \<open>The switch over the gravity; \<open>old_x\<close> to \<open>new_y\<close> are only read for static gravity.\<close>

definition gravity_destination ::
  "nat \<Rightarrow> int \<Rightarrow> int \<Rightarrow> int \<Rightarrow> int \<Rightarrow> int \<Rightarrow> int \<Rightarrow> int \<times> int" where
  "gravity_destination gravity width_delta height_delta old_x old_y new_x new_y =
     (if gravity = 2 then (width_delta sdiv 2, 0)
      else if gravity = 3 then (width_delta, 0)
      else if gravity = 4 then (0, height_delta sdiv 2)
      else if gravity = 5 then (width_delta sdiv 2, height_delta sdiv 2)
      else if gravity = 6 then (width_delta, height_delta sdiv 2)
      else if gravity = 7 then (0, height_delta)
      else if gravity = 8 then (width_delta sdiv 2, height_delta)
      else if gravity = 9 then (width_delta, height_delta)
      else if gravity = 10 then (old_x - new_x, old_y - new_y)
      else (0, 0))"

definition resize_preservation_of ::
  "nat \<Rightarrow> int \<Rightarrow> int \<Rightarrow> int \<Rightarrow> int \<Rightarrow> int \<Rightarrow> int \<Rightarrow> int \<Rightarrow> int \<Rightarrow> resize_preservation" where
  "resize_preservation_of gravity old_x old_y old_width old_height new_x new_y new_width new_height =
     (let result = \<lparr>rpDestinationX = 0, rpDestinationY = 0, rpExposed = []\<rparr>
      in if gravity = 0 \<or> 10 < gravity then add_exposed 0 0 new_width new_height result
         else
           let (dx, dy) = gravity_destination gravity (new_width - old_width) (new_height - old_height)
                 old_x old_y new_x new_y;
               result = result\<lparr>rpDestinationX := dx, rpDestinationY := dy\<rparr>;
               left = max 0 dx; top = max 0 dy;
               right = min new_width (dx + old_width); bottom = min new_height (dy + old_height)
           in if right \<le> left \<or> bottom \<le> top then add_exposed 0 0 new_width new_height result
              else
                add_exposed right top (new_width - right) (bottom - top)
                  (add_exposed 0 top left (bottom - top)
                    (add_exposed 0 bottom new_width (new_height - bottom)
                      (add_exposed 0 0 new_width top result))))"

definition wire_coordinate :: "int \<Rightarrow> int" where
  "wire_coordinate value = max (- (2 ^ 15)) (min (2 ^ 15 - 1) value)"

definition wire_size :: "int \<Rightarrow> int" where
  "wire_size value = min value (2 ^ 16 - 1)"

subsection \<open>What is preserved and what is exposed\<close>

text \<open>The part of the new window the old contents are copied to.\<close>

definition preserved_at :: "resize_preservation \<Rightarrow> int \<Rightarrow> int \<Rightarrow> int \<Rightarrow> int \<Rightarrow> bool" where
  "preserved_at p old_width old_height x y \<longleftrightarrow>
     rpDestinationX p \<le> x \<and> x < rpDestinationX p + old_width \<and>
     rpDestinationY p \<le> y \<and> y < rpDestinationY p + old_height"

lemma add_exposed_contains:
  assumes "width < 2 ^ 32" "height < 2 ^ 32"
  shows "length (filter (\<lambda>r. rect_contains r px py) (rpExposed (add_exposed x y width height p))) =
    length (filter (\<lambda>r. rect_contains r px py) (rpExposed p)) +
    (if x \<le> px \<and> px < x + width \<and> y \<le> py \<and> py < y + height then 1 else 0)"
  using assms by (auto simp: add_exposed_def rect_contains_def)

lemma add_exposed_frame [simp]:
  "rpDestinationX (add_exposed x y width height p) = rpDestinationX p"
  "rpDestinationY (add_exposed x y width height p) = rpDestinationY p"
  "length (rpExposed (add_exposed x y width height p)) \<le> Suc (length (rpExposed p))"
  by (simp_all add: add_exposed_def)

text \<open>A resize loses and doubles nothing.  For every gravity and all sizes, at most four areas are
  exposed (the array has four slots), and every pixel of the new window is either in exactly one
  exposed area and not preserved, or in none and preserved, where the preserved pixels are exactly
  those the gravity puts the old contents on; with forget gravity (0) or an invalid one every pixel is
  exposed once.\<close>

theorem resize_preservation_partition:
  fixes gravity :: nat and ox oy nx ny px py nw nh ow oh :: int
  assumes "0 \<le> px" "px < nw" "0 \<le> py" "py < nh"
    and "nw < 2 ^ 16" "nh < 2 ^ 16" and "0 \<le> ow" "ow < 2 ^ 16" "0 \<le> oh" "oh < 2 ^ 16"
  defines "p \<equiv> resize_preservation_of gravity ox oy ow oh nx ny nw nh"
  shows "length (rpExposed p) \<le> 4 \<and>
    length (filter (\<lambda>r. rect_contains r px py) (rpExposed p)) =
      (if 1 \<le> gravity \<and> gravity \<le> 10 \<and> preserved_at p ow oh px py then 0 else 1)"
proof (cases "gravity = 0 \<or> 10 < gravity")
  case True
  then have p: "p = add_exposed 0 0 nw nh \<lparr>rpDestinationX = 0, rpDestinationY = 0, rpExposed = []\<rparr>"
    by (simp add: p_def resize_preservation_of_def)
  have "\<not> (1 \<le> gravity \<and> gravity \<le> 10)" using True by arith
  moreover have "length (filter (\<lambda>r. rect_contains r px py) (rpExposed p)) = 1" "length (rpExposed p) \<le> 4"
    using assms(1-6) unfolding p by (simp_all add: add_exposed_contains) (simp add: add_exposed_def)
  ultimately show ?thesis by auto
next
  case False
  obtain dx dy where d: "gravity_destination gravity (nw - ow) (nh - oh) ox oy nx ny = (dx, dy)"
    by (rule prod.exhaust)
  let ?r = "\<lparr>rpDestinationX = dx, rpDestinationY = dy, rpExposed = []\<rparr>"
  define left top right bottom where "left = max 0 dx" and "top = max 0 dy"
    and "right = min nw (dx + ow)" and "bottom = min nh (dy + oh)"
  have g: "1 \<le> gravity \<and> gravity \<le> 10" using False by arith
  show ?thesis
  proof (cases "right \<le> left \<or> bottom \<le> top")
    case True
    with False d have p: "p = add_exposed 0 0 nw nh ?r"
      by (simp add: p_def resize_preservation_of_def left_def top_def right_def bottom_def Let_def)
    have "\<not> preserved_at p ow oh px py"
      using True assms(1-4) unfolding p
      by (auto simp: preserved_at_def left_def top_def right_def bottom_def)
    then show ?thesis using assms(1-6) g by (simp add: p add_exposed_contains) (simp add: add_exposed_def)
  next
    case overlap: False
    with False d have p: "p = add_exposed right top (nw - right) (bottom - top)
        (add_exposed 0 top left (bottom - top) (add_exposed 0 bottom nw (nh - bottom)
          (add_exposed 0 0 nw top ?r)))"
      by (simp add: p_def resize_preservation_of_def left_def top_def right_def bottom_def Let_def)
    have bounds: "0 \<le> left" "left < right" "right \<le> nw" "0 \<le> top" "top < bottom" "bottom \<le> nh"
      using overlap by (auto simp: left_def top_def right_def bottom_def)
    have four: "length (rpExposed p) \<le> 4"
      unfolding p by (simp add: add_exposed_def)
    have pres: "preserved_at p ow oh px py \<longleftrightarrow> left \<le> px \<and> px < right \<and> top \<le> py \<and> py < bottom"
      using assms(1-4) by (auto simp: p preserved_at_def left_def top_def right_def bottom_def)
    have small: "nw - right < 2 ^ 32" "bottom - top < 2 ^ 32" "left < 2 ^ 32" "nw < 2 ^ 32"
      "nh - bottom < 2 ^ 32" "top < 2 ^ 32"
      using bounds assms(5,6) by simp_all
    have "length (filter (\<lambda>r. rect_contains r px py) (rpExposed p)) =
        (if left \<le> px \<and> px < right \<and> top \<le> py \<and> py < bottom then 0 else 1)"
      unfolding p using small bounds assms(1-4) by (simp add: add_exposed_contains)
    with four g pres show ?thesis by simp
  qed
qed

theorem resize_preservation_partition_witness:
  "length (filter (\<lambda>r. rect_contains r 0 5) (rpExposed (resize_preservation_of 5 0 0 10 10 0 0 20 20))) = 1"
proof -
  let ?p = "resize_preservation_of 5 0 0 10 10 0 0 20 20"
  have "\<not> preserved_at ?p 10 10 0 5"
    by (simp add: resize_preservation_of_def gravity_destination_def signed_divide_int_def preserved_at_def)
  then show ?thesis using resize_preservation_partition [of 0 20 5 20 10 10 5 0 0 0 0] by simp
qed

end
