(* ===== verification/Barriers.thy ===== *)
theory Barriers
  imports Server_Model
begin

text \<open>
  Pointer barriers (\<open>constrain_pointer_by_barriers\<close> of \<^verbatim>\<open>src/server/server_state.cpp\<close>): a motion
  from the old to a new position is cut short at every barrier that blocks its direction, one
  barrier after the other in table order.
\<close>

text \<open>Whether the part of the motion along one axis meets the span of a barrier.\<close>

definition meets_span :: "int \<Rightarrow> int \<Rightarrow> int \<Rightarrow> int \<Rightarrow> bool" where
  "meets_span old new low high \<longleftrightarrow> max (min old new) low \<le> min (max old new) high"

text \<open>The cut at a barrier on \<open>coordinate\<close>, whose bit \<open>forward\<close> lets increasing motion pass and
  whose bit \<open>back\<close> lets decreasing motion pass.\<close>

definition cut :: "u32 \<Rightarrow> u32 \<Rightarrow> u32 \<Rightarrow> int \<Rightarrow> int \<Rightarrow> int \<Rightarrow> int" where
  "cut directions forward back coordinate old new =
     (if old < coordinate \<and> coordinate \<le> new \<and> directions AND forward = 0 then coordinate - 1
      else if coordinate \<le> old \<and> new < coordinate \<and> directions AND back = 0 then coordinate
      else new)"

definition barrier_applies :: "xfixes_barrier_record \<Rightarrow> bool" where
  "barrier_applies b \<longleftrightarrow> xbDevices b = [] \<or> 2 \<in> set (xbDevices b)"

definition constrain_step ::
  "int \<times> int \<Rightarrow> xfixes_barrier_record \<Rightarrow> int \<times> int \<Rightarrow> int \<times> int" where
  "constrain_step old b new =
     (let (old_x, old_y) = old; (new_x, new_y) = new
      in if \<not> barrier_applies b then new
         else if xbX1 b = xbX2 b
         then if \<not> meets_span old_y new_y (min (xbY1 b) (xbY2 b)) (max (xbY1 b) (xbY2 b)) then new
              else (cut (xbDirections b) 1 4 (xbX1 b) old_x new_x, new_y)
         else if xbY1 b = xbY2 b
         then if \<not> meets_span old_x new_x (min (xbX1 b) (xbX2 b)) (max (xbX1 b) (xbX2 b)) then new
              else (new_x, cut (xbDirections b) 2 8 (xbY1 b) old_y new_y)
         else new)"

definition constrain_pointer_by_barriers :: "int \<Rightarrow> int \<Rightarrow> int \<Rightarrow> int \<Rightarrow> server_state \<Rightarrow> int \<times> int" where
  "constrain_pointer_by_barriers old_x old_y new_x new_y s =
     fold (\<lambda>e. constrain_step (old_x, old_y) (snd e)) (ssXfixesBarriers s) (new_x, new_y)"

subsection \<open>No barrier is crossed\<close>

definition between :: "int \<Rightarrow> int \<Rightarrow> int \<Rightarrow> bool" where
  "between a v b \<longleftrightarrow> min a b \<le> v \<and> v \<le> max a b"

text \<open>The motion along one axis passes \<open>coordinate\<close> in a direction that is not let through.\<close>

definition blocked :: "u32 \<Rightarrow> u32 \<Rightarrow> u32 \<Rightarrow> int \<Rightarrow> int \<Rightarrow> int \<Rightarrow> bool" where
  "blocked directions forward back coordinate old new \<longleftrightarrow>
     old < coordinate \<and> coordinate \<le> new \<and> directions AND forward = 0 \<or>
     coordinate \<le> old \<and> new < coordinate \<and> directions AND back = 0"

text \<open>The motion from \<open>old\<close> to \<open>new\<close> crosses the barrier in a direction it blocks.\<close>

definition crosses :: "xfixes_barrier_record \<Rightarrow> int \<times> int \<Rightarrow> int \<times> int \<Rightarrow> bool" where
  "crosses b old new \<longleftrightarrow> barrier_applies b \<and>
     (if xbX1 b = xbX2 b
      then meets_span (snd old) (snd new) (min (xbY1 b) (xbY2 b)) (max (xbY1 b) (xbY2 b)) \<and>
           blocked (xbDirections b) 1 4 (xbX1 b) (fst old) (fst new)
      else if xbY1 b = xbY2 b
      then meets_span (fst old) (fst new) (min (xbX1 b) (xbX2 b)) (max (xbX1 b) (xbX2 b)) \<and>
           blocked (xbDirections b) 2 8 (xbY1 b) (snd old) (snd new)
      else False)"

lemma cut_not_blocked: "\<not> blocked d f g c old (cut d f g c old new)"
  by (simp add: blocked_def cut_def)

lemma cut_unblocked: "\<not> blocked d f g c old new \<Longrightarrow> cut d f g c old new = new"
  by (auto simp: blocked_def cut_def)

lemma blocked_shrink: "between old new' new \<Longrightarrow> blocked d f g c old new' \<Longrightarrow> blocked d f g c old new"
  unfolding between_def blocked_def by linarith

lemma cut_between: "between old (cut d f g c old new) new"
  by (auto simp: cut_def between_def)

lemma between_refl [simp]: "between a v v"
  by (auto simp: between_def)

lemma between_trans: "between a u v \<Longrightarrow> between a v w \<Longrightarrow> between a u w"
  by (auto simp: between_def min_def max_def split: if_splits)

lemma meets_span_shrink: "between old new' new \<Longrightarrow> meets_span old new' l h \<Longrightarrow> meets_span old new l h"
  by (auto simp: between_def meets_span_def min_def max_def split: if_splits)

text \<open>A shorter motion crosses no more barriers.\<close>

lemma crosses_shrink:
  assumes "between (fst old) (fst new') (fst new)" "between (snd old) (snd new') (snd new)"
    and "crosses b old new'"
  shows "crosses b old new"
  using assms(3) meets_span_shrink [OF assms(1)] meets_span_shrink [OF assms(2)]
    blocked_shrink [OF assms(1)] blocked_shrink [OF assms(2)]
  unfolding crosses_def by (simp split: if_splits)

lemma constrain_step_run:
  "between (fst old) (fst (constrain_step old b new)) (fst new) \<and>
   between (snd old) (snd (constrain_step old b new)) (snd new) \<and>
   \<not> crosses b old (constrain_step old b new) \<and>
   (\<not> crosses b old new \<longrightarrow> constrain_step old b new = new)"
proof (cases "barrier_applies b")
  case True
  obtain ox oy nx ny where p: "old = (ox, oy)" "new = (nx, ny)" by (cases old; cases new)
  show ?thesis
    using True cut_not_blocked cut_unblocked cut_between
    by (simp add: p constrain_step_def crosses_def)
qed (simp add: constrain_step_def crosses_def case_prod_beta)

lemma constrain_fold:
  "between (fst old) (fst (fold (\<lambda>e. constrain_step old (snd e)) es new)) (fst new) \<and>
   between (snd old) (snd (fold (\<lambda>e. constrain_step old (snd e)) es new)) (snd new) \<and>
   (\<forall>e \<in> set es. \<not> crosses (snd e) old (fold (\<lambda>e. constrain_step old (snd e)) es new)) \<and>
   ((\<forall>e \<in> set es. \<not> crosses (snd e) old new) \<longrightarrow> fold (\<lambda>e. constrain_step old (snd e)) es new = new)"
proof (induction es arbitrary: new)
  case Nil
  then show ?case by simp
next
  case (Cons e es)
  let ?n = "constrain_step old (snd e) new"
  note step = constrain_step_run [of old "snd e" new] and ih = Cons.IH [of ?n]
  have "\<not> crosses (snd e) old (fold (\<lambda>e. constrain_step old (snd e)) es ?n)"
    using crosses_shrink ih step by blast
  then show ?case using step ih between_trans by auto
qed

text \<open>C38. Barriers hold, whatever their number and order.  The constrained position lies between the old
  and the requested one on both axes, the motion to it crosses no barrier of the table in a direction
  that barrier blocks for the core pointer, and a motion that crosses none arrives where it was sent.\<close>

theorem barriers_hold:
  assumes "constrain_pointer_by_barriers old_x old_y new_x new_y s = (x, y)"
  shows "between old_x x new_x \<and> between old_y y new_y \<and>
    (\<forall>k b. umap_find k (ssXfixesBarriers s) = Some b \<longrightarrow> \<not> crosses b (old_x, old_y) (x, y)) \<and>
    ((\<forall>e \<in> set (ssXfixesBarriers s). \<not> crosses (snd e) (old_x, old_y) (new_x, new_y)) \<longrightarrow>
       (x, y) = (new_x, new_y))"
  using constrain_fold [of "(old_x, old_y)" "ssXfixesBarriers s" "(new_x, new_y)"] assms
  by (auto simp: constrain_pointer_by_barriers_def dest!: umap_find_mem)

text \<open>A screen with a wall at x = 100 that nothing passes.\<close>

definition walled_state :: server_state where
  "walled_state = (initial_state 640 480 0)\<lparr>ssXfixesBarriers :=
     [(9, \<lparr>xbId = 9, xbWindow = root_window_id, xbX1 = 100, xbY1 = 0, xbX2 = 100, xbY2 = 480,
           xbDirections = 0, xbDevices = []\<rparr>)]\<rparr>"

theorem barriers_hold_witness:
  "fst (constrain_pointer_by_barriers 90 20 300 25 walled_state) < 100"
proof -
  obtain x y where run: "constrain_pointer_by_barriers 90 20 300 25 walled_state = (x, y)" by (rule prod.exhaust)
  let ?b = "\<lparr>xbId = 9, xbWindow = root_window_id, xbX1 = 100, xbY1 = 0, xbX2 = 100, xbY2 = 480,
           xbDirections = 0, xbDevices = []\<rparr>"
  have "umap_find 9 (ssXfixesBarriers walled_state) = Some ?b" by (simp add: walled_state_def umap_find_def)
  with barriers_hold [OF run] have "\<not> crosses ?b (90, 20) (x, y)" "between 20 y 25" by blast+
  with run show ?thesis
    by (simp add: crosses_def barrier_applies_def meets_span_def between_def blocked_def)
qed

end
