(* ===== verification/Resources.thy ===== *)
theory Resources
  imports Server_Model
begin

text \<open>
  The resource registry (\<^verbatim>\<open>src/server/include/xmin/server/resource_registry.hpp\<close>) and the tables of
  \<open>ServerState\<close> that hold one kind of resource each: pixmaps, graphics contexts, fonts, shared
  memory, colormaps, SYNC counters and fences, cursors, XFIXES regions and barriers, double
  buffers.  Registry and tables must agree on every identifier; the invariant \<open>resources_ok\<close> says
  so, and the locale \<open>typed_table\<close> states what a table's operations promise and draws the
  consequences once for all of them.
\<close>

subsection \<open>The registry\<close>

definition reg_insert ::
  "u32 \<Rightarrow> resource_kind \<Rightarrow> u32 \<Rightarrow> (u32, resource_record) umap \<Rightarrow> bool \<times> (u32, resource_record) umap" where
  "reg_insert rid kind owner r =
     (if rid = 0 then (False, r)
      else let (r', inserted) = umap_emplace rid \<lparr>rrKind = kind, rrOwner = owner\<rparr> r
           in (inserted, r'))"

definition reg_find :: "u32 \<Rightarrow> (u32, resource_record) umap \<Rightarrow> resource_record option" where
  "reg_find rid r = umap_find rid r"

definition reg_is :: "u32 \<Rightarrow> resource_kind \<Rightarrow> (u32, resource_record) umap \<Rightarrow> bool" where
  "reg_is rid kind r \<longleftrightarrow> (case reg_find rid r of None \<Rightarrow> False | Some rec \<Rightarrow> rrKind rec = kind)"

definition reg_owner_size :: "u32 \<Rightarrow> (u32, resource_record) umap \<Rightarrow> nat" where
  "reg_owner_size owner r = length (filter (\<lambda>e. rrOwner (snd e) = owner) r)"

definition reg_erase_owner ::
  "u32 \<Rightarrow> (u32, resource_record) umap \<Rightarrow> nat \<times> (u32, resource_record) umap" where
  "reg_erase_owner owner r =
     (length (filter (\<lambda>e. rrOwner (snd e) = owner) r), umap_erase_if (\<lambda>_ rec. rrOwner rec = owner) r)"

definition reg_erase :: "u32 \<Rightarrow> (u32, resource_record) umap \<Rightarrow> bool \<times> (u32, resource_record) umap" where
  "reg_erase rid r = (umap_contains rid r, umap_erase rid r)"

definition reg_owned_by :: "u32 \<Rightarrow> resource_kind \<Rightarrow> (u32, resource_record) umap \<Rightarrow> u32 list" where
  "reg_owned_by owner kind r =
     map fst (filter (\<lambda>e. rrOwner (snd e) = owner \<and> rrKind (snd e) = kind) r)"

subsection \<open>Identifiers and limits\<close>

definition resource_exists :: "server_state \<Rightarrow> u32 \<Rightarrow> bool" where
  "resource_exists s rid \<longleftrightarrow> reg_find rid (ssResources s) \<noteq> None"

definition resource_owner :: "server_state \<Rightarrow> u32 \<Rightarrow> u32 option" where
  "resource_owner s rid = map_option rrOwner (reg_find rid (ssResources s))"

definition valid_client_resource :: "server_state \<Rightarrow> u32 \<Rightarrow> u32 \<Rightarrow> bool" where
  "valid_client_resource s rid base \<longleftrightarrow>
     (rid AND NOT client_resource_mask) = base \<and> \<not> resource_exists s rid"

definition resource_limit_reached :: "server_state \<Rightarrow> u32 \<Rightarrow> bool" where
  "resource_limit_reached s owner \<longleftrightarrow>
     maximum_server_resources \<le> length (ssResources s) \<or>
     maximum_client_resources \<le> reg_owner_size owner (ssResources s)"

definition reserve_resource ::
  "u32 \<Rightarrow> resource_kind \<Rightarrow> u32 \<Rightarrow> server_state \<Rightarrow> bool \<times> server_state" where
  "reserve_resource rid kind owner s =
     (if resource_limit_reached s owner then (False, s)
      else let (ok, r) = reg_insert rid kind owner (ssResources s) in (ok, s\<lparr>ssResources := r\<rparr>))"

definition release_resource :: "u32 \<Rightarrow> resource_kind \<Rightarrow> server_state \<Rightarrow> bool \<times> server_state" where
  "release_resource rid kind s =
     (if \<not> reg_is rid kind (ssResources s) then (False, s)
      else let (ok, r) = reg_erase rid (ssResources s) in (ok, s\<lparr>ssResources := r\<rparr>))"

definition request_client_termination :: "u32 \<Rightarrow> server_state \<Rightarrow> bool \<times> server_state" where
  "request_client_termination resource s =
     (if resource = 0 then (True, s)
      else case resource_owner s resource of
             None \<Rightarrow> (False, s)
           | Some owner \<Rightarrow>
               if owner = 0 then (False, s)
               else if List.find (\<lambda>e. fst e = owner) (ssClients s) = None then (False, s)
               else (True, s\<lparr>ssClientsToTerminate := List.insert owner (ssClientsToTerminate s)\<rparr>))"

text \<open>\<open>resources_.erase(id)\<close> with its result dropped.\<close>

definition unregister :: "u32 \<Rightarrow> server_state \<Rightarrow> server_state" where
  "unregister rid s = s\<lparr>ssResources := snd (reg_erase rid (ssResources s))\<rparr>"

subsection \<open>The tables\<close>

text \<open>The shape every \<open>add_\<close> operation has: register the identifier, put the entry into its
  table, and take the registration back when the table already has the identifier.\<close>

definition insert_resource ::
  "u32 \<Rightarrow> resource_kind \<Rightarrow> u32 \<Rightarrow> (server_state \<Rightarrow> server_state \<times> bool) \<Rightarrow> server_state \<Rightarrow>
     bool \<times> server_state" where
  "insert_resource rid kind owner emplace s =
     (let (ok, r) = reg_insert rid kind owner (ssResources s)
      in if \<not> ok then (False, s)
         else let (s', fresh) = emplace (s\<lparr>ssResources := r\<rparr>)
              in if fresh then (True, s') else (False, unregister rid s'))"

definition pixmap :: "server_state \<Rightarrow> u32 \<Rightarrow> pixmap_record option" where
  "pixmap s rid = umap_find rid (ssPixmaps s)"

text \<open>\<open>maximum_server_surface_bytes\<close> of \<^verbatim>\<open>surface.hpp\<close>.\<close>

definition maximum_server_surface_bytes :: nat where
  "maximum_server_surface_bytes = 256 * 1024 * 1024"

definition add_pixmap :: "pixmap_record \<Rightarrow> u32 \<Rightarrow> server_state \<Rightarrow> bool \<times> server_state" where
  "add_pixmap added owner s =
     (if pxSurface added = None \<or> resource_exists s (pxId added) \<or>
         maximum_server_surface_bytes < ssSurfaceBytes s then (False, s)
      else insert_resource (pxId added) KPixmap owner
        (\<lambda>s. let (t, fresh) = umap_emplace (pxId added) added (ssPixmaps s)
             in (s\<lparr>ssPixmaps := t\<rparr>, fresh)) s)"

definition erase_pixmap :: "u32 \<Rightarrow> server_state \<Rightarrow> bool \<times> server_state" where
  "erase_pixmap rid s =
     (if \<not> umap_contains rid (ssPixmaps s) then (False, s)
      else let damaged = map fst (filter (\<lambda>e. dmDrawable (snd e) = rid) (ssDamages s));
               s1 = fold unregister damaged s;
               s2 = s1\<lparr>ssDamages := umap_erase_if (\<lambda>_ d. dmDrawable d = rid) (ssDamages s1)\<rparr>;
               s3 = s2\<lparr>ssPixmaps := umap_erase rid (ssPixmaps s2)\<rparr>
           in (True, unregister rid s3))"

definition dbe_buffer :: "server_state \<Rightarrow> u32 \<Rightarrow> dbe_buffer_record option" where
  "dbe_buffer s rid = umap_find rid (ssDbeBuffers s)"

definition add_dbe_buffer :: "dbe_buffer_record \<Rightarrow> u32 \<Rightarrow> server_state \<Rightarrow> bool \<times> server_state" where
  "add_dbe_buffer added owner s =
     (if dbSurface added = None \<or> window s (dbWindow added) = None \<or>
         resource_exists s (dbId added) then (False, s)
      else insert_resource (dbId added) KDbeBuffer owner
        (\<lambda>s. let added' = (case List.find (\<lambda>e. dbWindow (snd e) = dbWindow added) (ssDbeBuffers s) of
                             None \<Rightarrow> added
                           | Some shared \<Rightarrow> added\<lparr>dbSurface := dbSurface (snd shared)\<rparr>);
                 (t, fresh) = umap_emplace (dbId added) added' (ssDbeBuffers s)
             in (s\<lparr>ssDbeBuffers := t\<rparr>, fresh)) s)"

definition erase_dbe_buffer :: "u32 \<Rightarrow> server_state \<Rightarrow> bool \<times> server_state" where
  "erase_dbe_buffer rid s =
     (if \<not> umap_contains rid (ssDbeBuffers s) then (False, s)
      else (True, unregister rid (s\<lparr>ssDbeBuffers := umap_erase rid (ssDbeBuffers s)\<rparr>)))"

definition graphics_context :: "server_state \<Rightarrow> u32 \<Rightarrow> graphics_context_record option" where
  "graphics_context s rid = umap_find rid (ssGraphicsContexts s)"

definition add_graphics_context ::
  "graphics_context_record \<Rightarrow> u32 \<Rightarrow> server_state \<Rightarrow> bool \<times> server_state" where
  "add_graphics_context added owner s =
     (if resource_exists s (gcId added) then (False, s)
      else insert_resource (gcId added) KGraphicsContext owner
        (\<lambda>s. let (t, fresh) = umap_emplace (gcId added) added (ssGraphicsContexts s)
             in (s\<lparr>ssGraphicsContexts := t\<rparr>, fresh)) s)"

definition erase_graphics_context :: "u32 \<Rightarrow> server_state \<Rightarrow> bool \<times> server_state" where
  "erase_graphics_context rid s =
     (if \<not> umap_contains rid (ssGraphicsContexts s) then (False, s)
      else (True, unregister rid (s\<lparr>ssGraphicsContexts := umap_erase rid (ssGraphicsContexts s)\<rparr>)))"

definition font :: "server_state \<Rightarrow> u32 \<Rightarrow> font_record option" where
  "font s rid = umap_find rid (ssFonts s)"

definition add_font :: "font_record \<Rightarrow> u32 \<Rightarrow> server_state \<Rightarrow> bool \<times> server_state" where
  "add_font added owner s =
     (if fnFont added = None \<or> resource_exists s (fnId added) then (False, s)
      else insert_resource (fnId added) KFont owner
        (\<lambda>s. let (t, fresh) = umap_emplace (fnId added) added (ssFonts s)
             in (s\<lparr>ssFonts := t\<rparr>, fresh)) s)"

definition erase_font :: "u32 \<Rightarrow> server_state \<Rightarrow> bool \<times> server_state" where
  "erase_font rid s =
     (if \<not> umap_contains rid (ssFonts s) then (False, s)
      else (True, unregister rid (s\<lparr>ssFonts := umap_erase rid (ssFonts s)\<rparr>)))"

text \<open>A shared memory segment is a handle; \<open>None\<close> stands for a \<open>SharedMemory\<close> that is not
  attached (its \<open>operator bool\<close>).\<close>

definition shared_memory :: "server_state \<Rightarrow> u32 \<Rightarrow> nat option" where
  "shared_memory s rid = umap_find rid (ssSharedMemory s)"

definition add_shared_memory :: "u32 \<Rightarrow> nat option \<Rightarrow> u32 \<Rightarrow> server_state \<Rightarrow> bool \<times> server_state" where
  "add_shared_memory rid memory owner s =
     (case memory of
        None \<Rightarrow> (False, s)
      | Some stored \<Rightarrow>
          if maximum_shared_memory_segments \<le> length (ssSharedMemory s) \<or> resource_exists s rid
          then (False, s)
          else insert_resource rid KSharedMemory owner
            (\<lambda>s. let (t, fresh) = umap_emplace rid stored (ssSharedMemory s)
                 in (s\<lparr>ssSharedMemory := t\<rparr>, fresh)) s)"

definition erase_shared_memory :: "u32 \<Rightarrow> server_state \<Rightarrow> bool \<times> server_state" where
  "erase_shared_memory rid s =
     (if \<not> umap_contains rid (ssSharedMemory s) then (False, s)
      else (True, unregister rid (s\<lparr>ssSharedMemory := umap_erase rid (ssSharedMemory s)\<rparr>)))"

definition colormap_exists :: "server_state \<Rightarrow> u32 \<Rightarrow> bool" where
  "colormap_exists s rid \<longleftrightarrow> reg_is rid KColormap (ssResources s)"

definition add_colormap :: "u32 \<Rightarrow> u32 \<Rightarrow> server_state \<Rightarrow> bool \<times> server_state" where
  "add_colormap rid owner s =
     (if resource_exists s rid then (False, s)
      else let (ok, r) = reg_insert rid KColormap owner (ssResources s) in (ok, s\<lparr>ssResources := r\<rparr>))"

definition erase_colormap :: "u32 \<Rightarrow> server_state \<Rightarrow> bool \<times> server_state" where
  "erase_colormap rid s =
     (if rid = default_colormap_id \<or> \<not> colormap_exists s rid then (False, s)
      else let s1 = (if ssInstalledColormap s = rid
                     then s\<lparr>ssInstalledColormap := default_colormap_id\<rparr> else s);
               s2 = s1\<lparr>ssWindows := umap_map
                       (\<lambda>_ w. if wnColormap w = rid then w\<lparr>wnColormap := default_colormap_id\<rparr> else w)
                       (ssWindows s1)\<rparr>;
               (ok, r) = reg_erase rid (ssResources s2)
           in (ok, s2\<lparr>ssResources := r\<rparr>))"

definition drawable_surface :: "server_state \<Rightarrow> u32 \<Rightarrow> surface_ref" where
  "drawable_surface s rid =
     (case window s rid of
        Some w \<Rightarrow> wnSurface w
      | None \<Rightarrow>
          (case pixmap s rid of
             Some p \<Rightarrow> pxSurface p
           | None \<Rightarrow> (case dbe_buffer s rid of Some b \<Rightarrow> dbSurface b | None \<Rightarrow> None)))"

definition cursor :: "server_state \<Rightarrow> u32 \<Rightarrow> cursor_record option" where
  "cursor s rid = umap_find rid (ssCursors s)"

text \<open>A cursor's image is numbered when it is first registered; serial 0 is reserved.  The
  numbering stays when the table refuses the entry.\<close>

definition number_cursor_image :: "nat \<Rightarrow> server_state \<Rightarrow> server_state" where
  "number_cursor_image img s =
     (case umap_find img (ssCursorImages s) of
        None \<Rightarrow> s
      | Some ci \<Rightarrow>
          if ciSerial ci = 0
          then s\<lparr>ssCursorImages := umap_put img (ci\<lparr>ciSerial := ssNextCursorSerial s\<rparr>) (ssCursorImages s),
                 ssNextCursorSerial :=
                   (if ssNextCursorSerial s + 1 = 0 then 1 else ssNextCursorSerial s + 1)\<rparr>
          else s)"

definition add_cursor :: "cursor_record \<Rightarrow> u32 \<Rightarrow> server_state \<Rightarrow> bool \<times> server_state" where
  "add_cursor added owner s =
     (case crImage added of
        None \<Rightarrow> (False, s)
      | Some img \<Rightarrow>
          insert_resource (crId added) KCursor owner
            (\<lambda>s. let s' = number_cursor_image img s;
                     (t, fresh) = umap_emplace (crId added) added (ssCursors s')
                 in (s'\<lparr>ssCursors := t\<rparr>, fresh)) s)"

definition erase_cursor :: "u32 \<Rightarrow> server_state \<Rightarrow> bool \<times> server_state" where
  "erase_cursor rid s =
     (if \<not> umap_contains rid (ssCursors s) then (False, s)
      else (True, unregister rid (s\<lparr>ssCursors := umap_erase rid (ssCursors s)\<rparr>)))"

definition xfixes_region :: "server_state \<Rightarrow> u32 \<Rightarrow> region option" where
  "xfixes_region s rid = umap_find rid (ssXfixesRegions s)"

definition add_xfixes_region :: "u32 \<Rightarrow> region \<Rightarrow> u32 \<Rightarrow> server_state \<Rightarrow> bool \<times> server_state" where
  "add_xfixes_region rid region owner s =
     (if maximum_xfixes_regions \<le> length (ssXfixesRegions s) then (False, s)
      else insert_resource rid KXfixesRegion owner
        (\<lambda>s. let (t, fresh) = umap_emplace rid region (ssXfixesRegions s)
             in (s\<lparr>ssXfixesRegions := t\<rparr>, fresh)) s)"

definition erase_xfixes_region :: "u32 \<Rightarrow> server_state \<Rightarrow> bool \<times> server_state" where
  "erase_xfixes_region rid s =
     (if \<not> umap_contains rid (ssXfixesRegions s) then (False, s)
      else (True, unregister rid (s\<lparr>ssXfixesRegions := umap_erase rid (ssXfixesRegions s)\<rparr>)))"

definition xfixes_barrier :: "server_state \<Rightarrow> u32 \<Rightarrow> xfixes_barrier_record option" where
  "xfixes_barrier s rid = umap_find rid (ssXfixesBarriers s)"

definition add_xfixes_barrier :: "xfixes_barrier_record \<Rightarrow> u32 \<Rightarrow> server_state \<Rightarrow> bool \<times> server_state" where
  "add_xfixes_barrier barrier owner s =
     (if maximum_xfixes_barriers \<le> length (ssXfixesBarriers s) then (False, s)
      else insert_resource (xbId barrier) KXfixesBarrier owner
        (\<lambda>s. let (t, fresh) = umap_emplace (xbId barrier) barrier (ssXfixesBarriers s)
             in (s\<lparr>ssXfixesBarriers := t\<rparr>, fresh)) s)"

definition erase_xfixes_barrier :: "u32 \<Rightarrow> u32 \<Rightarrow> server_state \<Rightarrow> bool \<times> server_state" where
  "erase_xfixes_barrier rid owner s =
     (case reg_find rid (ssResources s) of
        None \<Rightarrow> (False, s)
      | Some rec \<Rightarrow>
          if rrKind rec \<noteq> KXfixesBarrier \<or> rrOwner rec \<noteq> owner \<or>
             \<not> umap_contains rid (ssXfixesBarriers s) then (False, s)
          else (True, unregister rid (s\<lparr>ssXfixesBarriers := umap_erase rid (ssXfixesBarriers s)\<rparr>)))"

definition sync_counter :: "server_state \<Rightarrow> u32 \<Rightarrow> sync_counter_record option" where
  "sync_counter s rid = umap_find rid (ssSyncCounters s)"

definition add_sync_counter :: "sync_counter_record \<Rightarrow> u32 \<Rightarrow> server_state \<Rightarrow> bool \<times> server_state" where
  "add_sync_counter counter owner s =
     insert_resource (scId counter) KSyncCounter owner
       (\<lambda>s. let (t, fresh) = umap_emplace (scId counter) counter (ssSyncCounters s)
            in (s\<lparr>ssSyncCounters := t\<rparr>, fresh)) s"

definition sync_fence :: "server_state \<Rightarrow> u32 \<Rightarrow> sync_fence_record option" where
  "sync_fence s rid = umap_find rid (ssSyncFences s)"

definition add_sync_fence :: "sync_fence_record \<Rightarrow> u32 \<Rightarrow> server_state \<Rightarrow> bool \<times> server_state" where
  "add_sync_fence fence owner s =
     insert_resource (sfId fence) KSyncFence owner
       (\<lambda>s. let (t, fresh) = umap_emplace (sfId fence) fence (ssSyncFences s)
            in (s\<lparr>ssSyncFences := t\<rparr>, fresh)) s"

subsection \<open>Registry and tables agree\<close>

fun table_ids :: "resource_kind \<Rightarrow> server_state \<Rightarrow> u32 set option" where
  "table_ids KWindow s = Some (fst ` set (ssWindows s))"
| "table_ids KPixmap s = Some (fst ` set (ssPixmaps s))"
| "table_ids KGraphicsContext s = Some (fst ` set (ssGraphicsContexts s))"
| "table_ids KFont s = Some (fst ` set (ssFonts s))"
| "table_ids KDbeBuffer s = Some (fst ` set (ssDbeBuffers s))"
| "table_ids KSharedMemory s = Some (fst ` set (ssSharedMemory s))"
| "table_ids KSyncCounter s = Some (fst ` set (ssSyncCounters s))"
| "table_ids KSyncAlarm s = Some (fst ` set (ssSyncAlarms s))"
| "table_ids KSyncFence s = Some (fst ` set (ssSyncFences s))"
| "table_ids KCursor s = Some (fst ` set (ssCursors s))"
| "table_ids KXfixesRegion s = Some (fst ` set (ssXfixesRegions s))"
| "table_ids KXfixesBarrier s = Some (fst ` set (ssXfixesBarriers s))"
| "table_ids KDamage s = Some (fst ` set (ssDamages s))"
| "table_ids _ s = None"

definition tables_distinct :: "server_state \<Rightarrow> bool" where
  "tables_distinct s \<longleftrightarrow>
     umap_ok (ssResources s) \<and> umap_ok (ssWindows s) \<and> umap_ok (ssPixmaps s) \<and>
     umap_ok (ssGraphicsContexts s) \<and> umap_ok (ssFonts s) \<and> umap_ok (ssDbeBuffers s) \<and>
     umap_ok (ssSharedMemory s) \<and> umap_ok (ssSyncCounters s) \<and> umap_ok (ssSyncAlarms s) \<and>
     umap_ok (ssSyncFences s) \<and> umap_ok (ssCursors s) \<and> umap_ok (ssXfixesRegions s) \<and>
     umap_ok (ssXfixesBarriers s) \<and> umap_ok (ssDamages s)"

text \<open>\<open>resources_ok\<close>: identifier 0 is never registered, and an identifier is in the table of a kind
  exactly when the registry has it with that kind.\<close>

definition resources_ok :: "server_state \<Rightarrow> bool" where
  "resources_ok s \<longleftrightarrow>
     tables_distinct s \<and> reg_find 0 (ssResources s) = None \<and>
     (\<forall>kind ids rid. table_ids kind s = Some ids \<longrightarrow>
        (rid \<in> ids \<longleftrightarrow> reg_is rid kind (ssResources s)))"

lemma reg_is_unique: "reg_is rid j r \<Longrightarrow> reg_is rid k r \<Longrightarrow> j = k"
  by (auto simp: reg_is_def split: option.splits)

lemma reg_is_exists: "reg_is rid k (ssResources s) \<Longrightarrow> resource_exists s rid"
  by (auto simp: reg_is_def resource_exists_def split: option.splits)

lemma resources_okD:
  "resources_ok s \<Longrightarrow> table_ids kind s = Some ids \<Longrightarrow> rid \<in> ids \<longleftrightarrow> reg_is rid kind (ssResources s)"
  unfolding resources_ok_def by blast

lemma resources_ok_exists:
  "resources_ok s \<Longrightarrow> table_ids kind s = Some ids \<Longrightarrow> rid \<in> ids \<Longrightarrow> resource_exists s rid"
  by (auto simp: resources_okD intro: reg_is_exists)

lemma reg_is_append:
  "umap_find rid r = None \<Longrightarrow>
   reg_is q k (r @ [(rid, rec)]) \<longleftrightarrow> (if q = rid then rrKind rec = k else reg_is q k r)"
  by (auto simp: reg_is_def reg_find_def umap_find_def map_add_def split: option.splits)

lemma reg_is_erase [simp]: "reg_is q k (umap_erase rid r) \<longleftrightarrow> q \<noteq> rid \<and> reg_is q k r"
  by (auto simp: reg_is_def reg_find_def)

text \<open>The two ways the registry and a table move together.\<close>

lemma resources_ok_add:
  assumes "resources_ok s" "\<not> resource_exists s rid" "rid \<noteq> 0" "tables_distinct s'"
    and "ssResources s' = ssResources s @ [(rid, \<lparr>rrKind = kind, rrOwner = owner\<rparr>)]"
    and "\<And>k. table_ids k s' = (if k = kind then map_option (insert rid) (table_ids k s) else table_ids k s)"
  shows "resources_ok s'"
proof -
  have new: "umap_find rid (ssResources s) = None"
    using assms(2) by (simp add: resource_exists_def reg_find_def)
  have absent: "\<not> reg_is rid k (ssResources s)" for k
    using assms(2) reg_is_exists by blast
  have "r \<in> ids \<longleftrightarrow> reg_is r k (ssResources s')" if "table_ids k s' = Some ids" for k ids r
    using that assms(1,5,6) absent resources_okD [OF assms(1), of k]
    by (cases "k = kind") (auto simp: reg_is_append [OF new])
  moreover have "reg_find 0 (ssResources s') = None"
    using assms(1,3,5) by (simp add: resources_ok_def reg_find_def umap_find_def map_add_def)
  ultimately show ?thesis using assms(4) by (simp add: resources_ok_def)
qed

lemma resources_ok_remove:
  assumes "resources_ok s" "tables_distinct s'"
    and "ssResources s' = umap_erase rid (ssResources s)"
    and "\<And>k. table_ids k s' = map_option (\<lambda>ids. ids - {rid}) (table_ids k s)"
  shows "resources_ok s'"
  using assms(1,2) resources_okD [OF assms(1)]
  by (auto simp: resources_ok_def assms(3,4) reg_find_def)

lemma resources_ok_keys_unchanged:
  assumes "resources_ok s" "tables_distinct s'" "ssResources s' = ssResources s"
    and "\<And>k. table_ids k s' = table_ids k s"
  shows "resources_ok s'"
  using assms by (simp add: resources_ok_def)

lemma insert_resource_cases:
  assumes "insert_resource rid kind owner emplace s = (ok, s')"
    and "umap_ok (ssResources s)"
    and "\<And>s1 fresh. \<not> resource_exists s rid \<Longrightarrow>
          emplace (s\<lparr>ssResources := ssResources s @ [(rid, \<lparr>rrKind = kind, rrOwner = owner\<rparr>)]\<rparr>)
            = (s1, fresh) \<Longrightarrow> fresh"
  shows "(\<not> ok \<and> s' = s \<and> (rid = 0 \<or> resource_exists s rid)) \<or>
    (ok \<and> rid \<noteq> 0 \<and> \<not> resource_exists s rid \<and>
     s' = fst (emplace (s\<lparr>ssResources := ssResources s @ [(rid, \<lparr>rrKind = kind, rrOwner = owner\<rparr>)]\<rparr>)))"
  using assms
  by (auto simp: insert_resource_def reg_insert_def umap_emplace_def umap_contains_def
      resource_exists_def reg_find_def split: if_splits prod.splits)

lemma not_in_table:
  "resources_ok s \<Longrightarrow> \<not> resource_exists s rid \<Longrightarrow> table_ids k s = Some ids \<Longrightarrow> rid \<notin> ids"
  using resources_ok_exists by blast

lemma resources_ok_tables_distinct [intro]: "resources_ok s \<Longrightarrow> tables_distinct s"
  by (simp add: resources_ok_def)

lemma tables_distinctD:
  assumes "tables_distinct s"
  shows "umap_ok (ssResources s)" "umap_ok (ssWindows s)" "umap_ok (ssPixmaps s)"
     "umap_ok (ssGraphicsContexts s)" "umap_ok (ssFonts s)" "umap_ok (ssDbeBuffers s)"
     "umap_ok (ssSharedMemory s)" "umap_ok (ssSyncCounters s)" "umap_ok (ssSyncAlarms s)"
     "umap_ok (ssSyncFences s)" "umap_ok (ssCursors s)" "umap_ok (ssXfixesRegions s)"
     "umap_ok (ssXfixesBarriers s)" "umap_ok (ssDamages s)"
  using assms by (simp_all add: tables_distinct_def)

lemma umap_ok_snoc: "umap_ok m \<Longrightarrow> \<not> umap_contains k m \<Longrightarrow> umap_ok (m @ [(k, v)])"
  by (auto simp: umap_ok_def umap_contains_keys)

lemma umap_erase_snoc: "\<not> umap_contains k m \<Longrightarrow> umap_erase k (m @ [(k, v)]) = m"
  by (force simp: umap_erase_def umap_contains_keys AList.delete_eq filter_id_conv)

lemma table_ids_resources [simp]: "table_ids k (s\<lparr>ssResources := r\<rparr>) = table_ids k s"
  by (cases k) simp_all

lemma add_step:
  assumes ok: "resources_ok s" and ins: "insert_resource rid kind owner emplace s = (b, s')"
    and emp: "\<And>s1. \<not> resource_exists s rid \<Longrightarrow> table_ids kind s1 = table_ids kind s \<Longrightarrow> tables_distinct s1 \<Longrightarrow>
        \<exists>s2. emplace s1 = (s2, True) \<and> ssResources s2 = ssResources s1 \<and> tables_distinct s2 \<and>
         table_ids kind s2 = map_option (insert rid) (table_ids kind s1) \<and>
         (\<forall>k. k \<noteq> kind \<longrightarrow> table_ids k s2 = table_ids k s1)"
  shows "resources_ok s' \<and> b = (rid \<noteq> 0 \<and> \<not> resource_exists s rid) \<and> (\<not> b \<longrightarrow> s' = s) \<and>
    (b \<longrightarrow> s' = fst (emplace (s\<lparr>ssResources := ssResources s @ [(rid, \<lparr>rrKind = kind, rrOwner = owner\<rparr>)]\<rparr>)))"
proof -
  let ?s1 = "s\<lparr>ssResources := ssResources s @ [(rid, \<lparr>rrKind = kind, rrOwner = owner\<rparr>)]\<rparr>"
  have td: "tables_distinct s" using ok by (simp add: resources_ok_def)
  have emp': "\<exists>s2. emplace ?s1 = (s2, True) \<and> ssResources s2 = ssResources ?s1 \<and> tables_distinct s2 \<and>
      table_ids kind s2 = map_option (insert rid) (table_ids kind s) \<and>
      (\<forall>k. k \<noteq> kind \<longrightarrow> table_ids k s2 = table_ids k s)"
    if new: "\<not> resource_exists s rid"
  proof -
    have "umap_ok (ssResources ?s1)"
      using td new by (auto simp: resource_exists_def reg_find_def umap_contains_def tables_distinct_def
          intro!: umap_ok_snoc)
    then have "tables_distinct ?s1" using td by (simp add: tables_distinct_def)
    with emp [OF new, of ?s1] show ?thesis by simp
  qed
  from insert_resource_cases [OF ins tables_distinctD(1) [OF td]] emp'
  consider (no) "\<not> b" "s' = s" "rid = 0 \<or> resource_exists s rid"
    | (yes) "b" "rid \<noteq> 0" "\<not> resource_exists s rid" "s' = fst (emplace ?s1)"
    by fastforce
  then show ?thesis
  proof cases
    case no
    with ok show ?thesis by auto
  next
    case yes
    from emp' [OF yes(3)] yes(4) have "resources_ok s'"
      by (auto intro!: resources_ok_add [OF ok yes(3,2), where kind = kind and owner = owner])
    with yes show ?thesis by simp
  qed
qed

subsection \<open>The contract of a table\<close>

text \<open>A table of the state, seen through its accessor and update: it holds exactly the identifiers
  \<open>table_ids\<close> reports for its kind, and updating it touches nothing else.\<close>

locale resource_table =
  fixes kind :: resource_kind
    and tab :: "server_state \<Rightarrow> (u32, 'v) umap"
    and upd :: "(u32, 'v) umap \<Rightarrow> server_state \<Rightarrow> server_state"
  assumes tab_ids: "table_ids kind s = Some (fst ` set (tab s))"
    and upd_ids: "table_ids k (upd t s) = (if k = kind then Some (fst ` set t) else table_ids k s)"
    and upd_tab: "tab (upd t s) = t"
    and upd_upd: "upd t (upd u s) = upd t s"
    and upd_same: "upd (tab s) s = s"
    and upd_resources: "ssResources (upd t s) = ssResources s"
    and tab_resources: "tab (s\<lparr>ssResources := r\<rparr>) = tab s"
    and upd_commute: "upd t (s\<lparr>ssResources := r\<rparr>) = (upd t s)\<lparr>ssResources := r\<rparr>"
    and distinct_tab: "tables_distinct s \<Longrightarrow> umap_ok (tab s)"
    and distinct_upd: "tables_distinct s \<Longrightarrow> umap_ok t \<Longrightarrow> tables_distinct (upd t s)"
begin

lemma add:
  assumes ok: "resources_ok s"
    and run: "insert_resource rid kind owner
          (\<lambda>s. let (t, fresh) = umap_emplace rid (v s) (tab (g s)) in (upd t (g s), fresh)) s = (b, s')"
    and frame: "\<And>s. ssResources (g s) = ssResources s" "\<And>s k. table_ids k (g s) = table_ids k s"
      "\<And>s. tables_distinct s \<Longrightarrow> tables_distinct (g s)" "\<And>s. tab (g s) = tab s"
  shows "resources_ok s' \<and> b = (rid \<noteq> 0 \<and> \<not> resource_exists s rid) \<and> (\<not> b \<longrightarrow> s' = s) \<and>
    (b \<longrightarrow> s' = (let s1 = s\<lparr>ssResources := ssResources s @ [(rid, \<lparr>rrKind = kind, rrOwner = owner\<rparr>)]\<rparr>
                 in upd (tab s @ [(rid, v s1)]) (g s1)))"
proof -
  let ?e = "\<lambda>s. let (t, fresh) = umap_emplace rid (v s) (tab (g s)) in (upd t (g s), fresh)"
  have new: "\<not> umap_contains rid (tab s1)"
    if "\<not> resource_exists s rid" "table_ids kind s1 = table_ids kind s" for s1
    using that not_in_table [OF ok that(1) tab_ids] by (simp add: tab_ids umap_contains_keys)
  have e: "?e s1 = (upd (tab s1 @ [(rid, v s1)]) (g s1), True)"
    if "\<not> resource_exists s rid" "table_ids kind s1 = table_ids kind s" for s1
    using new [OF that] by (simp add: umap_emplace_def frame)
  have "resources_ok s' \<and> b = (rid \<noteq> 0 \<and> \<not> resource_exists s rid) \<and> (\<not> b \<longrightarrow> s' = s) \<and>
    (b \<longrightarrow> s' = fst (?e (s\<lparr>ssResources := ssResources s @ [(rid, \<lparr>rrKind = kind, rrOwner = owner\<rparr>)]\<rparr>)))"
  proof (rule add_step [OF ok run])
    fix s1
    assume a: "\<not> resource_exists s rid" "table_ids kind s1 = table_ids kind s" "tables_distinct s1"
    have "tables_distinct (upd (tab s1 @ [(rid, v s1)]) (g s1))"
      using a distinct_tab new [OF a(1,2)] by (intro distinct_upd frame umap_ok_snoc) simp_all
    then show "\<exists>s2. ?e s1 = (s2, True) \<and> ssResources s2 = ssResources s1 \<and> tables_distinct s2 \<and>
        table_ids kind s2 = map_option (insert rid) (table_ids kind s1) \<and>
        (\<forall>k. k \<noteq> kind \<longrightarrow> table_ids k s2 = table_ids k s1)"
      unfolding e [OF a(1,2)] by (simp add: upd_resources upd_ids tab_ids upd_tab frame)
  qed
  then show ?thesis
    using e [of "s\<lparr>ssResources := ssResources s @ [(rid, \<lparr>rrKind = kind, rrOwner = owner\<rparr>)]\<rparr>"]
    by (auto simp: Let_def tab_resources simp del: prod.case)
qed

lemma add_run:
  assumes ok: "resources_ok s"
    and frame: "\<And>s. ssResources (g s) = ssResources s" "\<And>s k. table_ids k (g s) = table_ids k s"
      "\<And>s. tables_distinct s \<Longrightarrow> tables_distinct (g s)" "\<And>s. tab (g s) = tab s"
  shows "insert_resource rid kind owner
      (\<lambda>s. let (t, fresh) = umap_emplace rid (v s) (tab (g s)) in (upd t (g s), fresh)) s =
    (if rid = 0 \<or> resource_exists s rid then (False, s)
     else (True, let s1 = s\<lparr>ssResources := ssResources s @ [(rid, \<lparr>rrKind = kind, rrOwner = owner\<rparr>)]\<rparr>
                 in upd (tab s @ [(rid, v s1)]) (g s1)))"
proof -
  let ?i = "insert_resource rid kind owner
      (\<lambda>s. let (t, fresh) = umap_emplace rid (v s) (tab (g s)) in (upd t (g s), fresh)) s"
  show ?thesis
    using add [where g = g and v = v, OF ok surjective_pairing [of ?i] frame]
    by (cases "fst ?i") (auto intro: prod_eqI)
qed

lemma add_keeps:
  assumes ok: "resources_ok s" and new: "rid \<noteq> 0" "\<not> resource_exists s rid"
    and frame: "\<And>s. ssResources (g s) = ssResources s" "\<And>s k. table_ids k (g s) = table_ids k s"
      "\<And>s. tables_distinct s \<Longrightarrow> tables_distinct (g s)" "\<And>s. tab (g s) = tab s"
  shows "resources_ok (upd (tab s @ [(rid, x)])
    (g (s\<lparr>ssResources := ssResources s @ [(rid, \<lparr>rrKind = kind, rrOwner = owner\<rparr>)]\<rparr>)))"
proof -
  obtain b s' where run: "insert_resource rid kind owner
      (\<lambda>s. let (t, fresh) = umap_emplace rid x (tab (g s)) in (upd t (g s), fresh)) s = (b, s')"
    by (rule prod.exhaust)
  show ?thesis
    using add [where g = g and v = "\<lambda>_. x", OF ok run frame] new by (auto simp: Let_def)
qed

lemma erase:
  assumes ok: "resources_ok s" and present: "umap_contains rid (tab s)"
  defines "s' \<equiv> unregister rid (upd (umap_erase rid (tab s)) s)"
  shows "resources_ok s' \<and> \<not> resource_exists s' rid \<and> tab s' = umap_erase rid (tab s)"
proof -
  have is_kind: "reg_is rid kind (ssResources s)"
    using resources_okD [OF ok tab_ids, of rid] present by (simp add: umap_contains_keys)
  have res: "ssResources s' = umap_erase rid (ssResources s)"
    by (simp add: s'_def unregister_def reg_erase_def upd_resources)
  have td: "tables_distinct (upd (umap_erase rid (tab s)) s)"
    using ok distinct_tab by (intro distinct_upd) (auto simp: resources_ok_def)
  then have "tables_distinct s'"
    by (simp add: s'_def unregister_def reg_erase_def tables_distinct_def)
  moreover have "table_ids k s' = map_option (\<lambda>ids. ids - {rid}) (table_ids k s)" for k
  proof (cases "k = kind")
    case True
    then show ?thesis by (simp add: s'_def unregister_def upd_ids tab_ids keys_erase)
  next
    case False
    have "rid \<notin> ids" if "table_ids k s = Some ids" for ids
      using that False is_kind reg_is_unique resources_okD [OF ok that] by blast
    with False show ?thesis by (cases "table_ids k s") (auto simp: s'_def unregister_def upd_ids)
  qed
  ultimately have "resources_ok s'" using res by (intro resources_ok_remove [OF ok])
  then show ?thesis
    using res by (simp add: resource_exists_def reg_find_def s'_def unregister_def tab_resources upd_tab)
qed

lemma erase_added:
  fixes v :: 'v and reg :: resource_record
  assumes "\<not> resource_exists s rid" "\<not> umap_contains rid (tab s)"
  defines "s1 \<equiv> upd (tab s @ [(rid, v)]) (s\<lparr>ssResources := ssResources s @ [(rid, reg)]\<rparr>)"
  shows "unregister rid (upd (umap_erase rid (tab s1)) s1) = s"
proof -
  have "\<not> umap_contains rid (ssResources s)"
    using assms(1) by (simp add: resource_exists_def umap_contains_def reg_find_def)
  with assms(2) show ?thesis
    by (simp add: s1_def unregister_def reg_erase_def upd_tab umap_erase_snoc upd_upd upd_resources
        tab_resources upd_commute upd_same)
qed

end

lemma table_ids_updates [simp]:
  "table_ids k (s\<lparr>ssPixmaps := t0\<rparr>) = (if k = KPixmap then Some (fst ` set t0) else table_ids k s)"
  "table_ids k (s\<lparr>ssGraphicsContexts := t1\<rparr>) = (if k = KGraphicsContext then Some (fst ` set t1) else table_ids k s)"
  "table_ids k (s\<lparr>ssFonts := t2\<rparr>) = (if k = KFont then Some (fst ` set t2) else table_ids k s)"
  "table_ids k (s\<lparr>ssDbeBuffers := t3\<rparr>) = (if k = KDbeBuffer then Some (fst ` set t3) else table_ids k s)"
  "table_ids k (s\<lparr>ssSharedMemory := t4\<rparr>) = (if k = KSharedMemory then Some (fst ` set t4) else table_ids k s)"
  "table_ids k (s\<lparr>ssSyncCounters := t5\<rparr>) = (if k = KSyncCounter then Some (fst ` set t5) else table_ids k s)"
  "table_ids k (s\<lparr>ssSyncAlarms := t6\<rparr>) = (if k = KSyncAlarm then Some (fst ` set t6) else table_ids k s)"
  "table_ids k (s\<lparr>ssSyncFences := t7\<rparr>) = (if k = KSyncFence then Some (fst ` set t7) else table_ids k s)"
  "table_ids k (s\<lparr>ssCursors := t8\<rparr>) = (if k = KCursor then Some (fst ` set t8) else table_ids k s)"
  "table_ids k (s\<lparr>ssXfixesRegions := t9\<rparr>) = (if k = KXfixesRegion then Some (fst ` set t9) else table_ids k s)"
  "table_ids k (s\<lparr>ssXfixesBarriers := t10\<rparr>) = (if k = KXfixesBarrier then Some (fst ` set t10) else table_ids k s)"
  "table_ids k (s\<lparr>ssDamages := t11\<rparr>) = (if k = KDamage then Some (fst ` set t11) else table_ids k s)"
  "table_ids k (s\<lparr>ssWindows := t12\<rparr>) = (if k = KWindow then Some (fst ` set t12) else table_ids k s)"
  by (cases k; simp)+

interpretation pixmaps: resource_table KPixmap ssPixmaps "\<lambda>t s. s\<lparr>ssPixmaps := t\<rparr>"
  by unfold_locales (simp_all add: tables_distinct_def)

interpretation graphics_contexts: resource_table KGraphicsContext ssGraphicsContexts "\<lambda>t s. s\<lparr>ssGraphicsContexts := t\<rparr>"
  by unfold_locales (simp_all add: tables_distinct_def)

interpretation fonts: resource_table KFont ssFonts "\<lambda>t s. s\<lparr>ssFonts := t\<rparr>"
  by unfold_locales (simp_all add: tables_distinct_def)

interpretation dbe_buffers: resource_table KDbeBuffer ssDbeBuffers "\<lambda>t s. s\<lparr>ssDbeBuffers := t\<rparr>"
  by unfold_locales (simp_all add: tables_distinct_def)

interpretation shared_memories: resource_table KSharedMemory ssSharedMemory "\<lambda>t s. s\<lparr>ssSharedMemory := t\<rparr>"
  by unfold_locales (simp_all add: tables_distinct_def)

interpretation sync_counters: resource_table KSyncCounter ssSyncCounters "\<lambda>t s. s\<lparr>ssSyncCounters := t\<rparr>"
  by unfold_locales (simp_all add: tables_distinct_def)

interpretation sync_alarms: resource_table KSyncAlarm ssSyncAlarms "\<lambda>t s. s\<lparr>ssSyncAlarms := t\<rparr>"
  by unfold_locales (simp_all add: tables_distinct_def)

interpretation sync_fences: resource_table KSyncFence ssSyncFences "\<lambda>t s. s\<lparr>ssSyncFences := t\<rparr>"
  by unfold_locales (simp_all add: tables_distinct_def)

interpretation cursors: resource_table KCursor ssCursors "\<lambda>t s. s\<lparr>ssCursors := t\<rparr>"
  by unfold_locales (simp_all add: tables_distinct_def)

interpretation xfixes_regions: resource_table KXfixesRegion ssXfixesRegions "\<lambda>t s. s\<lparr>ssXfixesRegions := t\<rparr>"
  by unfold_locales (simp_all add: tables_distinct_def)

interpretation xfixes_barriers: resource_table KXfixesBarrier ssXfixesBarriers "\<lambda>t s. s\<lparr>ssXfixesBarriers := t\<rparr>"
  by unfold_locales (simp_all add: tables_distinct_def)

interpretation damages: resource_table KDamage ssDamages "\<lambda>t s. s\<lparr>ssDamages := t\<rparr>"
  by unfold_locales (simp_all add: tables_distinct_def)

interpretation windows: resource_table KWindow ssWindows "\<lambda>t s. s\<lparr>ssWindows := t\<rparr>"
  by unfold_locales (simp_all add: tables_distinct_def)

subsection \<open>Every operation keeps registry and tables in agreement\<close>

lemma table_ids_other_updates [simp]:
  "table_ids k (s\<lparr>ssCursorImages := c\<rparr>) = table_ids k s"
  "table_ids k (s\<lparr>ssNextCursorSerial := n\<rparr>) = table_ids k s"
  "table_ids k (s\<lparr>ssInstalledColormap := m\<rparr>) = table_ids k s"
  by (cases k; simp)+

lemma number_cursor_image_frame [simp]:
  "ssResources (number_cursor_image img s) = ssResources s"
  "table_ids k (number_cursor_image img s) = table_ids k s"
  "tables_distinct (number_cursor_image img s) = tables_distinct s"
  "ssCursors (number_cursor_image img s) = ssCursors s"
  by (simp_all add: number_cursor_image_def tables_distinct_def split: option.split)

text \<open>What each \<open>add_\<close> operation does on a state in the invariant; \<open>registered\<close> is the state
  with the identifier entered into the registry.\<close>

definition registered :: "u32 \<Rightarrow> resource_kind \<Rightarrow> u32 \<Rightarrow> server_state \<Rightarrow> server_state" where
  "registered rid kind owner s =
     s\<lparr>ssResources := ssResources s @ [(rid, \<lparr>rrKind = kind, rrOwner = owner\<rparr>)]\<rparr>"

lemma add_pixmap_run:
  "resources_ok s \<Longrightarrow> add_pixmap p owner s =
     (if pxSurface p = None \<or> maximum_server_surface_bytes < ssSurfaceBytes s \<or> pxId p = 0 \<or>
         resource_exists s (pxId p) then (False, s)
      else (True, registered (pxId p) KPixmap owner s\<lparr>ssPixmaps := ssPixmaps s @ [(pxId p, p)]\<rparr>))"
  using pixmaps.add_run [where g = "\<lambda>s. s" and v = "\<lambda>_. p" and rid = "pxId p" and s = s and owner = owner]
  by (auto simp: add_pixmap_def registered_def)

lemma add_graphics_context_run:
  "resources_ok s \<Longrightarrow> add_graphics_context c owner s =
     (if gcId c = 0 \<or> resource_exists s (gcId c) then (False, s)
      else (True, registered (gcId c) KGraphicsContext owner s
                    \<lparr>ssGraphicsContexts := ssGraphicsContexts s @ [(gcId c, c)]\<rparr>))"
  using graphics_contexts.add_run
    [where g = "\<lambda>s. s" and v = "\<lambda>_. c" and rid = "gcId c" and s = s and owner = owner]
  by (auto simp: add_graphics_context_def registered_def)

lemma add_font_run:
  "resources_ok s \<Longrightarrow> add_font f owner s =
     (if fnFont f = None \<or> fnId f = 0 \<or> resource_exists s (fnId f) then (False, s)
      else (True, registered (fnId f) KFont owner s\<lparr>ssFonts := ssFonts s @ [(fnId f, f)]\<rparr>))"
  using fonts.add_run [where g = "\<lambda>s. s" and v = "\<lambda>_. f" and rid = "fnId f" and s = s and owner = owner]
  by (auto simp: add_font_def registered_def)

lemma add_shared_memory_run:
  "resources_ok s \<Longrightarrow> add_shared_memory rid m owner s =
     (case m of
        None \<Rightarrow> (False, s)
      | Some h \<Rightarrow>
          if maximum_shared_memory_segments \<le> length (ssSharedMemory s) \<or> rid = 0 \<or>
             resource_exists s rid then (False, s)
          else (True, registered rid KSharedMemory owner s
                        \<lparr>ssSharedMemory := ssSharedMemory s @ [(rid, h)]\<rparr>))"
  using shared_memories.add_run
    [where g = "\<lambda>s. s" and v = "\<lambda>_. the m" and rid = rid and s = s and owner = owner]
  by (auto simp: add_shared_memory_def registered_def split: option.split)

lemma add_xfixes_region_run:
  "resources_ok s \<Longrightarrow> add_xfixes_region rid r owner s =
     (if maximum_xfixes_regions \<le> length (ssXfixesRegions s) \<or> rid = 0 \<or> resource_exists s rid
      then (False, s)
      else (True, registered rid KXfixesRegion owner s
                    \<lparr>ssXfixesRegions := ssXfixesRegions s @ [(rid, r)]\<rparr>))"
  using xfixes_regions.add_run
    [where g = "\<lambda>s. s" and v = "\<lambda>_. r" and rid = rid and s = s and owner = owner]
  by (auto simp: add_xfixes_region_def registered_def)

lemma add_xfixes_barrier_run:
  "resources_ok s \<Longrightarrow> add_xfixes_barrier b owner s =
     (if maximum_xfixes_barriers \<le> length (ssXfixesBarriers s) \<or> xbId b = 0 \<or>
         resource_exists s (xbId b) then (False, s)
      else (True, registered (xbId b) KXfixesBarrier owner s
                    \<lparr>ssXfixesBarriers := ssXfixesBarriers s @ [(xbId b, b)]\<rparr>))"
  using xfixes_barriers.add_run
    [where g = "\<lambda>s. s" and v = "\<lambda>_. b" and rid = "xbId b" and s = s and owner = owner]
  by (auto simp: add_xfixes_barrier_def registered_def)

lemma add_sync_counter_run:
  "resources_ok s \<Longrightarrow> add_sync_counter c owner s =
     (if scId c = 0 \<or> resource_exists s (scId c) then (False, s)
      else (True, registered (scId c) KSyncCounter owner s
                    \<lparr>ssSyncCounters := ssSyncCounters s @ [(scId c, c)]\<rparr>))"
  using sync_counters.add_run
    [where g = "\<lambda>s. s" and v = "\<lambda>_. c" and rid = "scId c" and s = s and owner = owner]
  by (auto simp: add_sync_counter_def registered_def)

lemma add_sync_fence_run:
  "resources_ok s \<Longrightarrow> add_sync_fence f owner s =
     (if sfId f = 0 \<or> resource_exists s (sfId f) then (False, s)
      else (True, registered (sfId f) KSyncFence owner s
                    \<lparr>ssSyncFences := ssSyncFences s @ [(sfId f, f)]\<rparr>))"
  using sync_fences.add_run
    [where g = "\<lambda>s. s" and v = "\<lambda>_. f" and rid = "sfId f" and s = s and owner = owner]
  by (auto simp: add_sync_fence_def registered_def)

lemma add_cursor_run:
  "resources_ok s \<Longrightarrow> add_cursor c owner s =
     (case crImage c of
        None \<Rightarrow> (False, s)
      | Some img \<Rightarrow>
          if crId c = 0 \<or> resource_exists s (crId c) then (False, s)
          else (True, number_cursor_image img (registered (crId c) KCursor owner s)
                        \<lparr>ssCursors := ssCursors s @ [(crId c, c)]\<rparr>))"
  using cursors.add_run
    [where g = "number_cursor_image (the (crImage c))" and v = "\<lambda>_. c" and rid = "crId c" and s = s
      and owner = owner]
  by (auto simp: add_cursor_def registered_def Let_def split: option.split)

lemma add_dbe_buffer_run:
  "resources_ok s \<Longrightarrow> add_dbe_buffer b owner s =
     (if dbSurface b = None \<or> window s (dbWindow b) = None \<or> dbId b = 0 \<or>
         resource_exists s (dbId b) then (False, s)
      else (True, registered (dbId b) KDbeBuffer owner s
        \<lparr>ssDbeBuffers := ssDbeBuffers s @
          [(dbId b, case List.find (\<lambda>e. dbWindow (snd e) = dbWindow b) (ssDbeBuffers s) of
                      None \<Rightarrow> b | Some shared \<Rightarrow> b\<lparr>dbSurface := dbSurface (snd shared)\<rparr>)]\<rparr>))"
  using dbe_buffers.add_run
    [where g = "\<lambda>s. s" and rid = "dbId b" and s = s and owner = owner and
     v = "\<lambda>s. case List.find (\<lambda>e. dbWindow (snd e) = dbWindow b) (ssDbeBuffers s) of
                None \<Rightarrow> b | Some shared \<Rightarrow> b\<lparr>dbSurface := dbSurface (snd shared)\<rparr>"]
  by (auto simp: add_dbe_buffer_def registered_def Let_def)

lemma add_keeps_ok:
  assumes "resources_ok s"
  shows "resources_ok (snd (add_pixmap p owner s))"
    "resources_ok (snd (add_graphics_context c owner s))"
    "resources_ok (snd (add_font f owner s))"
    "resources_ok (snd (add_shared_memory rid m owner s))"
    "resources_ok (snd (add_xfixes_region rid r owner s))"
    "resources_ok (snd (add_xfixes_barrier b owner s))"
    "resources_ok (snd (add_sync_counter sc owner s))"
    "resources_ok (snd (add_sync_fence sf owner s))"
    "resources_ok (snd (add_cursor cu owner s))"
    "resources_ok (snd (add_dbe_buffer d owner s))"
proof -
  note ks = pixmaps.add_keeps [where g = "\<lambda>s. s", OF assms]
    graphics_contexts.add_keeps [where g = "\<lambda>s. s", OF assms]
    fonts.add_keeps [where g = "\<lambda>s. s", OF assms]
    shared_memories.add_keeps [where g = "\<lambda>s. s", OF assms]
    xfixes_regions.add_keeps [where g = "\<lambda>s. s", OF assms]
    xfixes_barriers.add_keeps [where g = "\<lambda>s. s", OF assms]
    sync_counters.add_keeps [where g = "\<lambda>s. s", OF assms]
    sync_fences.add_keeps [where g = "\<lambda>s. s", OF assms]
    dbe_buffers.add_keeps [where g = "\<lambda>s. s", OF assms]
  show "resources_ok (snd (add_pixmap p owner s))"
    using assms ks(1) by (simp add: add_pixmap_run registered_def)
  show "resources_ok (snd (add_graphics_context c owner s))"
    using assms ks(2) by (simp add: add_graphics_context_run registered_def)
  show "resources_ok (snd (add_font f owner s))"
    using assms ks(3) by (simp add: add_font_run registered_def)
  show "resources_ok (snd (add_shared_memory rid m owner s))"
    using assms ks(4) by (simp add: add_shared_memory_run registered_def split: option.split)
  show "resources_ok (snd (add_xfixes_region rid r owner s))"
    using assms ks(5) by (simp add: add_xfixes_region_run registered_def)
  show "resources_ok (snd (add_xfixes_barrier b owner s))"
    using assms ks(6) by (simp add: add_xfixes_barrier_run registered_def)
  show "resources_ok (snd (add_sync_counter sc owner s))"
    using assms ks(7) by (simp add: add_sync_counter_run registered_def)
  show "resources_ok (snd (add_sync_fence sf owner s))"
    using assms ks(8) by (simp add: add_sync_fence_run registered_def)
  show "resources_ok (snd (add_cursor cu owner s))"
    using assms cursors.add_keeps [where g = "number_cursor_image (the (crImage cu))", OF assms]
    by (cases "crImage cu") (simp_all add: add_cursor_run registered_def)
  show "resources_ok (snd (add_dbe_buffer d owner s))"
    using assms ks(9) by (simp add: add_dbe_buffer_run registered_def)
qed

text \<open>Removing a set of identifiers of one kind.\<close>

lemma resources_fold_unregister:
  "ssResources (fold unregister ids s) = fold umap_erase ids (ssResources s)"
  by (induction ids arbitrary: s) (simp_all add: unregister_def reg_erase_def)

lemma table_ids_fold_unregister [simp]: "table_ids k (fold unregister ids s) = table_ids k s"
  by (induction ids arbitrary: s) (simp_all add: unregister_def)

lemma umap_find_fold_erase:
  "umap_find q (fold umap_erase ids m) = (if q \<in> set ids then None else umap_find q m)"
  by (induction ids arbitrary: m) auto

lemma umap_ok_fold_erase [simp]: "umap_ok m \<Longrightarrow> umap_ok (fold umap_erase ids m)"
  by (induction ids arbitrary: m) auto

lemma tables_distinct_fold_unregister: "tables_distinct s \<Longrightarrow> tables_distinct (fold unregister ids s)"
  by (induction ids arbitrary: s) (simp_all add: unregister_def reg_erase_def tables_distinct_def)

lemma fold_unregister_frame:
  "fold unregister ids s = s\<lparr>ssResources := fold umap_erase ids (ssResources s)\<rparr>"
  by (induction ids arbitrary: s) (simp_all add: unregister_def reg_erase_def)

lemma resources_ok_remove_set:
  assumes "resources_ok s" "tables_distinct s'"
    and "ssResources s' = fold umap_erase D (ssResources s)"
    and "\<And>k. table_ids k s' = map_option (\<lambda>ids. ids - set D) (table_ids k s)"
  shows "resources_ok s'"
  using assms(1,2) resources_okD [OF assms(1)]
  by (auto simp: resources_ok_def assms(3,4) reg_find_def reg_is_def umap_find_fold_erase)

lemma keys_erase_if:
  "umap_ok m \<Longrightarrow> fst ` set (umap_erase_if P m) =
     fst ` set m - fst ` set (filter (\<lambda>e. P (fst e) (snd e)) m)"
  by (auto simp: umap_erase_if_def umap_ok_def distinct_map inj_on_def image_iff split: prod.splits)
    force+

text \<open>Dropping the DAMAGE objects a predicate selects, as the erase-while-iterating loops do.\<close>

lemma resources_ok_drop_damages:
  fixes P :: "damage_record \<Rightarrow> bool"
  assumes "resources_ok s"
  defines "ids \<equiv> map fst (filter (\<lambda>e. P (snd e)) (ssDamages s))"
  shows "resources_ok ((fold unregister ids s)\<lparr>ssDamages := umap_erase_if (\<lambda>_. P) (ssDamages s)\<rparr>)"
proof (rule resources_ok_remove_set [OF assms(1), where D = ids])
  have td: "tables_distinct s" using assms(1) by (simp add: resources_ok_def)
  then show "tables_distinct ((fold unregister ids s)\<lparr>ssDamages := umap_erase_if (\<lambda>_. P) (ssDamages s)\<rparr>)"
    by (simp add: fold_unregister_frame tables_distinct_def)
  show "ssResources ((fold unregister ids s)\<lparr>ssDamages := umap_erase_if (\<lambda>_. P) (ssDamages s)\<rparr>)
      = fold umap_erase ids (ssResources s)"
    by (simp add: fold_unregister_frame)
  have sub: "set ids \<subseteq> fst ` set (ssDamages s)" by (auto simp: ids_def)
  have "reg_is rid KDamage (ssResources s)" if "rid \<in> set ids" for rid
    using that sub resources_okD [OF assms(1), of KDamage "fst ` set (ssDamages s)" rid] by auto
  then have disj: "rid \<notin> set ids" if "k \<noteq> KDamage" "table_ids k s = Some t" "rid \<in> t" for k t rid
    using that resources_okD [OF assms(1) that(2), of rid] reg_is_unique by blast
  show "table_ids k ((fold unregister ids s)\<lparr>ssDamages := umap_erase_if (\<lambda>_. P) (ssDamages s)\<rparr>)
      = map_option (\<lambda>t. t - set ids) (table_ids k s)" for k
  proof (cases "k = KDamage")
    case True
    then show ?thesis
      using td by (simp add: keys_erase_if tables_distinct_def ids_def)
  next
    case False
    then show ?thesis using disj [OF False] by (cases "table_ids k s") auto
  qed
qed

lemma erase_keeps_ok:
  assumes "resources_ok s"
  shows "resources_ok (snd (erase_pixmap rid s))"
    "resources_ok (snd (erase_graphics_context rid s))"
    "resources_ok (snd (erase_font rid s))"
    "resources_ok (snd (erase_shared_memory rid s))"
    "resources_ok (snd (erase_xfixes_region rid s))"
    "resources_ok (snd (erase_xfixes_barrier rid owner s))"
    "resources_ok (snd (erase_cursor rid s))"
    "resources_ok (snd (erase_dbe_buffer rid s))"
proof -
  show "resources_ok (snd (erase_graphics_context rid s))"
    using assms graphics_contexts.erase [OF assms] by (simp add: erase_graphics_context_def)
  show "resources_ok (snd (erase_font rid s))"
    using assms fonts.erase [OF assms] by (simp add: erase_font_def)
  show "resources_ok (snd (erase_shared_memory rid s))"
    using assms shared_memories.erase [OF assms] by (simp add: erase_shared_memory_def)
  show "resources_ok (snd (erase_xfixes_region rid s))"
    using assms xfixes_regions.erase [OF assms] by (simp add: erase_xfixes_region_def)
  show "resources_ok (snd (erase_xfixes_barrier rid owner s))"
    using assms xfixes_barriers.erase [OF assms]
    by (simp add: erase_xfixes_barrier_def split: option.split)
  show "resources_ok (snd (erase_cursor rid s))"
    using assms cursors.erase [OF assms] by (simp add: erase_cursor_def)
  show "resources_ok (snd (erase_dbe_buffer rid s))"
    using assms dbe_buffers.erase [OF assms] by (simp add: erase_dbe_buffer_def)
  let ?s = "(fold unregister (map fst (filter (\<lambda>e. dmDrawable (snd e) = rid) (ssDamages s))) s)
     \<lparr>ssDamages := umap_erase_if (\<lambda>_ d. dmDrawable d = rid) (ssDamages s)\<rparr>"
  have ok: "resources_ok ?s" using resources_ok_drop_damages [OF assms, of "\<lambda>d. dmDrawable d = rid"] .
  show "resources_ok (snd (erase_pixmap rid s))"
    using assms pixmaps.erase [OF ok, of rid]
    by (auto simp: erase_pixmap_def Let_def fold_unregister_frame)
qed

lemma reg_insert_run:
  "reg_insert rid kind owner r =
     (if rid = 0 \<or> reg_find rid r \<noteq> None then (False, r)
      else (True, r @ [(rid, \<lparr>rrKind = kind, rrOwner = owner\<rparr>)]))"
  by (auto simp: reg_insert_def umap_emplace_def umap_contains_def reg_find_def)

text \<open>Kinds without a table of their own: GLX contexts and drawables, colormaps, pictures.\<close>

lemma resources_ok_untabled:
  assumes "resources_ok s" "rid \<noteq> 0" "\<not> resource_exists s rid" "table_ids kind s = None"
  shows "resources_ok (s\<lparr>ssResources := ssResources s @ [(rid, \<lparr>rrKind = kind, rrOwner = owner\<rparr>)]\<rparr>)"
proof (rule resources_ok_add [OF assms(1,3,2)])
  have "umap_ok (ssResources s)" "\<not> umap_contains rid (ssResources s)"
    using assms by (auto simp: resources_ok_def tables_distinct_def resource_exists_def reg_find_def
        umap_contains_def)
  with assms(1) show "tables_distinct
      (s\<lparr>ssResources := ssResources s @ [(rid, \<lparr>rrKind = kind, rrOwner = owner\<rparr>)]\<rparr>)"
    by (simp add: resources_ok_def tables_distinct_def umap_ok_snoc)
qed (use assms(4) in auto)

lemma resources_ok_unregister_untabled:
  assumes "resources_ok s" "reg_is rid kind (ssResources s)" "table_ids kind s = None"
  shows "resources_ok (s\<lparr>ssResources := umap_erase rid (ssResources s)\<rparr>)"
proof (rule resources_ok_remove [OF assms(1), where rid = rid])
  show "tables_distinct (s\<lparr>ssResources := umap_erase rid (ssResources s)\<rparr>)"
    using assms(1) by (simp add: resources_ok_def tables_distinct_def)
  show "table_ids k (s\<lparr>ssResources := umap_erase rid (ssResources s)\<rparr>)
      = map_option (\<lambda>ids. ids - {rid}) (table_ids k s)" for k
  proof (cases "table_ids k s")
    case (Some ids)
    then have "k \<noteq> kind" using assms(3) by auto
    then have "rid \<notin> ids"
      using resources_okD [OF assms(1) Some, of rid] assms(2) reg_is_unique by blast
    with Some show ?thesis by simp
  qed simp
qed simp

lemma colormap_keeps_ok:
  assumes "resources_ok s"
  shows "resources_ok (snd (add_colormap rid owner s))" "resources_ok (snd (erase_colormap rid s))"
proof -
  show "resources_ok (snd (add_colormap rid owner s))"
    using assms resources_ok_untabled [OF assms, of rid KColormap]
    by (auto simp: add_colormap_def reg_insert_run resource_exists_def)
  let ?w = "umap_map (\<lambda>_ w. if wnColormap w = rid then w\<lparr>wnColormap := default_colormap_id\<rparr> else w)
      (ssWindows s)"
  have w: "resources_ok (s\<lparr>ssInstalledColormap := m, ssWindows := ?w\<rparr>)" for m
  proof (rule resources_ok_keys_unchanged [OF assms])
    have "fst ` set ?w = fst ` set (ssWindows s)"
      by (metis list.set_map map_fst_umap_map)
    then show "table_ids k (s\<lparr>ssInstalledColormap := m, ssWindows := ?w\<rparr>) = table_ids k s" for k
      by simp
  qed (use assms in \<open>simp_all add: resources_ok_def tables_distinct_def\<close>)
  then have "resources_ok (s\<lparr>ssInstalledColormap := m, ssWindows := ?w,
      ssResources := umap_erase rid (ssResources s)\<rparr>)" if "reg_is rid KColormap (ssResources s)" for m
    using resources_ok_unregister_untabled [OF w [of m], of rid KColormap] that by simp
  from this [of "ssInstalledColormap s"] this [of default_colormap_id]
  show "resources_ok (snd (erase_colormap rid s))"
    using assms by (auto simp: erase_colormap_def Let_def reg_erase_def colormap_exists_def)
qed

lemma initial_resources_ok: "resources_ok (initial_state w h n)"
proof -
  have "table_ids k (initial_state w h n) = Some ids \<Longrightarrow>
      rid \<in> ids \<longleftrightarrow> reg_is rid k (ssResources (initial_state w h n))" for k ids rid
    by (cases k) (auto simp: initial_state_def reg_is_def reg_find_def umap_find_def)
  then show ?thesis
    by (auto simp: resources_ok_def tables_distinct_def initial_state_def umap_ok_def reg_find_def
        umap_find_def root_window_id_def default_colormap_id_def)
qed



lemma umap_find_snoc:
  "\<not> umap_contains k m \<Longrightarrow> umap_find j (m @ [(k, v)]) = (if j = k then Some v else umap_find j m)"
  by (auto simp: umap_find_def umap_contains_def map_add_def split: option.splits)

lemma not_contained:
  "resources_ok s \<Longrightarrow> \<not> resource_exists s k \<Longrightarrow> table_ids kind s = Some (fst ` set m) \<Longrightarrow>
   \<not> umap_contains k m"
  using not_in_table by (auto simp: umap_contains_keys)

lemma umap_contains_snoc [simp]: "umap_contains k (m @ [(k, v)])"
  by (simp add: umap_contains_keys)

lemma erase_after_add:
  assumes "resources_ok s" "\<not> resource_exists s rid"
  shows "erase_graphics_context rid (registered rid KGraphicsContext owner s
            \<lparr>ssGraphicsContexts := ssGraphicsContexts s @ [(rid, c)]\<rparr>) = (True, s)"
    "erase_font rid (registered rid KFont owner s\<lparr>ssFonts := ssFonts s @ [(rid, f)]\<rparr>) = (True, s)"
    "erase_shared_memory rid (registered rid KSharedMemory owner s
            \<lparr>ssSharedMemory := ssSharedMemory s @ [(rid, m)]\<rparr>) = (True, s)"
    "erase_xfixes_region rid (registered rid KXfixesRegion owner s
            \<lparr>ssXfixesRegions := ssXfixesRegions s @ [(rid, r)]\<rparr>) = (True, s)"
  using graphics_contexts.erase_added [OF assms(2), of c] fonts.erase_added [OF assms(2), of f]
    shared_memories.erase_added [OF assms(2), of m] xfixes_regions.erase_added [OF assms(2), of r]
    not_contained [OF assms, of KGraphicsContext "ssGraphicsContexts s"]
    not_contained [OF assms, of KFont "ssFonts s"]
    not_contained [OF assms, of KSharedMemory "ssSharedMemory s"]
    not_contained [OF assms, of KXfixesRegion "ssXfixesRegions s"]
  by (simp_all add: erase_graphics_context_def erase_font_def erase_shared_memory_def
      erase_xfixes_region_def registered_def)

text \<open>Adding and erasing are inverse: on a state in the invariant \<open>add\<close> succeeds exactly for a
  new non-zero identifier (and, for segments and regions, below the table's limit), a refusal
  changes nothing, and erasing the entry afterwards gives back the very state there was before;
  erasing an identifier the table does not hold is refused.\<close>

theorem resource_add_erase_inverse:
  assumes "resources_ok s"
  shows "(let (ok, s1) = add_graphics_context c owner s
      in ok = (gcId c \<noteq> 0 \<and> \<not> resource_exists s (gcId c)) \<and>
         (if ok then graphics_context s1 (gcId c) = Some c \<and> resource_owner s1 (gcId c) = Some owner \<and>
                     erase_graphics_context (gcId c) s1 = (True, s) else s1 = s)) \<and>
    (let (ok, s1) = add_font f owner s
      in ok = (fnFont f \<noteq> None \<and> fnId f \<noteq> 0 \<and> \<not> resource_exists s (fnId f)) \<and>
         (if ok then font s1 (fnId f) = Some f \<and> erase_font (fnId f) s1 = (True, s) else s1 = s)) \<and>
    (let (ok, s1) = add_shared_memory rid m owner s
      in ok = (m \<noteq> None \<and> length (ssSharedMemory s) < maximum_shared_memory_segments \<and> rid \<noteq> 0 \<and>
               \<not> resource_exists s rid) \<and>
         (if ok then shared_memory s1 rid = m \<and> erase_shared_memory rid s1 = (True, s) else s1 = s)) \<and>
    (let (ok, s1) = add_xfixes_region rid r owner s
      in ok = (length (ssXfixesRegions s) < maximum_xfixes_regions \<and> rid \<noteq> 0 \<and>
               \<not> resource_exists s rid) \<and>
         (if ok then xfixes_region s1 rid = Some r \<and> erase_xfixes_region rid s1 = (True, s)
          else s1 = s)) \<and>
    (font s q = None \<longrightarrow> erase_font q s = (False, s)) \<and>
    (graphics_context s q = None \<longrightarrow> erase_graphics_context q s = (False, s))"
proof (intro conjI)
  have owner: "resource_owner (registered k kind owner s) k = Some owner" if "\<not> resource_exists s k" for k kind
    using that by (simp add: resource_owner_def registered_def reg_find_def umap_find_snoc
        resource_exists_def umap_contains_def)
  show "let (ok, s1) = add_graphics_context c owner s
      in ok = (gcId c \<noteq> 0 \<and> \<not> resource_exists s (gcId c)) \<and>
         (if ok then graphics_context s1 (gcId c) = Some c \<and> resource_owner s1 (gcId c) = Some owner \<and>
                     erase_graphics_context (gcId c) s1 = (True, s) else s1 = s)"
    using owner [of "gcId c" KGraphicsContext] erase_after_add(1) [OF assms, where rid = "gcId c" and owner = owner and c = c]
      not_contained [OF assms, of "gcId c" KGraphicsContext "ssGraphicsContexts s"]
    by (simp add: add_graphics_context_run [OF assms] graphics_context_def umap_find_snoc
        resource_owner_def)
  show "let (ok, s1) = add_font f owner s
      in ok = (fnFont f \<noteq> None \<and> fnId f \<noteq> 0 \<and> \<not> resource_exists s (fnId f)) \<and>
         (if ok then font s1 (fnId f) = Some f \<and> erase_font (fnId f) s1 = (True, s) else s1 = s)"
    using erase_after_add(2) [OF assms, where rid = "fnId f" and owner = owner and f = f]
      not_contained [OF assms, of "fnId f" KFont "ssFonts s"]
    by (simp add: add_font_run [OF assms] font_def umap_find_snoc)
  show "let (ok, s1) = add_shared_memory rid m owner s
      in ok = (m \<noteq> None \<and> length (ssSharedMemory s) < maximum_shared_memory_segments \<and> rid \<noteq> 0 \<and>
               \<not> resource_exists s rid) \<and>
         (if ok then shared_memory s1 rid = m \<and> erase_shared_memory rid s1 = (True, s) else s1 = s)"
    using erase_after_add(3) [OF assms, where rid = rid and owner = owner and m = "the m"]
      not_contained [OF assms, of rid KSharedMemory "ssSharedMemory s"]
    by (cases m) (simp_all add: add_shared_memory_run [OF assms] shared_memory_def umap_find_snoc)
  show "let (ok, s1) = add_xfixes_region rid r owner s
      in ok = (length (ssXfixesRegions s) < maximum_xfixes_regions \<and> rid \<noteq> 0 \<and>
               \<not> resource_exists s rid) \<and>
         (if ok then xfixes_region s1 rid = Some r \<and> erase_xfixes_region rid s1 = (True, s)
          else s1 = s)"
    using erase_after_add(4) [OF assms, where rid = rid and owner = owner and r = r]
      not_contained [OF assms, of rid KXfixesRegion "ssXfixesRegions s"]
    by (simp add: add_xfixes_region_run [OF assms] xfixes_region_def umap_find_snoc)
qed (simp_all add: font_def erase_font_def graphics_context_def erase_graphics_context_def
      umap_contains_def)

theorem resource_add_erase_inverse_witness:
  "erase_xfixes_region 0x200001 (snd (add_xfixes_region 0x200001 [] 0x200000 (initial_state 640 480 0)))
     = (True, initial_state 640 480 0)"
proof -
  have "\<not> resource_exists (initial_state 640 480 0) 0x200001"
    by (simp add: resource_exists_def initial_state_def reg_find_def umap_find_def root_window_id_def
        default_colormap_id_def)
  moreover have "length (ssXfixesRegions (initial_state 640 480 0)) < maximum_xfixes_regions"
    by (simp add: initial_state_def maximum_xfixes_regions_def)
  ultimately show ?thesis
    using resource_add_erase_inverse [OF initial_resources_ok [of 640 480 0],
        where rid = "0x200001" and r = "[]" and owner = "0x200000"]
    by (cases "add_xfixes_region 0x200001 [] 0x200000 (initial_state 640 480 0)") simp
qed

subsection \<open>Owners and limits\<close>

lemma reg_owner_size_erase_if: "filter (\<lambda>e. rrOwner (snd e) = gone)
    (umap_erase_if (\<lambda>_ rec. rrOwner rec = gone) r) = []"
  by (auto simp: umap_erase_if_def filter_empty_conv)

text \<open>The registry accounts for owners: reserving succeeds exactly for a new non-zero identifier
  below both limits, and then neither limit is exceeded; erasing an owner removes all of its
  entries and no other, and returns how many there were.\<close>

theorem registry_owner_accounting:
  assumes "umap_ok (ssResources s)"
  shows "(let (ok, s1) = reserve_resource rid kind owner s
      in ok = (rid \<noteq> 0 \<and> \<not> resource_exists s rid \<and> length (ssResources s) < maximum_server_resources \<and>
               reg_owner_size owner (ssResources s) < maximum_client_resources) \<and>
         (if ok then length (ssResources s1) \<le> maximum_server_resources \<and>
                     reg_owner_size owner (ssResources s1) \<le> maximum_client_resources \<and>
                     resource_owner s1 rid = Some owner \<and> release_resource rid kind s1 = (True, s)
          else s1 = s)) \<and>
    (let (erased, r) = reg_erase_owner gone (ssResources s)
      in erased = reg_owner_size gone (ssResources s) \<and> length r + erased = length (ssResources s) \<and>
         reg_owner_size gone r = 0 \<and>
         (\<forall>q. reg_find q r = (case reg_find q (ssResources s) of None \<Rightarrow> None
                | Some e \<Rightarrow> if rrOwner e = gone then None else Some e)))"
proof
  have new: "\<not> umap_contains rid (ssResources s)" if "\<not> resource_exists s rid"
    using that by (simp add: resource_exists_def umap_contains_def reg_find_def)
  then show "let (ok, s1) = reserve_resource rid kind owner s
      in ok = (rid \<noteq> 0 \<and> \<not> resource_exists s rid \<and> length (ssResources s) < maximum_server_resources \<and>
               reg_owner_size owner (ssResources s) < maximum_client_resources) \<and>
         (if ok then length (ssResources s1) \<le> maximum_server_resources \<and>
                     reg_owner_size owner (ssResources s1) \<le> maximum_client_resources \<and>
                     resource_owner s1 rid = Some owner \<and> release_resource rid kind s1 = (True, s)
          else s1 = s)"
    by (auto simp: reserve_resource_def resource_limit_reached_def reg_insert_run reg_owner_size_def
        resource_owner_def resource_exists_def reg_find_def umap_find_snoc release_resource_def
        reg_is_def reg_erase_def umap_erase_snoc)
  show "let (erased, r) = reg_erase_owner gone (ssResources s)
      in erased = reg_owner_size gone (ssResources s) \<and> length r + erased = length (ssResources s) \<and>
         reg_owner_size gone r = 0 \<and>
         (\<forall>q. reg_find q r = (case reg_find q (ssResources s) of None \<Rightarrow> None
                | Some e \<Rightarrow> if rrOwner e = gone then None else Some e))"
    unfolding reg_erase_owner_def Let_def prod.case
  proof (intro conjI)
    show "length (umap_erase_if (\<lambda>_ rec. rrOwner rec = gone) (ssResources s)) +
        length (filter (\<lambda>e. rrOwner (snd e) = gone) (ssResources s)) = length (ssResources s)"
      using count_filter_sum [of "\<lambda>e. rrOwner (snd e) = gone" "ssResources s"]
      by (simp add: umap_erase_if_def case_prod_unfold)
  qed (simp_all add: reg_owner_size_def reg_find_def umap_find_erase_if [OF assms]
        reg_owner_size_erase_if)
qed

theorem registry_owner_accounting_witness:
  "fst (reserve_resource 0x200001 KGlxContext 0x200000 (initial_state 640 480 0)) \<and>
   fst (reg_erase_owner 0 (ssResources (initial_state 640 480 0))) = 2"
  using registry_owner_accounting [where s = "initial_state 640 480 0" and rid = "0x200001"
      and kind = KGlxContext and owner = "0x200000" and gone = 0]
    initial_resources_ok [of 640 480 0]
  by (simp add: resources_ok_def tables_distinct_def)
     (simp add: resource_exists_def initial_state_def reg_find_def umap_find_def
      root_window_id_def default_colormap_id_def maximum_server_resources_def
      maximum_client_resources_def reg_owner_size_def split: prod.splits)

end
