(* ===== verification/Sync.thy ===== *)
theory Sync
  imports Resources Checked
begin

text \<open>
  The SYNC extension's state machine (\<^verbatim>\<open>src/server/server_state.cpp\<close>): counters, alarms, fences and
  the clients waiting on them.  Values are 64-bit two's complement integers; the unsigned
  arithmetic of \<open>advance_alarm\<close> is written out with its wrap-around.  A step either delivers all of
  its notifications and commits, or leaves the state as it was.
\<close>

subsection \<open>Triggers\<close>

definition sync_trigger_fired :: "sync_trigger \<Rightarrow> int \<Rightarrow> int \<Rightarrow> bool" where
  "sync_trigger_fired trigger old_value new_value \<longleftrightarrow>
     (case stTestType trigger of
        PositiveTransition \<Rightarrow> old_value < stTestValue trigger \<and> stTestValue trigger \<le> new_value
      | NegativeTransition \<Rightarrow> stTestValue trigger < old_value \<and> new_value \<le> stTestValue trigger
      | PositiveComparison \<Rightarrow> stTestValue trigger \<le> new_value
      | NegativeComparison \<Rightarrow> new_value \<le> stTestValue trigger)"

definition signed_from_bits :: "int \<Rightarrow> int" where
  "signed_from_bits bits =
     (if bits \<le> s_max 64 then bits else - 1 - (u_max 64 - bits))"

definition nonnegative_distance :: "int \<Rightarrow> int \<Rightarrow> int" where
  "nonnegative_distance high low =
     to_unsigned 64 (to_unsigned 64 high - to_unsigned 64 low)"

definition alarm_active :: u8 where "alarm_active = 0"
definition alarm_inactive :: u8 where "alarm_inactive = 1"
definition alarm_destroyed :: u8 where "alarm_destroyed = 2"

text \<open>The next test value of an alarm that has fired, and its state.\<close>

definition advance_alarm :: "sync_alarm_record \<Rightarrow> int \<Rightarrow> int \<times> u8" where
  "advance_alarm alarm counter_value =
     (let test = stTestValue (saTrigger alarm); kind = stTestType (saTrigger alarm);
          stop = (test, alarm_inactive)
      in if saState alarm \<noteq> alarm_active then (test, saState alarm)
         else if saDelta alarm = 0 \<and> (kind = PositiveComparison \<or> kind = NegativeComparison) then stop
         else if kind = PositiveTransition \<or> kind = NegativeTransition
         then (case checked_add_signed 64 test (saDelta alarm) of
                 Some next_value \<Rightarrow> (next_value, alarm_active)
               | None \<Rightarrow> stop)
         else
           let positive = (kind = PositiveComparison);
               magnitude = (if positive then to_unsigned 64 (saDelta alarm)
                            else to_unsigned 64 (0 - to_unsigned 64 (saDelta alarm)));
               distance = (if positive then nonnegative_distance counter_value test
                           else nonnegative_distance test counter_value);
               quotient = distance div magnitude;
               steps = to_unsigned 64 (quotient + 1);
               movement = to_unsigned 64 (steps * magnitude);
               available = (if positive then nonnegative_distance (s_max 64) test
                            else nonnegative_distance test (s_min 64));
               bits = (if positive then to_unsigned 64 (to_unsigned 64 test + movement)
                       else to_unsigned 64 (to_unsigned 64 test - movement))
           in if magnitude = 0 then stop
              else if quotient = u_max 64 then stop
              else if steps > u_max 64 div magnitude then stop
              else if movement > available then stop
              else (signed_from_bits bits, alarm_active))"

definition sync_notification_eligible :: "sync_wait_condition \<Rightarrow> int \<Rightarrow> bool" where
  "sync_notification_eligible condition value \<longleftrightarrow>
     (case checked_subtract_signed 64 value (stTestValue (swTrigger condition)) of
        None \<Rightarrow> False
      | Some difference \<Rightarrow>
          if stTestType (swTrigger condition) \<in> {PositiveTransition, PositiveComparison}
          then swEventThreshold condition \<le> difference
          else difference \<le> swEventThreshold condition)"

subsection \<open>Counters\<close>

definition sync_alarm :: "server_state \<Rightarrow> u32 \<Rightarrow> sync_alarm_record option" where
  "sync_alarm s rid = umap_find rid (ssSyncAlarms s)"

text \<open>\<open>append_sync_alarm_event\<close>: the events it appends.\<close>

definition sync_alarm_events ::
  "server_state \<Rightarrow> sync_alarm_record \<Rightarrow> int \<Rightarrow> int \<Rightarrow> u8 \<Rightarrow> planned_event list" where
  "sync_alarm_events s alarm counter_value alarm_value state =
     map (\<lambda>client. (client, EvExtension
            (SyncAlarmNotify (saId alarm) counter_value alarm_value (ssCurrentTime s) state)))
       (saEventClients alarm)"

definition revise_alarm ::
  "server_state \<Rightarrow> sync_counter_record \<Rightarrow> int \<Rightarrow> bool \<Rightarrow> sync_alarm_record \<Rightarrow>
     (sync_alarm_record \<times> planned_event list) option" where
  "revise_alarm s counter value destroying alarm =
     (let trigger = saTrigger alarm
      in if stCounter trigger \<noteq> scId counter then None
         else if destroying
         then Some (alarm\<lparr>saState := 1, saTrigger := trigger\<lparr>stCounter := 0\<rparr>\<rparr>,
                    sync_alarm_events s alarm (scValue counter) (stTestValue trigger) 1)
         else if \<not> sync_trigger_fired trigger (scValue counter) value then None
         else let (test_value, state) = advance_alarm alarm value
              in Some (alarm\<lparr>saTrigger := trigger\<lparr>stTestValue := test_value\<rparr>, saState := state\<rparr>,
                       sync_alarm_events s alarm value (stTestValue trigger) state))"

definition wait_fired :: "sync_counter_record \<Rightarrow> int \<Rightarrow> bool \<Rightarrow> sync_wait_condition list \<Rightarrow> bool" where
  "wait_fired counter value destroying conditions \<longleftrightarrow>
     list_ex (\<lambda>c. stCounter (swTrigger c) = scId counter \<and>
        (destroying \<or> sync_trigger_fired (swTrigger c) (scValue counter) value)) conditions"

text \<open>A notification before it is numbered: counter, test value, current value, destroyed.\<close>

type_synonym sync_notification = "u32 \<times> int \<times> int \<times> bool"

definition wait_notification ::
  "server_state \<Rightarrow> sync_counter_record \<Rightarrow> int \<Rightarrow> bool \<Rightarrow> sync_wait_condition \<Rightarrow>
     sync_notification option" where
  "wait_notification s counter value destroying condition =
     (let trigger = swTrigger condition;
          destroyed = (destroying \<and> stCounter trigger = scId counter);
          current = (if stCounter trigger = scId counter
                     then Some (if destroying then scValue counter else value)
                     else map_option scValue (sync_counter s (stCounter trigger)))
      in case current of
           None \<Rightarrow> None
         | Some v \<Rightarrow>
             if \<not> destroyed \<and> \<not> sync_notification_eligible condition v then None
             else Some (stCounter trigger, stTestValue trigger, v, destroyed))"

text \<open>The numbering loop: \<open>count\<close> says how many notifications follow.\<close>

definition number_notifications ::
  "server_state \<Rightarrow> u32 \<Rightarrow> sync_notification list \<Rightarrow> planned_event list" where
  "number_notifications s client notifications =
     map (\<lambda>(index, (counter, test_value, current, destroyed)).
            (client, EvExtension (SyncCounterNotify counter test_value current (ssCurrentTime s)
               ((length notifications - index - 1) mod 2 ^ 16) destroyed)))
       (zip [0..<length notifications] notifications)"

definition completed_waits ::
  "server_state \<Rightarrow> sync_counter_record \<Rightarrow> int \<Rightarrow> bool \<Rightarrow> (u32 \<times> sync_wait_condition list) list" where
  "completed_waits s counter value destroying =
     filter (\<lambda>(client, conditions). wait_fired counter value destroying conditions) (ssSyncCounterWaits s)"

definition update_sync_counter ::
  "sync_counter_record \<Rightarrow> int \<Rightarrow> bool \<Rightarrow> server_state \<Rightarrow> table_update \<times> server_state" where
  "update_sync_counter counter value destroying s =
     (let revisions = List.map_filter (\<lambda>e. revise_alarm s counter value destroying (snd e)) (ssSyncAlarms s);
          completed = completed_waits s counter value destroying;
          events = concat (map snd revisions) @
            concat (map (\<lambda>(client, conditions). number_notifications s client
              (List.map_filter (wait_notification s counter value destroying) conditions)) completed);
          (queued, s1) = queue_events_atomically events s
      in if \<not> queued then (UpdateQueueFull, s1)
         else let s2 = fold (\<lambda>alarm s. if umap_contains (saId alarm) (ssSyncAlarms s)
                        then s\<lparr>ssSyncAlarms := umap_put (saId alarm) alarm (ssSyncAlarms s)\<rparr> else s)
                      (map fst revisions) s1;
                  s3 = s2\<lparr>ssSyncCounterWaits := fold umap_erase (map fst completed) (ssSyncCounterWaits s2)\<rparr>
              in (Updated,
                  if destroying then s3
                  else s3\<lparr>ssSyncCounters :=
                         umap_put (scId counter) (counter\<lparr>scValue := value\<rparr>) (ssSyncCounters s3)\<rparr>))"

definition set_sync_counter ::
  "sync_counter_record \<Rightarrow> int \<Rightarrow> server_state \<Rightarrow> table_update \<times> server_state" where
  "set_sync_counter counter value s = update_sync_counter counter value False s"

definition erase_sync_counter :: "u32 \<Rightarrow> server_state \<Rightarrow> table_update \<times> server_state" where
  "erase_sync_counter rid s =
     (case sync_counter s rid of
        None \<Rightarrow> (Invalid, s)
      | Some counter \<Rightarrow>
          let (updated, s1) = update_sync_counter counter 0 True s
          in if updated \<noteq> Updated then (updated, s1)
             else (Updated, unregister rid (s1\<lparr>ssSyncCounters := umap_erase rid (ssSyncCounters s1)\<rparr>)))"

subsection \<open>Alarms\<close>

definition commit_sync_alarm ::
  "sync_alarm_record \<Rightarrow> bool \<Rightarrow> server_state \<Rightarrow> table_update \<times> server_state" where
  "commit_sync_alarm given creating s =
     (let counter = sync_counter s (stCounter (saTrigger given));
          alarm = given\<lparr>saState := (if counter = None then 1 else 0)\<rparr>;
          (advanced, events) =
            (case counter of
               None \<Rightarrow> (alarm, [])
             | Some c \<Rightarrow>
                 if sync_trigger_fired (saTrigger alarm) (scValue c) (scValue c)
                 then let (test_value, state) = advance_alarm alarm (scValue c)
                      in (alarm\<lparr>saTrigger := (saTrigger alarm)\<lparr>stTestValue := test_value\<rparr>,
                                saState := state\<rparr>,
                          sync_alarm_events s alarm (scValue c) (stTestValue (saTrigger alarm)) state)
                 else (alarm, []));
          (entered, s1) =
            (if creating
             then insert_resource (saId advanced) KSyncAlarm (saOwner advanced)
               (\<lambda>s. let (t, fresh) = umap_emplace (saId advanced) advanced (ssSyncAlarms s)
                    in (s\<lparr>ssSyncAlarms := t\<rparr>, fresh)) s
             else (True, s))
      in if \<not> entered then (Invalid, s1)
         else let (queued, s2) = queue_events_atomically events s1
              in if \<not> queued
                 then (UpdateQueueFull,
                       if creating
                       then unregister (saId advanced)
                              (s2\<lparr>ssSyncAlarms := umap_erase (saId advanced) (ssSyncAlarms s2)\<rparr>)
                       else s2)
                 else if umap_contains (saId advanced) (ssSyncAlarms s2)
                 then (Updated, s2\<lparr>ssSyncAlarms := umap_put (saId advanced) advanced (ssSyncAlarms s2)\<rparr>)
                 else (Invalid, s2))"

definition add_sync_alarm :: "sync_alarm_record \<Rightarrow> u32 \<Rightarrow> server_state \<Rightarrow> table_update \<times> server_state" where
  "add_sync_alarm alarm owner s = commit_sync_alarm (alarm\<lparr>saOwner := owner\<rparr>) True s"

definition change_sync_alarm :: "sync_alarm_record \<Rightarrow> server_state \<Rightarrow> table_update \<times> server_state" where
  "change_sync_alarm alarm s =
     (if sync_alarm s (saId alarm) = None then (Invalid, s) else commit_sync_alarm alarm False s)"

definition erase_sync_alarm :: "u32 \<Rightarrow> server_state \<Rightarrow> table_update \<times> server_state" where
  "erase_sync_alarm rid s =
     (case sync_alarm s rid of
        None \<Rightarrow> (Invalid, s)
      | Some alarm \<Rightarrow>
          let events = (case sync_counter s (stCounter (saTrigger alarm)) of
                          None \<Rightarrow> []
                        | Some c \<Rightarrow> sync_alarm_events s alarm (scValue c)
                                     (stTestValue (saTrigger alarm)) 2);
              (queued, s1) = queue_events_atomically events s
          in if \<not> queued then (UpdateQueueFull, s1)
             else (Updated, unregister rid (s1\<lparr>ssSyncAlarms := umap_erase rid (ssSyncAlarms s1)\<rparr>)))"

subsection \<open>Fences\<close>

definition release_fence_waits :: "u32 \<Rightarrow> server_state \<Rightarrow> server_state" where
  "release_fence_waits rid s =
     s\<lparr>ssSyncFenceWaits := umap_erase_if (\<lambda>_ fences. rid \<in> set fences) (ssSyncFenceWaits s)\<rparr>"

definition trigger_sync_fence :: "u32 \<Rightarrow> server_state \<Rightarrow> table_update \<times> server_state" where
  "trigger_sync_fence rid s =
     (case sync_fence s rid of
        None \<Rightarrow> (Invalid, s)
      | Some fence \<Rightarrow>
          (Updated, release_fence_waits rid
             (s\<lparr>ssSyncFences := umap_put rid (fence\<lparr>sfTriggered := True\<rparr>) (ssSyncFences s)\<rparr>)))"

definition reset_sync_fence :: "u32 \<Rightarrow> server_state \<Rightarrow> bool \<times> server_state" where
  "reset_sync_fence rid s =
     (case sync_fence s rid of
        None \<Rightarrow> (False, s)
      | Some fence \<Rightarrow>
          if \<not> sfTriggered fence then (False, s)
          else (True, s\<lparr>ssSyncFences := umap_put rid (fence\<lparr>sfTriggered := False\<rparr>) (ssSyncFences s)\<rparr>))"

definition erase_sync_fence :: "u32 \<Rightarrow> server_state \<Rightarrow> table_update \<times> server_state" where
  "erase_sync_fence rid s =
     (if sync_fence s rid = None then (Invalid, s)
      else let s1 = release_fence_waits rid s
           in (Updated, unregister rid (s1\<lparr>ssSyncFences := umap_erase rid (ssSyncFences s1)\<rparr>)))"

subsection \<open>Waiting\<close>

definition sync_waiting :: "server_state \<Rightarrow> u32 \<Rightarrow> bool" where
  "sync_waiting s client \<longleftrightarrow>
     umap_contains client (ssSyncCounterWaits s) \<or> umap_contains client (ssSyncFenceWaits s)"

definition begin_sync_counter_await ::
  "u32 \<Rightarrow> sync_wait_condition list \<Rightarrow> server_state \<Rightarrow> table_update \<times> server_state" where
  "begin_sync_counter_await client conditions s =
     (if conditions = [] \<or> maximum_sync_wait_conditions < length conditions \<or> sync_waiting s client
      then (Invalid, s)
      else if list_ex (\<lambda>c. sync_counter s (stCounter (swTrigger c)) = None) conditions then (Invalid, s)
      else if list_ex (\<lambda>c. case sync_counter s (stCounter (swTrigger c)) of
                 None \<Rightarrow> False
               | Some counter \<Rightarrow>
                   sync_trigger_fired (swTrigger c) (scValue counter) (scValue counter)) conditions
      then let notifications = List.map_filter
                 (\<lambda>c. case sync_counter s (stCounter (swTrigger c)) of
                        None \<Rightarrow> None
                      | Some counter \<Rightarrow>
                          if sync_notification_eligible c (scValue counter)
                          then Some (scId counter, stTestValue (swTrigger c), scValue counter, False)
                          else None) conditions;
               (queued, s1) = queue_events_atomically (number_notifications s client notifications) s
           in (if queued then Updated else UpdateQueueFull, s1)
      else (Updated, s\<lparr>ssSyncCounterWaits :=
              fst (umap_emplace client conditions (ssSyncCounterWaits s))\<rparr>))"

text \<open>The validation loop returns at the first fence that does not exist or is triggered.\<close>

fun check_fences :: "server_state \<Rightarrow> u32 list \<Rightarrow> table_update option" where
  "check_fences s [] = None"
| "check_fences s (rid # rids) =
     (case sync_fence s rid of
        None \<Rightarrow> Some Invalid
      | Some fence \<Rightarrow> if sfTriggered fence then Some Updated else check_fences s rids)"

definition begin_sync_fence_await ::
  "u32 \<Rightarrow> u32 list \<Rightarrow> server_state \<Rightarrow> table_update \<times> server_state" where
  "begin_sync_fence_await client fences s =
     (if fences = [] \<or> maximum_sync_wait_conditions < length fences \<or> sync_waiting s client
      then (Invalid, s)
      else case check_fences s fences of
             Some result \<Rightarrow> (result, s)
           | None \<Rightarrow> (Updated, s\<lparr>ssSyncFenceWaits :=
                        fst (umap_emplace client fences (ssSyncFenceWaits s))\<rparr>))"

definition set_sync_priority :: "u32 \<Rightarrow> int \<Rightarrow> server_state \<Rightarrow> server_state" where
  "set_sync_priority client priority s =
     (if umap_contains client (ssSyncPriorities s)
      then s\<lparr>ssSyncPriorities := umap_put client priority (ssSyncPriorities s)\<rparr> else s)"

definition sync_priority :: "server_state \<Rightarrow> u32 \<Rightarrow> int" where
  "sync_priority s client =
     (case umap_find client (ssSyncPriorities s) of None \<Rightarrow> 0 | Some p \<Rightarrow> p)"

subsection \<open>Advancing an alarm\<close>

lemma fits_signed_64: "fits_signed 64 v \<longleftrightarrow> - (2 ^ 63) \<le> v \<and> v < 2 ^ 63"
  by (auto simp: fits_signed_def s_min_def s_max_def)

lemma nonnegative_distance_exact:
  assumes "fits_signed 64 a" "fits_signed 64 b" "b \<le> a"
  shows "nonnegative_distance a b = a - b"
proof -
  have "0 \<le> a - b" "a - b < 2 ^ 64"
    using assms by (auto simp: fits_signed_64)
  then show ?thesis
    by (simp add: nonnegative_distance_def to_unsigned_def mod_diff_eq)
qed

lemma signed_from_bits_inverse:
  assumes "fits_signed 64 v"
  shows "signed_from_bits (to_unsigned 64 v) = v"
proof (cases "0 \<le> v")
  case True
  then show ?thesis using assms by (simp add: signed_from_bits_def to_unsigned_def fits_signed_64 s_max_def)
next
  case False
  then have "to_unsigned 64 v = v + 2 ^ 64"
    using assms by (subst to_unsigned_def, subst mod_pos_pos_trivial [symmetric, of "v + 2 ^ 64" "2 ^ 64"])
      (auto simp: fits_signed_64)
  then show ?thesis using assms by (simp add: signed_from_bits_def fits_signed_64 s_max_def u_max_def)
qed

lemma to_unsigned_add: "to_unsigned 64 (to_unsigned 64 a + b) = to_unsigned 64 (a + b)"
  by (simp add: to_unsigned_def mod_add_left_eq)

lemma to_unsigned_diff: "to_unsigned 64 (to_unsigned 64 a - b) = to_unsigned 64 (a - b)"
  by (simp add: to_unsigned_def mod_diff_left_eq)

text \<open>The step count and movement of a comparison alarm, when nothing overflows.\<close>

lemma advance_movement:
  fixes distance magnitude :: int
  assumes "0 \<le> distance" "distance < 2 ^ 64" "0 < magnitude" "magnitude < 2 ^ 64"
  defines "q \<equiv> distance div magnitude"
  shows "q = u_max 64 \<or> to_unsigned 64 (q + 1) > u_max 64 div magnitude \<or>
      to_unsigned 64 (to_unsigned 64 (q + 1) * magnitude) = (q + 1) * magnitude"
    "(q + 1) * magnitude < 2 ^ 64 \<Longrightarrow>
      q \<noteq> u_max 64 \<and> \<not> to_unsigned 64 (q + 1) > u_max 64 div magnitude"
proof -
  have q: "0 \<le> q" "q \<le> distance"
    using assms zdiv_mono2 [of distance 1 magnitude] by (auto simp: q_def pos_imp_zdiv_nonneg_iff)
  have id: "to_unsigned 64 (q + 1) = q + 1" if "q \<noteq> u_max 64"
    using that q assms(2) by (intro to_unsigned_id) (auto simp: u_max_def)
  have le: "q + 1 \<le> u_max 64 div magnitude \<longleftrightarrow> (q + 1) * magnitude \<le> u_max 64"
  proof
    assume "q + 1 \<le> u_max 64 div magnitude"
    then have "(q + 1) * magnitude \<le> (u_max 64 div magnitude) * magnitude"
      using assms(3) by (intro mult_right_mono) simp_all
    also have "\<dots> \<le> u_max 64"
      using assms(3) pos_mod_sign [of magnitude "u_max 64"] div_mult_mod_eq [of "u_max 64" magnitude]
      by linarith
    finally show "(q + 1) * magnitude \<le> u_max 64" .
  next
    assume "(q + 1) * magnitude \<le> u_max 64"
    then show "q + 1 \<le> u_max 64 div magnitude"
      using zdiv_mono1 [of "(q + 1) * magnitude" "u_max 64" magnitude] assms(3) by simp
  qed
  show "q = u_max 64 \<or> to_unsigned 64 (q + 1) > u_max 64 div magnitude \<or>
      to_unsigned 64 (to_unsigned 64 (q + 1) * magnitude) = (q + 1) * magnitude"
    using id le q assms(3) by (cases "q = u_max 64") (auto simp: not_less u_max_def intro!: to_unsigned_id)
  show "q \<noteq> u_max 64 \<and> \<not> to_unsigned 64 (q + 1) > u_max 64 div magnitude"
    if lt: "(q + 1) * magnitude < 2 ^ 64"
  proof -
    have "q + 1 \<le> (q + 1) * magnitude" using q assms(3) by (simp add: mult_le_cancel_left1)
    then have "q \<noteq> u_max 64" using lt by (simp add: u_max_def)
    with id le lt show ?thesis by (simp add: u_max_def not_less)
  qed
qed

lemma advance_alarm_positive:
  assumes "saState a = alarm_active" "stTestType (saTrigger a) = PositiveComparison"
    and fits: "fits_signed 64 (stTestValue (saTrigger a))" "fits_signed 64 (saDelta a)"
      "fits_signed 64 v"
    and "0 < saDelta a" "stTestValue (saTrigger a) \<le> v"
  defines "n \<equiv> stTestValue (saTrigger a) +
      ((v - stTestValue (saTrigger a)) div saDelta a + 1) * saDelta a"
  shows "advance_alarm a v =
    (if n \<le> s_max 64 then (n, alarm_active) else (stTestValue (saTrigger a), alarm_inactive))"
proof -
  let ?t = "stTestValue (saTrigger a)" and ?d = "saDelta a"
  let ?q = "(v - ?t) div ?d"
  have mag: "to_unsigned 64 ?d = ?d"
    using assms by (intro to_unsigned_id) (auto simp: fits_signed_64)
  have dist: "nonnegative_distance v ?t = v - ?t"
    using assms by (intro nonnegative_distance_exact) auto
  have avail: "nonnegative_distance (s_max 64) ?t = s_max 64 - ?t"
    using fits by (intro nonnegative_distance_exact) (auto simp: fits_signed_64 s_max_def)
  have bounds: "0 \<le> v - ?t" "v - ?t < 2 ^ 64" "?d < 2 ^ 64"
    using assms by (auto simp: fits_signed_64)
  note m = advance_movement [OF bounds(1,2) assms(6) bounds(3)]
  have "0 \<le> ?q" using bounds(1) assms(6) by (simp add: pos_imp_zdiv_nonneg_iff)
  then have move: "0 \<le> (?q + 1) * ?d" using assms(6) by simp
  show ?thesis
  proof (cases "n \<le> s_max 64")
    case True
    then have "(?q + 1) * ?d \<le> s_max 64 - ?t" by (simp add: n_def)
    then have lt: "(?q + 1) * ?d < 2 ^ 64" using fits(1) by (simp add: fits_signed_64 s_max_def)
    have "fits_signed 64 n"
      using True fits(1) move unfolding fits_signed_def n_def by linarith
    then have "signed_from_bits (to_unsigned 64 (?t + (?q + 1) * ?d)) = n"
      by (simp add: n_def signed_from_bits_inverse)
    with m(1) m(2) [OF lt] True assms(1,2,6) show ?thesis
      by (simp add: advance_alarm_def Let_def mag dist avail to_unsigned_add n_def)
  next
    case False
    then have "s_max 64 - ?t < (?q + 1) * ?d" by (simp add: n_def)
    with m(1) False assms(1,2,6) show ?thesis
      by (auto simp: advance_alarm_def Let_def mag dist avail)
  qed
qed

lemma advance_alarm_negative:
  assumes "saState a = alarm_active" "stTestType (saTrigger a) = NegativeComparison"
    and fits: "fits_signed 64 (stTestValue (saTrigger a))" "fits_signed 64 (saDelta a)"
      "fits_signed 64 v"
    and "saDelta a < 0" "v \<le> stTestValue (saTrigger a)"
  defines "n \<equiv> stTestValue (saTrigger a) -
      ((stTestValue (saTrigger a) - v) div - saDelta a + 1) * - saDelta a"
  shows "advance_alarm a v =
    (if s_min 64 \<le> n then (n, alarm_active) else (stTestValue (saTrigger a), alarm_inactive))"
proof -
  let ?t = "stTestValue (saTrigger a)"
  define d where "d = - saDelta a"
  let ?q = "(?t - v) div d"
  have n: "n = ?t - (?q + 1) * d" by (simp add: n_def d_def)
  have mag: "to_unsigned 64 (0 - to_unsigned 64 (saDelta a)) = d"
    using assms by (simp add: to_unsigned_def mod_minus_eq d_def) (auto simp: fits_signed_64)
  have dist: "nonnegative_distance ?t v = ?t - v"
    using assms by (intro nonnegative_distance_exact) auto
  have avail: "nonnegative_distance ?t (s_min 64) = ?t - s_min 64"
    using fits by (intro nonnegative_distance_exact) (auto simp: fits_signed_64 s_min_def)
  have bounds: "0 \<le> ?t - v" "?t - v < 2 ^ 64" "0 < d" "d < 2 ^ 64"
    using assms by (auto simp: fits_signed_64 d_def)
  note m = advance_movement [OF bounds]
  have "0 \<le> ?q" using bounds(1,3) by (simp add: pos_imp_zdiv_nonneg_iff)
  then have move: "0 \<le> (?q + 1) * d" using bounds(3) by simp
  have ne: "saDelta a \<noteq> 0" "d \<noteq> 0" using assms(6) by (simp_all add: d_def)
  show ?thesis
  proof (cases "s_min 64 \<le> n")
    case True
    then have le: "(?q + 1) * d \<le> ?t - s_min 64" by (simp add: n)
    moreover have "?t - s_min 64 < 2 ^ 64" using fits(1) by (simp add: fits_signed_64 s_min_def)
    ultimately have lt: "(?q + 1) * d < 2 ^ 64" by linarith
    have "fits_signed 64 n"
      using True fits(1) move unfolding fits_signed_def n by linarith
    then have "signed_from_bits (to_unsigned 64 (?t - (?q + 1) * d)) = n"
      by (simp add: n signed_from_bits_inverse)
    with m(1) m(2) [OF lt] True assms(1,2) ne le show ?thesis
      by (simp add: advance_alarm_def Let_def mag [simplified] dist avail to_unsigned_diff)
  next
    case False
    then have "?t - s_min 64 < (?q + 1) * d" by (simp add: n)
    with m(1) False assms(1,2) ne show ?thesis
      by (auto simp: advance_alarm_def Let_def mag [simplified] dist avail)
  qed
qed

text \<open>A comparison alarm that fires moves its test value by the least positive number of
  deltas that takes it strictly past the counter, and goes inactive, unmoved, exactly when that
  value is not a 64-bit one; none of the unsigned intermediate steps loses information.\<close>

theorem advance_alarm_least_step:
  assumes "saState a = alarm_active"
    and "fits_signed 64 (stTestValue (saTrigger a))" "fits_signed 64 (saDelta a)" "fits_signed 64 v"
    and "(stTestType (saTrigger a) = PositiveComparison \<and> 0 < saDelta a) \<or>
         (stTestType (saTrigger a) = NegativeComparison \<and> saDelta a < 0)"
    and "sync_trigger_fired (saTrigger a) old v"
  shows "\<exists>k > 0. let n = stTestValue (saTrigger a) + k * saDelta a
    in advance_alarm a v =
         (if fits_signed 64 n then (n, alarm_active) else (stTestValue (saTrigger a), alarm_inactive)) \<and>
       (if 0 < saDelta a then v < n \<and> n - saDelta a \<le> v else n < v \<and> v \<le> n - saDelta a)"
proof -
  let ?t = "stTestValue (saTrigger a)" and ?d = "saDelta a"
  from assms(5) show ?thesis
  proof
    assume pos: "stTestType (saTrigger a) = PositiveComparison \<and> 0 < ?d"
    let ?k = "(v - ?t) div ?d + 1"
    have fired: "?t \<le> v" using assms(6) pos by (simp add: sync_trigger_fired_def)
    have k: "0 < ?k" using fired pos by (simp add: pos_imp_zdiv_nonneg_iff add_pos_nonneg add.commute)
    have decomp: "?d * ((v - ?t) div ?d) + (v - ?t) mod ?d = v - ?t"
      and r: "0 \<le> (v - ?t) mod ?d" "(v - ?t) mod ?d < ?d"
      using pos by simp_all
    have n: "?t + ?k * ?d = ?t + ?d * ((v - ?t) div ?d) + ?d" by (simp add: algebra_simps)
    have step: "v < ?t + ?k * ?d" "?t + ?k * ?d - ?d \<le> v" unfolding n using decomp r by linarith+
    have "0 \<le> ?k * ?d" using k pos by simp
    then have "fits_signed 64 (?t + ?k * ?d) \<longleftrightarrow> ?t + ?k * ?d \<le> s_max 64"
      using assms(2) unfolding fits_signed_def by linarith
    with step k pos advance_alarm_positive [OF assms(1) _ assms(2-4) _ fired] show ?thesis
      by (intro exI [of _ ?k]) (simp add: Let_def)
  next
    assume neg: "stTestType (saTrigger a) = NegativeComparison \<and> ?d < 0"
    let ?k = "(?t - v) div - ?d + 1"
    have fired: "v \<le> ?t" using assms(6) neg by (simp add: sync_trigger_fired_def)
    have "0 \<le> (?t - v) div - ?d" using fired neg by (subst pos_imp_zdiv_nonneg_iff) auto
    then have k: "0 < ?k" by linarith
    have decomp: "- ?d * ((?t - v) div - ?d) + (?t - v) mod - ?d = ?t - v"
      by (rule mult_div_mod_eq)
    have r: "0 \<le> (?t - v) mod - ?d" "(?t - v) mod - ?d < - ?d"
      using neg by (auto intro!: pos_mod_sign pos_mod_bound)
    have n: "?t + ?k * ?d = ?t - (- ?d * ((?t - v) div - ?d)) + ?d" by (simp add: algebra_simps)
    have step: "?t + ?k * ?d < v" "v \<le> ?t + ?k * ?d - ?d" unfolding n using decomp r by linarith+
    have "?k * ?d \<le> 0" using k neg by (simp add: mult_le_0_iff)
    then have "fits_signed 64 (?t + ?k * ?d) \<longleftrightarrow> s_min 64 \<le> ?t + ?k * ?d"
      using assms(2) unfolding fits_signed_def by linarith
    with step k neg advance_alarm_negative [OF assms(1) _ assms(2-4) _ fired] show ?thesis
      by (intro exI [of _ ?k]) (simp add: Let_def)
  qed
qed

theorem advance_alarm_least_step_witness:
  "\<exists>k > 0. 10 < 3 + k * (4::int) \<and> 3 + k * 4 - 4 \<le> 10 \<and>
     advance_alarm \<lparr>saId = 1, saOwner = 2, saTrigger = \<lparr>stCounter = 3, stWaitValue = 3, stTestValue = 3,
        stValueType = 0, stTestType = PositiveComparison\<rparr>, saDelta = 4, saEventClients = [],
        saState = alarm_active\<rparr> 10 =
     (if fits_signed 64 (3 + k * 4) then (3 + k * 4, alarm_active) else (3, alarm_inactive))"
  using advance_alarm_least_step [where v = 10 and old = 0 and
      a = "\<lparr>saId = 1, saOwner = 2, saTrigger = \<lparr>stCounter = 3, stWaitValue = 3, stTestValue = 3,
        stValueType = 0, stTestType = PositiveComparison\<rparr>, saDelta = 4, saEventClients = [],
        saState = alarm_active\<rparr>"]
  by (auto simp: fits_signed_64 sync_trigger_fired_def Let_def)

subsection \<open>No client waits for what has already happened\<close>

definition condition_pending :: "server_state \<Rightarrow> sync_wait_condition \<Rightarrow> bool" where
  "condition_pending s condition \<longleftrightarrow>
     (case sync_counter s (stCounter (swTrigger condition)) of
        None \<Rightarrow> False
      | Some c \<Rightarrow> \<not> sync_trigger_fired (swTrigger condition) (scValue c) (scValue c))"

definition fence_pending :: "server_state \<Rightarrow> u32 \<Rightarrow> bool" where
  "fence_pending s rid \<longleftrightarrow>
     (case sync_fence s rid of None \<Rightarrow> False | Some f \<Rightarrow> \<not> sfTriggered f)"

text \<open>The tables hold their entries under their own identifiers; every waiting client waits for at
  least one condition, on counters that exist and none of which satisfies it, or for fences that
  exist and none of which is triggered; nobody waits for both.\<close>

definition sync_ok :: "server_state \<Rightarrow> bool" where
  "sync_ok s \<longleftrightarrow>
     umap_ok (ssSyncCounterWaits s) \<and> umap_ok (ssSyncFenceWaits s) \<and>
     (\<forall>rid c. sync_counter s rid = Some c \<longrightarrow> scId c = rid) \<and>
     (\<forall>client conditions. umap_find client (ssSyncCounterWaits s) = Some conditions \<longrightarrow>
        conditions \<noteq> [] \<and> (\<forall>c \<in> set conditions. condition_pending s c) \<and>
        \<not> umap_contains client (ssSyncFenceWaits s)) \<and>
     (\<forall>client fences. umap_find client (ssSyncFenceWaits s) = Some fences \<longrightarrow>
        fences \<noteq> [] \<and> (\<forall>rid \<in> set fences. fence_pending s rid))"

lemma not_fired_at_new_value:
  "\<not> sync_trigger_fired t old v \<Longrightarrow> \<not> sync_trigger_fired t v v"
  by (auto simp: sync_trigger_fired_def split: sync_test_type.splits)

lemma revise_fold_frame:
  defines "put \<equiv> \<lambda>alarm s. if umap_contains (saId alarm) (ssSyncAlarms s)
      then s\<lparr>ssSyncAlarms := umap_put (saId alarm) alarm (ssSyncAlarms s)\<rparr> else (s :: server_state)"
  shows "\<exists>m. fold put alarms s = s\<lparr>ssSyncAlarms := m\<rparr>"
proof (induction alarms arbitrary: s)
  case Nil
  show ?case by (rule exI [of _ "ssSyncAlarms s"]) simp
next
  case (Cons a alarms)
  obtain m where "fold put alarms (put a s) = (put a s)\<lparr>ssSyncAlarms := m\<rparr>" using Cons by blast
  then have "fold put (a # alarms) s = s\<lparr>ssSyncAlarms := m\<rparr>" by (simp add: put_def split: if_splits)
  then show ?case by blast
qed

lemma update_sync_counter_Updated:
  assumes "update_sync_counter counter value destroying s = (Updated, s')"
  shows "sync_fence s' = sync_fence s" "ssSyncFenceWaits s' = ssSyncFenceWaits s"
    "ssSyncCounterWaits s' = fold umap_erase (map fst (completed_waits s counter value destroying))
        (ssSyncCounterWaits s)"
    "ssSyncCounters s' = (if destroying then ssSyncCounters s
        else umap_put (scId counter) (counter\<lparr>scValue := value\<rparr>) (ssSyncCounters s))"
    "ssResources s' = ssResources s"
proof -
  let ?put = "\<lambda>alarm s. if umap_contains (saId alarm) (ssSyncAlarms s)
      then s\<lparr>ssSyncAlarms := umap_put (saId alarm) alarm (ssSyncAlarms s)\<rparr> else (s :: server_state)"
  let ?rev = "List.map_filter (\<lambda>e. revise_alarm s counter value destroying (snd e)) (ssSyncAlarms s)"
  let ?ev = "concat (map snd ?rev) @ concat (map (\<lambda>(client, conditions). number_notifications s client
      (List.map_filter (wait_notification s counter value destroying) conditions))
        (completed_waits s counter value destroying))"
  obtain b s1 where q: "queue_events_atomically ?ev s = (b, s1)" by (rule prod.exhaust)
  then have "s1 = snd (queue_events_atomically ?ev s)" by simp
  then have s1: "ssSyncFences s1 = ssSyncFences s" "ssSyncFenceWaits s1 = ssSyncFenceWaits s"
    "ssSyncCounterWaits s1 = ssSyncCounterWaits s" "ssSyncCounters s1 = ssSyncCounters s"
    "ssResources s1 = ssResources s"
    by (simp_all only: queue_events_frame)
  obtain m where m: "fold ?put (map fst ?rev) s1 = s1\<lparr>ssSyncAlarms := m\<rparr>"
    using revise_fold_frame by blast
  have s': "s' = (let s2 = s1\<lparr>ssSyncAlarms := m\<rparr>;
      s3 = s2\<lparr>ssSyncCounterWaits := fold umap_erase (map fst (completed_waits s counter value destroying))
                (ssSyncCounterWaits s2)\<rparr>
      in if destroying then s3
         else s3\<lparr>ssSyncCounters := umap_put (scId counter) (counter\<lparr>scValue := value\<rparr>) (ssSyncCounters s3)\<rparr>)"
    using assms q m by (auto simp: update_sync_counter_def Let_def split: if_splits)
  then show "sync_fence s' = sync_fence s" "ssSyncFenceWaits s' = ssSyncFenceWaits s"
    "ssSyncCounterWaits s' = fold umap_erase (map fst (completed_waits s counter value destroying))
        (ssSyncCounterWaits s)"
    "ssSyncCounters s' = (if destroying then ssSyncCounters s
        else umap_put (scId counter) (counter\<lparr>scValue := value\<rparr>) (ssSyncCounters s))"
    "ssResources s' = ssResources s"
    by (simp_all add: Let_def sync_fence_def fun_eq_iff s1)
qed

lemma update_sync_counter_refused:
  assumes "queues_ok s" "update_sync_counter counter value destroying s = (r, s')" "r \<noteq> Updated"
  shows "s' = s \<and> r = UpdateQueueFull"
  using assms
  by (auto simp: update_sync_counter_def Let_def split: if_splits prod.splits
      dest: queues.refused [OF assms(1)])

lemma umap_find_completed:
  assumes "umap_ok (ssSyncCounterWaits s)"
  shows "umap_find client (fold umap_erase (map fst (completed_waits s counter value destroying))
      (ssSyncCounterWaits s)) = Some conditions \<longleftrightarrow>
    umap_find client (ssSyncCounterWaits s) = Some conditions \<and>
    \<not> wait_fired counter value destroying conditions"
proof -
  have "client \<in> set (map fst (completed_waits s counter value destroying)) \<longleftrightarrow>
      (\<exists>cs. umap_find client (ssSyncCounterWaits s) = Some cs \<and> wait_fired counter value destroying cs)"
    using assms by (force simp: completed_waits_def umap_find_in)
  then show ?thesis by (auto simp: umap_find_fold_erase)
qed

lemma set_sync_counter_ok:
  assumes "sync_ok s" "sync_counter s (scId counter) = Some counter"
    and "set_sync_counter counter value s = (Updated, s')"
  shows "sync_ok s'"
proof -
  note run = update_sync_counter_Updated [OF assms(3) [unfolded set_sync_counter_def]]
  have counters: "sync_counter s' rid = (if rid = scId counter then Some (counter\<lparr>scValue := value\<rparr>)
      else sync_counter s rid)" for rid
    using run(4) by (simp add: sync_counter_def)
  have waits: "umap_find client (ssSyncCounterWaits s') = Some cs \<longleftrightarrow>
      umap_find client (ssSyncCounterWaits s) = Some cs \<and> \<not> wait_fired counter value False cs" for client cs
    using assms(1) run(3) by (simp add: umap_find_completed sync_ok_def)
  have pending: "condition_pending s' c"
    if "condition_pending s c" "c \<in> set cs" "\<not> wait_fired counter value False cs" for c cs
  proof (cases "stCounter (swTrigger c) = scId counter")
    case True
    then have "\<not> sync_trigger_fired (swTrigger c) (scValue counter) value"
      using that(2,3) by (auto simp: wait_fired_def list_ex_iff)
    then show ?thesis using True not_fired_at_new_value by (simp add: condition_pending_def counters)
  next
    case False
    then show ?thesis using that(1) by (simp add: condition_pending_def counters)
  qed
  have "umap_ok (ssSyncCounterWaits s')" using assms(1) run(3) by (simp add: sync_ok_def)
  with assms(1) pending show ?thesis
    using run(1,2) by (auto simp: sync_ok_def counters waits fence_pending_def)
qed

lemma erase_sync_counter_ok:
  assumes "sync_ok s" "erase_sync_counter rid s = (Updated, s')"
  shows "sync_ok s'"
proof -
  obtain counter s1 where c: "sync_counter s rid = Some counter"
    and up: "update_sync_counter counter 0 True s = (Updated, s1)"
    and s': "s' = unregister rid (s1\<lparr>ssSyncCounters := umap_erase rid (ssSyncCounters s1)\<rparr>)"
    using assms(2) by (auto simp: erase_sync_counter_def split: option.splits prod.splits if_splits)
  note run = update_sync_counter_Updated [OF up]
  have cid: "scId counter = rid" using assms(1) c by (auto simp: sync_ok_def)
  have counters: "sync_counter s' q = (if q = rid then None else sync_counter s q)" for q
    using run(4) by (simp add: s' unregister_def sync_counter_def)
  have waits: "umap_find client (ssSyncCounterWaits s') = Some cs \<longleftrightarrow>
      umap_find client (ssSyncCounterWaits s) = Some cs \<and> \<not> wait_fired counter 0 True cs" for client cs
    using assms(1) run(3) by (simp add: s' unregister_def umap_find_completed sync_ok_def)
  have pending: "condition_pending s' c"
    if "condition_pending s c" "c \<in> set cs" "\<not> wait_fired counter 0 True cs" for c cs
    using that cid by (auto simp: wait_fired_def list_ex_iff condition_pending_def counters)
  have "umap_ok (ssSyncCounterWaits s')" "ssSyncFenceWaits s' = ssSyncFenceWaits s"
    "sync_fence s' = sync_fence s"
    using assms(1) run by (simp_all add: s' unregister_def sync_ok_def sync_fence_def fun_eq_iff)
  with assms(1) pending show ?thesis
    by (auto simp: sync_ok_def counters waits fence_pending_def)
qed

lemma sync_ok_cong:
  assumes "sync_ok s" "ssSyncCounters s' = ssSyncCounters s" "ssSyncFences s' = ssSyncFences s"
    "ssSyncCounterWaits s' = ssSyncCounterWaits s" "ssSyncFenceWaits s' = ssSyncFenceWaits s"
  shows "sync_ok s'"
  using assms by (simp add: sync_ok_def condition_pending_def fence_pending_def sync_counter_def
      sync_fence_def)

lemma sync_waiting_False:
  "\<not> sync_waiting s client \<Longrightarrow>
   umap_find client (ssSyncCounterWaits s) = None \<and> umap_find client (ssSyncFenceWaits s) = None"
  by (simp add: sync_waiting_def umap_contains_def)

lemma begin_sync_counter_await_ok:
  assumes ok: "sync_ok s"
  shows "sync_ok (snd (begin_sync_counter_await client conditions s))"
proof -
  let ?fired = "list_ex (\<lambda>c. case sync_counter s (stCounter (swTrigger c)) of None \<Rightarrow> False
      | Some k \<Rightarrow> sync_trigger_fired (swTrigger c) (scValue k) (scValue k)) conditions"
  let ?missing = "list_ex (\<lambda>c. sync_counter s (stCounter (swTrigger c)) = None) conditions"
  show ?thesis
  proof (cases "conditions = [] \<or> maximum_sync_wait_conditions < length conditions \<or>
      sync_waiting s client \<or> ?missing \<or> ?fired")
    case True
    have "sync_ok (snd (queue_events_atomically es s))" for es
      by (rule sync_ok_cong [OF ok]) simp_all
    with True ok show ?thesis
      by (auto simp: begin_sync_counter_await_def Let_def case_prod_beta)
  next
    case False
    have pend: "condition_pending s c" if "c \<in> set conditions" for c
      using False that by (auto simp: condition_pending_def list_ex_iff split: option.splits)
    have no: "umap_find client (ssSyncCounterWaits s) = None" "umap_find client (ssSyncFenceWaits s) = None"
      using False sync_waiting_False by blast+
    have "begin_sync_counter_await client conditions s = (Updated, s\<lparr>ssSyncCounterWaits :=
        fst (umap_emplace client conditions (ssSyncCounterWaits s))\<rparr>)"
      using False by (simp add: begin_sync_counter_await_def)
    with ok pend no False show ?thesis
      by (auto simp: sync_ok_def umap_find_emplace umap_contains_def condition_pending_def
          fence_pending_def sync_counter_def sync_fence_def)
  qed
qed

lemma check_fences_None: "check_fences s fences = None \<longleftrightarrow> (\<forall>rid \<in> set fences. fence_pending s rid)"
  by (induction s fences rule: check_fences.induct) (auto simp: fence_pending_def split: option.splits)

lemma begin_sync_fence_await_ok:
  assumes "sync_ok s"
  shows "sync_ok (snd (begin_sync_fence_await client fences s))"
proof (cases "fences = [] \<or> maximum_sync_wait_conditions < length fences \<or> sync_waiting s client \<or>
    check_fences s fences \<noteq> None")
  case True
  with assms show ?thesis by (auto simp: begin_sync_fence_await_def)
next
  case False
  then have "umap_find client (ssSyncCounterWaits s) = None" "umap_find client (ssSyncFenceWaits s) = None"
    using sync_waiting_False by blast+
  with assms False show ?thesis
    by (auto simp: begin_sync_fence_await_def sync_ok_def umap_find_emplace umap_contains_def
        condition_pending_def fence_pending_def sync_counter_def sync_fence_def check_fences_None
        split: option.splits)
qed

text \<open>A fence step changes one fence and releases the waits it must.\<close>

lemma fence_step_ok:
  assumes ok: "sync_ok s" and "ssSyncCounters s' = ssSyncCounters s"
    and "ssSyncCounterWaits s' = ssSyncCounterWaits s"
    and "ssSyncFenceWaits s' = umap_erase_if (\<lambda>_ fences. rid \<in> set fences) (ssSyncFenceWaits s)"
    and "\<And>q. q \<noteq> rid \<Longrightarrow> sync_fence s' q = sync_fence s q"
  shows "sync_ok s'"
proof -
  have fw: "umap_find client (ssSyncFenceWaits s') = Some fences \<longleftrightarrow>
      umap_find client (ssSyncFenceWaits s) = Some fences \<and> rid \<notin> set fences" for client fences
    using ok assms(4) by (auto simp: sync_ok_def umap_find_erase_if split: option.splits)
  have c: "umap_contains client (ssSyncFenceWaits s') \<Longrightarrow> umap_contains client (ssSyncFenceWaits s)" for client
    using fw by (auto simp: umap_contains_def)
  have p: "fence_pending s' q = fence_pending s q" if "q \<noteq> rid" for q
    using assms(5) [OF that] by (simp add: fence_pending_def)
  have "sync_counter s' = sync_counter s" by (simp add: fun_eq_iff sync_counter_def assms(2))
  then have "condition_pending s' = condition_pending s"
    by (simp add: fun_eq_iff condition_pending_def)
  note eq = this \<open>sync_counter s' = sync_counter s\<close> assms(3)
  show ?thesis
    unfolding sync_ok_def
  proof (intro conjI allI impI)
    show "umap_ok (ssSyncCounterWaits s')" "umap_ok (ssSyncFenceWaits s')"
      using ok assms(3,4) by (simp_all add: sync_ok_def)
    show "scId k = q" if "sync_counter s' q = Some k" for q k
      using that ok by (simp add: sync_ok_def eq)
    fix client conditions
    assume w: "umap_find client (ssSyncCounterWaits s') = Some conditions"
    with ok have "conditions \<noteq> [] \<and> (\<forall>k \<in> set conditions. condition_pending s k) \<and>
        \<not> umap_contains client (ssSyncFenceWaits s)"
      by (simp add: sync_ok_def eq)
    then show "conditions \<noteq> []" "\<forall>k \<in> set conditions. condition_pending s' k"
      "\<not> umap_contains client (ssSyncFenceWaits s')"
      using c by (auto simp: eq)
  next
    fix client fences
    assume "umap_find client (ssSyncFenceWaits s') = Some fences"
    then have "umap_find client (ssSyncFenceWaits s) = Some fences" "rid \<notin> set fences" using fw by blast+
    with ok have "fences \<noteq> []" "\<forall>q \<in> set fences. fence_pending s q"
      by (auto simp: sync_ok_def)
    with \<open>rid \<notin> set fences\<close> show "fences \<noteq> []" "\<forall>q \<in> set fences. fence_pending s' q"
      using p by metis+
  qed
qed

lemma trigger_sync_fence_ok:
  assumes "sync_ok s"
  shows "sync_ok (snd (trigger_sync_fence rid s))"
proof (cases "sync_fence s rid")
  case None
  with assms show ?thesis by (simp add: trigger_sync_fence_def)
next
  case (Some f)
  have "sync_ok (release_fence_waits rid
      (s\<lparr>ssSyncFences := umap_put rid (f\<lparr>sfTriggered := True\<rparr>) (ssSyncFences s)\<rparr>))"
    by (rule fence_step_ok [OF assms, where rid = rid])
      (simp_all add: release_fence_waits_def sync_fence_def)
  with Some show ?thesis by (simp add: trigger_sync_fence_def)
qed

lemma erase_sync_fence_ok:
  assumes "sync_ok s"
  shows "sync_ok (snd (erase_sync_fence rid s))"
proof -
  have "sync_ok (unregister rid ((release_fence_waits rid s)
      \<lparr>ssSyncFences := umap_erase rid (ssSyncFences (release_fence_waits rid s))\<rparr>))"
    by (rule fence_step_ok [OF assms, where rid = rid])
      (simp_all add: release_fence_waits_def sync_fence_def unregister_def)
  with assms show ?thesis by (simp add: erase_sync_fence_def Let_def)
qed

lemma reset_sync_fence_ok:
  assumes "sync_ok s"
  shows "sync_ok (snd (reset_sync_fence rid s))"
proof -
  have "fence_pending (s\<lparr>ssSyncFences := umap_put rid (f\<lparr>sfTriggered := False\<rparr>) (ssSyncFences s)\<rparr>) q"
    if "fence_pending s q" for f q
    using that by (auto simp: fence_pending_def sync_fence_def)
  with assms show ?thesis
    by (auto simp: reset_sync_fence_def sync_ok_def condition_pending_def sync_counter_def
        split: option.split)
qed

lemma add_sync_counter_ok:
  assumes "resources_ok s" "sync_ok s"
  shows "sync_ok (snd (add_sync_counter c owner s))"
proof (cases "scId c = 0 \<or> resource_exists s (scId c)")
  case True
  with assms show ?thesis by (simp add: add_sync_counter_run)
next
  case False
  then have new: "\<not> umap_contains (scId c) (ssSyncCounters s)"
    using not_contained [OF assms(1), of "scId c" KSyncCounter "ssSyncCounters s"] by simp
  let ?s = "registered (scId c) KSyncCounter owner s\<lparr>ssSyncCounters := ssSyncCounters s @ [(scId c, c)]\<rparr>"
  have find: "sync_counter ?s q = (if q = scId c then Some c else sync_counter s q)" for q
    using new by (simp add: sync_counter_def umap_find_snoc)
  have "sync_counter s (scId c) = None" using new by (simp add: sync_counter_def umap_contains_def)
  then have "condition_pending ?s k" if "condition_pending s k" for k
    using that by (auto simp: condition_pending_def find)
  with assms(2) have "sync_ok ?s"
    unfolding sync_ok_def find by (auto simp: fence_pending_def sync_fence_def registered_def)
  with False assms(1) show ?thesis by (simp add: add_sync_counter_run)
qed

lemma add_sync_fence_ok:
  assumes "resources_ok s" "sync_ok s"
  shows "sync_ok (snd (add_sync_fence f owner s))"
proof (cases "sfId f = 0 \<or> resource_exists s (sfId f)")
  case True
  with assms show ?thesis by (simp add: add_sync_fence_run)
next
  case False
  then have new: "\<not> umap_contains (sfId f) (ssSyncFences s)"
    using not_contained [OF assms(1), of "sfId f" KSyncFence "ssSyncFences s"] by simp
  let ?s = "registered (sfId f) KSyncFence owner s\<lparr>ssSyncFences := ssSyncFences s @ [(sfId f, f)]\<rparr>"
  have find: "sync_fence ?s q = (if q = sfId f then Some f else sync_fence s q)" for q
    using new by (simp add: sync_fence_def umap_find_snoc)
  have "sync_fence s (sfId f) = None" using new by (simp add: sync_fence_def umap_contains_def)
  then have "fence_pending ?s k" if "fence_pending s k" for k
    using that by (auto simp: fence_pending_def find)
  with assms(2) have "sync_ok ?s"
    by (auto simp: sync_ok_def condition_pending_def sync_counter_def registered_def)
  with False assms(1) show ?thesis by (simp add: add_sync_fence_run)
qed

lemma set_sync_counter_keeps:
  assumes "queues_ok s" "sync_ok s" "sync_counter s (scId counter) = Some counter"
  shows "sync_ok (snd (set_sync_counter counter value s))"
proof (cases "set_sync_counter counter value s")
  case (Pair r s')
  show ?thesis
  proof (cases "r = Updated")
    case True
    with Pair set_sync_counter_ok [OF assms(2,3)] show ?thesis by simp
  next
    case False
    with Pair update_sync_counter_refused [OF assms(1), where r = r and s' = s'] assms(2)
    show ?thesis by (auto simp: set_sync_counter_def)
  qed
qed

lemma erase_sync_counter_keeps:
  assumes "queues_ok s" "sync_ok s"
  shows "sync_ok (snd (erase_sync_counter rid s))"
proof (cases "erase_sync_counter rid s")
  case (Pair r s')
  show ?thesis
  proof (cases "r = Updated")
    case True
    with Pair erase_sync_counter_ok [OF assms(2)] show ?thesis by simp
  next
    case False
    with Pair assms(2) have "s' = s"
      by (auto simp: erase_sync_counter_def split: option.splits prod.splits if_splits
          dest: update_sync_counter_refused [OF assms(1)])
    with Pair assms(2) show ?thesis by simp
  qed
qed


lemma initial_sync_ok: "sync_ok (initial_state w h n)"
  by (simp add: sync_ok_def initial_state_def sync_counter_def)

lemma initial_queues_ok: "queues_ok (initial_state w h n)"
  by (simp add: queues_ok_def initial_state_def umap_sum_def)


subsection \<open>What setting a counter does\<close>

abbreviation put_alarm :: "sync_alarm_record \<Rightarrow> server_state \<Rightarrow> server_state" where
  "put_alarm alarm s \<equiv> (if umap_contains (saId alarm) (ssSyncAlarms s)
     then s\<lparr>ssSyncAlarms := umap_put (saId alarm) alarm (ssSyncAlarms s)\<rparr> else s)"

lemma revise_alarm_id: "revise_alarm s c v d a = Some (a', es) \<Longrightarrow> saId a' = saId a"
  by (auto simp: revise_alarm_def Let_def split: if_splits prod.splits)

text \<open>Writing back the revisions of the alarms of a table replaces exactly the revised entries.\<close>

lemma put_revisions:
  fixes rev :: "sync_alarm_record \<Rightarrow> sync_alarm_record option"
  assumes "\<And>a a'. rev a = Some a' \<Longrightarrow> saId a' = saId a"
    and "\<forall>(k, a) \<in> set m. saId a = k" "distinct (map fst m)"
    and "fst ` set m \<subseteq> fst ` set (ssSyncAlarms s)"
  shows "umap_find k (ssSyncAlarms (fold put_alarm (List.map_filter (\<lambda>e. rev (snd e)) m) s)) =
    (case map_of m k of
       Some a \<Rightarrow> (case rev a of Some a' \<Rightarrow> Some a' | None \<Rightarrow> umap_find k (ssSyncAlarms s))
     | None \<Rightarrow> umap_find k (ssSyncAlarms s))"
  using assms(2-4)
proof (induction m arbitrary: s)
  case Nil
  then show ?case by (simp add: map_filter_simps)
next
  case (Cons e m)
  obtain j a where e: "e = (j, a)" by (cases e)
  show ?case
  proof (cases "rev a")
    case None
    have "map_of m j = None" using Cons.prems(2) e by (simp add: map_of_eq_None_iff)
    with None Cons e show ?thesis by (simp add: map_filter_simps)
  next
    case (Some a')
    have id: "saId a' = j" using assms(1) [OF Some] Cons.prems(1) e by simp
    have c: "umap_contains j (ssSyncAlarms s)" using Cons.prems(3) e by (simp add: umap_contains_keys)
    let ?s = "s\<lparr>ssSyncAlarms := umap_put j a' (ssSyncAlarms s)\<rparr>"
    have "fst ` set m \<subseteq> fst ` set (ssSyncAlarms ?s)"
      using Cons.prems(3) by (auto simp: keys_put)
    with Cons.prems have ih: "umap_find k (ssSyncAlarms (fold put_alarm (List.map_filter (\<lambda>e. rev (snd e)) m) ?s)) =
      (case map_of m k of
         Some a \<Rightarrow> (case rev a of Some a' \<Rightarrow> Some a' | None \<Rightarrow> umap_find k (ssSyncAlarms ?s))
       | None \<Rightarrow> umap_find k (ssSyncAlarms ?s))"
      by (intro Cons.IH) simp_all
    have "map_of m j = None" using Cons.prems(2) e by (simp add: map_of_eq_None_iff)
    with ih Some id c e show ?thesis
      by (simp add: map_filter_simps split: option.splits)
  qed
qed



end
