(* ===== verification/Passive_Grabs.thy ===== *)
theory Passive_Grabs
  imports Server_Model
begin

text \<open>
  Passive grabs (\<^verbatim>\<open>src/server/server_state.cpp\<close>: \<open>overlaps\<close>, \<open>append_without\<close>,
  \<open>passive_grab_details\<close>, \<open>passive_grab_modifiers\<close>, \<open>add_passive_grab\<close>, \<open>remove_passive_grab\<close>).
  A grab covers the product of a set of details (keys or buttons) and a set of modifier
  combinations, both kept as 256-bit sets.  Adding or removing a grab splits the grabs it overlaps.
  The specification is the partial function from a detail and a combination to the grab that is in
  force there; the invariant is that the stored products do not overlap.
\<close>

definition minimum_keycode :: nat where "minimum_keycode = 8"

definition passive_grab_details :: "passive_grab_kind \<Rightarrow> u8 \<Rightarrow> passive_grab_domain" where
  "passive_grab_details kind detail =
     (if detail \<noteq> 0 then set_bit (unat detail) 0
      else let result = unset_bit 0 (- 1)
           in if kind = GrabsKey then fold unset_bit [1..<minimum_keycode] result else result)"

definition passive_grab_modifiers :: "u16 \<Rightarrow> passive_grab_domain" where
  "passive_grab_modifiers modifiers =
     (if modifiers = any_modifier then - 1
      else if modifiers \<le> all_modifiers_mask then set_bit (unat modifiers) 0
      else 0)"

definition overlaps :: "passive_grab \<Rightarrow> passive_grab_domain \<Rightarrow> passive_grab_domain \<Rightarrow> bool" where
  "overlaps grab details modifiers \<longleftrightarrow>
     (pgDetails grab AND details) \<noteq> 0 \<and> (pgModifiers grab AND modifiers) \<noteq> 0"

text \<open>The grabs that remain of one when a product is taken out of it, at the end of
  \<open>destination\<close>; \<open>None\<close> when the table is full.\<close>

definition append_without ::
  "passive_grab list \<Rightarrow> passive_grab \<Rightarrow> passive_grab_domain \<Rightarrow> passive_grab_domain \<Rightarrow>
     passive_grab list option" where
  "append_without destination grab removed_details removed_modifiers =
     (let retained_details = pgDetails grab AND NOT removed_details;
          first = (if retained_details \<noteq> 0
                   then if length destination = maximum_passive_grabs then None
                        else Some (destination @ [grab\<lparr>pgDetails := retained_details\<rparr>])
                   else Some destination);
          intersecting_details = pgDetails grab AND removed_details;
          retained_modifiers = pgModifiers grab AND NOT removed_modifiers
      in case first of
           None \<Rightarrow> None
         | Some destination \<Rightarrow>
             if intersecting_details \<noteq> 0 \<and> retained_modifiers \<noteq> 0
             then if length destination = maximum_passive_grabs then None
                  else Some (destination @ [grab\<lparr>pgDetails := intersecting_details,
                                                 pgModifiers := retained_modifiers\<rparr>])
             else Some destination)"

text \<open>The loop both operations share: every grab of the owner on the window that overlaps the
  product is split, the others are copied.\<close>

fun revise_grabs ::
  "passive_grab_kind \<Rightarrow> u32 \<Rightarrow> u32 \<Rightarrow> passive_grab_domain \<Rightarrow> passive_grab_domain \<Rightarrow>
     passive_grab list \<Rightarrow> passive_grab list \<Rightarrow> passive_grab list option" where
  "revise_grabs kind owner w details modifiers revised [] = Some revised"
| "revise_grabs kind owner w details modifiers revised (existing # rest) =
     (case (if pgKind existing = kind \<and> pgWindow existing = w \<and> pgOwner existing = owner \<and>
               overlaps existing details modifiers
            then append_without revised existing details modifiers
            else if length revised = maximum_passive_grabs then None
            else Some (revised @ [existing])) of
        None \<Rightarrow> None
      | Some revised' \<Rightarrow> revise_grabs kind owner w details modifiers revised' rest)"

definition owned_grabs :: "u32 \<Rightarrow> passive_grab list \<Rightarrow> nat" where
  "owned_grabs owner grabs = length (filter (\<lambda>g. pgOwner g = owner) grabs)"

definition add_passive_grab :: "passive_grab \<Rightarrow> server_state \<Rightarrow> passive_grab_update \<times> server_state" where
  "add_passive_grab added s =
     (if pgDetails added = 0 \<or> pgModifiers added = 0 then (GrabResourceExhausted, s)
      else if list_ex (\<lambda>e. pgKind e = pgKind added \<and> pgWindow e = pgWindow added \<and>
                 pgOwner e \<noteq> pgOwner added \<and> overlaps e (pgDetails added) (pgModifiers added))
                (ssPassiveGrabs s) then (GrabAccessDenied, s)
      else case revise_grabs (pgKind added) (pgOwner added) (pgWindow added) (pgDetails added)
                  (pgModifiers added) [] (ssPassiveGrabs s) of
             None \<Rightarrow> (GrabResourceExhausted, s)
           | Some revised \<Rightarrow>
               if length revised = maximum_passive_grabs then (GrabResourceExhausted, s)
               else if maximum_passive_grabs_per_client < owned_grabs (pgOwner added) (revised @ [added])
               then (GrabResourceExhausted, s)
               else (GrabUpdated, s\<lparr>ssPassiveGrabs := revised @ [added]\<rparr>))"

definition remove_passive_grab ::
  "passive_grab_kind \<Rightarrow> u32 \<Rightarrow> u32 \<Rightarrow> passive_grab_domain \<Rightarrow> passive_grab_domain \<Rightarrow> server_state \<Rightarrow>
     passive_grab_update \<times> server_state" where
  "remove_passive_grab kind owner w details modifiers s =
     (case revise_grabs kind owner w details modifiers [] (ssPassiveGrabs s) of
        None \<Rightarrow> (GrabResourceExhausted, s)
      | Some revised \<Rightarrow>
          if maximum_passive_grabs_per_client < owned_grabs owner revised
          then (GrabResourceExhausted, s)
          else (GrabUpdated, s\<lparr>ssPassiveGrabs := revised\<rparr>))"

subsection \<open>The grab in force\<close>

definition covers :: "passive_grab \<Rightarrow> passive_grab_kind \<Rightarrow> u32 \<Rightarrow> nat \<Rightarrow> nat \<Rightarrow> bool" where
  "covers g kind w detail combination \<longleftrightarrow>
     pgKind g = kind \<and> pgWindow g = w \<and> bit (pgDetails g) detail \<and> bit (pgModifiers g) combination"

text \<open>What a grab does when it is activated: everything but where it applies.\<close>

definition grab_terms :: "passive_grab \<Rightarrow> passive_grab" where
  "grab_terms g = g\<lparr>pgDetails := 0, pgModifiers := 0\<rparr>"

definition grab_at :: "passive_grab list \<Rightarrow> passive_grab_kind \<Rightarrow> u32 \<Rightarrow> nat \<Rightarrow> nat \<Rightarrow> passive_grab option" where
  "grab_at grabs kind w detail combination =
     map_option grab_terms (List.find (\<lambda>g. covers g kind w detail combination) grabs)"

text \<open>The stored products are non-empty, pairwise disjoint, and within both limits.\<close>

definition grabs_ok :: "passive_grab list \<Rightarrow> bool" where
  "grabs_ok grabs \<longleftrightarrow>
     (\<forall>g \<in> set grabs. pgDetails g \<noteq> 0 \<and> pgModifiers g \<noteq> 0) \<and>
     sorted_wrt (\<lambda>g h. \<forall>kind w d m. \<not> (covers g kind w d m \<and> covers h kind w d m)) grabs \<and>
     length grabs \<le> maximum_passive_grabs"

lemma bit_domain_less: "bit (b :: 256 word) n \<Longrightarrow> n < 256"
  by (drule bit_imp_le_length) simp

lemma domain_nonempty: "(a :: 256 word) \<noteq> 0 \<longleftrightarrow> (\<exists>n. bit a n)"
  by (auto simp: bit_eq_iff dest: bit_domain_less)

lemma domain_meets: "(a AND b) \<noteq> (0 :: 256 word) \<longleftrightarrow> (\<exists>n. bit a n \<and> bit b n)"
  by (simp add: domain_nonempty bit_and_iff)

lemma bit_not_domain: "bit (NOT b) n \<longleftrightarrow> n < 256 \<and> \<not> bit (b :: 256 word) n"
  by (simp add: bit_not_iff)

lemma overlaps_iff:
  "overlaps g d m \<longleftrightarrow> (\<exists>n. bit (pgDetails g) n \<and> bit d n) \<and> (\<exists>n. bit (pgModifiers g) n \<and> bit m n)"
  by (simp add: overlaps_def domain_meets)

lemma grab_at_append:
  "grab_at (xs @ ys) k w d m = (case grab_at xs k w d m of Some p \<Rightarrow> Some p | None \<Rightarrow> grab_at ys k w d m)"
  by (induction xs) (auto simp: grab_at_def)

lemma grab_at_Cons:
  "grab_at (g # gs) k w d m = (if covers g k w d m then Some (grab_terms g) else grab_at gs k w d m)"
  by (simp add: grab_at_def)

lemma grab_at_Nil [simp]: "grab_at [] k w d m = None"
  by (simp add: grab_at_def)

lemma grab_at_None: "grab_at gs k w d m = None \<longleftrightarrow> (\<forall>g \<in> set gs. \<not> covers g k w d m)"
  by (auto simp: grab_at_def find_None_iff)

lemma grab_terms_fields [simp]:
  "pgOwner (grab_terms g) = pgOwner g" "pgKind (grab_terms g) = pgKind g" "pgWindow (grab_terms g) = pgWindow g"
  by (simp_all add: grab_terms_def)

subsection \<open>Taking a product out of a grab\<close>

text \<open>The pieces \<open>append_without\<close> leaves.\<close>

definition grab_pieces :: "passive_grab \<Rightarrow> passive_grab_domain \<Rightarrow> passive_grab_domain \<Rightarrow> passive_grab list" where
  "grab_pieces g d m =
     (if pgDetails g AND NOT d \<noteq> 0 then [g\<lparr>pgDetails := pgDetails g AND NOT d\<rparr>] else []) @
     (if pgDetails g AND d \<noteq> 0 \<and> pgModifiers g AND NOT m \<noteq> 0
      then [g\<lparr>pgDetails := pgDetails g AND d, pgModifiers := pgModifiers g AND NOT m\<rparr>] else [])"

lemma append_without_pieces:
  "append_without dest g d m = Some dest' \<Longrightarrow> dest' = dest @ grab_pieces g d m"
  by (auto simp: append_without_def grab_pieces_def Let_def split: if_splits)

lemma append_without_bound:
  "append_without dest g d m = Some dest' \<Longrightarrow> length dest \<le> maximum_passive_grabs \<Longrightarrow>
   length dest' \<le> maximum_passive_grabs"
  by (auto simp: append_without_def Let_def split: if_splits)

lemma covers_pieces:
  "(\<exists>h \<in> set (grab_pieces g d m). covers h k w x y) \<longleftrightarrow>
     covers g k w x y \<and> \<not> (bit d x \<and> bit m y)"
proof (cases "covers g k w x y")
  case False
  then show ?thesis by (auto simp: grab_pieces_def covers_def bit_and_iff)
next
  case True
  then have b: "bit (pgDetails g) x" "bit (pgModifiers g) y" "x < 256" "y < 256"
    by (auto simp: covers_def dest: bit_domain_less)
  then have "pgDetails g AND NOT d \<noteq> 0" if "\<not> bit d x"
    using that by (auto simp: domain_meets bit_not_domain)
  moreover have "pgDetails g AND d \<noteq> 0 \<and> pgModifiers g AND NOT m \<noteq> 0" if "bit d x" "\<not> bit m y"
    using that b by (auto simp: domain_meets bit_not_domain)
  ultimately show ?thesis
    using True b by (cases "bit d x") (auto simp: grab_pieces_def covers_def bit_and_iff bit_not_domain)
qed

lemma grab_at_pieces:
  "grab_at (grab_pieces g d m) k w x y =
     (if covers g k w x y \<and> \<not> (bit d x \<and> bit m y) then Some (grab_terms g) else None)"
proof (cases "grab_at (grab_pieces g d m) k w x y")
  case None
  with covers_pieces [of g d m k w x y] show ?thesis by (auto simp: grab_at_None)
next
  case (Some p)
  then have "grab_at (grab_pieces g d m) k w x y \<noteq> None" by simp
  then have "\<exists>h \<in> set (grab_pieces g d m). covers h k w x y" unfolding grab_at_None by blast
  moreover have "p = grab_terms g"
    using Some by (auto simp: grab_pieces_def grab_at_Cons grab_terms_def split: if_splits)
  ultimately show ?thesis using Some covers_pieces by auto
qed

lemma pieces_ok:
  "pgModifiers g \<noteq> 0 \<Longrightarrow> h \<in> set (grab_pieces g d m) \<Longrightarrow> pgDetails h \<noteq> 0 \<and> pgModifiers h \<noteq> 0"
  by (auto simp: grab_pieces_def split: if_splits)

lemma pieces_disjoint:
  "sorted_wrt (\<lambda>g h. \<forall>kind w d m. \<not> (covers g kind w d m \<and> covers h kind w d m)) (grab_pieces g d m)"
  by (auto simp: grab_pieces_def covers_def bit_not_domain bit_and_iff)

subsection \<open>Revising the table\<close>

abbreviation disjoint_grabs :: "passive_grab \<Rightarrow> passive_grab \<Rightarrow> bool" where
  "disjoint_grabs g h \<equiv> \<forall>kind w d m. \<not> (covers g kind w d m \<and> covers h kind w d m)"

text \<open>Without its capacity checks the revision loop maps every grab to its pieces.\<close>

definition revised_grabs ::
  "passive_grab_kind \<Rightarrow> u32 \<Rightarrow> u32 \<Rightarrow> passive_grab_domain \<Rightarrow> passive_grab_domain \<Rightarrow>
     passive_grab list \<Rightarrow> passive_grab list" where
  "revised_grabs kind owner w d m grabs =
     concat (map (\<lambda>g. if pgKind g = kind \<and> pgWindow g = w \<and> pgOwner g = owner \<and> overlaps g d m
                     then grab_pieces g d m else [g]) grabs)"

lemma revise_grabs_Some:
  "revise_grabs kind owner w d m revised grabs = Some r \<Longrightarrow> length revised \<le> maximum_passive_grabs \<Longrightarrow>
   r = revised @ revised_grabs kind owner w d m grabs \<and> length r \<le> maximum_passive_grabs"
proof (induction grabs arbitrary: revised)
  case Nil
  then show ?case by (simp add: revised_grabs_def)
next
  case (Cons g grabs)
  let ?hit = "pgKind g = kind \<and> pgWindow g = w \<and> pgOwner g = owner \<and> overlaps g d m"
  define ps where "ps = (if ?hit then grab_pieces g d m else [g])"
  from Cons.prems(1) obtain revised' where
    step: "(if ?hit then append_without revised g d m
            else if length revised = maximum_passive_grabs then None else Some (revised @ [g])) = Some revised'"
    and rest: "revise_grabs kind owner w d m revised' grabs = Some r"
    by (auto split: option.splits)
  have r': "revised' = revised @ ps" and len: "length revised' \<le> maximum_passive_grabs"
    using step Cons.prems(2) append_without_pieces append_without_bound
    unfolding ps_def by (auto split: if_splits)
  have "r = (revised @ ps) @ revised_grabs kind owner w d m grabs" "length r \<le> maximum_passive_grabs"
    using Cons.IH [OF rest len] unfolding r' by blast+
  moreover have "revised_grabs kind owner w d m (g # grabs) = ps @ revised_grabs kind owner w d m grabs"
    by (simp add: revised_grabs_def ps_def)
  ultimately show ?case by (simp only: append_assoc)
qed

lemma grab_at_revised:
  "grab_at (revised_grabs kind owner w d m grabs) k v x y =
     (case List.find (\<lambda>g. covers g k v x y \<and>
          \<not> (k = kind \<and> v = w \<and> pgOwner g = owner \<and> bit d x \<and> bit m y)) grabs of
        None \<Rightarrow> None | Some g \<Rightarrow> Some (grab_terms g))"
proof (induction grabs)
  case Nil
  then show ?case by (simp add: revised_grabs_def)
next
  case (Cons g grabs)
  let ?hit = "pgKind g = kind \<and> pgWindow g = w \<and> pgOwner g = owner \<and> overlaps g d m"
  let ?gone = "k = kind \<and> v = w \<and> pgOwner g = owner \<and> bit d x \<and> bit m y"
  define ps where "ps = (if ?hit then grab_pieces g d m else [g])"
  have rev: "revised_grabs kind owner w d m (g # grabs) = ps @ revised_grabs kind owner w d m grabs"
    by (simp add: revised_grabs_def ps_def)
  have at: "grab_at ps k v x y = (if covers g k v x y \<and> \<not> ?gone then Some (grab_terms g) else None)"
  proof (cases "covers g k v x y")
    case False
    then show ?thesis by (simp add: ps_def grab_at_pieces grab_at_Cons)
  next
    case True
    then have kw: "pgKind g = k" "pgWindow g = v" by (simp_all add: covers_def)
    have "overlaps g d m" if "bit d x" "bit m y"
      using that True by (auto simp: overlaps_iff covers_def)
    then show ?thesis
      using True kw by (cases ?hit) (auto simp: ps_def grab_at_pieces grab_at_Cons)
  qed
  show ?case
  proof (cases "covers g k v x y \<and> \<not> ?gone")
    case True
    then show ?thesis by (simp add: rev grab_at_append at)
  next
    case False
    then have "grab_at ps k v x y = None" unfolding at by (simp only: if_False)
    moreover have "List.find (\<lambda>g. covers g k v x y \<and>
        \<not> (k = kind \<and> v = w \<and> pgOwner g = owner \<and> bit d x \<and> bit m y)) (g # grabs) =
      List.find (\<lambda>g. covers g k v x y \<and>
        \<not> (k = kind \<and> v = w \<and> pgOwner g = owner \<and> bit d x \<and> bit m y)) grabs"
      using False by (simp only: find.simps if_False)
    ultimately show ?thesis unfolding rev grab_at_append using Cons.IH by (simp only: option.case)
  qed
qed

text \<open>When at most one element satisfies \<open>P\<close>, finding it and then asking \<open>Q\<close> is finding both.\<close>

lemma find_filter_unique:
  "sorted_wrt (\<lambda>a b. \<not> (P a \<and> P b)) xs \<Longrightarrow>
   List.find (\<lambda>a. P a \<and> \<not> Q a) xs = (case List.find P xs of None \<Rightarrow> None | Some a \<Rightarrow> if Q a then None else Some a)"
proof (induction xs)
  case (Cons a xs)
  show ?case
  proof (cases "P a")
    case True
    with Cons.prems have "List.find (\<lambda>a. P a \<and> \<not> Q a) xs = None" by (auto simp: find_None_iff)
    with True show ?thesis by simp
  next
    case False
    with Cons show ?thesis by simp
  qed
qed simp

lemma find_unique_cover:
  assumes "sorted_wrt disjoint_grabs grabs" "g \<in> set grabs" "covers g k v x y"
  shows "List.find (\<lambda>g. covers g k v x y) grabs = Some g"
  using assms by (induction grabs) auto

lemma grab_at_revised_ok:
  assumes "sorted_wrt disjoint_grabs grabs"
  shows "grab_at (revised_grabs kind owner w d m grabs) k v x y =
    (case grab_at grabs k v x y of
       None \<Rightarrow> None
     | Some t \<Rightarrow> if k = kind \<and> v = w \<and> pgOwner t = owner \<and> bit d x \<and> bit m y then None else Some t)"
proof -
  let ?Q = "\<lambda>g. k = kind \<and> v = w \<and> pgOwner g = owner \<and> bit d x \<and> bit m y"
  have "sorted_wrt (\<lambda>g h. \<not> (covers g k v x y \<and> covers h k v x y)) grabs"
    using assms by (rule sorted_wrt_mono_rel [rotated]) blast
  note find_filter_unique [OF this, of ?Q]
  then show ?thesis
    unfolding grab_at_revised by (auto simp: grab_at_def split: option.splits if_splits)
qed

lemma revised_disjoint:
  assumes "sorted_wrt disjoint_grabs grabs" "\<forall>g \<in> set grabs. pgDetails g \<noteq> 0 \<and> pgModifiers g \<noteq> 0"
  shows "sorted_wrt disjoint_grabs (revised_grabs kind owner w d m grabs) \<and>
    (\<forall>g \<in> set (revised_grabs kind owner w d m grabs). pgDetails g \<noteq> 0 \<and> pgModifiers g \<noteq> 0) \<and>
    (\<forall>h \<in> set (revised_grabs kind owner w d m grabs). \<exists>g \<in> set grabs.
       \<forall>k v x y. covers h k v x y \<longrightarrow> covers g k v x y)"
  using assms
proof (induction grabs)
  case Nil
  then show ?case by (simp add: revised_grabs_def)
next
  case (Cons g grabs)
  define ps where "ps = (if pgKind g = kind \<and> pgWindow g = w \<and> pgOwner g = owner \<and> overlaps g d m
      then grab_pieces g d m else [g])"
  let ?r = "revised_grabs kind owner w d m grabs"
  have ih: "sorted_wrt disjoint_grabs ?r" "\<forall>g \<in> set ?r. pgDetails g \<noteq> 0 \<and> pgModifiers g \<noteq> 0"
    "\<forall>h \<in> set ?r. \<exists>g \<in> set grabs. \<forall>k v x y. covers h k v x y \<longrightarrow> covers g k v x y"
    using Cons by auto
  have rev: "revised_grabs kind owner w d m (g # grabs) = ps @ ?r"
    by (simp add: revised_grabs_def ps_def)
  have sub: "covers h k v x y \<Longrightarrow> covers g k v x y" if "h \<in> set ps" for h k v x y
    using that covers_pieces [of g d m k v x y] unfolding ps_def by (auto split: if_splits)
  have pd: "sorted_wrt disjoint_grabs ps" using pieces_disjoint by (simp add: ps_def)
  have ne: "\<forall>h \<in> set ps. pgDetails h \<noteq> 0 \<and> pgModifiers h \<noteq> 0"
    using Cons.prems(2) pieces_ok [of g _ d m] unfolding ps_def by auto
  have "disjoint_grabs h h'" if "h \<in> set ps" "h' \<in> set ?r" for h h'
  proof -
    obtain g' where "g' \<in> set grabs" "\<forall>k v x y. covers h' k v x y \<longrightarrow> covers g' k v x y"
      using ih(3) \<open>h' \<in> set ?r\<close> by blast
    moreover have "disjoint_grabs g g'" using Cons.prems(1) \<open>g' \<in> set grabs\<close> by simp
    ultimately show ?thesis using sub [OF \<open>h \<in> set ps\<close>] by blast
  qed
  then have "sorted_wrt disjoint_grabs (ps @ ?r)"
    using ih(1) pd by (simp add: sorted_wrt_append)
  moreover have "\<forall>h \<in> set (ps @ ?r). \<exists>g' \<in> set (g # grabs).
       \<forall>k v x y. covers h k v x y \<longrightarrow> covers g' k v x y"
    using ih(3) sub by (metis Un_iff list.set_intros set_append)
  moreover have "\<forall>g \<in> set (ps @ ?r). pgDetails g \<noteq> 0 \<and> pgModifiers g \<noteq> 0"
    using ih(2) ne by auto
  ultimately show ?case unfolding rev by blast
qed

subsection \<open>The two operations\<close>

lemma grabs_okD:
  "grabs_ok grabs \<Longrightarrow> sorted_wrt disjoint_grabs grabs"
  "grabs_ok grabs \<Longrightarrow> \<forall>g \<in> set grabs. pgDetails g \<noteq> 0 \<and> pgModifiers g \<noteq> 0"
  "grabs_ok grabs \<Longrightarrow> length grabs \<le> maximum_passive_grabs"
  by (simp_all add: grabs_ok_def)

lemma grab_at_Some:
  assumes "sorted_wrt disjoint_grabs grabs"
  shows "grab_at grabs k v x y = Some t \<longleftrightarrow> (\<exists>g \<in> set grabs. covers g k v x y \<and> grab_terms g = t)"
proof
  assume "grab_at grabs k v x y = Some t"
  then obtain g where "List.find (\<lambda>g. covers g k v x y) grabs = Some g" "grab_terms g = t"
    by (auto simp: grab_at_def)
  then show "\<exists>g \<in> set grabs. covers g k v x y \<and> grab_terms g = t"
    by (auto simp: find_Some_iff)
next
  assume "\<exists>g \<in> set grabs. covers g k v x y \<and> grab_terms g = t"
  then obtain g where "g \<in> set grabs" "covers g k v x y" "grab_terms g = t" by blast
  then show "grab_at grabs k v x y = Some t"
    using find_unique_cover [OF assms, of g k v x y] by (simp add: grab_at_def)
qed

text \<open>A refusal for access is exactly a cell of the new grab held by somebody else.\<close>

lemma foreign_overlap_iff:
  assumes "grabs_ok grabs"
  shows "list_ex (\<lambda>e. pgKind e = kind \<and> pgWindow e = w \<and> pgOwner e \<noteq> owner \<and> overlaps e d m) grabs \<longleftrightarrow>
    (\<exists>x y t. bit d x \<and> bit m y \<and> grab_at grabs kind w x y = Some t \<and> pgOwner t \<noteq> owner)"
proof
  assume "list_ex (\<lambda>e. pgKind e = kind \<and> pgWindow e = w \<and> pgOwner e \<noteq> owner \<and> overlaps e d m) grabs"
  then obtain e x y where e: "e \<in> set grabs" "pgKind e = kind" "pgWindow e = w" "pgOwner e \<noteq> owner"
    "bit (pgDetails e) x" "bit d x" "bit (pgModifiers e) y" "bit m y"
    by (auto simp: list_ex_iff overlaps_iff)
  then have "grab_at grabs kind w x y = Some (grab_terms e)"
    unfolding grab_at_Some [OF grabs_okD(1) [OF assms]] by (auto simp: covers_def)
  with e show "\<exists>x y t. bit d x \<and> bit m y \<and> grab_at grabs kind w x y = Some t \<and> pgOwner t \<noteq> owner"
    by (metis grab_terms_fields(1))
next
  assume "\<exists>x y t. bit d x \<and> bit m y \<and> grab_at grabs kind w x y = Some t \<and> pgOwner t \<noteq> owner"
  then obtain x y t g where "bit d x" "bit m y" "g \<in> set grabs" "covers g kind w x y" "grab_terms g = t"
    "pgOwner t \<noteq> owner"
    unfolding grab_at_Some [OF grabs_okD(1) [OF assms]] by blast
  then show "list_ex (\<lambda>e. pgKind e = kind \<and> pgWindow e = w \<and> pgOwner e \<noteq> owner \<and> overlaps e d m) grabs"
    by (auto simp: list_ex_iff overlaps_iff covers_def)
qed

lemma revise_grabs_effect:
  assumes "grabs_ok grabs" "revise_grabs kind owner w d m [] grabs = Some r"
  shows "grabs_ok r \<and> (\<forall>k v x y. grab_at r k v x y = (case grab_at grabs k v x y of
       None \<Rightarrow> None
     | Some t \<Rightarrow> if k = kind \<and> v = w \<and> pgOwner t = owner \<and> bit d x \<and> bit m y then None else Some t))"
proof -
  have r: "r = revised_grabs kind owner w d m grabs" "length r \<le> maximum_passive_grabs"
    using revise_grabs_Some [OF assms(2)] by auto
  have "grabs_ok r"
    using revised_disjoint [OF grabs_okD(1,2) [OF assms(1)], of kind owner w d m] r
    unfolding grabs_ok_def by blast
  moreover have "grab_at r k v x y = (case grab_at grabs k v x y of
       None \<Rightarrow> None
     | Some t \<Rightarrow> if k = kind \<and> v = w \<and> pgOwner t = owner \<and> bit d x \<and> bit m y then None else Some t)" for k v x y
    unfolding r(1) by (rule grab_at_revised_ok [OF grabs_okD(1) [OF assms(1)]])
  ultimately show ?thesis by blast
qed

lemma add_passive_grab_cells_run:
  assumes "grabs_ok (ssPassiveGrabs s)" and "add_passive_grab added s = (r, s')"
  shows "grabs_ok (ssPassiveGrabs s') \<and> (r \<noteq> GrabUpdated \<longrightarrow> s' = s) \<and>
    (r = GrabAccessDenied \<longleftrightarrow> pgDetails added \<noteq> 0 \<and> pgModifiers added \<noteq> 0 \<and>
       (\<exists>x y t. bit (pgDetails added) x \<and> bit (pgModifiers added) y \<and>
          grab_at (ssPassiveGrabs s) (pgKind added) (pgWindow added) x y = Some t \<and>
          pgOwner t \<noteq> pgOwner added)) \<and>
    (r = GrabUpdated \<longrightarrow>
       owned_grabs (pgOwner added) (ssPassiveGrabs s') \<le> maximum_passive_grabs_per_client \<and>
       (\<forall>k v x y. grab_at (ssPassiveGrabs s') k v x y =
          (if covers added k v x y then Some (grab_terms added)
           else grab_at (ssPassiveGrabs s) k v x y)))"
proof -
  let ?gs = "ssPassiveGrabs s"
  let ?foreign = "list_ex (\<lambda>e. pgKind e = pgKind added \<and> pgWindow e = pgWindow added \<and>
                 pgOwner e \<noteq> pgOwner added \<and> overlaps e (pgDetails added) (pgModifiers added)) ?gs"
  note foreign = foreign_overlap_iff [OF assms(1), of "pgKind added" "pgWindow added" "pgOwner added"
      "pgDetails added" "pgModifiers added"]
  have denied: "r = GrabAccessDenied \<longleftrightarrow> pgDetails added \<noteq> 0 \<and> pgModifiers added \<noteq> 0 \<and> ?foreign"
    using assms(2) by (auto simp: add_passive_grab_def split: if_splits option.splits)
  have kept: "s' = s" if "r \<noteq> GrabUpdated"
    using assms(2) that by (auto simp: add_passive_grab_def split: if_splits option.splits)
  show ?thesis
  proof (cases "r = GrabUpdated")
    case False
    with kept assms(1) denied foreign show ?thesis by simp
  next
    case True
    obtain rev where rev: "revise_grabs (pgKind added) (pgOwner added) (pgWindow added)
        (pgDetails added) (pgModifiers added) [] ?gs = Some rev"
      and ne: "pgDetails added \<noteq> 0" "pgModifiers added \<noteq> 0" and nf: "\<not> ?foreign"
      and len: "length rev \<noteq> maximum_passive_grabs"
      and own: "owned_grabs (pgOwner added) (rev @ [added]) \<le> maximum_passive_grabs_per_client"
      and s': "ssPassiveGrabs s' = rev @ [added]"
      using assms(2) True by (auto simp: add_passive_grab_def split: if_splits option.splits)
    note eff = revise_grabs_effect [OF assms(1) rev]
    have none: "grab_at rev k v x y = None" if "covers added k v x y" for k v x y
    proof (cases "grab_at ?gs k v x y")
      case None
      with eff show ?thesis by simp
    next
      case (Some t)
      with that nf foreign have "pgOwner t = pgOwner added" by (auto simp: covers_def)
      with Some that eff show ?thesis by (auto simp: covers_def)
    qed
    have same: "grab_at rev k v x y = grab_at ?gs k v x y" if "\<not> covers added k v x y" for k v x y
      using eff that by (auto simp: covers_def split: option.split)
    have "disjoint_grabs g added" if "g \<in> set rev" for g
      using none that unfolding grab_at_None by blast
    then have "grabs_ok (rev @ [added])"
      using eff ne len by (auto simp: grabs_ok_def sorted_wrt_append)
    moreover have "grab_at (rev @ [added]) k v x y =
        (if covers added k v x y then Some (grab_terms added) else grab_at ?gs k v x y)" for k v x y
      using none same by (simp add: grab_at_append grab_at_Cons split: option.split)
    moreover have "r \<noteq> GrabAccessDenied" using True by simp
    ultimately show ?thesis using True own s' denied foreign by simp
  qed
qed

text \<open>C20. Adding a grab means what the protocol says, cell by cell: after success the grab in force on
  every detail and modifier combination it covers is the new one and everywhere else the one there
  was; access is denied exactly when another client holds one of its cells; any other answer than
  success leaves the state alone; and the table stays disjoint and within its limits.\<close>

theorem add_passive_grab_cells:
  assumes "grabs_ok (ssPassiveGrabs s)" and "add_passive_grab added s = (r, s')"
  shows "grabs_ok (ssPassiveGrabs s') \<and> (r \<noteq> GrabUpdated \<longrightarrow> s' = s) \<and>
    (r = GrabAccessDenied \<longleftrightarrow> pgDetails added \<noteq> 0 \<and> pgModifiers added \<noteq> 0 \<and>
       (\<exists>x y t. bit (pgDetails added) x \<and> bit (pgModifiers added) y \<and>
          grab_at (ssPassiveGrabs s) (pgKind added) (pgWindow added) x y = Some t \<and>
          pgOwner t \<noteq> pgOwner added)) \<and>
    (r = GrabUpdated \<longrightarrow>
       owned_grabs (pgOwner added) (ssPassiveGrabs s') \<le> maximum_passive_grabs_per_client \<and>
       (\<forall>k v x y. grab_at (ssPassiveGrabs s') k v x y =
          (if covers added k v x y then Some (grab_terms added)
           else grab_at (ssPassiveGrabs s) k v x y)))"
  using assms by (rule add_passive_grab_cells_run)

definition sample_grab :: "u32 \<Rightarrow> passive_grab_domain \<Rightarrow> passive_grab" where
  "sample_grab owner modifiers =
     \<lparr>pgKind = GrabsKey, pgDetails = 0x400, pgModifiers = modifiers, pgOwner = owner, pgWindow = 0x100,
      pgConfineTo = 0, pgEventMask = 0, pgPointerMode = 1, pgKeyboardMode = 1, pgOwnerEvents = False,
      pgCursor = None, pgXi2 = False, pgXi2EventMask = 0\<rparr>"

theorem add_passive_grab_cells_witness:
  "grab_at (ssPassiveGrabs (snd (add_passive_grab (sample_grab 5 3) (initial_state 640 480 0))))
     GrabsKey 0x100 10 1 = Some (grab_terms (sample_grab 5 3))"
proof -
  have run: "fst (add_passive_grab (sample_grab 5 3) (initial_state 640 480 0)) = GrabUpdated"
    by (simp add: add_passive_grab_def sample_grab_def initial_state_def maximum_passive_grabs_def
        owned_grabs_def maximum_passive_grabs_per_client_def)
  have ok: "grabs_ok (ssPassiveGrabs (initial_state 640 480 0))"
    by (simp add: grabs_ok_def initial_state_def)
  have "bit (0x400 :: 256 word) 10" "bit (3 :: 256 word) 1" by simp_all
  then have "covers (sample_grab 5 3) GrabsKey 0x100 10 1"
    by (simp add: covers_def sample_grab_def)
  then show ?thesis
    using add_passive_grab_cells [OF ok, of "sample_grab 5 3" GrabUpdated] run
    by (cases "add_passive_grab (sample_grab 5 3) (initial_state 640 480 0)") simp
qed

lemma remove_passive_grab_cells_run:
  assumes "grabs_ok (ssPassiveGrabs s)" and "remove_passive_grab kind owner w d m s = (r, s')"
  shows "grabs_ok (ssPassiveGrabs s') \<and> r \<noteq> GrabAccessDenied \<and> (r \<noteq> GrabUpdated \<longrightarrow> s' = s) \<and>
    (r = GrabUpdated \<longrightarrow>
       (\<forall>k v x y. grab_at (ssPassiveGrabs s') k v x y =
          (case grab_at (ssPassiveGrabs s) k v x y of
             None \<Rightarrow> None
           | Some t \<Rightarrow> if k = kind \<and> v = w \<and> pgOwner t = owner \<and> bit d x \<and> bit m y then None
                       else Some t)))"
proof (cases "revise_grabs kind owner w d m [] (ssPassiveGrabs s)")
  case None
  with assms show ?thesis by (simp add: remove_passive_grab_def)
next
  case (Some rev)
  note eff = revise_grabs_effect [OF assms(1) Some]
  show ?thesis
  proof (cases "maximum_passive_grabs_per_client < owned_grabs owner rev")
    case True
    with Some assms show ?thesis by (auto simp: remove_passive_grab_def)
  next
    case False
    with Some assms(2) have "r = GrabUpdated" "ssPassiveGrabs s' = rev"
      by (auto simp: remove_passive_grab_def)
    with eff show ?thesis by simp
  qed
qed

text \<open>Removing is exact: after success no cell of the given product is held by the given client
  on the window, and every other cell, of this or any other client, keeps its grab; the removal is
  refused, with nothing changed, only when the pieces do not fit the limits.\<close>

theorem remove_passive_grab_cells:
  assumes "grabs_ok (ssPassiveGrabs s)" and "remove_passive_grab kind owner w d m s = (r, s')"
  shows "grabs_ok (ssPassiveGrabs s') \<and> r \<noteq> GrabAccessDenied \<and> (r \<noteq> GrabUpdated \<longrightarrow> s' = s) \<and>
    (r = GrabUpdated \<longrightarrow>
       (\<forall>k v x y. grab_at (ssPassiveGrabs s') k v x y =
          (case grab_at (ssPassiveGrabs s) k v x y of
             None \<Rightarrow> None
           | Some t \<Rightarrow> if k = kind \<and> v = w \<and> pgOwner t = owner \<and> bit d x \<and> bit m y then None
                       else Some t)))"
  using assms by (rule remove_passive_grab_cells_run)

theorem remove_passive_grab_cells_witness:
  "grab_at (ssPassiveGrabs (snd (remove_passive_grab GrabsKey 5 0x100 0x400 1
     (initial_state 640 480 0\<lparr>ssPassiveGrabs := [sample_grab 5 3]\<rparr>)))) GrabsKey 0x100 10 1
     = Some (grab_terms (sample_grab 5 3))"
proof -
  let ?s = "initial_state 640 480 0\<lparr>ssPassiveGrabs := [sample_grab 5 3]\<rparr>"
  have ok: "grabs_ok (ssPassiveGrabs ?s)"
    by (simp add: grabs_ok_def sample_grab_def maximum_passive_grabs_def)
  have run: "fst (remove_passive_grab GrabsKey 5 0x100 0x400 1 ?s) = GrabUpdated"
    by (simp add: remove_passive_grab_def append_without_def sample_grab_def overlaps_def Let_def
        maximum_passive_grabs_def owned_grabs_def maximum_passive_grabs_per_client_def)
  have "bit (0x400 :: 256 word) 10" "bit (3 :: 256 word) 1" "\<not> bit (1 :: 256 word) 1" by simp_all
  then have "grab_at (ssPassiveGrabs ?s) GrabsKey 0x100 10 1 = Some (grab_terms (sample_grab 5 3))"
    by (simp add: grab_at_Cons covers_def) (simp add: sample_grab_def)
  with run remove_passive_grab_cells [OF ok, of GrabsKey 5 "0x100" "0x400" 1 GrabUpdated] show ?thesis
    by (cases "remove_passive_grab GrabsKey 5 0x100 0x400 1 ?s") simp
qed

end
