(* ===== verification/Selections.thy ===== *)
theory Selections
  imports Resources
begin

text \<open>
  Selections and the XFIXES bookkeeping around them (\<^verbatim>\<open>src/server/server_state.cpp\<close>):
  \<open>selection_owner\<close>, \<open>set_selection_owner\<close>, \<open>convert_selection\<close>, \<open>clear_selections_for_window\<close>,
  the selection and cursor subscriptions, the cursor hide counts and the save sets.
\<close>

definition selection_owner :: "server_state \<Rightarrow> u32 \<Rightarrow> u32" where
  "selection_owner s selection =
     (case umap_find selection (ssSelections s) of None \<Rightarrow> 0 | Some r \<Rightarrow> slWindow r)"

definition empty_selection :: selection_record where
  "empty_selection = \<lparr>slWindow = 0, slClient = 0, slChangedAt = 0\<rparr>"

text \<open>The XFIXES notifications of a selection change that the subscriptions with \<open>flag\<close> ask for.\<close>

definition selection_notifications ::
  "server_state \<Rightarrow> u32 \<Rightarrow> u32 \<Rightarrow> u8 \<Rightarrow> u32 \<Rightarrow> u32 \<Rightarrow> planned_event list" where
  "selection_notifications s selection flag subtype w selection_time =
     map (\<lambda>x. (xsClient x, EvExtension (XFixesSelectionNotify subtype (xsWindow x) w selection
               (ssCurrentTime s) selection_time)))
       (filter (\<lambda>x. xsSelection x = selection \<and> (xsEventMask x AND flag) \<noteq> 0) (ssXfixesSelectionInputs s))"

text \<open>The previous owner hears of its loss unless it takes the selection again itself.\<close>

definition lost_selection ::
  "u32 \<Rightarrow> u32 \<Rightarrow> u32 \<Rightarrow> u32 \<Rightarrow> selection_record option \<Rightarrow> planned_event list" where
  "lost_selection selection w client time found =
     (case found of
        None \<Rightarrow> []
      | Some p \<Rightarrow> if slWindow p \<noteq> 0 \<and> (w = 0 \<or> slClient p \<noteq> client)
                 then [(slClient p, EvSelection (SelectionClear time (slWindow p) selection))] else [])"

definition set_selection_owner ::
  "u32 \<Rightarrow> u32 \<Rightarrow> u32 \<Rightarrow> u32 \<Rightarrow> server_state \<Rightarrow> selection_update \<times> server_state" where
  "set_selection_owner selection w client time s =
     (let effective_time = (if time = 0 then ssCurrentTime s else time);
          found = umap_find selection (ssSelections s)
      in if later_than effective_time (ssCurrentTime s) then (SelIgnored, s)
         else if (case found of None \<Rightarrow> False | Some r \<Rightarrow> earlier_than effective_time (slChangedAt r))
         then (SelIgnored, s)
         else
           let inserted = (found = None);
               s1 = (if inserted
                     then s\<lparr>ssSelections := fst (umap_emplace selection empty_selection (ssSelections s))\<rparr>
                     else s);
               events = lost_selection selection w client effective_time found @
                 selection_notifications s1 selection 1 0 w effective_time;
               (queued, s2) = queue_events_atomically events s1
           in if \<not> queued
              then (SelEventQueueFull,
                    if inserted then s2\<lparr>ssSelections := umap_erase selection (ssSelections s2)\<rparr> else s2)
              else (SelUpdated, s2\<lparr>ssSelections := umap_put selection
                     \<lparr>slWindow = w, slClient = (if w = 0 then 0 else client),
                      slChangedAt = effective_time\<rparr> (ssSelections s2)\<rparr>))"

definition convert_selection ::
  "u32 \<Rightarrow> u32 \<Rightarrow> u32 \<Rightarrow> u32 \<Rightarrow> u32 \<Rightarrow> u32 \<Rightarrow> server_state \<Rightarrow> event_delivery \<times> server_state" where
  "convert_selection client requestor selection target property time s =
     (let effective_time = (if time = 0 then ssCurrentTime s else time);
          found = umap_find selection (ssSelections s)
      in case found of
           Some r \<Rightarrow>
             if slWindow r = 0
             then let (ok, s') = queue_event client (EvSelection
                        (SelectionNotify effective_time requestor selection target 0)) s
                  in (if ok then Delivered else QueueFull, s')
             else let (ok, s') = queue_event (slClient r) (EvSelection
                        (SelectionRequest effective_time (slWindow r) requestor selection target property)) s
                  in (if ok then Delivered else QueueFull, s')
         | None \<Rightarrow>
             let (ok, s') = queue_event client (EvSelection
                        (SelectionNotify effective_time requestor selection target 0)) s
             in (if ok then Delivered else QueueFull, s'))"

text \<open>One step of the loop of \<open>clear_selections_for_window\<close>; the notifications are dropped when
  they do not fit, the selection is cleared anyway.\<close>

definition clear_selection_entry :: "u32 \<Rightarrow> u32 \<times> selection_record \<Rightarrow> server_state \<Rightarrow> server_state" where
  "clear_selection_entry w e s =
     (if slWindow (snd e) = w
      then let s1 = snd (queue_events_atomically
                  (selection_notifications s (fst e) 2 1 0 (slChangedAt (snd e))) s)
           in s1\<lparr>ssSelections := umap_put (fst e)
                  \<lparr>slWindow = 0, slClient = 0, slChangedAt = ssCurrentTime s1\<rparr> (ssSelections s1)\<rparr>
      else s)"

definition clear_selections_for_window :: "u32 \<Rightarrow> server_state \<Rightarrow> server_state" where
  "clear_selections_for_window w s = fold (clear_selection_entry w) (ssSelections s) s"

subsection \<open>Subscriptions, hide counts, save sets\<close>

definition select_xfixes_selection_input ::
  "u32 \<Rightarrow> u32 \<Rightarrow> u32 \<Rightarrow> u32 \<Rightarrow> server_state \<Rightarrow> table_update \<times> server_state" where
  "select_xfixes_selection_input client w selection event_mask s =
     (let matches = (\<lambda>e. xsClient e = client \<and> xsWindow e = w \<and> xsSelection e = selection);
          inputs = ssXfixesSelectionInputs s
      in if event_mask = 0
         then (Updated, s\<lparr>ssXfixesSelectionInputs := remove_first matches inputs\<rparr>)
         else if list_ex matches inputs
         then (Updated, s\<lparr>ssXfixesSelectionInputs :=
                 update_first matches (\<lambda>e. e\<lparr>xsEventMask := event_mask\<rparr>) inputs\<rparr>)
         else if maximum_xfixes_subscriptions \<le> length inputs then (ResourceExhausted, s)
         else (Updated, s\<lparr>ssXfixesSelectionInputs := inputs @
                 [\<lparr>xsClient = client, xsWindow = w, xsSelection = selection, xsEventMask = event_mask\<rparr>]\<rparr>))"

definition select_xfixes_cursor_input ::
  "u32 \<Rightarrow> u32 \<Rightarrow> u32 \<Rightarrow> server_state \<Rightarrow> table_update \<times> server_state" where
  "select_xfixes_cursor_input client w event_mask s =
     (let matches = (\<lambda>e. xcClient e = client \<and> xcWindow e = w);
          inputs = ssXfixesCursorInputs s
      in if event_mask = 0
         then (Updated, s\<lparr>ssXfixesCursorInputs := remove_first matches inputs\<rparr>)
         else if list_ex matches inputs
         then (Updated, s\<lparr>ssXfixesCursorInputs :=
                 update_first matches (\<lambda>e. e\<lparr>xcEventMask := event_mask\<rparr>) inputs\<rparr>)
         else if maximum_xfixes_subscriptions \<le> length inputs then (ResourceExhausted, s)
         else (Updated, s\<lparr>ssXfixesCursorInputs := inputs @
                 [\<lparr>xcClient = client, xcWindow = w, xcEventMask = event_mask\<rparr>]\<rparr>))"

definition hide_cursor :: "u32 \<Rightarrow> server_state \<Rightarrow> table_update \<times> server_state" where
  "hide_cursor client s =
     (let count = (case umap_find client (ssCursorHideCounts s) of None \<Rightarrow> 0 | Some n \<Rightarrow> n)
      in (Updated, s\<lparr>ssCursorHideCounts :=
            umap_put client (if count \<noteq> - 1 then count + 1 else count) (ssCursorHideCounts s)\<rparr>))"

definition show_cursor :: "u32 \<Rightarrow> server_state \<Rightarrow> table_update \<times> server_state" where
  "show_cursor client s =
     (case umap_find client (ssCursorHideCounts s) of
        None \<Rightarrow> (Invalid, s)
      | Some n \<Rightarrow>
          (Updated, s\<lparr>ssCursorHideCounts :=
             (if n - 1 = 0 then umap_erase client (ssCursorHideCounts s)
              else umap_put client (n - 1) (ssCursorHideCounts s))\<rparr>))"

definition cursor_hidden :: "server_state \<Rightarrow> bool" where
  "cursor_hidden s \<longleftrightarrow> ssCursorHideCounts s \<noteq> []"

definition alter_save_set ::
  "u32 \<Rightarrow> u32 \<Rightarrow> bool \<Rightarrow> bool \<Rightarrow> bool \<Rightarrow> server_state \<Rightarrow> table_update \<times> server_state" where
  "alter_save_set client w insert_entry to_root map_window s =
     (if \<not> insert_entry
      then (case umap_find client (ssSaveSets s) of
              None \<Rightarrow> (Updated, s)
            | Some entries \<Rightarrow>
                let entries' = filter (\<lambda>e. seWindow e \<noteq> w) entries
                in (Updated, s\<lparr>ssSaveSets :=
                      (if entries' = [] then umap_erase client (ssSaveSets s)
                       else umap_put client entries' (ssSaveSets s))\<rparr>))
      else let entries = (case umap_find client (ssSaveSets s) of None \<Rightarrow> [] | Some es \<Rightarrow> es);
               entries' = (if list_ex (\<lambda>e. seWindow e = w) entries then entries
                           else entries @ [\<lparr>seWindow = w, seToRoot = to_root, seMap = map_window\<rparr>])
           in (Updated, s\<lparr>ssSaveSets := umap_put client entries' (ssSaveSets s)\<rparr>))"

subsection \<open>Selection ownership\<close>

text \<open>A selection without an owner window has no owner client, and the converse.\<close>

definition selections_ok :: "server_state \<Rightarrow> bool" where
  "selections_ok s \<longleftrightarrow> umap_ok (ssSelections s) \<and>
     (\<forall>a r. umap_find a (ssSelections s) = Some r \<longrightarrow>
        (slWindow r = 0 \<longleftrightarrow> slClient r = 0))"

text \<open>No change of ownership is dated after the clock of the server; this is lost when the clock
  wraps around half its range after the last change.\<close>

definition selections_dated :: "server_state \<Rightarrow> bool" where
  "selections_dated s \<longleftrightarrow>
     (\<forall>a r. umap_find a (ssSelections s) = Some r \<longrightarrow> \<not> later_than (slChangedAt r) (ssCurrentTime s))"

lemma not_later_self [simp]: "\<not> later_than t t" "\<not> earlier_than t t"
  by (simp_all add: later_than_def earlier_than_def)

lemma erase_emplaced:
  "umap_find k m = None \<Longrightarrow> umap_erase k (fst (umap_emplace k v m)) = m"
  by (simp add: umap_emplace_def umap_contains_def umap_erase_snoc)

lemma queue_events_insensitive:
  fixes s :: server_state
  assumes "queues_ok s" "queue_events_atomically es s = (False, s')"
  shows "s' = s"
  using queues.refused [OF assms] .

lemma queues_ok_selections [simp]: "queues_ok (s\<lparr>ssSelections := m\<rparr>) = queues_ok s"
  by (simp add: queues_ok_def)

lemma queued_events_selections [simp]: "queued_events (s\<lparr>ssSelections := m\<rparr>) c = queued_events s c"
  by (simp add: queued_events_def)

lemma stamped_for_selections [simp]: "stamped_for (s\<lparr>ssSelections := m\<rparr>) c es = stamped_for s c es"
  by (simp add: stamped_for_def client_sequence_def)

lemma selection_notifications_selections [simp]:
  "selection_notifications (s\<lparr>ssSelections := m\<rparr>) a f t w x = selection_notifications s a f t w x"
  by (simp add: selection_notifications_def)

lemma set_selection_owner_effect_run:
  assumes "queues_ok s" and "set_selection_owner selection w client time s = (r, s')"
  defines "t \<equiv> (if time = 0 then ssCurrentTime s else time)"
  defines "previous \<equiv> umap_find selection (ssSelections s)"
  shows "(r = SelIgnored \<longleftrightarrow> later_than t (ssCurrentTime s) \<or>
      (\<exists>p. previous = Some p \<and> earlier_than t (slChangedAt p))) \<and>
    (r \<noteq> SelUpdated \<longrightarrow> s' = s) \<and>
    (r = SelUpdated \<longrightarrow>
       umap_find selection (ssSelections s') =
         Some \<lparr>slWindow = w, slClient = (if w = 0 then 0 else client), slChangedAt = t\<rparr> \<and>
       (\<forall>a. a \<noteq> selection \<longrightarrow> umap_find a (ssSelections s') = umap_find a (ssSelections s)) \<and>
       queues_ok s' \<and>
       (\<forall>c. queued_events s' c = queued_events s c @ stamped_for s c
          (lost_selection selection w client t previous @ selection_notifications s selection 1 0 w t)) \<and>
       (selections_ok s \<and> client \<noteq> 0 \<longrightarrow> selections_ok s') \<and>
       (selections_dated s \<longrightarrow> selections_dated s'))"
proof (cases "later_than t (ssCurrentTime s) \<or> (\<exists>p. previous = Some p \<and> earlier_than t (slChangedAt p))")
  case True
  have "set_selection_owner selection w client time s = (SelIgnored, s)"
  proof (cases "umap_find selection (ssSelections s)")
    case None
    then show ?thesis
      using True by (simp add: set_selection_owner_def t_def previous_def Let_def)
  next
    case (Some p)
    then show ?thesis
      using True by (auto simp: set_selection_owner_def t_def previous_def Let_def split: if_splits)
  qed
  with assms(2) have "r = SelIgnored" "s' = s" by simp_all
  with True show ?thesis by simp
next
  case False
  define s1 where "s1 = (if previous = None
      then s\<lparr>ssSelections := fst (umap_emplace selection empty_selection (ssSelections s))\<rparr> else s)"
  define events where
    "events = lost_selection selection w client t previous @ selection_notifications s selection 1 0 w t"
  obtain q s2 where run: "queue_events_atomically events s1 = (q, s2)" by (rule prod.exhaust)
  have ok1: "queues_ok s1" using assms(1) by (simp add: s1_def)
  have res: "(r, s') = (if \<not> q
      then (SelEventQueueFull,
            if previous = None then s2\<lparr>ssSelections := umap_erase selection (ssSelections s2)\<rparr> else s2)
      else (SelUpdated, s2\<lparr>ssSelections := umap_put selection
             \<lparr>slWindow = w, slClient = (if w = 0 then 0 else client), slChangedAt = t\<rparr> (ssSelections s2)\<rparr>))"
  proof (cases "umap_find selection (ssSelections s)")
    case None
    then show ?thesis
      using assms(2) False run
      by (simp add: set_selection_owner_def t_def previous_def s1_def events_def Let_def split: if_split_asm)
  next
    case (Some p)
    then show ?thesis
      using assms(2) False run
      by (simp add: set_selection_owner_def t_def previous_def s1_def events_def Let_def split: if_split_asm)
  qed
  show ?thesis
  proof (cases q)
    case False': False
    then have s2: "s2 = s1" using queue_events_insensitive [OF ok1] run by simp
    have "s' = s"
      using res False' s2 by (auto simp: s1_def previous_def erase_emplaced)
    moreover have "r = SelEventQueueFull" using res False' by simp
    ultimately show ?thesis using False by simp
  next
    case True
    then have run': "queue_events_atomically events s1 = (True, s2)" using run by simp
    have r: "r = SelUpdated"
      and s': "s' = s2\<lparr>ssSelections := umap_put selection
             \<lparr>slWindow = w, slClient = (if w = 0 then 0 else client), slChangedAt = t\<rparr> (ssSelections s2)\<rparr>"
      using res True by simp_all
    have sel2: "ssSelections s2 = ssSelections s1" "ssCurrentTime s2 = ssCurrentTime s1"
      using queue_events_frame [where es = events and s = s1] run by simp_all
    have other: "umap_find a (ssSelections s1) = umap_find a (ssSelections s)" if "a \<noteq> selection" for a
      using that by (simp add: s1_def umap_find_emplace)
    have ok2: "queues_ok s2" using queues.keeps_inv [OF ok1, of events] run by simp
    have ev: "queued_events s' c = queued_events s c @ stamped_for s c events" for c
      using queues.accepted [OF ok1 run', of c] by (simp add: s' s1_def)
    have sok: "selections_ok s'" if "selections_ok s" "client \<noteq> 0"
      using that False other
      by (auto simp: selections_ok_def s' sel2 s1_def split: if_splits)
    moreover have "selections_dated s'" if "selections_dated s"
      using that False other
      by (auto simp: selections_dated_def s' sel2 s1_def split: if_splits)
    ultimately show ?thesis
      using False r ok2 ev sok other by (simp add: s' sel2 events_def)
  qed
qed

text \<open>C22. Ownership changes as the protocol prescribes.  A request dated in the future, or before the
  last change, is ignored.  Otherwise, if the notifications fit, the selection belongs to the given
  window and client from the given time on, no other selection changes, and the clients are told:
  the previous owner gets one SelectionClear when it loses the selection to nobody or to another
  client, and every subscriber of the selection its notification; if they do not fit, nothing
  changes at all.\<close>

theorem set_selection_owner_effect:
  assumes "queues_ok s" and "set_selection_owner selection w client time s = (r, s')"
  defines "t \<equiv> (if time = 0 then ssCurrentTime s else time)"
  defines "previous \<equiv> umap_find selection (ssSelections s)"
  shows "(r = SelIgnored \<longleftrightarrow> later_than t (ssCurrentTime s) \<or>
      (\<exists>p. previous = Some p \<and> earlier_than t (slChangedAt p))) \<and>
    (r \<noteq> SelUpdated \<longrightarrow> s' = s) \<and>
    (r = SelUpdated \<longrightarrow>
       umap_find selection (ssSelections s') =
         Some \<lparr>slWindow = w, slClient = (if w = 0 then 0 else client), slChangedAt = t\<rparr> \<and>
       (\<forall>a. a \<noteq> selection \<longrightarrow> umap_find a (ssSelections s') = umap_find a (ssSelections s)) \<and>
       queues_ok s' \<and>
       (\<forall>c. queued_events s' c = queued_events s c @ stamped_for s c
          (lost_selection selection w client t previous @ selection_notifications s selection 1 0 w t)) \<and>
       (selections_ok s \<and> client \<noteq> 0 \<longrightarrow> selections_ok s') \<and>
       (selections_dated s \<longrightarrow> selections_dated s'))"
  unfolding t_def previous_def by (rule set_selection_owner_effect_run [OF assms(1,2)])

theorem set_selection_owner_effect_witness:
  "umap_find 1 (ssSelections (snd (set_selection_owner 1 0x200001 5 0 (initial_state 640 480 0)))) =
     Some \<lparr>slWindow = 0x200001, slClient = 5, slChangedAt = 1\<rparr>"
proof -
  have ok: "queues_ok (initial_state 640 480 0)"
    by (simp add: queues_ok_def initial_state_def umap_sum_def)
  have "fst (set_selection_owner 1 0x200001 5 0 (initial_state 640 480 0)) = SelUpdated"
    by (simp add: set_selection_owner_def Let_def initial_state_def selection_notifications_def
        lost_selection_def queue_events_atomically_def maximum_pending_events_def)
  then show ?thesis
    using set_selection_owner_effect [OF ok, of 1 "0x200001" 5 0 SelUpdated]
    by (cases "set_selection_owner 1 0x200001 5 0 (initial_state 640 480 0)")
      (simp add: initial_state_def)
qed

end
