(* ===== verification/Window_Store.thy ===== *)
theory Window_Store
  imports Server_Model
begin

text \<open>
  Shared facts about the window table: lookups and invariants through \<open>put_window\<close>, and the
  collection \<open>window_simps\<close> the window components simplify with.
\<close>

named_theorems window_simps \<open>lookups and frames of the window table\<close>

lemma find_SomeD: "find P xs = Some x \<Longrightarrow> x \<in> set xs \<and> P x"
  by (induction xs) (auto split: if_splits)

lemma queue_frame_refl: "\<exists>q n. s = s\<lparr>ssEventQueues := q, ssPendingEvents := n\<rparr>" for s :: server_state
  by (rule exI [of _ "ssEventQueues s"], rule exI [of _ "ssPendingEvents s"]) simp

text \<open>The table is keyed by the windows' own identifiers.\<close>

definition windows_keyed :: "server_state \<Rightarrow> bool" where
  "windows_keyed s \<longleftrightarrow> umap_ok (ssWindows s) \<and> (\<forall>k w. window s k = Some w \<longrightarrow> wnId w = k)"

lemma windows_keyedI:
  "umap_ok (ssWindows s) \<Longrightarrow> (\<And>k w. window s k = Some w \<Longrightarrow> wnId w = k) \<Longrightarrow> windows_keyed s"
  by (simp add: windows_keyed_def)

lemma windows_keyedD:
  assumes "windows_keyed s"
  shows "umap_ok (ssWindows s)" "window s k = Some w \<Longrightarrow> wnId w = k"
  using assms by (auto simp: windows_keyed_def)

lemma window_put [simp, window_simps]:
  "window (put_window w s) k = (if k = wnId w then Some w else window s k)"
  by (simp add: window_def put_window_def)

lemma put_window_frame [simp, window_simps]:
  "ssEventQueues (put_window w s) = ssEventQueues s"
  "ssPendingEvents (put_window w s) = ssPendingEvents s"
  "ssClients (put_window w s) = ssClients s"
  "ssCurrentTime (put_window w s) = ssCurrentTime s"
  "ssPropertyBytes (put_window w s) = ssPropertyBytes s"
  "ssSurfaceBytes (put_window w s) = ssSurfaceBytes s"
  "ssResources (put_window w s) = ssResources s"
  "ssInput (put_window w s) = ssInput s"
  "ssSelections (put_window w s) = ssSelections s"
  "ssPixmaps (put_window w s) = ssPixmaps s"
  "ssDamages (put_window w s) = ssDamages s"
  "ssDbeBuffers (put_window w s) = ssDbeBuffers s"
  by (simp_all add: put_window_def)

lemma window_updates [simp, window_simps]:
  "window (s\<lparr>ssPropertyBytes := n\<rparr>) k = window s k"
  "window (s\<lparr>ssSceneDirty := b\<rparr>) k = window s k"
  "window (s\<lparr>ssResources := r\<rparr>) k = window s k"
  "window (s\<lparr>ssSelections := m\<rparr>) k = window s k"
  "window (s\<lparr>ssEventQueues := q\<rparr>) k = window s k"
  "window (s\<lparr>ssPendingEvents := n\<rparr>) k = window s k"
  "window (s\<lparr>ssInput := i\<rparr>) k = window s k"
  "window (invalidate_scene s) k = window s k"
  by (simp_all add: window_def invalidate_scene_def)

lemma window_queue [simp, window_simps]:
  "window (snd (queue_events_atomically es s)) k = window s k"
  "window (snd (queue_event c e s)) k = window s k"
  by (simp_all add: window_def)

lemma put_window_same: "windows_keyed s \<Longrightarrow> window s (wnId w) = Some w \<Longrightarrow> put_window w s = s"
  by (simp add: put_window_def window_def umap_find_def umap_put_def update_restore)

lemma put_window_put: "wnId v = wnId w \<Longrightarrow> put_window v (put_window w s) = put_window v s"
  by (simp add: put_window_def umap_put_def update_update_same)

lemma windows_keyed_put [simp, window_simps]: "windows_keyed s \<Longrightarrow> windows_keyed (put_window w s)"
  by (auto simp: windows_keyed_def split: if_splits) (simp add: put_window_def)

lemma queues_put_window [simp, queue_simps]:
  "queues_ok (put_window w s) = queues_ok s"
  "queued_events (put_window w s) c = queued_events s c"
  "stamped_for (put_window w s) c es = stamped_for s c es"
  by (simp_all add: queues_ok_def queued_events_def stamped_for_def client_sequence_def)

lemma queues_updates [simp, queue_simps]:
  fixes s :: server_state
  shows "queues_ok (s\<lparr>ssPropertyBytes := n\<rparr>) = queues_ok s"
    "queued_events (s\<lparr>ssPropertyBytes := n\<rparr>) c = queued_events s c"
    "stamped_for (s\<lparr>ssPropertyBytes := n\<rparr>) c es = stamped_for s c es"
    "queues_ok (invalidate_scene s) = queues_ok s"
    "queued_events (invalidate_scene s) c = queued_events s c"
    "stamped_for (invalidate_scene s) c es = stamped_for s c es"
  by (simp_all add: queues_ok_def queued_events_def stamped_for_def client_sequence_def
      invalidate_scene_def)

lemma windows_keyed_updates [simp, window_simps]:
  "windows_keyed (s\<lparr>ssPropertyBytes := n\<rparr>) = windows_keyed s"
  "windows_keyed (s\<lparr>ssEventQueues := q\<rparr>) = windows_keyed s"
  "windows_keyed (s\<lparr>ssPendingEvents := n\<rparr>) = windows_keyed s"
  "windows_keyed (s\<lparr>ssResources := r\<rparr>) = windows_keyed s"
  "windows_keyed (s\<lparr>ssInput := i\<rparr>) = windows_keyed s"
  "windows_keyed (invalidate_scene s) = windows_keyed s"
  unfolding windows_keyed_def by (simp_all only: window_updates) (simp_all add: invalidate_scene_def)

text \<open>The two outcomes of a delivery, for case analysis.\<close>

lemma queue_run:
  assumes ok: "queues_ok s" and run: "queue_events_atomically es s = (q, s1)"
  obtains (refused) "\<not> q" "s1 = s"
    | (accepted) eq n where "q" "s1 = s\<lparr>ssEventQueues := eq, ssPendingEvents := n\<rparr>" "queues_ok s1"
        "\<And>c. queued_events s1 c = queued_events s c @ stamped_for s c es"
proof (cases q)
  case False
  with queues.refused [OF ok, of es s1] run refused show ?thesis by simp
next
  case True
  obtain eq n where "s1 = s\<lparr>ssEventQueues := eq, ssPendingEvents := n\<rparr>"
    using queue_events_server_frame [of es s] run by auto
  moreover have "queues_ok s1" using queues.keeps_inv [OF ok, of es] run by simp
  moreover have "queued_events s1 c = queued_events s c @ stamped_for s c es" for c
    using queues.accepted [OF ok, of es s1] run True by simp
  ultimately show ?thesis using accepted True by blast
qed

lemma queue_run_fields:
  fixes s :: server_state
  assumes "queue_events_atomically es s = (q, s1)"
  shows "ssInput s1 = ssInput s" "ssWindows s1 = ssWindows s" "window s1 k = window s k"
  using queue_events_server_frame [of es s] assms by (auto simp: window_def)

text \<open>The clients a window's event masks select for, in table order.\<close>

definition mask_recipients :: "window_record \<Rightarrow> u32 \<Rightarrow> u32 list" where
  "mask_recipients w bits = map fst (filter (\<lambda>e. (snd e AND bits) \<noteq> 0) (wnEventMasks w))"

subsection \<open>The initial state, field by field\<close>

lemma initial_fields [simp]:
  "ssWindows (initial_state w h n) = [(root_window_id, root_window_record w h)]"
  "ssPropertyBytes (initial_state w h n) = 0"
  "ssEventQueues (initial_state w h n) = []"
  "ssPendingEvents (initial_state w h n) = 0"
  "ssClients (initial_state w h n) = []"
  "ssCurrentTime (initial_state w h n) = 1"
  "ssPixmaps (initial_state w h n) = []"
  "ssSurfaceBytes (initial_state w h n) = n"
  by (simp_all add: initial_state_def)

lemma root_window_fields [simp]:
  "wnId (root_window_record w h) = root_window_id"
  "wnParent (root_window_record w h) = 0"
  "wnChildren (root_window_record w h) = []"
  "wnProperties (root_window_record w h) = []"
  "wnEventMasks (root_window_record w h) = []"
  "wnMapped (root_window_record w h) = True"
  by (simp_all add: root_window_record_def window_default_def)

lemma initial_window: "window (initial_state w h n) root_window_id = Some (root_window_record w h)"
  by (simp add: window_def umap_find_def)

lemma initial_window_only: "window (initial_state w h n) k = Some v \<Longrightarrow> k = root_window_id \<and> v = root_window_record w h"
  by (simp add: window_def umap_find_def split: if_splits)

lemma initial_queues: "queues_ok (initial_state w h n)"
  by (simp add: queues_ok_def umap_sum_def)

lemma initial_windows_keyed: "windows_keyed (initial_state w h n)"
  unfolding windows_keyed_def by (auto dest: initial_window_only simp: umap_ok_def)

end
