(* ===== verification/Window_Properties.thy ===== *)
theory Window_Properties
  imports Window_Store Property_Data
begin

text \<open>
  Window properties (\<^verbatim>\<open>src/server/server_state.cpp\<close>): \<open>queue_property_notifications\<close>,
  \<open>set_property\<close>, \<open>delete_property\<close> and \<open>rotate_properties\<close>, with the server-wide byte budget.
  A \<open>WindowRecord &\<close> argument is the record it refers to; writes through it are \<open>put_window\<close>.
\<close>

definition queue_property_notifications ::
  "window_record \<Rightarrow> u32 list \<Rightarrow> u8 \<Rightarrow> server_state \<Rightarrow> event_delivery \<times> server_state" where
  "queue_property_notifications w properties state s =
     (let recipients = mask_recipients w property_change_mask
      in if properties = [] then (NoRecipient, s)
         else if recipients = [] then (NoRecipient, s)
         else if maximum_pending_events div length recipients < length properties then (QueueFull, s)
         else if size_sub maximum_pending_events (ssPendingEvents s)
                   < length properties * length recipients then (QueueFull, s)
         else let events = concat (map (\<lambda>p. map (\<lambda>c. (c, EvMessage
                      (PropertyNotify state (wnId w) p (ssCurrentTime s)))) recipients) properties);
                  (queued, s1) = queue_events_atomically events s
              in (if queued then Delivered else QueueFull, s1))"

definition set_property ::
  "window_record \<Rightarrow> u32 \<Rightarrow> property_value \<Rightarrow> server_state \<Rightarrow> event_delivery \<times> server_state" where
  "set_property w property value s =
     (let found = umap_find property (wnProperties w);
          old_size = (case found of None \<Rightarrow> 0 | Some p \<Rightarrow> length (pvData p));
          new_size = length (pvData value)
      in if maximum_property_bytes < new_size then (QueueFull, s)
         else if maximum_server_property_bytes - new_size < size_sub (ssPropertyBytes s) old_size
         then (QueueFull, s)
         else
           let w1 = w\<lparr>wnProperties :=
                 (case found of
                    None \<Rightarrow> fst (umap_emplace property value (wnProperties w))
                  | Some p \<Rightarrow> umap_put property value (wnProperties w))\<rparr>;
               s1 = (put_window w1 s)\<lparr>ssPropertyBytes := size_sub (ssPropertyBytes s) old_size + new_size\<rparr>;
               (delivery, s2) = queue_property_notifications w1 [property] 0 s1
           in if delivery \<noteq> QueueFull then (delivery, s2)
              else (QueueFull,
                    put_window (w1\<lparr>wnProperties :=
                        (case found of
                           None \<Rightarrow> umap_erase property (wnProperties w1)
                         | Some p \<Rightarrow> umap_put property p (wnProperties w1))\<rparr>)
                      (s2\<lparr>ssPropertyBytes := size_sub (ssPropertyBytes s2) new_size + old_size\<rparr>)))"

definition delete_property ::
  "window_record \<Rightarrow> u32 \<Rightarrow> server_state \<Rightarrow> event_delivery \<times> server_state" where
  "delete_property w property s =
     (case umap_find property (wnProperties w) of
        None \<Rightarrow> (NoRecipient, s)
      | Some p \<Rightarrow>
          let (delivery, s1) = queue_property_notifications w [property] 1 s
          in if delivery = QueueFull then (delivery, s1)
             else (delivery,
                   put_window (w\<lparr>wnProperties := umap_erase property (wnProperties w)\<rparr>)
                     (s1\<lparr>ssPropertyBytes := size_sub (ssPropertyBytes s1) (length (pvData p))\<rparr>)))"

text \<open>The first loop of \<open>rotate_properties\<close> moves the values out, which leaves their data empty;
  the second moves them in.  Dereferencing the end iterator for an absent property is undefined
  behaviour, the value \<open>None\<close> here; the request handler checks that every atom is present.\<close>

fun take_values ::
  "u32 list \<Rightarrow> (u32, property_value) umap \<Rightarrow> (property_value list \<times> (u32, property_value) umap) option" where
  "take_values [] m = Some ([], m)"
| "take_values (p # ps) m =
     (case umap_find p m of
        None \<Rightarrow> None
      | Some v \<Rightarrow>
          (case take_values ps (umap_put p (v\<lparr>pvData := []\<rparr>) m) of
             None \<Rightarrow> None
           | Some (vs, m') \<Rightarrow> Some (v # vs, m')))"

fun put_values ::
  "(u32 \<times> property_value) list \<Rightarrow> (u32, property_value) umap \<Rightarrow> (u32, property_value) umap option" where
  "put_values [] m = Some m"
| "put_values ((p, v) # ps) m =
     (case umap_find p m of None \<Rightarrow> None | Some _ \<Rightarrow> put_values ps (umap_put p v m))"

definition rotate_properties ::
  "window_record \<Rightarrow> u32 list \<Rightarrow> nat \<Rightarrow> server_state \<Rightarrow> (event_delivery \<times> server_state) option" where
  "rotate_properties w properties given_delta s =
     (if properties = [] then Some (NoRecipient, s)
      else
        let n = length properties;
            delta = given_delta mod n
        in if delta = 0 then Some (NoRecipient, s)
           else
             let (delivery, s1) = queue_property_notifications w properties 0 s
             in if delivery = QueueFull then Some (delivery, s1)
                else (case take_values properties (wnProperties w) of
                        None \<Rightarrow> None
                      | Some (values, taken) \<Rightarrow>
                          (case put_values
                             (map (\<lambda>i. (properties ! ((i + delta) mod n), values ! i)) [0..<n]) taken of
                             None \<Rightarrow> None
                           | Some rotated \<Rightarrow>
                               Some (delivery, put_window (w\<lparr>wnProperties := rotated\<rparr>) s1))))"

subsection \<open>The byte budget\<close>

definition window_property_bytes :: "window_record \<Rightarrow> nat" where
  "window_property_bytes w = umap_sum (\<lambda>v. length (pvData v)) (wnProperties w)"

text \<open>The properties of the XI2 devices share the budget.\<close>

definition device_property_bytes :: "server_state \<Rightarrow> nat" where
  "device_property_bytes s = sum_list (map (umap_sum (\<lambda>v. length (pvData v))) (ssXi2Properties s))"

lemma device_property_bytes_updates [simp]:
  "device_property_bytes (put_window w s) = device_property_bytes s"
  "device_property_bytes (s\<lparr>ssPropertyBytes := n\<rparr>) = device_property_bytes s"
  "device_property_bytes (s\<lparr>ssEventQueues := q\<rparr>) = device_property_bytes s"
  "device_property_bytes (s\<lparr>ssPendingEvents := n\<rparr>) = device_property_bytes s"
  by (simp_all add: device_property_bytes_def put_window_def)

text \<open>The count is exact and within the budget; every value is within its own bound.\<close>

definition properties_ok :: "server_state \<Rightarrow> bool" where
  "properties_ok s \<longleftrightarrow> windows_keyed s \<and>
     (\<forall>k w. window s k = Some w \<longrightarrow> umap_ok (wnProperties w) \<and>
        (\<forall>p v. umap_find p (wnProperties w) = Some v \<longrightarrow> length (pvData v) \<le> maximum_property_bytes)) \<and>
     ssPropertyBytes s = umap_sum window_property_bytes (ssWindows s) + device_property_bytes s \<and>
     ssPropertyBytes s \<le> maximum_server_property_bytes"

lemma properties_okD:
  assumes "properties_ok s"
  shows "windows_keyed s" "umap_ok (ssWindows s)"
    and "window s k = Some w \<Longrightarrow> umap_ok (wnProperties w)"
    and "window s k = Some w \<Longrightarrow> umap_find p (wnProperties w) = Some v \<Longrightarrow>
           length (pvData v) \<le> maximum_property_bytes"
    and "ssPropertyBytes s = umap_sum window_property_bytes (ssWindows s) + device_property_bytes s"
    and "ssPropertyBytes s \<le> maximum_server_property_bytes"
  using assms by (auto simp: properties_ok_def windows_keyed_def)

lemma umap_sum_put_at:
  "umap_ok m \<Longrightarrow> umap_find k m = Some u \<Longrightarrow> umap_sum f (umap_put k v m) = umap_sum f m - f u + f v"
  using umap_sum_put [of m f k v] umap_sum_find_le [of k m u f] by simp

lemma total_put_window:
  assumes "properties_ok s" "window s (wnId w) = Some w" "wnId w' = wnId w"
  shows "umap_sum window_property_bytes (ssWindows (put_window w' s)) + device_property_bytes s =
    ssPropertyBytes s - window_property_bytes w + window_property_bytes w'"
    and "window_property_bytes w \<le> ssPropertyBytes s"
proof -
  have f: "umap_find (wnId w) (ssWindows s) = Some w" using assms(2) by (simp add: window_def)
  show "umap_sum window_property_bytes (ssWindows (put_window w' s)) + device_property_bytes s =
    ssPropertyBytes s - window_property_bytes w + window_property_bytes w'"
    using umap_sum_put_at [OF properties_okD(2) [OF assms(1)] f, of window_property_bytes w'] assms(3)
      umap_sum_find_le [OF f, of window_property_bytes]
    by (simp add: put_window_def properties_okD(5) [OF assms(1)])
  show "window_property_bytes w \<le> ssPropertyBytes s"
    using umap_sum_find_le [OF f, of window_property_bytes]
    by (simp add: properties_okD(5) [OF assms(1)])
qed

lemma properties_ok_put_window:
  assumes ok: "properties_ok s" and w: "window s (wnId w) = Some w" and same: "wnId w' = wnId w"
    and wf: "umap_ok (wnProperties w')"
    and each: "\<And>p v. umap_find p (wnProperties w') = Some v \<Longrightarrow> length (pvData v) \<le> maximum_property_bytes"
    and n: "n = ssPropertyBytes s - window_property_bytes w + window_property_bytes w'"
    and le: "n \<le> maximum_server_property_bytes"
  shows "properties_ok ((put_window w' s)\<lparr>ssPropertyBytes := n\<rparr>)"
proof -
  have keyed: "windows_keyed (put_window w' s)" using properties_okD(1) [OF ok] by simp
  then have keyed': "windows_keyed ((put_window w' s)\<lparr>ssPropertyBytes := n\<rparr>)"
    by simp
  show ?thesis
    unfolding properties_ok_def
  proof (intro conjI allI impI)
    fix k v
    assume v: "window ((put_window w' s)\<lparr>ssPropertyBytes := n\<rparr>) k = Some v"
    show "umap_ok (wnProperties v)"
      using v wf properties_okD(3) [OF ok, of k v] by (simp split: if_splits)
    show "length (pvData u) \<le> maximum_property_bytes" if "umap_find p (wnProperties v) = Some u" for p u
      using v that each properties_okD(4) [OF ok, of k v p u] by (simp split: if_splits)
  next
    show "ssPropertyBytes ((put_window w' s)\<lparr>ssPropertyBytes := n\<rparr>) =
        umap_sum window_property_bytes (ssWindows ((put_window w' s)\<lparr>ssPropertyBytes := n\<rparr>)) +
        device_property_bytes ((put_window w' s)\<lparr>ssPropertyBytes := n\<rparr>)"
      using total_put_window(1) [OF ok w same] n by simp
  qed (use keyed' le in simp_all)
qed

subsection \<open>Notifications\<close>

definition property_events ::
  "server_state \<Rightarrow> window_record \<Rightarrow> u8 \<Rightarrow> u32 list \<Rightarrow> planned_event list" where
  "property_events s w state properties =
     concat (map (\<lambda>p. map (\<lambda>c. (c, EvMessage (PropertyNotify state (wnId w) p (ssCurrentTime s))))
       (mask_recipients w property_change_mask)) properties)"

lemma property_events_updates [simp]:
  "property_events ((put_window v s)\<lparr>ssPropertyBytes := n\<rparr>) w st ps = property_events s w st ps"
  "property_events s (w\<lparr>wnProperties := m\<rparr>) st ps = property_events s w st ps"
  by (simp_all add: property_events_def mask_recipients_def)

lemma property_notifications_run:
  assumes ok: "queues_ok s" and run: "queue_property_notifications w ps st s = (d, s')"
  shows "d = QueueFull \<Longrightarrow> s' = s"
    and "d \<noteq> QueueFull \<Longrightarrow> queued_events s' c = queued_events s c @ stamped_for s c (property_events s w st ps)"
    and "queues_ok s'"
    and "\<exists>q n. s' = s\<lparr>ssEventQueues := q, ssPendingEvents := n\<rparr>"
proof -
  obtain b t where q: "queue_events_atomically (property_events s w st ps) s = (b, t)"
    by (rule prod.exhaust)
  have frame: "\<exists>q n. t = s\<lparr>ssEventQueues := q, ssPendingEvents := n\<rparr>"
    using queue_events_server_frame [of "property_events s w st ps" s] q by simp
  have keeps: "queues_ok t" using queues.keeps_inv [OF ok, of "property_events s w st ps"] q by simp
  have cases: "d = QueueFull \<and> s' = s \<or> d \<noteq> QueueFull \<and> s' = s \<and> property_events s w st ps = [] \<or>
      s' = t \<and> d = (if b then Delivered else QueueFull)"
    using run q
    by (auto simp: queue_property_notifications_def Let_def property_events_def [symmetric]
        split: if_splits prod.splits)
      (simp_all add: property_events_def)
  show "d = QueueFull \<Longrightarrow> s' = s"
    using cases q queues.refused [OF ok] by (auto split: if_splits)
  show "d \<noteq> QueueFull \<Longrightarrow> queued_events s' c = queued_events s c @ stamped_for s c (property_events s w st ps)"
    using cases q queues.accepted [OF ok] by (cases b) auto
  show "queues_ok s'" using cases ok keeps by auto
  show "\<exists>q n. s' = s\<lparr>ssEventQueues := q, ssPendingEvents := n\<rparr>" using cases queue_frame_refl [of s] frame by auto
qed

lemma properties_ok_queues:
  "properties_ok s \<Longrightarrow> properties_ok (s\<lparr>ssEventQueues := q, ssPendingEvents := n\<rparr>)"
  unfolding properties_ok_def by simp

subsection \<open>Setting and deleting\<close>

lemma set_put_back:
  assumes "umap_find p m = found"
    and "m1 = (case found of None \<Rightarrow> fst (umap_emplace p v m) | Some u \<Rightarrow> umap_put p v m)"
  shows "(case found of None \<Rightarrow> umap_erase p m1 | Some u \<Rightarrow> umap_put p u m1) = m"
proof (cases found)
  case None
  with assms have "p \<notin> fst ` set m" by (simp add: umap_find_keys)
  with None assms show ?thesis
    by (simp add: umap_emplace_def umap_contains_def umap_erase_def AList.delete_eq filter_id_conv) force
next
  case (Some u)
  with assms show ?thesis
    by (simp add: umap_put_def umap_find_def update_update_same update_restore)
qed

lemma set_property_map:
  assumes "umap_ok m"
    and "m1 = (case umap_find p m of None \<Rightarrow> fst (umap_emplace p v m) | Some u \<Rightarrow> umap_put p v m)"
  shows "umap_ok m1" "umap_find q m1 = (if q = p then Some v else umap_find q m)"
    and "umap_sum f m1 = umap_sum f m - (case umap_find p m of None \<Rightarrow> 0 | Some u \<Rightarrow> f u) + f v"
proof -
  show "umap_ok m1" "umap_find q m1 = (if q = p then Some v else umap_find q m)"
    using assms by (auto simp: umap_find_emplace umap_contains_def split: option.splits)
  show "umap_sum f m1 = umap_sum f m - (case umap_find p m of None \<Rightarrow> 0 | Some u \<Rightarrow> f u) + f v"
  proof (cases "umap_find p m")
    case None
    with assms show ?thesis by (simp add: umap_emplace_def umap_contains_def umap_sum_def)
  next
    case (Some u)
    with assms show ?thesis by (simp add: umap_sum_put_at)
  qed
qed

lemma set_property_effect_run:
  assumes qok: "queues_ok s" and ok: "properties_ok s" and w: "window s (wnId w) = Some w"
    and run: "set_property w p v s = (d, s')"
  shows "queues_ok s' \<and> properties_ok s' \<and>
    (d = QueueFull \<longrightarrow> s' = s) \<and>
    (d \<noteq> QueueFull \<longrightarrow>
       (\<exists>m. window s' (wnId w) = Some (w\<lparr>wnProperties := m\<rparr>) \<and>
          (\<forall>q. umap_find q m = (if q = p then Some v else umap_find q (wnProperties w)))) \<and>
       (\<forall>k. k \<noteq> wnId w \<longrightarrow> window s' k = window s k) \<and>
       (\<forall>c. queued_events s' c = queued_events s c @ stamped_for s c (property_events s w 0 [p])))"
proof -
  define found where "found = umap_find p (wnProperties w)"
  define old where "old = (case found of None \<Rightarrow> 0 | Some u \<Rightarrow> length (pvData u))"
  define m1 where "m1 = (case found of None \<Rightarrow> fst (umap_emplace p v (wnProperties w))
                         | Some u \<Rightarrow> umap_put p v (wnProperties w))"
  define w1 where "w1 = w\<lparr>wnProperties := m1\<rparr>"
  define n where "n = ssPropertyBytes s - old + length (pvData v)"
  define s1 where "s1 = (put_window w1 s)\<lparr>ssPropertyBytes := n\<rparr>"
  obtain d1 s2 where q: "queue_property_notifications w1 [p] 0 s1 = (d1, s2)" by (rule prod.exhaust)
  have wok: "umap_ok (wnProperties w)" using properties_okD(3) [OF ok w] .
  note m1 = set_property_map [OF wok, of m1 p v, folded found_def, OF m1_def]
  have old_le: "old \<le> window_property_bytes w" "window_property_bytes w \<le> ssPropertyBytes s"
    using total_put_window(2) [OF ok w, of w]
    by (auto simp: old_def found_def window_property_bytes_def split: option.splits
        intro!: umap_sum_find_le [of p _ _ "\<lambda>v. length (pvData v)"])
  show ?thesis
  proof (cases "length (pvData v) \<le> maximum_property_bytes \<and>
      ssPropertyBytes s - old \<le> maximum_server_property_bytes - length (pvData v)")
    case False
    then have "d = QueueFull" "s' = s"
      using run old_le
      by (auto simp: set_property_def Let_def found_def [symmetric] old_def [symmetric] split: if_splits)
    with qok ok show ?thesis by simp
  next
    case True
    have "length (pvData v) \<le> maximum_server_property_bytes"
      using True by (simp add: maximum_property_bytes_def maximum_server_property_bytes_def)
    with True have n_le: "n \<le> maximum_server_property_bytes" unfolding n_def by linarith
    have res: "(d, s') = (if d1 \<noteq> QueueFull then (d1, s2)
        else (QueueFull, put_window (w1\<lparr>wnProperties := wnProperties w\<rparr>)
               (s2\<lparr>ssPropertyBytes := size_sub (ssPropertyBytes s2) (length (pvData v)) + old\<rparr>)))"
      using run True q old_le set_put_back [OF found_def [symmetric] m1_def]
      by (simp add: set_property_def Let_def found_def [symmetric] old_def [symmetric] m1_def [symmetric]
          n_def [symmetric] w1_def s1_def)
        (cases found; simp add: old_def split: if_split_asm)
    have ok1: "properties_ok s1" unfolding s1_def
    proof (rule properties_ok_put_window [OF ok w])
      show "wnId w1 = wnId w" "umap_ok (wnProperties w1)" using m1(1) by (simp_all add: w1_def)
      show "length (pvData u) \<le> maximum_property_bytes" if "umap_find a (wnProperties w1) = Some u" for a u
        using that m1(2) True properties_okD(4) [OF ok w, of a u] by (simp add: w1_def split: if_splits)
      show "n = ssPropertyBytes s - window_property_bytes w + window_property_bytes w1"
        using m1(3) [of "\<lambda>v. length (pvData v)"] old_le
        by (simp add: window_property_bytes_def w1_def n_def old_def)
    qed (rule n_le)
    have qok1: "queues_ok s1" using qok by (simp add: s1_def)
    note Q = property_notifications_run [OF qok1 q]
    have ok2: "properties_ok s2" using Q(4) ok1 by (auto intro: properties_ok_queues)
    show ?thesis
    proof (cases "d1 = QueueFull")
      case full: True
      have "s' = s"
        using res full Q(1) put_window_same [OF properties_okD(1) [OF ok] w] old_le
        by (simp add: s1_def w1_def n_def put_window_put) (simp add: put_window_def umap_put_def update_update_same)
      moreover have "d = QueueFull" using res full by simp
      ultimately show ?thesis using qok ok by simp
    next
      case False
      then have r: "d = d1" "s' = s2" using res by simp_all
      have "window s2 k = window s1 k" for k using Q(4) by auto
      with False r ok2 Q(2,3) m1(2) show ?thesis by (auto simp: s1_def w1_def intro!: exI [of _ m1])
    qed
  qed
qed

text \<open>C17. Storing a property is one atomic step.  When the value fits its own bound and the
  server-wide budget and the notifications fit the queues, the property has exactly the new value,
  no other property of any window changes, every client that selected for property changes is told
  once, and the byte count stays exact; otherwise nothing changes.\<close>

theorem set_property_effect:
  assumes qok: "queues_ok s" and ok: "properties_ok s" and w: "window s (wnId w) = Some w"
    and run: "set_property w p v s = (d, s')"
  shows "queues_ok s' \<and> properties_ok s' \<and>
    (d = QueueFull \<longrightarrow> s' = s) \<and>
    (d \<noteq> QueueFull \<longrightarrow>
       (\<exists>m. window s' (wnId w) = Some (w\<lparr>wnProperties := m\<rparr>) \<and>
          (\<forall>q. umap_find q m = (if q = p then Some v else umap_find q (wnProperties w)))) \<and>
       (\<forall>k. k \<noteq> wnId w \<longrightarrow> window s' k = window s k) \<and>
       (\<forall>c. queued_events s' c = queued_events s c @ stamped_for s c (property_events s w 0 [p])))"
  using assms by (rule set_property_effect_run)

text \<open>A screen, its root window and a value, on which the witnesses run.\<close>

definition sample_value :: "nat \<Rightarrow> property_value" where
  "sample_value n = \<lparr>pvType = 31, pvFormat = 8, pvData = replicate n 7\<rparr>"

lemma initial_device_bytes [simp]: "device_property_bytes (initial_state w h n) = 0"
  by (simp add: device_property_bytes_def initial_state_def umap_sum_def)

lemma initial_properties_ok: "properties_ok (initial_state w h n)"
  unfolding properties_ok_def
  by (auto dest: initial_window_only simp: initial_windows_keyed)
    (simp_all add: umap_sum_def window_property_bytes_def)

theorem set_property_effect_witness:
  "\<exists>m. window (snd (set_property (root_window_record 640 480) 39 (sample_value 3)
      (initial_state 640 480 0))) root_window_id = Some ((root_window_record 640 480)\<lparr>wnProperties := m\<rparr>) \<and>
    umap_find 39 m = Some (sample_value 3)"
proof -
  let ?s = "initial_state 640 480 0" and ?w = "root_window_record 640 480"
  have "fst (set_property ?w 39 (sample_value 3) ?s) = NoRecipient"
    by (simp add: set_property_def sample_value_def maximum_property_bytes_def
        maximum_server_property_bytes_def queue_property_notifications_def mask_recipients_def)
  then obtain s' where run: "set_property ?w 39 (sample_value 3) ?s = (NoRecipient, s')"
    by (cases "set_property ?w 39 (sample_value 3) ?s") simp
  have w: "window ?s (wnId ?w) = Some ?w" by (simp add: initial_window)
  show ?thesis
    using set_property_effect [OF initial_queues initial_properties_ok w run] run by auto
qed

text \<open>Deleting a property is one atomic step: an absent property is left alone without a
  notification; otherwise, when the notifications fit, exactly that property is gone, its bytes are
  returned to the budget and every client that selected for property changes is told.\<close>

theorem delete_property_effect:
  assumes qok: "queues_ok s" and ok: "properties_ok s" and w: "window s (wnId w) = Some w"
    and run: "delete_property w p s = (d, s')"
  shows "queues_ok s' \<and> properties_ok s' \<and>
    (d = QueueFull \<or> umap_find p (wnProperties w) = None \<longrightarrow> s' = s) \<and>
    (\<forall>v. d \<noteq> QueueFull \<and> umap_find p (wnProperties w) = Some v \<longrightarrow>
       window s' (wnId w) = Some (w\<lparr>wnProperties := umap_erase p (wnProperties w)\<rparr>) \<and>
       (\<forall>k. k \<noteq> wnId w \<longrightarrow> window s' k = window s k) \<and>
       ssPropertyBytes s' + length (pvData v) = ssPropertyBytes s \<and>
       (\<forall>c. queued_events s' c = queued_events s c @ stamped_for s c (property_events s w 1 [p])))"
proof (cases "umap_find p (wnProperties w)")
  case None
  with run qok ok show ?thesis by (simp add: delete_property_def)
next
  case (Some v)
  obtain d1 s1 where q: "queue_property_notifications w [p] 1 s = (d1, s1)" by (rule prod.exhaust)
  note Q = property_notifications_run [OF qok q]
  define w' where "w' = w\<lparr>wnProperties := umap_erase p (wnProperties w)\<rparr>"
  have wok: "umap_ok (wnProperties w)" using properties_okD(3) [OF ok w] .
  have ok1: "properties_ok s1" using Q(4) ok by (auto intro: properties_ok_queues)
  have same: "window s1 k = window s k" "ssPropertyBytes s1 = ssPropertyBytes s" for k using Q(4) by auto
  have bytes: "window_property_bytes w' + length (pvData v) = window_property_bytes w"
    using umap_sum_erase [OF wok, of "\<lambda>v. length (pvData v)" p] Some
    by (simp add: window_property_bytes_def w'_def)
  have le: "window_property_bytes w \<le> ssPropertyBytes s" using total_put_window(2) [OF ok w, of w] by simp
  show ?thesis
  proof (cases "d1 = QueueFull")
    case True
    then have "d = QueueFull" "s' = s" using run q Some Q(1) by (simp_all add: delete_property_def)
    with qok ok show ?thesis by simp
  next
    case False
    define n where "n = ssPropertyBytes s - length (pvData v)"
    have r: "d = d1" "s' = (put_window w' s1)\<lparr>ssPropertyBytes := n\<rparr>"
      using run q Some False same bytes le
      by (auto simp: delete_property_def w'_def put_window_def n_def)
    have "properties_ok s'" unfolding r
    proof (rule properties_ok_put_window [OF ok1])
      show "window s1 (wnId w) = Some w" using w same by simp
      show "wnId w' = wnId w" "umap_ok (wnProperties w')" using wok by (simp_all add: w'_def)
      show "length (pvData u) \<le> maximum_property_bytes" if "umap_find a (wnProperties w') = Some u" for a u
        using that properties_okD(4) [OF ok w, of a u] by (simp add: w'_def split: if_splits)
      show "n = ssPropertyBytes s1 - window_property_bytes w + window_property_bytes w'"
        using bytes le same by (simp add: n_def)
      show "n \<le> maximum_server_property_bytes" using properties_okD(6) [OF ok] by (simp add: n_def)
    qed
    moreover have "length (pvData v) \<le> ssPropertyBytes s" using bytes le by simp
    ultimately show ?thesis
      using False Some r same Q(2,3) by (simp add: w'_def n_def)
  qed
qed

theorem delete_property_effect_witness:
  "delete_property (root_window_record 640 480) 39 (initial_state 640 480 0) =
     (NoRecipient, initial_state 640 480 0)"
proof -
  let ?s = "initial_state 640 480 0" and ?w = "root_window_record 640 480"
  obtain d s' where run: "delete_property ?w 39 ?s = (d, s')" by (rule prod.exhaust)
  have w: "window ?s (wnId ?w) = Some ?w" by (simp add: initial_window)
  have "d = NoRecipient" using run by (simp add: delete_property_def)
  then show ?thesis
    using delete_property_effect [OF initial_queues initial_properties_ok w run] run by simp
qed

subsection \<open>Rotating\<close>

lemma take_values_run:
  assumes "umap_ok m" "distinct ps" "\<forall>p \<in> set ps. umap_find p m \<noteq> None"
  shows "\<exists>m'. take_values ps m = Some (map (\<lambda>p. the (umap_find p m)) ps, m') \<and> umap_ok m' \<and>
     (\<forall>q. umap_find q m' = (if q \<in> set ps then map_option (\<lambda>v. v\<lparr>pvData := []\<rparr>) (umap_find q m)
                          else umap_find q m)) \<and>
     umap_sum (\<lambda>v. length (pvData v)) m' + sum_list (map (\<lambda>p. length (pvData (the (umap_find p m)))) ps) =
     umap_sum (\<lambda>v. length (pvData v)) m"
  using assms
proof (induction ps arbitrary: m)
  case Nil
  then show ?case by simp
next
  case (Cons p ps)
  from Cons.prems(3) obtain v where v: "umap_find p m = Some v" by auto
  let ?m = "umap_put p (v\<lparr>pvData := []\<rparr>) m"
  have sum: "umap_sum (\<lambda>v. length (pvData v)) ?m + length (pvData v) = umap_sum (\<lambda>v. length (pvData v)) m"
    using umap_sum_put [OF Cons.prems(1), of "\<lambda>v. length (pvData v)" p "v\<lparr>pvData := []\<rparr>"] v by simp
  have others: "map (\<lambda>q. the (umap_find q ?m)) ps = map (\<lambda>q. the (umap_find q m)) ps"
    "map (\<lambda>q. length (pvData (the (umap_find q ?m)))) ps = map (\<lambda>q. length (pvData (the (umap_find q m)))) ps"
    using Cons.prems(2) by auto
  have prem: "distinct ps" "\<forall>q \<in> set ps. umap_find q ?m \<noteq> None" using Cons.prems(2,3) by simp_all
  from Cons.IH [OF umap_ok_put [OF Cons.prems(1)] prem]
  obtain m' where m': "take_values ps ?m = Some (map (\<lambda>p. the (umap_find p ?m)) ps, m')" "umap_ok m'"
     "\<forall>q. umap_find q m' = (if q \<in> set ps then map_option (\<lambda>v. v\<lparr>pvData := []\<rparr>) (umap_find q ?m)
                          else umap_find q ?m)"
     "umap_sum (\<lambda>v. length (pvData v)) m' + sum_list (map (\<lambda>p. length (pvData (the (umap_find p ?m)))) ps) =
        umap_sum (\<lambda>v. length (pvData v)) ?m"
    by blast
  have total: "umap_sum (\<lambda>v. length (pvData v)) m' +
      sum_list (map (\<lambda>q. length (pvData (the (umap_find q m)))) (p # ps)) = umap_sum (\<lambda>v. length (pvData v)) m"
    using m'(4) sum v unfolding others(2) by simp
  show ?case
  proof (intro exI [of _ m'] conjI)
    show "take_values (p # ps) m = Some (map (\<lambda>q. the (umap_find q m)) (p # ps), m')"
      using m'(1) v unfolding others(1) by simp
    show "\<forall>q. umap_find q m' = (if q \<in> set (p # ps) then map_option (\<lambda>v. v\<lparr>pvData := []\<rparr>) (umap_find q m)
                          else umap_find q m)"
      using m'(3) Cons.prems(2) v by auto
  qed (use m'(2) total in simp_all)
qed

lemma put_values_run:
  assumes "umap_ok m" "distinct (map fst pvs)"
    and "\<forall>p \<in> fst ` set pvs. \<exists>u. umap_find p m = Some u \<and> pvData u = []"
  shows "\<exists>m'. put_values pvs m = Some m' \<and> umap_ok m' \<and>
     (\<forall>q. umap_find q m' = (case map_of pvs q of Some v \<Rightarrow> Some v | None \<Rightarrow> umap_find q m)) \<and>
     umap_sum (\<lambda>v. length (pvData v)) m' =
       umap_sum (\<lambda>v. length (pvData v)) m + sum_list (map (\<lambda>e. length (pvData (snd e))) pvs)"
  using assms
proof (induction pvs arbitrary: m)
  case Nil
  then show ?case by simp
next
  case (Cons e pvs)
  obtain p v where e: "e = (p, v)" by (cases e)
  from Cons.prems(3) e obtain u where u: "umap_find p m = Some u" "pvData u = []" by auto
  let ?m = "umap_put p v m"
  have sum: "umap_sum (\<lambda>v. length (pvData v)) ?m = umap_sum (\<lambda>v. length (pvData v)) m + length (pvData v)"
    using umap_sum_put [OF Cons.prems(1), of "\<lambda>v. length (pvData v)" p v] u by simp
  have "\<forall>q \<in> fst ` set pvs. \<exists>u. umap_find q ?m = Some u \<and> pvData u = []"
    using Cons.prems(2,3) e by auto
  then obtain m' where m': "put_values pvs ?m = Some m'" "umap_ok m'"
     "\<forall>q. umap_find q m' = (case map_of pvs q of Some v \<Rightarrow> Some v | None \<Rightarrow> umap_find q ?m)"
     "umap_sum (\<lambda>v. length (pvData v)) m' =
       umap_sum (\<lambda>v. length (pvData v)) ?m + sum_list (map (\<lambda>e. length (pvData (snd e))) pvs)"
    using Cons.IH [of ?m] Cons.prems e by auto
  have "map_of pvs p = None" using Cons.prems(2) e by (simp add: map_of_eq_None_iff)
  then show ?case
    using m' u sum e by (intro exI [of _ m']) (auto split: option.splits)
qed

lemma rotate_index_inj:
  fixes d n :: nat
  assumes "d < n"
  shows "inj_on (\<lambda>i. (i + d) mod n) {0..<n}" "i < n \<Longrightarrow> (i + d) mod n < n"
proof -
  have m: "(i + d) mod n = (if i + d < n then i + d else i + d - n)" if "i < n" for i
    using that assms by (simp add: mod_if)
  show "inj_on (\<lambda>i. (i + d) mod n) {0..<n}"
    by (rule inj_onI) (auto simp: m split: if_splits)
  show "i < n \<Longrightarrow> (i + d) mod n < n" using assms by simp
qed

text \<open>What the two loops make of the map.\<close>

lemma rotated_map:
  assumes ok: "umap_ok M" and ps: "distinct ps" "\<forall>p \<in> set ps. umap_find p M \<noteq> None"
    and n: "n = length ps" and d: "d < n"
    and vs: "vs = map (\<lambda>p. the (umap_find p M)) ps"
    and pvs: "pvs = map (\<lambda>i. (ps ! ((i + d) mod n), vs ! i)) [0..<n]"
  shows "\<exists>taken m. take_values ps M = Some (vs, taken) \<and> put_values pvs taken = Some m \<and> umap_ok m \<and>
    umap_sum (\<lambda>v. length (pvData v)) m = umap_sum (\<lambda>v. length (pvData v)) M \<and>
    (\<forall>i < n. umap_find (ps ! ((i + d) mod n)) m = umap_find (ps ! i) M) \<and>
    (\<forall>q. q \<notin> set ps \<longrightarrow> umap_find q m = umap_find q M) \<and>
    (\<forall>q v. umap_find q m = Some v \<longrightarrow> (\<exists>p. umap_find p M = Some v))"
proof -
  obtain taken where T: "take_values ps M = Some (vs, taken)" "umap_ok taken"
     "\<And>q. umap_find q taken = (if q \<in> set ps then map_option (\<lambda>v. v\<lparr>pvData := []\<rparr>) (umap_find q M)
                        else umap_find q M)"
     "umap_sum (\<lambda>v. length (pvData v)) taken + sum_list (map (\<lambda>p. length (pvData (the (umap_find p M)))) ps) =
        umap_sum (\<lambda>v. length (pvData v)) M"
    using take_values_run [OF ok ps] by (auto simp: vs)
  have "inj_on (\<lambda>i. ps ! ((i + d) mod n)) {0..<n}"
  proof (rule inj_onI)
    fix i j
    assume ij: "i \<in> {0..<n}" "j \<in> {0..<n}" "ps ! ((i + d) mod n) = ps ! ((j + d) mod n)"
    have "(i + d) mod n < length ps" "(j + d) mod n < length ps"
      using rotate_index_inj(2) [OF d, of i] rotate_index_inj(2) [OF d, of j] ij(1,2) n by simp_all
    with ij(3) ps(1) have "(i + d) mod n = (j + d) mod n" by (simp add: nth_eq_iff_index_eq)
    with ij(1,2) show "i = j" using inj_onD [OF rotate_index_inj(1) [OF d]] by blast
  qed
  moreover have "map fst pvs = map (\<lambda>i. ps ! ((i + d) mod n)) [0..<n]" by (simp add: pvs)
  ultimately have dist: "distinct (map fst pvs)" by (simp add: distinct_map)
  have sub: "fst ` set pvs \<subseteq> set ps" using rotate_index_inj(2) [OF d] n by (auto simp: pvs)
  have "card (fst ` set pvs) = card (set ps)"
    using distinct_card [OF dist] distinct_card [OF ps(1)] n unfolding set_map by (simp add: pvs)
  with sub have keys: "fst ` set pvs = set ps" by (simp add: card_subset_eq)
  have "\<forall>p \<in> fst ` set pvs. \<exists>u. umap_find p taken = Some u \<and> pvData u = []"
    using sub ps(2) by (force simp: T(3))
  from put_values_run [OF T(2) dist this] obtain m where M: "put_values pvs taken = Some m" "umap_ok m"
     "\<And>q. umap_find q m = (case map_of pvs q of Some v \<Rightarrow> Some v | None \<Rightarrow> umap_find q taken)"
     "umap_sum (\<lambda>v. length (pvData v)) m = umap_sum (\<lambda>v. length (pvData v)) taken +
        sum_list (map (\<lambda>e. length (pvData (snd e))) pvs)" by blast
  have "map (\<lambda>e. length (pvData (snd e))) pvs = map (\<lambda>v. length (pvData v)) (map (\<lambda>i. vs ! i) [0..<length vs])"
    by (simp add: pvs vs n)
  then have "sum_list (map (\<lambda>e. length (pvData (snd e))) pvs) =
      sum_list (map (\<lambda>p. length (pvData (the (umap_find p M)))) ps)"
    by (simp only: map_nth) (simp add: vs o_def)
  with M(4) T(4) have sum: "umap_sum (\<lambda>v. length (pvData v)) m = umap_sum (\<lambda>v. length (pvData v)) M" by simp
  have at: "umap_find (ps ! ((i + d) mod n)) m = umap_find (ps ! i) M" if i: "i < n" for i
  proof -
    have "(ps ! ((i + d) mod n), vs ! i) \<in> set pvs" using i by (auto simp: pvs)
    with dist have "map_of pvs (ps ! ((i + d) mod n)) = Some (vs ! i)" by simp
    moreover obtain v where "umap_find (ps ! i) M = Some v" using i ps(2) n by force
    ultimately show ?thesis using M(3) i n by (simp add: vs)
  qed
  have out: "umap_find q m = umap_find q M" if "q \<notin> set ps" for q
  proof -
    have "map_of pvs q = None" using that keys by (simp add: map_of_eq_None_iff)
    with M(3) [of q] T(3) [of q] that show ?thesis by simp
  qed
  have "\<exists>p. umap_find p M = Some v" if f: "umap_find q m = Some v" for q v
  proof (cases "q \<in> set ps")
    case True
    then have "q \<in> fst ` set pvs" using keys by simp
    then obtain i where "i < n" "q = ps ! ((i + d) mod n)" by (auto simp: pvs)
    with at f show ?thesis by auto
  qed (use out f in auto)
  with T(1) M(1,2) sum at out show ?thesis by blast
qed

lemma rotate_properties_exact_run:
  assumes qok: "queues_ok s" and ok: "properties_ok s" and w: "window s (wnId w) = Some w"
    and ps: "distinct ps" "\<forall>p \<in> set ps. umap_find p (wnProperties w) \<noteq> None"
  shows "\<exists>d s' m. rotate_properties w ps delta s = Some (d, s') \<and> queues_ok s' \<and> properties_ok s' \<and>
    (d = QueueFull \<longrightarrow> s' = s) \<and> ssPropertyBytes s' = ssPropertyBytes s \<and>
    window s' (wnId w) = Some (w\<lparr>wnProperties := m\<rparr>) \<and>
    (\<forall>k. k \<noteq> wnId w \<longrightarrow> window s' k = window s k) \<and>
    (\<forall>q. q \<notin> set ps \<longrightarrow> umap_find q m = umap_find q (wnProperties w)) \<and>
    (d \<noteq> QueueFull \<longrightarrow> (\<forall>i < length ps.
       umap_find (ps ! ((i + delta) mod length ps)) m = umap_find (ps ! i) (wnProperties w)))"
proof (cases "ps = [] \<or> delta mod length ps = 0")
  case True
  have "(i + delta) mod length ps = i" if "i < length ps" for i
  proof -
    have "(i + delta) mod length ps = (i + delta mod length ps) mod length ps" by (simp add: mod_add_right_eq)
    also have "delta mod length ps = 0" using True that by auto
    finally show ?thesis using that by simp
  qed
  with True qok ok w show ?thesis
    by (intro exI [of _ NoRecipient] exI [of _ s] exI [of _ "wnProperties w"])
      (auto simp: rotate_properties_def Let_def)
next
  case False
  define n where "n = length ps"
  define d where "d = delta mod n"
  have d: "d \<noteq> 0" "d < n" "ps \<noteq> []" using False by (auto simp: d_def n_def)
  have mod_d: "(i + delta) mod n = (i + d) mod n" for i by (simp add: d_def mod_add_right_eq)
  obtain e s1 where q: "queue_property_notifications w ps 0 s = (e, s1)" by (rule prod.exhaust)
  note Q = property_notifications_run [OF qok q]
  have wok: "umap_ok (wnProperties w)" using properties_okD(3) [OF ok w] .
  show ?thesis
  proof (cases "e = QueueFull")
    case True
    with q Q(1) d have "rotate_properties w ps delta s = Some (QueueFull, s)"
      by (simp add: rotate_properties_def Let_def n_def d_def)
    with qok ok w show ?thesis by (intro exI [of _ "wnProperties w"] exI [of _ s] exI [of _ QueueFull]) simp
  next
    case delivered: False
    define vs where "vs = map (\<lambda>p. the (umap_find p (wnProperties w))) ps"
    obtain taken m where M: "take_values ps (wnProperties w) = Some (vs, taken)"
      "put_values (map (\<lambda>i. (ps ! ((i + d) mod n), vs ! i)) [0..<n]) taken = Some m" "umap_ok m"
      "umap_sum (\<lambda>v. length (pvData v)) m = umap_sum (\<lambda>v. length (pvData v)) (wnProperties w)"
      "\<forall>i < n. umap_find (ps ! ((i + d) mod n)) m = umap_find (ps ! i) (wnProperties w)"
      "\<forall>q. q \<notin> set ps \<longrightarrow> umap_find q m = umap_find q (wnProperties w)"
      "\<forall>q v. umap_find q m = Some v \<longrightarrow> (\<exists>p. umap_find p (wnProperties w) = Some v)"
      using rotated_map [OF wok ps n_def d(2) vs_def refl] by blast
    let ?w = "w\<lparr>wnProperties := m\<rparr>"
    have same: "window s1 k = window s k" "ssPropertyBytes s1 = ssPropertyBytes s" for k using Q(4) by auto
    have "properties_ok ((put_window ?w s1)\<lparr>ssPropertyBytes := ssPropertyBytes s\<rparr>)"
    proof (rule properties_ok_put_window)
      show "properties_ok s1" using Q(4) ok by (auto intro: properties_ok_queues)
      show "window s1 (wnId w) = Some w" using w same by simp
      show "length (pvData u) \<le> maximum_property_bytes" if "umap_find a (wnProperties ?w) = Some u" for a u
        using that M(7) properties_okD(4) [OF ok w, of _ u] by auto
      show "ssPropertyBytes s = ssPropertyBytes s1 - window_property_bytes w + window_property_bytes ?w"
        using M(4) total_put_window(2) [OF ok w, of w] same by (simp add: window_property_bytes_def)
    qed (use M(3) properties_okD(6) [OF ok] in simp_all)
    moreover have "(put_window ?w s1)\<lparr>ssPropertyBytes := ssPropertyBytes s\<rparr> = put_window ?w s1"
      using same by (simp add: put_window_def)
    moreover have "rotate_properties w ps delta s = Some (e, put_window ?w s1)"
      using q delivered d M(1,2) by (simp add: rotate_properties_def Let_def n_def [symmetric] d_def [symmetric])
    ultimately show ?thesis
      using Q(3) delivered same M(5,6)
      by (intro exI [of _ m] exI [of _ "put_window ?w s1"] exI [of _ e])
        (simp add: mod_d n_def [symmetric])
  qed
qed

text \<open>C27. Rotating is exact.  For the distinct, present atoms the request handler passes, the call
  never runs into the undefined behaviour of an absent property; when the notifications fit, the
  property \<open>delta\<close> places further on (cyclically) has the old value of each listed one, every
  other property and window is untouched and the byte count is unchanged; when they do not fit
  nothing changes.\<close>

theorem rotate_properties_exact:
  assumes qok: "queues_ok s" and ok: "properties_ok s" and w: "window s (wnId w) = Some w"
    and ps: "distinct ps" "\<forall>p \<in> set ps. umap_find p (wnProperties w) \<noteq> None"
  shows "\<exists>d s' m. rotate_properties w ps delta s = Some (d, s') \<and> queues_ok s' \<and> properties_ok s' \<and>
    (d = QueueFull \<longrightarrow> s' = s) \<and> ssPropertyBytes s' = ssPropertyBytes s \<and>
    window s' (wnId w) = Some (w\<lparr>wnProperties := m\<rparr>) \<and>
    (\<forall>k. k \<noteq> wnId w \<longrightarrow> window s' k = window s k) \<and>
    (\<forall>q. q \<notin> set ps \<longrightarrow> umap_find q m = umap_find q (wnProperties w)) \<and>
    (d \<noteq> QueueFull \<longrightarrow> (\<forall>i < length ps.
       umap_find (ps ! ((i + delta) mod length ps)) m = umap_find (ps ! i) (wnProperties w)))"
  using assms by (rule rotate_properties_exact_run)

text \<open>A root window with two properties, of one and two bytes.\<close>

definition two_properties :: window_record where
  "two_properties = (root_window_record 640 480)\<lparr>wnProperties := [(39, sample_value 1), (40, sample_value 2)]\<rparr>"

definition two_properties_state :: server_state where
  "two_properties_state = (put_window two_properties (initial_state 640 480 0))\<lparr>ssPropertyBytes := 3\<rparr>"

lemma two_properties_ok: "properties_ok two_properties_state"
  unfolding two_properties_state_def
proof (rule properties_ok_put_window [OF initial_properties_ok])
  show "window (initial_state 640 480 0) (wnId (root_window_record 640 480)) = Some (root_window_record 640 480)"
    by (simp add: initial_window)
qed (auto simp: two_properties_def umap_ok_def umap_find_def sample_value_def maximum_property_bytes_def
      window_property_bytes_def umap_sum_def maximum_server_property_bytes_def split: if_splits)

theorem rotate_properties_exact_witness:
  "\<exists>d s' m. rotate_properties two_properties [39, 40] 3 two_properties_state = Some (d, s') \<and>
     window s' root_window_id = Some (two_properties\<lparr>wnProperties := m\<rparr>) \<and>
     (d \<noteq> QueueFull \<longrightarrow> umap_find 39 m = Some (sample_value 2) \<and> umap_find 40 m = Some (sample_value 1))"
proof -
  have id: "wnId two_properties = root_window_id" by (simp add: two_properties_def)
  have w: "window two_properties_state (wnId two_properties) = Some two_properties"
    by (simp add: two_properties_state_def)
  have q: "queues_ok two_properties_state" by (simp add: two_properties_state_def initial_queues)
  have f: "umap_find 39 (wnProperties two_properties) = Some (sample_value 1)"
    "umap_find 40 (wnProperties two_properties) = Some (sample_value 2)"
    by (simp_all add: two_properties_def umap_find_def)
  obtain d s' m where r: "rotate_properties two_properties [39, 40] 3 two_properties_state = Some (d, s')"
    "window s' root_window_id = Some (two_properties\<lparr>wnProperties := m\<rparr>)"
    "d \<noteq> QueueFull \<longrightarrow> (\<forall>i < length [39::u32, 40].
       umap_find ([39, 40] ! ((i + 3) mod length [39::u32, 40])) m = umap_find ([39, 40] ! i) (wnProperties two_properties))"
    using rotate_properties_exact [OF q two_properties_ok w, of "[39, 40]" 3] f id by auto
  have "umap_find 40 m = Some (sample_value 1) \<and> umap_find 39 m = Some (sample_value 2)" if "d \<noteq> QueueFull"
  proof -
    have "\<forall>i < 2. umap_find ([39, 40] ! ((i + 3) mod 2)) m = umap_find ([39, 40] ! i) (wnProperties two_properties)"
      using r(3) that by (simp only: list.size One_nat_def) (simp add: numeral_2_eq_2)
    from this [rule_format, of 0] this [rule_format, of 1] show ?thesis
      using f by simp
  qed
  with r(1,2) show ?thesis by blast
qed

end
