(* ===== verification/Window_Tree.thy ===== *)
theory Window_Tree
  imports Window_Store Region Resources "HOL-Library.Monad_Syntax"
begin

text \<open>
  The window tree (\<^verbatim>\<open>src/server/server_state.cpp\<close>): the walks along parent links
  (\<open>is_descendant\<close>, \<open>map_state\<close>, \<open>absolute_position\<close>, \<open>effective_cursor\<close>) and down the children
  (\<open>child_window_at\<close>, \<open>deepest_window_at\<close>), the insertion of a window and its restacking, and the
  delivery of client messages up the tree.

  A walk is a loop the code bounds by nothing but the shape of the tree; it is a
  \<open>partial_function\<close> whose value \<open>None\<close> means that it does not return.  The invariant \<open>tree_ok\<close> is
  what makes every walk return, and the properties say so.
\<close>

subsection \<open>Walks to the root\<close>

partial_function (option) descends :: "server_state \<Rightarrow> window_record option \<Rightarrow> u32 \<Rightarrow> bool option" where
  "descends s current ancestor =
     (case current of
        None \<Rightarrow> Some False
      | Some w \<Rightarrow>
          if wnParent w = 0 then Some False
          else if wnParent w = ancestor then Some True
          else descends s (window s (wnParent w)) ancestor)"

definition is_descendant :: "server_state \<Rightarrow> u32 \<Rightarrow> u32 \<Rightarrow> bool option" where
  "is_descendant s candidate ancestor = descends s (window s candidate) ancestor"

partial_function (option) viewable_from :: "server_state \<Rightarrow> window_record \<Rightarrow> nat option" where
  "viewable_from s w =
     (if wnParent w = 0 then Some 2
      else (case window s (wnParent w) of
              None \<Rightarrow> Some 1
            | Some p \<Rightarrow> if \<not> wnMapped p then Some 1 else viewable_from s p))"

definition map_state :: "server_state \<Rightarrow> u32 \<Rightarrow> nat option" where
  "map_state s k =
     (case window s k of
        None \<Rightarrow> Some 0
      | Some w \<Rightarrow> if \<not> wnMapped w then Some 0 else viewable_from s w)"

partial_function (option) position_from ::
  "server_state \<Rightarrow> window_record option \<Rightarrow> int \<Rightarrow> int \<Rightarrow> (int \<times> int) option" where
  "position_from s candidate x y =
     (case candidate of
        None \<Rightarrow> Some (x, y)
      | Some w \<Rightarrow>
          if wnParent w = 0 then Some (x, y)
          else position_from s (window s (wnParent w)) (x + (wnX w + wnBorderWidth w))
                 (y + (wnY w + wnBorderWidth w)))"

definition absolute_position :: "server_state \<Rightarrow> u32 \<Rightarrow> (int \<times> int) option" where
  "absolute_position s k = position_from s (window s k) 0 0"

partial_function (option) cursor_from ::
  "server_state \<Rightarrow> window_record option \<Rightarrow> cursor_ref option" where
  "cursor_from s candidate =
     (case candidate of
        None \<Rightarrow> Some None
      | Some w \<Rightarrow> if wnCursor w \<noteq> None then Some (wnCursor w)
                  else cursor_from s (window s (wnParent w)))"

definition effective_cursor :: "server_state \<Rightarrow> u32 \<Rightarrow> cursor_ref option" where
  "effective_cursor s k = cursor_from s (window s k)"

definition all_event_masks :: "window_record \<Rightarrow> u32" where
  "all_event_masks w = fold (\<lambda>e m. m OR snd e) (wnEventMasks w) 0"

subsection \<open>Walks to the leaves\<close>

definition shape_excludes :: "window_record \<Rightarrow> nat \<Rightarrow> int \<Rightarrow> int \<Rightarrow> bool" where
  "shape_excludes w kind x y =
     (case wnShapes w ! kind of None \<Rightarrow> False | Some r \<Rightarrow> \<not> region_contains r x y)"

text \<open>The body of the loop of \<open>child_window_at\<close>: whether the child is the one at the point.\<close>

definition child_hit :: "server_state \<Rightarrow> int \<Rightarrow> int \<Rightarrow> u32 \<Rightarrow> bool option" where
  "child_hit s x y k =
     (case window s k of
        None \<Rightarrow> Some False
      | Some child \<Rightarrow>
          Option.bind (map_state s (wnId child)) (\<lambda>state.
            if state \<noteq> 2 then Some False
            else Option.bind (absolute_position s (wnId child)) (\<lambda>(ox, oy).
              let border = wnBorderWidth child
              in if x < ox - border \<or> y < oy - border \<or>
                    ox + wnWidth child + border \<le> x \<or> oy + wnHeight child + border \<le> y
                 then Some False
                 else Some (\<not> (shape_excludes child 0 (x - ox) (y - oy) \<or>
                               shape_excludes child 2 (x - ox) (y - oy))))))"

fun first_hit :: "server_state \<Rightarrow> int \<Rightarrow> int \<Rightarrow> u32 list \<Rightarrow> u32 option" where
  "first_hit s x y [] = Some 0"
| "first_hit s x y (k # ks) =
     Option.bind (child_hit s x y k) (\<lambda>hit.
       if hit then Some (wnId (the (window s k))) else first_hit s x y ks)"

definition child_window_at :: "server_state \<Rightarrow> u32 \<Rightarrow> int \<Rightarrow> int \<Rightarrow> u32 option" where
  "child_window_at s parent x y =
     (case window s parent of
        None \<Rightarrow> Some 0
      | Some w \<Rightarrow> first_hit s x y (rev (wnChildren w)))"

partial_function (option) deepest_window_at :: "server_state \<Rightarrow> u32 \<Rightarrow> int \<Rightarrow> int \<Rightarrow> u32 option" where
  "deepest_window_at s parent x y =
     (if window s parent = None then Some 0
      else Option.bind (child_window_at s parent x y)
             (\<lambda>child. if child = 0 then Some parent else deepest_window_at s child x y))"

definition pointer_window :: "server_state \<Rightarrow> u32 option" where
  "pointer_window s =
     deepest_window_at s root_window_id (inPointerX (ssInput s)) (inPointerY (ssInput s))"

subsection \<open>Insertion and restacking\<close>

definition create_events :: "window_record \<Rightarrow> window_record \<Rightarrow> planned_event list" where
  "create_events parent added =
     map (\<lambda>c. (c, EvWindow (CreateNotify (wnParent added) (wnId added) (wnX added) (wnY added)
            (wnWidth added) (wnHeight added) (wnBorderWidth added) (wnOverrideRedirect added))))
       (mask_recipients parent substructure_notify_mask)"

definition add_window :: "window_record \<Rightarrow> u32 \<Rightarrow> server_state \<Rightarrow> bool \<times> server_state" where
  "add_window added owner s =
     (case window s (wnParent added) of
        None \<Rightarrow> (False, s)
      | Some parent \<Rightarrow>
          if resource_exists s (wnId added) then (False, s)
          else if wnSurface added \<noteq> None \<and> maximum_server_surface_bytes < ssSurfaceBytes s
          then (False, s)
          else
            let events = create_events parent added;
                (registered, r1) = reg_insert (wnId added) KWindow owner (ssResources s);
                s1 = s\<lparr>ssResources := r1\<rparr>
            in if \<not> registered then (False, s1)
               else
                 let (ws, fresh) = umap_emplace (wnId added) (added\<lparr>wnOwner := owner\<rparr>) (ssWindows s1)
                 in if \<not> fresh
                    then (False, s1\<lparr>ssResources := snd (reg_erase (wnId added) (ssResources s1))\<rparr>)
                    else
                      let s2 = s1\<lparr>ssWindows := ws\<rparr>;
                          parent2 = the (window s2 (wnParent added));
                          s3 = put_window (parent2\<lparr>wnChildren := wnChildren parent2 @ [wnId added]\<rparr>) s2;
                          (queued, s4) = queue_events_atomically events s3
                      in if \<not> queued
                         then let parent4 = the (window s4 (wnParent added));
                                  s5 = put_window (parent4\<lparr>wnChildren := butlast (wnChildren parent4)\<rparr>) s4;
                                  s6 = s5\<lparr>ssWindows := umap_erase (wnId added) (ssWindows s5)\<rparr>
                              in (False, s6\<lparr>ssResources := snd (reg_erase (wnId added) (ssResources s6))\<rparr>)
                         else (True, invalidate_scene s4))"

definition mapped_child :: "server_state \<Rightarrow> u32 \<Rightarrow> bool" where
  "mapped_child s k = (case window s k of None \<Rightarrow> False | Some w \<Rightarrow> wnMapped w)"

text \<open>The child \<open>find_if\<close> picks, from the bottom or from the top; 0 when none is mapped.\<close>

definition circulation_candidate :: "server_state \<Rightarrow> u32 list \<Rightarrow> bool \<Rightarrow> u32" where
  "circulation_candidate s children raise_lowest =
     (case find (mapped_child s) (if raise_lowest then children else rev children) of
        None \<Rightarrow> 0 | Some k \<Rightarrow> k)"

definition circulate_events :: "server_state \<Rightarrow> window_record \<Rightarrow> u32 \<Rightarrow> bool \<Rightarrow> planned_event list" where
  "circulate_events s parent circulated raise_lowest =
     (let place = (if raise_lowest then 0 else 1)
      in (case window s circulated of
            None \<Rightarrow> []
          | Some w \<Rightarrow> map (\<lambda>c. (c, EvWindow (CirculateNotify (wnId w) (wnId w) place)))
                        (mask_recipients w structure_notify_mask)) @
         map (\<lambda>c. (c, EvWindow (CirculateNotify (wnId parent) circulated place)))
           (mask_recipients parent substructure_notify_mask))"

text \<open>\<open>std::rotate\<close> around the found position: the child goes to the end, or to the front.\<close>

definition restack :: "u32 \<Rightarrow> bool \<Rightarrow> u32 list \<Rightarrow> u32 list" where
  "restack k to_end children =
     (let before = takeWhile (\<lambda>c. c \<noteq> k) children;
          rest = dropWhile (\<lambda>c. c \<noteq> k) children
      in case rest of
           [] \<Rightarrow> children
         | c # after \<Rightarrow> if to_end then before @ after @ [c] else c # before @ after)"

definition circulate_window :: "u32 \<Rightarrow> bool \<Rightarrow> server_state \<Rightarrow> event_delivery \<times> server_state" where
  "circulate_window parent_id raise_lowest s =
     (case window s parent_id of
        None \<Rightarrow> (NoRecipient, s)
      | Some parent \<Rightarrow>
          if length (wnChildren parent) < 2 then (NoRecipient, s)
          else
            let circulated = circulation_candidate s (wnChildren parent) raise_lowest
            in if circulated = 0 then (NoRecipient, s)
               else
                 let events = circulate_events s parent circulated raise_lowest;
                     (queued, s1) = queue_events_atomically events s
                 in if \<not> queued then (QueueFull, s1)
                    else (if events = [] then NoRecipient else Delivered,
                          invalidate_scene (put_window
                            (parent\<lparr>wnChildren := restack circulated raise_lowest (wnChildren parent)\<rparr>) s1)))"

subsection \<open>Redirection\<close>

definition redirect_recipient :: "window_record \<Rightarrow> u32 \<Rightarrow> u32 \<Rightarrow> u32" where
  "redirect_recipient w bits requester =
     (case find (\<lambda>e. fst e \<noteq> requester \<and> (snd e AND bits) \<noteq> 0) (wnEventMasks w) of
        None \<Rightarrow> 0 | Some e \<Rightarrow> fst e)"

text \<open>The common part of the redirections to the parent's redirecting client.\<close>

definition redirect_to_parent ::
  "u32 \<Rightarrow> window_record \<Rightarrow> (window_record \<Rightarrow> event_body) \<Rightarrow> server_state \<Rightarrow> redirect_delivery \<times> server_state" where
  "redirect_to_parent requester candidate event s =
     (if wnOverrideRedirect candidate \<or> wnParent candidate = 0 then (NotRedirected, s)
      else (case window s (wnParent candidate) of
              None \<Rightarrow> (NotRedirected, s)
            | Some parent \<Rightarrow>
                let recipient = redirect_recipient parent substructure_redirect_mask requester
                in if recipient = 0 then (NotRedirected, s)
                   else let (ok, s1) = queue_event recipient (event parent) s
                        in (if ok then Redirected else RedirectQueueFull, s1)))"

definition redirect_map_request ::
  "u32 \<Rightarrow> window_record \<Rightarrow> server_state \<Rightarrow> redirect_delivery \<times> server_state" where
  "redirect_map_request requester candidate s =
     redirect_to_parent requester candidate (\<lambda>parent. EvWindow (MapRequest (wnId parent) (wnId candidate))) s"

definition redirect_configure_request ::
  "u32 \<Rightarrow> window_record \<Rightarrow> int \<Rightarrow> int \<Rightarrow> int \<Rightarrow> int \<Rightarrow> int \<Rightarrow> u16 \<Rightarrow> u32 option \<Rightarrow> u8 option \<Rightarrow>
     server_state \<Rightarrow> redirect_delivery \<times> server_state" where
  "redirect_configure_request requester candidate x y width height border_width value_mask sibling
     stack_mode s =
     redirect_to_parent requester candidate (\<lambda>parent. EvWindow (ConfigureRequest
       (case stack_mode of None \<Rightarrow> 0 | Some m \<Rightarrow> m) (wnId parent) (wnId candidate)
       (case sibling of None \<Rightarrow> 0 | Some k \<Rightarrow> k) x y width height border_width value_mask)) s"

definition redirect_circulate_request ::
  "u32 \<Rightarrow> window_record \<Rightarrow> bool \<Rightarrow> server_state \<Rightarrow> redirect_delivery \<times> server_state" where
  "redirect_circulate_request requester parent raise_lowest s =
     (let recipient = redirect_recipient parent substructure_redirect_mask requester;
          candidate = circulation_candidate s (wnChildren parent) raise_lowest
      in if recipient = 0 then (NotRedirected, s)
         else if candidate = 0 then (NotRedirected, s)
         else let (ok, s1) = queue_event recipient
                    (EvWindow (CirculateRequest (wnId parent) candidate (if raise_lowest then 0 else 1))) s
              in (if ok then Redirected else RedirectQueueFull, s1))"

subsection \<open>Client messages\<close>

fun queue_to_all :: "u32 list \<Rightarrow> event_body \<Rightarrow> server_state \<Rightarrow> bool \<times> server_state" where
  "queue_to_all [] event s = (True, s)"
| "queue_to_all (c # cs) event s =
     (let (ok, s1) = queue_event c event s in if \<not> ok then (False, s1) else queue_to_all cs event s1)"

definition message_recipients :: "window_record \<Rightarrow> u32 \<Rightarrow> u32 list" where
  "message_recipients w event_mask =
     (if event_mask = 0 then (if wnOwner w \<noteq> 0 then [wnOwner w] else [])
      else mask_recipients w event_mask)"

definition deliver_to_recipients ::
  "u32 list \<Rightarrow> event_body \<Rightarrow> server_state \<Rightarrow> event_delivery \<times> server_state" where
  "deliver_to_recipients recipients event s =
     (if size_sub maximum_pending_events (length recipients) < ssPendingEvents s then (QueueFull, s)
      else if list_ex (\<lambda>c. \<not> can_queue_event s c) recipients then (QueueFull, s)
      else let (ok, s1) = queue_to_all recipients event s
           in (if ok then Delivered else QueueFull, s1))"

partial_function (option) message_walk ::
  "server_state \<Rightarrow> window_record option \<Rightarrow> u32 \<Rightarrow> bool \<Rightarrow> event_body \<Rightarrow> (event_delivery \<times> server_state) option" where
  "message_walk s candidate event_mask propagate event =
     (case candidate of
        None \<Rightarrow> Some (NoRecipient, s)
      | Some w \<Rightarrow>
          if message_recipients w event_mask \<noteq> []
          then Some (deliver_to_recipients (message_recipients w event_mask) event s)
          else if \<not> propagate \<or> wnParent w = 0 \<or> event_mask = 0 then Some (NoRecipient, s)
          else if event_mask AND NOT (ucast (wnDoNotPropagateMask w)) = 0 then Some (NoRecipient, s)
          else message_walk s (window s (wnParent w))
                 (event_mask AND NOT (ucast (wnDoNotPropagateMask w))) propagate event)"

definition deliver_client_message ::
  "u32 \<Rightarrow> u32 \<Rightarrow> bool \<Rightarrow> event_body \<Rightarrow> server_state \<Rightarrow> (event_delivery \<times> server_state) option" where
  "deliver_client_message destination event_mask propagate event s =
     message_walk s (window s destination) event_mask propagate event"

subsection \<open>The shape of the tree\<close>

text \<open>The windows from which the parent links lead to the root.\<close>

inductive rooted :: "server_state \<Rightarrow> u32 \<Rightarrow> bool" for s where
  root: "rooted s root_window_id"
| step: "window s k = Some w \<Longrightarrow> k \<noteq> root_window_id \<Longrightarrow> rooted s (wnParent w) \<Longrightarrow> rooted s k"

definition parent_rel :: "server_state \<Rightarrow> (u32 \<times> u32) set" where
  "parent_rel s = {(k, p). k \<noteq> root_window_id \<and> (\<exists>w. window s k = Some w \<and> wnParent w = p)}"

text \<open>Parent links and child lists are each other's converse, child lists have no duplicates, only the
  root has no parent, and every window hangs below the root.\<close>

definition tree_ok :: "server_state \<Rightarrow> bool" where
  "tree_ok s \<longleftrightarrow> windows_keyed s \<and> window s 0 = None \<and>
     (\<exists>r. window s root_window_id = Some r \<and> wnParent r = 0) \<and>
     (\<forall>k w. window s k = Some w \<longrightarrow> rooted s k \<and> distinct (wnChildren w) \<and>
        (\<forall>c. c \<in> set (wnChildren w) \<longleftrightarrow> c \<noteq> root_window_id \<and> (\<exists>v. window s c = Some v \<and> wnParent v = k)) \<and>
        (k \<noteq> root_window_id \<longrightarrow> window s (wnParent w) \<noteq> None))"

lemma tree_okD:
  assumes "tree_ok s"
  shows "windows_keyed s" "window s 0 = None"
    and "\<exists>r. window s root_window_id = Some r \<and> wnParent r = 0"
    and "window s k = Some w \<Longrightarrow> rooted s k"
    and "window s k = Some w \<Longrightarrow> distinct (wnChildren w)"
    and "window s k = Some w \<Longrightarrow>
           c \<in> set (wnChildren w) \<longleftrightarrow> c \<noteq> root_window_id \<and> (\<exists>v. window s c = Some v \<and> wnParent v = k)"
    and "window s k = Some w \<Longrightarrow> k \<noteq> root_window_id \<Longrightarrow> \<exists>p. window s (wnParent w) = Some p"
  using assms by (auto simp: tree_ok_def)

lemma tree_parent_zero:
  assumes "tree_ok s" "window s k = Some w"
  shows "wnParent w = 0 \<longleftrightarrow> k = root_window_id"
proof
  assume "wnParent w = 0"
  then show "k = root_window_id"
    using tree_okD(2) [OF assms(1)] tree_okD(7) [OF assms] by fastforce
next
  assume "k = root_window_id"
  then show "wnParent w = 0" using tree_okD(3) [OF assms(1)] assms(2) by auto
qed

lemma rooted_acyclic: "rooted s k \<Longrightarrow> (k, k) \<notin> (parent_rel s)\<^sup>+"
proof (induction rule: rooted.induct)
  case root
  show ?case by (auto simp: parent_rel_def dest!: tranclD)
next
  case (step k w)
  show ?case
  proof
    assume "(k, k) \<in> (parent_rel s)\<^sup>+"
    then obtain p where p: "(k, p) \<in> parent_rel s" "(p, k) \<in> (parent_rel s)\<^sup>*"
      by (auto dest!: tranclD)
    with step(1) have "p = wnParent w" by (auto simp: parent_rel_def)
    with p have "(wnParent w, wnParent w) \<in> (parent_rel s)\<^sup>+" by (meson rtrancl_into_trancl1)
    with step.IH show False by simp
  qed
qed

lemma parent_rel_finite: "finite (parent_rel s)"
proof -
  have "parent_rel s \<subseteq> (\<lambda>(k, w). (k, wnParent w)) ` set (ssWindows s)"
    by (force simp: parent_rel_def window_def dest: umap_find_mem)
  then show ?thesis by (rule finite_subset) simp
qed

lemma parent_rel_acyclic: "tree_ok s \<Longrightarrow> acyclic (parent_rel s)"
proof (rule acyclicI, intro allI notI)
  fix k
  assume "tree_ok s" and cyc: "(k, k) \<in> (parent_rel s)\<^sup>+"
  from cyc obtain p where "(k, p) \<in> parent_rel s" by (auto dest: tranclD)
  then obtain w where "window s k = Some w" by (auto simp: parent_rel_def)
  with \<open>tree_ok s\<close> have "rooted s k" by (rule tree_okD)
  with cyc show False using rooted_acyclic by blast
qed

lemma wf_children: "tree_ok s \<Longrightarrow> wf (parent_rel s)"
  by (simp add: finite_acyclic_wf parent_rel_finite parent_rel_acyclic)

lemma parent_rel_iff:
  "tree_ok s \<Longrightarrow> window s k = Some w \<Longrightarrow> c \<in> set (wnChildren w) \<longleftrightarrow> (c, k) \<in> parent_rel s"
  using tree_okD(6) by (auto simp: parent_rel_def)

lemma ancestors_step:
  assumes "window s k = Some w" "k \<noteq> root_window_id"
  shows "(k, a) \<in> (parent_rel s)\<^sup>+ \<longleftrightarrow> a = wnParent w \<or> (wnParent w, a) \<in> (parent_rel s)\<^sup>+"
proof
  assume "(k, a) \<in> (parent_rel s)\<^sup>+"
  then obtain p where p: "(k, p) \<in> parent_rel s" "(p, a) \<in> (parent_rel s)\<^sup>*" by (auto dest: tranclD)
  then have "p = wnParent w" using assms by (auto simp: parent_rel_def)
  with p show "a = wnParent w \<or> (wnParent w, a) \<in> (parent_rel s)\<^sup>+" by (auto dest: rtranclD)
next
  have "(k, wnParent w) \<in> parent_rel s" using assms by (auto simp: parent_rel_def)
  then show "a = wnParent w \<or> (wnParent w, a) \<in> (parent_rel s)\<^sup>+ \<Longrightarrow> (k, a) \<in> (parent_rel s)\<^sup>+"
    by (auto intro: trancl_into_trancl2)
qed

lemma root_no_ancestors: "(root_window_id, a) \<notin> (parent_rel s)\<^sup>+"
  by (auto simp: parent_rel_def dest!: tranclD)

subsection \<open>Every walk returns\<close>

text \<open>The windows of the chain from \<open>k\<close> up to the root.\<close>

definition chain :: "server_state \<Rightarrow> u32 \<Rightarrow> u32 set" where
  "chain s k = {a. (k, a) \<in> (parent_rel s)\<^sup>*}"

lemma descends_returns:
  assumes "tree_ok s" "rooted s k"
  shows "descends s (window s k) a = Some ((k, a) \<in> (parent_rel s)\<^sup>+)"
  using assms(2)
proof (induction rule: rooted.induct)
  case root
  obtain r where "window s root_window_id = Some r" "wnParent r = 0" using tree_okD(3) [OF assms(1)] by auto
  then show ?case by (subst descends.simps) (simp add: root_no_ancestors)
next
  case (step k w)
  have "wnParent w \<noteq> 0" using tree_parent_zero [OF assms(1) step(1)] step(2) by simp
  then show ?case
    using step by (subst descends.simps) (simp add: ancestors_step)
qed

lemma is_descendant_returns:
  assumes "tree_ok s"
  shows "is_descendant s k a = Some ((k, a) \<in> (parent_rel s)\<^sup>+)"
proof (cases "window s k")
  case None
  then have "(k, a) \<notin> (parent_rel s)\<^sup>+" by (auto simp: parent_rel_def dest!: tranclD)
  with None show ?thesis by (simp add: is_descendant_def descends.simps)
next
  case (Some w)
  then show ?thesis
    using descends_returns [OF assms tree_okD(4) [OF assms]] by (simp add: is_descendant_def)
qed

definition all_mapped :: "server_state \<Rightarrow> u32 \<Rightarrow> bool" where
  "all_mapped s k \<longleftrightarrow> (\<forall>a \<in> chain s k. \<exists>w. window s a = Some w \<and> wnMapped w)"

lemma all_mappedD: "all_mapped s k \<Longrightarrow> \<exists>w. window s k = Some w \<and> wnMapped w"
  by (auto simp: all_mapped_def chain_def)

lemma chain_step:
  assumes "window s k = Some w" "k \<noteq> root_window_id"
  shows "chain s k = insert k (chain s (wnParent w))"
  using ancestors_step [OF assms] by (auto simp: chain_def rtrancl_eq_or_trancl)

lemma chain_root: "chain s root_window_id = {root_window_id}"
  using root_no_ancestors by (auto simp: chain_def rtrancl_eq_or_trancl)

lemma viewable_from_returns:
  assumes "tree_ok s" "rooted s k"
  shows "window s k = Some w \<Longrightarrow> wnMapped w \<Longrightarrow> viewable_from s w = Some (if all_mapped s k then 2 else 1)"
  using assms(2)
proof (induction arbitrary: w rule: rooted.induct)
  case root
  then have "wnParent w = 0" using tree_parent_zero [OF assms(1) root(1)] by simp
  with root show ?case by (subst viewable_from.simps) (simp add: all_mapped_def chain_root)
next
  case (step k v)
  then have v: "v = w" and nz: "wnParent w \<noteq> 0" using tree_parent_zero [OF assms(1)] by auto
  obtain p where p: "window s (wnParent w) = Some p" using tree_okD(7) [OF assms(1) step(1,2)] v by auto
  have all: "all_mapped s k \<longleftrightarrow> all_mapped s (wnParent w)"
    using chain_step [OF step(1,2)] step.prems v by (auto simp: all_mapped_def)
  show ?case
  proof (cases "wnMapped p")
    case True
    then show ?thesis
      using step.IH [of p] p v nz all by (subst viewable_from.simps) simp
  next
    case False
    then have "\<not> all_mapped s (wnParent w)" using p by (auto dest: all_mappedD)
    with False p nz all show ?thesis by (subst viewable_from.simps) simp
  qed
qed

lemma map_state_returns:
  assumes "tree_ok s"
  shows "map_state s k = Some (case window s k of
      None \<Rightarrow> 0
    | Some w \<Rightarrow> if \<not> wnMapped w then 0 else if all_mapped s k then 2 else 1)"
  using viewable_from_returns [OF assms tree_okD(4) [OF assms]]
  by (auto simp: map_state_def split: option.splits)

lemma map_state_viewable:
  assumes "tree_ok s"
  shows "map_state s k = Some 2 \<longleftrightarrow> all_mapped s k"
  unfolding map_state_returns [OF assms] by (auto dest: all_mappedD split: option.splits)

text \<open>The position is the sum of the offsets along the chain; \<open>depth\<close> counts its links.\<close>

inductive offset_to_root :: "server_state \<Rightarrow> u32 \<Rightarrow> int \<Rightarrow> int \<Rightarrow> nat \<Rightarrow> bool" for s where
  at_root: "offset_to_root s root_window_id 0 0 0"
| below: "window s k = Some w \<Longrightarrow> k \<noteq> root_window_id \<Longrightarrow> offset_to_root s (wnParent w) x y n \<Longrightarrow>
    offset_to_root s k (wnX w + wnBorderWidth w + x) (wnY w + wnBorderWidth w + y) (Suc n)"

lemma position_from_returns:
  assumes "tree_ok s" "rooted s k"
  shows "\<exists>x y n. offset_to_root s k x y n \<and> (\<forall>a b. position_from s (window s k) a b = Some (a + x, b + y))"
  using assms(2)
proof (induction rule: rooted.induct)
  case root
  obtain r where "window s root_window_id = Some r" "wnParent r = 0" using tree_okD(3) [OF assms(1)] by auto
  then have "\<forall>a b. position_from s (window s root_window_id) a b = Some (a + 0, b + 0)"
    by (subst position_from.simps) simp
  then show ?case using at_root by blast
next
  case (step k w)
  have nz: "wnParent w \<noteq> 0" using tree_parent_zero [OF assms(1) step(1)] step(2) by simp
  from step.IH obtain x y n where ih: "offset_to_root s (wnParent w) x y n"
    "\<And>a b. position_from s (window s (wnParent w)) a b = Some (a + x, b + y)" by blast
  have "position_from s (window s k) a b =
      Some (a + (wnX w + wnBorderWidth w + x), b + (wnY w + wnBorderWidth w + y))" for a b
    using step(1) nz ih(2) by (subst position_from.simps) (simp add: algebra_simps)
  with below [OF step(1,2) ih(1)] show ?case by blast
qed

lemma absolute_position_returns:
  assumes "tree_ok s" "window s k = Some w"
  shows "\<exists>x y n. absolute_position s k = Some (x, y) \<and> offset_to_root s k x y n"
  using position_from_returns [OF assms(1) tree_okD(4) [OF assms]]
  by (force simp: absolute_position_def)

lemma offset_bounded:
  assumes "offset_to_root s k x y n"
    and "\<And>j v. window s j = Some v \<Longrightarrow> in_i16 (wnX v) \<and> in_i16 (wnY v) \<and> in_u16 (wnBorderWidth v)"
  shows "\<bar>x\<bar> \<le> int n * 98302 \<and> \<bar>y\<bar> \<le> int n * 98302"
  using assms(1)
proof (induction rule: offset_to_root.induct)
  case at_root
  show ?case by simp
next
  case (below k w x y n)
  have "\<bar>wnX w + wnBorderWidth w\<bar> \<le> 98302" "\<bar>wnY w + wnBorderWidth w\<bar> \<le> 98302"
    using assms(2) [OF below(1)] by (auto simp: range_defs)
  moreover have "int (Suc n) * 98302 = int n * 98302 + 98302" by simp
  ultimately show ?case using below.IH by linarith
qed

text \<open>The cursor shown over a window is its own or its nearest ancestor's.\<close>

inductive inherits_cursor :: "server_state \<Rightarrow> u32 \<Rightarrow> cursor_ref \<Rightarrow> bool" for s where
  own: "window s k = Some w \<Longrightarrow> wnCursor w \<noteq> None \<Longrightarrow> inherits_cursor s k (wnCursor w)"
| above: "window s k = Some w \<Longrightarrow> wnCursor w = None \<Longrightarrow> k \<noteq> root_window_id \<Longrightarrow>
    inherits_cursor s (wnParent w) c \<Longrightarrow> inherits_cursor s k c"
| none: "window s root_window_id = Some w \<Longrightarrow> wnCursor w = None \<Longrightarrow> inherits_cursor s root_window_id None"

lemma cursor_from_returns:
  assumes "tree_ok s" "rooted s k"
  shows "\<exists>c. cursor_from s (window s k) = Some c \<and> inherits_cursor s k c"
  using assms(2)
proof (induction rule: rooted.induct)
  case root
  obtain r where r: "window s root_window_id = Some r" "wnParent r = 0" using tree_okD(3) [OF assms(1)] by auto
  show ?case
  proof (cases "wnCursor r = None")
    case True
    then have "cursor_from s (window s root_window_id) = Some None"
      using r tree_okD(2) [OF assms(1)] by (subst cursor_from.simps) (simp add: cursor_from.simps)
    with none [OF r(1) True] show ?thesis by blast
  next
    case False
    then have "cursor_from s (window s root_window_id) = Some (wnCursor r)"
      using r by (subst cursor_from.simps) simp
    with own [OF r(1) False] show ?thesis by blast
  qed
next
  case (step k w)
  show ?case
  proof (cases "wnCursor w = None")
    case True
    obtain c where "cursor_from s (window s (wnParent w)) = Some c" "inherits_cursor s (wnParent w) c"
      using step.IH by blast
    with above [OF step(1) True step(2)] show ?thesis
      using step(1) True by (intro exI [of _ c]) (subst cursor_from.simps, simp)
  next
    case False
    then have "cursor_from s (window s k) = Some (wnCursor w)"
      using step(1) by (subst cursor_from.simps) simp
    with own [OF step(1) False] show ?thesis by blast
  qed
qed

lemma effective_cursor_returns:
  assumes "tree_ok s" "window s k = Some w"
  shows "\<exists>c. effective_cursor s k = Some c \<and> inherits_cursor s k c"
  using cursor_from_returns [OF assms(1) tree_okD(4) [OF assms]] by (simp add: effective_cursor_def)

text \<open>C18. Walks to the root return and mean what they are used for.  On a well-formed tree
  \<open>is_descendant\<close> is the strict ancestor relation, a window is viewable exactly when it and all its
  ancestors are mapped, the absolute position is the sum of the offsets on the way to the root, and
  the cursor is the nearest one on it; none of the loops can run forever.\<close>

theorem root_walks_return:
  assumes "tree_ok s"
  shows "is_descendant s k a = Some ((k, a) \<in> (parent_rel s)\<^sup>+) \<and>
    (\<exists>m. map_state s k = Some m \<and> (m = 2 \<longleftrightarrow> all_mapped s k) \<and>
       (m = 0 \<longleftrightarrow> (\<forall>w. window s k = Some w \<longrightarrow> \<not> wnMapped w))) \<and>
    (\<forall>w. window s k = Some w \<longrightarrow>
       (\<exists>x y n. absolute_position s k = Some (x, y) \<and> offset_to_root s k x y n) \<and>
       (\<exists>c. effective_cursor s k = Some c \<and> inherits_cursor s k c))"
  using is_descendant_returns [OF assms] absolute_position_returns [OF assms]
    effective_cursor_returns [OF assms]
  by (auto simp: map_state_returns [OF assms] dest: all_mappedD split: option.splits)

lemma initial_tree_ok: "tree_ok (initial_state w h n)"
  unfolding tree_ok_def
  by (auto dest!: initial_window_only simp: initial_windows_keyed initial_window rooted.root)
    (simp add: window_def umap_find_def root_window_id_def)

theorem root_walks_return_witness:
  "is_descendant (initial_state 640 480 0) root_window_id root_window_id = Some False \<and>
   map_state (initial_state 640 480 0) root_window_id = Some 2"
proof -
  have "all_mapped (initial_state 640 480 0) root_window_id"
    by (simp add: all_mapped_def chain_root initial_window)
  then show ?thesis
    using root_walks_return [OF initial_tree_ok, of 640 480 0 root_window_id root_window_id] root_no_ancestors
    by auto
qed

subsection \<open>The window under the pointer\<close>

text \<open>A window takes the pointer when it is viewable, the point lies within its borders, and neither
  its bounding nor its input shape leaves the point out.\<close>

definition hits :: "server_state \<Rightarrow> int \<Rightarrow> int \<Rightarrow> u32 \<Rightarrow> bool" where
  "hits s x y k \<longleftrightarrow> all_mapped s k \<and>
     (\<exists>w ox oy. window s k = Some w \<and> absolute_position s k = Some (ox, oy) \<and>
        ox - wnBorderWidth w \<le> x \<and> x < ox + wnWidth w + wnBorderWidth w \<and>
        oy - wnBorderWidth w \<le> y \<and> y < oy + wnHeight w + wnBorderWidth w \<and>
        \<not> shape_excludes w 0 (x - ox) (y - oy) \<and> \<not> shape_excludes w 2 (x - ox) (y - oy))"

lemma child_hit_returns:
  assumes "tree_ok s"
  shows "child_hit s x y k = Some (hits s x y k)"
proof (cases "window s k")
  case None
  then show ?thesis by (simp add: child_hit_def hits_def)
next
  case (Some w)
  have id: "wnId w = k" using windows_keyedD(2) [OF tree_okD(1) [OF assms] Some] .
  show ?thesis
  proof (cases "all_mapped s k")
    case True
    then have m: "map_state s k = Some 2" using map_state_viewable [OF assms] by simp
    obtain ox oy where "absolute_position s k = Some (ox, oy)"
      using absolute_position_returns [OF assms Some] by blast
    with m Some id True show ?thesis by (auto simp: child_hit_def hits_def Let_def)
  next
    case False
    then obtain m where m: "map_state s k = Some m" "m \<noteq> 2"
      using map_state_viewable [OF assms, of k] map_state_returns [OF assms, of k] by (metis option.inject)
    with Some id False show ?thesis by (simp add: child_hit_def hits_def)
  qed
qed

lemma first_hit_returns:
  assumes "tree_ok s" "\<forall>k \<in> set ks. window s k \<noteq> None"
  shows "first_hit s x y ks = Some (case find (hits s x y) ks of None \<Rightarrow> 0 | Some k \<Rightarrow> k)"
  using assms(2)
proof (induction ks)
  case Nil
  then show ?case by simp
next
  case (Cons k ks)
  then obtain w where "window s k = Some w" by auto
  then have "wnId (the (window s k)) = k"
    using windows_keyedD(2) [OF tree_okD(1) [OF assms(1)]] by simp
  with Cons show ?case by (simp add: child_hit_returns [OF assms(1)])
qed

lemma child_window_at_returns:
  assumes "tree_ok s" "window s k = Some w"
  shows "child_window_at s k x y = Some (case find (hits s x y) (rev (wnChildren w)) of None \<Rightarrow> 0 | Some c \<Rightarrow> c)"
proof -
  have "\<forall>c \<in> set (rev (wnChildren w)). window s c \<noteq> None"
    using tree_okD(6) [OF assms] by auto
  with first_hit_returns [OF assms(1)] assms(2) show ?thesis by (simp add: child_window_at_def)
qed

lemma deepest_window_at_descends:
  assumes ok: "tree_ok s" and k: "window s k \<noteq> None"
  shows "\<exists>d w. deepest_window_at s k x y = Some d \<and> window s d = Some w \<and>
    (d = k \<or> (d, k) \<in> (parent_rel s)\<^sup>+ \<and> hits s x y d) \<and>
    (\<forall>c \<in> set (wnChildren w). \<not> hits s x y c)"
  using k
proof (induction k rule: wf_induct_rule [OF wf_children [OF ok]])
  case (1 k)
  then obtain w where w: "window s k = Some w" by auto
  note C = child_window_at_returns [OF ok w, of x y]
  show ?case
  proof (cases "find (hits s x y) (rev (wnChildren w))")
    case None
    with C w have "deepest_window_at s k x y = Some k" by (subst deepest_window_at.simps) simp
    moreover have "\<forall>c \<in> set (wnChildren w). \<not> hits s x y c" using None by (simp add: find_None_iff)
    ultimately show ?thesis using w by auto
  next
    case (Some c)
    then have c: "c \<in> set (wnChildren w)" "hits s x y c" by (auto dest: find_SomeD)
    then have edge: "(c, k) \<in> parent_rel s" using parent_rel_iff [OF ok w] by simp
    then obtain v where v: "window s c = Some v" by (auto simp: parent_rel_def)
    have "c \<noteq> 0" using v tree_okD(2) [OF ok] by auto
    then have run: "deepest_window_at s k x y = deepest_window_at s c x y"
      using C Some w by (subst deepest_window_at.simps) simp
    obtain d u where "deepest_window_at s c x y = Some d" "window s d = Some u"
      "d = c \<or> (d, c) \<in> (parent_rel s)\<^sup>+ \<and> hits s x y d"
      "\<forall>c \<in> set (wnChildren u). \<not> hits s x y c"
      using "1.IH" [OF edge] v by auto
    then show ?thesis using run edge c(2) by (auto intro: trancl_into_trancl r_into_trancl)
  qed
qed



end
