(* ===== verification/Window_Changes.thy ===== *)
theory Window_Changes
  imports Window_Tree
begin

text \<open>
  What the operations of \<^theory_text>\<open>Window_Tree\<close> do to the tree: \<open>add_window\<close> with its rollback,
  \<open>circulate_window\<close>, and \<open>deliver_client_message\<close>.
\<close>

lemma rooted_transfer:
  assumes "rooted s k"
    and "\<And>j w. window s j = Some w \<Longrightarrow> \<exists>v. window t j = Some v \<and> wnParent v = wnParent w"
  shows "rooted t k"
  using assms(1)
proof (induction rule: rooted.induct)
  case root
  show ?case by (rule rooted.root)
next
  case (step k w)
  then show ?case using assms(2) [OF step(1)] by (metis rooted.step)
qed

lemma umap_put_snoc:
  "umap_contains p m \<Longrightarrow> umap_put p v (m @ [e]) = umap_put p v m @ [e]"
  by (induction m) (auto simp: umap_put_def umap_contains_def umap_find_def split: if_splits)

lemma umap_put_put: "umap_put k v (umap_put k u m) = umap_put k v m"
  by (simp add: umap_put_def update_update_same)

lemma umap_put_same: "umap_find k m = Some v \<Longrightarrow> umap_put k v m = m"
  by (simp add: umap_put_def umap_find_def update_restore)

lemma umap_contains_put: "umap_contains p m \<Longrightarrow> umap_contains p (umap_put k v m)"
  by (simp add: umap_contains_def)

lemma emplace_fresh: "umap_find k m = None \<Longrightarrow> umap_emplace k v m = (m @ [(k, v)], True)"
  by (simp add: umap_emplace_def umap_contains_def)

subsection \<open>Adding a window\<close>

text \<open>The state between registration and delivery.\<close>

definition with_window :: "window_record \<Rightarrow> window_record \<Rightarrow> u32 \<Rightarrow> server_state \<Rightarrow> server_state" where
  "with_window parent added owner s =
     put_window (parent\<lparr>wnChildren := wnChildren parent @ [wnId added]\<rparr>)
       (s\<lparr>ssResources := ssResources s @ [(wnId added, \<lparr>rrKind = KWindow, rrOwner = owner\<rparr>)],
          ssWindows := ssWindows s @ [(wnId added, added\<lparr>wnOwner := owner\<rparr>)]\<rparr>)"

lemma find_snoc: "umap_find j (m @ [(k, v)]) = (case umap_find j m of None \<Rightarrow> if j = k then Some v else None | Some u \<Rightarrow> Some u)"
  by (simp add: umap_find_def map_add_def split: option.splits)

lemma window_with_window:
  assumes "window s (wnParent added) = Some parent" "wnId parent = wnParent added" "window s (wnId added) = None"
  shows "window (with_window parent added owner s) k =
    (if k = wnId added then Some (added\<lparr>wnOwner := owner\<rparr>)
     else if k = wnParent added then Some (parent\<lparr>wnChildren := wnChildren parent @ [wnId added]\<rparr>)
     else window s k)"
proof -
  have "wnId added \<noteq> wnParent added" using assms by auto
  with assms show ?thesis
    by (simp add: with_window_def window_def put_window_def find_snoc split: option.splits)
qed

lemma add_window_run:
  assumes ok: "queues_ok s" "tree_ok s" and run: "add_window added owner s = (r, s')"
  shows "r \<Longrightarrow> \<exists>parent s4. window s (wnParent added) = Some parent \<and> window s (wnId added) = None \<and>
      reg_find (wnId added) (ssResources s) = None \<and> wnId added \<noteq> 0 \<and>
      queue_events_atomically (create_events parent added) (with_window parent added owner s) = (True, s4) \<and>
      s' = invalidate_scene s4"
    and "\<not> r \<Longrightarrow> s' = s"
proof -
  have "(r \<longrightarrow> (\<exists>parent s4. window s (wnParent added) = Some parent \<and> window s (wnId added) = None \<and>
      reg_find (wnId added) (ssResources s) = None \<and> wnId added \<noteq> 0 \<and>
      queue_events_atomically (create_events parent added) (with_window parent added owner s) = (True, s4) \<and>
      s' = invalidate_scene s4)) \<and> (\<not> r \<longrightarrow> s' = s)"
  proof (cases "window s (wnParent added) = None \<or> resource_exists s (wnId added) \<or>
      wnSurface added \<noteq> None \<and> maximum_server_surface_bytes < ssSurfaceBytes s \<or> wnId added = 0")
    case True
    have "add_window added owner s = (False, s)"
    proof (cases "window s (wnParent added)")
      case None
      then show ?thesis by (simp add: add_window_def)
    next
      case (Some p)
      with True show ?thesis by (auto simp: add_window_def reg_insert_def)
    qed
    then show ?thesis using run by simp
  next
    case False
    then obtain parent where p: "window s (wnParent added) = Some parent" by auto
    have pid: "wnId parent = wnParent added" using windows_keyedD(2) [OF tree_okD(1) [OF ok(2)] p] .
    have reg: "umap_find (wnId added) (ssResources s) = None"
      using False by (simp add: resource_exists_def reg_find_def)
    have pc: "umap_contains (wnParent added) (ssWindows s)" using p by (simp add: umap_contains_def window_def)
    show ?thesis
    proof (cases "window s (wnId added)")
      case (Some v)
      then have "umap_find (wnId added) (ssWindows s) \<noteq> None" by (simp add: window_def)
      then have "umap_emplace (wnId added) (added\<lparr>wnOwner := owner\<rparr>) (ssWindows s) = (ssWindows s, False)"
        by (simp add: umap_emplace_def umap_contains_def)
      then have "r = False \<and> s' = s"
        using run False p reg
        by (cases "wnSurface added")
          (simp_all add: add_window_def reg_insert_def emplace_fresh reg_erase_def umap_erase_snoc
            umap_contains_def)
      then show ?thesis by simp
    next
      case None
      then have fresh: "umap_find (wnId added) (ssWindows s) = None" by (simp add: window_def)
      let ?t = "with_window parent added owner s"
      obtain q s4 where q: "queue_events_atomically (create_events parent added) ?t = (q, s4)" by (rule prod.exhaust)
      have the_parent: "the (umap_find (wnParent added) (ssWindows s @ [(wnId added, added\<lparr>wnOwner := owner\<rparr>)])) = parent"
        using p by (simp add: find_snoc window_def)
      have res: "(r, s') = (if \<not> q
          then let parent4 = the (window s4 (wnParent added));
                   s5 = put_window (parent4\<lparr>wnChildren := butlast (wnChildren parent4)\<rparr>) s4;
                   s6 = s5\<lparr>ssWindows := umap_erase (wnId added) (ssWindows s5)\<rparr>
               in (False, s6\<lparr>ssResources := snd (reg_erase (wnId added) (ssResources s6))\<rparr>)
          else (True, invalidate_scene s4))"
        using run False p reg fresh q the_parent
        by (cases "wnSurface added")
          (simp_all add: add_window_def reg_insert_def emplace_fresh window_def with_window_def)
      show ?thesis
      proof (cases q)
        case True
        with res q p None reg False show ?thesis by (auto simp: reg_find_def)
      next
        case refused: False
        have "queues_ok ?t" using ok(1) by (simp add: with_window_def queues_ok_def)
        with q refused have s4: "s4 = ?t" using queues.refused by simp
        have "umap_put (wnParent added) parent (ssWindows s) = ssWindows s"
          using p by (simp add: umap_put_same window_def)
        moreover have "wnId added \<noteq> wnParent added" using p None by auto
        then have "window ?t (wnParent added) = Some (parent\<lparr>wnChildren := wnChildren parent @ [wnId added]\<rparr>)"
          by (simp add: window_with_window [OF p pid None])
        then have "s' = (put_window parent ?t)\<lparr>ssWindows := umap_erase (wnId added) (ssWindows (put_window parent ?t)),
            ssResources := umap_erase (wnId added) (ssResources ?t)\<rparr>"
          using res refused by (simp add: s4 Let_def reg_erase_def)
        ultimately have "s' = s"
          using pid pc fresh reg
          by (simp add: with_window_def put_window_def umap_put_snoc umap_put_put umap_contains_put
              umap_erase_snoc umap_contains_def)
        with res refused show ?thesis by (simp add: Let_def)
      qed
    qed
  qed
  then show "r \<Longrightarrow> \<exists>parent s4. window s (wnParent added) = Some parent \<and> window s (wnId added) = None \<and>
      reg_find (wnId added) (ssResources s) = None \<and> wnId added \<noteq> 0 \<and>
      queue_events_atomically (create_events parent added) (with_window parent added owner s) = (True, s4) \<and>
      s' = invalidate_scene s4"
    and "\<not> r \<Longrightarrow> s' = s" by blast+
qed

lemma tree_ok_cong:
  assumes "ssWindows t = ssWindows s"
  shows "tree_ok t = tree_ok s"
proof -
  have w: "window t k = window s k" for k using assms by (simp add: window_def)
  have r: "rooted t k = rooted s k" for k using rooted_transfer [of t k s] rooted_transfer [of s k t] w by auto
  have "windows_keyed t = windows_keyed s" unfolding windows_keyed_def assms w ..
  then show ?thesis unfolding tree_ok_def w r by simp
qed

lemma tree_ok_queue [simp]: "tree_ok (snd (queue_events_atomically es s)) = tree_ok s"
  by (rule tree_ok_cong) simp

lemma tree_ok_invalidate [simp]: "tree_ok (invalidate_scene s) = tree_ok s"
  by (rule tree_ok_cong) (simp add: invalidate_scene_def)

lemma tree_ok_with_window:
  assumes ok: "tree_ok s" and p: "window s (wnParent added) = Some parent"
    and fresh: "window s (wnId added) = None" "wnId added \<noteq> 0" and leaf: "wnChildren added = []"
  shows "tree_ok (with_window parent added owner s)"
proof -
  let ?t = "with_window parent added owner s"
  have pid: "wnId parent = wnParent added" using windows_keyedD(2) [OF tree_okD(1) [OF ok] p] .
  note win = window_with_window [OF p pid fresh(1)]
  have ne: "wnId added \<noteq> wnParent added" using p fresh by auto
  have nr: "wnId added \<noteq> root_window_id" using tree_okD(3) [OF ok] fresh by auto
  have old: "window s j = Some v \<Longrightarrow> \<exists>u. window ?t j = Some u \<and> wnParent u = wnParent v" for j v
    using fresh(1) p by (auto simp: win)
  have rooted_old: "rooted s j \<Longrightarrow> rooted ?t j" for j using rooted_transfer [of s j ?t] old by blast
  have keyed: "windows_keyed ?t"
  proof -
    have "umap_ok (ssWindows ?t)"
      using windows_keyedD(1) [OF tree_okD(1) [OF ok]] fresh(1)
      by (simp add: with_window_def put_window_def) (rule umap_ok_put,
          auto simp: umap_ok_def window_def umap_find_keys)
    moreover have "window ?t k = Some w \<Longrightarrow> wnId w = k" for k w
      using windows_keyedD(2) [OF tree_okD(1) [OF ok]] pid by (auto simp: win split: if_splits)
    ultimately show ?thesis by (simp add: windows_keyed_def)
  qed
  have new_child: "wnId added \<notin> set (wnChildren v)" if "window s j = Some v" for j v
    using tree_okD(6) [OF ok that] fresh(1) by simp
  show ?thesis unfolding tree_ok_def
  proof (intro conjI allI impI)
    show "window ?t 0 = None" using tree_okD(2) [OF ok] p fresh(2) by (auto simp: win)
    show "\<exists>r. window ?t root_window_id = Some r \<and> wnParent r = 0"
      using tree_okD(3) [OF ok] old by force
  next
    fix k w assume w: "window ?t k = Some w"
    show "rooted ?t k"
    proof (cases "k = wnId added")
      case True
      have "rooted ?t (wnParent added)" using rooted_old tree_okD(4) [OF ok p] by simp
      moreover have "wnParent w = wnParent added" using w True by (auto simp: win)
      ultimately show ?thesis using rooted.step [OF w] True nr by simp
    next
      case False
      then have "window s k \<noteq> None" using w p by (auto simp: win split: if_splits)
      then show ?thesis using rooted_old tree_okD(4) [OF ok] by auto
    qed
    show "distinct (wnChildren w)"
      using w leaf tree_okD(5) [OF ok] new_child p by (auto simp: win split: if_splits)
    show "window ?t (wnParent w) \<noteq> None" if "k \<noteq> root_window_id"
    proof -
      have "window s (wnParent w) \<noteq> None"
        using w that tree_okD(7) [OF ok] p by (auto simp: win split: if_splits)
      then show ?thesis using old by auto
    qed
    show "c \<in> set (wnChildren w) = (c \<noteq> root_window_id \<and> (\<exists>v. window ?t c = Some v \<and> wnParent v = k))" for c
    proof (cases "c = wnId added")
      case True
      then show ?thesis using w nr leaf ne new_child by (auto simp: win split: if_splits)
    next
      case False
      have eq: "(\<exists>v. window ?t c = Some v \<and> wnParent v = k) = (\<exists>v. window s c = Some v \<and> wnParent v = k)"
        using False p by (auto simp: win)
      show ?thesis
      proof (cases "k = wnId added")
        case True
        have "\<not> (\<exists>v. window s c = Some v \<and> wnParent v = k \<and> c \<noteq> root_window_id)"
        proof
          assume "\<exists>v. window s c = Some v \<and> wnParent v = k \<and> c \<noteq> root_window_id"
          then obtain v where v: "window s c = Some v" "wnParent v = k" "c \<noteq> root_window_id" by blast
          then show False using tree_okD(7) [OF ok v(1,3)] True fresh(1) by simp
        qed
        moreover have "wnChildren w = []" using True w leaf by (auto simp: win)
        ultimately show ?thesis using eq by auto
      next
        case False
        with w \<open>c \<noteq> wnId added\<close> eq tree_okD(6) [OF ok, of k _ c] p show ?thesis
          by (auto simp: win split: if_splits)
      qed
    qed
  qed (rule keyed)
qed

text \<open>C8. Creating a window is one atomic step.  When the parent exists, the identifier is new and the
  notifications fit, the window is entered as the topmost child of its parent, with the given owner
  in both the table and the registry, nothing else about any window changes, the tree stays
  well-formed, and each client that selected for substructure changes on the parent is told once;
  in every other case, the undoing of a refused delivery included, the state is the very one before.\<close>

theorem add_window_effect:
  assumes ok: "queues_ok s" "tree_ok s" and leaf: "wnChildren added = []"
    and run: "add_window added owner s = (r, s')"
  shows "queues_ok s' \<and> tree_ok s' \<and> (\<not> r \<longrightarrow> s' = s) \<and>
    (r \<longrightarrow> (\<exists>parent. window s (wnParent added) = Some parent \<and>
       window s' (wnId added) = Some (added\<lparr>wnOwner := owner\<rparr>) \<and>
       window s' (wnParent added) = Some (parent\<lparr>wnChildren := wnChildren parent @ [wnId added]\<rparr>) \<and>
       (\<forall>k. k \<noteq> wnId added \<and> k \<noteq> wnParent added \<longrightarrow> window s' k = window s k) \<and>
       reg_find (wnId added) (ssResources s) = None \<and>
       (\<forall>k. reg_find k (ssResources s') =
          (if k = wnId added then Some \<lparr>rrKind = KWindow, rrOwner = owner\<rparr> else reg_find k (ssResources s))) \<and>
       (\<forall>c. queued_events s' c = queued_events s c @ stamped_for s c (create_events parent added))))"
proof (cases r)
  case False
  with add_window_run(2) [OF ok run] ok show ?thesis by simp
next
  case True
  obtain parent s4 where R: "window s (wnParent added) = Some parent" "window s (wnId added) = None"
      "reg_find (wnId added) (ssResources s) = None" "wnId added \<noteq> 0"
      "queue_events_atomically (create_events parent added) (with_window parent added owner s) = (True, s4)"
      "s' = invalidate_scene s4"
    using add_window_run(1) [OF ok run True] by blast
  let ?t = "with_window parent added owner s"
  have pid: "wnId parent = wnParent added" using windows_keyedD(2) [OF tree_okD(1) [OF ok(2)] R(1)] .
  note win = window_with_window [OF R(1) pid R(2)]
  have ne: "wnId added \<noteq> wnParent added" using R(1,2) by auto
  have t: "queues_ok ?t" "queued_events ?t c = queued_events s c" "stamped_for ?t c es = stamped_for s c es" for c es
    using ok(1)
    by (simp_all add: with_window_def queues_ok_def queued_events_def stamped_for_def client_sequence_def)
  have frame: "ssWindows s4 = ssWindows ?t" "ssResources s4 = ssResources ?t"
    using queue_events_frame [of "create_events parent added" ?t] R(5) by simp_all
  have s4: "queues_ok s4" using queues.keeps_inv [OF t(1), of "create_events parent added"] R(5) by simp
  have tree: "tree_ok s'"
    using tree_ok_with_window [OF ok(2) R(1,2,4) leaf, of owner] tree_ok_cong [OF frame(1)] R(6) by simp
  have "window s' k = window ?t k" for k using frame(1) R(6) by (simp add: window_def invalidate_scene_def)
  then have "window s' (wnId added) = Some (added\<lparr>wnOwner := owner\<rparr>)"
    "window s' (wnParent added) = Some (parent\<lparr>wnChildren := wnChildren parent @ [wnId added]\<rparr>)"
    "\<forall>k. k \<noteq> wnId added \<and> k \<noteq> wnParent added \<longrightarrow> window s' k = window s k"
    using ne by (simp_all add: win)
  moreover have "ssResources s' = ssResources s @ [(wnId added, \<lparr>rrKind = KWindow, rrOwner = owner\<rparr>)]"
    using frame(2) R(6) by (simp add: invalidate_scene_def with_window_def)
  then have "reg_find k (ssResources s') =
      (if k = wnId added then Some \<lparr>rrKind = KWindow, rrOwner = owner\<rparr> else reg_find k (ssResources s))" for k
    using R(3) by (simp add: reg_find_def find_snoc split: option.splits)
  moreover have "queued_events s' c = queued_events s c @ stamped_for s c (create_events parent added)" for c
    using queues.accepted [OF t(1) R(5), of c] t(2,3) R(6) by simp
  ultimately show ?thesis using True R(1,3,6) s4 tree by simp
qed

text \<open>A window a client creates on the initial screen.\<close>

definition sample_window :: window_record where
  "sample_window = window_default\<lparr>wnId := 0x200001, wnParent := root_window_id, wnWidth := 80, wnHeight := 60\<rparr>"

lemma sample_window_added: "fst (add_window sample_window 5 (initial_state 640 480 0))"
proof -
  have "window (initial_state 640 480 0) root_window_id = Some (root_window_record 640 480)"
    by (rule initial_window)
  then show ?thesis
    by (simp add: add_window_def sample_window_def window_default_def resource_exists_def reg_find_def
        initial_state_def umap_find_def root_window_id_def default_colormap_id_def reg_insert_def
        umap_emplace_def umap_contains_def create_events_def mask_recipients_def window_def
        queue_events_atomically_def Let_def)
qed

theorem add_window_effect_witness:
  "window (snd (add_window sample_window 5 (initial_state 640 480 0))) 0x200001 =
     Some (sample_window\<lparr>wnOwner := 5\<rparr>)"
proof -
  obtain s' where run: "add_window sample_window 5 (initial_state 640 480 0) = (True, s')"
    using sample_window_added by (cases "add_window sample_window 5 (initial_state 640 480 0)") simp
  show ?thesis
    using add_window_effect [OF initial_queues initial_tree_ok _ run] run
    by (auto simp: sample_window_def window_default_def)
qed

subsection \<open>Circulating\<close>

text \<open>On a list without duplicates the other children keep their order.\<close>

lemma restack_distinct:
  assumes "distinct children" "k \<in> set children"
  shows "restack k to_end children =
     (if to_end then filter (\<lambda>c. c \<noteq> k) children @ [k] else k # filter (\<lambda>c. c \<noteq> k) children)"
proof -
  obtain xs ys where c: "children = xs @ k # ys" using assms(2) by (meson split_list)
  then have n: "k \<notin> set xs" "k \<notin> set ys" using assms(1) by auto
  have t: "takeWhile (\<lambda>c. c \<noteq> k) children = xs" "dropWhile (\<lambda>c. c \<noteq> k) children = k # ys"
    unfolding c using n(1) by (induction xs) auto
  show ?thesis unfolding restack_def t using n by (simp add: c)
qed

text \<open>Storing a window whose place in the tree is the same, up to the order of its children.\<close>

lemma tree_ok_put:
  assumes ok: "tree_ok s" and w: "window s (wnId u) = Some w" "wnParent u = wnParent w"
    and cs: "distinct (wnChildren u)" "set (wnChildren u) = set (wnChildren w)"
  shows "tree_ok (put_window u s)"
proof -
  let ?t = "put_window u s"
  have old: "window s j = Some v \<Longrightarrow> \<exists>u. window ?t j = Some u \<and> wnParent u = wnParent v" for j v
    using w by auto
  have new: "window ?t j = Some u \<Longrightarrow> \<exists>v. window s j = Some v \<and> wnParent v = wnParent u \<and>
      set (wnChildren u) = set (wnChildren v) \<and> distinct (wnChildren u)" for j u
    using w cs tree_okD(5) [OF ok] by (auto split: if_splits)
  have rooted_old: "rooted s j \<Longrightarrow> rooted ?t j" for j using rooted_transfer [of s j ?t] old by blast
  have child: "(\<exists>v. window ?t c = Some v \<and> wnParent v = k) = (\<exists>v. window s c = Some v \<and> wnParent v = k)" for c k
    using w by auto
  show ?thesis unfolding tree_ok_def
  proof (intro conjI allI impI)
    show "windows_keyed ?t" using tree_okD(1) [OF ok] by simp
    show "window ?t 0 = None" using tree_okD(2) [OF ok] w by auto
    show "\<exists>r. window ?t root_window_id = Some r \<and> wnParent r = 0" using tree_okD(3) [OF ok] old by force
  next
    fix k u assume u: "window ?t k = Some u"
    obtain v where v: "window s k = Some v" "wnParent v = wnParent u"
      "set (wnChildren u) = set (wnChildren v)" "distinct (wnChildren u)" using new [OF u] by blast
    show "rooted ?t k" using rooted_old tree_okD(4) [OF ok v(1)] .
    show "distinct (wnChildren u)" using v(4) .
    show "c \<in> set (wnChildren u) = (c \<noteq> root_window_id \<and> (\<exists>v. window ?t c = Some v \<and> wnParent v = k))" for c
      unfolding child v(3) using tree_okD(6) [OF ok v(1)] .
    show "window ?t (wnParent u) \<noteq> None" if "k \<noteq> root_window_id"
      using tree_okD(7) [OF ok v(1) that] old v(2) by auto
  qed
qed

lemma tree_ok_restacked:
  assumes "tree_ok s" "window s (wnId w) = Some w" "distinct cs" "set cs = set (wnChildren w)"
  shows "tree_ok (put_window (w\<lparr>wnChildren := cs\<rparr>) s)"
  using assms by (intro tree_ok_put) auto

lemma circulation_candidate_mapped:
  assumes "tree_ok s" "window s k = Some parent" "circulation_candidate s (wnChildren parent) b \<noteq> 0"
  shows "circulation_candidate s (wnChildren parent) b \<in> set (wnChildren parent) \<and>
    mapped_child s (circulation_candidate s (wnChildren parent) b)"
  using assms(3)
  by (auto simp: circulation_candidate_def split: option.splits if_splits dest!: find_SomeD)

lemma circulate_window_effect_run:
  assumes ok: "queues_ok s" "tree_ok s" and p: "window s k = Some parent"
    and run: "circulate_window k raise_lowest s = (d, s')"
  defines "c \<equiv> circulation_candidate s (wnChildren parent) raise_lowest"
  shows "queues_ok s' \<and> tree_ok s' \<and>
    (length (wnChildren parent) < 2 \<or> c = 0 \<or> d = QueueFull \<longrightarrow> s' = s) \<and>
    (c = 0 \<longleftrightarrow> (\<forall>j \<in> set (wnChildren parent). \<not> mapped_child s j)) \<and>
    (2 \<le> length (wnChildren parent) \<and> c \<noteq> 0 \<and> d \<noteq> QueueFull \<longrightarrow>
       mapped_child s c \<and>
       window s' k = Some (parent\<lparr>wnChildren :=
         (if raise_lowest then filter (\<lambda>j. j \<noteq> c) (wnChildren parent) @ [c]
          else c # filter (\<lambda>j. j \<noteq> c) (wnChildren parent))\<rparr>) \<and>
       (\<forall>j. j \<noteq> k \<longrightarrow> window s' j = window s j) \<and>
       (\<forall>e. queued_events s' e = queued_events s e @ stamped_for s e (circulate_events s parent c raise_lowest)))"
proof -
  have pid: "wnId parent = k" using windows_keyedD(2) [OF tree_okD(1) [OF ok(2)] p] .
  have w: "window s (wnId parent) = Some parent" using p pid by simp
  have zero: "0 \<notin> set (wnChildren parent)" using tree_okD(2,6) [OF ok(2)] p by auto
  have c0: "c = 0 \<longleftrightarrow> (\<forall>j \<in> set (wnChildren parent). \<not> mapped_child s j)"
    using zero unfolding c_def circulation_candidate_def
    by (cases raise_lowest) (auto simp: find_None_iff split: option.splits dest!: find_SomeD)
  show ?thesis
  proof (cases "length (wnChildren parent) < 2 \<or> c = 0")
    case True
    then have "s' = s" using run p by (auto simp: circulate_window_def c_def Let_def split: if_splits)
    with True ok c0 show ?thesis by auto
  next
    case False
    have c: "c \<in> set (wnChildren parent)" "mapped_child s c"
      using circulation_candidate_mapped [OF ok(2) p] False by (auto simp: c_def)
    let ?events = "circulate_events s parent c raise_lowest"
    obtain q s1 where q: "queue_events_atomically ?events s = (q, s1)" by (rule prod.exhaust)
    define w' where "w' = parent\<lparr>wnChildren := restack c raise_lowest (wnChildren parent)\<rparr>"
    have res: "(d, s') = (if \<not> q then (QueueFull, s1)
        else (if ?events = [] then NoRecipient else Delivered, invalidate_scene (put_window w' s1)))"
      using run p False q by (auto simp: circulate_window_def c_def w'_def Let_def split: if_splits)
    have order: "restack c raise_lowest (wnChildren parent) =
        (if raise_lowest then filter (\<lambda>j. j \<noteq> c) (wnChildren parent) @ [c]
         else c # filter (\<lambda>j. j \<noteq> c) (wnChildren parent))"
      using restack_distinct [OF tree_okD(5) [OF ok(2) p] c(1)] .
    show ?thesis
    proof (cases q)
      case refused: False
      then have "s1 = s" using queues.refused [OF ok(1)] q by simp
      with res refused ok c0 show ?thesis by simp
    next
      case True
      have d: "d \<noteq> QueueFull" "s' = invalidate_scene (put_window w' s1)" using res True by (simp_all split: if_splits)
      have s1: "ssWindows s1 = ssWindows s" using queue_events_frame [of ?events s] q by simp
      then have win: "window s1 j = window s j" for j by (simp add: window_def)
      have tree: "tree_ok s'"
        unfolding d w'_def tree_ok_invalidate
      proof (rule tree_ok_restacked)
        show "tree_ok s1" using tree_ok_cong [OF s1] ok(2) by simp
        show "window s1 (wnId parent) = Some parent" using w win by simp
        show "distinct (restack c raise_lowest (wnChildren parent))"
          using tree_okD(5) [OF ok(2) p] by (simp add: order)
        show "set (restack c raise_lowest (wnChildren parent)) = set (wnChildren parent)"
          using c(1) by (auto simp: order)
      qed
      have qok: "queues_ok s'" using queues.keeps_inv [OF ok(1), of ?events] q d(2) by (simp add: w'_def)
      have ev: "queued_events s' e = queued_events s e @ stamped_for s e ?events" for e
        using queues.accepted [OF ok(1), of ?events s1 e] q True d by simp
      have "wnId w' = k" using pid by (simp add: w'_def)
      then have "window s' k = Some w'" "\<forall>j. j \<noteq> k \<longrightarrow> window s' j = window s j"
        using d win by simp_all
      with False d(1) c(2) c0 tree ev qok show ?thesis unfolding w'_def order by auto
    qed
  qed
qed

text \<open>C26. Circulating restacks exactly one child.  With at least two children and a mapped one, when
  the notifications fit, the lowest mapped child goes to the top (or the highest mapped one to the
  bottom), the other children keep their order, no other window changes, the clients that asked
  are told, and the tree stays well-formed; otherwise nothing changes.\<close>

theorem circulate_window_effect:
  assumes ok: "queues_ok s" "tree_ok s" and p: "window s k = Some parent"
    and run: "circulate_window k raise_lowest s = (d, s')"
  defines "c \<equiv> circulation_candidate s (wnChildren parent) raise_lowest"
  shows "queues_ok s' \<and> tree_ok s' \<and>
    (length (wnChildren parent) < 2 \<or> c = 0 \<or> d = QueueFull \<longrightarrow> s' = s) \<and>
    (c = 0 \<longleftrightarrow> (\<forall>j \<in> set (wnChildren parent). \<not> mapped_child s j)) \<and>
    (2 \<le> length (wnChildren parent) \<and> c \<noteq> 0 \<and> d \<noteq> QueueFull \<longrightarrow>
       mapped_child s c \<and>
       window s' k = Some (parent\<lparr>wnChildren :=
         (if raise_lowest then filter (\<lambda>j. j \<noteq> c) (wnChildren parent) @ [c]
          else c # filter (\<lambda>j. j \<noteq> c) (wnChildren parent))\<rparr>) \<and>
       (\<forall>j. j \<noteq> k \<longrightarrow> window s' j = window s j) \<and>
       (\<forall>e. queued_events s' e = queued_events s e @ stamped_for s e (circulate_events s parent c raise_lowest)))"
  unfolding c_def by (rule circulate_window_effect_run [OF assms(1-4)])

text \<open>A screen with two children, the lower one mapped.\<close>

definition two_children_state :: server_state where
  "two_children_state = (initial_state 640 480 0)\<lparr>ssWindows :=
     [(root_window_id, (root_window_record 640 480)\<lparr>wnChildren := [7, 8]\<rparr>),
      (7, sample_window\<lparr>wnId := 7, wnMapped := True\<rparr>), (8, sample_window\<lparr>wnId := 8\<rparr>)]\<rparr>"

lemma two_children_window:
  "window two_children_state k =
     (if k = root_window_id then Some ((root_window_record 640 480)\<lparr>wnChildren := [7, 8]\<rparr>)
      else if k = 7 then Some (sample_window\<lparr>wnId := 7, wnMapped := True\<rparr>)
      else if k = 8 then Some (sample_window\<lparr>wnId := 8\<rparr>) else None)"
  by (simp add: window_def two_children_state_def umap_find_def)

lemma sample_window_fields [simp]:
  "wnParent sample_window = root_window_id" "wnChildren sample_window = []" "wnMapped sample_window = False"
  by (simp_all add: sample_window_def window_default_def)

lemma two_children_ok: "tree_ok two_children_state" "queues_ok two_children_state"
proof -
  have root: "rooted two_children_state root_window_id" by (rule rooted.root)
  have "rooted two_children_state 7" "rooted two_children_state 8"
    using rooted.step [of two_children_state 7] rooted.step [of two_children_state 8] root
    by (simp_all add: two_children_window root_window_id_def)
  with root show "tree_ok two_children_state"
    unfolding tree_ok_def windows_keyed_def
    by (auto simp: two_children_window root_window_id_def split: if_splits)
      (auto simp: two_children_state_def umap_ok_def root_window_id_def)
  show "queues_ok two_children_state"
    by (simp add: two_children_state_def queues_ok_def umap_sum_def)
qed

theorem circulate_window_effect_witness:
  "\<exists>w. window (snd (circulate_window root_window_id True two_children_state)) root_window_id = Some w \<and>
     wnChildren w = [8, 7]"
proof -
  let ?p = "(root_window_record 640 480)\<lparr>wnChildren := [7, 8]\<rparr>"
  have p: "window two_children_state root_window_id = Some ?p" by (simp add: two_children_window)
  have c: "circulation_candidate two_children_state [7, 8] True = 7"
    by (simp add: circulation_candidate_def mapped_child_def two_children_window root_window_id_def)
  obtain d s' where run: "circulate_window root_window_id True two_children_state = (d, s')"
    by (rule prod.exhaust)
  have "d = NoRecipient"
    using run two_children_ok(2)
    by (auto simp: circulate_window_def p c circulate_events_def two_children_window root_window_id_def
        mask_recipients_def root_window_record_def sample_window_def window_default_def)
  then show ?thesis
    using circulate_window_effect [OF two_children_ok(2,1) p run] run c by simp
qed

subsection \<open>Client messages\<close>

lemma queue_to_all_accepts:
  assumes "queues_ok s" "distinct cs" "\<forall>c \<in> set cs. can_queue_event s c"
    "ssPendingEvents s + length cs \<le> maximum_pending_events"
  shows "\<exists>s'. queue_to_all cs event s = (True, s') \<and> queues_ok s' \<and>
     (\<forall>c. queued_events s' c = queued_events s c @ stamped_for s c (map (\<lambda>r. (r, event)) cs))"
  using assms
proof (induction cs arbitrary: s)
  case Nil
  then show ?case by simp
next
  case (Cons c cs)
  have can: "can_queue_event s c" using Cons.prems by simp
  obtain s1 where s1: "queue_event c event s = (True, s1)" "ssPendingEvents s1 = Suc (ssPendingEvents s)"
    using can by (auto simp: queue_event_def Let_def)
  have ok1: "queues_ok s1" using queue_event_ok [OF Cons.prems(1)] s1 by (metis snd_conv)
  have q1: "queued_events s1 b = queued_events s b @ stamped_for s b [(c, event)]" for b
    using queued_events_queue_event [OF can, of event b] s1 by simp
  have same: "stamped_for s1 b es = stamped_for s b es" for b es
    using stamped_for_queue_event s1(1) by (metis snd_conv)
  have "\<forall>b \<in> set cs. can_queue_event s1 b"
  proof
    fix b assume b: "b \<in> set cs"
    then have pos: "0 < length cs" and "b \<noteq> c" using Cons.prems(2) by (auto simp: length_pos_if_in_set)
    have "Suc (ssPendingEvents s) + length cs \<le> maximum_pending_events" using Cons.prems(4) by simp
    with pos have "Suc (ssPendingEvents s) < maximum_pending_events" by linarith
    with \<open>b \<noteq> c\<close> b Cons.prems(3) s1 show "can_queue_event s1 b"
      by (auto simp: can_queue_event_def queue_event_def Let_def split: if_splits)
  qed
  then obtain s' where s': "queue_to_all cs event s1 = (True, s')" "queues_ok s'"
     "\<forall>b. queued_events s' b = queued_events s1 b @ stamped_for s1 b (map (\<lambda>r. (r, event)) cs)"
    using Cons.IH [OF ok1] Cons.prems(2,4) s1(2) by auto
  have "queued_events s' b = queued_events s b @ stamped_for s b (map (\<lambda>r. (r, event)) (c # cs))" for b
    using s'(3) q1 stamped_for_Cons [of s b "(c, event)" "map (\<lambda>r. (r, event)) cs"] by (simp add: same)
  with s1(1) s'(1,2) show ?case by simp
qed

text \<open>Each window's masks are a map, one entry per client, and there are fewer clients than events
  the server holds.\<close>

definition masks_ok :: "server_state \<Rightarrow> bool" where
  "masks_ok s \<longleftrightarrow> (\<forall>k w. window s k = Some w \<longrightarrow>
     umap_ok (wnEventMasks w) \<and> length (wnEventMasks w) \<le> maximum_pending_events)"

lemma message_recipients_ok:
  assumes "masks_ok s" "window s k = Some w"
  shows "distinct (message_recipients w bits)" "length (message_recipients w bits) \<le> maximum_pending_events"
proof -
  have "umap_ok (wnEventMasks w)" "length (wnEventMasks w) \<le> maximum_pending_events"
    using assms by (auto simp: masks_ok_def)
  moreover have "length (filter P xs) \<le> maximum_pending_events"
    if "length xs \<le> maximum_pending_events" for P and xs :: "(u32 \<times> u32) list"
    using that length_filter_le [of P xs] by linarith
  ultimately show "distinct (message_recipients w bits)"
      "length (message_recipients w bits) \<le> maximum_pending_events"
    by (simp_all add: message_recipients_def mask_recipients_def umap_ok_def distinct_map_filter
        maximum_pending_events_def)
qed

lemma deliver_to_recipients_run:
  assumes ok: "queues_ok s" and cs: "distinct cs" "length cs \<le> maximum_pending_events"
    and run: "deliver_to_recipients cs event s = (r, s')"
  shows "queues_ok s' \<and> (r = Delivered \<or> r = QueueFull \<and> s' = s) \<and>
    (r = Delivered \<longrightarrow> (\<forall>c. queued_events s' c = queued_events s c @ stamped_for s c (map (\<lambda>r. (r, event)) cs)))"
proof (cases "size_sub maximum_pending_events (length cs) < ssPendingEvents s \<or> list_ex (\<lambda>c. \<not> can_queue_event s c) cs")
  case True
  with ok run show ?thesis by (auto simp: deliver_to_recipients_def split: if_splits)
next
  case False
  then have can: "\<forall>c \<in> set cs. can_queue_event s c" "ssPendingEvents s + length cs \<le> maximum_pending_events"
    using cs(2) by (auto simp: list_ex_iff)
  obtain t where t: "queue_to_all cs event s = (True, t)" "queues_ok t"
     "\<forall>c. queued_events t c = queued_events s c @ stamped_for s c (map (\<lambda>r. (r, event)) cs)"
    using queue_to_all_accepts [OF ok cs(1) can] by blast
  with False run show ?thesis by (auto simp: deliver_to_recipients_def)
qed

text \<open>The windows a message visits: from the destination, with the mask it is sent with, to the first
  window with a recipient, the mask losing what each window passed does not propagate.\<close>

inductive message_reaches :: "server_state \<Rightarrow> bool \<Rightarrow> u32 \<Rightarrow> u32 \<Rightarrow> u32 \<Rightarrow> u32 \<Rightarrow> bool" for s propagate where
  here: "window s k = Some w \<Longrightarrow> message_recipients w m \<noteq> [] \<Longrightarrow> message_reaches s propagate k m k m"
| up: "window s k = Some w \<Longrightarrow> message_recipients w m = [] \<Longrightarrow> propagate \<Longrightarrow> k \<noteq> root_window_id \<Longrightarrow> m \<noteq> 0 \<Longrightarrow>
    m AND NOT (ucast (wnDoNotPropagateMask w)) \<noteq> 0 \<Longrightarrow>
    message_reaches s propagate (wnParent w) (m AND NOT (ucast (wnDoNotPropagateMask w))) a m' \<Longrightarrow>
    message_reaches s propagate k m a m'"

lemma message_walk_returns:
  assumes ok: "tree_ok s" and "rooted s k"
  shows "(\<nexists>a m'. message_reaches s propagate k m a m') \<and>
      message_walk s (window s k) m propagate event = Some (NoRecipient, s) \<or>
    (\<exists>a m' w. message_reaches s propagate k m a m' \<and> window s a = Some w \<and>
       message_recipients w m' \<noteq> [] \<and>
       message_walk s (window s k) m propagate event =
         Some (deliver_to_recipients (message_recipients w m') event s))"
  using assms(2)
proof (induction arbitrary: m rule: rooted.induct)
  case root
  obtain r where r: "window s root_window_id = Some r" "wnParent r = 0" using tree_okD(3) [OF ok] by auto
  show ?case
  proof (cases "message_recipients r m = []")
    case True
    with r have "message_walk s (window s root_window_id) m propagate event = Some (NoRecipient, s)"
      by (subst message_walk.simps) simp
    moreover have "\<nexists>a m'. message_reaches s propagate root_window_id m a m'"
      using r True by (auto elim: message_reaches.cases)
    ultimately show ?thesis by blast
  next
    case False
    with r have "message_walk s (window s root_window_id) m propagate event =
        Some (deliver_to_recipients (message_recipients r m) event s)"
      by (subst message_walk.simps) simp
    with here [OF r(1) False] False r show ?thesis by blast
  qed
next
  case (step k w)
  have nz: "wnParent w \<noteq> 0" using tree_parent_zero [OF ok step(1)] step(2) by simp
  let ?m = "m AND NOT (ucast (wnDoNotPropagateMask w))"
  show ?case
  proof (cases "message_recipients w m = []")
    case False
    with step(1) have "message_walk s (window s k) m propagate event =
        Some (deliver_to_recipients (message_recipients w m) event s)"
      by (subst message_walk.simps) simp
    with here [OF step(1) False] False step(1) show ?thesis by blast
  next
    case none: True
    show ?thesis
    proof (cases "propagate \<and> m \<noteq> 0 \<and> ?m \<noteq> 0")
      case False
      with step(1) none have "message_walk s (window s k) m propagate event = Some (NoRecipient, s)"
        by (subst message_walk.simps) auto
      moreover have "\<nexists>a m'. message_reaches s propagate k m a m'"
        using step(1) none False by (auto elim: message_reaches.cases)
      ultimately show ?thesis by blast
    next
      case True
      with step(1) none nz have run: "message_walk s (window s k) m propagate event =
          message_walk s (window s (wnParent w)) ?m propagate event"
        by (subst message_walk.simps) simp
      have reach: "message_reaches s propagate k m a m' \<longleftrightarrow> message_reaches s propagate (wnParent w) ?m a m'" for a m'
        using step(1,2) none True by (auto elim: message_reaches.cases intro: up)
      show ?thesis unfolding run reach by (rule step.IH)
    qed
  qed
qed

text \<open>C23. A client message finds its audience or changes nothing.  On a well-formed tree the walk
  returns; the message goes to every recipient of the first window, from the destination up, that
  has one for the mask as it has been narrowed on the way, once each and to nobody else; when there is
  no such window, or not all recipients have room, no queue changes.\<close>

theorem deliver_client_message_exact:
  assumes ok: "queues_ok s" "tree_ok s" "masks_ok s"
  shows "\<exists>d s'. deliver_client_message destination m propagate event s = Some (d, s') \<and> queues_ok s' \<and>
    (d \<noteq> Delivered \<longrightarrow> s' = s) \<and>
    (d = NoRecipient \<longleftrightarrow> (\<nexists>a m'. message_reaches s propagate destination m a m')) \<and>
    (d = Delivered \<longrightarrow> (\<exists>a m' w. message_reaches s propagate destination m a m' \<and> window s a = Some w \<and>
       (\<forall>c. queued_events s' c =
          queued_events s c @ stamped_for s c (map (\<lambda>r. (r, event)) (message_recipients w m')))))"
proof (cases "window s destination")
  case None
  then have "deliver_client_message destination m propagate event s = Some (NoRecipient, s)"
    by (simp add: deliver_client_message_def message_walk.simps)
  moreover have "\<nexists>a m'. message_reaches s propagate destination m a m'"
    using None by (auto elim: message_reaches.cases)
  ultimately show ?thesis using ok(1) by auto
next
  case (Some w0)
  note W = message_walk_returns [OF ok(2) tree_okD(4) [OF ok(2) Some], of propagate m event]
  then consider (none) "\<nexists>a m'. message_reaches s propagate destination m a m'"
      "message_walk s (window s destination) m propagate event = Some (NoRecipient, s)"
    | (found) a m' w where "message_reaches s propagate destination m a m'" "window s a = Some w"
      "message_walk s (window s destination) m propagate event =
         Some (deliver_to_recipients (message_recipients w m') event s)"
    by blast
  then show ?thesis
  proof cases
    case none
    with ok(1) show ?thesis by (auto simp: deliver_client_message_def)
  next
    case found
    obtain d s' where d: "deliver_to_recipients (message_recipients w m') event s = (d, s')" by (rule prod.exhaust)
    note D = deliver_to_recipients_run [OF ok(1) message_recipients_ok [OF ok(3) found(2)] d]
    have "deliver_client_message destination m propagate event s = Some (d, s')"
      using found(3) d by (simp add: deliver_client_message_def)
    moreover have "d \<noteq> NoRecipient" using D by auto
    ultimately show ?thesis using D found(1,2) by (intro exI [of _ d] exI [of _ s']) auto
  qed
qed

theorem deliver_client_message_exact_witness:
  "deliver_client_message root_window_id 0 True (EvMessage (ClientMessage 32 root_window_id 31 []))
     (initial_state 640 480 0) = Some (NoRecipient, initial_state 640 480 0)"
proof -
  let ?s = "initial_state 640 480 0"
  have "masks_ok ?s" by (auto simp: masks_ok_def dest!: initial_window_only)
  note T = deliver_client_message_exact [OF initial_queues initial_tree_ok this, of root_window_id 0 True]
  have "message_recipients (root_window_record 640 480) 0 = []"
    by (simp add: message_recipients_def root_window_record_def window_default_def)
  then have "\<nexists>a m'. message_reaches ?s True root_window_id 0 a m'"
    by (auto elim: message_reaches.cases simp: initial_window)
  with T show ?thesis by force
qed

end
