(* ===== verification/Cursors.thy ===== *)
theory Cursors
  imports Window_Changes
begin

text \<open>
  Cursors and focus over the window tree (\<^verbatim>\<open>src/server/server_state.cpp\<close>): which cursor is shown
  (\<open>current_cursor\<close>), its change notifications (\<open>append_cursor_change\<close>, \<open>cursor_maybe_changed\<close>),
  the operations that change cursors (\<open>set_window_cursor\<close>, \<open>set_pointer_grab_cursor\<close>,
  \<open>replace_cursor\<close>, \<open>replace_cursor_by_name\<close>), and where the focus reverts to when its window can no
  longer hold it (\<open>reverted_focus_state\<close>, \<open>revert_focus_from\<close>).
\<close>

definition current_cursor_for :: "server_state \<Rightarrow> u32 \<Rightarrow> active_grab option \<Rightarrow> cursor_ref option" where
  "current_cursor_for s pointer grab =
     (case grab of
        None \<Rightarrow> effective_cursor s pointer
      | Some g \<Rightarrow>
          if agCursor g \<noteq> None then Some (agCursor g)
          else if pointer = agWindow g then effective_cursor s pointer
          else Option.bind (is_descendant s pointer (agWindow g)) (\<lambda>inside.
                 effective_cursor s (if inside then pointer else agWindow g)))"

definition current_cursor :: "server_state \<Rightarrow> cursor_ref option" where
  "current_cursor s =
     Option.bind (pointer_window s) (\<lambda>pointer. current_cursor_for s pointer (inPointerGrab (ssInput s)))"

definition cursor_serial :: "server_state \<Rightarrow> cursor_ref \<Rightarrow> u32" where
  "cursor_serial s c = (case c of None \<Rightarrow> 0 | Some h \<Rightarrow>
     (case umap_find h (ssCursorImages s) of None \<Rightarrow> 0 | Some i \<Rightarrow> ciSerial i))"

definition cursor_name :: "server_state \<Rightarrow> cursor_ref \<Rightarrow> u32" where
  "cursor_name s c = (case c of None \<Rightarrow> 0 | Some h \<Rightarrow>
     (case umap_find h (ssCursorImages s) of None \<Rightarrow> 0 | Some i \<Rightarrow> ciName i))"

definition append_cursor_change ::
  "server_state \<Rightarrow> cursor_ref \<Rightarrow> planned_event list \<Rightarrow> event_delivery \<times> planned_event list" where
  "append_cursor_change s current events =
     (if current = ssDisplayedCursor s then (NoRecipient, events)
      else let added = map (\<lambda>e. (xcClient e, EvExtension (XFixesCursorNotify 0 (xcWindow e)
                  (cursor_serial s current) (ssCurrentTime s) (cursor_name s current))))
                (filter (\<lambda>e. xcEventMask e AND 1 \<noteq> 0) (ssXfixesCursorInputs s))
           in (if added = [] then NoRecipient else Delivered, events @ added))"

definition cursor_maybe_changed :: "server_state \<Rightarrow> (event_delivery \<times> server_state) option" where
  "cursor_maybe_changed s =
     Option.bind (current_cursor s) (\<lambda>current.
       let (delivery, events) = append_cursor_change s current [];
           (queued, s1) = queue_events_atomically events s
       in Some (if \<not> queued then (QueueFull, s1) else (delivery, s1\<lparr>ssDisplayedCursor := current\<rparr>)))"

definition set_window_cursor ::
  "window_record \<Rightarrow> cursor_ref \<Rightarrow> server_state \<Rightarrow> (table_update \<times> server_state) option" where
  "set_window_cursor w new_cursor s =
     Option.bind (current_cursor (put_window (w\<lparr>wnCursor := new_cursor\<rparr>) s)) (\<lambda>current.
       let (_, events) = append_cursor_change s current [];
           (queued, s1) = queue_events_atomically events s
       in Some (if \<not> queued then (UpdateQueueFull, s1)
                else (Updated, (put_window (w\<lparr>wnCursor := new_cursor\<rparr>) s1)\<lparr>ssDisplayedCursor := current\<rparr>)))"

definition set_pointer_grab_cursor ::
  "u32 \<Rightarrow> cursor_ref \<Rightarrow> server_state \<Rightarrow> (table_update \<times> server_state) option" where
  "set_pointer_grab_cursor event_mask new_cursor s =
     (case inPointerGrab (ssInput s) of
        None \<Rightarrow> Some (Invalid, s)
      | Some g \<Rightarrow>
          let prospective = g\<lparr>agEventMask := event_mask, agCursor := new_cursor\<rparr>
          in Option.bind (pointer_window s) (\<lambda>pointer.
               Option.bind (current_cursor_for s pointer (Some prospective)) (\<lambda>current.
                 let (_, events) = append_cursor_change s current [];
                     (queued, s1) = queue_events_atomically events s
                 in Some (if \<not> queued then (UpdateQueueFull, s1)
                          else (Updated, s1\<lparr>ssInput := (ssInput s1)\<lparr>inPointerGrab := Some prospective\<rparr>,
                                            ssDisplayedCursor := current\<rparr>)))))"

text \<open>The loops of both replacements: every reference the predicate selects becomes \<open>source\<close>.\<close>

definition substitute :: "(cursor_ref \<Rightarrow> bool) \<Rightarrow> cursor_ref \<Rightarrow> cursor_ref \<Rightarrow> cursor_ref" where
  "substitute matches source c = (if matches c then source else c)"

definition substitute_cursors :: "(cursor_ref \<Rightarrow> bool) \<Rightarrow> cursor_ref \<Rightarrow> server_state \<Rightarrow> server_state" where
  "substitute_cursors matches source s =
     s\<lparr>ssCursors := umap_map (\<lambda>_ c. c\<lparr>crImage := substitute matches source (crImage c)\<rparr>) (ssCursors s),
       ssWindows := umap_map (\<lambda>_ w. w\<lparr>wnCursor := substitute matches source (wnCursor w)\<rparr>) (ssWindows s),
       ssPassiveGrabs := map (\<lambda>g. g\<lparr>pgCursor := substitute matches source (pgCursor g)\<rparr>) (ssPassiveGrabs s),
       ssInput := (ssInput s)
         \<lparr>inPointerGrab := map_option (\<lambda>g. g\<lparr>agCursor := substitute matches source (agCursor g)\<rparr>)
            (inPointerGrab (ssInput s)),
          inKeyboardGrab := map_option (\<lambda>g. g\<lparr>agCursor := substitute matches source (agCursor g)\<rparr>)
            (inKeyboardGrab (ssInput s))\<rparr>\<rparr>"

definition replace_matching ::
  "(cursor_ref \<Rightarrow> bool) \<Rightarrow> cursor_ref \<Rightarrow> server_state \<Rightarrow> (table_update \<times> server_state) option" where
  "replace_matching matches source s =
     Option.bind (current_cursor s) (\<lambda>previous.
       let current = substitute matches source previous;
           (_, events) = append_cursor_change s current [];
           (queued, s1) = queue_events_atomically events s
       in Some (if \<not> queued then (UpdateQueueFull, s1)
                else (Updated, (substitute_cursors matches source s1)\<lparr>ssDisplayedCursor := current\<rparr>)))"

definition replace_cursor ::
  "cursor_ref \<Rightarrow> cursor_ref \<Rightarrow> server_state \<Rightarrow> (table_update \<times> server_state) option" where
  "replace_cursor source destination s =
     (if source = None \<or> destination = None then Some (Invalid, s)
      else replace_matching (\<lambda>c. c = destination) source s)"

definition replace_cursor_by_name ::
  "cursor_ref \<Rightarrow> u32 \<Rightarrow> server_state \<Rightarrow> (table_update \<times> server_state) option" where
  "replace_cursor_by_name source name s =
     (if source = None \<or> name = 0 then Some (Invalid, s)
      else replace_matching (\<lambda>c. c \<noteq> None \<and> c \<noteq> source \<and> cursor_name s c = name) source s)"

subsection \<open>Focus reversion\<close>

definition focus_viewable :: "server_state \<Rightarrow> u32 \<Rightarrow> u32 \<Rightarrow> bool option" where
  "focus_viewable s unavailable k =
     (if k = unavailable then Some False
      else Option.bind (is_descendant s k unavailable) (\<lambda>inside.
             if inside then Some False else map_option (\<lambda>m. m = 2) (map_state s k)))"

partial_function (option) revert_walk :: "server_state \<Rightarrow> u32 \<Rightarrow> u32 \<Rightarrow> u32 option" where
  "revert_walk s unavailable parent =
     (if parent = 0 then Some 0
      else Option.bind (focus_viewable s unavailable parent) (\<lambda>v.
             if v then Some parent
             else revert_walk s unavailable
                    (case window s parent of None \<Rightarrow> 0 | Some w \<Rightarrow> wnParent w)))"

definition reverted_focus_state :: "u32 \<Rightarrow> server_state \<Rightarrow> focus_state option" where
  "reverted_focus_state unavailable s =
     (let focus = inFocus (ssInput s)
      in if fsKind focus \<noteq> FocusWindow then Some focus
         else Option.bind (focus_viewable s unavailable (fsWindow focus)) (\<lambda>v.
           if v then Some focus
           else if fsRevertTo focus = 0 then Some (focus\<lparr>fsKind := FocusNone, fsWindow := 0\<rparr>)
           else if fsRevertTo focus = 1 then Some (focus\<lparr>fsKind := FocusPointerRoot, fsWindow := 0\<rparr>)
           else Option.bind
                  (revert_walk s unavailable
                     (case window s (fsWindow focus) of None \<Rightarrow> 0 | Some w \<Rightarrow> wnParent w))
                  (\<lambda>parent. Some (focus\<lparr>fsRevertTo := 0, fsWindow := parent,
                     fsKind := (if parent = 0 then FocusNone else FocusWindow)\<rparr>))))"

definition revert_focus_from :: "u32 \<Rightarrow> server_state \<Rightarrow> server_state option" where
  "revert_focus_from unavailable s =
     (let focus = inFocus (ssInput s)
      in if fsKind focus \<noteq> FocusWindow then Some s
         else Option.bind (if fsWindow focus = unavailable then Some True
                           else is_descendant s (fsWindow focus) unavailable) (\<lambda>inside.
           if \<not> inside then Some s
           else Option.bind (reverted_focus_state unavailable s) (\<lambda>f.
                  Some (s\<lparr>ssInput := (ssInput s)\<lparr>inFocus := f\<rparr>\<rparr>))))"

text \<open>The windows that can hold the focus while \<open>unavailable\<close> goes away.\<close>

definition can_hold_focus :: "server_state \<Rightarrow> u32 \<Rightarrow> u32 \<Rightarrow> bool" where
  "can_hold_focus s unavailable k \<longleftrightarrow>
     k \<noteq> unavailable \<and> (k, unavailable) \<notin> (parent_rel s)\<^sup>+ \<and> all_mapped s k"

lemma focus_viewable_returns:
  assumes "tree_ok s"
  shows "focus_viewable s u k = Some (can_hold_focus s u k)"
  using map_state_returns [OF assms, of k] map_state_viewable [OF assms, of k]
  by (auto simp: focus_viewable_def can_hold_focus_def is_descendant_returns [OF assms])

text \<open>The first window that can hold the focus, from \<open>k\<close> on upwards.\<close>

inductive first_holder :: "server_state \<Rightarrow> u32 \<Rightarrow> u32 \<Rightarrow> u32 \<Rightarrow> bool" for s unavailable where
  holds: "can_hold_focus s unavailable k \<Longrightarrow> first_holder s unavailable k k"
| up: "window s k = Some w \<Longrightarrow> \<not> can_hold_focus s unavailable k \<Longrightarrow> k \<noteq> root_window_id \<Longrightarrow>
    first_holder s unavailable (wnParent w) a \<Longrightarrow> first_holder s unavailable k a"

lemma can_hold_focus_nonzero: "tree_ok s \<Longrightarrow> can_hold_focus s u k \<Longrightarrow> k \<noteq> 0"
  using tree_okD(2) by (auto simp: can_hold_focus_def dest: all_mappedD)

lemma first_holderD: "first_holder s u k a \<Longrightarrow> can_hold_focus s u a \<and> (k, a) \<in> (parent_rel s)\<^sup>*"
proof (induction rule: first_holder.induct)
  case (up k w a)
  then have "(k, wnParent w) \<in> parent_rel s" by (auto simp: parent_rel_def)
  with up show ?case by (auto intro: converse_rtrancl_into_rtrancl)
qed simp

lemma revert_walk_returns:
  assumes ok: "tree_ok s" and "rooted s k"
  shows "\<exists>a. revert_walk s u k = Some a \<and>
    (if \<exists>b. first_holder s u k b then first_holder s u k a else a = 0)"
  using assms(2)
proof (induction rule: rooted.induct)
  case root
  obtain r where r: "window s root_window_id = Some r" "wnParent r = 0" using tree_okD(3) [OF ok] by auto
  have nz: "root_window_id \<noteq> 0" using r tree_okD(2) [OF ok] by auto
  show ?case
  proof (cases "can_hold_focus s u root_window_id")
    case True
    then have "revert_walk s u root_window_id = Some root_window_id"
      using nz by (subst revert_walk.simps) (simp add: focus_viewable_returns [OF ok])
    with holds [OF True] show ?thesis by auto
  next
    case False
    then have "revert_walk s u root_window_id = Some 0"
      using nz r by (subst revert_walk.simps) (simp add: focus_viewable_returns [OF ok] revert_walk.simps)
    moreover have "\<not> first_holder s u root_window_id b" for b
      using False by (auto elim: first_holder.cases)
    ultimately show ?thesis by auto
  qed
next
  case (step k w)
  have nz: "k \<noteq> 0" using step(1) tree_okD(2) [OF ok] by auto
  show ?case
  proof (cases "can_hold_focus s u k")
    case True
    then have "revert_walk s u k = Some k"
      using nz by (subst revert_walk.simps) (simp add: focus_viewable_returns [OF ok])
    with holds [OF True] show ?thesis by auto
  next
    case False
    then have run: "revert_walk s u k = revert_walk s u (wnParent w)"
      using nz step(1) by (subst revert_walk.simps) (simp add: focus_viewable_returns [OF ok])
    have "first_holder s u k = first_holder s u (wnParent w)"
      using False step(1,2) by (intro ext) (auto elim: first_holder.cases intro: up)
    with step.IH show ?thesis unfolding run by (simp only:)
  qed
qed

text \<open>C29. The focus never stays on a window that cannot hold it.  On a well-formed tree the reversion
  returns; a focus whose window is viewable outside the subtree going away is kept; otherwise it
  goes to nobody, to the pointer root, or to the nearest ancestor that can hold it (to nobody when
  there is none) as the client asked, and the time of the last focus change is kept.\<close>

theorem focus_reverts_to_holder:
  assumes ok: "tree_ok s"
  defines "f \<equiv> inFocus (ssInput s)"
  shows "\<exists>g. reverted_focus_state unavailable s = Some g \<and>
    (fsKind g = FocusWindow \<longrightarrow> can_hold_focus s unavailable (fsWindow g)) \<and>
    (fsKind f \<noteq> FocusWindow \<or> can_hold_focus s unavailable (fsWindow f) \<longrightarrow> g = f) \<and>
    (fsKind f = FocusWindow \<and> \<not> can_hold_focus s unavailable (fsWindow f) \<longrightarrow>
       fsKind g = (if fsRevertTo f = 0 then FocusNone else if fsRevertTo f = 1 then FocusPointerRoot
                   else if \<exists>b. first_holder s unavailable (fsWindow f) b then FocusWindow else FocusNone) \<and>
       (fsKind g = FocusWindow \<longrightarrow> first_holder s unavailable (fsWindow f) (fsWindow g))) \<and>
    fsChangedAt g = fsChangedAt f"
proof (cases "fsKind f = FocusWindow \<and> \<not> can_hold_focus s unavailable (fsWindow f) \<and>
    fsRevertTo f \<noteq> 0 \<and> fsRevertTo f \<noteq> 1")
  case False
  then show ?thesis
    by (auto simp: reverted_focus_state_def focus_viewable_returns [OF ok] f_def [symmetric] Let_def)
next
  case True
  define p where "p = (case window s (fsWindow f) of None \<Rightarrow> 0 | Some w \<Rightarrow> wnParent w)"
  have "\<exists>a. revert_walk s unavailable p = Some a \<and>
      (if \<exists>b. first_holder s unavailable (fsWindow f) b then first_holder s unavailable (fsWindow f) a else a = 0)"
  proof (cases "\<exists>w. window s (fsWindow f) = Some w \<and> fsWindow f \<noteq> root_window_id")
    case below: True
    then obtain w where w: "window s (fsWindow f) = Some w" "fsWindow f \<noteq> root_window_id" by blast
    obtain v where v: "window s (wnParent w) = Some v" using tree_okD(7) [OF ok w] by blast
    have same: "first_holder s unavailable (fsWindow f) = first_holder s unavailable (wnParent w)"
      using True w by (intro ext) (auto elim: first_holder.cases intro: up)
    have "p = wnParent w" using w by (simp add: p_def)
    then show ?thesis
      using revert_walk_returns [OF ok tree_okD(4) [OF ok v], of unavailable] by (simp only: same)
  next
    case outside: False
    then have "p = 0" using tree_okD(3) [OF ok] by (auto simp: p_def split: option.splits)
    then have "revert_walk s unavailable p = Some 0" by (simp add: revert_walk.simps)
    moreover have "\<not> first_holder s unavailable (fsWindow f) b" for b
      using True outside by (auto elim: first_holder.cases)
    ultimately show ?thesis by simp
  qed
  then obtain a where a: "revert_walk s unavailable p = Some a"
    "if \<exists>b. first_holder s unavailable (fsWindow f) b then first_holder s unavailable (fsWindow f) a else a = 0"
    by blast
  have z: "first_holder s unavailable (fsWindow f) a \<Longrightarrow> a \<noteq> 0"
    using first_holderD can_hold_focus_nonzero [OF ok] by blast
  have "reverted_focus_state unavailable s = Some (f\<lparr>fsRevertTo := 0, fsWindow := a,
      fsKind := (if a = 0 then FocusNone else FocusWindow)\<rparr>)"
    using True a(1) by (simp add: reverted_focus_state_def focus_viewable_returns [OF ok] f_def [symmetric] p_def)
  then show ?thesis using True a(2) z first_holderD by (auto split: if_splits)
qed

theorem focus_reverts_to_holder_witness:
  "\<exists>g. reverted_focus_state 0 (initial_state 640 480 0) = Some g \<and> fsChangedAt g = 1"
  using focus_reverts_to_holder [OF initial_tree_ok, of 0 640 480 0]
  by (auto simp: initial_state_def)

subsection \<open>The displayed cursor\<close>

text \<open>The windows of \<open>t\<close> are those of \<open>s\<close> with every cursor mapped by \<open>g\<close>: the walks that look at
  nothing else end alike, and the one that looks for a cursor ends at the mapped one.\<close>

abbreviation recursor :: "(cursor_ref \<Rightarrow> cursor_ref) \<Rightarrow> window_record \<Rightarrow> window_record" where
  "recursor g w \<equiv> w\<lparr>wnCursor := g (wnCursor w)\<rparr>"

definition recursored :: "(cursor_ref \<Rightarrow> cursor_ref) \<Rightarrow> server_state \<Rightarrow> server_state \<Rightarrow> bool" where
  "recursored g s t \<longleftrightarrow> (\<forall>k. window t k = map_option (recursor g) (window s k))"

lemma recursoredD: "recursored g s t \<Longrightarrow> window t k = map_option (recursor g) (window s k)"
  by (simp add: recursored_def)

lemma recursored_same: "ssWindows t = ssWindows s \<Longrightarrow> recursored (\<lambda>c. c) s t"
  by (simp add: recursored_def window_def option.map_ident)

lemma descends_recursored:
  assumes "recursored g s t" "descends s c a = Some r"
  shows "descends t (map_option (recursor g) c) a = Some r"
proof -
  have "s = s \<longrightarrow> descends t (map_option (recursor g) c) a = Some r"
    by (rule descends.raw_induct [OF _ assms(2),
        where P = "\<lambda>u c a r. u = s \<longrightarrow> descends t (map_option (recursor g) c) a = Some r"])
      (subst descends.simps, auto simp: recursoredD [OF assms(1)] split: option.splits if_splits)
  then show ?thesis by simp
qed

lemma viewable_from_recursored:
  assumes "recursored g s t" "viewable_from s w = Some r"
  shows "viewable_from t (recursor g w) = Some r"
proof -
  have "s = s \<longrightarrow> viewable_from t (recursor g w) = Some r"
    by (rule viewable_from.raw_induct [OF _ assms(2),
        where P = "\<lambda>u w r. u = s \<longrightarrow> viewable_from t (recursor g w) = Some r"])
      (subst viewable_from.simps, auto simp: recursoredD [OF assms(1)] split: option.splits if_splits)
  then show ?thesis by simp
qed

lemma position_from_recursored:
  assumes "recursored g s t" "position_from s c x y = Some r"
  shows "position_from t (map_option (recursor g) c) x y = Some r"
proof -
  have "s = s \<longrightarrow> position_from t (map_option (recursor g) c) x y = Some r"
    by (rule position_from.raw_induct [where xa = "(((s, c), x), y)" and ya = r
        and P = "\<lambda>u c x y r. u = s \<longrightarrow> position_from t (map_option (recursor g) c) x y = Some r",
        unfolded prod.case, OF _ assms(2)])
      (subst position_from.simps, auto simp: recursoredD [OF assms(1)] split: option.splits if_splits)
  then show ?thesis by simp
qed

lemma cursor_from_recursored:
  assumes "recursored g s t" "\<And>c. g c = None \<longleftrightarrow> c = None" "cursor_from s c = Some r"
  shows "cursor_from t (map_option (recursor g) c) = Some (g r)"
proof -
  have [simp]: "g None = None" using assms(2) by simp
  have "s = s \<longrightarrow> cursor_from t (map_option (recursor g) c) = Some (g r)"
    by (rule cursor_from.raw_induct [OF _ assms(3),
        where P = "\<lambda>u c r. u = s \<longrightarrow> cursor_from t (map_option (recursor g) c) = Some (g r)"])
      (subst cursor_from.simps, auto simp: recursoredD [OF assms(1)] assms(2) simp del: not_None_eq not_Some_eq
        split: option.splits if_splits)
  then show ?thesis by simp
qed

lemma queries_recursored:
  assumes R: "recursored g s t"
  shows "is_descendant s k a = Some b \<Longrightarrow> is_descendant t k a = Some b"
    and "map_state s k = Some m \<Longrightarrow> map_state t k = Some m"
    and "absolute_position s k = Some p \<Longrightarrow> absolute_position t k = Some p"
  using descends_recursored [OF R, of "window s k"] viewable_from_recursored [OF R]
    position_from_recursored [OF R, of "window s k"]
  by (auto simp: is_descendant_def map_state_def absolute_position_def recursoredD [OF R] split: option.splits if_splits)

lemma child_hit_recursored:
  assumes R: "recursored g s t" and hit: "child_hit s x y k = Some b"
  shows "child_hit t x y k = Some b"
proof (cases "window s k")
  case None
  with hit show ?thesis by (simp add: child_hit_def recursoredD [OF R])
next
  case (Some w)
  then obtain m where m: "map_state s (wnId w) = Some m" using hit by (auto simp: child_hit_def bind_eq_Some_conv)
  note m' = queries_recursored(2) [OF R m]
  show ?thesis
  proof (cases "m = 2")
    case False
    with hit m m' Some show ?thesis by (simp add: child_hit_def recursoredD [OF R])
  next
    case True
    then obtain ox oy where p: "absolute_position s (wnId w) = Some (ox, oy)"
      using hit m Some by (auto simp: child_hit_def bind_eq_Some_conv)
    note p' = queries_recursored(3) [OF R p]
    have [simp]: "shape_excludes (recursor g w) = shape_excludes w" by (intro ext) (simp add: shape_excludes_def)
    show ?thesis
      using hit m m' p p' Some True by (auto simp: child_hit_def recursoredD [OF R] Let_def)
  qed
qed

lemma first_hit_recursored:
  assumes R: "recursored g s t"
  shows "first_hit s x y ks = Some r \<Longrightarrow> first_hit t x y ks = Some r"
proof (induction ks)
  case (Cons k ks)
  then obtain h where "child_hit s x y k = Some h" by (auto simp: bind_eq_Some_conv)
  with Cons child_hit_recursored [OF R this] show ?case
    by (auto simp: recursoredD [OF R] child_hit_def split: option.splits if_splits)
qed simp

lemma deepest_recursored:
  assumes R: "recursored g s t" and "deepest_window_at s k x y = Some r"
  shows "deepest_window_at t k x y = Some r"
proof -
  have "s = s \<longrightarrow> deepest_window_at t k x y = Some r"
    by (rule deepest_window_at.raw_induct [where xa = "(((s, k), x), y)" and ya = r
        and P = "\<lambda>u k x y r. u = s \<longrightarrow> deepest_window_at t k x y = Some r",
        unfolded prod.case, OF _ assms(2)])
      (subst deepest_window_at.simps, auto simp: recursoredD [OF R] child_window_at_def bind_eq_Some_conv
        dest!: first_hit_recursored [OF R] split: option.splits if_splits)
  then show ?thesis by simp
qed

lemma current_cursor_for_recursored:
  assumes R: "recursored g s t" and g: "\<And>c. g c = None \<longleftrightarrow> c = None"
    and c: "current_cursor_for s p grab = Some c"
  shows "current_cursor_for t p (map_option (\<lambda>a. a\<lparr>agCursor := g (agCursor a)\<rparr>) grab) = Some (g c)"
proof -
  have e: "effective_cursor s k = Some d \<Longrightarrow> effective_cursor t k = Some (g d)" for k d
    using cursor_from_recursored [OF R g, of "window s k"] by (simp add: effective_cursor_def recursoredD [OF R])
  show ?thesis
  proof (cases grab)
    case None
    with c e show ?thesis by (simp add: current_cursor_for_def)
  next
    case (Some a)
    show ?thesis
    proof (cases "agCursor a = None \<and> p \<noteq> agWindow a")
      case True
      then obtain b where b: "is_descendant s p (agWindow a) = Some b"
        using c Some by (auto simp: current_cursor_for_def bind_eq_Some_conv)
      with queries_recursored(1) [OF R b] True c e g show ?thesis by (auto simp: current_cursor_for_def Some)
    next
      case False
      with c e g show ?thesis by (auto simp: current_cursor_for_def Some)
    qed
  qed
qed

lemma pointer_window_recursored:
  assumes "recursored g s t" "inPointerX (ssInput t) = inPointerX (ssInput s)"
    "inPointerY (ssInput t) = inPointerY (ssInput s)" "pointer_window s = Some p"
  shows "pointer_window t = Some p"
  using deepest_recursored [OF assms(1)] assms(2-) by (simp add: pointer_window_def)

lemma current_cursor_same:
  assumes "ssWindows t = ssWindows s" "ssInput t = ssInput s"
  shows "current_cursor s = Some c \<Longrightarrow> current_cursor t = Some c"
  using pointer_window_recursored [OF recursored_same [OF assms(1)]]
    current_cursor_for_recursored [OF recursored_same [OF assms(1)]]
  by (fastforce simp: current_cursor_def bind_eq_Some_conv assms(2) option.map_ident)

lemma current_cursor_for_returns:
  assumes ok: "tree_ok s"
  shows "\<exists>c. current_cursor_for s p grab = Some c"
proof -
  have "\<exists>c. effective_cursor s k = Some c" for k
    using effective_cursor_returns [OF ok, of k]
    by (cases "window s k") (auto simp: effective_cursor_def cursor_from.simps)
  then show ?thesis
    by (auto simp: current_cursor_for_def is_descendant_returns [OF ok] split: option.splits)
qed

lemma pointer_window_returns:
  assumes ok: "tree_ok s"
  shows "\<exists>p. pointer_window s = Some p"
proof -
  have "window s root_window_id \<noteq> None" using tree_okD(3) [OF ok] by auto
  from deepest_window_at_descends [OF ok this] show ?thesis unfolding pointer_window_def by blast
qed

lemma current_cursor_returns: "tree_ok s \<Longrightarrow> \<exists>c. current_cursor s = Some c"
  using pointer_window_returns [of s] current_cursor_for_returns [of s]
  by (auto simp: current_cursor_def)

text \<open>The cursor shown is the cursor in force: what the clients were last told.\<close>

definition cursor_shown :: "server_state \<Rightarrow> bool" where
  "cursor_shown s \<longleftrightarrow> current_cursor s = Some (ssDisplayedCursor s)"

lemma cursor_updates [simp]:
  "window (s\<lparr>ssDisplayedCursor := c\<rparr>) k = window s k" "ssWindows (s\<lparr>ssDisplayedCursor := c\<rparr>) = ssWindows s"
  by (simp_all add: window_def)

text \<open>What the listeners are told when \<open>current\<close> becomes the cursor shown.\<close>

abbreviation cursor_notices :: "server_state \<Rightarrow> cursor_ref \<Rightarrow> planned_event list" where
  "cursor_notices s current \<equiv> snd (append_cursor_change s current [])"

abbreviation told :: "server_state \<Rightarrow> cursor_ref \<Rightarrow> server_state \<Rightarrow> bool" where
  "told s current t \<equiv> (\<forall>c. queued_events t c = queued_events s c @ stamped_for s c (cursor_notices s current))"

lemma queued_events_cong: "ssEventQueues t = ssEventQueues s \<Longrightarrow> queued_events t c = queued_events s c"
  by (simp add: queued_events_def)

lemma set_window_cursor_shown:
  assumes ok: "tree_ok s" "queues_ok s" and w: "window s (wnId w) = Some w"
  shows "\<exists>r s'. set_window_cursor w c s = Some (r, s') \<and>
    (if r = Updated then cursor_shown s' \<and> told s (ssDisplayedCursor s') s' \<and>
       ssWindows s' = ssWindows (put_window (w\<lparr>wnCursor := c\<rparr>) s)
     else r = UpdateQueueFull \<and> s' = s)"
proof -
  let ?v = "w\<lparr>wnCursor := c\<rparr>"
  have "tree_ok (put_window ?v s)" using tree_ok_put [OF ok(1), of ?v w] w tree_okD(5) [OF ok(1) w] by simp
  then obtain d where d: "current_cursor (put_window ?v s) = Some d" using current_cursor_returns by blast
  obtain q s1 where q: "queue_events_atomically (cursor_notices s d) s = (q, s1)" by fastforce
  obtain es n where s1: "s1 = s\<lparr>ssEventQueues := es, ssPendingEvents := n\<rparr>"
    using queue_events_server_frame [of "cursor_notices s d" s] q by auto
  define t where "t = (put_window ?v s1)\<lparr>ssDisplayedCursor := d\<rparr>"
  have "current_cursor t = Some d"
    by (rule current_cursor_same [OF _ _ d]) (simp_all add: s1 put_window_def t_def)
  moreover have "ssDisplayedCursor t = d" by (simp add: t_def)
  moreover have "told s d t" if q
    using queues.accepted [OF ok(2), of "cursor_notices s d" s1] q that
    by (simp add: queued_events_def put_window_def t_def)
  moreover have "s1 = s" if "\<not> q"
    using queues.refused [OF ok(2), of "cursor_notices s d" s1] q that by simp
  moreover have "set_window_cursor w c s = Some (if q then (Updated, t) else (UpdateQueueFull, s1))"
    by (simp add: set_window_cursor_def d q split_beta Let_def t_def)
  moreover have "ssWindows t = ssWindows (put_window (w\<lparr>wnCursor := c\<rparr>) s)"
    by (simp add: s1 put_window_def t_def)
  ultimately show ?thesis by (cases q) (simp_all add: cursor_shown_def)
qed

lemma cursor_maybe_changed_shown:
  assumes ok: "tree_ok s" "queues_ok s"
  shows "\<exists>r s'. cursor_maybe_changed s = Some (r, s') \<and>
    (if r = QueueFull then s' = s else cursor_shown s' \<and> told s (ssDisplayedCursor s') s')"
proof -
  obtain d where d: "current_cursor s = Some d" using current_cursor_returns [OF ok(1)] by blast
  obtain q s1 where q: "queue_events_atomically (cursor_notices s d) s = (q, s1)" by fastforce
  obtain es n where s1: "s1 = s\<lparr>ssEventQueues := es, ssPendingEvents := n\<rparr>"
    using queue_events_server_frame [of "cursor_notices s d" s] q by auto
  let ?t = "s1\<lparr>ssDisplayedCursor := d\<rparr>"
  have "current_cursor ?t = Some d" by (rule current_cursor_same [OF _ _ d]) (simp_all add: s1)
  moreover have "told s d ?t" if q
    using queues.accepted [OF ok(2), of "cursor_notices s d" s1] q that by (simp add: queued_events_def)
  moreover have "s1 = s" if "\<not> q"
    using queues.refused [OF ok(2), of "cursor_notices s d" s1] q that by simp
  moreover have "fst (append_cursor_change s d []) \<noteq> QueueFull" by (simp add: append_cursor_change_def Let_def)
  moreover have "cursor_maybe_changed s =
      Some (if q then (fst (append_cursor_change s d []), ?t) else (QueueFull, s1))"
    by (simp add: cursor_maybe_changed_def d q split_beta Let_def)
  ultimately show ?thesis by (cases q) (simp_all add: cursor_shown_def s1)
qed

lemma set_pointer_grab_cursor_shown:
  assumes ok: "tree_ok s" "queues_ok s" and g: "inPointerGrab (ssInput s) = Some g"
  shows "\<exists>r s'. set_pointer_grab_cursor m c s = Some (r, s') \<and>
    (if r = Updated then cursor_shown s' \<and> told s (ssDisplayedCursor s') s' \<and>
       inPointerGrab (ssInput s') = Some (g\<lparr>agEventMask := m, agCursor := c\<rparr>)
     else r = UpdateQueueFull \<and> s' = s)"
proof -
  let ?g = "g\<lparr>agEventMask := m, agCursor := c\<rparr>"
  obtain p where p: "pointer_window s = Some p" using pointer_window_returns [OF ok(1)] by blast
  obtain d where d: "current_cursor_for s p (Some ?g) = Some d" using current_cursor_for_returns [OF ok(1)] by blast
  obtain q s1 where q: "queue_events_atomically (cursor_notices s d) s = (q, s1)" by fastforce
  obtain es n where s1: "s1 = s\<lparr>ssEventQueues := es, ssPendingEvents := n\<rparr>"
    using queue_events_server_frame [of "cursor_notices s d" s] q by auto
  define t where "t = s1\<lparr>ssInput := (ssInput s1)\<lparr>inPointerGrab := Some ?g\<rparr>, ssDisplayedCursor := d\<rparr>"
  have same: "recursored (\<lambda>c. c) s t" by (rule recursored_same) (simp add: t_def s1)
  have "pointer_window t = Some p" by (rule pointer_window_recursored [OF same _ _ p]) (simp_all add: t_def s1)
  moreover have grab: "inPointerGrab (ssInput t) = Some ?g" by (simp add: t_def)
  moreover have "current_cursor_for t p (Some ?g) = Some d"
    using current_cursor_for_recursored [OF same _ d] by simp
  moreover have dt: "ssDisplayedCursor t = d" by (simp add: t_def)
  ultimately have "cursor_shown t" by (simp add: cursor_shown_def current_cursor_def)
  moreover have "told s d t" if q
    using queues.accepted [OF ok(2), of "cursor_notices s d" s1] q that by (simp add: queued_events_def t_def)
  moreover have "s1 = s" if "\<not> q"
    using queues.refused [OF ok(2), of "cursor_notices s d" s1] q that by simp
  moreover have "set_pointer_grab_cursor m c s = Some (if q then (Updated, t) else (UpdateQueueFull, s1))"
    by (simp add: set_pointer_grab_cursor_def g p d q split_beta Let_def t_def)
  ultimately show ?thesis using dt grab by (cases q) simp_all
qed


definition sample_active_grab :: active_grab where
  "sample_active_grab = \<lparr>agOwner = 5, agWindow = root_window_id, agConfineTo = 0, agActivatedAt = 1, agEventMask = 4,
     agPointerMode = 1, agKeyboardMode = 1, agOwnerEvents = False, agPassive = False, agPassiveDetail = 0,
     agAutomatic = False, agCursor = None, agXi2 = False, agXi2EventMask = 0\<rparr>"

definition grabbed_state :: server_state where
  "grabbed_state = (initial_state 640 480 0)
     \<lparr>ssInput := (ssInput (initial_state 640 480 0))\<lparr>inPointerGrab := Some sample_active_grab\<rparr>\<rparr>"


subsection \<open>Replacing a cursor\<close>

text \<open>Every place that holds a cursor.\<close>

definition cursor_uses :: "server_state \<Rightarrow> cursor_ref list" where
  "cursor_uses s = map (\<lambda>e. crImage (snd e)) (ssCursors s) @ map (\<lambda>e. wnCursor (snd e)) (ssWindows s) @
     map pgCursor (ssPassiveGrabs s) @
     (case inPointerGrab (ssInput s) of None \<Rightarrow> [] | Some g \<Rightarrow> [agCursor g]) @
     (case inKeyboardGrab (ssInput s) of None \<Rightarrow> [] | Some g \<Rightarrow> [agCursor g])"

lemma cursor_uses_substitute:
  "cursor_uses (substitute_cursors matches source s) = map (substitute matches source) (cursor_uses s)"
  by (simp add: cursor_uses_def substitute_cursors_def umap_map_def case_prod_beta comp_def split: option.splits)

lemma replace_matching_shown:
  assumes ok: "tree_ok s" "queues_ok s" and src: "\<not> matches None" "source \<noteq> None"
  shows "\<exists>r s'. replace_matching matches source s = Some (r, s') \<and>
    (if r = Updated then cursor_shown s' \<and> told s (ssDisplayedCursor s') s' \<and>
       cursor_uses s' = map (substitute matches source) (cursor_uses s)
     else r = UpdateQueueFull \<and> s' = s)"
proof -
  obtain c where c: "current_cursor s = Some c" using current_cursor_returns [OF ok(1)] by blast
  let ?d = "substitute matches source c"
  obtain q s1 where q: "queue_events_atomically (cursor_notices s ?d) s = (q, s1)" by fastforce
  obtain es n where s1: "s1 = s\<lparr>ssEventQueues := es, ssPendingEvents := n\<rparr>"
    using queue_events_server_frame [of "cursor_notices s ?d" s] q by auto
  define t where "t = (substitute_cursors matches source s1)\<lparr>ssDisplayedCursor := ?d\<rparr>"
  have R: "recursored (substitute matches source) s t"
    by (simp add: recursored_def t_def window_def substitute_cursors_def s1)
  have none: "substitute matches source d = None \<longleftrightarrow> d = None" for d using src by (auto simp: substitute_def)
  obtain p where p: "pointer_window s = Some p" "current_cursor_for s p (inPointerGrab (ssInput s)) = Some c"
    using c by (auto simp: current_cursor_def bind_eq_Some_conv)
  have "pointer_window t = Some p"
    by (rule pointer_window_recursored [OF R _ _ p(1)]) (simp_all add: t_def substitute_cursors_def s1)
  with current_cursor_for_recursored [OF R none p(2)] have "current_cursor t = Some ?d"
    by (simp add: current_cursor_def t_def substitute_cursors_def s1)
  moreover have dt: "ssDisplayedCursor t = ?d" by (simp add: t_def)
  ultimately have "cursor_shown t" by (simp add: cursor_shown_def)
  moreover have "told s ?d t" if q
    using queues.accepted [OF ok(2), of "cursor_notices s ?d" s1] q that
    by (simp add: queued_events_def t_def substitute_cursors_def)
  moreover have "s1 = s" if "\<not> q"
    using queues.refused [OF ok(2), of "cursor_notices s ?d" s1] q that by simp
  moreover have "cursor_uses t = map (substitute matches source) (cursor_uses s)"
    using cursor_uses_substitute [of matches source s1] by (simp add: t_def s1 cursor_uses_def)
  moreover have "replace_matching matches source s = Some (if q then (Updated, t) else (UpdateQueueFull, s1))"
    by (simp add: replace_matching_def c q split_beta Let_def t_def)
  ultimately show ?thesis using dt by (cases q) simp_all
qed

lemma replace_cursor_shown:
  assumes ok: "tree_ok s" "queues_ok s"
  shows "\<exists>r s'. replace_cursor source destination s = Some (r, s') \<and> (r \<noteq> Updated \<longrightarrow> s' = s) \<and>
    (r = Invalid \<longleftrightarrow> source = None \<or> destination = None) \<and>
    (r = Updated \<longrightarrow> cursor_shown s' \<and> told s (ssDisplayedCursor s') s' \<and>
       cursor_uses s' = map (substitute (\<lambda>c. c = destination) source) (cursor_uses s))"
proof (cases "source = None \<or> destination = None")
  case False
  then have "destination \<noteq> None" "source \<noteq> None" by auto
  then obtain r s' where "replace_matching (\<lambda>c. c = destination) source s = Some (r, s')"
    "if r = Updated then cursor_shown s' \<and> told s (ssDisplayedCursor s') s' \<and>
       cursor_uses s' = map (substitute (\<lambda>c. c = destination) source) (cursor_uses s)
     else r = UpdateQueueFull \<and> s' = s"
    using replace_matching_shown [OF ok, of "\<lambda>c. c = destination" source] by blast
  with False show ?thesis by (intro exI [of _ r] exI [of _ s']) (simp add: replace_cursor_def split: if_splits)
qed (simp add: replace_cursor_def)

lemma replace_cursor_by_name_shown:
  fixes source :: cursor_ref and name :: u32
  assumes ok: "tree_ok s" "queues_ok s"
  defines "m \<equiv> \<lambda>c. c \<noteq> None \<and> c \<noteq> source \<and> cursor_name s c = name"
  shows "\<exists>r s'. replace_cursor_by_name source name s = Some (r, s') \<and> (r \<noteq> Updated \<longrightarrow> s' = s) \<and>
    (r = Invalid \<longleftrightarrow> source = None \<or> name = 0) \<and>
    (r = Updated \<longrightarrow> cursor_shown s' \<and> told s (ssDisplayedCursor s') s' \<and>
       cursor_uses s' = map (substitute m source) (cursor_uses s))"
proof (cases "source = None \<or> name = 0")
  case False
  then have "\<not> m None" "source \<noteq> None" by (auto simp: m_def)
  then obtain r s' where "replace_matching m source s = Some (r, s')"
    "if r = Updated then cursor_shown s' \<and> told s (ssDisplayedCursor s') s' \<and>
       cursor_uses s' = map (substitute m source) (cursor_uses s)
     else r = UpdateQueueFull \<and> s' = s"
    using replace_matching_shown [OF ok, of m source] by blast
  with False show ?thesis
    by (intro exI [of _ r] exI [of _ s']) (auto simp only: replace_cursor_by_name_def m_def if_False split: if_splits)
qed (simp add: replace_cursor_by_name_def)



end
