(* ===== verification/Keyboard.thy ===== *)
theory Keyboard
  imports Window_Store
begin

text \<open>
  The keyboard state of \<^verbatim>\<open>src/server/server_state.cpp\<close>: modifiers derived from the pressed keys
  (\<open>xkb_base_modifiers\<close>, \<open>xkb_state_for\<close>, \<open>refresh_modifier_button_mask\<close>), XKB event selection and
  notification, latching and locking, controls and client flags, and key repeat control.
  \<^verbatim>\<open>XkbUpdate\<close> has the four members of \<open>table_update\<close>.
\<close>

subsection \<open>Modifiers\<close>

text \<open>The test of one key in the 32-byte map of pressed keys.\<close>

definition key_bit :: "u8 list \<Rightarrow> u8 \<Rightarrow> bool" where
  "key_bit keys k = bit (keys ! unat (drop_bit 3 k)) (unat (k AND 7))"

definition group_pressed :: "input_state \<Rightarrow> u8 list \<Rightarrow> nat \<Rightarrow> bool" where
  "group_pressed i keys g =
     list_ex (\<lambda>index. let keycode = inModifierMap i ! (g * inModifierKeysPerGroup i + index)
                      in keycode \<noteq> 0 \<and> key_bit keys keycode)
       [0..<inModifierKeysPerGroup i]"

definition xkb_base_modifiers :: "input_state \<Rightarrow> u8 list \<Rightarrow> u8" where
  "xkb_base_modifiers i keys =
     fold (\<lambda>g state. if group_pressed i keys g then state OR push_bit g 1 else state) [0..<8] 0"

definition xkb_state_for :: "input_state \<Rightarrow> u8 list \<Rightarrow> xkb_keyboard_state \<Rightarrow> xkb_state_snapshot" where
  "xkb_state_for i keys state =
     (let base = xkb_base_modifiers i keys
      in \<lparr>xsnMods = base OR xkLatchedMods state OR xkLockedMods state, xsnBaseMods = base,
          xsnLatchedMods = xkLatchedMods state, xsnLockedMods = xkLockedMods state, xsnGroup = 0,
          xsnBaseGroup = xkBaseGroup state, xsnLatchedGroup = xkLatchedGroup state,
          xsnLockedGroup = xkLockedGroup state,
          xsnPointerButtons = inModifierButtonMask i AND 0x1f00\<rparr>)"

definition xkb_state :: "server_state \<Rightarrow> xkb_state_snapshot" where
  "xkb_state s = xkb_state_for (ssInput s) (inPressedKeys (ssInput s)) (inXkb (ssInput s))"

definition xkb_indicator_state :: "server_state \<Rightarrow> u32" where
  "xkb_indicator_state s =
     (let locked = xkLockedMods (inXkb (ssInput s));
          r0 = inLedMask (ssInput s);
          r1 = (if locked AND push_bit 1 1 \<noteq> 0 then r0 OR push_bit 0 1 else r0);
          r2 = (if locked AND push_bit 4 1 \<noteq> 0 then r1 OR push_bit 1 1 else r1)
      in if locked AND push_bit 5 1 \<noteq> 0 then r2 OR push_bit 2 1 else r2)"

text \<open>The bits of the first five buttons, shifted to where the core protocol has them.\<close>

definition button_bits :: "256 word \<Rightarrow> u16" where
  "button_bits buttons =
     fold (\<lambda>button state. if bit buttons button then state OR push_bit (button + 7) 1 else state) [1..<6] 0"

definition modifier_button_state :: "input_state \<Rightarrow> u16" where
  "modifier_button_state i =
     ((ucast (xkb_base_modifiers i (inPressedKeys i)) OR ucast (xkLatchedMods (inXkb i)) OR
       ucast (xkLockedMods (inXkb i))) AND 0x00ff) OR button_bits (inPressedButtons i)"

definition refresh_modifier_button_mask :: "server_state \<Rightarrow> server_state" where
  "refresh_modifier_button_mask s =
     s\<lparr>ssInput := (ssInput s)\<lparr>inModifierButtonMask := modifier_button_state (ssInput s)\<rparr>\<rparr>"

subsection \<open>Event selection\<close>

definition xkb_selection :: "u32 \<Rightarrow> server_state \<Rightarrow> xkb_event_selection option" where
  "xkb_selection owner s = find (\<lambda>e. xeOwner e = owner) (ssXkbSelections s)"

definition select_xkb_events :: "xkb_event_selection \<Rightarrow> server_state \<Rightarrow> table_update \<times> server_state" where
  "select_xkb_events selection s =
     (let found = xkb_selection (xeOwner selection) s
      in if xeEvents selection = 0
         then (Updated, s\<lparr>ssXkbSelections := remove_first (\<lambda>e. xeOwner e = xeOwner selection) (ssXkbSelections s)\<rparr>)
         else if found \<noteq> None
         then (Updated, s\<lparr>ssXkbSelections := 
              update_first (\<lambda>e. xeOwner e = xeOwner selection) (\<lambda>_. selection) (ssXkbSelections s)\<rparr>)
         else if maximum_pending_events \<le> length (ssXkbSelections s) then (ResourceExhausted, s)
         else (Updated, s\<lparr>ssXkbSelections := ssXkbSelections s @ [selection]\<rparr>))"

definition xkb_changes :: "xkb_state_snapshot \<Rightarrow> xkb_state_snapshot \<Rightarrow> u16" where
  "xkb_changes before after =
     (let flag = (\<lambda>b n. if b then push_bit n 1 else 0)
      in flag (xsnMods before \<noteq> xsnMods after) 0 OR
         flag (xsnBaseMods before \<noteq> xsnBaseMods after) 1 OR
         flag (xsnLatchedMods before \<noteq> xsnLatchedMods after) 2 OR
         flag (xsnLockedMods before \<noteq> xsnLockedMods after) 3 OR
         flag (xsnGroup before \<noteq> xsnGroup after) 4 OR
         flag (xsnBaseGroup before \<noteq> xsnBaseGroup after) 5 OR
         flag (xsnLatchedGroup before \<noteq> xsnLatchedGroup after) 6 OR
         flag (xsnLockedGroup before \<noteq> xsnLockedGroup after) 7 OR
         flag (xsnPointerButtons before \<noteq> xsnPointerButtons after) 13)"

text \<open>\<open>append_xkb_state_events\<close>; without allocation failure it always succeeds.\<close>

definition append_xkb_state_events ::
  "server_state \<Rightarrow> xkb_state_snapshot \<Rightarrow> xkb_state_snapshot \<Rightarrow> u8 \<Rightarrow> u8 \<Rightarrow> u8 \<Rightarrow> u8 \<Rightarrow>
     planned_event list \<Rightarrow> planned_event list" where
  "append_xkb_state_events s before after keycode event_type request_major request_minor events =
     (let changed = xkb_changes before after
      in if changed = 0 then events
         else events @ map (\<lambda>e. (xeOwner e, EvXkb (XkbStateNotify (ssCurrentTime s) 3 (xsnMods after)
                  (xsnBaseMods after) (xsnLatchedMods after) (xsnLockedMods after) (xsnGroup after)
                  (xsnBaseGroup after) (xsnLatchedGroup after) (xsnLockedGroup after)
                  (xsnPointerButtons after) changed keycode event_type request_major request_minor)))
                (filter (\<lambda>e. xeEvents e AND push_bit 2 1 \<noteq> 0 \<and> xeState e AND changed \<noteq> 0)
                   (ssXkbSelections s)))"

subsection \<open>Latches, locks, controls\<close>

definition latch_lock ::
  "u8 \<Rightarrow> u8 \<Rightarrow> bool \<Rightarrow> u8 \<Rightarrow> u8 \<Rightarrow> bool \<Rightarrow> int \<Rightarrow> xkb_keyboard_state \<Rightarrow> xkb_keyboard_state" where
  "latch_lock affect_locks locks lock_group group_lock affect_latches latch_group group_latch k =
     k\<lparr>xkLockedMods := (xkLockedMods k AND NOT affect_locks) OR (locks AND affect_locks),
       xkLatchedMods := xkLatchedMods k AND NOT affect_latches,
       xkLockedGroup := (if lock_group then group_lock AND 3 else xkLockedGroup k),
       xkLatchedGroup := (if latch_group then group_latch else xkLatchedGroup k)\<rparr>"

definition latch_lock_xkb ::
  "u8 \<Rightarrow> u8 \<Rightarrow> bool \<Rightarrow> u8 \<Rightarrow> u8 \<Rightarrow> bool \<Rightarrow> int \<Rightarrow> u8 \<Rightarrow> u8 \<Rightarrow> server_state \<Rightarrow> table_update \<times> server_state" where
  "latch_lock_xkb affect_locks locks lock_group group_lock affect_latches latch_group group_latch
     request_major request_minor s =
     (let candidate = latch_lock affect_locks locks lock_group group_lock affect_latches latch_group
            group_latch (inXkb (ssInput s));
          before = xkb_state s;
          after = xkb_state_for (ssInput s) (inPressedKeys (ssInput s)) candidate;
          events = append_xkb_state_events s before after 0 0 request_major request_minor [];
          (queued, s1) = queue_events_atomically events s
      in if \<not> queued then (UpdateQueueFull, s1)
         else (Updated, refresh_modifier_button_mask
                 (s1\<lparr>ssInput := (ssInput s1)\<lparr>inXkb := candidate\<rparr>\<rparr>)))"

definition update_repeat_controls :: "server_state \<Rightarrow> server_state" where
  "update_repeat_controls s =
     (case ssKeyRepeat s of
        None \<Rightarrow> s
      | Some r \<Rightarrow>
          let i = ssInput s;
              pressed = key_bit (inPressedKeys i) (krKey r);
              enabled = (inGlobalAutoRepeat i \<and> key_bit (inAutoRepeats i) (krKey r))
          in if \<not> pressed \<or> \<not> enabled then s\<lparr>ssKeyRepeat := None\<rparr> else s)"

definition set_xkb_controls ::
  "xkb_controls \<Rightarrow> u32 \<Rightarrow> u32 \<Rightarrow> u8 \<Rightarrow> u8 \<Rightarrow> server_state \<Rightarrow> table_update \<times> server_state" where
  "set_xkb_controls controls changed enabled_changes request_major request_minor s =
     (let events = map (\<lambda>e. (xeOwner e, EvXkb (XkbControlsNotify (ssCurrentTime s) 3 1 changed
                (kcEnabled controls) enabled_changes 0 0 request_major request_minor)))
            (filter (\<lambda>e. xeEvents e AND push_bit 3 1 \<noteq> 0 \<and> xeControls e AND changed \<noteq> 0)
               (ssXkbSelections s));
          (queued, s1) = queue_events_atomically events s;
          i = ssInput s1
      in if \<not> queued then (UpdateQueueFull, s1)
         else (Updated, update_repeat_controls
                 (s1\<lparr>ssInput := i\<lparr>inXkb := (inXkb i)\<lparr>xkControls := controls\<rparr>,
                     inAutoRepeats := kcPerKeyRepeat controls,
                     inGlobalAutoRepeat := (kcEnabled controls AND 1 \<noteq> 0)\<rparr>\<rparr>)))"

definition xkb_client_flags :: "u32 \<Rightarrow> server_state \<Rightarrow> u32" where
  "xkb_client_flags owner s = (case umap_find owner (ssXkbClientFlags s) of None \<Rightarrow> 0 | Some f \<Rightarrow> f)"

definition set_xkb_client_flags :: "u32 \<Rightarrow> u32 \<Rightarrow> server_state \<Rightarrow> table_update \<times> server_state" where
  "set_xkb_client_flags owner v s =
     (Updated, s\<lparr>ssXkbClientFlags := (if v = 0 then umap_erase owner (ssXkbClientFlags s)
                                      else umap_put owner v (ssXkbClientFlags s))\<rparr>)"

subsection \<open>What the modifier state is\<close>

lemma bit_fold_flags:
  "bit (fold (\<lambda>g (state :: 'a::len word). if P g then state OR push_bit (f g) 1 else state) gs init) n \<longleftrightarrow>
     bit init n \<or> (\<exists>g \<in> set gs. P g \<and> f g = n \<and> n < LENGTH('a))"
  by (induction gs arbitrary: init) (auto simp: bit_simps)

lemma bit_xkb_base_modifiers: "bit (xkb_base_modifiers i keys) n \<longleftrightarrow> n < 8 \<and> group_pressed i keys n"
  unfolding xkb_base_modifiers_def bit_fold_flags [where f = "\<lambda>g. g", simplified] by auto

lemma bit_button_bits: "bit (button_bits buttons) n \<longleftrightarrow> 8 \<le> n \<and> n < 13 \<and> bit buttons (n - 7)"
proof -
  have "(\<exists>g \<in> set [1..<6]. bit buttons g \<and> g + 7 = n \<and> n < 16) \<longleftrightarrow> 8 \<le> n \<and> n < 13 \<and> bit buttons (n - 7)"
    by (auto intro!: bexI [of _ "n - 7"])
  then show ?thesis
    unfolding button_bits_def bit_fold_flags [where f = "\<lambda>g. g + 7", simplified] by simp
qed

lemma bit_low_mask: "bit (255 :: int) n \<longleftrightarrow> n < 8"
proof -
  have "(255 :: int) = mask 8" by (simp add: mask_eq_exp_minus_1)
  then show ?thesis by (simp only: bit_mask_iff) simp
qed

lemma bit_modifier_button_state:
  "bit (modifier_button_state i) n \<longleftrightarrow>
     (if n < 8 then group_pressed i (inPressedKeys i) n \<or> bit (xkLatchedMods (inXkb i)) n \<or>
                    bit (xkLockedMods (inXkb i)) n
      else n < 13 \<and> bit (inPressedButtons i) (n - 7))"
  by (auto simp: modifier_button_state_def bit_simps bit_xkb_base_modifiers bit_button_bits bit_low_mask)

subsection \<open>Latching and locking\<close>

lemma queued_events_input [simp]:
  "queued_events (refresh_modifier_button_mask s) c = queued_events s c"
  "queued_events (s\<lparr>ssInput := i\<rparr>) c = queued_events s c"
  by (simp_all add: queued_events_def refresh_modifier_button_mask_def)

lemma refresh_input [simp]:
  "ssInput (refresh_modifier_button_mask s) =
     (ssInput s)\<lparr>inModifierButtonMask := modifier_button_state (ssInput s)\<rparr>"
  "modifier_button_state (i\<lparr>inModifierButtonMask := m\<rparr>) = modifier_button_state i"
  by (simp_all add: refresh_modifier_button_mask_def modifier_button_state_def xkb_base_modifiers_def
      group_pressed_def)

text \<open>Latching and locking changes exactly the modifiers it names.  When the notifications fit,
  every affected lock takes the given value and every other lock keeps its own, the affected latches
  are cleared and no latch is set, the modifier mask that events carry is again the one the pressed
  keys, latches, locks and buttons determine, and the XKB listeners are told of the change; when
  they do not fit, nothing changes.\<close>

theorem latch_lock_xkb_effect:
  assumes ok: "queues_ok s"
    and run: "latch_lock_xkb affect_locks locks lock_group group_lock affect_latches latch_group
      group_latch major minor s = (r, s')"
  defines "i \<equiv> ssInput s" and "j \<equiv> ssInput s'"
  shows "(r = Updated \<or> r = UpdateQueueFull \<and> s' = s) \<and>
    (r = Updated \<longrightarrow>
      (\<forall>n. bit (xkLockedMods (inXkb j)) n =
         (if bit affect_locks n then bit locks n else bit (xkLockedMods (inXkb i)) n)) \<and>
      (\<forall>n. bit (xkLatchedMods (inXkb j)) n \<longleftrightarrow> bit (xkLatchedMods (inXkb i)) n \<and> \<not> bit affect_latches n) \<and>
      (\<forall>n. bit (inModifierButtonMask j) n \<longleftrightarrow>
         (if n < 8 then group_pressed i (inPressedKeys i) n \<or> bit (xkLatchedMods (inXkb j)) n \<or>
                        bit (xkLockedMods (inXkb j)) n
          else n < 13 \<and> bit (inPressedButtons i) (n - 7))) \<and>
      inPressedKeys j = inPressedKeys i \<and> inPressedButtons j = inPressedButtons i \<and>
      xkControls (inXkb j) = xkControls (inXkb i) \<and>
      (\<forall>c. queued_events s' c = queued_events s c @ stamped_for s c
         (append_xkb_state_events s (xkb_state s)
            (xkb_state_for i (inPressedKeys i) (inXkb j)) 0 0 major minor [])))"
proof -
  let ?k = "latch_lock affect_locks locks lock_group group_lock affect_latches latch_group group_latch (inXkb i)"
  let ?events = "append_xkb_state_events s (xkb_state s) (xkb_state_for i (inPressedKeys i) ?k) 0 0 major minor []"
  obtain q s1 where q: "queue_events_atomically ?events s = (q, s1)" by fastforce
  have res: "(r, s') = (if \<not> q then (UpdateQueueFull, s1)
      else (Updated, refresh_modifier_button_mask (s1\<lparr>ssInput := (ssInput s1)\<lparr>inXkb := ?k\<rparr>\<rparr>)))"
    using run [symmetric] q by (simp only: latch_lock_xkb_def Let_def i_def prod.case)
  show ?thesis
  proof (cases q)
    case False
    with res q queues.refused [OF ok, of ?events s1] show ?thesis by simp
  next
    case True
    have i1: "ssInput s1 = i" using queue_run_fields(1) [OF q] by (simp add: i_def)
    have told: "queued_events s1 c = queued_events s c @ stamped_for s c ?events" for c
      using queues.accepted [OF ok, of ?events s1] q True by simp
    have j: "j = i\<lparr>inXkb := ?k, inModifierButtonMask := modifier_button_state (i\<lparr>inXkb := ?k\<rparr>)\<rparr>"
      using res True by (simp add: j_def i1)
    have g: "group_pressed (i\<lparr>inXkb := k\<rparr>) = group_pressed i" for k
      by (intro ext) (simp add: group_pressed_def)
    have s': "queued_events s' c = queued_events s1 c" for c using res True by simp
    show ?thesis
      using res True
      by (simp add: told s' j bit_modifier_button_state g latch_lock_def)
        (auto simp: bit_simps dest: bit_imp_le_length)
  qed
qed

theorem latch_lock_xkb_effect_witness:
  "fst (latch_lock_xkb 2 2 False 0 0 False 0 0 0 (initial_state 640 480 0)) = Updated \<and>
   bit (xkLockedMods (inXkb (ssInput (snd (latch_lock_xkb 2 2 False 0 0 False 0 0 0
     (initial_state 640 480 0)))))) 1"
proof -
  let ?run = "latch_lock_xkb 2 2 False 0 0 False 0 0 0 (initial_state 640 480 0)"
  have none: "append_xkb_state_events (initial_state 640 480 0) b a 0 0 0 0 [] = []" for b a
    by (simp add: append_xkb_state_events_def Let_def initial_state_def)
  have "fst ?run = Updated"
    by (simp add: latch_lock_xkb_def Let_def none queue_events_atomically_Nil [OF initial_queues])
  moreover have "?run = (fst ?run, snd ?run)" by simp
  ultimately show ?thesis
    using latch_lock_xkb_effect [OF initial_queues, of 2 2 False 0 0 False 0 0 0 640 480 0]
    by (auto simp: bit_simps)
qed

end
