(* ===== verification/Xi2.thy ===== *)
theory Xi2
  imports Window_Properties Keyboard Window_Changes
begin

text \<open>
  XInput 2 state (\<^verbatim>\<open>src/server/server_state.cpp\<close>): event selection (\<open>select_xi2_events\<close>,
  \<open>xi2_mask_selected\<close>), device properties with the shared byte budget (\<open>set_xi2_property\<close>,
  \<open>delete_xi2_property\<close>) and the planning of device and raw events (\<open>append_xi2_input_events\<close>).
  \<^verbatim>\<open>Xi2Update\<close> has three of the members of \<open>table_update\<close>.
\<close>

definition maximum_xi2_selections :: nat where "maximum_xi2_selections = 4096"
definition maximum_xi2_properties_per_device :: nat where "maximum_xi2_properties_per_device = 256"
definition xi2_pointer_device_id :: u16 where "xi2_pointer_device_id = 2"
definition xi2_keyboard_device_id :: u16 where "xi2_keyboard_device_id = 3"

subsection \<open>Selections\<close>

definition selection_key :: "xi2_event_selection \<Rightarrow> u32 \<times> u32" where
  "selection_key e = (xlOwner e, xlWindow e)"

definition xi2_selection :: "u32 \<Rightarrow> u32 \<Rightarrow> server_state \<Rightarrow> xi2_event_selection option" where
  "xi2_selection owner window_id s =
     find (\<lambda>e. selection_key e = (owner, window_id)) (ssXi2Selections s)"

definition select_xi2_events :: "xi2_event_selection \<Rightarrow> server_state \<Rightarrow> table_update \<times> server_state" where
  "select_xi2_events given s =
     (let exists = (find (\<lambda>e. selection_key e = selection_key given) (ssXi2Selections s) \<noteq> None);
          selection = given\<lparr>xlMasks := filter (\<lambda>m. list_ex (\<lambda>w. w \<noteq> 0) (xmWords m)) (xlMasks given)\<rparr>
      in if xlMasks selection = []
         then (Updated, s\<lparr>ssXi2Selections := 
              remove_first (\<lambda>e. selection_key e = selection_key given) (ssXi2Selections s)\<rparr>)
         else if exists
         then (Updated, s\<lparr>ssXi2Selections := 
              update_first (\<lambda>e. selection_key e = selection_key given) (\<lambda>_. selection) (ssXi2Selections s)\<rparr>)
         else if maximum_xi2_selections \<le> length (ssXi2Selections s) then (ResourceExhausted, s)
         else (Updated, s\<lparr>ssXi2Selections := ssXi2Selections s @ [selection]\<rparr>))"

definition xi2_mask_selected :: "xi2_event_selection \<Rightarrow> u16 \<Rightarrow> u16 \<Rightarrow> bool" where
  "xi2_mask_selected selection device event_type =
     list_ex (\<lambda>m. (xmDevice m = 0 \<or> xmDevice m = 1 \<or> xmDevice m = device) \<and>
               unat event_type div 32 < length (xmWords m) \<and>
               xmWords m ! (unat event_type div 32) AND push_bit (unat event_type mod 32) 1 \<noteq> 0)
       (xlMasks selection)"

subsection \<open>Device properties\<close>

definition device_index :: "u16 \<Rightarrow> nat" where
  "device_index device = unat (device - xi2_pointer_device_id)"

definition xi2_properties :: "u16 \<Rightarrow> server_state \<Rightarrow> (u32, property_value) umap" where
  "xi2_properties device s =
     (if device < xi2_pointer_device_id \<or> xi2_keyboard_device_id < device then []
      else ssXi2Properties s ! device_index device)"

text \<open>One event for each client that listens for property changes of the device, however many of its
  selections ask for it.\<close>

fun property_listeners :: "u16 \<Rightarrow> xi2_event_selection list \<Rightarrow> u32 list \<Rightarrow> u32 list" where
  "property_listeners device [] found = found"
| "property_listeners device (e # es) found =
     property_listeners device es
       (if xi2_mask_selected e device 12 \<and> xlOwner e \<notin> set found then found @ [xlOwner e] else found)"

definition xi2_property_events :: "server_state \<Rightarrow> u16 \<Rightarrow> u32 \<Rightarrow> u8 \<Rightarrow> planned_event list" where
  "xi2_property_events s device property what =
     map (\<lambda>c. (c, EvXi2 (Xi2Property device (ssCurrentTime s) property what)))
       (property_listeners device (ssXi2Selections s) [])"

definition set_xi2_property :: "u16 \<Rightarrow> u32 \<Rightarrow> property_value \<Rightarrow> server_state \<Rightarrow> table_update \<times> server_state" where
  "set_xi2_property device property v s =
     (let properties = ssXi2Properties s ! device_index device;
          found = umap_find property properties;
          old_size = (case found of None \<Rightarrow> 0 | Some p \<Rightarrow> length (pvData p));
          new_size = length (pvData v)
      in if found = None \<and> maximum_xi2_properties_per_device \<le> length properties
         then (ResourceExhausted, s)
         else if maximum_property_bytes < new_size \<or>
                 maximum_server_property_bytes - new_size < size_sub (ssPropertyBytes s) old_size
         then (ResourceExhausted, s)
         else
           let events = xi2_property_events s device property (if found = None then 1 else 2);
               (queued, s1) = queue_events_atomically events s
           in if \<not> queued then (UpdateQueueFull, s1)
              else (Updated,
                    s1\<lparr>ssXi2Properties := (ssXi2Properties s1)[device_index device := umap_put property v properties],
                       ssPropertyBytes := size_sub (ssPropertyBytes s1) old_size + new_size\<rparr>))"

definition delete_xi2_property :: "u16 \<Rightarrow> u32 \<Rightarrow> server_state \<Rightarrow> table_update \<times> server_state" where
  "delete_xi2_property device property s =
     (let properties = ssXi2Properties s ! device_index device
      in case umap_find property properties of
           None \<Rightarrow> (Updated, s)
         | Some p \<Rightarrow>
             let (queued, s1) = queue_events_atomically (xi2_property_events s device property 0) s
             in if \<not> queued then (UpdateQueueFull, s1)
                else (Updated,
                      s1\<lparr>ssPropertyBytes := size_sub (ssPropertyBytes s1) (length (pvData p)),
                         ssXi2Properties := (ssXi2Properties s1)[device_index device := umap_erase property properties]\<rparr>))"

subsection \<open>Device and raw events\<close>

text \<open>One raw event for each client that selects it on the root window.\<close>

fun raw_listeners :: "u16 \<Rightarrow> u16 \<Rightarrow> xi2_event_selection list \<Rightarrow> u32 list \<Rightarrow> u32 list" where
  "raw_listeners device raw_type [] found = found"
| "raw_listeners device raw_type (e # es) found =
     raw_listeners device raw_type es
       (if xlWindow e = root_window_id \<and> xi2_mask_selected e device raw_type \<and> xlOwner e \<notin> set found
        then found @ [xlOwner e] else found)"

text \<open>The child of \<open>destination\<close> that leads to \<open>child\<close>; the last window reached when there is none.\<close>

partial_function (option) child_below :: "server_state \<Rightarrow> u32 \<Rightarrow> u32 \<Rightarrow> u32 option" where
  "child_below s destination child =
     (if child = 0 \<or> child = destination then Some child
      else (case window s child of
              None \<Rightarrow> Some child
            | Some w \<Rightarrow> if wnParent w = destination then Some child
                        else child_below s destination (wnParent w)))"

definition event_child :: "server_state \<Rightarrow> u32 \<Rightarrow> u32 \<Rightarrow> u32 option" where
  "event_child s destination source =
     map_option (\<lambda>c. if c = destination then 0 else c) (child_below s destination source)"

text \<open>The buttons of a state word, as XI2 numbers them.\<close>

definition xi2_buttons :: "u16 \<Rightarrow> u32" where
  "xi2_buttons state =
     fold (\<lambda>b m. if state AND push_bit (b + 7) 1 \<noteq> 0 then m OR push_bit b 1 else m) [1..<6] 0"

definition selected_on_path ::
  "server_state \<Rightarrow> u16 \<Rightarrow> u16 \<Rightarrow> u32 \<Rightarrow> xi2_event_selection \<Rightarrow> bool option" where
  "selected_on_path s device event_type source e =
     (if \<not> xi2_mask_selected e device event_type then Some False
      else if xlWindow e = source then Some True
      else is_descendant s source (xlWindow e))"

fun any_option :: "('a \<Rightarrow> bool option) \<Rightarrow> 'a list \<Rightarrow> bool option" where
  "any_option P [] = Some False"
| "any_option P (x # xs) = Option.bind (P x) (\<lambda>b. if b then Some True else any_option P xs)"

definition closer_selection ::
  "server_state \<Rightarrow> u16 \<Rightarrow> u16 \<Rightarrow> u32 \<Rightarrow> xi2_event_selection \<Rightarrow> bool option" where
  "closer_selection s device event_type source e =
     any_option (\<lambda>c. if xlOwner c = xlOwner e \<and> xlWindow c \<noteq> xlWindow e
                     then Option.bind (selected_on_path s device event_type source c) (\<lambda>p.
                            if \<not> p then Some False else is_descendant s (xlWindow c) (xlWindow e))
                     else Some False)
       (ssXi2Selections s)"

definition device_event ::
  "server_state \<Rightarrow> u8 \<Rightarrow> u8 \<Rightarrow> u32 \<Rightarrow> int \<Rightarrow> int \<Rightarrow> u16 \<Rightarrow> xkb_state_snapshot \<Rightarrow> u32 \<Rightarrow> u16 \<Rightarrow> u32 \<Rightarrow>
     xi2_event option" where
  "device_event s event_type detail source root_x root_y state xkb flags device destination =
     Option.bind (absolute_position s destination) (\<lambda>(ox, oy).
       Option.bind (event_child s destination source) (\<lambda>child.
         Some (Xi2Device \<lparr>xdType = ucast event_type, xdDevice = device, xdSource = device,
           xdTime = ssCurrentTime s, xdDetail = ucast detail, xdRoot = root_window_id,
           xdEvent = destination, xdChild = child, xdRootX = root_x, xdRootY = root_y,
           xdEventX = root_x - ox, xdEventY = root_y - oy, xdButtons = xi2_buttons state,
           xdBaseMods = xsnBaseMods xkb, xdLatchedMods = xsnLatchedMods xkb,
           xdLockedMods = xsnLockedMods xkb, xdEffectiveMods = xsnMods xkb,
           xdBaseGroup = word_of_int (xsnBaseGroup xkb), xdLatchedGroup = word_of_int (xsnLatchedGroup xkb),
           xdLockedGroup = xsnLockedGroup xkb, xdEffectiveGroup = xsnGroup xkb, xdFlags = flags\<rparr>)))"

text \<open>The selections whose clients get the event: those on the path to the source with none closer.\<close>

fun nearest_selections ::
  "server_state \<Rightarrow> u16 \<Rightarrow> u16 \<Rightarrow> u32 \<Rightarrow> xi2_event_selection list \<Rightarrow> xi2_event_selection list option" where
  "nearest_selections s device event_type source [] = Some []"
| "nearest_selections s device event_type source (e # es) =
     Option.bind (selected_on_path s device event_type source e) (\<lambda>p.
       Option.bind (if p then closer_selection s device event_type source e else Some True) (\<lambda>c.
         map_option (\<lambda>rest. if p \<and> \<not> c then e # rest else rest)
           (nearest_selections s device event_type source es)))"

definition xi2_destinations ::
  "server_state \<Rightarrow> u16 \<Rightarrow> u16 \<Rightarrow> u32 \<Rightarrow> active_grab option \<Rightarrow> (u32 \<times> u32) list option" where
  "xi2_destinations s device event_type source grab =
     (case grab of
        None \<Rightarrow> map_option (map (\<lambda>e. (xlOwner e, xlWindow e)))
                  (nearest_selections s device event_type source (ssXi2Selections s))
      | Some g \<Rightarrow>
          Option.bind (if agOwnerEvents g
                       then nearest_selections s device event_type source
                              (filter (\<lambda>e. xlOwner e = agOwner g) (ssXi2Selections s))
                       else Some []) (\<lambda>normal.
            Some (map (\<lambda>e. (xlOwner e, xlWindow e)) normal @
              (if agXi2 g \<and> normal = [] \<and> agXi2EventMask g AND push_bit (unat event_type) 1 \<noteq> 0
               then [(agOwner g, agWindow g)] else []))))"

fun device_events ::
  "(u32 \<Rightarrow> xi2_event option) \<Rightarrow> (u32 \<times> u32) list \<Rightarrow> planned_event list option" where
  "device_events event [] = Some []"
| "device_events event ((owner, destination) # ds) =
     Option.bind (event destination) (\<lambda>e. map_option ((#) (owner, EvXi2 e)) (device_events event ds))"

definition append_xi2_input_events ::
  "server_state \<Rightarrow> u8 \<Rightarrow> u8 \<Rightarrow> u8 \<Rightarrow> u32 \<Rightarrow> int \<Rightarrow> int \<Rightarrow> u16 \<Rightarrow> xkb_state_snapshot \<Rightarrow> u32 \<Rightarrow>
     active_grab option \<Rightarrow> planned_event list \<Rightarrow> planned_event list option" where
  "append_xi2_input_events s event_type detail raw_detail source root_x root_y state xkb flags grab events =
     (let device = (if event_type = 2 \<or> event_type = 3 then xi2_keyboard_device_id
                    else xi2_pointer_device_id);
          raw_type = ucast event_type + 11;
          raw = map (\<lambda>c. (c, EvXi2 (Xi2Raw raw_type device device (ssCurrentTime s) (ucast raw_detail)
                   root_x root_y flags)))
                  (raw_listeners device raw_type (ssXi2Selections s) [])
      in if source = 0 then Some (events @ raw)
         else Option.bind (xi2_destinations s device (ucast event_type) source grab) (\<lambda>ds.
                map_option (\<lambda>es. events @ raw @ es)
                  (device_events (device_event s event_type detail source root_x root_y state xkb flags device) ds)))"

subsection \<open>Selections stay canonical\<close>

text \<open>One selection for each client and window, none of them empty, within the bound.\<close>

definition xi2_ok :: "server_state \<Rightarrow> bool" where
  "xi2_ok s \<longleftrightarrow> distinct (map selection_key (ssXi2Selections s)) \<and>
     (\<forall>e \<in> set (ssXi2Selections s). xlMasks e \<noteq> [] \<and> (\<forall>m \<in> set (xlMasks e). \<exists>w \<in> set (xmWords m). w \<noteq> 0)) \<and>
     length (ssXi2Selections s) \<le> maximum_xi2_selections"

lemma find_added:
  "find P (xs @ [x]) = (case find P xs of None \<Rightarrow> if P x then Some x else None | Some y \<Rightarrow> Some y)"
  by (induction xs) auto

text \<open>Selecting XI2 events replaces the client's selection on the window and nothing else.  The
  selections stay one for each client and window, without masks that select nothing, and within
  their bound.  Afterwards the client's selection on that window is the non-empty part of the given
  one, absent when nothing is left; every other selection is what it was.  Only a new selection on a
  full table is refused, and then nothing changes.\<close>

theorem select_xi2_events_exact:
  assumes ok: "xi2_ok s" and run: "select_xi2_events e s = (r, s')"
  defines "kept \<equiv> filter (\<lambda>m. \<exists>w \<in> set (xmWords m). w \<noteq> 0) (xlMasks e)"
  shows "xi2_ok s' \<and>
    (r = ResourceExhausted \<longleftrightarrow> kept \<noteq> [] \<and> xi2_selection (xlOwner e) (xlWindow e) s = None \<and>
       length (ssXi2Selections s) = maximum_xi2_selections) \<and>
    (r = ResourceExhausted \<longrightarrow> s' = s) \<and> (r = Updated \<or> r = ResourceExhausted) \<and>
    (r = Updated \<longrightarrow>
       xi2_selection (xlOwner e) (xlWindow e) s' = (if kept = [] then None else Some (e\<lparr>xlMasks := kept\<rparr>)) \<and>
       (\<forall>c w. (c, w) \<noteq> (xlOwner e, xlWindow e) \<longrightarrow> xi2_selection c w s' = xi2_selection c w s) \<and>
       s'\<lparr>ssXi2Selections := ssXi2Selections s\<rparr> = s)"
proof -
  define new where "new = e\<lparr>xlMasks := kept\<rparr>"
  define match where "match = (\<lambda>x. selection_key x = selection_key e)"
  define xs where "xs = ssXi2Selections s"
  have keyn: "selection_key new = selection_key e" by (simp add: new_def selection_key_def)
  have ke: "selection_key e = (xlOwner e, xlWindow e)" by (simp add: selection_key_def)
  have kept: "filter (\<lambda>m. list_ex (\<lambda>w. w \<noteq> 0) (xmWords m)) (xlMasks e) = kept"
    by (simp add: kept_def list_ex_iff)
  have step: "(r, s') = (if kept = [] then (Updated, s\<lparr>ssXi2Selections := remove_first match xs\<rparr>)
      else if find match xs \<noteq> None then (Updated, s\<lparr>ssXi2Selections := update_first match (\<lambda>_. new) xs\<rparr>)
      else if maximum_xi2_selections \<le> length xs then (ResourceExhausted, s)
      else (Updated, s\<lparr>ssXi2Selections := xs @ [new]\<rparr>))"
    using run [symmetric] by (simp only: select_xi2_events_def Let_def kept xi2_event_selection.select_convs
        xi2_event_selection.update_convs new_def match_def xs_def)
      (simp add: selection_key_def)
  have old: "distinct (map selection_key xs)" "length xs \<le> maximum_xi2_selections"
    "\<And>x. x \<in> set xs \<Longrightarrow> xlMasks x \<noteq> [] \<and> (\<forall>m \<in> set (xlMasks x). \<exists>w \<in> set (xmWords m). w \<noteq> 0)"
    using ok by (simp_all add: xi2_ok_def xs_def)
  have good: "kept \<noteq> [] \<Longrightarrow> xlMasks new \<noteq> [] \<and> (\<forall>m \<in> set (xlMasks new). \<exists>w \<in> set (xmWords m). w \<noteq> 0)"
    by (auto simp: new_def kept_def)
  have sel: "xi2_selection c w s = find (\<lambda>x. selection_key x = (c, w)) xs" for c w
    by (simp add: xi2_selection_def xs_def)
  have m: "find match xs = xi2_selection (xlOwner e) (xlWindow e) s" by (simp add: sel match_def ke)
  consider (gone) "kept = []" | (replaced) "kept \<noteq> []" "find match xs \<noteq> None"
    | (full) "kept \<noteq> []" "find match xs = None" "maximum_xi2_selections \<le> length xs"
    | (added) "kept \<noteq> []" "find match xs = None" "length xs < maximum_xi2_selections" by linarith
  then show ?thesis
  proof cases
    case gone
    then have r: "r = Updated" "s' = s\<lparr>ssXi2Selections := remove_first match xs\<rparr>" using step by simp_all
    have "xi2_ok s'"
      using old set_remove_first [of match xs] length_remove_first [of match xs] distinct_remove_first [OF old(1)]
      by (auto simp: xi2_ok_def r)
    moreover have "xi2_selection c w s' = (if (c, w) = selection_key e then None else xi2_selection c w s)" for c w
      by (simp add: xi2_selection_def r match_def find_remove_first [OF old(1)] sel [unfolded xi2_selection_def])
    ultimately show ?thesis using gone r by (auto simp: ke)
  next
    case replaced
    then have r: "r = Updated" "s' = s\<lparr>ssXi2Selections := update_first match (\<lambda>_. new) xs\<rparr>" using step by simp_all
    have "map selection_key (update_first match (\<lambda>_. new) xs) = map selection_key xs"
      by (rule map_key_update_first) (simp add: match_def keyn)
    then have "xi2_ok s'"
      using old good [OF replaced(1)] by (auto simp: xi2_ok_def r dest!: set_update_first)
    moreover have "xi2_selection c w s' =
        (if (c, w) = selection_key e then map_option (\<lambda>_. new) (find match xs) else xi2_selection c w s)" for c w
      by (simp add: xi2_selection_def r match_def find_update_first keyn sel [unfolded xi2_selection_def])
    ultimately show ?thesis using replaced r m by (auto simp: ke new_def)
  next
    case full
    then show ?thesis using step old ok m by (simp add: xs_def)
  next
    case added
    then have r: "r = Updated" "s' = s\<lparr>ssXi2Selections := xs @ [new]\<rparr>" using step by simp_all
    have fresh: "selection_key e \<notin> selection_key ` set xs"
      using added(2) by (auto simp: find_None_iff match_def image_iff)
    have "xi2_ok s'" using old good [OF added(1)] added(3) keyn fresh by (auto simp: xi2_ok_def r)
    moreover have "xi2_selection c w s' = (if (c, w) = selection_key e then Some new else xi2_selection c w s)" for c w
      using added(2) keyn
      by (auto simp: xi2_selection_def r match_def find_added sel [unfolded xi2_selection_def] split: option.splits)
    ultimately show ?thesis using added r m by (auto simp: ke new_def xs_def)
  qed
qed

lemma initial_xi2_ok: "xi2_ok (initial_state w h n)"
  by (simp add: xi2_ok_def initial_state_def)

theorem select_xi2_events_exact_witness:
  "fst (select_xi2_events \<lparr>xlOwner = 5, xlWindow = 9, xlMasks = [\<lparr>xmDevice = 2, xmWords = [4]\<rparr>]\<rparr>
      (initial_state 640 480 0)) = Updated"
proof -
  let ?e = "\<lparr>xlOwner = 5, xlWindow = 9, xlMasks = [\<lparr>xmDevice = 2, xmWords = [4]\<rparr>]\<rparr>"
  obtain r s' where run: "select_xi2_events ?e (initial_state 640 480 0) = (r, s')" by fastforce
  have "xi2_selection 5 9 (initial_state 640 480 0) = None" "ssXi2Selections (initial_state 640 480 0) = []"
    by (simp_all add: xi2_selection_def initial_state_def)
  with select_xi2_events_exact [OF initial_xi2_ok run] run show ?thesis
    by (auto simp: maximum_xi2_selections_def)
qed

subsection \<open>Device properties share the byte budget\<close>

definition devices_ok :: "server_state \<Rightarrow> bool" where
  "devices_ok s \<longleftrightarrow> length (ssXi2Properties s) = 2 \<and> (\<forall>m \<in> set (ssXi2Properties s). umap_ok m)"

lemma sum_list_update_nat:
  "i < length xs \<Longrightarrow> sum_list (map f (xs[i := x])) + f (xs ! i) = sum_list (map f xs) + (f x :: nat)"
  by (induction xs arbitrary: i) (auto split: nat.splits)

lemma device_bytes_update:
  assumes "i < length (ssXi2Properties s)"
  shows "device_property_bytes (s\<lparr>ssXi2Properties := (ssXi2Properties s)[i := m]\<rparr>) +
    umap_sum (\<lambda>v. length (pvData v)) (ssXi2Properties s ! i) =
    device_property_bytes s + umap_sum (\<lambda>v. length (pvData v)) m"
  using sum_list_update_nat [OF assms] by (simp add: device_property_bytes_def)

lemma device_index_bound: "xi2_pointer_device_id \<le> d \<Longrightarrow> d \<le> xi2_keyboard_device_id \<Longrightarrow> device_index d < 2"
  by (simp add: device_index_def xi2_pointer_device_id_def xi2_keyboard_device_id_def word_le_nat_alt unat_sub)

lemma properties_ok_devices:
  assumes ok: "properties_ok s" "devices_ok s" and i: "i < 2"
    and n: "n + umap_sum (\<lambda>v. length (pvData v)) (ssXi2Properties s ! i) =
      ssPropertyBytes s + umap_sum (\<lambda>v. length (pvData v)) m"
    and le: "n \<le> maximum_server_property_bytes" and m: "umap_ok m"
  shows "properties_ok (s\<lparr>ssXi2Properties := (ssXi2Properties s)[i := m], ssPropertyBytes := n\<rparr>)"
    and "devices_ok (s\<lparr>ssXi2Properties := (ssXi2Properties s)[i := m], ssPropertyBytes := n\<rparr>)"
proof -
  let ?t = "s\<lparr>ssXi2Properties := (ssXi2Properties s)[i := m], ssPropertyBytes := n\<rparr>"
  have len: "i < length (ssXi2Properties s)" using ok(2) i by (simp add: devices_ok_def)
  let ?u = "s\<lparr>ssXi2Properties := (ssXi2Properties s)[i := m]\<rparr>"
  have w: "window ?u k = window s k" for k by (simp add: window_def)
  have keyed: "windows_keyed ?u = windows_keyed s"
    unfolding windows_keyed_def by (simp add: window_def)
  have "device_property_bytes ?t = device_property_bytes (s\<lparr>ssXi2Properties := (ssXi2Properties s)[i := m]\<rparr>)"
    by (simp add: device_property_bytes_def)
  then have "n = umap_sum window_property_bytes (ssWindows s) + device_property_bytes ?t"
    using device_bytes_update [OF len, of m] n properties_okD(5) [OF ok(1)] by simp
  with ok(1) le show "properties_ok ?t" by (simp add: properties_ok_def keyed w)
  show "devices_ok ?t" using ok(2) m set_update_subset_insert [of "ssXi2Properties s" i m] by (auto simp: devices_ok_def)
qed

text \<open>The common part: the plan is delivered, then the device's table and the account are replaced.\<close>

lemma device_property_commit:
  assumes ok: "queues_ok s" "properties_ok s" "devices_ok s"
    and d: "xi2_pointer_device_id \<le> device" "device \<le> xi2_keyboard_device_id"
    and q: "queue_events_atomically es s = (b, t)" and m: "umap_ok m"
    and n: "n + umap_sum (\<lambda>v. length (pvData v)) (xi2_properties device s) =
      ssPropertyBytes s + umap_sum (\<lambda>v. length (pvData v)) m"
    and le: "n \<le> maximum_server_property_bytes"
  defines "s' \<equiv> t\<lparr>ssXi2Properties := (ssXi2Properties t)[device_index device := m], ssPropertyBytes := n\<rparr>"
  shows "(\<not> b \<longrightarrow> t = s) \<and> ssXi2Properties t = ssXi2Properties s \<and> ssPropertyBytes t = ssPropertyBytes s \<and>
    (b \<longrightarrow> properties_ok s' \<and> devices_ok s' \<and> queues_ok s' \<and> xi2_properties device s' = m \<and>
      (\<forall>c. queued_events s' c = queued_events s c @ stamped_for s c es))"
  using ok(1) q
proof (cases rule: queue_run)
  case refused
  then show ?thesis by simp
next
  case (accepted eq k)
  have i: "device_index device < 2" using device_index_bound [OF d] .
  have props: "xi2_properties device u = ssXi2Properties u ! device_index device" for u
    using d by (auto simp: xi2_properties_def)
  have t: "ssXi2Properties t = ssXi2Properties s" "ssPropertyBytes t = ssPropertyBytes s"
    by (simp_all add: accepted(2))
  have tok: "properties_ok t" "devices_ok t"
    using ok(2,3) by (auto simp: accepted(2) devices_ok_def intro: properties_ok_queues)
  have "properties_ok s' \<and> devices_ok s'"
    using properties_ok_devices [OF tok i _ le m] n by (simp add: s'_def t props)
  moreover have "queues_ok s'" using accepted(3) by (simp add: s'_def queues_ok_def)
  moreover have "queued_events s' c = queued_events t c" for c by (simp add: s'_def queued_events_def)
  moreover have "xi2_properties device s' = m" using i tok(2) by (simp add: props s'_def devices_ok_def)
  ultimately show ?thesis using t accepted(1,4) by simp
qed

lemma device_property_sizes:
  assumes ok: "properties_ok s" "devices_ok s"
    and d: "xi2_pointer_device_id \<le> device" "device \<le> xi2_keyboard_device_id"
  shows "umap_ok (xi2_properties device s)"
    and "umap_sum (\<lambda>v. length (pvData v)) (xi2_properties device s) \<le> ssPropertyBytes s"
    and "xi2_properties device s = ssXi2Properties s ! device_index device"
proof -
  have len: "device_index device < length (ssXi2Properties s)"
    using device_index_bound [OF d] ok(2) by (simp add: devices_ok_def)
  show eq: "xi2_properties device s = ssXi2Properties s ! device_index device"
    using d by (auto simp: xi2_properties_def)
  show "umap_ok (xi2_properties device s)" using ok(2) len by (simp add: eq devices_ok_def)
  show "umap_sum (\<lambda>v. length (pvData v)) (xi2_properties device s) \<le> ssPropertyBytes s"
    using elem_le_sum_list [of "device_index device" "map (umap_sum (\<lambda>v. length (pvData v))) (ssXi2Properties s)"]
      len properties_okD(5) [OF ok(1)]
    by (simp add: device_property_bytes_def eq)
qed

lemma set_xi2_property_run:
  assumes ok: "queues_ok s" "properties_ok s" "devices_ok s"
    and d: "xi2_pointer_device_id \<le> device" "device \<le> xi2_keyboard_device_id"
    and run: "set_xi2_property device p v s = (r, s')"
  defines "m \<equiv> xi2_properties device s"
  shows "properties_ok s' \<and> devices_ok s' \<and> queues_ok s' \<and> (r \<noteq> Updated \<longrightarrow> s' = s) \<and>
    (r = Updated \<longrightarrow> xi2_properties device s' = umap_put p v m \<and>
       (\<forall>c. queued_events s' c = queued_events s c @
          stamped_for s c (xi2_property_events s device p (if umap_find p m = None then 1 else 2))))"
proof -
  let ?es = "xi2_property_events s device p (if umap_find p m = None then 1 else 2)"
  define size where "size = (case umap_find p m of None \<Rightarrow> 0 | Some u \<Rightarrow> length (pvData u))"
  note S = device_property_sizes [OF ok(2,3) d, folded m_def]
  have size: "size \<le> ssPropertyBytes s"
    using S(2) umap_sum_find_le [of p m _ "\<lambda>v. length (pvData v)"] by (auto simp: size_def split: option.splits dest: le_trans)
  define n where "n = ssPropertyBytes s - size + length (pvData v)"
  have n: "n + umap_sum (\<lambda>v. length (pvData v)) m = ssPropertyBytes s + umap_sum (\<lambda>v. length (pvData v)) (umap_put p v m)"
    using umap_sum_put [OF S(1), of "\<lambda>v. length (pvData v)" p v] size
    by (simp add: n_def size_def split: option.splits)
  obtain b t where q: "queue_events_atomically ?es s = (b, t)" by fastforce
  show ?thesis
  proof (cases "umap_find p m = None \<and> maximum_xi2_properties_per_device \<le> length m \<or>
      maximum_property_bytes < length (pvData v) \<or>
      maximum_server_property_bytes - length (pvData v) < ssPropertyBytes s - size")
    case True
    then have "(r, s') = (ResourceExhausted, s)"
      using run size
      by (auto simp: set_xi2_property_def S(3) [symmetric] size_def [symmetric] Let_def split: if_split_asm)
    with ok show ?thesis by simp
  next
    case False
    then have le: "n \<le> maximum_server_property_bytes"
      by (auto simp: n_def maximum_property_bytes_def maximum_server_property_bytes_def)
    note C = device_property_commit [OF ok d q umap_ok_put [OF S(1), of p v] _ le, folded m_def, OF n]
    have bytes: "ssPropertyBytes t = ssPropertyBytes s" using C by simp
    have "(r, s') = (if \<not> b then (UpdateQueueFull, t)
        else (Updated, t\<lparr>ssXi2Properties := (ssXi2Properties t)[device_index device := umap_put p v m],
               ssPropertyBytes := n\<rparr>))"
      using False size bytes unfolding run [symmetric] set_xi2_property_def Let_def S(3) [symmetric]
        size_def [symmetric] q n_def prod.case
      by simp
    with C ok show ?thesis by (auto split: if_splits)
  qed
qed

lemma delete_xi2_property_run:
  assumes ok: "queues_ok s" "properties_ok s" "devices_ok s"
    and d: "xi2_pointer_device_id \<le> device" "device \<le> xi2_keyboard_device_id"
    and run: "delete_xi2_property device p s = (r, s')"
  defines "m \<equiv> xi2_properties device s"
  shows "properties_ok s' \<and> devices_ok s' \<and> queues_ok s' \<and> (r \<noteq> Updated \<longrightarrow> s' = s) \<and>
    (r = Updated \<longrightarrow> xi2_properties device s' = umap_erase p m \<and>
       (\<forall>c. queued_events s' c = queued_events s c @
          (if umap_find p m = None then [] else stamped_for s c (xi2_property_events s device p 0))))"
proof (cases "umap_find p m")
  case None
  note S = device_property_sizes [OF ok(2,3) d, folded m_def]
  have "(r, s') = (Updated, s)" using run None by (simp add: delete_xi2_property_def S(3) [symmetric] Let_def)
  moreover have "umap_erase p m = m" using None by (simp add: umap_erase_def umap_find_def delete_id map_of_eq_None_iff)
  ultimately show ?thesis using ok None by (simp add: m_def)
next
  case (Some u)
  note S = device_property_sizes [OF ok(2,3) d, folded m_def]
  define n where "n = ssPropertyBytes s - length (pvData u)"
  have u: "length (pvData u) \<le> ssPropertyBytes s"
    using S(2) umap_sum_find_le [OF Some, of "\<lambda>v. length (pvData v)"] by simp
  have n: "n + umap_sum (\<lambda>v. length (pvData v)) m = ssPropertyBytes s + umap_sum (\<lambda>v. length (pvData v)) (umap_erase p m)"
    using umap_sum_erase [OF S(1), of "\<lambda>v. length (pvData v)" p] Some u by (simp add: n_def)
  have le: "n \<le> maximum_server_property_bytes" using properties_okD(6) [OF ok(2)] by (simp add: n_def)
  obtain b t where q: "queue_events_atomically (xi2_property_events s device p 0) s = (b, t)" by fastforce
  note C = device_property_commit [OF ok d q umap_ok_erase [OF S(1), of p] _ le, folded m_def, OF n]
  have "(r, s') = (if \<not> b then (UpdateQueueFull, t)
      else (Updated, t\<lparr>ssXi2Properties := (ssXi2Properties t)[device_index device := umap_erase p m],
             ssPropertyBytes := n\<rparr>))"
    using run q C u Some
    by (cases t) (auto simp: delete_xi2_property_def S(3) [symmetric] Let_def n_def split: if_split_asm)
  with C ok Some show ?thesis by (auto split: if_splits)
qed



end
