(* ===== verification/Crossing.thy ===== *)
theory Crossing
  imports Geometry Window_Changes Xi2
begin

text \<open>
  Crossing and focus events (\<open>append_crossing_events\<close>, \<open>append_focus_events\<close> of
  \<^verbatim>\<open>src/server/server_state.cpp\<close>).  When the pointer or the focus moves from one window to another,
  the windows on the way between the two hear of it.  The code walks the tree and plans events as it
  goes; the model separates the two: a \<^emph>\<open>route\<close> is the sequence of (type, detail, window, child)
  that the walks visit, with whether the walks reached their end, and the events are those planned
  at each stop, in order.  Both functions are split the same way, and share the walks.
\<close>

subsection \<open>The walks between two windows\<close>

text \<open>From \<open>current\<close> up to, and without, \<open>stop\<close>; \<open>False\<close> when a window is missing.\<close>

partial_function (option) path_up :: "server_state \<Rightarrow> u32 \<Rightarrow> u32 \<Rightarrow> (u32 list \<times> bool) option" where
  "path_up s current stop =
     (if current = stop then Some ([], True)
      else (case window s current of
              None \<Rightarrow> Some ([current], False)
            | Some w \<Rightarrow> Option.bind (path_up s (wnParent w) stop) (\<lambda>(path, ok). Some (current # path, ok))))"

text \<open>The windows strictly between \<open>candidate\<close> and \<open>stop\<close>, each with the child it was reached from.\<close>

partial_function (option) ascend ::
  "server_state \<Rightarrow> window_record option \<Rightarrow> u32 \<Rightarrow> u32 \<Rightarrow> ((u32 \<times> u32) list \<times> bool) option" where
  "ascend s candidate stop child =
     (case candidate of
        None \<Rightarrow> Some ([], True)
      | Some w \<Rightarrow>
          if wnParent w = stop then Some ([], True)
          else (case window s (wnParent w) of
                  None \<Rightarrow> Some ([], False)
                | Some v \<Rightarrow> Option.bind (ascend s (Some v) stop (wnId v))
                              (\<lambda>(rest, ok). Some ((wnId v, child) # rest, ok))))"

partial_function (option) common_ancestor :: "server_state \<Rightarrow> u32 \<Rightarrow> u32 \<Rightarrow> u32 option" where
  "common_ancestor s common to =
     (if common = 0 \<or> common = to then Some common
      else Option.bind (is_descendant s to common) (\<lambda>below.
             if below then Some common
             else (case window s common of
                     None \<Rightarrow> Some 0
                   | Some w \<Rightarrow> common_ancestor s (wnParent w) to)))"

text \<open>The inner windows of a path from the top down, each with the child that follows it.\<close>

definition inner_steps :: "u8 \<Rightarrow> u8 \<Rightarrow> (u32 \<times> u32) list \<Rightarrow> (u8 \<times> u8 \<times> u32 \<times> u32) list" where
  "inner_steps event_type detail ws = map (\<lambda>(w, child). (event_type, detail, w, child)) ws"

definition descending :: "u32 list \<Rightarrow> (u32 \<times> u32) list" where
  "descending path = (let down = rev path in zip down (tl down))"

definition crossing_route ::
  "server_state \<Rightarrow> u8 \<Rightarrow> u8 \<Rightarrow> u32 \<Rightarrow> u32 \<Rightarrow> ((u8 \<times> u8 \<times> u32 \<times> u32) list \<times> bool) option" where
  "crossing_route s leave enter from to =
     Option.bind (is_descendant s to from) (\<lambda>down.
       if down then
         Option.bind (path_up s to from) (\<lambda>(path, ok).
           Some (if \<not> ok then ([(leave, 2, from, 0)], False)
                 else ([(leave, 2, from, 0)] @ inner_steps enter 1 (descending path) @ [(enter, 0, to, 0)], True)))
       else Option.bind (is_descendant s from to) (\<lambda>up.
         if up then
           Option.bind (ascend s (window s from) to from) (\<lambda>(ws, ok).
             Some (if \<not> ok then ([(leave, 0, from, 0)] @ inner_steps leave 1 ws, False)
                   else ([(leave, 0, from, 0)] @ inner_steps leave 1 ws @ [(enter, 2, to, 0)], True)))
         else Option.bind (common_ancestor s from to) (\<lambda>common.
           if common = 0 then Some ([], False)
           else Option.bind (ascend s (window s from) common from) (\<lambda>(ws, ok).
             let left = [(leave, 3, from, 0)] @ inner_steps leave 4 ws
             in if \<not> ok then Some (left, False)
                else Option.bind (path_up s to common) (\<lambda>(path, reached).
                  Some (if \<not> reached then (left, False)
                        else (left @ inner_steps enter 4 (descending path) @ [(enter, 3, to, 0)], True)))))))"

subsection \<open>Crossing events\<close>

definition crossing_core_recipients ::
  "u32 \<Rightarrow> u32 \<Rightarrow> window_record \<Rightarrow> active_grab option \<Rightarrow> u32 list" where
  "crossing_core_recipients destination bits target grab =
     (case grab of
        None \<Rightarrow> mask_recipients target bits
      | Some g \<Rightarrow>
          if (destination = agWindow g \<and> agEventMask g AND bits \<noteq> 0) \<or>
             (agOwnerEvents g \<and> (case umap_find (agOwner g) (wnEventMasks target) of
                                    None \<Rightarrow> False | Some m \<Rightarrow> m AND bits \<noteq> 0))
          then [agOwner g] else [])"

definition crossing_xi2_selected ::
  "u32 \<Rightarrow> u8 \<Rightarrow> active_grab option \<Rightarrow> xi2_event_selection \<Rightarrow> bool" where
  "crossing_xi2_selected destination event_type grab e =
     (let selected = xlWindow e = destination \<and> xi2_mask_selected e xi2_pointer_device_id (ucast event_type)
      in case grab of
           None \<Rightarrow> selected
         | Some g \<Rightarrow>
             xlOwner e = agOwner g \<and>
             (if agXi2 g then (agOwnerEvents g \<and> selected) \<or>
                (destination = agWindow g \<and> agXi2EventMask g AND push_bit (unat event_type) 1 \<noteq> 0)
              else agOwnerEvents g \<and> selected))"

text \<open>The fields an XI2 crossing event takes from the keyboard.\<close>

definition xi2_crossing ::
  "server_state \<Rightarrow> u8 \<Rightarrow> u16 \<Rightarrow> u8 \<Rightarrow> u8 \<Rightarrow> u32 \<Rightarrow> u32 \<Rightarrow> int \<Rightarrow> int \<Rightarrow> int \<times> int \<Rightarrow> u32 \<Rightarrow> bool \<Rightarrow> event_body" where
  "xi2_crossing s event_type device mode detail destination child root_x root_y origin buttons focus =
     (let xkb = xkb_state s
      in EvXi2 (Xi2Crossing \<lparr>xvType = ucast event_type, xvDevice = device, xvSource = device,
           xvTime = ssCurrentTime s, xvMode = mode, xvDetail = detail, xvRoot = root_window_id,
           xvEvent = destination, xvChild = child, xvRootX = root_x, xvRootY = root_y,
           xvEventX = root_x - fst origin, xvEventY = root_y - snd origin, xvButtons = buttons,
           xvBaseMods = xsnBaseMods xkb, xvLatchedMods = xsnLatchedMods xkb,
           xvLockedMods = xsnLockedMods xkb, xvEffectiveMods = xsnMods xkb,
           xvBaseGroup = word_of_int (xsnBaseGroup xkb), xvLatchedGroup = word_of_int (xsnLatchedGroup xkb),
           xvLockedGroup = xsnLockedGroup xkb, xvEffectiveGroup = xsnGroup xkb, xvSameScreen = True,
           xvFocus = focus\<rparr>))"

definition holds_focus :: "server_state \<Rightarrow> focus_state \<Rightarrow> u32 \<Rightarrow> bool option" where
  "holds_focus s focus destination =
     (case fsKind focus of
        FocusPointerRoot \<Rightarrow> Some True
      | FocusWindow \<Rightarrow> if destination = fsWindow focus then Some True
                       else is_descendant s destination (fsWindow focus)
      | FocusNone \<Rightarrow> Some False)"

definition core_crossing ::
  "server_state \<Rightarrow> u8 \<Rightarrow> u8 \<Rightarrow> u32 \<Rightarrow> u32 \<Rightarrow> int \<Rightarrow> int \<Rightarrow> int \<times> int \<Rightarrow> u16 \<Rightarrow> u8 \<Rightarrow> bool \<Rightarrow> event_body" where
  "core_crossing s event_type detail destination child root_x root_y origin state mode focused =
     EvInput (Crossing \<lparr>cvType = event_type, cvDetail = detail, cvTime = ssCurrentTime s,
       cvRoot = root_window_id, cvEvent = destination, cvChild = child,
       cvRootX = wire_coordinate root_x, cvRootY = wire_coordinate root_y,
       cvEventX = wire_coordinate (root_x - fst origin), cvEventY = wire_coordinate (root_y - snd origin),
       cvState = state, cvMode = mode, cvSameScreen = True, cvFocus = focused\<rparr>)"

fun crossing_stop ::
  "server_state \<Rightarrow> int \<Rightarrow> int \<Rightarrow> u16 \<Rightarrow> u8 \<Rightarrow> active_grab option \<Rightarrow> focus_state \<Rightarrow>
     u8 \<times> u8 \<times> u32 \<times> u32 \<Rightarrow> planned_event list option" where
  "crossing_stop s root_x root_y state mode grab focus (event_type, detail, destination, child) =
     (case window s destination of
        None \<Rightarrow> Some []
      | Some target \<Rightarrow>
          Option.bind (absolute_position s destination) (\<lambda>origin.
            Option.bind (holds_focus s focus destination) (\<lambda>focused.
              Some (map (\<lambda>c. (c, core_crossing s event_type detail destination child root_x root_y
                                   origin state mode focused))
                      (crossing_core_recipients destination (if event_type = 7 then push_bit 4 1 else push_bit 5 1)
                         target grab) @
                    map (\<lambda>e. (xlOwner e, xi2_crossing s event_type xi2_pointer_device_id mode detail
                           destination child root_x root_y origin (xi2_buttons state) focused))
                      (filter (crossing_xi2_selected destination event_type grab) (ssXi2Selections s))))))"

fun plan_stops :: "('a \<Rightarrow> planned_event list option) \<Rightarrow> 'a list \<Rightarrow> planned_event list option" where
  "plan_stops event [] = Some []"
| "plan_stops event (x # xs) =
     Option.bind (event x) (\<lambda>es. map_option ((@) es) (plan_stops event xs))"

definition append_crossing_events ::
  "server_state \<Rightarrow> u32 \<Rightarrow> u32 \<Rightarrow> int \<Rightarrow> int \<Rightarrow> u16 \<Rightarrow> u8 \<Rightarrow> active_grab option \<Rightarrow> focus_state \<Rightarrow>
     planned_event list \<Rightarrow> (event_delivery \<times> planned_event list) option" where
  "append_crossing_events s from to root_x root_y state mode grab focus events =
     (if from = to then Some (NoRecipient, events)
      else Option.bind (crossing_route s 8 7 from to) (\<lambda>(stops, ok).
             Option.bind (plan_stops (crossing_stop s root_x root_y state mode grab focus) stops) (\<lambda>es.
               Some (if \<not> ok then QueueFull else if es = [] then NoRecipient else Delivered,
                     events @ es))))"

subsection \<open>Focus events\<close>

definition focus_stop ::
  "server_state \<Rightarrow> u8 \<Rightarrow> u32 \<Rightarrow> u8 \<times> u8 \<times> u32 \<Rightarrow> planned_event list option option" where
  "focus_stop s mode pointer stop =
     (case stop of (event_type, detail, destination) \<Rightarrow>
       (case window s destination of
          None \<Rightarrow> Some None
        | Some target \<Rightarrow>
            Option.bind (absolute_position s destination) (\<lambda>origin.
              Option.bind (event_child s destination pointer) (\<lambda>child.
                let i = ssInput s;
                    buttons = fold (\<lambda>b m. if bit (inPressedButtons i) b then m OR push_bit b 1 else m) [1..<6] 0
                in Some (Some
                     (map (\<lambda>c. (c, EvInput (Focus event_type detail destination mode)))
                        (mask_recipients target (push_bit 21 1)) @
                      map (\<lambda>e. (xlOwner e, xi2_crossing s event_type xi2_keyboard_device_id mode detail
                             destination child (inPointerX i) (inPointerY i) origin buttons False))
                        (filter (\<lambda>e. xlWindow e = destination \<and>
                                     xi2_mask_selected e xi2_keyboard_device_id (ucast event_type))
                           (ssXi2Selections s))))))))"

text \<open>The events of the stops, up to the first stop whose window is missing.\<close>

fun plan_focus :: "('a \<Rightarrow> planned_event list option option) \<Rightarrow> 'a list \<Rightarrow> (planned_event list \<times> bool) option" where
  "plan_focus event [] = Some ([], True)"
| "plan_focus event (x # xs) =
     Option.bind (event x) (\<lambda>found.
       case found of
         None \<Rightarrow> Some ([], False)
       | Some es \<Rightarrow> map_option (\<lambda>(rest, ok). (es @ rest, ok)) (plan_focus event xs))"

text \<open>One part of a focus route after another; a part that fails is the last.\<close>

definition then_route :: "('a list \<times> bool) option \<Rightarrow> ('a list \<times> bool) option \<Rightarrow> ('a list \<times> bool) option"
  where
  "then_route first rest =
     Option.bind first (\<lambda>(xs, ok). if \<not> ok then Some (xs, False)
       else map_option (\<lambda>(ys, reached). (xs @ ys, reached)) rest)"

definition pointer_related :: "server_state \<Rightarrow> u32 \<Rightarrow> u32 \<Rightarrow> bool option" where
  "pointer_related s left right =
     Option.bind (is_descendant s left right) (\<lambda>b. if b then Some True else is_descendant s right left)"

text \<open>Whether \<open>pointer_out\<close> and \<open>pointer_in\<close> have nothing to tell.\<close>

definition pointer_elsewhere :: "server_state \<Rightarrow> u32 \<Rightarrow> u32 \<Rightarrow> u32 \<Rightarrow> bool option" where
  "pointer_elsewhere s pointer parent excluded =
     Option.bind (if pointer = parent then Some True else is_descendant s pointer parent) (\<lambda>inside.
       if \<not> inside then Some True
       else if excluded = 0 then Some False else pointer_related s pointer excluded)"

definition pointer_out ::
  "server_state \<Rightarrow> u32 \<Rightarrow> u32 \<Rightarrow> u32 \<Rightarrow> bool \<Rightarrow> ((u8 \<times> u8 \<times> u32) list \<times> bool) option" where
  "pointer_out s pointer parent excluded inclusive =
     Option.bind (pointer_elsewhere s pointer parent excluded) (\<lambda>elsewhere.
       if elsewhere then Some ([], True)
       else (case window s parent of
               None \<Rightarrow> Some ([], False)
             | Some w \<Rightarrow>
                 map_option (\<lambda>(path, ok). (map (\<lambda>k. (10, 5, k)) path, ok))
                   (path_up s pointer (if inclusive then wnParent w else parent))))"

definition pointer_in ::
  "server_state \<Rightarrow> u32 \<Rightarrow> u32 \<Rightarrow> u32 \<Rightarrow> bool \<Rightarrow> ((u8 \<times> u8 \<times> u32) list \<times> bool) option" where
  "pointer_in s pointer parent excluded inclusive =
     (if pointer = excluded then Some ([], True)
      else Option.bind (pointer_elsewhere s pointer parent excluded) (\<lambda>elsewhere.
        if elsewhere then Some ([], True)
        else map_option (\<lambda>(path, ok).
               if \<not> ok then ([], False)
               else (map (\<lambda>k. (9, 5, k)) (rev (path @ (if inclusive then [parent] else []))), True))
               (path_up s pointer parent)))"

definition special_detail :: "focus_kind \<Rightarrow> u8" where
  "special_detail kind = (if kind = FocusPointerRoot then 6 else 7)"

text \<open>The stops strictly inside the way down to a window, and those on the way up to \<open>stop\<close>.\<close>

definition focus_down ::
  "server_state \<Rightarrow> u8 \<Rightarrow> u32 \<Rightarrow> u32 \<Rightarrow> ((u8 \<times> u8 \<times> u32) list \<times> bool) option" where
  "focus_down s detail to stop =
     map_option (\<lambda>(path, ok). if \<not> ok then ([], False)
                              else (map (\<lambda>k. (9, detail, k)) (butlast (rev path)), True))
       (path_up s to stop)"

definition focus_up ::
  "server_state \<Rightarrow> u8 \<Rightarrow> u32 \<Rightarrow> u32 \<Rightarrow> ((u8 \<times> u8 \<times> u32) list \<times> bool) option" where
  "focus_up s detail from stop =
     map_option (\<lambda>(ws, ok). (map (\<lambda>(k, _). (10, detail, k)) ws, ok)) (ascend s (window s from) stop from)"

definition focus_route ::
  "server_state \<Rightarrow> u32 \<Rightarrow> focus_state \<Rightarrow> focus_state \<Rightarrow> ((u8 \<times> u8 \<times> u32) list \<times> bool) option" where
  "focus_route s pointer from to =
     (let f = fsWindow from; t = fsWindow to;
          one = (\<lambda>event_type detail k. Some ([(event_type, detail, k)], True));
          leave_special = then_route
            (if fsKind from = FocusPointerRoot then pointer_out s pointer root_window_id 0 True
             else Some ([], True))
            (one 10 (special_detail (fsKind from)) root_window_id);
          enter_special = then_route
            (one 9 (special_detail (fsKind to)) root_window_id)
            (if fsKind to = FocusPointerRoot then pointer_in s pointer root_window_id 0 True
             else Some ([], True))
      in if fsKind from \<noteq> FocusWindow \<and> fsKind to \<noteq> FocusWindow then
           then_route leave_special enter_special
         else if fsKind to \<noteq> FocusWindow then
           then_route (pointer_out s pointer f 0 False)
             (then_route (one 10 3 f)
               (then_route (focus_up s 4 f 0) enter_special))
         else if fsKind from \<noteq> FocusWindow then
           then_route leave_special
             (then_route
               (if t \<noteq> root_window_id
                then then_route (one 9 4 root_window_id) (focus_down s 4 t root_window_id)
                else Some ([], True))
               (then_route (one 9 3 t) (pointer_in s pointer t 0 False)))
         else Option.bind (is_descendant s t f) (\<lambda>down.
           if down then
             then_route (pointer_out s pointer f t False)
               (then_route (one 10 2 f)
                 (then_route (focus_down s 1 t f) (one 9 0 t)))
           else Option.bind (is_descendant s f t) (\<lambda>up.
             if up then
               then_route (one 10 0 f)
                 (then_route (focus_up s 1 f t)
                   (then_route (one 9 2 t) (pointer_in s pointer t f False)))
             else Option.bind (common_ancestor s f t) (\<lambda>common.
               if common = 0 then Some ([], False)
               else then_route (pointer_out s pointer f 0 False)
                 (then_route (one 10 3 f)
                   (then_route (focus_up s 4 f common)
                     (then_route (focus_down s 4 t common)
                       (then_route (one 9 3 t) (pointer_in s pointer t 0 False)))))))))"

definition same_focus :: "focus_state \<Rightarrow> focus_state \<Rightarrow> bool" where
  "same_focus from to \<longleftrightarrow>
     fsKind from = fsKind to \<and> (fsKind from \<noteq> FocusWindow \<or> fsWindow from = fsWindow to)"

definition append_focus_events ::
  "server_state \<Rightarrow> focus_state \<Rightarrow> focus_state \<Rightarrow> u8 \<Rightarrow> u32 \<Rightarrow> planned_event list \<Rightarrow>
     (event_delivery \<times> planned_event list) option" where
  "append_focus_events s from to mode pointer events =
     (if same_focus from to \<and> mode \<noteq> 1 \<and> mode \<noteq> 2 then Some (NoRecipient, events)
      else if same_focus from to \<and> fsKind from \<noteq> FocusWindow then Some (NoRecipient, events)
      else Option.bind
        (if same_focus from to then Some ([(10, 3, fsWindow from), (9, 3, fsWindow from)], True)
         else focus_route s pointer from to) (\<lambda>(stops, ok).
           Option.bind (plan_focus (focus_stop s mode pointer) stops) (\<lambda>(es, planned).
             Some (if \<not> ok \<or> \<not> planned then QueueFull else if es = [] then NoRecipient else Delivered,
                   events @ es))))"

subsection \<open>Lineages\<close>

text \<open>The windows from \<open>k\<close> up to the root, in order.\<close>

inductive lineage :: "server_state \<Rightarrow> u32 \<Rightarrow> u32 list \<Rightarrow> bool" for s where
  top: "lineage s root_window_id [root_window_id]"
| above: "window s k = Some w \<Longrightarrow> k \<noteq> root_window_id \<Longrightarrow> lineage s (wnParent w) xs \<Longrightarrow> lineage s k (k # xs)"

lemma lineage_exists:
  assumes "tree_ok s" "window s k \<noteq> None"
  shows "\<exists>xs. lineage s k xs"
proof -
  have "rooted s k" using tree_okD(4) [OF assms(1)] assms(2) by auto
  then show ?thesis by induction (blast intro: lineage.intros)+
qed

lemma lineage_set: "lineage s k xs \<Longrightarrow> set xs = chain s k"
  by (induction rule: lineage.induct) (simp_all add: chain_root chain_step)

lemma lineage_hd: "lineage s k xs \<Longrightarrow> \<exists>r. xs = k # r"
  by (erule lineage.cases) simp_all

lemma lineage_unique: "lineage s k xs \<Longrightarrow> lineage s k ys \<Longrightarrow> xs = ys"
proof (induction arbitrary: ys rule: lineage.induct)
  case top
  then show ?case by (cases rule: lineage.cases) simp_all
next
  case (above k w xs)
  from above.prems above.hyps(2) obtain v zs where v: "window s k = Some v" "ys = k # zs" "lineage s (wnParent v) zs"
    by cases blast+
  from v(1) above.hyps(1) have "v = w" by simp
  with v above.IH [of zs] show ?case by simp
qed

lemma lineage_suffix: "lineage s k (p @ a # q) \<Longrightarrow> lineage s a (a # q)"
proof (induction p arbitrary: k)
  case Nil
  then show ?case using lineage_hd by fastforce
next
  case (Cons b p)
  from Cons.prems show ?case by (cases rule: lineage.cases) (auto intro: Cons.IH)
qed

lemma lineage_below:
  assumes "tree_ok s" "lineage s k (k # xs)"
  shows "(k, a) \<in> (parent_rel s)\<^sup>+ \<longleftrightarrow> a \<in> set xs"
  using assms(2)
proof (cases rule: lineage.cases)
  case top
  then show ?thesis by (simp add: root_no_ancestors)
next
  case (above w)
  then show ?thesis
    using lineage_set [OF above(3)] ancestors_step [OF above(1,2), of a] by (auto simp: chain_def rtrancl_eq_or_trancl)
qed

lemma is_descendant_lineage:
  "tree_ok s \<Longrightarrow> lineage s k (k # xs) \<Longrightarrow> is_descendant s k a = Some (a \<in> set xs)"
  by (simp add: is_descendant_returns lineage_below)

lemma lineage_distinct:
  assumes "tree_ok s" "lineage s k xs"
  shows "distinct xs"
  using assms(2)
proof (induction rule: lineage.induct)
  case (above k w xs)
  have "k \<notin> set xs"
    using lineage_below [OF assms(1) lineage.above [OF above(1,2,3)], of k] tree_okD(4) [OF assms(1) above(1)]
      rooted_acyclic by blast
  with above.IH show ?case by simp
qed simp

lemma lineage_windows:
  assumes "tree_ok s" "lineage s k xs" "a \<in> set xs"
  shows "\<exists>w. window s a = Some w \<and> wnId w = a \<and> a \<noteq> 0"
proof -
  have "window s a \<noteq> None"
    using assms(2,3)
    by (induction rule: lineage.induct) (use tree_okD(3) [OF assms(1)] in auto)
  then show ?thesis using tree_okD(1,2) [OF assms(1)] windows_keyedD by fastforce
qed

lemma lineage_root_last: "lineage s k xs \<Longrightarrow> root_window_id \<in> set xs"
  by (induction rule: lineage.induct) simp_all

lemma lineage_ends: "lineage s k xs \<Longrightarrow> \<exists>q. xs = q @ [root_window_id]"
  by (induction rule: lineage.induct) auto

text \<open>Two lineages part once, above two runs that share nothing.\<close>

lemma lineage_split:
  assumes ok: "tree_ok s" and xs: "lineage s a xs" and ys: "lineage s b ys"
  shows "\<exists>up down c zs. xs = up @ c # zs \<and> ys = down @ c # zs \<and> set up \<inter> set ys = {} \<and>
    set down \<inter> set xs = {} \<and> up = takeWhile (\<lambda>w. w \<notin> set ys) xs \<and> down = takeWhile (\<lambda>w. w \<notin> set xs) ys"
proof -
  define up where "up = takeWhile (\<lambda>w. w \<notin> set ys) xs"
  have "dropWhile (\<lambda>w. w \<notin> set ys) xs \<noteq> []"
    using lineage_root_last [OF xs] lineage_root_last [OF ys] by (auto simp: dropWhile_eq_Nil_conv)
  then obtain c zs where czs: "dropWhile (\<lambda>w. w \<notin> set ys) xs = c # zs" by (cases "dropWhile (\<lambda>w. w \<notin> set ys) xs") auto
  then have c: "c \<in> set ys" using hd_dropWhile [of "\<lambda>w. w \<notin> set ys" xs] by simp
  have split: "xs = up @ c # zs" using czs takeWhile_dropWhile_id [of "\<lambda>w. w \<notin> set ys" xs] by (simp add: up_def)
  from c obtain down zs' where down: "ys = down @ c # zs'" by (auto simp: in_set_conv_decomp)
  then have "zs' = zs" using lineage_suffix xs ys split lineage_unique by blast
  with down have down: "ys = down @ c # zs" by simp
  have updis: "set up \<inter> set ys = {}" by (auto simp: up_def dest: set_takeWhileD)
  moreover have dis: "set down \<inter> set xs = {}"
    using updis lineage_distinct [OF ok ys] down split by auto
  moreover have "down = takeWhile (\<lambda>w. w \<notin> set xs) ys"
    using dis by (subst down, subst takeWhile_append2) (auto simp: split)
  ultimately show ?thesis using split down up_def by blast
qed

subsection \<open>The walks follow lineages\<close>

lemma lineage_link:
  assumes "tree_ok s" "lineage s k (k # a # q)"
  shows "\<exists>w. window s k = Some w \<and> wnParent w = a \<and> lineage s a (a # q)"
  using assms(2)
proof (cases rule: lineage.cases)
  case (above w)
  then show ?thesis using lineage_hd [OF above(3)] by auto
qed

lemma path_up_lineage:
  assumes "tree_ok s" "lineage s k (p @ a # q)"
  shows "path_up s k a = Some (p, True)"
  using assms(2)
proof (induction p arbitrary: k)
  case Nil
  then have "k = a" using lineage_hd by fastforce
  then show ?case by (simp add: path_up.simps)
next
  case (Cons b p)
  then have b: "b = k" using lineage_hd by fastforce
  obtain c r where c: "p @ a # q = c # r" by (cases p) auto
  obtain w where w: "window s k = Some w" "wnParent w = c" "lineage s c (p @ a # q)"
    using lineage_link [OF assms(1), of k c r] Cons.prems c b by auto
  have "k \<noteq> a" using lineage_distinct [OF assms(1) Cons.prems] b by simp
  with w b Cons.IH [OF w(3)] show ?case by (subst path_up.simps) simp
qed

lemma ascend_lineage:
  assumes "tree_ok s" "lineage s k (k # p @ a # q)"
  shows "ascend s (window s k) a child = Some (zip p (child # p), True)"
  using assms(2)
proof (induction p arbitrary: k child)
  case Nil
  then show ?case using lineage_link [OF assms(1), of k a q] by (subst ascend.simps) auto
next
  case (Cons b p)
  obtain w where w: "window s k = Some w" "wnParent w = b" "lineage s b (b # p @ a # q)"
    using lineage_link [OF assms(1), of k b "p @ a # q"] Cons.prems by auto
  obtain v where v: "window s b = Some v" "wnId v = b" using lineage_windows [OF assms(1) w(3)] by auto
  have "b \<noteq> a" using lineage_distinct [OF assms(1) w(3)] by auto
  with w v Cons.IH [OF w(3), of b] show ?case by (subst ascend.simps) simp
qed

lemma ascend_to_root:
  assumes "tree_ok s" "lineage s k (k # p)"
  shows "ascend s (window s k) 0 child = Some (zip p (child # p), True)"
  using assms(2)
proof (induction p arbitrary: k child)
  case Nil
  then have k: "k = root_window_id" using lineage_root_last [OF Nil] by simp
  then show ?case using tree_okD(3) [OF assms(1)] by (subst ascend.simps) auto
next
  case (Cons b p)
  obtain w where w: "window s k = Some w" "wnParent w = b" "lineage s b (b # p)"
    using lineage_link [OF assms(1), of k b p] Cons.prems by auto
  obtain v where v: "window s b = Some v" "wnId v = b" "b \<noteq> 0" using lineage_windows [OF assms(1) w(3)] by auto
  with w Cons.IH [OF w(3), of b] show ?case by (subst ascend.simps) simp
qed

lemma common_ancestor_lineage:
  assumes ok: "tree_ok s" and ys: "lineage s b (b # ys)"
  shows "lineage s a (up @ c # zs) \<Longrightarrow> set up \<inter> set (b # ys) = {} \<Longrightarrow> c \<in> set (b # ys) \<Longrightarrow>
    common_ancestor s a b = Some c"
proof (induction up arbitrary: a)
  case Nil
  then have "a = c" "c \<noteq> 0" using lineage_hd lineage_windows [OF ok Nil(1), of c] by fastforce+
  with Nil(3) show ?case
    by (subst common_ancestor.simps) (auto simp: is_descendant_lineage [OF ok ys])
next
  case (Cons d up)
  then have d: "d = a" using lineage_hd by fastforce
  obtain e r where e: "up @ c # zs = e # r" by (cases up) auto
  obtain w where w: "window s a = Some w" "wnParent w = e" "lineage s e (up @ c # zs)"
    using lineage_link [OF ok, of a e r] Cons.prems e d by auto
  have "a \<noteq> 0" using lineage_windows [OF ok Cons.prems(1)] d by auto
  moreover have "a \<noteq> b" "a \<notin> set ys" using Cons.prems(2) d by auto
  ultimately show ?case
    using w Cons.IH [OF w(3)] Cons.prems(2,3) by (subst common_ancestor.simps) (auto simp: is_descendant_lineage [OF ok ys])
qed

subsection \<open>The route of a crossing\<close>

text \<open>What the protocol asks for, over the two lineages: leave the first window, leave virtually each
  window up to their common ancestor, enter virtually each window below it down to the second, and
  enter the second.  The detail says which of the two is above the other.\<close>

definition route_between ::
  "u8 \<Rightarrow> u8 \<Rightarrow> u32 list \<Rightarrow> u32 list \<Rightarrow> (u8 \<times> u8 \<times> u32 \<times> u32) list" where
  "route_between leave enter xs ys =
     (let up = takeWhile (\<lambda>w. w \<notin> set ys) xs;
          down = takeWhile (\<lambda>w. w \<notin> set xs) ys;
          inner = if up = [] \<or> down = [] then 1 else 4
      in [(leave, if up = [] then 2 else if down = [] then 0 else 3, hd xs, 0)] @
         map (\<lambda>(w, child). (leave, inner, w, child)) (zip (tl up) up) @
         map (\<lambda>(w, child). (enter, inner, w, child)) (zip (rev down) (tl (rev down))) @
         [(enter, if down = [] then 2 else if up = [] then 0 else 3, hd ys, 0)])"

lemma crossing_route_lineages:
  assumes ok: "tree_ok s" and xs: "lineage s a xs" and ys: "lineage s b ys" and ne: "a \<noteq> b"
  shows "crossing_route s leave enter a b = Some (route_between leave enter xs ys, True)"
proof -
  obtain up down c zs where split: "xs = up @ c # zs" "ys = down @ c # zs"
      "set up \<inter> set ys = {}" "set down \<inter> set xs = {}"
    and takes: "takeWhile (\<lambda>w. w \<notin> set ys) xs = up" "takeWhile (\<lambda>w. w \<notin> set xs) ys = down"
    using lineage_split [OF ok xs ys] by metis
  obtain xr yr where hds: "xs = a # xr" "ys = b # yr" using lineage_hd xs ys by blast
  have hd: "hd xs = a" "hd ys = b" by (simp_all add: hds)
  have desc: "is_descendant s b a = Some (a \<in> set yr)" "is_descendant s a b = Some (b \<in> set xr)"
    using is_descendant_lineage [OF ok] xs ys hds by auto
  note defs = crossing_route_def route_between_def takes inner_steps_def descending_def Let_def
  show ?thesis
  proof (cases "up = []")
    case True
    then have a: "a = c" using split(1) hds by simp
    have "down \<noteq> []" using True split hds ne by auto
    then have "a \<in> set yr" using a split(2) hds(2) by (cases down) auto
    moreover have "path_up s b a = Some (down, True)" using path_up_lineage [OF ok] ys split(2) a by simp
    ultimately show ?thesis using True \<open>down \<noteq> []\<close> by (simp add: defs desc hd)
  next
    case upne: False
    then obtain up' where up: "up = a # up'" using split(1) hds(1) by (cases up) auto
    have nd: "a \<notin> set yr" using up split(3) hds(2) by auto
    have asc: "ascend s (window s a) c a = Some (zip up' (a # up'), True)"
      using ascend_lineage [OF ok] xs split(1) up by simp
    show ?thesis
    proof (cases "down = []")
      case True
      then have b: "c = b" using split(2) hds by simp
      then have "b \<in> set xr" using up split(1) hds(1) by auto
      then show ?thesis using True b asc nd up by (simp add: defs desc hd)
    next
      case False
      then obtain down' where down: "down = b # down'" using split(2) hds(2) by (cases down) auto
      have "b \<notin> set xr" using down split(4) hds(1) by auto
      moreover have "path_up s b c = Some (down, True)" using path_up_lineage [OF ok] ys split(2) by simp
      moreover have "common_ancestor s a b = Some c"
        by (rule common_ancestor_lineage [OF ok, of b yr a up c zs, folded hds(2)]) (use ys xs split in auto)
      moreover have "c \<noteq> 0" using lineage_windows [OF ok xs, of c] split(1) by auto
      ultimately show ?thesis using False up asc nd by (simp add: defs desc hd)
    qed
  qed
qed

lemma holds_focus_returns: "tree_ok s \<Longrightarrow> \<exists>b. holds_focus s focus k = Some b"
  by (cases "fsKind focus") (auto simp: holds_focus_def is_descendant_returns)

lemma crossing_stop_returns:
  assumes "tree_ok s"
  shows "\<exists>es. crossing_stop s x y state mode grab focus stop = Some es"
proof (cases stop)
  case (fields event_type detail k child)
  show ?thesis
  proof (cases "window s k")
    case (Some w)
    obtain ox oy where "absolute_position s k = Some (ox, oy)"
      using absolute_position_returns [OF assms Some] by blast
    moreover obtain b where "holds_focus s focus k = Some b" using holds_focus_returns [OF assms] by blast
    ultimately show ?thesis using Some fields by simp
  qed (simp add: fields)
qed

lemma plan_stops_returns: "(\<And>x. \<exists>es. event x = Some es) \<Longrightarrow> \<exists>es. plan_stops event xs = Some es"
proof (induction xs)
  case (Cons x xs)
  then obtain e es where "event x = Some e" "plan_stops event xs = Some es" by blast
  then show ?case by simp
qed simp

lemma append_crossing_returns:
  assumes ok: "tree_ok s" and "window s from \<noteq> None" "window s to \<noteq> None"
  shows "\<exists>d es. append_crossing_events s from to x y state mode grab focus events = Some (d, events @ es) \<and>
    d \<noteq> QueueFull \<and> (d = Delivered \<longleftrightarrow> es \<noteq> [])"
proof -
  obtain xs ys where l: "lineage s from xs" "lineage s to ys" using lineage_exists assms by meson
  obtain es where "plan_stops (crossing_stop s x y state mode grab focus)
      (if from = to then [] else route_between 8 7 xs ys) = Some es"
    using plan_stops_returns crossing_stop_returns [OF ok] by meson
  then show ?thesis using crossing_route_lineages [OF ok l] by (auto simp: append_crossing_events_def)
qed

text \<open>C14. Crossing events follow the tree.  Between two windows of a well-formed tree the planning
  ends and never fails, and the planned events are exactly those of the route the protocol asks for:
  the first window is left, the windows strictly between it and the lowest common ancestor are left
  virtually from the inside out, those between the ancestor and the second are entered virtually
  from the outside in, and the second is entered, each with the detail of the windows' relation.\<close>

theorem crossing_events_exact:
  assumes ok: "tree_ok s" and "window s from \<noteq> None" "window s to \<noteq> None"
  shows "\<exists>xs ys es. lineage s from xs \<and> lineage s to ys \<and>
    plan_stops (crossing_stop s x y state mode grab focus)
      (if from = to then [] else route_between 8 7 xs ys) = Some es \<and>
    append_crossing_events s from to x y state mode grab focus events =
      Some (if es = [] then NoRecipient else Delivered, events @ es)"
proof -
  obtain xs ys where l: "lineage s from xs" "lineage s to ys" using lineage_exists assms by meson
  obtain es where es: "plan_stops (crossing_stop s x y state mode grab focus)
      (if from = to then [] else route_between 8 7 xs ys) = Some es"
    using plan_stops_returns crossing_stop_returns [OF ok] by meson
  have "append_crossing_events s from to x y state mode grab focus events =
      Some (if es = [] then NoRecipient else Delivered, events @ es)"
    using es crossing_route_lineages [OF ok l] by (auto simp: append_crossing_events_def)
  with l es show ?thesis by blast
qed

theorem crossing_events_exact_witness:
  "\<exists>d es. append_crossing_events two_children_state 7 8 3 4 0 0 None (inFocus (ssInput two_children_state)) [] =
     Some (d, es) \<and> d \<noteq> QueueFull"
proof -
  have w: "window two_children_state 7 \<noteq> None" "window two_children_state 8 \<noteq> None"
    by (simp_all add: two_children_window)
  from crossing_events_exact [OF two_children_ok(1) w, of 3 4 0 0 None "inFocus (ssInput two_children_state)" "[]"]
  show ?thesis by fastforce
qed

subsection \<open>The route of the focus\<close>

text \<open>The focus route over the lineages of the two focus windows and of the pointer's window
  (\<open>ps\<close>).  When the pointer is below a focus window it is told, from the inside out on the way out
  and from the outside in on the way in, unless its window is related to the other focus window and
  that one lies on the way.\<close>

definition pointer_below :: "u32 list \<Rightarrow> u32 \<Rightarrow> u32 list" where
  "pointer_below ps a = (if a \<in> set ps then takeWhile (\<lambda>w. w \<noteq> a) ps else [])"

definition focus_leave :: "focus_kind \<Rightarrow> u32 list \<Rightarrow> u32 list \<Rightarrow> (u8 \<times> u8 \<times> u32) list" where
  "focus_leave kind ps xs =
     (if kind = FocusWindow then map (\<lambda>w. (10, 5, w)) (pointer_below ps (hd xs)) @
        (10, 3, hd xs) # map (\<lambda>w. (10, 4, w)) (tl xs)
      else map (\<lambda>w. (10, 5, w)) (if kind = FocusPointerRoot then ps else []) @
        [(10, special_detail kind, root_window_id)])"

definition focus_enter :: "focus_kind \<Rightarrow> u32 list \<Rightarrow> u32 list \<Rightarrow> (u8 \<times> u8 \<times> u32) list" where
  "focus_enter kind ps ys =
     (if kind = FocusWindow then map (\<lambda>w. (9, 4, w)) (rev (tl ys)) @
        (9, 3, hd ys) # map (\<lambda>w. (9, 5, w)) (rev (pointer_below ps (hd ys)))
      else (9, special_detail kind, root_window_id) #
        map (\<lambda>w. (9, 5, w)) (if kind = FocusPointerRoot then rev ps else []))"

definition focus_between :: "u32 list \<Rightarrow> u32 list \<Rightarrow> u32 list \<Rightarrow> (u8 \<times> u8 \<times> u32) list" where
  "focus_between ps xs ys =
     (let a = hd xs; b = hd ys; p = hd ps;
          down = b \<notin> set xs \<and> a \<in> set ys; up = a \<notin> set ys \<and> b \<in> set xs;
          leaving = (if up \<or> down \<and> (b \<in> set (tl ps) \<or> p \<in> set (tl ys)) then [] else pointer_below ps a);
          entering = (if down \<or> up \<and> (p \<in> set xs \<or> a \<in> set ps) then [] else pointer_below ps b)
      in map (\<lambda>w. (10, 5, w)) leaving @
         map (\<lambda>(event_type, detail, w, child). (event_type, detail, w)) (route_between 10 9 xs ys) @
         map (\<lambda>w. (9, 5, w)) (rev entering))"

lemma then_route_Some [simp]: "then_route (Some (xs, True)) (Some (ys, b)) = Some (xs @ ys, b)"
  by (simp add: then_route_def)

lemma path_up_take:
  assumes "tree_ok s" "lineage s k xs" "a \<in> set xs"
  shows "path_up s k a = Some (takeWhile (\<lambda>w. w \<noteq> a) xs, True)"
proof -
  obtain p q where pq: "xs = p @ a # q" "a \<notin> set p" using split_list_first [OF assms(3)] by blast
  then have "takeWhile (\<lambda>w. w \<noteq> a) xs = p" by (subst pq(1), subst takeWhile_append2) auto
  with path_up_lineage [OF assms(1)] assms(2) pq show ?thesis by simp
qed

lemma path_up_zero:
  assumes "tree_ok s" "lineage s k xs"
  shows "path_up s k 0 = Some (xs, True)"
  using assms(2)
proof (induction rule: lineage.induct)
  case top
  obtain r where "window s root_window_id = Some r" "wnParent r = 0" using tree_okD(3) [OF assms(1)] by blast
  moreover have "root_window_id \<noteq> 0" by (simp add: root_window_id_def)
  ultimately show ?case by (subst path_up.simps) (simp add: path_up.simps [of s 0 0])
next
  case (above k w xs)
  have "k \<noteq> 0" using above.hyps(1) tree_okD(2) [OF assms(1)] by auto
  with above show ?case by (subst path_up.simps) simp
qed

lemma map_fst_zip_tl:
  fixes zs :: "'x list"
  shows "map (\<lambda>(w, _). f w) (zip (tl zs) zs) = map f (tl zs)"
  "map (\<lambda>(w, _). f w) (zip zs (tl zs)) = map f (butlast zs)"
  "map (\<lambda>(w, _). f w) (zip zs (c # zs)) = map f zs"
proof -
  have "map (\<lambda>(w, _). f w) (zip as bs) = map f (take (length bs) as)" for as bs :: "'x list"
    by (induction as arbitrary: bs; case_tac bs) simp_all
  then show "map (\<lambda>(w, _). f w) (zip (tl zs) zs) = map f (tl zs)"
    "map (\<lambda>(w, _). f w) (zip zs (tl zs)) = map f (butlast zs)"
    "map (\<lambda>(w, _). f w) (zip zs (c # zs)) = map f zs"
    by (simp_all add: butlast_conv_take)
qed

lemma focus_up_to:
  assumes "tree_ok s" "lineage s k (up @ a # q)" "up \<noteq> []"
  shows "focus_up s d k a = Some (map (\<lambda>w. (10, d, w)) (tl up), True)"
proof -
  obtain p where "up = k # p" using lineage_hd [OF assms(2)] assms(3) by (cases up) auto
  with ascend_lineage [OF assms(1), of k p a q k] assms(2) show ?thesis
    by (simp add: focus_up_def map_fst_zip_tl)
qed

lemma focus_up_root:
  assumes "tree_ok s" "lineage s k (k # p)"
  shows "focus_up s d k 0 = Some (map (\<lambda>w. (10, d, w)) p, True)"
  using ascend_to_root [OF assms, of k] by (simp add: focus_up_def map_fst_zip_tl)

lemma focus_down_to:
  assumes "tree_ok s" "lineage s k (down @ a # q)"
  shows "focus_down s d k a = Some (map (\<lambda>w. (9, d, w)) (butlast (rev down)), True)"
  using path_up_lineage [OF assms] by (simp add: focus_down_def)

lemma pointer_elsewhere_lineage:
  assumes ok: "tree_ok s" and ps: "lineage s p ps" and x: "x \<noteq> 0 \<Longrightarrow> lineage s x xl"
  shows "pointer_elsewhere s p a x =
    Some (a \<notin> set ps \<or> x \<noteq> 0 \<and> (x \<in> set (tl ps) \<or> p \<in> set (tl xl)))"
proof -
  obtain pr where pr: "ps = p # pr" using lineage_hd ps by blast
  have p: "is_descendant s p k = Some (k \<in> set pr)" for k using is_descendant_lineage [OF ok] ps pr by auto
  show ?thesis
  proof (cases "x = 0")
    case True
    then show ?thesis using p pr by (simp add: pointer_elsewhere_def)
  next
    case False
    then obtain xr where xr: "xl = x # xr" using lineage_hd x by blast
    then have "is_descendant s x p = Some (p \<in> set xr)" using is_descendant_lineage [OF ok] x [OF False] by auto
    with p pr xr False show ?thesis by (auto simp: pointer_elsewhere_def pointer_related_def)
  qed
qed

lemma pointer_out_lineage:
  assumes ok: "tree_ok s" and ps: "lineage s p ps" and x: "x \<noteq> 0 \<Longrightarrow> lineage s x xl" and a: "window s a \<noteq> None"
  shows "pointer_out s p a x False = Some (map (\<lambda>w. (10, 5, w))
    (if x \<noteq> 0 \<and> (x \<in> set (tl ps) \<or> p \<in> set (tl xl)) then [] else pointer_below ps a), True)"
  using a path_up_take [OF ok ps, of a]
  by (auto simp: pointer_out_def pointer_elsewhere_lineage [OF ok ps x] pointer_below_def)

lemma pointer_in_lineage:
  assumes ok: "tree_ok s" and ps: "lineage s p ps" and x: "x \<noteq> 0 \<Longrightarrow> lineage s x xl"
  shows "pointer_in s p a x False = Some (map (\<lambda>w. (9, 5, w)) (rev
    (if x \<noteq> 0 \<and> (x \<in> set ps \<or> p \<in> set xl) then [] else pointer_below ps a)), True)"
proof -
  have p: "p \<noteq> 0" "hd ps = p" "ps \<noteq> []" using lineage_windows [OF ok ps] lineage_hd [OF ps] by fastforce+
  then have mem: "x \<noteq> 0 \<Longrightarrow> x \<in> set ps \<or> p \<in> set xl \<longleftrightarrow> p = x \<or> x \<in> set (tl ps) \<or> p \<in> set (tl xl)"
    using lineage_hd [OF x] by (cases ps) auto
  show ?thesis
    using path_up_take [OF ok ps, of a] p mem
    by (auto simp: pointer_in_def pointer_elsewhere_lineage [OF ok ps x] pointer_below_def)
qed

lemma lineage_start: "tree_ok s \<Longrightarrow> lineage s k xs \<Longrightarrow> hd xs = k \<and> xs = k # tl xs \<and> window s k \<noteq> None \<and> k \<noteq> 0"
  using lineage_hd [of s k xs] lineage_windows [of s k xs k] by auto

lemma route_between_windows:
  assumes "takeWhile (\<lambda>w. w \<notin> set ys) xs = up" "takeWhile (\<lambda>w. w \<notin> set xs) ys = down"
  shows "map (\<lambda>(t, d, w, c). (t, d, w)) (route_between leave enter xs ys) =
    (let inner = if up = [] \<or> down = [] then 1 else 4
     in (leave, if up = [] then 2 else if down = [] then 0 else 3, hd xs) #
        map (\<lambda>w. (leave, inner, w)) (tl up) @ map (\<lambda>w. (enter, inner, w)) (rev (tl down)) @
        [(enter, if down = [] then 2 else if up = [] then 0 else 3, hd ys)])"
proof -
  have "map (\<lambda>(t, d, w, c). (t, d, w)) (map (\<lambda>(w, c). (t', d', w, c)) ws) = map (\<lambda>(w, _). (t', d', w)) ws"
    for t' d' :: u8 and ws :: "(u32 \<times> u32) list"
    by (induction ws) auto
  moreover have "butlast (rev d) = rev (tl d)" for d :: "u32 list" by (cases d) simp_all
  ultimately show ?thesis
    by (simp only: route_between_def Let_def assms map_append list.map prod.case map_fst_zip_tl append_Cons append_Nil)
qed

lemma focus_route_windows:
  assumes "fsKind from = FocusWindow" "fsWindow from = a" "fsKind to = FocusWindow" "fsWindow to = b"
  shows "is_descendant s b a = Some True \<Longrightarrow> focus_route s p from to =
      then_route (pointer_out s p a b False) (then_route (Some ([(10, 2, a)], True))
        (then_route (focus_down s 1 b a) (Some ([(9, 0, b)], True))))" (is "_ \<Longrightarrow> ?down")
    and "is_descendant s b a = Some False \<Longrightarrow> is_descendant s a b = Some True \<Longrightarrow> focus_route s p from to =
      then_route (Some ([(10, 0, a)], True)) (then_route (focus_up s 1 a b)
        (then_route (Some ([(9, 2, b)], True)) (pointer_in s p b a False)))" (is "_ \<Longrightarrow> _ \<Longrightarrow> ?up")
    and "is_descendant s b a = Some False \<Longrightarrow> is_descendant s a b = Some False \<Longrightarrow>
      common_ancestor s a b = Some c \<Longrightarrow> c \<noteq> 0 \<Longrightarrow> focus_route s p from to =
      then_route (pointer_out s p a 0 False) (then_route (Some ([(10, 3, a)], True))
        (then_route (focus_up s 4 a c) (then_route (focus_down s 4 b c)
          (then_route (Some ([(9, 3, b)], True)) (pointer_in s p b 0 False)))))"
      (is "_ \<Longrightarrow> _ \<Longrightarrow> _ \<Longrightarrow> _ \<Longrightarrow> ?apart")
proof -
  show "is_descendant s b a = Some True \<Longrightarrow> ?down" by (simp add: focus_route_def assms)
  show "is_descendant s b a = Some False \<Longrightarrow> is_descendant s a b = Some True \<Longrightarrow> ?up"
    by (simp add: focus_route_def assms)
  show "is_descendant s b a = Some False \<Longrightarrow> is_descendant s a b = Some False \<Longrightarrow>
      common_ancestor s a b = Some c \<Longrightarrow> c \<noteq> 0 \<Longrightarrow> ?apart"
    by (simp add: focus_route_def assms)
qed

lemma focus_between_windows:
  assumes ok: "tree_ok s" and ps: "lineage s p ps" and xs: "lineage s a xs" and ys: "lineage s b ys"
    and ne: "a \<noteq> b" and kinds: "fsKind from = FocusWindow" "fsWindow from = a" "fsKind to = FocusWindow" "fsWindow to = b"
  shows "focus_route s p from to = Some (focus_between ps xs ys, True)"
proof -
  obtain up down c zs where split: "xs = up @ c # zs" "ys = down @ c # zs"
      "set up \<inter> set ys = {}" "set down \<inter> set xs = {}"
    and takes: "takeWhile (\<lambda>w. w \<notin> set ys) xs = up" "takeWhile (\<lambda>w. w \<notin> set xs) ys = down"
    using lineage_split [OF ok xs ys] by metis
  have heads: "hd ps = p" "hd xs = a" "hd ys = b" and wins: "window s a \<noteq> None" "window s b \<noteq> None" "a \<noteq> 0" "b \<noteq> 0"
    and cons: "xs = a # tl xs" "ys = b # tl ys"
    using lineage_start [OF ok ps] lineage_start [OF ok xs] lineage_start [OF ok ys] by auto
  have desc: "is_descendant s b a = Some (a \<in> set (tl ys))" "is_descendant s a b = Some (b \<in> set (tl xs))"
    using is_descendant_lineage [OF ok] xs ys cons by metis+
  note out = pointer_out_lineage [OF ok ps _ wins(1)] and "in" = pointer_in_lineage [OF ok ps]
  have out0: "pointer_out s p a 0 False = Some (map (\<lambda>w. (10, 5, w)) (pointer_below ps a), True)"
    and in0: "pointer_in s p b 0 False = Some (map (\<lambda>w. (9, 5, w)) (rev (pointer_below ps b)), True)"
    using out [of 0] "in" [of 0] by simp_all
  note routes = focus_route_windows [OF kinds, where s = s and p = p]
  note defs = focus_between_def route_between_windows [OF takes] Let_def heads
  show ?thesis
  proof (cases "up = []")
    case True
    then have "a = c" using split(1) cons(1) by simp
    moreover have "down \<noteq> []" using True split cons ne by auto
    ultimately have m: "a \<in> set (tl ys)" "a \<in> set ys" "b \<notin> set xs"
      using split(2,4) heads(3) by (cases down; auto)+
    have "focus_down s 1 b a = Some (map (\<lambda>w. (9, 1, w)) (butlast (rev down)), True)"
      using focus_down_to [OF ok] ys split(2) \<open>a = c\<close> by simp
    moreover have "pointer_out s p a b False = Some (map (\<lambda>w. (10, 5, w))
        (if b \<in> set (tl ps) \<or> p \<in> set (tl ys) then [] else pointer_below ps a), True)"
      using out [OF ys] wins(4) by simp
    ultimately have "focus_route s p from to = Some (map (\<lambda>w. (10, 5, w))
        (if b \<in> set (tl ps) \<or> p \<in> set (tl ys) then [] else pointer_below ps a) @
        (10, 2, a) # map (\<lambda>w. (9, 1, w)) (rev (tl down)) @ [(9, 0, b)], True)"
      using routes(1) desc m by simp
    with True m \<open>down \<noteq> []\<close> show ?thesis by (simp add: defs)
  next
    case upne: False
    have "a \<in> set up" using heads(2) split(1) upne by (cases up) auto
    then have m: "a \<notin> set ys" "a \<notin> set (tl ys)" using split(3) list.set_sel(2) [of ys a] by (cases ys; auto)+
    show ?thesis
    proof (cases "down = []")
      case True
      then have c: "c = b" using split(2) cons(2) by simp
      then have m2: "b \<in> set (tl xs)" "b \<in> set xs" using upne split(1) by (cases up; auto)+
      have "focus_up s 1 a b = Some (map (\<lambda>w. (10, 1, w)) (tl up), True)"
        using focus_up_to [OF ok _ upne, of a b zs] xs split(1) c by simp
      with True upne m m2 wins show ?thesis using "in" [of a xs b] xs by (simp add: desc routes(2) defs)
    next
      case False
      have "b \<in> set down" using heads(3) split(2) False by (cases down) auto
      then have m2: "b \<notin> set xs" "b \<notin> set (tl xs)" using split(4) by (cases xs; auto)+
      have "common_ancestor s a b = Some c"
        by (rule common_ancestor_lineage [OF ok, of b "tl ys" a up c zs, folded cons(2)]) (use ys xs split in auto)
      moreover have "c \<noteq> 0" using lineage_windows [OF ok xs, of c] split(1) by auto
      moreover have "focus_up s 4 a c = Some (map (\<lambda>w. (10, 4, w)) (tl up), True)"
        using focus_up_to [OF ok _ upne, of a c zs] xs split(1) by simp
      moreover have "focus_down s 4 b c = Some (map (\<lambda>w. (9, 4, w)) (butlast (rev down)), True)"
        using focus_down_to [OF ok] ys split(2) by simp
      ultimately show ?thesis using False upne m m2 by (simp add: desc routes(3) [where c = c] defs out0 in0)
    qed
  qed
qed

lemma pointer_special:
  assumes ok: "tree_ok s" and ps: "lineage s p ps"
  shows "pointer_out s p root_window_id 0 True = Some (map (\<lambda>w. (10, 5, w)) ps, True)"
    and "pointer_in s p root_window_id 0 True = Some (map (\<lambda>w. (9, 5, w)) (rev ps), True)"
proof -
  have root: "root_window_id \<in> set ps" by (rule lineage_root_last [OF ps])
  obtain r where r: "window s root_window_id = Some r" "wnParent r = 0" using tree_okD(3) [OF ok] by blast
  have e: "pointer_elsewhere s p root_window_id 0 = Some False"
    using root by (simp add: pointer_elsewhere_lineage [OF ok ps])
  show "pointer_out s p root_window_id 0 True = Some (map (\<lambda>w. (10, 5, w)) ps, True)"
    using r by (simp add: pointer_out_def e path_up_zero [OF ok ps])
  obtain q where q: "ps = q @ [root_window_id]" using lineage_ends [OF ps] by blast
  then have "path_up s p root_window_id = Some (q, True)" using path_up_lineage [OF ok, of p q root_window_id "[]"] ps by simp
  moreover have "p \<noteq> 0" using lineage_start [OF ok ps] by simp
  ultimately show "pointer_in s p root_window_id 0 True = Some (map (\<lambda>w. (9, 5, w)) (rev ps), True)"
    by (simp add: pointer_in_def e q)
qed

lemma focus_route_lineages:
  assumes ok: "tree_ok s" and ps: "lineage s p ps" and ne: "\<not> same_focus from to"
    and xs: "fsKind from = FocusWindow \<Longrightarrow> lineage s (fsWindow from) xs"
    and ys: "fsKind to = FocusWindow \<Longrightarrow> lineage s (fsWindow to) ys"
  shows "focus_route s p from to =
    Some (if fsKind from = FocusWindow \<and> fsKind to = FocusWindow then focus_between ps xs ys
          else focus_leave (fsKind from) ps xs @ focus_enter (fsKind to) ps ys, True)"
proof (cases "fsKind from = FocusWindow"; cases "fsKind to = FocusWindow")
  assume k: "fsKind from = FocusWindow" "fsKind to = FocusWindow"
  with ne have "fsWindow from \<noteq> fsWindow to" by (simp add: same_focus_def)
  from focus_between_windows [OF ok ps xs [OF k(1)] ys [OF k(2)] this k(1) refl k(2) refl] k show ?thesis by simp
next
  assume k: "fsKind from = FocusWindow" "fsKind to \<noteq> FocusWindow"
  note x = lineage_start [OF ok xs [OF k(1)]]
  have "focus_up s 4 (fsWindow from) 0 = Some (map (\<lambda>w. (10, 4, w)) (tl xs), True)"
    using focus_up_root [OF ok, of "fsWindow from" "tl xs"] xs [OF k(1)] x by simp
  with k x show ?thesis
    by (simp add: focus_route_def Let_def focus_leave_def focus_enter_def pointer_special [OF ok ps]
        pointer_out_lineage [OF ok ps])
next
  assume k: "fsKind from \<noteq> FocusWindow" "fsKind to = FocusWindow"
  note y = lineage_start [OF ok ys [OF k(2)]]
  have down: "(if fsWindow to \<noteq> root_window_id
      then then_route (Some ([(9, 4, root_window_id)], True)) (focus_down s 4 (fsWindow to) root_window_id)
      else Some ([], True)) = Some (map (\<lambda>w. (9, 4, w)) (rev (tl ys)), True)"
  proof (cases "fsWindow to = root_window_id")
    case True
    then have "ys = [root_window_id]" using ys [OF k(2)] lineage.top lineage_unique by metis
    with True show ?thesis by simp
  next
    case False
    obtain q where q: "ys = q @ [root_window_id]" using lineage_ends [OF ys [OF k(2)]] by blast
    with False y have "q \<noteq> []" by (cases q) auto
    with False q focus_down_to [OF ok, of "fsWindow to" q root_window_id "[]"] ys [OF k(2)] show ?thesis by simp
  qed
  from k y show ?thesis
    by (simp add: focus_route_def Let_def focus_leave_def focus_enter_def pointer_special [OF ok ps]
        pointer_in_lineage [OF ok ps] down)
next
  assume k: "fsKind from \<noteq> FocusWindow" "fsKind to \<noteq> FocusWindow"
  then show ?thesis
    by (simp add: focus_route_def Let_def focus_leave_def focus_enter_def pointer_special [OF ok ps])
qed

subsection \<open>The focus events\<close>

lemma child_below_returns:
  assumes ok: "tree_ok s"
  shows "\<exists>c. child_below s d k = Some c"
proof (cases "window s k")
  case None
  then show ?thesis by (simp add: child_below.simps)
next
  case (Some w)
  then obtain xs where "lineage s k xs" using lineage_exists [OF ok] by blast
  then show ?thesis
  proof (induction rule: lineage.induct)
    case top
    obtain r where "window s root_window_id = Some r" "wnParent r = 0" using tree_okD(3) [OF ok] by blast
    then show ?case
      by (subst child_below.simps) (simp add: child_below.simps [of s d 0] root_window_id_def)
  next
    case (above k w xs)
    then show ?case by (subst child_below.simps) auto
  qed
qed

lemma focus_stop_returns:
  assumes ok: "tree_ok s" and w: "window s k \<noteq> None"
  shows "\<exists>es. focus_stop s mode p (event_type, detail, k) = Some (Some es)"
proof -
  obtain v where v: "window s k = Some v" using w by blast
  obtain o1 o2 where "absolute_position s k = Some (o1, o2)" using absolute_position_returns [OF ok v] by blast
  moreover obtain c where "child_below s k p = Some c" using child_below_returns [OF ok] by blast
  ultimately show ?thesis using v by (simp add: focus_stop_def event_child_def Let_def)
qed

lemma plan_focus_returns:
  assumes "\<And>x. x \<in> set xs \<Longrightarrow> \<exists>es. event x = Some (Some es)"
  shows "\<exists>es. plan_focus event xs = Some (es, True)"
  using assms
proof (induction xs)
  case (Cons x xs)
  then obtain e es where "event x = Some (Some e)" "plan_focus event xs = Some (es, True)" by fastforce
  then show ?case by simp
qed simp

definition focus_stops ::
  "u8 \<Rightarrow> focus_state \<Rightarrow> focus_state \<Rightarrow> u32 list \<Rightarrow> u32 list \<Rightarrow> u32 list \<Rightarrow> (u8 \<times> u8 \<times> u32) list" where
  "focus_stops mode from to ps xs ys =
     (if same_focus from to
      then (if fsKind from = FocusWindow \<and> (mode = 1 \<or> mode = 2)
            then [(10, 3, fsWindow from), (9, 3, fsWindow from)] else [])
      else if fsKind from = FocusWindow \<and> fsKind to = FocusWindow then focus_between ps xs ys
      else focus_leave (fsKind from) ps xs @ focus_enter (fsKind to) ps ys)"

lemma in_set_tlD: "x \<in> set (tl zs) \<Longrightarrow> x \<in> set zs"
  by (cases zs) auto

lemma route_between_stops: "xs \<noteq> [] \<Longrightarrow> ys \<noteq> [] \<Longrightarrow>
  (\<lambda>(t, d, w). w) ` set (map (\<lambda>(t, d, w, c). (t, d, w)) (route_between leave enter xs ys)) \<subseteq> set xs \<union> set ys"
  unfolding route_between_windows [OF refl refl] Let_def
  by (auto dest!: in_set_tlD set_takeWhileD)

lemma focus_stops_windows:
  assumes "xs \<noteq> []" "ys \<noteq> []" "ps \<noteq> []" "fsKind from = FocusWindow \<Longrightarrow> hd xs = fsWindow from"
    and "(t, d, w) \<in> set (focus_stops mode from to ps xs ys)"
  shows "w \<in> set xs \<union> set ys \<union> set ps \<union> {root_window_id}"
proof -
  have below: "set (pointer_below ps a) \<subseteq> set ps" for a
    by (auto simp: pointer_below_def dest: set_takeWhileD)
  have tls: "set (tl zs) \<subseteq> set zs" for zs :: "u32 list" by (auto dest: in_set_tlD)
  show ?thesis
  proof (cases "same_focus from to")
    case True
    with assms have "w = hd xs" by (auto simp: focus_stops_def split: if_splits)
    with assms(1) show ?thesis by simp
  next
    case False
    define A where "A = map (\<lambda>(t, d, w, c). (t, d, w)) (route_between 10 9 xs ys)"
    have "\<exists>l e. focus_between ps xs ys = map (\<lambda>w. (10, 5, w)) l @ A @ map (\<lambda>w. (9, 5, w)) (rev e) \<and>
        set l \<subseteq> set ps \<and> set e \<subseteq> set ps"
      unfolding focus_between_def Let_def A_def by (intro exI conjI, rule refl) (use below in auto)
    then obtain l e where le: "focus_between ps xs ys = map (\<lambda>w. (10, 5, w)) l @ A @ map (\<lambda>w. (9, 5, w)) (rev e)"
      "set l \<subseteq> set ps" "set e \<subseteq> set ps" by blast
    have "(t, d, w) \<in> set A \<Longrightarrow> w \<in> set xs \<union> set ys"
      using route_between_stops [OF assms(1,2), of 10 9, folded A_def] by force
    then have b: "(t, d, w) \<in> set (focus_between ps xs ys) \<Longrightarrow> w \<in> set xs \<union> set ys \<union> set ps"
      using le by auto
    have l: "(t, d, w) \<in> set (focus_leave k ps xs) \<Longrightarrow> w \<in> set xs \<union> set ps \<union> {root_window_id}" for k
      using below tls assms(1) by (fastforce simp: focus_leave_def split: if_splits)
    have e: "(t, d, w) \<in> set (focus_enter k ps ys) \<Longrightarrow> w \<in> set ys \<union> set ps \<union> {root_window_id}" for k
      using below tls assms(2) by (fastforce simp: focus_enter_def split: if_splits)
    from False assms(5) b l e show ?thesis by (auto simp: focus_stops_def split: if_splits)
  qed
qed

lemma append_focus_returns:
  assumes ok: "tree_ok s" and p: "window s p \<noteq> None"
    and wins: "fsKind from = FocusWindow \<Longrightarrow> window s (fsWindow from) \<noteq> None"
      "fsKind to = FocusWindow \<Longrightarrow> window s (fsWindow to) \<noteq> None"
  shows "\<exists>ps xs ys es. lineage s p ps \<and> (fsKind from = FocusWindow \<longrightarrow> lineage s (fsWindow from) xs) \<and>
    (fsKind to = FocusWindow \<longrightarrow> lineage s (fsWindow to) ys) \<and>
    plan_focus (focus_stop s mode p) (focus_stops mode from to ps xs ys) = Some (es, True) \<and>
    append_focus_events s from to mode p events = Some (if es = [] then NoRecipient else Delivered, events @ es)"
proof -
  obtain ps where ps: "lineage s p ps" using lineage_exists [OF ok p] by blast
  have "\<exists>xs k. lineage s k xs \<and> (f \<longrightarrow> k = w)" if "f \<Longrightarrow> window s w \<noteq> None" for f w
    using that lineage_exists [OF ok] lineage.top by (cases f) blast+
  then obtain xs xk ys yk where l: "lineage s xk xs" "lineage s yk ys"
      "fsKind from = FocusWindow \<Longrightarrow> xk = fsWindow from" "fsKind to = FocusWindow \<Longrightarrow> yk = fsWindow to"
    using wins by metis
  let ?stops = "focus_stops mode from to ps xs ys"
  have "\<exists>es. focus_stop s mode p x = Some (Some es)" if x: "x \<in> set ?stops" for x
  proof -
    obtain t d w where tdw: "x = (t, d, w)" by (cases x)
    have "w \<in> set xs \<union> set ys \<union> set ps \<union> {root_window_id}"
      by (rule focus_stops_windows [of xs ys ps _ t d w mode])
        (use lineage_start [OF ok l(1)] lineage_start [OF ok l(2)] lineage_start [OF ok ps] l(3) x tdw in auto)
    then have "window s w \<noteq> None"
      using lineage_windows [OF ok l(1)] lineage_windows [OF ok l(2)] lineage_windows [OF ok ps]
        lineage_windows [OF ok lineage.top] by fastforce
    then show ?thesis using focus_stop_returns [OF ok] tdw by simp
  qed
  then obtain es where es: "plan_focus (focus_stop s mode p) ?stops = Some (es, True)"
    using plan_focus_returns by blast
  have "append_focus_events s from to mode p events = Some (if es = [] then NoRecipient else Delivered, events @ es)"
  proof (cases "same_focus from to")
    case True
    with es show ?thesis by (auto simp: append_focus_events_def focus_stops_def simp del: plan_focus.simps(2) split: if_splits)
  next
    case False
    have lin: "fsKind from = FocusWindow \<Longrightarrow> lineage s (fsWindow from) xs"
      "fsKind to = FocusWindow \<Longrightarrow> lineage s (fsWindow to) ys" using l by metis+
    have "focus_route s p from to = Some (?stops, True)"
      using focus_route_lineages [OF ok ps False lin] False by (simp add: focus_stops_def)
    with False es show ?thesis by (simp add: append_focus_events_def)
  qed
  with ps l es show ?thesis by blast
qed

text \<open>C15. Focus events follow the tree.  On a well-formed tree the planning ends and never fails.  A
  focus that does not move tells nobody, except its own window when a grab begins or ends; between
  two windows the route is the one of a crossing, with the pointer's windows told before and after;
  from or to the root or nothing, the root is told with the special detail and every ancestor of
  the window virtually.  The planned events are those of the stops, in order.\<close>

theorem focus_events_exact:
  assumes ok: "tree_ok s" and p: "window s p \<noteq> None"
    and wins: "fsKind from = FocusWindow \<Longrightarrow> window s (fsWindow from) \<noteq> None"
      "fsKind to = FocusWindow \<Longrightarrow> window s (fsWindow to) \<noteq> None"
  shows "\<exists>ps xs ys es. lineage s p ps \<and> (fsKind from = FocusWindow \<longrightarrow> lineage s (fsWindow from) xs) \<and>
    (fsKind to = FocusWindow \<longrightarrow> lineage s (fsWindow to) ys) \<and>
    plan_focus (focus_stop s mode p) (focus_stops mode from to ps xs ys) = Some (es, True) \<and>
    append_focus_events s from to mode p events = Some (if es = [] then NoRecipient else Delivered, events @ es)"
  by (rule append_focus_returns [OF assms])

theorem focus_events_exact_witness:
  "\<exists>d es. append_focus_events two_children_state
     \<lparr>fsKind = FocusWindow, fsWindow = 7, fsChangedAt = 1, fsRevertTo = 0\<rparr>
     \<lparr>fsKind = FocusPointerRoot, fsWindow = 0, fsChangedAt = 1, fsRevertTo = 0\<rparr> 0 7 [] = Some (d, es) \<and>
     d \<noteq> QueueFull"
proof -
  let ?f = "\<lparr>fsKind = FocusWindow, fsWindow = 7, fsChangedAt = 1, fsRevertTo = 0\<rparr>"
  let ?t = "\<lparr>fsKind = FocusPointerRoot, fsWindow = 0, fsChangedAt = 1, fsRevertTo = 0\<rparr>"
  have w: "window two_children_state 7 \<noteq> None" by (simp add: two_children_window)
  have "fsKind ?f = FocusWindow \<Longrightarrow> window two_children_state (fsWindow ?f) \<noteq> None"
    "fsKind ?t = FocusWindow \<Longrightarrow> window two_children_state (fsWindow ?t) \<noteq> None" using w by simp_all
  from focus_events_exact [OF two_children_ok(1) w this, of 0 "[]"] show ?thesis by fastforce
qed

end
