(* ===== verification/Grabs.thy ===== *)
theory Grabs
  imports Cursors Crossing
begin

text \<open>
  The input focus and the active grabs (\<^verbatim>\<open>src/server/server_state.cpp\<close>): \<open>set_input_focus\<close>, the
  activation and deactivation of the pointer's and the keyboard's grab, and the routing of an input
  event to the clients that selected it (\<open>route_input_event\<close>).  Each change plans the crossing or
  focus events and the cursor notifications it causes, delivers them all or none, and commits only
  when they were delivered.
\<close>

subsection \<open>The operations\<close>

definition set_input_focus ::
  "focus_kind \<Rightarrow> u32 \<Rightarrow> nat \<Rightarrow> u32 \<Rightarrow> server_state \<Rightarrow> (focus_update \<times> server_state) option" where
  "set_input_focus kind w revert_to time s =
     (let effective = (if time = 0 then ssCurrentTime s else time);
          focus = inFocus (ssInput s)
      in if later_than effective (ssCurrentTime s) \<or> earlier_than effective (fsChangedAt focus)
         then Some (FocusIgnored, s)
         else
           let next = focus\<lparr>fsKind := kind, fsWindow := (if kind = FocusWindow then w else 0),
                 fsChangedAt := effective, fsRevertTo := revert_to\<rparr>
           in Option.bind (pointer_window s) (\<lambda>pointer.
                Option.bind (append_focus_events s focus next 0 pointer []) (\<lambda>(delivery, events).
                  if delivery = QueueFull then Some (FocusQueueFull, s)
                  else let (queued, s1) = queue_events_atomically events s
                       in Some (if \<not> queued then (FocusQueueFull, s1)
                                else (FocusUpdated, s1\<lparr>ssInput := (ssInput s1)\<lparr>inFocus := next\<rparr>\<rparr>)))))"

text \<open>The end both changes of the pointer grab share: the cursor's change joins the crossing events,
  all are delivered, and the change is committed with the cursor it brings.\<close>

definition commit_pointer_change ::
  "(input_state \<Rightarrow> input_state) \<Rightarrow> event_delivery \<Rightarrow> planned_event list \<Rightarrow> cursor_ref \<Rightarrow> server_state \<Rightarrow>
     event_delivery \<times> server_state" where
  "commit_pointer_change change crossing events shape s =
     (let (shown, all_events) = (if crossing = QueueFull then (QueueFull, events)
                                 else append_cursor_change s shape events)
      in if crossing = QueueFull \<or> shown = QueueFull then (QueueFull, s)
         else let (queued, s1) = queue_events_atomically all_events s
              in if \<not> queued then (QueueFull, s1)
                 else (if shown = Delivered then shown else crossing,
                       s1\<lparr>ssInput := change (ssInput s1), ssDisplayedCursor := shape\<rparr>))"

definition activate_pointer_grab :: "active_grab \<Rightarrow> server_state \<Rightarrow> (event_delivery \<times> server_state) option" where
  "activate_pointer_grab g s =
     (let i = ssInput s
      in Option.bind (pointer_window s) (\<lambda>pointer.
           Option.bind (append_crossing_events s (case inPointerGrab i of None \<Rightarrow> pointer | Some old \<Rightarrow> agWindow old)
               (agWindow g) (inPointerX i) (inPointerY i) (inModifierButtonMask i) 1 None (inFocus i) [])
             (\<lambda>(crossing, events).
               Option.bind (current_cursor_for s pointer (Some g)) (\<lambda>shape.
                 Some (commit_pointer_change
                   (\<lambda>j. j\<lparr>inPointerGrabTime := agActivatedAt g, inPointerGrab := Some g\<rparr>)
                   crossing events shape s)))))"

definition deactivate_pointer_grab :: "server_state \<Rightarrow> (event_delivery \<times> server_state) option" where
  "deactivate_pointer_grab s =
     (let i = ssInput s
      in case inPointerGrab i of
           None \<Rightarrow> Some (NoRecipient, s)
         | Some g \<Rightarrow>
             Option.bind (pointer_window s) (\<lambda>pointer.
               Option.bind (append_crossing_events s (agWindow g) pointer (inPointerX i) (inPointerY i)
                   (inModifierButtonMask i) 2 None (inFocus i) []) (\<lambda>(crossing, events).
                 Option.bind (current_cursor_for s pointer None) (\<lambda>shape.
                   Some (commit_pointer_change
                     (\<lambda>j. j\<lparr>inPointerGrab := None, inFrozenPointerEvent := None\<rparr>)
                     crossing events shape s)))))"

definition commit_keyboard_change ::
  "(input_state \<Rightarrow> input_state) \<Rightarrow> event_delivery \<Rightarrow> planned_event list \<Rightarrow> server_state \<Rightarrow>
     event_delivery \<times> server_state" where
  "commit_keyboard_change change focus events s =
     (if focus = QueueFull then (QueueFull, s)
      else let (queued, s1) = queue_events_atomically events s
           in if \<not> queued then (QueueFull, s1)
              else (focus, s1\<lparr>ssInput := change (ssInput s1)\<rparr>))"

definition activate_keyboard_grab :: "active_grab \<Rightarrow> server_state \<Rightarrow> (event_delivery \<times> server_state) option" where
  "activate_keyboard_grab g s =
     (let i = ssInput s;
          old_focus = (case inKeyboardGrab i of
                         None \<Rightarrow> inFocus i
                       | Some old \<Rightarrow> (inFocus i)\<lparr>fsKind := FocusWindow, fsWindow := agWindow old\<rparr>);
          grabbed = (inFocus i)\<lparr>fsKind := FocusWindow, fsWindow := agWindow g\<rparr>
      in Option.bind
           (if inKeyboardGrab i = None \<or> fsWindow old_focus \<noteq> agWindow g
            then Option.bind (pointer_window s) (\<lambda>pointer. append_focus_events s old_focus grabbed 1 pointer [])
            else Some (NoRecipient, []))
           (\<lambda>(focus, events). Some (commit_keyboard_change
              (\<lambda>j. j\<lparr>inKeyboardGrabTime := agActivatedAt g, inKeyboardGrab := Some g\<rparr>) focus events s)))"

definition deactivate_keyboard_grab :: "server_state \<Rightarrow> (event_delivery \<times> server_state) option" where
  "deactivate_keyboard_grab s =
     (let i = ssInput s
      in case inKeyboardGrab i of
           None \<Rightarrow> Some (NoRecipient, s)
         | Some g \<Rightarrow>
             Option.bind (pointer_window s) (\<lambda>pointer.
               Option.bind (append_focus_events s ((inFocus i)\<lparr>fsKind := FocusWindow, fsWindow := agWindow g\<rparr>)
                   (inFocus i) 2 pointer []) (\<lambda>(focus, events).
                 Some (commit_keyboard_change (\<lambda>j. j\<lparr>inKeyboardGrab := None\<rparr>) focus events s))))"

subsection \<open>Routing an input event\<close>

text \<open>The child of \<open>destination\<close> on the way to \<open>child\<close>, or 0.\<close>

partial_function (option) routed_child :: "server_state \<Rightarrow> u32 \<Rightarrow> u32 \<Rightarrow> u32 option" where
  "routed_child s destination child =
     (if child = 0 \<or> child = destination then Some 0
      else (case window s child of
              None \<Rightarrow> Some 0
            | Some w \<Rightarrow> if wnParent w = destination then Some child
                        else routed_child s destination (wnParent w)))"

definition routed_event :: "server_state \<Rightarrow> core_input_event \<Rightarrow> u32 \<Rightarrow> u32 \<Rightarrow> core_input_event option" where
  "routed_event s event pointer destination =
     Option.bind (absolute_position s destination) (\<lambda>(ox, oy).
       Option.bind (routed_child s destination pointer) (\<lambda>child.
         Some (event\<lparr>ivEvent := destination, ivEventX := wire_coordinate (ivRootX event - ox),
           ivEventY := wire_coordinate (ivRootY event - oy), ivChild := child\<rparr>)))"

definition selected_clients :: "window_record \<Rightarrow> u32 \<Rightarrow> active_grab option \<Rightarrow> u32 list" where
  "selected_clients w bits grab =
     map fst (filter (\<lambda>e. snd e AND bits \<noteq> 0 \<and> (case grab of None \<Rightarrow> True | Some g \<Rightarrow> fst e = agOwner g))
       (wnEventMasks w))"

partial_function (option) route_walk ::
  "server_state \<Rightarrow> window_record option \<Rightarrow> u32 \<Rightarrow> u32 \<Rightarrow> active_grab option \<Rightarrow> (u32 \<times> u32 list) option option" where
  "route_walk s candidate bits stop grab =
     (case candidate of
        None \<Rightarrow> Some None
      | Some w \<Rightarrow>
          if selected_clients w bits grab \<noteq> [] then Some (Some (wnId w, selected_clients w bits grab))
          else if wnId w = stop \<or> wnParent w = 0 then Some None
          else if bits AND NOT (ucast (wnDoNotPropagateMask w)) = 0 then Some None
          else route_walk s (window s (wnParent w)) (bits AND NOT (ucast (wnDoNotPropagateMask w))) stop grab)"

text \<open>The destination: the walk's, else the grab window when the grab selects the event.\<close>

definition route_destination ::
  "server_state \<Rightarrow> u32 \<Rightarrow> u32 \<Rightarrow> u32 \<Rightarrow> active_grab option \<Rightarrow> (u32 \<times> u32 list) option option" where
  "route_destination s bits source stop grab =
     (let forced = (case grab of
                      None \<Rightarrow> None
                    | Some g \<Rightarrow> if agXi2 g \<or> agEventMask g AND bits = 0 then None
                                else Some (agWindow g, [agOwner g]))
      in if (case grab of None \<Rightarrow> False | Some g \<Rightarrow> \<not> agOwnerEvents g) then Some forced
         else Option.bind (route_walk s (window s source) bits stop grab) (\<lambda>found.
                Some (case found of None \<Rightarrow> forced | Some d \<Rightarrow> Some d)))"

definition route_input_event ::
  "server_state \<Rightarrow> core_input_event \<Rightarrow> u32 \<Rightarrow> u32 \<Rightarrow> u32 \<Rightarrow> u32 \<Rightarrow> active_grab option \<Rightarrow> planned_event list \<Rightarrow>
     (event_delivery \<times> planned_event list) option" where
  "route_input_event s event bits source stop pointer grab events =
     Option.bind (route_destination s bits source stop grab) (\<lambda>found.
       case found of
         None \<Rightarrow> Some (NoRecipient, events)
       | Some (destination, recipients) \<Rightarrow>
           Option.bind (routed_event s event pointer destination) (\<lambda>routed.
             Some (Delivered, events @ map (\<lambda>c. (c, EvInput (CoreInput routed))) recipients)))"

subsection \<open>Held windows\<close>

text \<open>The focus and the grabs hold windows that exist.\<close>

definition input_ok :: "server_state \<Rightarrow> bool" where
  "input_ok s \<longleftrightarrow>
     (fsKind (inFocus (ssInput s)) = FocusWindow \<longrightarrow> window s (fsWindow (inFocus (ssInput s))) \<noteq> None) \<and>
     (\<forall>g. inPointerGrab (ssInput s) = Some g \<longrightarrow> window s (agWindow g) \<noteq> None) \<and>
     (\<forall>g. inKeyboardGrab (ssInput s) = Some g \<longrightarrow> window s (agWindow g) \<noteq> None)"

lemma pointer_window_exists:
  assumes "tree_ok s"
  shows "\<exists>p. pointer_window s = Some p \<and> window s p \<noteq> None"
proof -
  have "window s root_window_id \<noteq> None" using tree_okD(3) [OF assms] by auto
  from deepest_window_at_descends [OF assms this] show ?thesis unfolding pointer_window_def by fastforce
qed

lemma append_cursor_change_eq:
  "append_cursor_change s c events = (fst (append_cursor_change s c []), events @ cursor_notices s c)"
  "fst (append_cursor_change s c events) \<noteq> QueueFull"
  by (simp_all add: append_cursor_change_def Let_def)

text \<open>The end of a change of the pointer grab: it is atomic, and the cursor it shows is the one in
  force afterwards when it was computed for the pointer grab the change leaves.\<close>

lemma commit_pointer_change_run:
  assumes ok: "tree_ok s" "queues_ok s" and ne: "crossing \<noteq> QueueFull"
    and p: "pointer_window s = Some p" and c: "current_cursor_for s p grab = Some c"
    and change: "\<And>j. inPointerX (change j) = inPointerX j" "\<And>j. inPointerY (change j) = inPointerY j"
      "\<And>j. inPointerGrab (change j) = grab"
    and run: "commit_pointer_change change crossing events c s = (r, s')"
  shows "queues_ok s' \<and> (if r = QueueFull then s' = s
    else cursor_shown s' \<and> ssDisplayedCursor s' = c \<and> ssInput s' = change (ssInput s) \<and> ssWindows s' = ssWindows s \<and>
      (\<forall>k. queued_events s' k = queued_events s k @ stamped_for s k (events @ cursor_notices s c)))"
proof -
  obtain d where d: "append_cursor_change s c events = (d, events @ cursor_notices s c)" "d \<noteq> QueueFull"
    using append_cursor_change_eq [of s c events] by (cases "append_cursor_change s c events") auto
  obtain q s1 where q: "queue_events_atomically (events @ cursor_notices s c) s = (q, s1)" by fastforce
  have res: "(r, s') = (if \<not> q then (QueueFull, s1)
      else (if d = Delivered then d else crossing, s1\<lparr>ssInput := change (ssInput s1), ssDisplayedCursor := c\<rparr>))"
    using run d ne q by (simp add: commit_pointer_change_def)
  from ok(2) q show ?thesis
  proof (cases rule: queue_run)
    case refused
    with res ok(2) show ?thesis by simp
  next
    case (accepted eq n)
    have s': "s' = s1\<lparr>ssInput := change (ssInput s1), ssDisplayedCursor := c\<rparr>" "r \<noteq> QueueFull"
      using res accepted(1) d(2) ne by (auto split: if_splits)
    have same: "recursored (\<lambda>c. c) s s'" by (rule recursored_same) (simp add: s' accepted(2))
    have "pointer_window s' = Some p" by (rule pointer_window_recursored [OF same _ _ p]) (simp_all add: s' accepted(2) change)
    moreover have "current_cursor_for s' p grab = Some c"
      using current_cursor_for_recursored [OF same _ c] by (simp add: option.map_ident)
    ultimately have "cursor_shown s'" by (simp add: cursor_shown_def current_cursor_def s' change)
    moreover have "queues_ok s'" using accepted(3) by (simp add: s' queues_ok_def)
    moreover have "queued_events s' k = queued_events s1 k" for k by (simp add: s' queued_events_def)
    ultimately show ?thesis using s' accepted(2,4) by simp
  qed
qed

lemma commit_keyboard_change_run:
  assumes ok: "queues_ok s" and ne: "focus \<noteq> QueueFull"
    and run: "commit_keyboard_change change focus events s = (r, s')"
  shows "queues_ok s' \<and> (if r = QueueFull then s' = s
    else r = focus \<and> ssInput s' = change (ssInput s) \<and> ssWindows s' = ssWindows s \<and> ssDisplayedCursor s' = ssDisplayedCursor s \<and>
      (\<forall>k. queued_events s' k = queued_events s k @ stamped_for s k events))"
proof -
  obtain q s1 where q: "queue_events_atomically events s = (q, s1)" by fastforce
  have res: "(r, s') = (if \<not> q then (QueueFull, s1) else (focus, s1\<lparr>ssInput := change (ssInput s1)\<rparr>))"
    using run ne q by (simp add: commit_keyboard_change_def)
  from ok q show ?thesis
  proof (cases rule: queue_run)
    case refused
    with res ok show ?thesis by simp
  next
    case (accepted eq n)
    then have s': "s' = s1\<lparr>ssInput := change (ssInput s1)\<rparr>" "r = focus" using res by auto
    have "queued_events s' k = queued_events s1 k" for k by (simp add: s' queued_events_def)
    moreover have "queues_ok s'" using accepted(3) by (simp add: s' queues_ok_def)
    ultimately show ?thesis using s' ne accepted(2,4) by simp
  qed
qed

lemma pointer_grab_changes_run:
  assumes ok: "tree_ok s" "queues_ok s" "input_ok s" and w: "window s (agWindow g) \<noteq> None"
  defines "i \<equiv> ssInput s"
  shows "\<exists>p r1 s1 r2 s2 d1 es1. pointer_window s = Some p \<and>
    activate_pointer_grab g s = Some (r1, s1) \<and> deactivate_pointer_grab s = Some (r2, s2) \<and>
    queues_ok s1 \<and> input_ok s1 \<and> queues_ok s2 \<and> input_ok s2 \<and>
    append_crossing_events s (case inPointerGrab i of None \<Rightarrow> p | Some old \<Rightarrow> agWindow old) (agWindow g)
      (inPointerX i) (inPointerY i) (inModifierButtonMask i) 1 None (inFocus i) [] = Some (d1, es1) \<and>
    (if r1 = QueueFull then s1 = s
     else cursor_shown s1 \<and> ssInput s1 = i\<lparr>inPointerGrabTime := agActivatedAt g, inPointerGrab := Some g\<rparr> \<and>
       (\<forall>k. queued_events s1 k = queued_events s k @ stamped_for s k (es1 @ cursor_notices s (ssDisplayedCursor s1)))) \<and>
    (case inPointerGrab i of
       None \<Rightarrow> r2 = NoRecipient \<and> s2 = s
     | Some old \<Rightarrow> \<exists>d2 es2. append_crossing_events s (agWindow old) p
         (inPointerX i) (inPointerY i) (inModifierButtonMask i) 2 None (inFocus i) [] = Some (d2, es2) \<and>
         (if r2 = QueueFull then s2 = s
          else cursor_shown s2 \<and> ssInput s2 = i\<lparr>inPointerGrab := None, inFrozenPointerEvent := None\<rparr> \<and>
            (\<forall>k. queued_events s2 k =
               queued_events s k @ stamped_for s k (es2 @ cursor_notices s (ssDisplayedCursor s2)))))"
proof -
  obtain p where p: "pointer_window s = Some p" "window s p \<noteq> None" using pointer_window_exists [OF ok(1)] by blast
  have held: "inPointerGrab i = Some old \<Longrightarrow> window s (agWindow old) \<noteq> None" for old
    using ok(3) by (simp add: input_ok_def i_def)
  then have from_ok: "window s (case inPointerGrab i of None \<Rightarrow> p | Some old \<Rightarrow> agWindow old) \<noteq> None"
    using p(2) by (cases "inPointerGrab i") auto
  obtain d1 es1 where X1: "append_crossing_events s (case inPointerGrab i of None \<Rightarrow> p | Some old \<Rightarrow> agWindow old)
      (agWindow g) (inPointerX i) (inPointerY i) (inModifierButtonMask i) 1 None (inFocus i) [] = Some (d1, es1)"
    and d1: "d1 \<noteq> QueueFull" using append_crossing_returns [OF ok(1) from_ok w] by fastforce
  obtain c where c: "current_cursor_for s p (Some g) = Some c" using current_cursor_for_returns [OF ok(1)] by blast
  let ?ch = "\<lambda>j. j\<lparr>inPointerGrabTime := agActivatedAt g, inPointerGrab := Some g\<rparr>"
  obtain r1 s1 where R1: "commit_pointer_change ?ch d1 es1 c s = (r1, s1)" by fastforce
  have run1: "activate_pointer_grab g s = Some (r1, s1)"
    using p c X1 R1 by (simp add: activate_pointer_grab_def Let_def i_def)
  note C1 = commit_pointer_change_run [OF ok(1,2) d1 p(1) c _ _ _ R1, simplified]
  have "input_ok s1" using C1 ok(3) w by (cases "r1 = QueueFull") (auto simp: input_ok_def window_def)
  note one = run1 this C1
  show ?thesis
  proof (cases "inPointerGrab i")
    case None
    then have "deactivate_pointer_grab s = Some (NoRecipient, s)" by (simp add: deactivate_pointer_grab_def i_def)
    with None p X1 one ok show ?thesis by (simp add: i_def)
  next
    case (Some old)
    obtain d2 es2 where X2: "append_crossing_events s (agWindow old) p (inPointerX i) (inPointerY i)
        (inModifierButtonMask i) 2 None (inFocus i) [] = Some (d2, es2)"
      and d2: "d2 \<noteq> QueueFull" using append_crossing_returns [OF ok(1) held [OF Some] p(2)] by fastforce
    obtain c' where c': "current_cursor_for s p None = Some c'" using current_cursor_for_returns [OF ok(1)] by blast
    let ?ch' = "\<lambda>j. j\<lparr>inPointerGrab := None, inFrozenPointerEvent := None\<rparr>"
    obtain r2 s2 where R2: "commit_pointer_change ?ch' d2 es2 c' s = (r2, s2)" by fastforce
    have run2: "deactivate_pointer_grab s = Some (r2, s2)"
      using p c' X2 R2 Some by (simp add: deactivate_pointer_grab_def Let_def i_def)
    note C2 = commit_pointer_change_run [OF ok(1,2) d2 p(1) c' _ _ _ R2, simplified]
    have "input_ok s2" using C2 ok(3) by (cases "r2 = QueueFull") (auto simp: input_ok_def window_def)
    with Some p X1 X2 one run2 C2 show ?thesis by (simp add: i_def)
  qed
qed

text \<open>C31. Pointer grabs change hands in one step.  On a well-formed tree whose held windows exist,
  activating a grab on an existing window and releasing the active grab both return.  Either a
  queue was full and nothing changed, or the grab is the new one (or gone, with what it had
  frozen), the cursor shown is the one in force under it, the crossing events from the window that
  had the pointer to the one that gets it and the cursor notifications are in the queues, in that
  order and nothing else, and the rest of the input state is what it was.\<close>

theorem pointer_grab_changes:
  assumes ok: "tree_ok s" "queues_ok s" "input_ok s" and w: "window s (agWindow g) \<noteq> None"
  defines "i \<equiv> ssInput s"
  shows "\<exists>p r1 s1 r2 s2 d1 es1. pointer_window s = Some p \<and>
    activate_pointer_grab g s = Some (r1, s1) \<and> deactivate_pointer_grab s = Some (r2, s2) \<and>
    queues_ok s1 \<and> input_ok s1 \<and> queues_ok s2 \<and> input_ok s2 \<and>
    append_crossing_events s (case inPointerGrab i of None \<Rightarrow> p | Some old \<Rightarrow> agWindow old) (agWindow g)
      (inPointerX i) (inPointerY i) (inModifierButtonMask i) 1 None (inFocus i) [] = Some (d1, es1) \<and>
    (if r1 = QueueFull then s1 = s
     else cursor_shown s1 \<and> ssInput s1 = i\<lparr>inPointerGrabTime := agActivatedAt g, inPointerGrab := Some g\<rparr> \<and>
       (\<forall>k. queued_events s1 k = queued_events s k @ stamped_for s k (es1 @ cursor_notices s (ssDisplayedCursor s1)))) \<and>
    (case inPointerGrab i of
       None \<Rightarrow> r2 = NoRecipient \<and> s2 = s
     | Some old \<Rightarrow> \<exists>d2 es2. append_crossing_events s (agWindow old) p
         (inPointerX i) (inPointerY i) (inModifierButtonMask i) 2 None (inFocus i) [] = Some (d2, es2) \<and>
         (if r2 = QueueFull then s2 = s
          else cursor_shown s2 \<and> ssInput s2 = i\<lparr>inPointerGrab := None, inFrozenPointerEvent := None\<rparr> \<and>
            (\<forall>k. queued_events s2 k =
               queued_events s k @ stamped_for s k (es2 @ cursor_notices s (ssDisplayedCursor s2)))))"
  unfolding i_def by (rule pointer_grab_changes_run [OF ok w])

lemma append_focus_run:
  assumes ok: "tree_ok s" "window s p \<noteq> None"
    and wins: "fsKind from = FocusWindow \<Longrightarrow> window s (fsWindow from) \<noteq> None"
      "fsKind to = FocusWindow \<Longrightarrow> window s (fsWindow to) \<noteq> None"
  obtains d es where "append_focus_events s from to mode p [] = Some (d, es)" "d \<noteq> QueueFull"
    "d = (if es = [] then NoRecipient else Delivered)"
proof -
  obtain es where "append_focus_events s from to mode p [] = Some (if es = [] then NoRecipient else Delivered, es)"
    using append_focus_returns [OF ok wins, of mode "[]"] by auto
  then show ?thesis by (intro that) auto
qed

lemma set_input_focus_effect_run:
  fixes time :: u32 and revert_to :: nat
  assumes ok: "tree_ok s" "queues_ok s" "input_ok s" and w: "kind = FocusWindow \<Longrightarrow> window s w \<noteq> None"
  defines "effective \<equiv> if time = 0 then ssCurrentTime s else time" and "old \<equiv> inFocus (ssInput s)"
  defines "next \<equiv> old\<lparr>fsKind := kind, fsWindow := (if kind = FocusWindow then w else 0),
    fsChangedAt := effective, fsRevertTo := revert_to\<rparr>"
  shows "\<exists>p r s' d es. pointer_window s = Some p \<and> set_input_focus kind w revert_to time s = Some (r, s') \<and>
    append_focus_events s old next 0 p [] = Some (d, es) \<and> queues_ok s' \<and> input_ok s' \<and> tree_ok s' \<and>
    (r = FocusIgnored \<longleftrightarrow> later_than effective (ssCurrentTime s) \<or> earlier_than effective (fsChangedAt old)) \<and>
    (if r = FocusUpdated then ssInput s' = (ssInput s)\<lparr>inFocus := next\<rparr> \<and> ssWindows s' = ssWindows s \<and>
       (\<forall>c. queued_events s' c = queued_events s c @ stamped_for s c es)
     else s' = s)"
proof -
  obtain p where p: "pointer_window s = Some p" "window s p \<noteq> None" using pointer_window_exists [OF ok(1)] by blast
  have held: "fsKind old = FocusWindow \<Longrightarrow> window s (fsWindow old) \<noteq> None"
    "fsKind next = FocusWindow \<Longrightarrow> window s (fsWindow next) \<noteq> None"
    using ok(3) w by (simp_all add: input_ok_def old_def next_def)
  obtain d es where X: "append_focus_events s old next 0 p [] = Some (d, es)" "d \<noteq> QueueFull"
    using append_focus_run [OF ok(1) p(2) held, of 0] by metis
  show ?thesis
  proof (cases "later_than effective (ssCurrentTime s) \<or> earlier_than effective (fsChangedAt old)")
    case True
    then have "set_input_focus kind w revert_to time s = Some (FocusIgnored, s)"
      by (simp add: set_input_focus_def Let_def effective_def old_def)
    with True X(1) p ok show ?thesis by auto
  next
    case False
    obtain q s1 where q: "queue_events_atomically es s = (q, s1)" by fastforce
    have run: "set_input_focus kind w revert_to time s =
        Some (if \<not> q then (FocusQueueFull, s1) else (FocusUpdated, s1\<lparr>ssInput := (ssInput s1)\<lparr>inFocus := next\<rparr>\<rparr>))"
      using False X p(1) q by (simp add: set_input_focus_def Let_def effective_def [symmetric] old_def [symmetric]
          next_def [symmetric])
    from ok(2) q show ?thesis
    proof (cases rule: queue_run)
      case refused
      with run X(1) p(1) False ok show ?thesis by auto
    next
      case (accepted eq n)
      let ?t = "s1\<lparr>ssInput := (ssInput s1)\<lparr>inFocus := next\<rparr>\<rparr>"
      have wins: "ssWindows ?t = ssWindows s" "ssInput ?t = (ssInput s)\<lparr>inFocus := next\<rparr>" by (simp_all add: accepted(2))
      have "tree_ok ?t" using tree_ok_cong ok(1) wins(1) by metis
      moreover have "input_ok ?t" using ok(3) held(2) wins by (simp add: input_ok_def window_def)
      moreover have "queues_ok ?t" using accepted(3) by (simp add: queues_ok_def)
      moreover have "queued_events ?t c = queued_events s1 c" for c by (simp add: queued_events_def)
      moreover have "set_input_focus kind w revert_to time s = Some (FocusUpdated, ?t)" using run accepted(1) by simp
      ultimately show ?thesis using X(1) p(1) False wins accepted(4)
        by (intro exI [of _ p] exI [of _ FocusUpdated] exI [of _ ?t] exI [of _ d] exI [of _ es]) simp
    qed
  qed
qed

text \<open>C33. The focus moves in one step, and only forward in time.  A request with a time that is in the
  future or before the last change is ignored.  Otherwise, with an existing window, either a queue
  was full and nothing changed, or the focus is the requested one, exactly the focus events from the
  old to the new focus are in the queues, and the rest of the state is what it was.\<close>

theorem set_input_focus_effect:
  fixes time :: u32 and revert_to :: nat
  assumes ok: "tree_ok s" "queues_ok s" "input_ok s" and w: "kind = FocusWindow \<Longrightarrow> window s w \<noteq> None"
  defines "effective \<equiv> if time = 0 then ssCurrentTime s else time" and "old \<equiv> inFocus (ssInput s)"
  defines "next \<equiv> old\<lparr>fsKind := kind, fsWindow := (if kind = FocusWindow then w else 0),
    fsChangedAt := effective, fsRevertTo := revert_to\<rparr>"
  shows "\<exists>p r s' d es. pointer_window s = Some p \<and> set_input_focus kind w revert_to time s = Some (r, s') \<and>
    append_focus_events s old next 0 p [] = Some (d, es) \<and> queues_ok s' \<and> input_ok s' \<and> tree_ok s' \<and>
    (r = FocusIgnored \<longleftrightarrow> later_than effective (ssCurrentTime s) \<or> earlier_than effective (fsChangedAt old)) \<and>
    (if r = FocusUpdated then ssInput s' = (ssInput s)\<lparr>inFocus := next\<rparr> \<and> ssWindows s' = ssWindows s \<and>
       (\<forall>c. queued_events s' c = queued_events s c @ stamped_for s c es)
     else s' = s)"
  unfolding next_def effective_def old_def by (rule set_input_focus_effect_run [OF ok w])

subsection \<open>Keyboard grabs\<close>

lemma deactivate_keyboard_run:
  assumes ok: "tree_ok s" "queues_ok s" "input_ok s" and p: "pointer_window s = Some p" "window s p \<noteq> None"
  shows "\<exists>r2 s2. deactivate_keyboard_grab s = Some (r2, s2) \<and> queues_ok s2 \<and> input_ok s2 \<and>
    (case inKeyboardGrab (ssInput s) of
       None \<Rightarrow> r2 = NoRecipient \<and> s2 = s
     | Some old \<Rightarrow> \<exists>d es. append_focus_events s
           ((inFocus (ssInput s))\<lparr>fsKind := FocusWindow, fsWindow := agWindow old\<rparr>)
           (inFocus (ssInput s)) 2 p [] = Some (d, es) \<and>
         (if r2 = QueueFull then s2 = s
          else ssInput s2 = (ssInput s)\<lparr>inKeyboardGrab := None\<rparr> \<and>
            (\<forall>k. queued_events s2 k = queued_events s k @ stamped_for s k es)))"
proof (cases "inKeyboardGrab (ssInput s)")
  case None
  with ok show ?thesis by (simp add: deactivate_keyboard_grab_def)
next
  case (Some old)
  let ?grabbed = "(inFocus (ssInput s))\<lparr>fsKind := FocusWindow, fsWindow := agWindow old\<rparr>"
  have focus: "fsKind (inFocus (ssInput s)) = FocusWindow \<Longrightarrow> window s (fsWindow (inFocus (ssInput s))) \<noteq> None"
    using ok(3) by (simp add: input_ok_def)
  have gok: "fsKind ?grabbed = FocusWindow \<Longrightarrow> window s (fsWindow ?grabbed) \<noteq> None"
    using ok(3) Some by (simp add: input_ok_def)
  obtain d es where X: "append_focus_events s ?grabbed (inFocus (ssInput s)) 2 p [] = Some (d, es)" "d \<noteq> QueueFull"
    using append_focus_run [OF ok(1) p(2) gok focus, of 2] by metis
  obtain r2 s2 where R2: "commit_keyboard_change (\<lambda>j. j\<lparr>inKeyboardGrab := None\<rparr>) d es s = (r2, s2)" by fastforce
  have "deactivate_keyboard_grab s = Some (r2, s2)"
    using Some p X(1) R2 by (simp add: deactivate_keyboard_grab_def)
  moreover note C2 = commit_keyboard_change_run [OF ok(2) X(2) R2]
  moreover have "input_ok s2" using C2 ok(3) by (cases "r2 = QueueFull") (auto simp: input_ok_def window_def)
  ultimately show ?thesis using Some X(1) by auto
qed

lemma keyboard_grab_changes_run:
  assumes ok: "tree_ok s" "queues_ok s" "input_ok s" and w: "window s (agWindow g) \<noteq> None"
  defines "i \<equiv> ssInput s"
  defines "grabbed \<equiv> \<lambda>a. (inFocus i)\<lparr>fsKind := FocusWindow, fsWindow := agWindow a\<rparr>"
  shows "\<exists>p r1 s1 r2 s2. pointer_window s = Some p \<and>
    activate_keyboard_grab g s = Some (r1, s1) \<and> deactivate_keyboard_grab s = Some (r2, s2) \<and>
    queues_ok s1 \<and> input_ok s1 \<and> queues_ok s2 \<and> input_ok s2 \<and>
    (\<exists>es. (if \<exists>old. inKeyboardGrab i = Some old \<and> agWindow old = agWindow g then es = []
           else \<exists>d. append_focus_events s (case inKeyboardGrab i of None \<Rightarrow> inFocus i | Some old \<Rightarrow> grabbed old)
                  (grabbed g) 1 p [] = Some (d, es)) \<and>
       (if r1 = QueueFull then s1 = s
        else ssInput s1 = i\<lparr>inKeyboardGrabTime := agActivatedAt g, inKeyboardGrab := Some g\<rparr> \<and>
          (\<forall>k. queued_events s1 k = queued_events s k @ stamped_for s k es))) \<and>
    (case inKeyboardGrab i of
       None \<Rightarrow> r2 = NoRecipient \<and> s2 = s
     | Some old \<Rightarrow> \<exists>d es. append_focus_events s (grabbed old) (inFocus i) 2 p [] = Some (d, es) \<and>
         (if r2 = QueueFull then s2 = s
          else ssInput s2 = i\<lparr>inKeyboardGrab := None\<rparr> \<and>
            (\<forall>k. queued_events s2 k = queued_events s k @ stamped_for s k es)))"
proof -
  obtain p where p: "pointer_window s = Some p" "window s p \<noteq> None" using pointer_window_exists [OF ok(1)] by blast
  have held: "inKeyboardGrab i = Some old \<Longrightarrow> window s (agWindow old) \<noteq> None" for old
    using ok(3) by (simp add: input_ok_def i_def)
  have focus: "fsKind (inFocus i) = FocusWindow \<Longrightarrow> window s (fsWindow (inFocus i)) \<noteq> None"
    using ok(3) by (simp add: input_ok_def i_def)
  define old_focus where "old_focus = (case inKeyboardGrab i of None \<Rightarrow> inFocus i | Some old \<Rightarrow> grabbed old)"
  have old_ok: "fsKind old_focus = FocusWindow \<Longrightarrow> window s (fsWindow old_focus) \<noteq> None"
    "fsKind (grabbed g) = FocusWindow \<Longrightarrow> window s (fsWindow (grabbed g)) \<noteq> None"
    using held focus w by (auto simp: old_focus_def grabbed_def split: option.splits)
  obtain d es where X: "append_focus_events s old_focus (grabbed g) 1 p [] = Some (d, es)" "d \<noteq> QueueFull"
    using append_focus_run [OF ok(1) p(2) old_ok, of 1] by metis
  let ?again = "\<exists>old. inKeyboardGrab i = Some old \<and> agWindow old = agWindow g"
  define d1 where "d1 = (if ?again then NoRecipient else d)"
  define es1 where "es1 = (if ?again then [] else es)"
  let ?ch = "\<lambda>j. j\<lparr>inKeyboardGrabTime := agActivatedAt g, inKeyboardGrab := Some g\<rparr>"
  obtain r1 s1 where R1: "commit_keyboard_change ?ch d1 es1 s = (r1, s1)" by fastforce
  have run1: "activate_keyboard_grab g s = Some (r1, s1)"
    using p X(1) R1 by (cases "inKeyboardGrab i")
      (auto simp: activate_keyboard_grab_def Let_def i_def old_focus_def grabbed_def d1_def es1_def)
  have "d1 \<noteq> QueueFull" using X(2) by (simp add: d1_def)
  note C1 = commit_keyboard_change_run [OF ok(2) this R1]
  have "input_ok s1" using C1 ok(3) w by (cases "r1 = QueueFull") (auto simp: input_ok_def window_def)
  note one = run1 this C1
  obtain r2 s2 where two: "deactivate_keyboard_grab s = Some (r2, s2)" "queues_ok s2" "input_ok s2"
    "case inKeyboardGrab (ssInput s) of
       None \<Rightarrow> r2 = NoRecipient \<and> s2 = s
     | Some old \<Rightarrow> \<exists>d es. append_focus_events s (grabbed old) (inFocus (ssInput s)) 2 p [] = Some (d, es) \<and>
         (if r2 = QueueFull then s2 = s
          else ssInput s2 = (ssInput s)\<lparr>inKeyboardGrab := None\<rparr> \<and>
            (\<forall>k. queued_events s2 k = queued_events s k @ stamped_for s k es))"
    using deactivate_keyboard_run [OF ok p] unfolding grabbed_def i_def by blast
  have "(if ?again then es1 = [] else \<exists>d. append_focus_events s old_focus (grabbed g) 1 p [] = Some (d, es1))"
    using X(1) by (auto simp: es1_def)
  then have "\<exists>es. (if ?again then es = [] else \<exists>d. append_focus_events s old_focus (grabbed g) 1 p [] = Some (d, es)) \<and>
      (if r1 = QueueFull then s1 = s else ssInput s1 = ?ch i \<and>
         (\<forall>k. queued_events s1 k = queued_events s k @ stamped_for s k es))"
    using C1 by (intro exI [of _ es1]) (auto simp: i_def)
  with p(1) one(1,2,3) two show ?thesis
    unfolding old_focus_def i_def by (intro exI [of _ p] exI [of _ r1] exI [of _ s1] exI [of _ r2] exI [of _ s2] conjI) blast+
qed

text \<open>C32. Keyboard grabs change hands in one step.  A grab on an existing window is installed and a
  released one is gone with exactly the focus events the change causes, from the window that had the
  keyboard to the one that gets it, or a queue was full and nothing changed; grabbing again on the
  window that has the grab tells nobody.  The focus itself does not move.\<close>

theorem keyboard_grab_changes:
  assumes ok: "tree_ok s" "queues_ok s" "input_ok s" and w: "window s (agWindow g) \<noteq> None"
  defines "i \<equiv> ssInput s"
  defines "grabbed \<equiv> \<lambda>a. (inFocus i)\<lparr>fsKind := FocusWindow, fsWindow := agWindow a\<rparr>"
  shows "\<exists>p r1 s1 r2 s2. pointer_window s = Some p \<and>
    activate_keyboard_grab g s = Some (r1, s1) \<and> deactivate_keyboard_grab s = Some (r2, s2) \<and>
    queues_ok s1 \<and> input_ok s1 \<and> queues_ok s2 \<and> input_ok s2 \<and>
    (\<exists>es. (if \<exists>old. inKeyboardGrab i = Some old \<and> agWindow old = agWindow g then es = []
           else \<exists>d. append_focus_events s (case inKeyboardGrab i of None \<Rightarrow> inFocus i | Some old \<Rightarrow> grabbed old)
                  (grabbed g) 1 p [] = Some (d, es)) \<and>
       (if r1 = QueueFull then s1 = s
        else ssInput s1 = i\<lparr>inKeyboardGrabTime := agActivatedAt g, inKeyboardGrab := Some g\<rparr> \<and>
          (\<forall>k. queued_events s1 k = queued_events s k @ stamped_for s k es))) \<and>
    (case inKeyboardGrab i of
       None \<Rightarrow> r2 = NoRecipient \<and> s2 = s
     | Some old \<Rightarrow> \<exists>d es. append_focus_events s (grabbed old) (inFocus i) 2 p [] = Some (d, es) \<and>
         (if r2 = QueueFull then s2 = s
          else ssInput s2 = i\<lparr>inKeyboardGrab := None\<rparr> \<and>
            (\<forall>k. queued_events s2 k = queued_events s k @ stamped_for s k es)))"
  unfolding grabbed_def i_def by (rule keyboard_grab_changes_run [OF ok w])

subsection \<open>Where an input event goes\<close>

text \<open>From \<open>k\<close> with \<open>m\<close>, the first window up to \<open>stop\<close> on which somebody selected the event, the mask
  losing what each window passed does not propagate.\<close>

inductive input_reaches ::
  "server_state \<Rightarrow> u32 \<Rightarrow> active_grab option \<Rightarrow> u32 \<Rightarrow> u32 \<Rightarrow> u32 \<Rightarrow> u32 \<Rightarrow> bool" for s stop grab where
  here: "window s k = Some w \<Longrightarrow> selected_clients w m grab \<noteq> [] \<Longrightarrow> input_reaches s stop grab k m k m"
| up: "window s k = Some w \<Longrightarrow> selected_clients w m grab = [] \<Longrightarrow> k \<noteq> stop \<Longrightarrow> k \<noteq> root_window_id \<Longrightarrow>
    m AND NOT (ucast (wnDoNotPropagateMask w)) \<noteq> 0 \<Longrightarrow>
    input_reaches s stop grab (wnParent w) (m AND NOT (ucast (wnDoNotPropagateMask w))) a m' \<Longrightarrow>
    input_reaches s stop grab k m a m'"

lemma input_reaches_here:
  assumes "window s k = Some w" "selected_clients w m grab \<noteq> []"
  shows "input_reaches s stop grab k m a m' \<longleftrightarrow> a = k \<and> m' = m"
proof
  assume "input_reaches s stop grab k m a m'"
  then show "a = k \<and> m' = m" by cases (use assms in auto)
next
  assume "a = k \<and> m' = m"
  then show "input_reaches s stop grab k m a m'" using assms by (blast intro: input_reaches.here)
qed

lemma input_reaches_up:
  assumes "window s k = Some w" "selected_clients w m grab = []"
  shows "input_reaches s stop grab k m a m' \<longleftrightarrow> k \<noteq> stop \<and> k \<noteq> root_window_id \<and>
    m AND NOT (ucast (wnDoNotPropagateMask w)) \<noteq> 0 \<and>
    input_reaches s stop grab (wnParent w) (m AND NOT (ucast (wnDoNotPropagateMask w))) a m'"
  (is "_ \<longleftrightarrow> ?rhs")
proof
  assume "input_reaches s stop grab k m a m'"
  then show ?rhs by cases (use assms in auto)
next
  assume ?rhs
  then show "input_reaches s stop grab k m a m'" using assms by (blast intro: input_reaches.up)
qed

lemma route_walk_returns:
  assumes ok: "tree_ok s" and "rooted s k"
  shows "(\<nexists>a m'. input_reaches s stop grab k m a m') \<and> route_walk s (window s k) m stop grab = Some None \<or>
    (\<exists>a m' w. input_reaches s stop grab k m a m' \<and> window s a = Some w \<and> selected_clients w m' grab \<noteq> [] \<and>
       route_walk s (window s k) m stop grab = Some (Some (a, selected_clients w m' grab)))"
  using assms(2)
proof (induction arbitrary: m rule: rooted.induct)
  case root
  obtain r where r: "window s root_window_id = Some r" "wnParent r = 0" using tree_okD(3) [OF ok] by auto
  have "wnId r = root_window_id" using r(1) tree_okD(1) [OF ok] by (auto dest: windows_keyedD)
  with r show ?case
    using input_reaches_here [OF r(1), of m grab] input_reaches_up [OF r(1), of m grab]
    by (cases "selected_clients r m grab = []"; subst (1 2) route_walk.simps) auto
next
  case (step k w)
  have nz: "wnParent w \<noteq> 0" using tree_parent_zero [OF ok step(1)] step(2) by simp
  have i: "wnId w = k" using step(1) tree_okD(1) [OF ok] by (auto dest: windows_keyedD)
  show ?case
  proof (cases "selected_clients w m grab = []")
    case False
    then show ?thesis
      using step(1) i input_reaches_here [OF step(1) False] by (subst (1 2) route_walk.simps) auto
  next
    case True
    let ?m = "m AND NOT (ucast (wnDoNotPropagateMask w))"
    show ?thesis
    proof (cases "k = stop \<or> ?m = 0")
      case stops: True
      then show ?thesis using step(1) i True input_reaches_up [OF step(1) True] by (subst (1 2) route_walk.simps) auto
    next
      case False
      with step(1) True nz i have "route_walk s (window s k) m stop grab = route_walk s (window s (wnParent w)) ?m stop grab"
        by (subst route_walk.simps) simp
      moreover have "input_reaches s stop grab k m a m' \<longleftrightarrow> input_reaches s stop grab (wnParent w) ?m a m'" for a m'
        using input_reaches_up [OF step(1) True] False step(2) by simp
      ultimately show ?thesis using step.IH [of ?m] by simp
    qed
  qed
qed

lemma routed_child_returns:
  assumes ok: "tree_ok s"
  shows "\<exists>c. routed_child s d k = Some c"
proof (cases "window s k")
  case None
  then show ?thesis by (simp add: routed_child.simps)
next
  case (Some w)
  then obtain xs where "lineage s k xs" using lineage_exists [OF ok] by blast
  then show ?thesis
  proof (induction rule: lineage.induct)
    case top
    obtain r where "window s root_window_id = Some r" "wnParent r = 0" using tree_okD(3) [OF ok] by blast
    then show ?case
      by (subst routed_child.simps) (simp add: routed_child.simps [of s d 0] root_window_id_def)
  next
    case (above k w xs)
    then show ?case by (subst routed_child.simps) auto
  qed
qed

definition grab_forces :: "active_grab option \<Rightarrow> u32 \<Rightarrow> (u32 \<times> u32 list) option" where
  "grab_forces grab bits =
     (case grab of
        None \<Rightarrow> None
      | Some g \<Rightarrow> if agXi2 g \<or> agEventMask g AND bits = 0 then None else Some (agWindow g, [agOwner g]))"

lemma route_destination_returns:
  fixes grab :: "active_grab option"
  assumes ok: "tree_ok s" and src: "window s source \<noteq> None"
  defines "owner_only \<equiv> \<exists>g. grab = Some g \<and> \<not> agOwnerEvents g"
  shows "\<exists>d. route_destination s m source stop grab = Some d \<and>
    (if \<not> owner_only \<and> (\<exists>a m'. input_reaches s stop grab source m a m')
      then \<exists>a m' w. input_reaches s stop grab source m a m' \<and> window s a = Some w \<and> selected_clients w m' grab \<noteq> [] \<and>
             d = Some (a, selected_clients w m' grab)
      else d = grab_forces grab m)"
proof (cases owner_only)
  case True
  then show ?thesis by (auto simp: owner_only_def route_destination_def grab_forces_def)
next
  case False
  then have g: "\<not> (case grab of None \<Rightarrow> False | Some g \<Rightarrow> \<not> agOwnerEvents g)"
    by (auto simp: owner_only_def split: option.splits)
  obtain w0 where w0: "window s source = Some w0" using src by blast
  from route_walk_returns [OF ok tree_okD(4) [OF ok w0], of stop grab m] show ?thesis
  proof (elim disjE exE conjE, goal_cases)
    case 1
    then show ?case using g by (simp add: route_destination_def grab_forces_def)
  next
    case (2 a m' w)
    then show ?case using g False by (simp add: route_destination_def) blast
  qed
qed

text \<open>C16. An input event goes to the first window that wants it.  On a well-formed tree routing ends
  and never fails.  Without a grab, or with one whose owner gets its own events, the event goes to
  the clients that selected it (of a grab, only its owner) on the first such window from the source
  up to the stop, with the mask narrowed on the way; when there is none, and always under a grab
  that reports to its window only, it goes to the grab's owner if the grab selects it.  The event
  tells where in its window the pointer is, nothing is planned for anybody else, and delivery is
  reported exactly when somebody gets it.\<close>

theorem route_input_event_exact:
  assumes ok: "tree_ok s" and src: "window s source \<noteq> None"
    and held: "\<And>g. grab = Some g \<Longrightarrow> window s (agWindow g) \<noteq> None"
  defines "owner_only \<equiv> \<exists>g. grab = Some g \<and> \<not> agOwnerEvents g"
  shows "\<exists>d. (if \<not> owner_only \<and> (\<exists>a m'. input_reaches s stop grab source m a m')
      then \<exists>a m' w. input_reaches s stop grab source m a m' \<and> window s a = Some w \<and>
             d = Some (a, selected_clients w m' grab)
      else d = grab_forces grab m) \<and>
    (case d of
       None \<Rightarrow> route_input_event s event m source stop pointer grab events = Some (NoRecipient, events)
     | Some (k, recipients) \<Rightarrow> recipients \<noteq> [] \<and> (\<exists>x y n child. offset_to_root s k x y n \<and>
         route_input_event s event m source stop pointer grab events = Some (Delivered, events @
           map (\<lambda>c. (c, EvInput (CoreInput (event\<lparr>ivEvent := k, ivEventX := wire_coordinate (ivRootX event - x),
             ivEventY := wire_coordinate (ivRootY event - y), ivChild := child\<rparr>)))) recipients)))"
proof -
  obtain d where d: "route_destination s m source stop grab = Some d"
    "if \<not> owner_only \<and> (\<exists>a m'. input_reaches s stop grab source m a m')
      then \<exists>a m' w. input_reaches s stop grab source m a m' \<and> window s a = Some w \<and> selected_clients w m' grab \<noteq> [] \<and>
             d = Some (a, selected_clients w m' grab)
      else d = grab_forces grab m"
    using route_destination_returns [OF ok src, of m stop grab] unfolding owner_only_def by blast
  then have goes: "if \<not> owner_only \<and> (\<exists>a m'. input_reaches s stop grab source m a m')
      then \<exists>a m' w. input_reaches s stop grab source m a m' \<and> window s a = Some w \<and>
             d = Some (a, selected_clients w m' grab)
      else d = grab_forces grab m" by (auto split: if_split_asm)
  show ?thesis
  proof (cases d)
    case None
    with d(1) have "route_input_event s event m source stop pointer grab events = Some (NoRecipient, events)"
      by (simp add: route_input_event_def)
    with goes None show ?thesis by (intro exI [of _ d] conjI) simp_all
  next
    case (Some t)
    obtain k recipients where t: "t = (k, recipients)" by (cases t)
    have k: "window s k \<noteq> None" "recipients \<noteq> []"
      using d(2) held Some t by (auto simp: grab_forces_def split: if_splits option.splits)
    then obtain x y n where a: "absolute_position s k = Some (x, y)" "offset_to_root s k x y n"
      using absolute_position_returns [OF ok] by fastforce
    obtain child where "routed_child s k pointer = Some child" using routed_child_returns [OF ok] by blast
    with a d(1) Some t have "route_input_event s event m source stop pointer grab events = Some (Delivered, events @
        map (\<lambda>c. (c, EvInput (CoreInput (event\<lparr>ivEvent := k, ivEventX := wire_coordinate (ivRootX event - x),
          ivEventY := wire_coordinate (ivRootY event - y), ivChild := child\<rparr>)))) recipients)"
      by (simp add: route_input_event_def routed_event_def)
    with goes a(2) k(2) Some t show ?thesis by (intro exI [of _ d] conjI) (simp_all, blast)
  qed
qed

subsection \<open>Instances\<close>

lemma two_children_input_ok: "input_ok two_children_state"
  by (simp add: input_ok_def two_children_state_def initial_state_def)

lemma sample_grab_window: "window two_children_state (agWindow sample_active_grab) \<noteq> None"
  by (simp add: two_children_window sample_active_grab_def)

theorem pointer_grab_changes_witness:
  "\<exists>r s'. activate_pointer_grab sample_active_grab two_children_state = Some (r, s') \<and> input_ok s'"
  using pointer_grab_changes [OF two_children_ok two_children_input_ok sample_grab_window] by blast

theorem keyboard_grab_changes_witness:
  "\<exists>r s'. activate_keyboard_grab sample_active_grab two_children_state = Some (r, s') \<and> input_ok s'"
  using keyboard_grab_changes [OF two_children_ok two_children_input_ok sample_grab_window] by blast

theorem set_input_focus_effect_witness:
  "\<exists>r s'. set_input_focus FocusWindow 7 2 0 two_children_state = Some (r, s') \<and> r \<noteq> FocusIgnored \<and> input_ok s'"
proof -
  have w: "FocusWindow = FocusWindow \<Longrightarrow> window two_children_state 7 \<noteq> None" by (simp add: two_children_window)
  have t: "fsChangedAt (inFocus (ssInput two_children_state)) = ssCurrentTime two_children_state"
    by (simp add: two_children_state_def initial_state_def)
  from set_input_focus_effect [OF two_children_ok two_children_input_ok w, where kind = FocusWindow and time = 0 and revert_to = 2]
  show ?thesis by (simp add: later_than_def earlier_than_def t) blast
qed

theorem route_input_event_exact_witness:
  "\<forall>ev. route_input_event two_children_state ev 1 7 root_window_id 7 None [] = Some (NoRecipient, [])"
proof
  fix ev
  have w: "window two_children_state 7 \<noteq> None" by (simp add: two_children_window)
  have "selected_clients v m None = []" if "window two_children_state a = Some v" for a v m
    using that by (auto simp: two_children_window selected_clients_def root_window_record_def sample_window_def
        window_default_def split: if_splits)
  with route_input_event_exact [OF two_children_ok(1) w, of None root_window_id 1 ev 7 "[]"]
  show "route_input_event two_children_state ev 1 7 root_window_id 7 None [] = Some (NoRecipient, [])"
    by (fastforce simp: grab_forces_def split: if_splits)
qed

end
