(* ===== verification/Input.thy ===== *)
theory Input
  imports Grabs Barriers Passive_Grabs
begin

text \<open>
  Input (\<^verbatim>\<open>src/server/server_state.cpp\<close>): one key, button or motion event from the host
  (\<open>inject_input\<close>), the repetition of a held key (\<open>repeat_key\<close>) and the release of a frozen pointer
  (\<open>allow_events\<close>).  The handler computes the state the event would leave, plans every event it
  causes (crossing, grab, core, cursor, XKB, XI2), delivers them all or none, and only then commits.
  Readings of the clock are nanoseconds since the server started; a handler that reads it takes the
  reading as its argument \<open>now\<close>.
\<close>

subsection \<open>What an event would leave\<close>

definition set_key_bit :: "u8 list \<Rightarrow> u8 \<Rightarrow> bool \<Rightarrow> u8 list" where
  "set_key_bit keys k down =
     (let n = unat (drop_bit 3 k); b = push_bit (unat (k AND 7)) 1
      in keys[n := (if down then keys ! n OR b else keys ! n AND NOT b)])"

definition prospective_keys :: "input_state \<Rightarrow> u8 \<Rightarrow> u8 \<Rightarrow> u8 list" where
  "prospective_keys i event_type detail =
     (if event_type = 2 \<or> event_type = 3 then set_key_bit (inPressedKeys i) detail (event_type = 2)
      else inPressedKeys i)"

text \<open>Caps Lock and Num Lock.\<close>

definition prospective_xkb :: "input_state \<Rightarrow> u8 \<Rightarrow> u8 \<Rightarrow> xkb_keyboard_state" where
  "prospective_xkb i event_type detail =
     (let k = inXkb i
      in if event_type = 2 \<and> detail = 66 then k\<lparr>xkLockedMods := xkLockedMods k XOR push_bit 1 1\<rparr>
         else if event_type = 2 \<and> detail = 77 then k\<lparr>xkLockedMods := xkLockedMods k XOR push_bit 4 1\<rparr>
         else k)"

definition prospective_buttons :: "input_state \<Rightarrow> u8 \<Rightarrow> u8 \<Rightarrow> 256 word" where
  "prospective_buttons i event_type detail =
     (if event_type = 4 then set_bit (unat detail) (inPressedButtons i)
      else if event_type = 5 then unset_bit (unat detail) (inPressedButtons i)
      else inPressedButtons i)"

definition event_position :: "server_state \<Rightarrow> u8 \<Rightarrow> int \<Rightarrow> int \<Rightarrow> int \<times> int" where
  "event_position s event_type root_x root_y =
     (let i = ssInput s
      in if event_type = 6 then constrain_pointer_by_barriers (inPointerX i) (inPointerY i) root_x root_y s
         else (inPointerX i, inPointerY i))"

text \<open>Where a key event starts and how far up it may go.\<close>

definition key_source :: "server_state \<Rightarrow> u32 \<Rightarrow> (u32 \<times> u32) option" where
  "key_source s pointer =
     (let focus = inFocus (ssInput s)
      in case fsKind focus of
           FocusNone \<Rightarrow> Some (0, root_window_id)
         | FocusPointerRoot \<Rightarrow> Some (pointer, root_window_id)
         | FocusWindow \<Rightarrow>
             if pointer = fsWindow focus then Some (pointer, fsWindow focus)
             else Option.bind (is_descendant s pointer (fsWindow focus)) (\<lambda>inside.
                    Some (if inside then pointer else fsWindow focus, fsWindow focus)))"

definition input_mask :: "input_state \<Rightarrow> u8 \<Rightarrow> u32" where
  "input_mask i event_type =
     (if event_type = 2 then push_bit 0 1 else if event_type = 3 then push_bit 1 1
      else if event_type = 4 then push_bit 2 1 else if event_type = 5 then push_bit 3 1
      else if event_type = 6 \<and> inPressedButtons i \<noteq> 0
      then push_bit 6 1 OR push_bit 13 1 OR ucast (button_bits (inPressedButtons i))
      else push_bit 6 1)"

fun find_passive ::
  "server_state \<Rightarrow> passive_grab_kind \<Rightarrow> u8 \<Rightarrow> u16 \<Rightarrow> u32 \<Rightarrow> passive_grab list \<Rightarrow> passive_grab option option" where
  "find_passive s kind detail modifiers source [] = Some None"
| "find_passive s kind detail modifiers source (p # ps) =
     (if pgKind p \<noteq> kind \<or> \<not> bit (pgDetails p) (unat detail) \<or> \<not> bit (pgModifiers p) (unat modifiers)
      then find_passive s kind detail modifiers source ps
      else if source = pgWindow p then Some (Some p)
      else Option.bind (is_descendant s source (pgWindow p)) (\<lambda>inside.
             if inside then Some (Some p) else find_passive s kind detail modifiers source ps))"

definition activated_from :: "server_state \<Rightarrow> u8 \<Rightarrow> passive_grab \<Rightarrow> active_grab" where
  "activated_from s detail p =
     \<lparr>agOwner = pgOwner p, agWindow = pgWindow p, agConfineTo = pgConfineTo p,
      agActivatedAt = ssCurrentTime s, agEventMask = ucast (pgEventMask p),
      agPointerMode = pgPointerMode p, agKeyboardMode = pgKeyboardMode p,
      agOwnerEvents = pgOwnerEvents p, agPassive = True, agPassiveDetail = detail,
      agAutomatic = False, agCursor = pgCursor p, agXi2 = pgXi2 p,
      agXi2EventMask = pgXi2EventMask p\<rparr>"

text \<open>The passive grab that a press activates when nothing is grabbed.\<close>

definition activated_grab ::
  "server_state \<Rightarrow> u8 \<Rightarrow> u8 \<Rightarrow> u32 \<Rightarrow> active_grab option \<Rightarrow> active_grab option option" where
  "activated_grab s event_type detail source grab =
     (if grab = None \<and> (event_type = 2 \<or> event_type = 4)
      then map_option (map_option (activated_from s detail))
             (find_passive s (if event_type = 2 then GrabsKey else GrabsButton) detail
                (inModifierButtonMask (ssInput s) AND all_modifiers_mask) source (ssPassiveGrabs s))
      else Some None)"

text \<open>The state word once the button is down, or up.\<close>

definition state_after_press :: "u16 \<Rightarrow> u8 \<Rightarrow> u16" where
  "state_after_press state detail = (if detail \<le> 5 then state OR push_bit (unat detail + 7) 1 else state)"

definition state_after_release :: "u16 \<Rightarrow> u8 \<Rightarrow> u16" where
  "state_after_release state detail = (if detail \<le> 5 then state AND NOT (push_bit (unat detail + 7) 1) else state)"

text \<open>The grab a press brings to the first client it went to, when that client selected it still.\<close>

fun first_press :: "planned_event list \<Rightarrow> (u32 \<times> core_input_event) option" where
  "first_press [] = None"
| "first_press ((c, EvInput (CoreInput e)) # es) = Some (c, e)"
| "first_press (_ # es) = first_press es"

definition automatic_grab :: "server_state \<Rightarrow> planned_event list \<Rightarrow> active_grab option" where
  "automatic_grab s pressed =
     (case first_press pressed of
        None \<Rightarrow> None
      | Some (client, press) \<Rightarrow>
          (case window s (ivEvent press) of
             None \<Rightarrow> None
           | Some target \<Rightarrow>
               (case umap_find client (wnEventMasks target) of
                  None \<Rightarrow> None
                | Some selection \<Rightarrow> Some
                    \<lparr>agOwner = client, agWindow = ivEvent press, agConfineTo = 0,
                     agActivatedAt = ssCurrentTime s, agEventMask = selection, agPointerMode = 1,
                     agKeyboardMode = 1, agOwnerEvents = (selection AND push_bit 24 1 \<noteq> 0),
                     agPassive = False, agPassiveDetail = 0, agAutomatic = True, agCursor = None,
                     agXi2 = False, agXi2EventMask = 0\<rparr>)))"

subsection \<open>The handler\<close>

text \<open>One planning step after another; a step that cannot be planned ends the handler with the state
  as it was.\<close>

definition unless_full ::
  "server_state \<Rightarrow> (event_delivery \<times> planned_event list) option \<Rightarrow>
     (event_delivery \<Rightarrow> planned_event list \<Rightarrow> (event_delivery \<times> server_state) option) \<Rightarrow>
     (event_delivery \<times> server_state) option" where
  "unless_full s plan rest =
     Option.bind plan (\<lambda>(d, events). if d = QueueFull then Some (QueueFull, s) else rest d events)"

definition when_planned ::
  "bool \<Rightarrow> (planned_event list \<Rightarrow> (event_delivery \<times> planned_event list) option) \<Rightarrow> planned_event list \<Rightarrow>
     (event_delivery \<times> planned_event list) option" where
  "when_planned condition plan events = (if condition then plan events else Some (NoRecipient, events))"

abbreviation on_input :: "(input_state \<Rightarrow> input_state) \<Rightarrow> server_state \<Rightarrow> server_state" where
  "on_input f s \<equiv> s\<lparr>ssInput := f (ssInput s)\<rparr>"

text \<open>What the handler commits, in the order of the code.\<close>

definition commit_state :: "u8 \<Rightarrow> u8 \<Rightarrow> int \<times> int \<Rightarrow> server_state \<Rightarrow> server_state" where
  "commit_state event_type detail position s =
     refresh_modifier_button_mask (on_input (\<lambda>i.
       if event_type = 2 \<or> event_type = 3
       then i\<lparr>inPressedKeys := prospective_keys i event_type detail, inXkb := prospective_xkb i event_type detail\<rparr>
       else if event_type = 4 \<or> event_type = 5
       then i\<lparr>inPressedButtons := prospective_buttons i event_type detail\<rparr>
       else if event_type = 6 then i\<lparr>inPointerX := fst position, inPointerY := snd position\<rparr>
       else i) s)"

definition commit_grabs ::
  "u8 \<Rightarrow> active_grab option \<Rightarrow> active_grab option \<Rightarrow> bool \<Rightarrow> frozen_pointer_event \<Rightarrow> server_state \<Rightarrow> server_state" where
  "commit_grabs event_type activated automatic releases_keyboard frozen s =
     (let s1 = (case activated of
            None \<Rightarrow> s
          | Some g \<Rightarrow>
              if event_type = 2 \<or> event_type = 3
              then on_input (\<lambda>i. i\<lparr>inKeyboardGrab := Some g, inKeyboardGrabTime := agActivatedAt g\<rparr>) s
              else on_input (\<lambda>i. i\<lparr>inPointerGrab := Some g, inPointerGrabTime := agActivatedAt g,
                     inFrozenPointerEvent := (if agPassive g \<and> agPointerMode g = 0 then Some frozen
                                              else inFrozenPointerEvent i)\<rparr>) s);
          s2 = (case automatic of
            None \<Rightarrow> s1
          | Some g \<Rightarrow> on_input (\<lambda>i. i\<lparr>inPointerGrab := Some g, inPointerGrabTime := agActivatedAt g\<rparr>) s1);
          s3 = (if releases_keyboard then on_input (\<lambda>i. i\<lparr>inKeyboardGrab := None\<rparr>) s2 else s2)
      in case inPointerGrab (ssInput s3) of
           None \<Rightarrow> s3
         | Some g \<Rightarrow>
             if event_type = 5 \<and> (agPassive g \<or> agAutomatic g) \<and> inPressedButtons (ssInput s3) = 0
             then on_input (\<lambda>i. i\<lparr>inPointerGrab := None, inFrozenPointerEvent := None\<rparr>) s3
             else s3)"

definition commit_repeat :: "int \<Rightarrow> u8 \<Rightarrow> u8 \<Rightarrow> server_state \<Rightarrow> server_state" where
  "commit_repeat now event_type detail s =
     (let i = ssInput s
      in if event_type = 2 \<and> inGlobalAutoRepeat i \<and> key_bit (inAutoRepeats i) detail
         then s\<lparr>ssKeyRepeat := Some \<lparr>krKey = detail,
                krDeadline = now + int (kcRepeatDelay (xkControls (inXkb i))) * 1000000\<rparr>\<rparr>
         else if event_type = 3 \<and> map_option krKey (ssKeyRepeat s) = Some detail
         then s\<lparr>ssKeyRepeat := None\<rparr>
         else s)"

text \<open>The XKB state after the event, with the buttons it leaves.\<close>

definition xkb_state_after :: "input_state \<Rightarrow> u8 \<Rightarrow> u8 \<Rightarrow> xkb_state_snapshot" where
  "xkb_state_after i event_type detail =
     (xkb_state_for i (prospective_keys i event_type detail) (prospective_xkb i event_type detail))
       \<lparr>xsnPointerButtons := button_bits (prospective_buttons i event_type detail)\<rparr>"

definition freeze_pending :: "u8 \<Rightarrow> u8 \<Rightarrow> int \<Rightarrow> int \<Rightarrow> frozen_pointer_event \<Rightarrow> server_state \<Rightarrow> event_delivery \<times> server_state" where
  "freeze_pending event_type detail root_x root_y frozen s =
     (if maximum_pending_events \<le> length (fpPending frozen) then (QueueFull, s)
      else (NoRecipient, on_input (\<lambda>i. i\<lparr>inFrozenPointerEvent := Some (frozen\<lparr>fpPending := fpPending frozen @
             [\<lparr>piType = event_type, piDetail = detail, piRootX = root_x, piRootY = root_y\<rparr>]\<rparr>)\<rparr>) s))"

text \<open>Whether the pointer is frozen by a synchronous grab.\<close>

definition frozen_pointer :: "server_state \<Rightarrow> frozen_pointer_event option" where
  "frozen_pointer s =
     (case inPointerGrab (ssInput s) of
        None \<Rightarrow> None
      | Some g \<Rightarrow> if agPointerMode g = 0 then inFrozenPointerEvent (ssInput s) else None)"

definition focus_on_grab :: "server_state \<Rightarrow> active_grab \<Rightarrow> focus_state" where
  "focus_on_grab s g = (inFocus (ssInput s))\<lparr>fsKind := FocusWindow, fsWindow := agWindow g\<rparr>"

definition only_button :: "input_state \<Rightarrow> u8 \<Rightarrow> bool" where
  "only_button i detail \<longleftrightarrow>
     bit (inPressedButtons i) (unat detail) \<and> length (filter (bit (inPressedButtons i)) [0..<256]) = 1"

definition injected_event :: "server_state \<Rightarrow> u8 \<Rightarrow> u8 \<Rightarrow> int \<times> int \<Rightarrow> core_input_event" where
  "injected_event s event_type wire_detail position =
     \<lparr>ivType = event_type, ivDetail = (if event_type = 6 then 0 else wire_detail),
      ivTime = ssCurrentTime s, ivRoot = root_window_id, ivEvent = 0, ivChild = 0,
      ivRootX = wire_coordinate (fst position), ivRootY = wire_coordinate (snd position),
      ivEventX = 0, ivEventY = 0, ivState = inModifierButtonMask (ssInput s), ivSameScreen = True\<rparr>"

text \<open>The last part of the handler: the cursor, XKB and XI2 events, the delivery and the commit.\<close>

definition finish_input ::
  "int \<Rightarrow> u8 \<Rightarrow> u8 \<Rightarrow> int \<times> int \<Rightarrow> u32 \<Rightarrow> u32 \<Rightarrow> core_input_event \<Rightarrow> active_grab option \<Rightarrow> active_grab option \<Rightarrow>
     bool \<Rightarrow> frozen_pointer_event \<Rightarrow> active_grab option \<Rightarrow> active_grab option \<Rightarrow> bool \<Rightarrow>
     planned_event list \<Rightarrow> server_state \<Rightarrow> (event_delivery \<times> server_state) option" where
  "finish_input now event_type detail position pointer source event grab prospective_grab delivered frozen
     activated automatic releases_keyboard events s =
     (let i = ssInput s
      in Option.bind (current_cursor_for s pointer prospective_grab) (\<lambda>shape.
           let (shown, events1) = append_cursor_change s shape events
           in if shown = QueueFull then Some (QueueFull, s)
              else
                let events2 = append_xkb_state_events s (xkb_state s) (xkb_state_after i event_type detail)
                      (if event_type = 2 \<or> event_type = 3 then detail else 0) event_type 0 0 events1
                in Option.bind (append_xi2_input_events s event_type (ivDetail event) detail source
                     (fst position) (snd position) (inModifierButtonMask i) (xkb_state s) 0 grab events2)
                     (\<lambda>events3.
                       let (queued, s1) = queue_events_atomically events3 s
                       in Some (if \<not> queued then (QueueFull, s1)
                                else (if shown = Delivered \<or> delivered \<or> length events3 \<noteq> length events2
                                      then Delivered else NoRecipient,
                                      (commit_repeat now event_type detail
                                         (commit_grabs event_type activated automatic releases_keyboard frozen
                                           (commit_state event_type detail position s1)))
                                        \<lparr>ssDisplayedCursor := shape\<rparr>)))))"

definition inject_input ::
  "int \<Rightarrow> u8 \<Rightarrow> u8 \<Rightarrow> int \<Rightarrow> int \<Rightarrow> server_state \<Rightarrow> (event_delivery \<times> server_state) option" where
  "inject_input now event_type detail root_x root_y s =
     (let i = ssInput s;
          key = (event_type = 2 \<or> event_type = 3);
          button = (event_type = 4 \<or> event_type = 5);
          motion = (event_type = 6);
          state = inModifierButtonMask i;
          focus = inFocus i
      in case (if button \<or> motion then frozen_pointer s else None) of
           Some frozen \<Rightarrow> Some (freeze_pending event_type detail root_x root_y frozen s)
         | None \<Rightarrow>
             let position = event_position s event_type root_x root_y;
                 (x, y) = position
             in Option.bind (deepest_window_at s root_window_id x y) (\<lambda>pointer.
                Option.bind (if motion then pointer_window s else Some pointer) (\<lambda>previous.
                Option.bind (if key then key_source s pointer else Some (pointer, root_window_id)) (\<lambda>(source, stop).
                let wire_detail = (if button then inPointerMap i ! (unat detail - 1) else detail);
                    bits = input_mask i event_type;
                    held = (if key then inKeyboardGrab i else inPointerGrab i)
                in Option.bind (activated_grab s event_type wire_detail source held) (\<lambda>activated.
                let grab = (if held = None then activated else held);
                    event = injected_event s event_type wire_detail position
                in unless_full s (when_planned (motion \<and> previous \<noteq> pointer)
                     (append_crossing_events s previous pointer x y state 0 grab focus) []) (\<lambda>crossing es1.
                   unless_full s (when_planned (event_type = 4 \<and> activated \<noteq> None)
                     (append_crossing_events s pointer (agWindow (the activated)) x y
                        (state_after_press state detail) 1 None focus) es1) (\<lambda>press_crossing es2.
                   unless_full s (when_planned (event_type = 2 \<and> activated \<noteq> None)
                     (append_focus_events s focus (focus_on_grab s (the activated)) 1 pointer) es2) (\<lambda>press_focus es3.
                   unless_full s (when_planned (source \<noteq> 0 \<and> \<not> (button \<and> wire_detail = 0))
                     (route_input_event s event bits source stop pointer grab) es3) (\<lambda>routed es4.
                   let automatic = (if event_type = 4 \<and> grab = None \<and> routed = Delivered
                         then automatic_grab s (drop (length es3) es4) else None)
                   in unless_full s (when_planned (automatic \<noteq> None)
                     (append_crossing_events s pointer (agWindow (the automatic)) x y
                        (state_after_press state detail) 1 None focus) es4) (\<lambda>automatic_crossing es5.
                   let releases_pointer = (event_type = 5 \<and> grab \<noteq> None \<and>
                         (agPassive (the grab) \<or> agAutomatic (the grab)) \<and> only_button i detail);
                       releases_keyboard = (event_type = 3 \<and> grab \<noteq> None \<and> agPassive (the grab) \<and>
                         agPassiveDetail (the grab) = detail)
                   in unless_full s (when_planned releases_pointer
                     (append_crossing_events s (agWindow (the grab)) pointer x y
                        (state_after_release state detail) 2 None focus) es5) (\<lambda>release_crossing es6.
                   unless_full s (when_planned releases_keyboard
                     (append_focus_events s (focus_on_grab s (the grab)) focus 2 pointer) es6) (\<lambda>release_focus es7.
                   let prospective_grab = (if releases_pointer then None
                         else if automatic \<noteq> None then automatic
                         else if activated \<noteq> None \<and> button then activated else inPointerGrab i)
                   in finish_input now event_type detail position pointer source event grab prospective_grab
                        (Delivered \<in> {crossing, press_crossing, press_focus, routed, automatic_crossing,
                                      release_crossing, release_focus})
                        \<lparr>fpEvent = event, fpMask = bits, fpSource = source, fpPropagationStop = stop,
                         fpPointerWindow = pointer, fpPending = []\<rparr>
                        activated automatic releases_keyboard es7 s))))))))))))"

subsection \<open>Key repeat\<close>

text \<open>The state word of the repeated press: without the modifiers only this key holds down.\<close>

definition repeat_press_state :: "input_state \<Rightarrow> u8 \<Rightarrow> u16" where
  "repeat_press_state i detail =
     fold (\<lambda>g state.
         let codes = map (\<lambda>n. inModifierMap i ! (g * inModifierKeysPerGroup i + n)) [0..<inModifierKeysPerGroup i];
             another = list_ex (\<lambda>k. k \<noteq> 0 \<and> k \<noteq> detail \<and> key_bit (inPressedKeys i) k) codes
         in if List.member codes detail \<and> \<not> another then state AND NOT (push_bit g 1) else state)
       [0..<8] (inModifierButtonMask i)"

text \<open>One half of a repeat, the release (3) or the press (2): what it adds to the events, and whether
  anybody gets it.  Clients that asked for detectable repeats are not told of the release.\<close>

definition repeat_half ::
  "server_state \<Rightarrow> u32 \<Rightarrow> u32 \<Rightarrow> u32 \<Rightarrow> active_grab option \<Rightarrow> u8 \<Rightarrow> u8 \<Rightarrow> u16 \<Rightarrow> planned_event list \<Rightarrow>
     (event_delivery \<times> planned_event list) option" where
  "repeat_half s pointer source stop grab detail event_type state events =
     (let i = ssInput s;
          event = (injected_event s event_type detail (inPointerX i, inPointerY i))\<lparr>ivState := state\<rparr>
      in Option.bind (if source = 0 then Some (NoRecipient, events)
                      else route_input_event s event (if event_type = 2 then push_bit 0 1 else push_bit 1 1)
                             source stop pointer grab events) (\<lambda>(routed, events1).
           if routed = QueueFull then Some (QueueFull, events1)
           else
             let events2 = (if event_type = 3
                   then take (length events) events1 @
                        filter (\<lambda>e. xkb_client_flags (fst e) s AND 1 = 0) (drop (length events) events1)
                   else events1)
             in Option.bind (append_xi2_input_events s event_type detail detail source (inPointerX i)
                  (inPointerY i) state (xkb_state s) (if event_type = 2 then push_bit 16 1 else 0) grab events2)
                  (\<lambda>events3.
                    Some (if routed = Delivered \<or> length events3 \<noteq> length events2 then Delivered else NoRecipient,
                          events3))))"

definition repeat_key :: "u8 \<Rightarrow> server_state \<Rightarrow> (event_delivery \<times> server_state) option" where
  "repeat_key detail s =
     Option.bind (pointer_window s) (\<lambda>pointer.
       Option.bind (key_source s pointer) (\<lambda>(source, stop).
         let i = ssInput s; grab = inKeyboardGrab i
         in unless_full s (repeat_half s pointer source stop grab detail 3 (inModifierButtonMask i) [])
              (\<lambda>released es1.
            unless_full s (repeat_half s pointer source stop grab detail 2 (repeat_press_state i detail) es1)
              (\<lambda>pressed es2.
                let (queued, s1) = queue_events_atomically es2 s
                in Some (if \<not> queued then (QueueFull, s1)
                         else (if released = Delivered \<or> pressed = Delivered then Delivered else NoRecipient, s1))))))"

subsection \<open>Releasing a frozen pointer\<close>

fun replay_pending ::
  "int \<Rightarrow> pending_input list \<Rightarrow> event_delivery \<Rightarrow> server_state \<Rightarrow> (event_delivery \<times> server_state) option" where
  "replay_pending now [] delivered s = Some (delivered, s)"
| "replay_pending now (p # ps) delivered s =
     Option.bind (inject_input now (piType p) (piDetail p) (piRootX p) (piRootY p) s) (\<lambda>(r, s1).
       if r = QueueFull then Some (QueueFull, s1)
       else replay_pending now ps (if r = Delivered then Delivered else delivered) s1)"

text \<open>Asynchronous release: the pointer moves again, and what was held back happens now.\<close>

definition allow_asynchronous :: "int \<Rightarrow> active_grab \<Rightarrow> server_state \<Rightarrow> (event_delivery \<times> server_state) option" where
  "allow_asynchronous now g s =
     replay_pending now (case inFrozenPointerEvent (ssInput s) of None \<Rightarrow> [] | Some f \<Rightarrow> fpPending f) NoRecipient
       (on_input (\<lambda>i. i\<lparr>inPointerGrab := Some (g\<lparr>agPointerMode := 1\<rparr>), inFrozenPointerEvent := None\<rparr>) s)"

text \<open>Replay: the grab ends and the event that froze the pointer is routed again without it.  The code
  moves the frozen event out of the state first, which leaves its queue of held-back input empty
  also when the replay is refused.\<close>

definition allow_replay :: "int \<Rightarrow> active_grab \<Rightarrow> frozen_pointer_event \<Rightarrow> server_state \<Rightarrow> (event_delivery \<times> server_state) option"
  where
  "allow_replay now g frozen s0 =
     (let s = on_input (\<lambda>i. i\<lparr>inFrozenPointerEvent := Some (frozen\<lparr>fpPending := []\<rparr>)\<rparr>) s0;
          i = ssInput s; event = fpEvent frozen; pointer = fpPointerWindow frozen
      in Option.bind (current_cursor_for s pointer None) (\<lambda>shape.
         unless_full s (append_crossing_events s (agWindow g) pointer (ivRootX event) (ivRootY event)
             (inModifierButtonMask i) 2 None (inFocus i) []) (\<lambda>crossing es1.
         unless_full s (route_input_event s event (fpMask frozen) (fpSource frozen) (fpPropagationStop frozen)
             pointer None es1) (\<lambda>routed es2.
         let (shown, es3) = append_cursor_change s shape es2
         in if shown = QueueFull then Some (QueueFull, s)
            else
              let (queued, s1) = queue_events_atomically es3 s
              in if \<not> queued then Some (QueueFull, s1)
                 else replay_pending now (fpPending frozen)
                        (if Delivered \<in> {crossing, routed, shown} then Delivered else NoRecipient)
                        ((on_input (\<lambda>i. i\<lparr>inPointerGrab := None, inFrozenPointerEvent := None\<rparr>) s1)
                           \<lparr>ssDisplayedCursor := shape\<rparr>)))))"

definition allow_events ::
  "int \<Rightarrow> u32 \<Rightarrow> u8 \<Rightarrow> u32 \<Rightarrow> server_state \<Rightarrow> (event_delivery \<times> server_state) option" where
  "allow_events now owner mode time s =
     (let effective = (if time = 0 then ssCurrentTime s else time); i = ssInput s
      in case inPointerGrab i of
           None \<Rightarrow> Some (NoRecipient, s)
         | Some g \<Rightarrow>
             if agOwner g \<noteq> owner \<or> later_than effective (ssCurrentTime s) \<or>
                earlier_than effective (inPointerGrabTime i)
             then Some (NoRecipient, s)
             else if mode = 0 then allow_asynchronous now g s
             else if mode \<noteq> 2 \<or> \<not> agPassive g then Some (NoRecipient, s)
             else (case inFrozenPointerEvent i of
                     None \<Rightarrow> Some (NoRecipient, s)
                   | Some frozen \<Rightarrow> allow_replay now g frozen s))"

subsection \<open>Every stage can be planned\<close>

lemma unless_full_Some [simp]: "d \<noteq> QueueFull \<Longrightarrow> unless_full s (Some (d, es)) rest = rest d es"
  by (simp add: unless_full_def)

lemma when_planned_returns:
  assumes "condition \<Longrightarrow> \<exists>d es. plan events = Some (d, events @ es) \<and> d \<noteq> QueueFull"
  shows "\<exists>d es. when_planned condition plan events = Some (d, events @ es) \<and> d \<noteq> QueueFull"
  using assms by (cases condition) (auto simp: when_planned_def)

lemma when_planned_crossing:
  assumes "tree_ok s" and "condition \<Longrightarrow> window s from \<noteq> None \<and> window s to \<noteq> None"
  shows "\<exists>d es. when_planned condition (append_crossing_events s from to x y state mode grab focus) events =
    Some (d, events @ es) \<and> d \<noteq> QueueFull"
  using append_crossing_returns [OF assms(1)] assms(2) by (intro when_planned_returns) blast

lemma when_planned_focus:
  assumes "tree_ok s" "window s p \<noteq> None"
    and "condition \<Longrightarrow> fsKind from = FocusWindow \<Longrightarrow> window s (fsWindow from) \<noteq> None"
    and "condition \<Longrightarrow> fsKind to = FocusWindow \<Longrightarrow> window s (fsWindow to) \<noteq> None"
  shows "\<exists>d es. when_planned condition (append_focus_events s from to mode p) events =
    Some (d, events @ es) \<and> d \<noteq> QueueFull"
proof (rule when_planned_returns)
  assume condition
  then obtain es where "append_focus_events s from to mode p events =
      Some (if es = [] then NoRecipient else Delivered, events @ es)"
    using append_focus_returns [OF assms(1,2), of "from" to mode events] assms(3,4) by blast
  then show "\<exists>d es. append_focus_events s from to mode p events = Some (d, events @ es) \<and> d \<noteq> QueueFull"
    by (intro exI conjI, assumption) simp
qed

lemma selected_on_path_returns: "tree_ok s \<Longrightarrow> \<exists>b. selected_on_path s device event_type source e = Some b"
  by (auto simp: selected_on_path_def is_descendant_returns)

lemma any_option_returns: "(\<And>x. x \<in> set xs \<Longrightarrow> \<exists>b. P x = Some b) \<Longrightarrow> \<exists>b. any_option P xs = Some b"
  by (induction xs) (auto, fastforce)

lemma closer_selection_returns:
  assumes ok: "tree_ok s"
  shows "\<exists>b. closer_selection s device event_type source e = Some b"
proof -
  have "\<exists>b. (if xlOwner c = xlOwner e \<and> xlWindow c \<noteq> xlWindow e
      then Option.bind (selected_on_path s device event_type source c)
             (\<lambda>p. if \<not> p then Some False else is_descendant s (xlWindow c) (xlWindow e))
      else Some False) = Some b" for c
    using selected_on_path_returns [OF ok, of device event_type source c]
    by (auto simp: is_descendant_returns [OF ok])
  then show ?thesis unfolding closer_selection_def by (intro any_option_returns)
qed

lemma nearest_selections_returns:
  assumes ok: "tree_ok s"
  shows "\<exists>ds. nearest_selections s device event_type source es = Some ds"
proof (induction es)
  case (Cons e es)
  obtain b where "selected_on_path s device event_type source e = Some b"
    using selected_on_path_returns [OF ok] by blast
  moreover obtain c where "closer_selection s device event_type source e = Some c"
    using closer_selection_returns [OF ok] by blast
  moreover obtain ds where "nearest_selections s device event_type source es = Some ds" using Cons by blast
  ultimately show ?case by (cases b) simp_all
qed simp

lemma device_events_returns: "(\<And>k. \<exists>e. event k = Some e) \<Longrightarrow> \<exists>es. device_events event ds = Some es"
proof (induction ds)
  case (Cons d ds)
  then obtain e es where "event (snd d) = Some e" "device_events event ds = Some es" by blast
  then show ?case by (cases d) simp
qed simp

lemma append_xi2_returns:
  assumes ok: "tree_ok s"
  shows "\<exists>es. append_xi2_input_events s event_type detail raw source x y state xkb flags grab events = Some (events @ es)"
proof -
  have "\<exists>p. absolute_position s k = Some p" for k
    using absolute_position_returns [OF ok, of k] by (cases "window s k") (auto simp: absolute_position_def position_from.simps)
  moreover have "\<exists>c. event_child s k source = Some c" for k
    using child_below_returns [OF ok, of k source] by (auto simp: event_child_def)
  ultimately have "\<exists>e. device_event s event_type detail source x y state xkb flags device k = Some e" for device k
    unfolding device_event_def by (metis (mono_tags, lifting) bind.simps(2) split_beta)
  then have "\<exists>es. device_events (device_event s event_type detail source x y state xkb flags device) ds = Some es" for device ds
    by (rule device_events_returns)
  moreover have "\<exists>ds. xi2_destinations s device (ucast event_type) source grab = Some ds" for device
    using nearest_selections_returns [OF ok, of device "ucast event_type" source]
    by (auto simp: xi2_destinations_def split: option.splits) (metis bind.simps(2))
  ultimately show ?thesis
    unfolding append_xi2_input_events_def Let_def by (metis (no_types, lifting) append_Nil2 bind.simps(2) option.simps(9))
qed

subsection \<open>Buttons hold grabs\<close>

text \<open>A grab a press brought lasts as long as a button is down.\<close>

definition press_held :: "server_state \<Rightarrow> bool" where
  "press_held s \<longleftrightarrow> (\<forall>g. inPointerGrab (ssInput s) = Some g \<longrightarrow> agPassive g \<or> agAutomatic g \<longrightarrow>
     inPressedButtons (ssInput s) \<noteq> 0)"

definition passive_windows_ok :: "server_state \<Rightarrow> bool" where
  "passive_windows_ok s \<longleftrightarrow> (\<forall>p \<in> set (ssPassiveGrabs s). window s (pgWindow p) \<noteq> None)"

lemma only_button_iff:
  "only_button i d \<longleftrightarrow> inPressedButtons i \<noteq> 0 \<and> unset_bit (unat d) (inPressedButtons i) = 0"
proof -
  let ?b = "inPressedButtons i"
  have low: "bit ?b n \<Longrightarrow> n < 256" for n using bit_imp_le_length by fastforce
  have "length (filter (bit ?b) [0..<256]) = card {n. bit ?b n}"
  proof -
    have "length (filter (bit ?b) [0..<256]) = card (set (filter (bit ?b) [0..<256]))"
      by (rule distinct_card [symmetric]) simp
    also have "set (filter (bit ?b) [0..<256]) = {n. bit ?b n}" using low by auto
    finally show ?thesis .
  qed
  then have "only_button i d \<longleftrightarrow> bit ?b (unat d) \<and> card {n. bit ?b n} = 1" by (simp add: only_button_def)
  also have "\<dots> \<longleftrightarrow> {n. bit ?b n} = {unat d}"
  proof
    assume a: "bit ?b (unat d) \<and> card {n. bit ?b n} = 1"
    then obtain x where x: "{n. bit ?b n} = {x}" by (elim conjE card_1_singletonE)
    have "unat d \<in> {x}" unfolding x [symmetric] using a by simp
    with x show "{n. bit ?b n} = {unat d}" by simp
  next
    assume "{n. bit ?b n} = {unat d}"
    then show "bit ?b (unat d) \<and> card {n. bit ?b n} = 1" by auto
  qed
  also have "\<dots> \<longleftrightarrow> ?b \<noteq> 0 \<and> unset_bit (unat d) ?b = 0"
  proof
    assume s: "{n. bit ?b n} = {unat d}"
    then have u: "bit ?b (unat d)" "bit ?b n \<Longrightarrow> n = unat d" for n by blast+
    then have "?b \<noteq> 0" by auto
    moreover have "unset_bit (unat d) ?b = 0"
      by (intro bit_eqI) (auto simp: bit_unset_bit_iff dest: u(2))
    ultimately show "?b \<noteq> 0 \<and> unset_bit (unat d) ?b = 0" by simp
  next
    assume z: "?b \<noteq> 0 \<and> unset_bit (unat d) ?b = 0"
    have "bit ?b n \<Longrightarrow> n = unat d" for n
      using z bit_unset_bit_iff [of "unat d" ?b n] by auto
    moreover have "\<exists>n. bit ?b n" using z bit_eqI [of ?b 0] by auto
    ultimately show "{n. bit ?b n} = {unat d}" by auto
  qed
  finally show ?thesis .
qed

text \<open>The grab the cursor is computed for is the grab the commit leaves.\<close>

definition grab_after :: "u8 \<Rightarrow> u8 \<Rightarrow> active_grab option \<Rightarrow> active_grab option \<Rightarrow> server_state \<Rightarrow> active_grab option" where
  "grab_after event_type detail activated automatic s =
     (let held = inPointerGrab (ssInput s)
      in if event_type = 5 \<and> held \<noteq> None \<and> (agPassive (the held) \<or> agAutomatic (the held)) \<and> only_button (ssInput s) detail
         then None
         else if automatic \<noteq> None then automatic
         else if activated \<noteq> None \<and> (event_type = 4 \<or> event_type = 5) then activated else held)"

lemma commit_state_fields [simp]:
  "inPointerGrab (ssInput (commit_state ty d pos s)) = inPointerGrab (ssInput s)"
  "inKeyboardGrab (ssInput (commit_state ty d pos s)) = inKeyboardGrab (ssInput s)"
  "inFocus (ssInput (commit_state ty d pos s)) = inFocus (ssInput s)"
  "ssWindows (commit_state ty d pos s) = ssWindows s"
  "ssEventQueues (commit_state ty d pos s) = ssEventQueues s"
  "ssPendingEvents (commit_state ty d pos s) = ssPendingEvents s"
  "ssPassiveGrabs (commit_state ty d pos s) = ssPassiveGrabs s"
  "inPointerX (ssInput (commit_state ty d pos s)) = (if ty = 6 then fst pos else inPointerX (ssInput s))"
  "inPointerY (ssInput (commit_state ty d pos s)) = (if ty = 6 then snd pos else inPointerY (ssInput s))"
  "inPressedKeys (ssInput (commit_state ty d pos s)) = prospective_keys (ssInput s) ty d"
  "inXkb (ssInput (commit_state ty d pos s)) = prospective_xkb (ssInput s) ty d"
  "inPressedButtons (ssInput (commit_state ty d pos s)) = prospective_buttons (ssInput s) ty d"
  by (auto simp: commit_state_def refresh_modifier_button_mask_def prospective_keys_def prospective_xkb_def
      prospective_buttons_def Let_def)

lemma commit_state_mask:
  "inModifierButtonMask (ssInput (commit_state ty d pos s)) = modifier_button_state (ssInput (commit_state ty d pos s))"
  by (simp add: commit_state_def refresh_modifier_button_mask_def modifier_button_state_def xkb_base_modifiers_def
      group_pressed_def)

lemma commit_grabs_fields [simp]:
  "inFocus (ssInput (commit_grabs ty act auto rel fr s)) = inFocus (ssInput s)"
  "ssWindows (commit_grabs ty act auto rel fr s) = ssWindows s"
  "ssEventQueues (commit_grabs ty act auto rel fr s) = ssEventQueues s"
  "ssPendingEvents (commit_grabs ty act auto rel fr s) = ssPendingEvents s"
  "ssPassiveGrabs (commit_grabs ty act auto rel fr s) = ssPassiveGrabs s"
  "inPointerX (ssInput (commit_grabs ty act auto rel fr s)) = inPointerX (ssInput s)"
  "inPointerY (ssInput (commit_grabs ty act auto rel fr s)) = inPointerY (ssInput s)"
  "inPressedKeys (ssInput (commit_grabs ty act auto rel fr s)) = inPressedKeys (ssInput s)"
  "inXkb (ssInput (commit_grabs ty act auto rel fr s)) = inXkb (ssInput s)"
  "inPressedButtons (ssInput (commit_grabs ty act auto rel fr s)) = inPressedButtons (ssInput s)"
  "inModifierMap (ssInput (commit_grabs ty act auto rel fr s)) = inModifierMap (ssInput s)"
  "inModifierKeysPerGroup (ssInput (commit_grabs ty act auto rel fr s)) = inModifierKeysPerGroup (ssInput s)"
  "inModifierButtonMask (ssInput (commit_grabs ty act auto rel fr s)) = inModifierButtonMask (ssInput s)"
  by (simp_all add: commit_grabs_def Let_def split: option.split)

lemma commit_repeat_fields [simp]:
  "ssInput (commit_repeat now ty d s) = ssInput s"
  "ssWindows (commit_repeat now ty d s) = ssWindows s"
  "ssPassiveGrabs (commit_repeat now ty d s) = ssPassiveGrabs s"
  "ssEventQueues (commit_repeat now ty d s) = ssEventQueues s"
  "ssPendingEvents (commit_repeat now ty d s) = ssPendingEvents s"
  by (simp_all add: commit_repeat_def Let_def)

lemma commit_grabs_pointer:
  assumes held: "press_held s" and act: "activated \<noteq> None \<Longrightarrow> ty = 2 \<or> ty = 4" and auto: "automatic \<noteq> None \<Longrightarrow> ty = 4"
  shows "inPointerGrab (ssInput (commit_grabs ty activated automatic rel fr (commit_state ty d pos s))) =
    grab_after ty d activated automatic s"
proof (cases "ty = 5")
  case True
  then have none: "activated = None" "automatic = None" using act auto by fastforce+
  have "inPressedButtons (ssInput s) \<noteq> 0 \<or> (\<forall>g. inPointerGrab (ssInput s) = Some g \<longrightarrow> \<not> (agPassive g \<or> agAutomatic g))"
    using held by (auto simp: press_held_def)
  with True none show ?thesis
    by (auto simp: commit_grabs_def grab_after_def Let_def only_button_iff prospective_buttons_def
        split: option.split if_split)
next
  case False
  then show ?thesis
    using act auto by (cases activated; cases automatic)
      (auto simp: commit_grabs_def grab_after_def Let_def split: option.split)
qed

lemma press_held_after:
  assumes held: "press_held s" and act: "activated \<noteq> None \<Longrightarrow> ty = 2 \<or> ty = 4" and auto: "automatic \<noteq> None \<Longrightarrow> ty = 4"
    and g: "grab_after ty d activated automatic s = Some g" "agPassive g \<or> agAutomatic g"
  shows "prospective_buttons (ssInput s) ty d \<noteq> 0"
proof (cases "ty = 4")
  case True
  have "unat d < 2 ^ LENGTH(8)" by (rule unsigned_less)
  then have "bit (set_bit (unat d) (inPressedButtons (ssInput s))) (unat d)" by (simp add: bit_set_bit_iff)
  with True show ?thesis by (auto simp: prospective_buttons_def)
next
  case False
  with act auto g held have "inPointerGrab (ssInput s) = Some g" "inPressedButtons (ssInput s) \<noteq> 0"
    by (auto simp: grab_after_def Let_def press_held_def split: if_splits)
  with g False show ?thesis
    by (auto simp: prospective_buttons_def grab_after_def Let_def only_button_iff split: if_splits)
qed

lemma modifier_state_commit [simp]:
  "modifier_button_state (ssInput (commit_grabs ty act auto rel fr s)) = modifier_button_state (ssInput s)"
  by (simp add: modifier_button_state_def xkb_base_modifiers_def group_pressed_def)

lemma commit_grabs_keyboard:
  "inKeyboardGrab (ssInput (commit_grabs ty activated automatic rel fr s)) =
     (if rel then None
      else if activated \<noteq> None \<and> (ty = 2 \<or> ty = 3) then activated else inKeyboardGrab (ssInput s))"
  by (auto simp: commit_grabs_def Let_def split: option.split)

text \<open>What the last part of the handler does, once everything before it is planned.\<close>

lemma finish_input_run:
  assumes ok: "tree_ok s" "queues_ok s"
  shows "\<exists>r s'. finish_input now ty d pos pointer source event grab pg delivered fr act auto rel es s = Some (r, s') \<and>
    (r = QueueFull \<and> s' = s \<or>
     (\<exists>s1 shape eq n. r \<noteq> QueueFull \<and> current_cursor_for s pointer pg = Some shape \<and>
        s1 = s\<lparr>ssEventQueues := eq, ssPendingEvents := n\<rparr> \<and> queues_ok s1 \<and>
        (\<forall>c. \<exists>more. queued_events s1 c = queued_events s c @ more) \<and>
        s' = (commit_repeat now ty d (commit_grabs ty act auto rel fr (commit_state ty d pos s1)))
               \<lparr>ssDisplayedCursor := shape\<rparr>))"
proof -
  let ?i = "ssInput s"
  obtain shape where shape: "current_cursor_for s pointer pg = Some shape" using current_cursor_for_returns [OF ok(1)] by blast
  obtain shown es1 where shown: "append_cursor_change s shape es = (shown, es1)" "shown \<noteq> QueueFull"
    using append_cursor_change_eq [of s shape es] by (cases "append_cursor_change s shape es") auto
  define es2 where "es2 = append_xkb_state_events s (xkb_state s) (xkb_state_after ?i ty d)
    (if ty = 2 \<or> ty = 3 then d else 0) ty 0 0 es1"
  obtain es3 where es3: "append_xi2_input_events s ty (ivDetail event) d source (fst pos) (snd pos)
      (inModifierButtonMask ?i) (xkb_state s) 0 grab es2 = Some (es2 @ es3)"
    using append_xi2_returns [OF ok(1)] by blast
  obtain q s1 where q: "queue_events_atomically (es2 @ es3) s = (q, s1)" by fastforce
  have run: "finish_input now ty d pos pointer source event grab pg delivered fr act auto rel es s =
      Some (if \<not> q then (QueueFull, s1)
            else (if shown = Delivered \<or> delivered \<or> length (es2 @ es3) \<noteq> length es2 then Delivered else NoRecipient,
                  (commit_repeat now ty d (commit_grabs ty act auto rel fr (commit_state ty d pos s1)))
                    \<lparr>ssDisplayedCursor := shape\<rparr>))"
    using shape shown es3 q by (simp add: finish_input_def Let_def es2_def [symmetric])
  from ok(2) q show ?thesis
  proof (cases rule: queue_run)
    case refused
    with run show ?thesis by simp
  next
    case (accepted eq n)
    have r: "(if shown = Delivered \<or> delivered \<or> length (es2 @ es3) \<noteq> length es2 then Delivered else NoRecipient) \<noteq> QueueFull"
      by simp
    show ?thesis unfolding run using accepted shape r by simp blast
  qed
qed

subsection \<open>Injecting input\<close>

lemma key_source_returns:
  assumes ok: "tree_ok s" "input_ok s" and p: "window s pointer \<noteq> None"
  shows "\<exists>source stop. key_source s pointer = Some (source, stop) \<and> (source = 0 \<or> window s source \<noteq> None)"
proof (cases "fsKind (inFocus (ssInput s)) = FocusWindow")
  case True
  then have "window s (fsWindow (inFocus (ssInput s))) \<noteq> None" using ok(2) by (simp add: input_ok_def)
  with True p show ?thesis by (simp add: key_source_def Let_def is_descendant_returns [OF ok(1)])
next
  case False
  with p show ?thesis by (cases "fsKind (inFocus (ssInput s))") (simp_all add: key_source_def)
qed

lemma find_passive_returns:
  assumes ok: "tree_ok s"
  shows "\<exists>f. find_passive s kind detail modifiers source ps = Some f \<and> (\<forall>p. f = Some p \<longrightarrow> p \<in> set ps)"
  by (induction ps) (auto simp: is_descendant_returns [OF ok])

lemma activated_grab_returns:
  assumes ok: "tree_ok s" "passive_windows_ok s"
  obtains activated where "activated_grab s ty detail source held = Some activated"
    "activated \<noteq> None \<Longrightarrow> held = None \<and> (ty = 2 \<or> ty = 4)"
    "\<And>g. activated = Some g \<Longrightarrow> window s (agWindow g) \<noteq> None \<and> agPassive g"
proof (cases "held = None \<and> (ty = 2 \<or> ty = 4)")
  case True
  let ?m = "inModifierButtonMask (ssInput s) AND all_modifiers_mask"
  obtain f where "find_passive s (if ty = 2 then GrabsKey else GrabsButton) detail ?m source (ssPassiveGrabs s) = Some f"
    "\<forall>p. f = Some p \<longrightarrow> p \<in> set (ssPassiveGrabs s)" using find_passive_returns [OF ok(1)] by blast
  with True ok(2) show ?thesis
    by (intro that [of "map_option (activated_from s detail) f"])
      (auto simp: activated_grab_def activated_from_def passive_windows_ok_def)
qed (auto simp: activated_grab_def intro: that)

lemma automatic_grab_window: "automatic_grab s es = Some g \<Longrightarrow> window s (agWindow g) \<noteq> None \<and> agAutomatic g"
  by (auto simp: automatic_grab_def split: option.splits)

lemma append_route_returns:
  assumes ok: "tree_ok s" and src: "window s source \<noteq> None"
    and held: "\<And>g. grab = Some g \<Longrightarrow> window s (agWindow g) \<noteq> None"
  shows "\<exists>d es. route_input_event s event m source stop pointer grab events = Some (d, events @ es) \<and> d \<noteq> QueueFull"
proof -
  obtain d where d: "route_destination s m source stop grab = Some d" using route_destination_returns [OF ok src] by blast
  have "\<exists>e. routed_event s event pointer k = Some e" for k
  proof -
    have "\<exists>p. absolute_position s k = Some p"
      using absolute_position_returns [OF ok, of k] by (cases "window s k") (auto simp: absolute_position_def position_from.simps)
    with routed_child_returns [OF ok, of k pointer] show ?thesis by (auto simp: routed_event_def)
  qed
  then obtain e where e: "routed_event s event pointer k = Some (e k)" for k by metis
  show ?thesis by (cases d) (auto simp: route_input_event_def d e)
qed

lemma when_planned_route:
  assumes "tree_ok s" and "condition \<Longrightarrow> window s source \<noteq> None" and "\<And>g. grab = Some g \<Longrightarrow> window s (agWindow g) \<noteq> None"
  shows "\<exists>d es. when_planned condition (route_input_event s event m source stop pointer grab) events =
    Some (d, events @ es) \<and> d \<noteq> QueueFull"
proof (rule when_planned_returns)
  assume condition
  then show "\<exists>d es. route_input_event s event m source stop pointer grab events = Some (d, events @ es) \<and> d \<noteq> QueueFull"
    by (rule append_route_returns [OF assms(1) assms(2) assms(3)])
qed

lemma inject_input_plan:
  assumes ok: "tree_ok s" "input_ok s" "passive_windows_ok s"
    and free: "(if (ty = 4 \<or> ty = 5) \<or> ty = 6 then frozen_pointer s else None) = None"
  shows "\<exists>pointer source event grab delivered fr act auto rel es.
    deepest_window_at s root_window_id (fst (event_position s ty rx ry)) (snd (event_position s ty rx ry)) = Some pointer \<and>
    (act \<noteq> None \<longrightarrow> ty = 2 \<or> ty = 4) \<and> (auto \<noteq> None \<longrightarrow> ty = 4) \<and>
    (\<forall>g. act = Some g \<or> auto = Some g \<longrightarrow> window s (agWindow g) \<noteq> None) \<and>
    inject_input now ty d rx ry s = finish_input now ty d (event_position s ty rx ry) pointer source event grab
      (grab_after ty d act auto s) delivered fr act auto rel es s"
proof -
  obtain x y where xy: "event_position s ty rx ry = (x, y)" by fastforce
  have root: "window s root_window_id \<noteq> None" using tree_okD(3) [OF ok(1)] by auto
  obtain pointer where p: "deepest_window_at s root_window_id x y = Some pointer" "window s pointer \<noteq> None"
    using deepest_window_at_descends [OF ok(1) root, of x y] by fastforce
  obtain previous where prev: "(if ty = 6 then pointer_window s else Some pointer) = Some previous" "window s previous \<noteq> None"
    using pointer_window_exists [OF ok(1)] p(2) by (cases "ty = 6") auto
  obtain source stop where src: "(if ty = 2 \<or> ty = 3 then key_source s pointer else Some (pointer, root_window_id)) = Some (source, stop)"
    "source = 0 \<or> window s source \<noteq> None"
    using key_source_returns [OF ok(1,2) p(2)] p(2) by (cases "ty = 2 \<or> ty = 3") fastforce+
  define wire where "wire = (if ty = 4 \<or> ty = 5 then inPointerMap (ssInput s) ! (unat d - 1) else d)"
  define held where "held = (if ty = 2 \<or> ty = 3 then inKeyboardGrab (ssInput s) else inPointerGrab (ssInput s))"
  have heldw: "held = Some g \<Longrightarrow> window s (agWindow g) \<noteq> None" for g
    using ok(2) by (auto simp: held_def input_ok_def split: if_splits)
  obtain act where act: "activated_grab s ty wire source held = Some act"
    "act \<noteq> None \<Longrightarrow> held = None \<and> (ty = 2 \<or> ty = 4)"
    "\<And>g. act = Some g \<Longrightarrow> window s (agWindow g) \<noteq> None \<and> agPassive g"
    using activated_grab_returns [OF ok(1,3)] by metis
  define grab where "grab = (if held = None then act else held)"
  have grabw: "grab = Some g \<Longrightarrow> window s (agWindow g) \<noteq> None" for g
    using heldw act(3) by (auto simp: grab_def split: if_splits)
  let ?i = "ssInput s"
  let ?state = "inModifierButtonMask ?i"
  define event where "event = injected_event s ty wire (x, y)"
  have focusw: "fsKind (inFocus ?i) = FocusWindow \<Longrightarrow> window s (fsWindow (inFocus ?i)) \<noteq> None"
    using ok(2) by (simp add: input_ok_def)
  obtain d1 es1 where 1: "when_planned (ty = 6 \<and> previous \<noteq> pointer)
      (append_crossing_events s previous pointer x y ?state 0 grab (inFocus ?i)) [] = Some (d1, es1)" "d1 \<noteq> QueueFull"
    using when_planned_crossing [OF ok(1), of "ty = 6 \<and> previous \<noteq> pointer" previous pointer] prev(2) p(2)
    by (metis append_Nil)
  have c2: "ty = 4 \<and> act \<noteq> None \<Longrightarrow> window s pointer \<noteq> None \<and> window s (agWindow (the act)) \<noteq> None"
    using act(3) p(2) by auto
  obtain d2 es2 where 2: "when_planned (ty = 4 \<and> act \<noteq> None)
      (append_crossing_events s pointer (agWindow (the act)) x y (state_after_press ?state d) 1 None (inFocus ?i)) es1 =
      Some (d2, es2)" "d2 \<noteq> QueueFull"
    using when_planned_crossing [OF ok(1) c2] by blast
  have c3: "ty = 2 \<and> act \<noteq> None \<Longrightarrow> fsKind (focus_on_grab s (the act)) = FocusWindow \<Longrightarrow>
      window s (fsWindow (focus_on_grab s (the act))) \<noteq> None"
    using act(3) by (auto simp: focus_on_grab_def)
  obtain d3 es3 where 3: "when_planned (ty = 2 \<and> act \<noteq> None)
      (append_focus_events s (inFocus ?i) (focus_on_grab s (the act)) 1 pointer) es2 = Some (d3, es3)" "d3 \<noteq> QueueFull"
    using when_planned_focus [OF ok(1) p(2) focusw c3] by blast
  obtain d4 es4 where 4: "when_planned (source \<noteq> 0 \<and> \<not> ((ty = 4 \<or> ty = 5) \<and> wire = 0))
      (route_input_event s event (input_mask ?i ty) source stop pointer grab) es3 = Some (d4, es4)" "d4 \<noteq> QueueFull"
    using when_planned_route [OF ok(1) _ grabw, of "source \<noteq> 0 \<and> \<not> ((ty = 4 \<or> ty = 5) \<and> wire = 0)" source] src(2) by blast
  define auto where "auto = (if ty = 4 \<and> grab = None \<and> d4 = Delivered then automatic_grab s (drop (length es3) es4) else None)"
  have autow: "auto = Some g \<Longrightarrow> window s (agWindow g) \<noteq> None" for g
    using automatic_grab_window by (auto simp: auto_def split: if_splits)
  have c5: "auto \<noteq> None \<Longrightarrow> window s pointer \<noteq> None \<and> window s (agWindow (the auto)) \<noteq> None"
    using autow p(2) by auto
  obtain d5 es5 where 5: "when_planned (auto \<noteq> None)
      (append_crossing_events s pointer (agWindow (the auto)) x y (state_after_press ?state d) 1 None (inFocus ?i)) es4 =
      Some (d5, es5)" "d5 \<noteq> QueueFull"
    using when_planned_crossing [OF ok(1) c5] by blast
  define relp where "relp \<longleftrightarrow> ty = 5 \<and> grab \<noteq> None \<and> (agPassive (the grab) \<or> agAutomatic (the grab)) \<and> only_button ?i d"
  define relk where "relk \<longleftrightarrow> ty = 3 \<and> grab \<noteq> None \<and> agPassive (the grab) \<and> agPassiveDetail (the grab) = d"
  have c6: "relp \<Longrightarrow> window s (agWindow (the grab)) \<noteq> None \<and> window s pointer \<noteq> None"
    using grabw p(2) by (auto simp: relp_def)
  have c7: "relk \<Longrightarrow> fsKind (focus_on_grab s (the grab)) = FocusWindow \<Longrightarrow>
      window s (fsWindow (focus_on_grab s (the grab))) \<noteq> None"
    using grabw by (auto simp: relk_def focus_on_grab_def)
  obtain d6 es6 where 6: "when_planned relp
      (append_crossing_events s (agWindow (the grab)) pointer x y (state_after_release ?state d) 2 None (inFocus ?i)) es5 =
      Some (d6, es6)" "d6 \<noteq> QueueFull"
    using when_planned_crossing [OF ok(1) c6] by blast
  obtain d7 es7 where 7: "when_planned relk
      (append_focus_events s (focus_on_grab s (the grab)) (inFocus ?i) 2 pointer) es6 = Some (d7, es7)" "d7 \<noteq> QueueFull"
    using when_planned_focus [OF ok(1) p(2) c7 focusw] by blast
  have after: "(if relp then None else if auto \<noteq> None then auto else if act \<noteq> None \<and> (ty = 4 \<or> ty = 5) then act
      else inPointerGrab ?i) = grab_after ty d act auto s"
    using act(2) by (auto simp: grab_after_def relp_def grab_def held_def Let_def)
  have "inject_input now ty d rx ry s = finish_input now ty d (x, y) pointer source event grab (grab_after ty d act auto s)
      (Delivered \<in> {d1, d2, d3, d4, d5, d6, d7}) \<lparr>fpEvent = event, fpMask = input_mask ?i ty, fpSource = source,
        fpPropagationStop = stop, fpPointerWindow = pointer, fpPending = []\<rparr> act auto relk es7 s"
    unfolding inject_input_def Let_def free option.case xy prod.case p(1) prev(1) src(1) bind.simps(2)
      wire_def [symmetric] held_def [symmetric] act(1) grab_def [symmetric] event_def [symmetric] 1(1)
      unless_full_Some [OF 1(2)] 2(1) unless_full_Some [OF 2(2)] 3(1) unless_full_Some [OF 3(2)] 4(1)
      unless_full_Some [OF 4(2)] auto_def [symmetric] 5(1) unless_full_Some [OF 5(2)] relp_def [symmetric]
      relk_def [symmetric] 6(1) unless_full_Some [OF 6(2)] 7(1) unless_full_Some [OF 7(2)] after
    by simp
  moreover have "(act \<noteq> None \<longrightarrow> ty = 2 \<or> ty = 4) \<and> (auto \<noteq> None \<longrightarrow> ty = 4)" using act(2) by (simp add: auto_def)
  moreover have "\<forall>g. act = Some g \<or> auto = Some g \<longrightarrow> window s (agWindow g) \<noteq> None" using act(3) autow by blast
  ultimately show ?thesis using p(1) unfolding xy fst_conv snd_conv by blast
qed

lemma inject_input_run:
  assumes ok: "tree_ok s" "queues_ok s" "input_ok s" "passive_windows_ok s" "press_held s"
    and free: "(if (ty = 4 \<or> ty = 5) \<or> ty = 6 then frozen_pointer s else None) = None"
  shows "\<exists>r s'. inject_input now ty d rx ry s = Some (r, s') \<and>
    (if r = QueueFull then s' = s
     else queues_ok s' \<and> ssWindows s' = ssWindows s \<and> input_ok s' \<and> press_held s' \<and> cursor_shown s' \<and>
       inModifierButtonMask (ssInput s') = modifier_button_state (ssInput s') \<and>
       (inPointerX (ssInput s'), inPointerY (ssInput s')) = event_position s ty rx ry \<and>
       inPressedKeys (ssInput s') = prospective_keys (ssInput s) ty d \<and>
       inPressedButtons (ssInput s') = prospective_buttons (ssInput s) ty d \<and>
       inXkb (ssInput s') = prospective_xkb (ssInput s) ty d \<and> inFocus (ssInput s') = inFocus (ssInput s) \<and>
       ssPassiveGrabs s' = ssPassiveGrabs s \<and>
       (\<forall>c. \<exists>more. queued_events s' c = queued_events s c @ more))"
proof -
  let ?pos = "event_position s ty rx ry"
  obtain pointer source event grab delivered fr act auto rel es where P:
    "deepest_window_at s root_window_id (fst ?pos) (snd ?pos) = Some pointer"
    "act \<noteq> None \<Longrightarrow> ty = 2 \<or> ty = 4" "auto \<noteq> None \<Longrightarrow> ty = 4"
    "\<And>g. act = Some g \<or> auto = Some g \<Longrightarrow> window s (agWindow g) \<noteq> None"
    "inject_input now ty d rx ry s = finish_input now ty d ?pos pointer source event grab
      (grab_after ty d act auto s) delivered fr act auto rel es s"
    using inject_input_plan [OF ok(1,3,4) free, of rx ry now d] by blast
  obtain r s' where run: "inject_input now ty d rx ry s = Some (r, s')"
    and alt: "r = QueueFull \<and> s' = s \<or>
     (\<exists>s1 shape eq n. r \<noteq> QueueFull \<and> current_cursor_for s pointer (grab_after ty d act auto s) = Some shape \<and>
        s1 = s\<lparr>ssEventQueues := eq, ssPendingEvents := n\<rparr> \<and> queues_ok s1 \<and>
        (\<forall>c. \<exists>more. queued_events s1 c = queued_events s c @ more) \<and>
        s' = (commit_repeat now ty d (commit_grabs ty act auto rel fr (commit_state ty d ?pos s1)))
               \<lparr>ssDisplayedCursor := shape\<rparr>)"
    using finish_input_run [OF ok(1,2), of now ty d ?pos pointer source event grab "grab_after ty d act auto s"
        delivered fr act auto rel es] unfolding P(5) by blast
  show ?thesis
  proof (cases "r = QueueFull")
    case True
    with run alt show ?thesis by auto
  next
    case False
    then obtain s1 shape eq n where C: "current_cursor_for s pointer (grab_after ty d act auto s) = Some shape"
        "s1 = s\<lparr>ssEventQueues := eq, ssPendingEvents := n\<rparr>" "queues_ok s1"
        "\<forall>c. \<exists>more. queued_events s1 c = queued_events s c @ more"
        "s' = (commit_repeat now ty d (commit_grabs ty act auto rel fr (commit_state ty d ?pos s1)))
               \<lparr>ssDisplayedCursor := shape\<rparr>"
      using alt by blast
    have held: "press_held s1" using ok(5) by (simp add: press_held_def C(2))
    have ga: "grab_after ty d act auto s1 = grab_after ty d act auto s" by (simp add: grab_after_def C(2))
    have wins: "ssWindows s' = ssWindows s" "window s' k = window s k" for k by (simp_all add: C(2,5) window_def)
    have pos: "(inPointerX (ssInput s'), inPointerY (ssInput s')) = ?pos"
      by (simp add: C(2,5) event_position_def Let_def)
    have grab: "inPointerGrab (ssInput s') = grab_after ty d act auto s"
      unfolding C(5) ga [symmetric] by (simp, rule commit_grabs_pointer) (use held P(2,3) in auto)
    have kbd: "inKeyboardGrab (ssInput s') = (if rel then None
        else if act \<noteq> None \<and> (ty = 2 \<or> ty = 3) then act else inKeyboardGrab (ssInput s))"
      by (simp add: C(2,5) commit_grabs_keyboard)
    have same: "recursored (\<lambda>c. c) s s'" by (rule recursored_same) (rule wins(1))
    have "pointer_window s' = Some pointer"
      using deepest_recursored [OF same P(1)] pos unfolding pointer_window_def by (metis fst_conv snd_conv)
    then have "cursor_shown s'"
      using current_cursor_for_recursored [OF same _ C(1)] grab
      by (simp add: cursor_shown_def current_cursor_def C(5) option.map_ident)
    moreover have "input_ok s'"
      using ok(3) P(4) unfolding input_ok_def wins grab kbd by (auto simp: C(2,5) grab_after_def Let_def split: if_splits)
    moreover have "press_held s'"
      using press_held_after [OF ok(5) _ _, of act ty auto d] P(2,3) unfolding press_held_def grab
      by (auto simp: C(2,5))
    moreover have "queues_ok s'" "queued_events s' c = queued_events s1 c" for c
      using C(3) by (simp_all add: C(5) queues_ok_def queued_events_def)
    moreover have "inModifierButtonMask (ssInput s') = modifier_button_state (ssInput s')"
      by (simp add: C(5) commit_state_mask)
    ultimately show ?thesis using run False wins(1) pos C(4) by (auto simp: C(2,5))
  qed
qed

text \<open>What input handling relies on and keeps.\<close>

definition input_inv :: "server_state \<Rightarrow> bool" where
  "input_inv s \<longleftrightarrow> tree_ok s \<and> queues_ok s \<and> input_ok s \<and> passive_windows_ok s \<and> press_held s"

lemma input_inv_frame:
  assumes "input_inv s" "queues_ok s'" "ssWindows s' = ssWindows s" "input_ok s'" "press_held s'"
    "ssPassiveGrabs s' = ssPassiveGrabs s"
  shows "input_inv s'"
  using assms tree_ok_cong [OF assms(3)] by (simp add: input_inv_def passive_windows_ok_def window_def)

text \<open>C9. An input event is handled entirely or not at all.  From a state whose tree, queues, held
  windows and passive grabs are sound, every injected event returns, and the state it leaves is sound.
  While a synchronous grab freezes the pointer, a button or motion event is only put at the end of
  the held-back input, unless that is full.  Otherwise either a queue was full and nothing changed,
  or the event took effect: the keys, buttons, locks and the pointer (which no barrier let through)
  are what the event leaves, the modifier mask is the one they determine, the cursor shown is the
  one in force under the grab that results, the focus and the tree are as before, and every client's
  queue has only grown.\<close>

theorem inject_input_effect:
  assumes inv: "input_inv s"
  shows "\<exists>r s'. inject_input now ty d rx ry s = Some (r, s') \<and> input_inv s' \<and> (r = QueueFull \<longrightarrow> s' = s) \<and>
    (r \<noteq> QueueFull \<longrightarrow>
      (case (if (ty = 4 \<or> ty = 5) \<or> ty = 6 then frozen_pointer s else None) of
         Some f \<Rightarrow> r = NoRecipient \<and> s' = on_input (\<lambda>i. i\<lparr>inFrozenPointerEvent := Some (f\<lparr>fpPending := fpPending f @
             [\<lparr>piType = ty, piDetail = d, piRootX = rx, piRootY = ry\<rparr>]\<rparr>)\<rparr>) s
       | None \<Rightarrow> cursor_shown s' \<and> ssWindows s' = ssWindows s \<and> inFocus (ssInput s') = inFocus (ssInput s) \<and>
           inModifierButtonMask (ssInput s') = modifier_button_state (ssInput s') \<and>
           (inPointerX (ssInput s'), inPointerY (ssInput s')) = event_position s ty rx ry \<and>
           inPressedKeys (ssInput s') = prospective_keys (ssInput s) ty d \<and>
           inPressedButtons (ssInput s') = prospective_buttons (ssInput s) ty d \<and>
           inXkb (ssInput s') = prospective_xkb (ssInput s) ty d \<and>
           (\<forall>c. \<exists>more. queued_events s' c = queued_events s c @ more)))"
proof (cases "if (ty = 4 \<or> ty = 5) \<or> ty = 6 then frozen_pointer s else None")
  case None
  note I = inv [unfolded input_inv_def]
  obtain r s' where "inject_input now ty d rx ry s = Some (r, s')" and R: "if r = QueueFull then s' = s
     else queues_ok s' \<and> ssWindows s' = ssWindows s \<and> input_ok s' \<and> press_held s' \<and> cursor_shown s' \<and>
       inModifierButtonMask (ssInput s') = modifier_button_state (ssInput s') \<and>
       (inPointerX (ssInput s'), inPointerY (ssInput s')) = event_position s ty rx ry \<and>
       inPressedKeys (ssInput s') = prospective_keys (ssInput s) ty d \<and>
       inPressedButtons (ssInput s') = prospective_buttons (ssInput s) ty d \<and>
       inXkb (ssInput s') = prospective_xkb (ssInput s) ty d \<and> inFocus (ssInput s') = inFocus (ssInput s) \<and>
       ssPassiveGrabs s' = ssPassiveGrabs s \<and>
       (\<forall>c. \<exists>more. queued_events s' c = queued_events s c @ more)"
    using inject_input_run [OF _ _ _ _ _ None] I by metis
  moreover have "input_inv s'" using R inv input_inv_frame [OF inv, of s'] by (cases "r = QueueFull") simp_all
  ultimately show ?thesis unfolding None by (cases "r = QueueFull") auto
next
  case (Some f)
  then have e: "inject_input now ty d rx ry s = Some (freeze_pending ty d rx ry f s)"
    by (simp add: inject_input_def Let_def)
  have "input_inv (on_input (\<lambda>i. i\<lparr>inFrozenPointerEvent := g\<rparr>) s)" for g
    using inv by (intro input_inv_frame [OF inv]) (simp_all add: input_inv_def input_ok_def press_held_def queues_ok_def window_def)
  with inv show ?thesis unfolding e Some by (simp add: freeze_pending_def)
qed

text \<open>An application starts with nothing held: the initial screen with two windows.\<close>

lemma two_children_inv: "input_inv two_children_state"
  using two_children_ok two_children_input_ok
  by (simp add: input_inv_def passive_windows_ok_def press_held_def two_children_state_def initial_state_def)

theorem inject_input_effect_witness:
  "\<exists>r s'. inject_input 0 6 0 100 50 two_children_state = Some (r, s') \<and> input_inv s' \<and>
     (r \<noteq> QueueFull \<longrightarrow> inPointerX (ssInput s') = 100 \<and> inPointerY (ssInput s') = 50)"
proof -
  have f: "frozen_pointer two_children_state = None"
    by (simp add: frozen_pointer_def two_children_state_def initial_state_def)
  have "event_position two_children_state 6 100 50 = (100, 50)"
    by (simp add: event_position_def constrain_pointer_by_barriers_def two_children_state_def initial_state_def Let_def)
  with inject_input_effect [OF two_children_inv, of 0 6 0 100 50] show ?thesis unfolding f by fastforce
qed

subsection \<open>A replay that cannot succeed\<close>

lemma common_ancestor_missing:
  assumes ok: "tree_ok s" and b: "window s b = None"
  shows "lineage s a xs \<Longrightarrow> common_ancestor s a b = Some 0"
proof (induction rule: lineage.induct)
  have no: "is_descendant s b k = Some False" for k by (simp add: is_descendant_def descends.simps b)
  {
    case top
    obtain r where r: "window s root_window_id = Some r" "wnParent r = 0" using tree_okD(3) [OF ok] by blast
    then have "b \<noteq> root_window_id" using b by auto
    with r no show ?case
      by (subst common_ancestor.simps) (simp add: common_ancestor.simps [of s 0 b] root_window_id_def)
  next
    case (above k w xs)
    then have "k \<noteq> b" "k \<noteq> 0" using b tree_okD(2) [OF ok] by auto
    with above no show ?case by (subst common_ancestor.simps) simp
  }
qed

lemma crossing_to_missing:
  assumes ok: "tree_ok s" and a: "window s a \<noteq> None" and b: "window s b = None"
  shows "append_crossing_events s a b x y state mode grab focus events = Some (QueueFull, events)"
proof -
  obtain xs where xs: "lineage s a xs" using lineage_exists [OF ok a] by blast
  have "b \<notin> set (tl xs)" using lineage_windows [OF ok xs in_set_tlD, of b] b by auto
  then have "is_descendant s a b = Some False"
    using is_descendant_lineage [OF ok, of a "tl xs" b] xs lineage_start [OF ok xs] by simp
  moreover have "is_descendant s b a = Some False" by (simp add: is_descendant_def descends.simps b)
  ultimately have "crossing_route s 8 7 a b = Some ([], False)"
    using common_ancestor_missing [OF ok b xs] by (simp add: crossing_route_def)
  moreover have "a \<noteq> b" using a b by auto
  ultimately show ?thesis by (simp add: append_crossing_events_def)
qed

text \<open>C34. When the window that was under the frozen pointer is gone, the replay is always refused, and
  the input held back is lost.  The frozen event keeps the window's identifier after the window has
  been destroyed (the grab survives when its own window does), planning the crossing to a missing
  window fails, and the held-back input has been moved out by then: the request reports full queues
  and leaves the state as it was except that nothing is held back any more.\<close>

theorem replay_to_missing_window:
  assumes ok: "tree_ok s" and g: "inPointerGrab (ssInput s) = Some g" "agOwner g = owner" "agPassive g"
    and held: "window s (agWindow g) \<noteq> None"
    and f: "inFrozenPointerEvent (ssInput s) = Some frozen" and gone: "window s (fpPointerWindow frozen) = None"
    and time: "\<not> earlier_than (ssCurrentTime s) (inPointerGrabTime (ssInput s))"
  shows "allow_events now owner 2 0 s =
    Some (QueueFull, on_input (\<lambda>i. i\<lparr>inFrozenPointerEvent := Some (frozen\<lparr>fpPending := []\<rparr>)\<rparr>) s)"
proof -
  let ?s = "on_input (\<lambda>i. i\<lparr>inFrozenPointerEvent := Some (frozen\<lparr>fpPending := []\<rparr>)\<rparr>) s"
  have t: "tree_ok ?s" using ok tree_ok_cong [of ?s s] by simp
  obtain c where "current_cursor_for ?s (fpPointerWindow frozen) None = Some c"
    using current_cursor_for_returns [OF t] by blast
  moreover have "append_crossing_events ?s (agWindow g) (fpPointerWindow frozen) x y m 2 None focus [] = Some (QueueFull, [])"
    for x y m focus
    by (rule crossing_to_missing [OF t]) (use held gone in \<open>simp_all add: window_def\<close>)
  ultimately have "allow_replay now g frozen s = Some (QueueFull, ?s)"
    by (simp add: allow_replay_def Let_def unless_full_def)
  with g f time show ?thesis by (simp add: allow_events_def later_than_def)
qed

definition frozen_over_missing :: server_state where
  "frozen_over_missing = on_input (\<lambda>i. i
     \<lparr>inPointerGrab := Some (sample_active_grab\<lparr>agPassive := True, agPointerMode := 0\<rparr>), inPointerGrabTime := 1,
      inFrozenPointerEvent := Some \<lparr>fpEvent = injected_event two_children_state 4 1 (3, 4), fpMask = 4,
        fpSource = 9, fpPropagationStop = root_window_id, fpPointerWindow = 9,
        fpPending = [\<lparr>piType = 5, piDetail = 1, piRootX = 3, piRootY = 4\<rparr>]\<rparr>\<rparr>) two_children_state"

theorem replay_to_missing_window_witness:
  "\<exists>s'. allow_events 0 5 2 0 frozen_over_missing = Some (QueueFull, s') \<and>
     map_option fpPending (inFrozenPointerEvent (ssInput frozen_over_missing)) \<noteq> Some [] \<and>
     map_option fpPending (inFrozenPointerEvent (ssInput s')) = Some []"
proof -
  let ?s = frozen_over_missing
  have w: "window ?s k = window two_children_state k" for k by (simp add: window_def frozen_over_missing_def)
  have "ssWindows ?s = ssWindows two_children_state" by (simp add: frozen_over_missing_def)
  then have "tree_ok ?s" using two_children_ok(1) tree_ok_cong by metis
  then have "allow_events 0 5 2 0 ?s =
      Some (QueueFull, on_input (\<lambda>i. i\<lparr>inFrozenPointerEvent := Some ((the (inFrozenPointerEvent (ssInput ?s)))\<lparr>fpPending := []\<rparr>)\<rparr>) ?s)"
    by (rule replay_to_missing_window [of ?s "the (inPointerGrab (ssInput ?s))"])
      (simp_all add: w two_children_window, simp_all add: frozen_over_missing_def sample_active_grab_def root_window_id_def
        earlier_than_def two_children_state_def initial_state_def)
  then show ?thesis by (simp add: frozen_over_missing_def)
qed

end
