(* ===== verification/Window_Mapping.thy ===== *)
theory Window_Mapping
  imports Input
begin

text \<open>
  Mapping and unmapping windows (\<^verbatim>\<open>src/server/server_state.cpp\<close>): \<open>set_window_mapped\<close>,
  \<open>set_subwindows_mapped\<close> and their common part \<open>update_window_mappings\<close>.  The code marks the
  windows first, plans in the marked state what the change costs the focus and the grabs, the
  crossings it causes and the notifications, takes the marks back, delivers everything or nothing,
  and marks the windows again when it was delivered.  The loss of the focus and the grabs
  (\<open>input_loss\<close>, \<open>plan_losses\<close>, \<open>drop_lost\<close>) is shared with \<open>reparent_window\<close>.
\<close>

subsection \<open>Marking windows\<close>

definition mark_window :: "bool \<Rightarrow> u32 \<Rightarrow> server_state \<Rightarrow> server_state" where
  "mark_window mapped k s =
     (case window s k of
        None \<Rightarrow> s
      | Some w \<Rightarrow> if wnId w = root_window_id then s else put_window (w\<lparr>wnMapped := mapped\<rparr>) s)"

definition mark_mapped :: "u32 list \<Rightarrow> bool \<Rightarrow> server_state \<Rightarrow> server_state" where
  "mark_mapped changed mapped s = fold (mark_window mapped) changed s"

subsection \<open>What the focus and the grabs lose\<close>

record input_loss =
  ilFocus :: focus_state
  ilPointerLost :: bool
  ilKeyboardLost :: bool

definition not_viewable :: "server_state \<Rightarrow> u32 \<Rightarrow> bool option" where
  "not_viewable s k = map_option (\<lambda>m. m \<noteq> 2) (map_state s k)"

definition pointer_grab_lost :: "server_state \<Rightarrow> active_grab \<Rightarrow> bool option" where
  "pointer_grab_lost s g =
     Option.bind (not_viewable s (agWindow g)) (\<lambda>lost.
       if lost then Some True
       else if agConfineTo g = 0 then Some False else not_viewable s (agConfineTo g))"

text \<open>\<open>hidden\<close> says whether the change can hide a window at all.\<close>

definition focus_left :: "bool \<Rightarrow> server_state \<Rightarrow> focus_state option" where
  "focus_left hidden s =
     (let focus = inFocus (ssInput s)
      in if hidden \<and> fsKind focus = FocusWindow
         then Option.bind (not_viewable s (fsWindow focus)) (\<lambda>lost.
                if lost then reverted_focus_state 0 s else Some focus)
         else Some focus)"

definition pointer_lost :: "bool \<Rightarrow> server_state \<Rightarrow> bool option" where
  "pointer_lost hidden s =
     (case inPointerGrab (ssInput s) of
        None \<Rightarrow> Some False
      | Some g \<Rightarrow> if hidden then pointer_grab_lost s g else Some False)"

definition keyboard_lost :: "bool \<Rightarrow> server_state \<Rightarrow> bool option" where
  "keyboard_lost hidden s =
     (case inKeyboardGrab (ssInput s) of
        None \<Rightarrow> Some False
      | Some g \<Rightarrow> if hidden then not_viewable s (agWindow g) else Some False)"

definition input_loss_of :: "bool \<Rightarrow> server_state \<Rightarrow> input_loss option" where
  "input_loss_of hidden s =
     Option.bind (focus_left hidden s) (\<lambda>focus.
       Option.bind (pointer_lost hidden s) (\<lambda>pointer.
         Option.bind (keyboard_lost hidden s) (\<lambda>keyboard.
           Some \<lparr>ilFocus = focus, ilPointerLost = pointer, ilKeyboardLost = keyboard\<rparr>)))"

definition kept_pointer_grab :: "input_loss \<Rightarrow> input_state \<Rightarrow> active_grab option" where
  "kept_pointer_grab loss i = (if ilPointerLost loss then None else inPointerGrab i)"

text \<open>The events of the losses, planned in \<open>s\<close>: the lost pointer grab gives the pointer back to the
  window it was over, the lost keyboard grab gives the keyboard back to the focus, then the focus
  moves.  When one cannot be planned the operation ends with the state \<open>restored\<close>.\<close>

definition plan_losses ::
  "server_state \<Rightarrow> server_state \<Rightarrow> input_loss \<Rightarrow> u32 \<Rightarrow>
     (event_delivery list \<Rightarrow> planned_event list \<Rightarrow> (event_delivery \<times> server_state) option) \<Rightarrow>
     (event_delivery \<times> server_state) option" where
  "plan_losses s restored loss old_pointer rest =
     (let i = ssInput s; old = inFocus i; new = ilFocus loss
      in unless_full restored (when_planned (ilPointerLost loss)
           (append_crossing_events s (agWindow (the (inPointerGrab i))) old_pointer
              (inPointerX i) (inPointerY i) (inModifierButtonMask i) 2 None old) []) (\<lambda>d1 es1.
         unless_full restored (when_planned (ilKeyboardLost loss)
           (append_focus_events s (focus_on_grab s (the (inKeyboardGrab i))) old 2 old_pointer) es1) (\<lambda>d2 es2.
         unless_full restored (when_planned (fsKind old \<noteq> fsKind new \<or> fsWindow old \<noteq> fsWindow new)
           (append_focus_events s old new
              (if inKeyboardGrab i \<noteq> None \<and> \<not> ilKeyboardLost loss then 3 else 0) old_pointer) es2) (\<lambda>d3 es3.
         rest [d1, d2, d3] es3))))"

definition drop_lost :: "input_loss \<Rightarrow> server_state \<Rightarrow> server_state" where
  "drop_lost loss s =
     on_input (\<lambda>i. i\<lparr>inFocus := ilFocus loss,
       inPointerGrab := (if ilPointerLost loss then None else inPointerGrab i),
       inFrozenPointerEvent := (if ilPointerLost loss then None else inFrozenPointerEvent i),
       inKeyboardGrab := (if ilKeyboardLost loss then None else inKeyboardGrab i)\<rparr>) s"

subsection \<open>Notifications\<close>

definition visibility_events :: "window_record \<Rightarrow> nat \<Rightarrow> planned_event list" where
  "visibility_events w state =
     concat (map (\<lambda>(client, bits).
       (if bits AND visibility_change_mask \<noteq> 0 then [(client, EvWindow (VisibilityNotify (wnId w) 0))] else []) @
       (if bits AND exposure_mask \<noteq> 0 \<and> wnClass w = InputOutput \<and> state = 2
        then [(client, EvWindow (Expose (wnId w) 0 0 (wnWidth w) (wnHeight w) 0))] else []))
       (wnEventMasks w))"

definition mapping_event :: "bool \<Rightarrow> u32 \<Rightarrow> window_record \<Rightarrow> event_body" where
  "mapping_event mapped event w =
     EvWindow (if mapped then MapNotify event (wnId w) (wnOverrideRedirect w)
               else UnmapNotify event (wnId w) False)"

definition mapping_events :: "server_state \<Rightarrow> bool \<Rightarrow> u32 \<Rightarrow> planned_event list option" where
  "mapping_events s mapped k =
     (case window s k of
        None \<Rightarrow> Some []
      | Some w \<Rightarrow>
          if wnId w = root_window_id then Some []
          else Option.bind (if mapped then map_option (visibility_events w) (map_state s (wnId w)) else Some [])
                 (\<lambda>visible. Some
                   (map (\<lambda>c. (c, mapping_event mapped (wnId w) w)) (mask_recipients w structure_notify_mask) @
                    visible @
                    (case window s (wnParent w) of
                       None \<Rightarrow> []
                     | Some p \<Rightarrow> map (\<lambda>c. (c, mapping_event mapped (wnId p) w))
                                  (mask_recipients p substructure_notify_mask)))))"

fun all_mapping_events :: "server_state \<Rightarrow> bool \<Rightarrow> u32 list \<Rightarrow> planned_event list option" where
  "all_mapping_events s mapped [] = Some []"
| "all_mapping_events s mapped (k # ks) =
     Option.bind (mapping_events s mapped k) (\<lambda>es.
       Option.bind (all_mapping_events s mapped ks) (\<lambda>more. Some (es @ more)))"

subsection \<open>The operations\<close>

definition update_window_mappings ::
  "u32 list \<Rightarrow> bool \<Rightarrow> server_state \<Rightarrow> (event_delivery \<times> server_state) option" where
  "update_window_mappings changed mapped s =
     Option.bind (pointer_window s) (\<lambda>old_pointer.
       let t = mark_mapped changed mapped s; i = ssInput t
       in Option.bind (pointer_window t) (\<lambda>new_pointer.
          Option.bind (input_loss_of (\<not> mapped) t) (\<lambda>loss.
            let restored = mark_mapped changed (\<not> mapped) t; grab = kept_pointer_grab loss i
            in plan_losses t restored loss old_pointer (\<lambda>ds es3.
               unless_full restored (when_planned (old_pointer \<noteq> new_pointer)
                 (append_crossing_events t old_pointer new_pointer (inPointerX i) (inPointerY i)
                    (inModifierButtonMask i) 0 grab (ilFocus loss)) es3) (\<lambda>crossing es4.
               Option.bind (current_cursor_for t new_pointer grab) (\<lambda>shape.
                 let (shown, es5) = append_cursor_change t shape es4
                 in Option.bind (all_mapping_events t mapped changed) (\<lambda>notices.
                    if shown = QueueFull then Some (QueueFull, restored)
                    else
                      let events = es5 @ notices;
                          (queued, s1) = queue_events_atomically events restored
                      in Some (if \<not> queued then (QueueFull, s1)
                               else (if Delivered \<in> set (shown # crossing # ds) \<or> events \<noteq> []
                                     then Delivered else NoRecipient,
                                     invalidate_scene ((drop_lost loss (mark_mapped changed mapped s1))
                                       \<lparr>ssDisplayedCursor := shape\<rparr>))))))))))"

definition set_window_mapped :: "window_record \<Rightarrow> bool \<Rightarrow> server_state \<Rightarrow> (event_delivery \<times> server_state) option" where
  "set_window_mapped candidate mapped s =
     (let mapped = (if wnId candidate = root_window_id then True else mapped)
      in if wnMapped candidate = mapped then Some (NoRecipient, s)
         else update_window_mappings [wnId candidate] mapped s)"

definition set_subwindows_mapped :: "u32 \<Rightarrow> bool \<Rightarrow> server_state \<Rightarrow> (event_delivery \<times> server_state) option" where
  "set_subwindows_mapped k mapped s =
     (case window s k of
        None \<Rightarrow> Some (NoRecipient, s)
      | Some parent \<Rightarrow>
          let changed = filter (\<lambda>c. case window s c of None \<Rightarrow> False | Some w \<Rightarrow> wnMapped w \<noteq> mapped) (wnChildren parent)
          in if changed = [] then Some (NoRecipient, s) else update_window_mappings changed mapped s)"


subsection \<open>Marking keeps the tree\<close>

abbreviation marking :: "u32 list \<Rightarrow> bool \<Rightarrow> u32 \<Rightarrow> window_record \<Rightarrow> window_record" where
  "marking changed mapped k w \<equiv> (if k \<in> set changed \<and> k \<noteq> root_window_id then w\<lparr>wnMapped := mapped\<rparr> else w)"

lemma mark_window_eq:
  assumes "windows_keyed s"
  shows "mark_window mapped k s = s\<lparr>ssWindows := umap_map (marking [k] mapped) (ssWindows s)\<rparr>"
proof -
  note ok = windows_keyedD [OF assms]
  show ?thesis
  proof (cases "window s k")
    case None
    then have "umap_map (marking [k] mapped) (ssWindows s) = ssWindows s"
      using ok(1) by (intro umap_map_same) (auto simp: window_def)
    with None show ?thesis by (simp add: mark_window_def)
  next
    case (Some w)
    have "umap_put k (marking [k] mapped k w) (ssWindows s) = umap_map (marking [k] mapped) (ssWindows s)"
      using ok(1) Some by (subst umap_put_map) (auto simp: window_def intro!: umap_map_cong)
    moreover have "k = root_window_id \<Longrightarrow> umap_map (marking [k] mapped) (ssWindows s) = ssWindows s"
      using ok(1) by (intro umap_map_same) auto
    ultimately show ?thesis using Some ok(2) [OF Some] by (auto simp: mark_window_def put_window_def)
  qed
qed

lemma windows_keyed_map:
  assumes "windows_keyed s" "\<And>k w. wnId (f k w) = wnId w"
  shows "windows_keyed (s\<lparr>ssWindows := umap_map f (ssWindows s)\<rparr>)"
  using windows_keyedD [OF assms(1)] assms(2) by (auto simp: windows_keyed_def window_def)

lemma mark_mapped_eq:
  assumes "windows_keyed s"
  shows "mark_mapped changed mapped s = s\<lparr>ssWindows := umap_map (marking changed mapped) (ssWindows s)\<rparr>"
  using assms
proof (induction changed arbitrary: s)
  case Nil
  then show ?case using windows_keyedD(1) [OF Nil] by (simp add: mark_mapped_def umap_map_same)
next
  case (Cons k ks)
  have "windows_keyed (mark_window mapped k s)"
    unfolding mark_window_eq [OF Cons.prems] by (rule windows_keyed_map [OF Cons.prems]) simp
  note IH = Cons.IH [OF this]
  have "mark_mapped (k # ks) mapped s = mark_mapped ks mapped (mark_window mapped k s)" by (simp add: mark_mapped_def)
  also have "\<dots> = s\<lparr>ssWindows := umap_map (marking (k # ks) mapped) (ssWindows s)\<rparr>"
    unfolding IH unfolding mark_window_eq [OF Cons.prems]
    by (simp add: umap_map_map, rule arg_cong [where f = "\<lambda>ws. s\<lparr>ssWindows := ws\<rparr>"])
      (rule umap_map_cong, auto simp: windows_keyedD(1) [OF Cons.prems])
  finally show ?case .
qed

text \<open>Storing windows whose place in the tree is the same.\<close>

lemma tree_ok_reshaped:
  assumes ok: "tree_ok s" and t: "umap_ok (ssWindows t)" "\<And>k. window t k = map_option (f k) (window s k)"
    and f: "\<And>k w. wnId (f k w) = wnId w" "\<And>k w. wnParent (f k w) = wnParent w" "\<And>k w. wnChildren (f k w) = wnChildren w"
  shows "tree_ok t" "parent_rel t = parent_rel s"
proof -
  have rooted: "rooted s k \<Longrightarrow> rooted t k" for k by (rule rooted_transfer) (auto simp: t(2) f)
  have par: "(\<exists>v. window t c = Some v \<and> wnParent v = k) = (\<exists>v. window s c = Some v \<and> wnParent v = k)" for c k
    by (auto simp: t(2) f)
  show "tree_ok t" unfolding tree_ok_def par
  proof (intro conjI allI impI)
    show "windows_keyed t" using windows_keyedD [OF tree_okD(1) [OF ok]] t f by (auto simp: windows_keyed_def)
    show "window t 0 = None" using tree_okD(2) [OF ok] by (simp add: t(2))
    show "\<exists>r. window s root_window_id = Some r \<and> wnParent r = 0" using tree_okD(3) [OF ok] .
  next
    fix k w assume "window t k = Some w"
    then obtain v where v: "window s k = Some v" "w = f k v" by (auto simp: t(2))
    show "rooted t k" using rooted tree_okD(4) [OF ok v(1)] .
    show "distinct (wnChildren w)" using tree_okD(5) [OF ok v(1)] v(2) f by simp
    show "c \<in> set (wnChildren w) = (c \<noteq> root_window_id \<and> (\<exists>v. window s c = Some v \<and> wnParent v = k))" for c
      using tree_okD(6) [OF ok v(1)] v(2) f by simp
    show "window t (wnParent w) \<noteq> None" if "k \<noteq> root_window_id"
      using tree_okD(7) [OF ok v(1) that] v(2) f by (auto simp: t(2))
  qed
  show "parent_rel t = parent_rel s" by (auto simp: parent_rel_def t(2) f)
qed

lemma mark_mapped_tree_ok:
  assumes ok: "tree_ok s"
  shows "tree_ok (mark_mapped changed mapped s)" "parent_rel (mark_mapped changed mapped s) = parent_rel s"
    "window (mark_mapped changed mapped s) k = map_option (marking changed mapped k) (window s k)"
proof -
  note eq = mark_mapped_eq [OF tree_okD(1) [OF ok], of changed mapped]
  show w: "window (mark_mapped changed mapped s) k = map_option (marking changed mapped k) (window s k)" for k
    unfolding eq by (simp add: window_def)
  have "umap_ok (ssWindows (mark_mapped changed mapped s))" using windows_keyedD(1) [OF tree_okD(1) [OF ok]] by (simp add: eq)
  from tree_ok_reshaped [OF ok this w]
  show "tree_ok (mark_mapped changed mapped s)" "parent_rel (mark_mapped changed mapped s) = parent_rel s" by simp_all
qed

text \<open>Taking the marks back restores the state when every changed window had the other mark.\<close>

definition markable :: "server_state \<Rightarrow> bool \<Rightarrow> u32 list \<Rightarrow> bool" where
  "markable s mapped changed \<longleftrightarrow>
     (\<forall>k \<in> set changed. k \<noteq> root_window_id \<and> (\<exists>w. window s k = Some w \<and> wnMapped w \<noteq> mapped))"

lemma mark_mapped_back:
  assumes "windows_keyed s" "markable s mapped changed"
  shows "mark_mapped changed (\<not> mapped) (mark_mapped changed mapped s) = s"
proof -
  have "windows_keyed (mark_mapped changed mapped s)"
    unfolding mark_mapped_eq [OF assms(1)] by (rule windows_keyed_map [OF assms(1)]) simp
  then have "mark_mapped changed (\<not> mapped) (mark_mapped changed mapped s) =
      s\<lparr>ssWindows := umap_map (\<lambda>k w. marking changed (\<not> mapped) k (marking changed mapped k w)) (ssWindows s)\<rparr>"
    by (simp add: mark_mapped_eq assms(1) umap_map_map)
  also have "umap_map (\<lambda>k w. marking changed (\<not> mapped) k (marking changed mapped k w)) (ssWindows s) = ssWindows s"
    using assms windows_keyedD(1) [OF assms(1)]
    by (intro umap_map_same) (auto simp: markable_def window_def)
  finally show ?thesis by simp
qed


subsection \<open>What is lost\<close>

text \<open>The grab holds viewable windows.\<close>

definition viewable_grab :: "server_state \<Rightarrow> active_grab \<Rightarrow> bool" where
  "viewable_grab s g \<longleftrightarrow> all_mapped s (agWindow g) \<and> (agConfineTo g \<noteq> 0 \<longrightarrow> all_mapped s (agConfineTo g))"

text \<open>The focus and the grabs hold viewable windows.\<close>

definition input_viewable :: "server_state \<Rightarrow> bool" where
  "input_viewable s \<longleftrightarrow>
     (fsKind (inFocus (ssInput s)) = FocusWindow \<longrightarrow> all_mapped s (fsWindow (inFocus (ssInput s)))) \<and>
     (\<forall>g. inPointerGrab (ssInput s) = Some g \<longrightarrow> viewable_grab s g) \<and>
     (\<forall>g. inKeyboardGrab (ssInput s) = Some g \<longrightarrow> all_mapped s (agWindow g))"

lemma all_mapped_window: "all_mapped s k \<Longrightarrow> window s k \<noteq> None"
  by (auto dest: all_mappedD)

lemma input_viewable_ok: "input_viewable s \<Longrightarrow> input_ok s"
  by (simp add: input_viewable_def input_ok_def viewable_grab_def all_mapped_window)

lemma not_viewable_returns: "tree_ok s \<Longrightarrow> not_viewable s k = Some (\<not> all_mapped s k)"
  using map_state_returns [of s k] map_state_viewable [of s k] by (auto simp: not_viewable_def)

lemma pointer_grab_lost_returns: "tree_ok s \<Longrightarrow> pointer_grab_lost s g = Some (\<not> viewable_grab s g)"
  by (auto simp: pointer_grab_lost_def not_viewable_returns viewable_grab_def)

lemma input_loss_returns:
  assumes ok: "tree_ok s"
  shows "\<exists>f. input_loss_of hidden s = Some \<lparr>ilFocus = f,
      ilPointerLost = (hidden \<and> (\<exists>g. inPointerGrab (ssInput s) = Some g \<and> \<not> viewable_grab s g)),
      ilKeyboardLost = (hidden \<and> (\<exists>g. inKeyboardGrab (ssInput s) = Some g \<and> \<not> all_mapped s (agWindow g)))\<rparr> \<and>
    (if hidden then reverted_focus_state 0 s = Some f else f = inFocus (ssInput s)) \<and>
    (hidden \<longrightarrow> fsKind f = FocusWindow \<longrightarrow> all_mapped s (fsWindow f))"
proof -
  obtain f where f: "reverted_focus_state 0 s = Some f" "fsKind f = FocusWindow \<longrightarrow> can_hold_focus s 0 (fsWindow f)"
    "fsKind (inFocus (ssInput s)) \<noteq> FocusWindow \<or> can_hold_focus s 0 (fsWindow (inFocus (ssInput s))) \<longrightarrow>
       f = inFocus (ssInput s)"
    using focus_reverts_to_holder [OF ok, of 0] by blast
  have z: "all_mapped s k \<longleftrightarrow> can_hold_focus s 0 k" for k
  proof -
    have "(k, 0) \<notin> (parent_rel s)\<^sup>+"
    proof
      assume "(k, 0) \<in> (parent_rel s)\<^sup>+"
      then obtain j where "(j, 0) \<in> parent_rel s" by (auto dest: tranclD2)
      then obtain w where "window s j = Some w" "j \<noteq> root_window_id" "wnParent w = 0" by (auto simp: parent_rel_def)
      with tree_parent_zero [OF ok] show False by blast
    qed
    moreover have "all_mapped s k \<Longrightarrow> k \<noteq> 0" using tree_okD(2) [OF ok] by (auto dest: all_mappedD)
    ultimately show ?thesis by (auto simp: can_hold_focus_def)
  qed
  define g where "g = (if hidden then f else inFocus (ssInput s))"
  have "input_loss_of hidden s = Some \<lparr>ilFocus = g,
      ilPointerLost = (hidden \<and> (\<exists>g. inPointerGrab (ssInput s) = Some g \<and> \<not> viewable_grab s g)),
      ilKeyboardLost = (hidden \<and> (\<exists>g. inKeyboardGrab (ssInput s) = Some g \<and> \<not> all_mapped s (agWindow g)))\<rparr>"
    using f by (auto simp: input_loss_of_def focus_left_def pointer_lost_def keyboard_lost_def Let_def not_viewable_returns [OF ok] pointer_grab_lost_returns [OF ok] z g_def
        split: option.splits)
  then show ?thesis using f by (intro exI [of _ g]) (auto simp: g_def z)
qed

text \<open>What \<open>plan_losses\<close> relies on: the windows that give the pointer, the keyboard and the focus
  back exist.\<close>

lemma plan_losses_run:
  assumes ok: "tree_ok s" "window s p \<noteq> None" "input_ok s"
    and held: "ilPointerLost loss \<Longrightarrow> inPointerGrab (ssInput s) \<noteq> None" "ilKeyboardLost loss \<Longrightarrow> inKeyboardGrab (ssInput s) \<noteq> None"
    and focus: "fsKind (ilFocus loss) = FocusWindow \<Longrightarrow> window s (fsWindow (ilFocus loss)) \<noteq> None"
  shows "\<exists>ds es. plan_losses s restored loss p rest = rest ds es"
proof -
  let ?i = "ssInput s"
  have fw: "fsKind (inFocus ?i) = FocusWindow \<Longrightarrow> window s (fsWindow (inFocus ?i)) \<noteq> None"
    using ok(3) by (simp add: input_ok_def)
  have pw: "ilPointerLost loss \<Longrightarrow> window s (agWindow (the (inPointerGrab ?i))) \<noteq> None \<and> window s p \<noteq> None"
    using ok(2,3) held(1) by (auto simp: input_ok_def)
  have "\<exists>d1 es1. when_planned (ilPointerLost loss)
      (append_crossing_events s (agWindow (the (inPointerGrab ?i))) p (inPointerX ?i) (inPointerY ?i)
        (inModifierButtonMask ?i) 2 None (inFocus ?i)) [] = Some (d1, [] @ es1) \<and> d1 \<noteq> QueueFull"
    by (rule when_planned_crossing [OF ok(1)]) (rule pw)
  then obtain d1 es1 where 1: "when_planned (ilPointerLost loss)
      (append_crossing_events s (agWindow (the (inPointerGrab ?i))) p (inPointerX ?i) (inPointerY ?i)
        (inModifierButtonMask ?i) 2 None (inFocus ?i)) [] = Some (d1, es1)" "d1 \<noteq> QueueFull" by (elim exE) simp
  let ?g = "focus_on_grab s (the (inKeyboardGrab ?i))"
  let ?moved = "fsKind (inFocus ?i) \<noteq> fsKind (ilFocus loss) \<or> fsWindow (inFocus ?i) \<noteq> fsWindow (ilFocus loss)"
  have gw: "ilKeyboardLost loss \<Longrightarrow> window s (fsWindow ?g) \<noteq> None"
    using ok(3) held(2) by (auto simp: input_ok_def focus_on_grab_def)
  have "\<exists>d2 es2. when_planned (ilKeyboardLost loss) (append_focus_events s ?g (inFocus ?i) 2 p) es1 = Some (d2, es1 @ es2) \<and> d2 \<noteq> QueueFull"
    by (rule when_planned_focus [OF ok(1,2)]) (simp_all only: gw fw not_False_eq_True)
  then obtain d2 es2 where 2: "when_planned (ilKeyboardLost loss)
      (append_focus_events s ?g (inFocus ?i) 2 p) es1 = Some (d2, es2)" "d2 \<noteq> QueueFull" by blast
  have "\<exists>d3 es3. when_planned ?moved
      (append_focus_events s (inFocus ?i) (ilFocus loss) (if inKeyboardGrab ?i \<noteq> None \<and> \<not> ilKeyboardLost loss then 3 else 0) p) es2
      = Some (d3, es2 @ es3) \<and> d3 \<noteq> QueueFull"
    by (rule when_planned_focus [OF ok(1,2)]) (simp_all only: focus fw not_False_eq_True)
  then obtain d3 es3 where 3: "when_planned ?moved
      (append_focus_events s (inFocus ?i) (ilFocus loss) (if inKeyboardGrab ?i \<noteq> None \<and> \<not> ilKeyboardLost loss then 3 else 0) p) es2
      = Some (d3, es3)" "d3 \<noteq> QueueFull" by blast
  show ?thesis
    unfolding plan_losses_def Let_def 1(1) unless_full_Some [OF 1(2)] 2(1) unless_full_Some [OF 2(2)] 3(1) unless_full_Some [OF 3(2)]
    by blast
qed

lemma mapping_events_returns: "tree_ok s \<Longrightarrow> \<exists>es. mapping_events s mapped k = Some es"
  using map_state_returns by (auto simp: mapping_events_def split: option.splits)

lemma all_mapping_events_returns: "tree_ok s \<Longrightarrow> \<exists>es. all_mapping_events s mapped ks = Some es"
proof (induction ks)
  case (Cons k ks)
  then show ?case using mapping_events_returns [of s mapped k] by fastforce
qed simp

lemma all_mapping_events_same:
  assumes "ssWindows t = ssWindows s"
  shows "all_mapping_events s mapped ks = Some es \<Longrightarrow> all_mapping_events t mapped ks = Some es"
proof (induction ks arbitrary: es)
  case (Cons k ks)
  note w = recursoredD [OF recursored_same [OF assms], unfolded option.map_ident]
  note m = queries_recursored(2) [OF recursored_same [OF assms]]
  have w: "window t j = window s j" for j using assms by (simp add: window_def)
  have "mapping_events s mapped k = Some e \<Longrightarrow> mapping_events t mapped k = Some e" for e
    using m by (auto simp: mapping_events_def w bind_eq_Some_conv split: option.splits if_splits)
  with Cons show ?case by (auto simp: bind_eq_Some_conv)
qed simp


subsection \<open>The effect of a change of mapping\<close>

lemma all_mapped_cong: "ssWindows t = ssWindows s \<Longrightarrow> all_mapped t k = all_mapped s k"
proof -
  assume "ssWindows t = ssWindows s"
  then have w: "window t j = window s j" for j by (simp add: window_def)
  have "parent_rel t = parent_rel s" by (simp add: parent_rel_def w)
  then show ?thesis by (simp add: all_mapped_def chain_def w)
qed

lemma viewable_grab_cong: "ssWindows t = ssWindows s \<Longrightarrow> viewable_grab t g = viewable_grab s g"
  by (simp add: viewable_grab_def all_mapped_cong [of t s])

lemma all_mapped_marked:
  assumes ok: "tree_ok s" and k: "all_mapped s k"
  shows "all_mapped (mark_mapped changed True s) k"
proof -
  let ?t = "mark_mapped changed True s"
  note w = mark_mapped_tree_ok(3) [OF ok, of changed True]
  have c: "chain ?t k = chain s k" by (simp add: chain_def mark_mapped_tree_ok(2) [OF ok])
  have "\<exists>v. window ?t a = Some v \<and> wnMapped v" if a: "a \<in> chain s k" for a
  proof -
    obtain v where "window s a = Some v" "wnMapped v" using k a by (auto simp: all_mapped_def)
    then show ?thesis by (simp add: w)
  qed
  then show ?thesis by (simp add: all_mapped_def c)
qed

lemma focus_viewable_same:
  assumes "ssWindows t = ssWindows s"
  shows "focus_viewable s u k = Some b \<Longrightarrow> focus_viewable t u k = Some b"
  using queries_recursored(1,2) [OF recursored_same [OF assms]]
  by (auto simp: focus_viewable_def bind_eq_Some_conv split: if_splits)

lemma revert_walk_same:
  assumes w: "ssWindows t = ssWindows s" and "revert_walk s u k = Some r"
  shows "revert_walk t u k = Some r"
proof -
  have win: "window t j = window s j" for j using w by (simp add: window_def)
  have "s = s \<longrightarrow> revert_walk t u k = Some r"
  proof (rule revert_walk.raw_induct [OF _ assms(2), where P = "\<lambda>v u k r. v = s \<longrightarrow> revert_walk t u k = Some r"], intro impI)
    fix walk v u k r
    assume IH: "\<And>v u k r. walk v u k = Some r \<Longrightarrow> v = s \<longrightarrow> revert_walk t u k = Some r" and "v = s"
      and step: "(if k = 0 then Some 0 else focus_viewable v u k \<bind> (\<lambda>b. if b then Some k
        else walk v u (case window v k of None \<Rightarrow> 0 | Some w \<Rightarrow> wnParent w))) = Some r"
    show "revert_walk t u k = Some r"
    proof (cases "k = 0")
      case True
      with step show ?thesis by (simp add: revert_walk.simps)
    next
      case False
      then obtain b where b: "focus_viewable s u k = Some b" using step \<open>v = s\<close> by (auto simp: bind_eq_Some_conv)
      with focus_viewable_same [OF w b] False step \<open>v = s\<close> IH show ?thesis
        by (subst revert_walk.simps) (simp add: win split: if_splits)
    qed
  qed
  then show ?thesis by simp
qed

lemma input_loss_same:
  assumes w: "ssWindows t = ssWindows s" "ssInput t = ssInput s" and "input_loss_of hidden s = Some loss"
  shows "input_loss_of hidden t = Some loss"
proof -
  have win: "window t j = window s j" for j using w by (simp add: window_def)
  have nv: "not_viewable s k = Some b \<Longrightarrow> not_viewable t k = Some b" for k b
    using queries_recursored(2) [OF recursored_same [OF w(1)], of k] by (auto simp: not_viewable_def)
  have pl: "pointer_grab_lost s g = Some b \<Longrightarrow> pointer_grab_lost t g = Some b" for g b
  proof -
    assume run: "pointer_grab_lost s g = Some b"
    then obtain c where c: "not_viewable s (agWindow g) = Some c" by (cases "not_viewable s (agWindow g)") (simp_all add: pointer_grab_lost_def)
    have "not_viewable s (agConfineTo g) = Some b \<Longrightarrow> not_viewable t (agConfineTo g) = Some b" by (rule nv)
    with run c nv [OF c] show ?thesis by (simp add: pointer_grab_lost_def split: if_splits)
  qed
  have rf: "reverted_focus_state 0 s = Some f \<Longrightarrow> reverted_focus_state 0 t = Some f" for f
  proof (cases "fsKind (inFocus (ssInput s)) = FocusWindow")
    case True
    assume run: "reverted_focus_state 0 s = Some f"
    let ?k = "fsWindow (inFocus (ssInput s))"
    let ?p = "case window s ?k of None \<Rightarrow> 0 | Some w \<Rightarrow> wnParent w"
    obtain b where b: "focus_viewable s 0 ?k = Some b"
      using run True by (auto simp: reverted_focus_state_def Let_def bind_eq_Some_conv)
    have "revert_walk s 0 ?p = Some a \<Longrightarrow> revert_walk t 0 ?p = Some a" for a by (rule revert_walk_same [OF w(1)])
    with run True b focus_viewable_same [OF w(1) b] show ?thesis
      by (auto simp: reverted_focus_state_def Let_def w(2) win bind_eq_Some_conv split: if_splits)
  qed (simp add: reverted_focus_state_def Let_def w(2))
  have "focus_left hidden s = Some f \<Longrightarrow> focus_left hidden t = Some f" for f
    using nv rf by (auto simp: focus_left_def Let_def w(2) bind_eq_Some_conv split: if_splits)
  moreover have "pointer_lost hidden s = Some b \<Longrightarrow> pointer_lost hidden t = Some b" for b
    using pl by (auto simp: pointer_lost_def w(2) split: option.splits)
  moreover have "keyboard_lost hidden s = Some b \<Longrightarrow> keyboard_lost hidden t = Some b" for b
    using nv by (auto simp: keyboard_lost_def w(2) split: option.splits)
  ultimately show ?thesis using assms(3) unfolding input_loss_of_def bind_eq_Some_conv by metis
qed

text \<open>What is lost with \<open>t\<close>'s windows, as a relation between the input before and after.\<close>

definition input_after :: "input_loss \<Rightarrow> server_state \<Rightarrow> input_state" where
  "input_after loss s = ssInput (drop_lost loss s)"

lemma input_after_viewable:
  assumes ok: "tree_ok t" "input_ok t" and loss: "input_loss_of hidden t = Some loss"
    and s': "ssWindows s' = ssWindows t" "ssInput s' = input_after loss t"
  shows "input_ok s'" "hidden \<Longrightarrow> input_viewable s'" "\<not> hidden \<Longrightarrow> input_viewable t \<Longrightarrow> input_viewable s'"
proof -
  obtain f where l: "loss = \<lparr>ilFocus = f,
      ilPointerLost = (hidden \<and> (\<exists>g. inPointerGrab (ssInput t) = Some g \<and> \<not> viewable_grab t g)),
      ilKeyboardLost = (hidden \<and> (\<exists>g. inKeyboardGrab (ssInput t) = Some g \<and> \<not> all_mapped t (agWindow g)))\<rparr>"
    "if hidden then reverted_focus_state 0 t = Some f else f = inFocus (ssInput t)"
    "hidden \<longrightarrow> fsKind f = FocusWindow \<longrightarrow> all_mapped t (fsWindow f)"
    using input_loss_returns [OF ok(1), of hidden] loss by auto
  note cong = all_mapped_cong [OF s'(1)] viewable_grab_cong [OF s'(1)]
  have w: "window s' k = window t k" for k by (simp add: window_def s'(1))
  show hid: "hidden \<Longrightarrow> input_viewable s'"
    using l by (auto simp: input_viewable_def cong s'(2) input_after_def drop_lost_def split: if_splits)
  show "\<not> hidden \<Longrightarrow> input_viewable t \<Longrightarrow> input_viewable s'"
    using l by (auto simp: input_viewable_def cong s'(2) input_after_def drop_lost_def)
  show "input_ok s'"
  proof (cases hidden)
    case True
    then show ?thesis by (rule input_viewable_ok [OF hid])
  next
    case False
    then show ?thesis using l ok(2) by (auto simp: input_ok_def w s'(2) input_after_def drop_lost_def)
  qed
qed

text \<open>What a delivered change of mapping leaves: the changed windows are marked and no other window is
  touched; what the focus and the grabs lose is exactly what is hidden now; the cursor shown is the
  one in force; the mapping notifications end what the clients were told.\<close>

definition mapping_frame :: "server_state \<Rightarrow> server_state \<Rightarrow> bool" where
  "mapping_frame s s' \<longleftrightarrow> s' = s\<lparr>ssEventQueues := ssEventQueues s', ssPendingEvents := ssPendingEvents s', ssWindows := ssWindows s',
     ssInput := ssInput s', ssDisplayedCursor := ssDisplayedCursor s', ssSceneDirty := True\<rparr>"

definition mapping_done :: "u32 list \<Rightarrow> bool \<Rightarrow> server_state \<Rightarrow> event_delivery \<Rightarrow> server_state \<Rightarrow> bool" where
  "mapping_done changed mapped s r s' \<longleftrightarrow>
     (if r = QueueFull then s' = s
      else tree_ok s' \<and> queues_ok s' \<and> input_ok s' \<and> cursor_shown s' \<and>
        ssWindows s' = umap_map (marking changed mapped) (ssWindows s) \<and>
        mapping_frame s s' \<and>
        (if mapped then input_viewable s \<longrightarrow> input_viewable s' else input_viewable s') \<and>
        (\<exists>loss. input_loss_of (\<not> mapped) (s'\<lparr>ssInput := ssInput s\<rparr>) = Some loss \<and> ssInput s' = input_after loss s) \<and>
        (\<exists>es notices. all_mapping_events s' mapped changed = Some notices \<and>
           (r = NoRecipient \<longrightarrow> es @ notices = []) \<and>
           (\<forall>c. queued_events s' c = queued_events s c @ stamped_for s c (es @ notices))))"

lemma update_window_mappings_run:
  assumes ok: "tree_ok s" "queues_ok s" "input_ok s" and ch: "markable s mapped changed"
  shows "\<exists>r s'. update_window_mappings changed mapped s = Some (r, s') \<and> mapping_done changed mapped s r s'"
proof -
  define t where "t = mark_mapped changed mapped s"
  note keyed = tree_okD(1) [OF ok(1)]
  have te: "t = s\<lparr>ssWindows := umap_map (marking changed mapped) (ssWindows s)\<rparr>"
    unfolding t_def by (rule mark_mapped_eq [OF keyed])
  have tok: "tree_ok t" unfolding t_def by (rule mark_mapped_tree_ok(1) [OF ok(1)])
  have tw: "window t k = map_option (marking changed mapped k) (window s k)" for k
    unfolding t_def by (rule mark_mapped_tree_ok(3) [OF ok(1)])
  have inp [simp]: "ssInput t = ssInput s" by (simp add: te)
  have tin: "input_ok t" using ok(3) by (simp add: input_ok_def tw)
  obtain p where p: "pointer_window s = Some p" "window s p \<noteq> None" using pointer_window_exists [OF ok(1)] by blast
  obtain q where q: "pointer_window t = Some q" "window t q \<noteq> None" using pointer_window_exists [OF tok] by blast
  have tp: "window t p \<noteq> None" using p(2) by (simp add: tw)
  obtain loss where loss: "input_loss_of (\<not> mapped) t = Some loss"
    "ilPointerLost loss \<Longrightarrow> inPointerGrab (ssInput t) \<noteq> None" "ilKeyboardLost loss \<Longrightarrow> inKeyboardGrab (ssInput t) \<noteq> None"
    using input_loss_returns [OF tok, of "\<not> mapped"] by fastforce
  have after: "ssWindows u = ssWindows t \<Longrightarrow> ssInput u = input_after loss t \<Longrightarrow> input_ok u" for u
    by (rule input_after_viewable(1) [OF tok tin loss(1)])
  have "input_ok (drop_lost loss t)" by (rule after) (simp_all add: input_after_def drop_lost_def)
  then have fw: "fsKind (ilFocus loss) = FocusWindow \<Longrightarrow> window t (fsWindow (ilFocus loss)) \<noteq> None"
    by (simp add: input_ok_def drop_lost_def window_def)
  let ?grab = "kept_pointer_grab loss (ssInput t)"
  obtain c where c: "current_cursor_for t q ?grab = Some c" using current_cursor_for_returns [OF tok] by blast
  obtain notices where n: "all_mapping_events t mapped changed = Some notices"
    using all_mapping_events_returns [OF tok] by blast
  let ?rest = "\<lambda>ds es3. unless_full s (when_planned (p \<noteq> q)
      (append_crossing_events t p q (inPointerX (ssInput t)) (inPointerY (ssInput t))
        (inModifierButtonMask (ssInput t)) 0 ?grab (ilFocus loss)) es3) (\<lambda>crossing es4.
      let (shown, es5) = append_cursor_change t c es4
      in if shown = QueueFull then Some (QueueFull, s)
         else let events = es5 @ notices; (queued, s1) = queue_events_atomically events s
              in Some (if \<not> queued then (QueueFull, s1)
                       else (if Delivered \<in> set (shown # crossing # ds) \<or> events \<noteq> [] then Delivered else NoRecipient,
                             invalidate_scene ((drop_lost loss (mark_mapped changed mapped s1))\<lparr>ssDisplayedCursor := c\<rparr>))))"
  have run: "update_window_mappings changed mapped s = plan_losses t s loss p ?rest"
    unfolding update_window_mappings_def p(1) Option.bind.bind_lunit Let_def t_def [symmetric] q(1) loss(1)
      mark_mapped_back [OF keyed ch, folded t_def] c n by simp
  obtain ds es3 where r1: "update_window_mappings changed mapped s = ?rest ds es3"
    using plan_losses_run [OF tok tp tin loss(2,3) fw, of s ?rest] unfolding run by blast
  obtain d4 es4 where x: "when_planned (p \<noteq> q) (append_crossing_events t p q (inPointerX (ssInput t))
      (inPointerY (ssInput t)) (inModifierButtonMask (ssInput t)) 0 ?grab (ilFocus loss)) es3 = Some (d4, es4)" "d4 \<noteq> QueueFull"
    using when_planned_crossing [OF tok, of "p \<noteq> q" p q] tp q(2) by metis
  obtain shown where sh: "append_cursor_change t c es4 = (shown, es4 @ cursor_notices t c)" "shown \<noteq> QueueFull"
    using append_cursor_change_eq [of t c es4] by (cases "append_cursor_change t c es4") auto
  let ?es = "(es4 @ cursor_notices t c) @ notices"
  obtain qd s1 where qd: "queue_events_atomically ?es s = (qd, s1)" by fastforce
  let ?r = "if Delivered \<in> set (shown # d4 # ds) \<or> ?es \<noteq> [] then Delivered else NoRecipient"
  define s' where "s' = invalidate_scene ((drop_lost loss (mark_mapped changed mapped s1))\<lparr>ssDisplayedCursor := c\<rparr>)"
  have r2: "update_window_mappings changed mapped s = Some (if \<not> qd then (QueueFull, s1) else (?r, s'))"
    unfolding r1 x(1) unless_full_Some [OF x(2)] sh(1) s'_def using sh(2) qd by (simp add: Let_def)
  show ?thesis using ok(2) qd
  proof (cases rule: queue_run)
    case refused
    with r2 show ?thesis by (simp add: mapping_done_def)
  next
    case (accepted eq m)
    have k1: "windows_keyed s1" using keyed by (simp add: accepted(2))
    have m1: "mark_mapped changed mapped s1 = s1\<lparr>ssWindows := ssWindows t\<rparr>"
      unfolding mark_mapped_eq [OF k1] by (simp add: te accepted(2))
    have wins: "ssWindows s' = ssWindows t"
      unfolding s'_def m1 by (simp add: drop_lost_def invalidate_scene_def)
    have i': "ssInput s' = input_after loss s"
      unfolding s'_def m1 by (simp add: accepted(2) drop_lost_def invalidate_scene_def input_after_def)
    have i'': "ssInput s' = input_after loss t" by (simp add: i' input_after_def drop_lost_def)
    have same: "recursored (\<lambda>c. c) t s'" by (rule recursored_same [OF wins])
    have pw: "pointer_window s' = Some q"
      by (rule pointer_window_recursored [OF same _ _ q(1)]) (simp_all add: i' input_after_def drop_lost_def)
    have "inPointerGrab (ssInput s') = ?grab" by (simp add: i' input_after_def drop_lost_def kept_pointer_grab_def)
    then have "current_cursor s' = Some c"
      using pw current_cursor_for_recursored [OF same _ c] by (simp add: current_cursor_def option.map_ident)
    then have "cursor_shown s'" by (simp add: cursor_shown_def, simp add: s'_def invalidate_scene_def)
    moreover have "tree_ok s'" using tok tree_ok_cong [OF wins] by simp
    moreover have qs: "ssEventQueues s' = ssEventQueues s1" "ssPendingEvents s' = ssPendingEvents s1" "ssClients s' = ssClients s1"
      unfolding s'_def m1 by (simp_all add: drop_lost_def invalidate_scene_def)
    moreover have "queues_ok s'" using accepted(3) by (simp add: queues_ok_def qs)
    moreover have "input_ok s'" by (rule after [OF wins i''])
    moreover have "if mapped then input_viewable s \<longrightarrow> input_viewable s' else input_viewable s'"
    proof (cases mapped)
      case True
      have "input_viewable t" if "input_viewable s"
        using that all_mapped_marked [OF ok(1), of _ changed] True
        by (auto simp: input_viewable_def viewable_grab_def t_def mark_mapped_eq [OF keyed])
      with input_after_viewable(3) [OF tok tin loss(1) wins i''] True show ?thesis by simp
    next
      case False
      with input_after_viewable(2) [OF tok tin loss(1) wins i''] show ?thesis by simp
    qed
    moreover have "input_loss_of (\<not> mapped) (s'\<lparr>ssInput := ssInput s\<rparr>) = Some loss"
      by (rule input_loss_same [OF _ _ loss(1)]) (simp_all add: wins)
    moreover have told: "all_mapping_events s' mapped changed = Some notices" by (rule all_mapping_events_same [OF wins n])
    moreover have ev: "queued_events s' k = queued_events s k @ stamped_for s k ((es4 @ cursor_notices t c) @ notices)" for k
      using accepted(4) by (simp add: queued_events_cong [OF qs(1)])
    moreover have "ssWindows s' = umap_map (marking changed mapped) (ssWindows s)" using wins by (simp add: te)
    moreover have "mapping_frame s s'"
      unfolding mapping_frame_def s'_def m1 by (simp add: accepted(2) drop_lost_def invalidate_scene_def)
    moreover have "?r = NoRecipient \<Longrightarrow> (es4 @ cursor_notices t c) @ notices = []" by (simp split: if_splits)
    moreover have "update_window_mappings changed mapped s = Some (?r, s')" "?r \<noteq> QueueFull" using r2 accepted(1) by simp_all
    ultimately show ?thesis using i'
      by (intro exI [of _ ?r] exI [of _ s']) (simp only: mapping_done_def if_False, blast)
  qed
qed


text \<open>C11. Windows are mapped and unmapped in one step, and nothing hidden holds the input.  On a
  well-formed tree whose held windows exist, \<open>set_window_mapped\<close> and \<open>set_subwindows_mapped\<close> return.
  When there is nothing to change they change nothing; otherwise either a queue was full and nothing
  changed, or exactly the windows to change are marked, the tree is as before, a focus or grab on a
  window that is hidden now is gone (after unmapping every window that still holds the input is
  viewable, and mapping takes nothing away), the cursor shown is the one in force, and the
  notifications of the change are the last things in the queues.\<close>

theorem window_mapping_effect:
  assumes ok: "tree_ok s" "queues_ok s" "input_ok s"
    and w: "window s (wnId w) = Some w" "wnId w = root_window_id \<Longrightarrow> wnMapped w"
    and p: "window s k = Some parent"
  shows "(\<exists>r s'. set_window_mapped w mapped s = Some (r, s') \<and>
      (if wnMapped w = (mapped \<or> wnId w = root_window_id) then r = NoRecipient \<and> s' = s
       else mapping_done [wnId w] mapped s r s')) \<and>
    (\<exists>r s'. set_subwindows_mapped k mapped s = Some (r, s') \<and>
      (let changed = filter (\<lambda>c. \<exists>v. window s c = Some v \<and> wnMapped v \<noteq> mapped) (wnChildren parent)
       in if changed = [] then r = NoRecipient \<and> s' = s else mapping_done changed mapped s r s'))"
proof (intro conjI)
  have "markable s mapped [wnId w]" if "\<not> (wnMapped w = (mapped \<or> wnId w = root_window_id))"
    using that w by (auto simp: markable_def)
  from update_window_mappings_run [OF ok this] w(2)
  show "\<exists>r s'. set_window_mapped w mapped s = Some (r, s') \<and>
      (if wnMapped w = (mapped \<or> wnId w = root_window_id) then r = NoRecipient \<and> s' = s
       else mapping_done [wnId w] mapped s r s')"
    by (auto simp: set_window_mapped_def Let_def)
next
  let ?P = "\<lambda>c. case window s c of None \<Rightarrow> False | Some w \<Rightarrow> wnMapped w \<noteq> mapped"
  have P: "?P = (\<lambda>c. \<exists>v. window s c = Some v \<and> wnMapped v \<noteq> mapped)" by (auto split: option.splits)
  have "markable s mapped (filter ?P (wnChildren parent))"
    using tree_okD(6) [OF ok(1) p] by (fastforce simp: markable_def P)
  from update_window_mappings_run [OF ok this]
  show "\<exists>r s'. set_subwindows_mapped k mapped s = Some (r, s') \<and>
      (let changed = filter (\<lambda>c. \<exists>v. window s c = Some v \<and> wnMapped v \<noteq> mapped) (wnChildren parent)
       in if changed = [] then r = NoRecipient \<and> s' = s else mapping_done changed mapped s r s')"
    unfolding P by (simp add: set_subwindows_mapped_def p P Let_def)
qed

theorem window_mapping_effect_witness:
  "\<exists>r s' r' t. set_window_mapped (the (window two_children_state 7)) False two_children_state = Some (r, s') \<and>
     mapping_done [7] False two_children_state r s' \<and>
     set_subwindows_mapped root_window_id True two_children_state = Some (r', t) \<and>
     mapping_done [8] True two_children_state r' t"
proof -
  have w: "window two_children_state 7 = Some (sample_window\<lparr>wnId := 7, wnMapped := True\<rparr>)"
    "window two_children_state 8 = Some (sample_window\<lparr>wnId := 8\<rparr>)"
    "window two_children_state root_window_id = Some ((root_window_record 640 480)\<lparr>wnChildren := [7, 8]\<rparr>)"
    by (simp_all add: two_children_window root_window_id_def)
  let ?w = "sample_window\<lparr>wnId := 7, wnMapped := True\<rparr>"
  have w7: "window two_children_state (wnId ?w) = Some ?w" using w(1) by simp
  have "\<exists>r s'. set_window_mapped ?w False two_children_state = Some (r, s') \<and> mapping_done [7] False two_children_state r s'"
    using window_mapping_effect [OF two_children_ok two_children_input_ok w7 _ w(3), of False]
    by (simp add: root_window_id_def)
  moreover have "\<exists>r s'. set_subwindows_mapped root_window_id True two_children_state = Some (r, s') \<and>
      mapping_done [8] True two_children_state r s'"
    using window_mapping_effect [OF two_children_ok two_children_input_ok w7 _ w(3), of True] w(1,2)
    by (simp add: root_window_id_def Let_def)
  ultimately show ?thesis using w(1) by auto
qed

end
