(* ===== verification/Window_Reparenting.thy ===== *)
theory Window_Reparenting
  imports Window_Mapping
begin

text \<open>
  Reparenting a window (\<^verbatim>\<open>src/server/server_state.cpp\<close>, \<open>reparent_window\<close>).  The code unmaps the
  window, plans what that costs the focus and the grabs and the crossing it causes, moves the window
  to its new place and maps it again, plans the crossing that causes, takes everything back,
  delivers the plan or refuses, and makes the change once more when it was delivered.
\<close>

subsection \<open>Writes through window references\<close>

definition modify_window :: "u32 \<Rightarrow> (window_record \<Rightarrow> window_record) \<Rightarrow> server_state \<Rightarrow> server_state" where
  "modify_window k f s = (case window s k of None \<Rightarrow> s | Some w \<Rightarrow> put_window (f w) s)"

text \<open>The \<open>swap\<close> of the prepared child lists of the old parent and, when it is another window, the
  new one.\<close>

definition set_children :: "u32 \<Rightarrow> u32 list \<Rightarrow> u32 \<Rightarrow> u32 list \<Rightarrow> server_state \<Rightarrow> server_state" where
  "set_children old_parent old_children new_parent new_children s =
     (let s1 = modify_window old_parent (\<lambda>w. w\<lparr>wnChildren := old_children\<rparr>) s
      in if old_parent = new_parent then s1
         else modify_window new_parent (\<lambda>w. w\<lparr>wnChildren := new_children\<rparr>) s1)"

definition set_place :: "u32 \<Rightarrow> u32 \<Rightarrow> int \<Rightarrow> int \<Rightarrow> server_state \<Rightarrow> server_state" where
  "set_place k parent x y s = modify_window k (\<lambda>w. w\<lparr>wnParent := parent, wnX := x, wnY := y\<rparr>) s"

definition set_mark :: "u32 \<Rightarrow> bool \<Rightarrow> server_state \<Rightarrow> server_state" where
  "set_mark k mapped s = modify_window k (\<lambda>w. w\<lparr>wnMapped := mapped\<rparr>) s"

subsection \<open>The operation\<close>

text \<open>The handler once the request is found valid; it says \<open>QueueFull\<close> for a refusal.\<close>

definition move_window ::
  "window_record \<Rightarrow> window_record \<Rightarrow> window_record \<Rightarrow> int \<Rightarrow> int \<Rightarrow> server_state \<Rightarrow>
     (event_delivery \<times> server_state) option" where
  "move_window candidate old_parent parent x y s =
     (let k = wnId candidate; old_id = wnId old_parent; new_id = wnId parent;
          without = filter (\<lambda>c. c \<noteq> k) (wnChildren old_parent);
          old_children = (if old_id = new_id then without @ [k] else without);
          new_children = wnChildren parent @ [k];
          was_mapped = wnMapped candidate; i = ssInput s
      in Option.bind (pointer_window s) (\<lambda>old_pointer.
         let t1 = set_mark k False s
         in Option.bind (pointer_window t1) (\<lambda>unmapped_pointer.
            Option.bind (input_loss_of was_mapped t1) (\<lambda>loss.
            let t2 = set_mark k was_mapped (set_place k new_id x y
                  (set_children old_id old_children new_id new_children t1));
                restored = set_children old_id (wnChildren old_parent) new_id (wnChildren parent)
                  (set_place k old_id (wnX candidate) (wnY candidate) (set_mark k was_mapped t2));
                grab = kept_pointer_grab loss i;
                focus = ilFocus loss
            in plan_losses t1 restored loss old_pointer (\<lambda>ds es3.
               unless_full restored (when_planned (was_mapped \<and> old_pointer \<noteq> unmapped_pointer)
                 (append_crossing_events t1 old_pointer unmapped_pointer (inPointerX i) (inPointerY i)
                    (inModifierButtonMask i) 0 grab focus) es3) (\<lambda>unmap_crossing es4.
               Option.bind (pointer_window t2) (\<lambda>new_pointer.
               unless_full restored (when_planned (was_mapped \<and> unmapped_pointer \<noteq> new_pointer)
                 (append_crossing_events t2 unmapped_pointer new_pointer (inPointerX i) (inPointerY i)
                    (inModifierButtonMask i) 0 grab focus) es4) (\<lambda>map_crossing es5.
               Option.bind (current_cursor_for t2 new_pointer grab) (\<lambda>shape.
                 let (shown, events) = append_cursor_change t2 shape es5
                 in if shown = QueueFull then Some (QueueFull, restored)
                    else
                      let (queued, s1) = queue_events_atomically events restored
                      in Some (if \<not> queued then (QueueFull, s1)
                               else (Delivered,
                                     invalidate_scene ((drop_lost loss (set_place k new_id x y
                                         (set_children old_id old_children new_id new_children s1)))
                                       \<lparr>ssDisplayedCursor := shape\<rparr>))))))))))))"

definition reparent_window ::
  "u32 \<Rightarrow> u32 \<Rightarrow> int \<Rightarrow> int \<Rightarrow> server_state \<Rightarrow> (reparent_update \<times> server_state) option" where
  "reparent_window k new_parent x y s =
     (case (window s k, window s new_parent) of
        (Some candidate, Some parent) \<Rightarrow>
          if k = root_window_id \<or> k = new_parent then Some (ReparentInvalid, s)
          else Option.bind (is_descendant s new_parent k) (\<lambda>inside.
                 if inside then Some (ReparentInvalid, s)
                 else case window s (wnParent candidate) of
                        None \<Rightarrow> Some (ReparentInvalid, s)
                      | Some old_parent \<Rightarrow>
                          map_option (\<lambda>(d, s'). (if d = QueueFull then ReparentQueueFull else ReparentUpdated, s'))
                            (move_window candidate old_parent parent x y s))
      | _ \<Rightarrow> Some (ReparentInvalid, s))"

subsection \<open>The moved tree\<close>

lemma umap_eqI:
  assumes "umap_ok m" "map fst m = map fst n" "\<And>k. umap_find k m = umap_find k n"
  shows "m = n"
proof -
  have len: "length m = length n" using assms(2) by (metis length_map)
  have ok: "umap_ok n" using assms(1,2) by (simp add: umap_ok_def)
  show ?thesis
  proof (rule nth_equalityI [OF len])
    fix i assume i: "i < length m"
    have key: "fst (m ! i) = fst (n ! i)" using assms(2) i len by (metis nth_map)
    have "umap_find (fst (m ! i)) m = Some (snd (m ! i))" using i by (simp add: umap_find_in [OF assms(1)])
    moreover have "umap_find (fst (n ! i)) n = Some (snd (n ! i))" using i len by (simp add: umap_find_in [OF ok])
    ultimately show "m ! i = n ! i" using assms(3) key by (simp add: prod_eq_iff)
  qed
qed

text \<open>The states that differ in the window table only, with the same windows in the same order.\<close>

definition windows_differ :: "server_state \<Rightarrow> server_state \<Rightarrow> bool" where
  "windows_differ s t \<longleftrightarrow> (\<exists>ws. t = s\<lparr>ssWindows := ws\<rparr> \<and> map fst ws = map fst (ssWindows s))"

lemma windows_differ_refl [simp]: "windows_differ s s"
  unfolding windows_differ_def by (rule exI [of _ "ssWindows s"]) simp

lemma windows_differ_trans: "windows_differ s t \<Longrightarrow> windows_differ t u \<Longrightarrow> windows_differ s u"
  by (auto simp: windows_differ_def)

lemma windows_differ_back:
  assumes "windows_differ s t" "umap_ok (ssWindows s)" "\<And>k. window t k = window s k"
  shows "t = s"
proof -
  obtain ws where ws: "t = s\<lparr>ssWindows := ws\<rparr>" "map fst ws = map fst (ssWindows s)"
    using assms(1) by (auto simp: windows_differ_def)
  have "ssWindows s = ws"
    by (rule umap_eqI [OF assms(2)]) (use ws assms(3) in \<open>simp_all add: window_def\<close>)
  with ws show ?thesis by simp
qed

lemma windows_differ_frame:
  assumes "windows_differ s t"
  shows "ssInput t = ssInput s" "umap_ok (ssWindows s) \<Longrightarrow> umap_ok (ssWindows t)" "\<exists>ws. t = s\<lparr>ssWindows := ws\<rparr>"
  using assms by (auto simp: windows_differ_def umap_ok_def)

lemma map_fst_put: "umap_contains k m \<Longrightarrow> map fst (umap_put k v m) = map fst m"
  by (induction m) (auto simp: umap_put_def umap_contains_def umap_find_def split: if_splits)

lemma window_modify:
  assumes "windows_keyed s" "\<And>w. wnId (f w) = wnId w"
  shows "window (modify_window k f s) j = (if j = k then map_option f (window s k) else window s j)"
    "windows_differ s (modify_window k f s)" "windows_keyed (modify_window k f s)"
proof -
  note ok = windows_keyedD [OF assms(1)]
  show w: "window (modify_window k f s) j = (if j = k then map_option f (window s k) else window s j)" for j
    using ok(2) assms(2) by (auto simp: modify_window_def split: option.splits)
  show "windows_differ s (modify_window k f s)"
  proof (cases "window s k")
    case None
    then show ?thesis by (simp add: modify_window_def)
  next
    case (Some v)
    then have "umap_contains k (ssWindows s)" by (simp add: umap_contains_def window_def)
    then show ?thesis using Some ok(2) [OF Some] assms(2)
      by (auto simp: modify_window_def windows_differ_def put_window_def map_fst_put)
  qed
  then have "umap_ok (ssWindows (modify_window k f s))" using ok(1) by (auto simp: windows_differ_def umap_ok_def)
  then show "windows_keyed (modify_window k f s)" using ok(2) assms(2) by (auto simp: windows_keyed_def w split: if_splits)
qed

lemma window_set_place:
  assumes "windows_keyed s"
  shows "window (set_place k p x y s) j =
      (if j = k then map_option (\<lambda>w. w\<lparr>wnParent := p, wnX := x, wnY := y\<rparr>) (window s k) else window s j)"
    "windows_differ s (set_place k p x y s)" "windows_keyed (set_place k p x y s)"
  unfolding set_place_def by (rule window_modify [OF assms], simp)+

lemma window_set_mark:
  assumes "windows_keyed s"
  shows "window (set_mark k b s) j =
      (if j = k then map_option (\<lambda>w. w\<lparr>wnMapped := b\<rparr>) (window s k) else window s j)"
    "windows_differ s (set_mark k b s)" "windows_keyed (set_mark k b s)"
  unfolding set_mark_def by (rule window_modify [OF assms], simp)+

lemma window_set_children:
  assumes "windows_keyed s"
  shows "window (set_children p cs q ds s) j =
      (if j = p then map_option (\<lambda>w. w\<lparr>wnChildren := cs\<rparr>) (window s p)
       else if j = q then map_option (\<lambda>w. w\<lparr>wnChildren := ds\<rparr>) (window s q) else window s j)"
    "windows_differ s (set_children p cs q ds s)" "windows_keyed (set_children p cs q ds s)"
proof -
  let ?f = "\<lambda>w. w\<lparr>wnChildren := cs\<rparr>" and ?g = "\<lambda>w. w\<lparr>wnChildren := ds\<rparr>"
  note one = window_modify [OF assms, of ?f p, simplified]
  note two = window_modify [OF one(3), of ?g q, simplified]
  show "window (set_children p cs q ds s) j =
      (if j = p then map_option ?f (window s p) else if j = q then map_option ?g (window s q) else window s j)"
    using one(1) [of j] two(1) [of j] one(1) [of q] by (auto simp: set_children_def Let_def)
  show "windows_differ s (set_children p cs q ds s)" "windows_keyed (set_children p cs q ds s)"
    using one(2,3) two(2,3) windows_differ_trans by (auto simp: set_children_def Let_def)
qed

text \<open>What the move does to a window.\<close>

definition moved :: "u32 \<Rightarrow> u32 \<Rightarrow> u32 \<Rightarrow> int \<Rightarrow> int \<Rightarrow> u32 \<Rightarrow> window_record \<Rightarrow> window_record" where
  "moved k old_id new_id x y j w =
     (if j = k then w\<lparr>wnParent := new_id, wnX := x, wnY := y\<rparr>
      else if j = old_id
      then w\<lparr>wnChildren := filter (\<lambda>c. c \<noteq> k) (wnChildren w) @ (if old_id = new_id then [k] else [])\<rparr>
      else if j = new_id then w\<lparr>wnChildren := wnChildren w @ [k]\<rparr>
      else w)"

lemma moved_other: "j \<noteq> k \<Longrightarrow> j \<noteq> p \<Longrightarrow> j \<noteq> q \<Longrightarrow> map_option (moved k p q x y j) m = m"
  by (cases m) (simp_all add: moved_def)

lemma tree_ok_moved:
  assumes ok: "tree_ok s" and k: "window s k = Some v" "k \<noteq> root_window_id" "wnParent v = old_id"
    and new: "window s new_id \<noteq> None" "new_id \<noteq> k" "(new_id, k) \<notin> (parent_rel s)\<^sup>+"
    and t: "umap_ok (ssWindows t)" "\<And>j. window t j = map_option (moved k old_id new_id x y j) (window s j)"
  shows "tree_ok t"
proof -
  have ok_old: "old_id \<noteq> k"
  proof
    assume "old_id = k"
    then have "(k, k) \<in> parent_rel s" using k by (auto simp: parent_rel_def)
    then show False using parent_rel_acyclic [OF ok] by (auto simp: acyclic_def)
  qed
  have parent: "wnParent (moved k old_id new_id x y j w) = (if j = k then new_id else wnParent w)" for j w
    by (simp add: moved_def)
  have outside: "rooted t j" if "rooted s j" "(j, k) \<notin> (parent_rel s)\<^sup>*" for j
    using that
  proof (induction rule: rooted.induct)
    case root
    show ?case by (rule rooted.root)
  next
    case (step j w)
    then have "(j, wnParent w) \<in> parent_rel s" "j \<noteq> k" by (auto simp: parent_rel_def)
    then have "rooted t (wnParent w)" using step by (meson converse_rtrancl_into_rtrancl)
    with step(1,2) \<open>j \<noteq> k\<close> show ?case by (intro rooted.step [of t j "moved k old_id new_id x y j w"]) (simp_all add: t(2) parent)
  qed
  have "rooted t new_id"
    using outside [of new_id] tree_okD(4) [OF ok] new by (auto simp: rtrancl_eq_or_trancl)
  then have rk: "rooted t k" using k(1,2) by (intro rooted.step [of t k "moved k old_id new_id x y k v"]) (simp_all add: t(2) parent)
  have rooted: "rooted t j" if "rooted s j" for j
    using that
  proof (induction rule: rooted.induct)
    case root
    show ?case by (rule rooted.root)
  next
    case (step j w)
    then show ?case using rk
      by (cases "j = k") (simp_all, intro rooted.step [of t j "moved k old_id new_id x y j w"], simp_all add: t(2) parent)
  qed
  show ?thesis unfolding tree_ok_def
  proof (intro conjI allI impI)
    have "wnId (moved k old_id new_id x y j w) = wnId w" for j w by (simp add: moved_def)
    then show "windows_keyed t" using windows_keyedD(2) [OF tree_okD(1) [OF ok]] t(1) by (auto simp: windows_keyed_def t(2))
    show "window t 0 = None" using tree_okD(2) [OF ok] by (simp add: t(2))
    show "\<exists>r. window t root_window_id = Some r \<and> wnParent r = 0"
      using tree_okD(3) [OF ok] k(2) by (auto simp: t(2) parent simp del: not_None_eq)
  next
    fix j u assume "window t j = Some u"
    then obtain w where w: "window s j = Some w" "u = moved k old_id new_id x y j w" by (auto simp: t(2))
    have kin: "k \<in> set (wnChildren w) \<longleftrightarrow> j = old_id" using tree_okD(6) [OF ok w(1), of k] k by auto
    show "rooted t j" by (rule rooted [OF tree_okD(4) [OF ok w(1)]])
    show "distinct (wnChildren u)" using tree_okD(5) [OF ok w(1)] kin w(2) by (auto simp: moved_def)
    have ch: "(\<exists>v. window t c = Some v \<and> wnParent v = j) \<longleftrightarrow>
        (if c = k then j = new_id else \<exists>v. window s c = Some v \<and> wnParent v = j)" for c
      using k(1) by (auto simp: t(2) parent)
    show "c \<in> set (wnChildren u) = (c \<noteq> root_window_id \<and> (\<exists>v. window t c = Some v \<and> wnParent v = j))" for c
      using tree_okD(6) [OF ok w(1), of c] kin k(2) ok_old new(2) w(2) unfolding ch by (auto simp: moved_def)
    show "window t (wnParent u) \<noteq> None" if "j \<noteq> root_window_id"
      using tree_okD(7) [OF ok w(1) that] new(1) w(2) by (auto simp: t(2) parent)
  qed
qed


subsection \<open>What stays viewable\<close>

lemma all_mapped_step:
  assumes "window s k = Some w" "k \<noteq> root_window_id"
  shows "all_mapped s k \<longleftrightarrow> wnMapped w \<and> all_mapped s (wnParent w)"
  using chain_step [OF assms] assms(1) by (auto simp: all_mapped_def)

text \<open>A window that is viewable while \<open>k\<close> is unmapped is viewable wherever \<open>k\<close> goes.\<close>

lemma all_mapped_elsewhere:
  assumes k: "window s k = Some v" "\<not> wnMapped v"
    and t: "\<And>j w. j \<noteq> k \<Longrightarrow> window s j = Some w \<Longrightarrow> \<exists>u. window t j = Some u \<and> wnParent u = wnParent w \<and> wnMapped u = wnMapped w"
    and j: "rooted s j" "all_mapped s j"
  shows "all_mapped t j"
  using j
proof (induction rule: rooted.induct)
  case root
  then obtain r where r: "window s root_window_id = Some r" "wnMapped r" by (auto dest: all_mappedD)
  then have "root_window_id \<noteq> k" using k by auto
  with t [OF this r(1)] r(2) show ?case by (auto simp: all_mapped_def chain_root)
next
  case (step j w)
  then have m: "wnMapped w" "all_mapped s (wnParent w)" using all_mapped_step by blast+
  then have "j \<noteq> k" using step(1) k by auto
  then obtain u where "window t j = Some u" "wnParent u = wnParent w" "wnMapped u" using t step(1) m(1) by metis
  with step.IH m(2) show ?case using all_mapped_step [of t j u] step(2) by simp
qed

subsection \<open>The effect of reparenting\<close>

lemma window_placed:
  assumes keyed: "windows_keyed u" and "p \<noteq> k" "q \<noteq> k"
  shows "window (set_place k q x y (set_children p cs q ds u)) j =
      (if j = k then map_option (\<lambda>w. w\<lparr>wnParent := q, wnX := x, wnY := y\<rparr>) (window u j)
       else if j = p then map_option (\<lambda>w. w\<lparr>wnChildren := cs\<rparr>) (window u j)
       else if j = q then map_option (\<lambda>w. w\<lparr>wnChildren := ds\<rparr>) (window u j) else window u j)"
    "windows_differ u (set_place k q x y (set_children p cs q ds u))"
    "windows_keyed (set_place k q x y (set_children p cs q ds u))"
proof -
  note C = window_set_children [OF keyed, of p cs q ds]
  note S = window_set_place [OF C(3), of k q x y]
  show "window (set_place k q x y (set_children p cs q ds u)) j =
      (if j = k then map_option (\<lambda>w. w\<lparr>wnParent := q, wnX := x, wnY := y\<rparr>) (window u j)
       else if j = p then map_option (\<lambda>w. w\<lparr>wnChildren := cs\<rparr>) (window u j)
       else if j = q then map_option (\<lambda>w. w\<lparr>wnChildren := ds\<rparr>) (window u j) else window u j)"
    unfolding S(1) C(1) using assms(2,3) by (cases "j = k") auto
  show "windows_differ u (set_place k q x y (set_children p cs q ds u))" using C(2) S(2) by (rule windows_differ_trans)
  show "windows_keyed (set_place k q x y (set_children p cs q ds u))" by (rule S(3))
qed

lemma move_window_run:
  assumes ok: "tree_ok s" "queues_ok s" "input_ok s"
    and k: "window s (wnId v) = Some v" "wnId v \<noteq> root_window_id"
    and old: "window s (wnParent v) = Some old" and new: "window s (wnId new) = Some new" "wnId new \<noteq> wnId v"
    and out: "(wnId new, wnId v) \<notin> (parent_rel s)\<^sup>+"
  shows "\<exists>r s'. move_window v old new x y s = Some (r, s') \<and>
    (if r = QueueFull then s' = s
     else tree_ok s' \<and> queues_ok s' \<and> input_ok s' \<and> cursor_shown s' \<and>
       (\<forall>j. window s' j = map_option (moved (wnId v) (wnParent v) (wnId new) x y j) (window s j)) \<and>
       (input_viewable s \<or> wnMapped v \<longrightarrow> input_viewable s') \<and> mapping_frame s s' \<and>
       (\<exists>es. \<forall>c. queued_events s' c = queued_events s c @ stamped_for s c es))"
proof -
  let ?k = "wnId v" and ?i = "ssInput s" and ?was = "wnMapped v" and ?o = "wnId old" and ?n = "wnId new"
  note keyed = tree_okD(1) [OF ok(1)]
  have oid: "?o = wnParent v" using windows_keyedD(2) [OF keyed old] .
  have ook: "?o \<noteq> ?k"
  proof
    assume "?o = ?k"
    then have "(?k, ?k) \<in> parent_rel s" using k oid by (auto simp: parent_rel_def)
    then show False using parent_rel_acyclic [OF ok(1)] by (auto simp: acyclic_def)
  qed
  let ?without = "filter (\<lambda>c. c \<noteq> ?k) (wnChildren old)"
  let ?oc = "if ?o = ?n then ?without @ [?k] else ?without" and ?nc = "wnChildren new @ [?k]"
  define t1 where "t1 = set_mark ?k False s"
  let ?place = "\<lambda>u. set_place ?k ?n x y (set_children ?o ?oc ?n ?nc u)"
  define t2 where "t2 = set_mark ?k ?was (?place t1)"
  note W1 = window_set_mark [OF keyed, of ?k False, folded t1_def]
  note P = window_placed [OF _ ook new(2), of _ x y ?oc ?nc]
  note W2 = window_set_mark [OF P(3) [OF W1(3)], of ?k ?was, folded t2_def]
  have mv: "window t2 j = map_option (moved ?k ?o ?n x y j) (window s j)" for j
    unfolding W2(1) P(1) [OF W1(3)] W1(1) using k old new ook oid by (auto simp: moved_def moved_other)
  define restored where "restored = set_children ?o (wnChildren old) ?n (wnChildren new)
      (set_place ?k ?o (wnX v) (wnY v) (set_mark ?k ?was t2))"
  note R1 = window_set_mark [OF W2(3), of ?k ?was]
  note R2 = window_set_place [OF R1(3), of ?k ?o "wnX v" "wnY v"]
  note R3 = window_set_children [OF R2(3), of ?o "wnChildren old" ?n "wnChildren new", folded restored_def]
  have "windows_differ s restored"
    using W1(2) P(2) [OF W1(3)] W2(2) R1(2) R2(2) R3(2) by (meson windows_differ_trans)
  moreover have "window restored j = window s j" for j
    unfolding R3(1) R2(1) R1(1) mv using k old new ook oid by (auto simp: moved_def moved_other)
  ultimately have undone: "restored = s" using windows_differ_back windows_keyedD(1) [OF keyed] by blast
  have wid: "wnId (moved ?k ?o ?n x y j w) = wnId w" for j w by (simp add: moved_def)
  have u1: "umap_ok (ssWindows t1)" "umap_ok (ssWindows t2)"
    using windows_keyedD(1) W1(3) W2(3) by blast+
  have f1: "window t1 j = map_option (\<lambda>w. if j = ?k then w\<lparr>wnMapped := False\<rparr> else w) (window s j)" for j
    using k(1) by (cases "window s j") (auto simp: W1(1))
  have tok1: "tree_ok t1" "parent_rel t1 = parent_rel s" by (rule tree_ok_reshaped [OF ok(1) u1(1) f1], simp_all)+
  have new': "window s ?n \<noteq> None" using new(1) by simp
  have tok2: "tree_ok t2" by (rule tree_ok_moved [OF ok(1) k oid [symmetric] new' new(2) out u1(2) mv])
  have inp [simp]: "ssInput t1 = ?i" "ssInput t2 = ?i"
    using windows_differ_frame(1) [OF W1(2)] windows_differ_frame(1) [OF P(2) [OF W1(3)]] windows_differ_frame(1) [OF W2(2)]
    by simp_all
  have same1: "window t1 j \<noteq> None \<longleftrightarrow> window s j \<noteq> None" and same2: "window t2 j \<noteq> None \<longleftrightarrow> window s j \<noteq> None" for j
    by (simp_all add: f1 mv)
  have in1: "input_ok t1" using ok(3) by (simp add: input_ok_def f1)
  obtain p where p: "pointer_window s = Some p" "window s p \<noteq> None" using pointer_window_exists [OF ok(1)] by blast
  obtain q where q: "pointer_window t1 = Some q" "window t1 q \<noteq> None" using pointer_window_exists [OF tok1(1)] by blast
  obtain q2 where q2: "pointer_window t2 = Some q2" "window t2 q2 \<noteq> None" using pointer_window_exists [OF tok2] by blast
  obtain loss where loss: "input_loss_of ?was t1 = Some loss"
    "ilPointerLost loss \<Longrightarrow> inPointerGrab (ssInput t1) \<noteq> None" "ilKeyboardLost loss \<Longrightarrow> inKeyboardGrab (ssInput t1) \<noteq> None"
    using input_loss_returns [OF tok1(1), of ?was] by fastforce
  let ?u = "drop_lost loss t1"
  have u: "ssWindows ?u = ssWindows t1" "ssInput ?u = input_after loss t1" by (simp_all add: drop_lost_def input_after_def)
  note after = input_after_viewable [OF tok1(1) in1 loss(1) u]
  have fw: "fsKind (ilFocus loss) = FocusWindow \<Longrightarrow> window t1 (fsWindow (ilFocus loss)) \<noteq> None"
    using after(1) by (simp add: input_ok_def drop_lost_def window_def)
  let ?grab = "kept_pointer_grab loss ?i"
  obtain c where c: "current_cursor_for t2 q2 ?grab = Some c" using current_cursor_for_returns [OF tok2] by blast
  let ?rest = "\<lambda>ds es3. unless_full s (when_planned (?was \<and> p \<noteq> q)
      (append_crossing_events t1 p q (inPointerX ?i) (inPointerY ?i) (inModifierButtonMask ?i) 0 ?grab (ilFocus loss)) es3)
      (\<lambda>unmap_crossing es4. unless_full s (when_planned (?was \<and> q \<noteq> q2)
        (append_crossing_events t2 q q2 (inPointerX ?i) (inPointerY ?i) (inModifierButtonMask ?i) 0 ?grab (ilFocus loss)) es4)
      (\<lambda>map_crossing es5. let (shown, events) = append_cursor_change t2 c es5
        in if shown = QueueFull then Some (QueueFull, s)
           else let (queued, s1) = queue_events_atomically events s
                in Some (if \<not> queued then (QueueFull, s1)
                         else (Delivered, invalidate_scene ((drop_lost loss (?place s1))\<lparr>ssDisplayedCursor := c\<rparr>)))))"
  have run: "move_window v old new x y s = plan_losses t1 s loss p ?rest"
    unfolding move_window_def Let_def p(1) Option.bind.bind_lunit t1_def [symmetric] q(1) loss(1) t2_def [symmetric] q2(1)
      restored_def [symmetric] undone c by simp
  obtain ds es3 where r1: "move_window v old new x y s = ?rest ds es3"
    using plan_losses_run [OF tok1(1) _ in1 loss(2,3) fw, of p s ?rest] p(2) same1 unfolding run by blast
  obtain d4 es4 where x4: "when_planned (?was \<and> p \<noteq> q) (append_crossing_events t1 p q (inPointerX ?i)
      (inPointerY ?i) (inModifierButtonMask ?i) 0 ?grab (ilFocus loss)) es3 = Some (d4, es4)" "d4 \<noteq> QueueFull"
    using when_planned_crossing [OF tok1(1), of "?was \<and> p \<noteq> q" p q] p(2) q(2) same1 by metis
  obtain d5 es5 where x5: "when_planned (?was \<and> q \<noteq> q2) (append_crossing_events t2 q q2 (inPointerX ?i)
      (inPointerY ?i) (inModifierButtonMask ?i) 0 ?grab (ilFocus loss)) es4 = Some (d5, es5)" "d5 \<noteq> QueueFull"
    using when_planned_crossing [OF tok2, of "?was \<and> q \<noteq> q2" q q2] q(2) q2(2) same1 same2 by metis
  obtain shown where sh: "append_cursor_change t2 c es5 = (shown, es5 @ cursor_notices t2 c)" "shown \<noteq> QueueFull"
    using append_cursor_change_eq [of t2 c es5] by (cases "append_cursor_change t2 c es5") auto
  obtain qd s1 where qd: "queue_events_atomically (es5 @ cursor_notices t2 c) s = (qd, s1)" by fastforce
  define s' where "s' = invalidate_scene ((drop_lost loss (?place s1))\<lparr>ssDisplayedCursor := c\<rparr>)"
  have r2: "move_window v old new x y s = Some (if \<not> qd then (QueueFull, s1) else (Delivered, s'))"
    unfolding r1 x4(1) unless_full_Some [OF x4(2)] x5(1) unless_full_Some [OF x5(2)] sh(1) s'_def
    using sh(2) qd by (simp add: Let_def)
  show ?thesis using ok(2) qd
  proof (cases rule: queue_run)
    case refused
    with r2 show ?thesis by simp
  next
    case (accepted eq m)
    have k1: "windows_keyed s1" and w1: "ssWindows s1 = ssWindows s" using keyed by (simp_all add: accepted(2))
    have w1': "window s1 j = window s j" for j by (simp add: window_def w1)
    note S = P [OF k1]
    have mv': "window (?place s1) j = map_option (moved ?k ?o ?n x y j) (window s j)" for j
      unfolding S(1) w1' using k old new ook oid by (auto simp: moved_def moved_other)
    have "map fst (ssWindows (?place s1)) = map fst (ssWindows t2)"
      using S(2) W1(2) P(2) [OF W1(3)] W2(2) w1 by (auto simp: windows_differ_def)
    moreover have "window (?place s1) j = window t2 j" for j using mv mv' by metis
    ultimately have pw2: "ssWindows (?place s1) = ssWindows t2"
      using windows_keyedD(1) [OF S(3)] by (intro umap_eqI) (simp_all add: window_def)
    have wins: "ssWindows s' = ssWindows t2" by (simp add: s'_def drop_lost_def invalidate_scene_def pw2)
    have win': "window s' j = window t2 j" for j by (simp add: window_def wins)
    obtain ws where ws: "?place s1 = s1\<lparr>ssWindows := ws\<rparr>" using windows_differ_frame(3) [OF S(2)] by blast
    have i': "ssInput s' = ssInput ?u"
      unfolding s'_def ws by (simp add: accepted(2) drop_lost_def invalidate_scene_def)
    have same: "recursored (\<lambda>c. c) t2 s'" by (rule recursored_same [OF wins])
    have pw: "pointer_window s' = Some q2"
      by (rule pointer_window_recursored [OF same _ _ q2(1)]) (simp_all add: i' drop_lost_def)
    have "inPointerGrab (ssInput s') = ?grab" by (simp add: i' drop_lost_def kept_pointer_grab_def)
    then have "current_cursor s' = Some c"
      using pw current_cursor_for_recursored [OF same _ c] by (simp add: current_cursor_def option.map_ident)
    then have shown: "cursor_shown s'" by (simp add: cursor_shown_def, simp add: s'_def invalidate_scene_def)
    have tree: "tree_ok s'" using tok2 tree_ok_cong [OF wins] by simp
    have "ssEventQueues s' = ssEventQueues s1" "ssPendingEvents s' = ssPendingEvents s1"
      unfolding s'_def ws by (simp_all add: drop_lost_def invalidate_scene_def)
    then have qs: "queues_ok s'" "queued_events s' e = queued_events s1 e" for e
      using accepted(3) by (simp_all add: queues_ok_def queued_events_def)
    have "window s' j \<noteq> None \<longleftrightarrow> window ?u j \<noteq> None" for j
      using same1 same2 by (simp add: window_def wins u(1))
    then have hold: "input_ok s'" using after(1) unfolding input_ok_def i' by blast
    have stays: "all_mapped s' j" if "all_mapped t1 j" for j
    proof (rule all_mapped_elsewhere [OF _ _ _ _ that])
      show "window t1 ?k = Some (v\<lparr>wnMapped := False\<rparr>)" by (simp add: f1 k(1))
      show "\<exists>u. window s' j = Some u \<and> wnParent u = wnParent w \<and> wnMapped u = wnMapped w"
        if "j \<noteq> ?k" "window t1 j = Some w" for j w
        using that by (auto simp: win' mv f1 moved_def)
      show "rooted t1 j" using that tree_okD(4) [OF tok1(1)] by (auto dest: all_mappedD)
    qed simp
    have "input_viewable ?u" if "input_viewable s \<or> ?was"
    proof (cases ?was)
      case True
      then show ?thesis by (rule after(2))
    next
      case False
      then have "t1 = s" using windows_differ_back [OF W1(2) windows_keyedD(1) [OF keyed]] k(1) by (auto simp: W1(1))
      with that False show ?thesis using after(3) by simp
    qed
    then have "input_viewable s'" if "input_viewable s \<or> ?was"
      using that stays unfolding input_viewable_def viewable_grab_def i' all_mapped_cong [OF u(1)] by blast
    moreover have "mapping_frame s s'"
      unfolding mapping_frame_def s'_def ws by (simp add: accepted(2) drop_lost_def invalidate_scene_def Let_def)
    ultimately show ?thesis using r2 accepted(1,4) tree qs hold shown win' mv by (auto simp: oid)
  qed
qed


lemma reparent_window_effect_run:
  assumes ok: "tree_ok s" "queues_ok s" "input_ok s"
  shows "\<exists>r s'. reparent_window k p x y s = Some (r, s') \<and> tree_ok s' \<and> queues_ok s' \<and> input_ok s' \<and>
    (r = ReparentInvalid \<longleftrightarrow> window s k = None \<or> window s p = None \<or> k = root_window_id \<or> p = k \<or>
       (p, k) \<in> (parent_rel s)\<^sup>+) \<and>
    (r \<noteq> ReparentUpdated \<longrightarrow> s' = s) \<and>
    (r = ReparentUpdated \<longrightarrow> (\<exists>v. window s k = Some v \<and>
       (\<forall>j. window s' j = map_option (moved k (wnParent v) p x y j) (window s j)) \<and> cursor_shown s' \<and>
       (input_viewable s \<or> wnMapped v \<longrightarrow> input_viewable s') \<and> mapping_frame s s' \<and>
       (\<exists>es. \<forall>c. queued_events s' c = queued_events s c @ stamped_for s c es)))"
proof (cases "window s k = None \<or> window s p = None \<or> k = root_window_id \<or> p = k \<or> (p, k) \<in> (parent_rel s)\<^sup>+")
  case True
  then have "reparent_window k p x y s = Some (ReparentInvalid, s)"
    by (auto simp: reparent_window_def is_descendant_returns [OF ok(1)] split: option.splits)
  with True ok show ?thesis by (auto simp del: not_None_eq)
next
  case False
  then obtain v u where v: "window s k = Some v" "k \<noteq> root_window_id" and u: "window s p = Some u" "p \<noteq> k"
    and out: "(p, k) \<notin> (parent_rel s)\<^sup>+" by auto
  have id: "wnId v = k" "wnId u = p" using windows_keyedD(2) [OF tree_okD(1) [OF ok(1)]] v(1) u(1) by blast+
  obtain old where old: "window s (wnParent v) = Some old" using tree_okD(7) [OF ok(1) v] by blast
  obtain r s' where run: "move_window v old u x y s = Some (r, s')"
    and R: "if r = QueueFull then s' = s
     else tree_ok s' \<and> queues_ok s' \<and> input_ok s' \<and> cursor_shown s' \<and>
       (\<forall>j. window s' j = map_option (moved (wnId v) (wnParent v) (wnId u) x y j) (window s j)) \<and>
       (input_viewable s \<or> wnMapped v \<longrightarrow> input_viewable s') \<and> mapping_frame s s' \<and>
       (\<exists>es. \<forall>c. queued_events s' c = queued_events s c @ stamped_for s c es)"
    using move_window_run [OF ok, of v old u x y] v u out old by (auto simp: id)
  have "reparent_window k p x y s = Some (if r = QueueFull then ReparentQueueFull else ReparentUpdated, s')"
    using v u out old run by (simp add: reparent_window_def is_descendant_returns [OF ok(1)])
  with False R ok v(1) show ?thesis by (cases "r = QueueFull") (auto simp: id)
qed

text \<open>C12. Reparenting moves exactly one window, keeps the tree a tree, and is atomic.  On a well-formed
  tree whose held windows exist the request returns.  It is invalid exactly when a window is missing,
  the root is to move, or the new parent is the window or one of its descendants; then, and when a
  queue was full, nothing changes.  Otherwise the window leaves its old parent's child list, comes
  last in the new parent's and has the new place, no other window and no part of the server but the
  held input, the cursor shown and the queues changes, the tree is well formed,
  the cursor shown is the one in force, only viewable windows hold the input if that was so before or
  the window was mapped, and every client's queue has only grown, by one and the same plan.\<close>

theorem reparent_window_effect:
  assumes ok: "tree_ok s" "queues_ok s" "input_ok s"
  shows "\<exists>r s'. reparent_window k p x y s = Some (r, s') \<and> tree_ok s' \<and> queues_ok s' \<and> input_ok s' \<and>
    (r = ReparentInvalid \<longleftrightarrow> window s k = None \<or> window s p = None \<or> k = root_window_id \<or> p = k \<or>
       (p, k) \<in> (parent_rel s)\<^sup>+) \<and>
    (r \<noteq> ReparentUpdated \<longrightarrow> s' = s) \<and>
    (r = ReparentUpdated \<longrightarrow> (\<exists>v. window s k = Some v \<and>
       (\<forall>j. window s' j = map_option (moved k (wnParent v) p x y j) (window s j)) \<and> cursor_shown s' \<and>
       (input_viewable s \<or> wnMapped v \<longrightarrow> input_viewable s') \<and> mapping_frame s s' \<and>
       (\<exists>es. \<forall>c. queued_events s' c = queued_events s c @ stamped_for s c es)))"
  using assms by (rule reparent_window_effect_run)

theorem reparent_window_effect_witness:
  "(\<exists>r s'. reparent_window 8 7 5 6 two_children_state = Some (r, s') \<and> r \<noteq> ReparentInvalid \<and> tree_ok s' \<and>
      (r = ReparentUpdated \<longrightarrow> map_option wnChildren (window s' 7) = Some [8] \<and>
         map_option wnChildren (window s' root_window_id) = Some [7] \<and> map_option wnParent (window s' 8) = Some 7))"
proof -
  have "(7, 8) \<notin> (parent_rel two_children_state)\<^sup>+"
  proof
    assume "(7, 8) \<in> (parent_rel two_children_state)\<^sup>+"
    then obtain j where "(j, 8) \<in> parent_rel two_children_state" by (auto dest: tranclD2)
    then show False by (auto simp: parent_rel_def two_children_window root_window_id_def split: if_splits)
  qed
  moreover have w: "window two_children_state 8 = Some (sample_window\<lparr>wnId := 8\<rparr>)" "window two_children_state 7 \<noteq> None"
    "(8::u32) \<noteq> root_window_id" by (simp_all add: two_children_window root_window_id_def)
  ultimately obtain r s' where R: "reparent_window 8 7 5 6 two_children_state = Some (r, s')" "tree_ok s'" "r \<noteq> ReparentInvalid"
    "r = ReparentUpdated \<Longrightarrow> window s' j = map_option (moved 8 root_window_id 7 5 6 j) (window two_children_state j)" for j
    using reparent_window_effect [OF two_children_ok two_children_input_ok, of 8 7 5 6] by auto
  then show ?thesis by (auto simp: two_children_window root_window_id_def moved_def)
qed

end
