(* ===== verification/Window_Destruction.thy ===== *)
theory Window_Destruction
  imports Window_Reparenting Selections Sync Window_Properties
begin

text \<open>
  Destroying windows (\<^verbatim>\<open>src/server/server_state.cpp\<close>): \<open>erase_window_tree\<close> removes a window and
  everything below it together with every reference the server holds to it (grabs, selections,
  subscriptions, buffers, damage, Present operations, save sets, properties); \<open>destroy_window\<close> and
  \<open>destroy_subwindows\<close> unmap first.  The removal recurses into the last child until none is left;
  it is a \<open>partial_function\<close>, and that it returns is proved of well-formed trees.
\<close>

subsection \<open>References to a window\<close>

definition drop_window_grabs :: "u32 \<Rightarrow> server_state \<Rightarrow> server_state" where
  "drop_window_grabs k s =
     (let s1 = (case inPointerGrab (ssInput s) of
                  None \<Rightarrow> s
                | Some g \<Rightarrow> if agWindow g = k \<or> agConfineTo g = k
                            then on_input (\<lambda>i. i\<lparr>inPointerGrab := None, inFrozenPointerEvent := None\<rparr>) s
                            else s);
          s2 = (case inKeyboardGrab (ssInput s1) of
                  None \<Rightarrow> s1
                | Some g \<Rightarrow> if agWindow g = k then on_input (\<lambda>i. i\<lparr>inKeyboardGrab := None\<rparr>) s1 else s1)
      in s2\<lparr>ssPassiveGrabs := filter (\<lambda>g. \<not> (pgWindow g = k \<or> pgConfineTo g = k)) (ssPassiveGrabs s2)\<rparr>)"

definition drop_window_buffers :: "u32 \<Rightarrow> server_state \<Rightarrow> server_state" where
  "drop_window_buffers k s =
     (let ids = map fst (filter (\<lambda>e. dbWindow (snd e) = k) (ssDbeBuffers s));
          s1 = fold unregister ids s
      in s1\<lparr>ssDbeBuffers := umap_erase_if (\<lambda>_ b. dbWindow b = k) (ssDbeBuffers s1)\<rparr>)"

definition drop_window_subscriptions :: "u32 \<Rightarrow> server_state \<Rightarrow> server_state" where
  "drop_window_subscriptions k s =
     s\<lparr>ssXi2Selections := filter (\<lambda>e. xlWindow e \<noteq> k) (ssXi2Selections s),
       ssXfixesSelectionInputs := filter (\<lambda>e. xsWindow e \<noteq> k) (ssXfixesSelectionInputs s),
       ssXfixesCursorInputs := filter (\<lambda>e. xcWindow e \<noteq> k) (ssXfixesCursorInputs s),
       ssRandr := (ssRandr s)\<lparr>rdSubscriptions := filter (\<lambda>e. rsWindow e \<noteq> k) (rdSubscriptions (ssRandr s))\<rparr>\<rparr>"

text \<open>The loop over the pending Present operations: what is left of them, and the state with the idle
  fences of the dropped ones triggered.\<close>

fun drop_operations ::
  "u32 \<Rightarrow> present_operation list \<Rightarrow> server_state \<Rightarrow> present_operation list \<times> server_state" where
  "drop_operations k [] s = ([], s)"
| "drop_operations k (p # ps) s =
     (if poWindow p = k
      then drop_operations k ps (if poIdleFence p \<noteq> 0 then snd (trigger_sync_fence (poIdleFence p) s) else s)
      else let (kept, s1) = drop_operations k ps s
           in (p\<lparr>poNotifies := filter (\<lambda>n. pnWindow n \<noteq> k) (poNotifies p)\<rparr> # kept, s1))"

definition drop_window_presents :: "u32 \<Rightarrow> server_state \<Rightarrow> server_state" where
  "drop_window_presents k s =
     (let s1 = fold unregister (map psId (filter (\<lambda>p. psWindow p = k) (ssPresentSubscriptions s))) s;
          s2 = s1\<lparr>ssPresentSubscriptions := filter (\<lambda>p. psWindow p \<noteq> k) (ssPresentSubscriptions s1)\<rparr>;
          (kept, s3) = drop_operations k (ssPresentOperations s2) s2
      in s3\<lparr>ssPresentOperations := kept\<rparr>)"

text \<open>The redirections and the save sets; a save set that becomes empty is erased.\<close>

definition drop_window_entries :: "u32 \<Rightarrow> server_state \<Rightarrow> server_state" where
  "drop_window_entries k s =
     s\<lparr>ssCompositeRedirects := filter (\<lambda>e. cmWindow e \<noteq> k) (ssCompositeRedirects s),
       ssSaveSets := umap_erase_if (\<lambda>_ entries. entries = [])
         (umap_map (\<lambda>_. filter (\<lambda>e. seWindow e \<noteq> k)) (ssSaveSets s))\<rparr>"

definition release_property_bytes :: "window_record \<Rightarrow> server_state \<Rightarrow> server_state" where
  "release_property_bytes w s =
     s\<lparr>ssPropertyBytes := fold (\<lambda>p n. size_sub n (length (pvData (snd p)))) (wnProperties w) (ssPropertyBytes s)\<rparr>"

definition drop_window_damages :: "u32 \<Rightarrow> server_state \<Rightarrow> server_state" where
  "drop_window_damages k s =
     (let ids = map fst (filter (\<lambda>e. dmDrawable (snd e) = k) (ssDamages s));
          s1 = fold unregister ids s
      in s1\<lparr>ssDamages := umap_erase_if (\<lambda>_ d. dmDrawable d = k) (ssDamages s1)\<rparr>)"

definition unlink_window :: "u32 \<Rightarrow> window_record \<Rightarrow> server_state \<Rightarrow> server_state" where
  "unlink_window k w s =
     (let s1 = modify_window (wnParent w) (\<lambda>p. p\<lparr>wnChildren := filter (\<lambda>c. c \<noteq> k) (wnChildren p)\<rparr>) s;
          s2 = s1\<lparr>ssWindows := umap_erase k (ssWindows s1)\<rparr>
      in invalidate_scene (unregister k s2))"

text \<open>The body of \<open>erase_window_tree\<close> once the window has no children.\<close>

definition release_window :: "u32 \<Rightarrow> window_record \<Rightarrow> server_state \<Rightarrow> server_state option" where
  "release_window k w s =
     Option.bind (revert_focus_from k s) (\<lambda>s1.
       let s2 = drop_window_buffers k (drop_window_grabs k s1);
           s3 = drop_window_subscriptions k (clear_selections_for_window k s2);
           s4 = drop_window_entries k (drop_window_presents k s3);
           s5 = drop_window_damages k (release_property_bytes w s4)
       in map_option snd (cursor_maybe_changed (unlink_window k w s5)))"

subsection \<open>The operations\<close>

partial_function (option) erase_window_tree :: "u32 \<Rightarrow> server_state \<Rightarrow> server_state option" where
  "erase_window_tree k s =
     (case window s k of
        None \<Rightarrow> Some s
      | Some w \<Rightarrow>
          if k = root_window_id then Some s
          else if wnChildren w \<noteq> []
          then Option.bind (erase_window_tree (last (wnChildren w)) s) (erase_window_tree k)
          else release_window k w s)"

definition destroy_window :: "u32 \<Rightarrow> server_state \<Rightarrow> (event_delivery \<times> server_state) option" where
  "destroy_window k s =
     (if k = root_window_id then Some (NoRecipient, s)
      else case window s k of
             None \<Rightarrow> Some (NoRecipient, s)
           | Some w \<Rightarrow>
               Option.bind (set_window_mapped w False s) (\<lambda>(delivery, s1).
                 if delivery = QueueFull then Some (delivery, s1)
                 else map_option (Pair delivery) (erase_window_tree k s1)))"

text \<open>The loop of \<open>destroy_subwindows\<close> over the last child.\<close>

partial_function (option) erase_children :: "u32 \<Rightarrow> server_state \<Rightarrow> server_state option" where
  "erase_children k s =
     (case window s k of
        None \<Rightarrow> Some s
      | Some w \<Rightarrow>
          if wnChildren w = [] then Some s
          else Option.bind (erase_window_tree (last (wnChildren w)) s) (erase_children k))"

definition destroy_subwindows :: "u32 \<Rightarrow> server_state \<Rightarrow> (event_delivery \<times> server_state) option" where
  "destroy_subwindows k s =
     (case window s k of
        None \<Rightarrow> Some (NoRecipient, s)
      | Some _ \<Rightarrow>
          Option.bind (set_subwindows_mapped k False s) (\<lambda>(delivery, s1).
            if delivery = QueueFull then Some (delivery, s1)
            else map_option (Pair delivery) (erase_children k s1)))"

subsection \<open>Frames\<close>

lemma selection_frame_refl:
  "\<exists>q n m. s = s\<lparr>ssEventQueues := q, ssPendingEvents := n, ssSelections := m\<rparr>" for s :: server_state
  by (intro exI [of _ "ssEventQueues s"] exI [of _ "ssPendingEvents s"] exI [of _ "ssSelections s"]) simp

text \<open>The states that differ in the fences and the waits for them only.\<close>

definition fences_differ :: "server_state \<Rightarrow> server_state \<Rightarrow> bool" where
  "fences_differ s t \<longleftrightarrow> t = s\<lparr>ssSyncFences := ssSyncFences t, ssSyncFenceWaits := ssSyncFenceWaits t\<rparr> \<and>
     map fst (ssSyncFences t) = map fst (ssSyncFences s)"

lemma fences_differ_frame:
  assumes "fences_differ s t"
  shows "ssEventQueues t = ssEventQueues s" "ssPendingEvents t = ssPendingEvents s" "ssSelections t = ssSelections s"
    "t = s\<lparr>ssSyncFences := ssSyncFences t, ssSyncFenceWaits := ssSyncFenceWaits t\<rparr>"
    "map fst (ssSyncFences t) = map fst (ssSyncFences s)"
proof -
  show t: "t = s\<lparr>ssSyncFences := ssSyncFences t, ssSyncFenceWaits := ssSyncFenceWaits t\<rparr>"
      "map fst (ssSyncFences t) = map fst (ssSyncFences s)"
    using assms unfolding fences_differ_def by blast+
  obtain f w where "t = s\<lparr>ssSyncFences := f, ssSyncFenceWaits := w\<rparr>" using t(1) by blast
  then show "ssEventQueues t = ssEventQueues s" "ssPendingEvents t = ssPendingEvents s" "ssSelections t = ssSelections s"
    by simp_all
qed

lemma fences_differ_trans:
  assumes "fences_differ s t" "fences_differ t u"
  shows "fences_differ s u"
proof -
  have "u = t\<lparr>ssSyncFences := ssSyncFences u, ssSyncFenceWaits := ssSyncFenceWaits u\<rparr>"
    using assms(2) by (simp add: fences_differ_def)
  also have "\<dots> = (s\<lparr>ssSyncFences := ssSyncFences t, ssSyncFenceWaits := ssSyncFenceWaits t\<rparr>)
      \<lparr>ssSyncFences := ssSyncFences u, ssSyncFenceWaits := ssSyncFenceWaits u\<rparr>"
    using assms(1) by (simp only: fences_differ_def)
  finally have "u = s\<lparr>ssSyncFences := ssSyncFences u, ssSyncFenceWaits := ssSyncFenceWaits u\<rparr>" by simp
  with assms show ?thesis by (simp only: fences_differ_def)
qed

lemma trigger_sync_fence_frame: "fences_differ s (snd (trigger_sync_fence rid s))"
  by (cases "sync_fence s rid")
    (simp_all add: fences_differ_def trigger_sync_fence_def release_fence_waits_def map_fst_put umap_contains_def sync_fence_def)

lemma drop_operations_run:
  "fst (drop_operations k ps s) =
     map (\<lambda>p. p\<lparr>poNotifies := filter (\<lambda>n. pnWindow n \<noteq> k) (poNotifies p)\<rparr>) (filter (\<lambda>p. poWindow p \<noteq> k) ps)"
  "fences_differ s (snd (drop_operations k ps s))"
  "sync_ok s \<Longrightarrow> sync_ok (snd (drop_operations k ps s))"
proof (induction ps arbitrary: s)
  case (Cons p ps)
  let ?t = "\<lambda>s. if poIdleFence p \<noteq> 0 then snd (trigger_sync_fence (poIdleFence p) s) else s"
  have t: "fences_differ s (?t s)" "sync_ok s \<Longrightarrow> sync_ok (?t s)" for s
    using trigger_sync_fence_frame trigger_sync_fence_ok by (simp_all add: fences_differ_def)
  have run: "snd (drop_operations k (p # ps) s) =
      (if poWindow p = k then snd (drop_operations k ps (?t s)) else snd (drop_operations k ps s))" for s
    by (simp add: split_beta)
  {
    case 1
    show ?case using Cons.IH(1) by (simp add: split_beta)
  next
    case 2
    show ?case unfolding run using Cons.IH(2) [of s] fences_differ_trans [OF t(1) Cons.IH(2)] by simp
  next
    case 3
    show ?case unfolding run using Cons.IH(3) [OF 3] Cons.IH(3) [OF t(2) [OF 3]] by simp
  }
qed (simp_all add: fences_differ_def)

lemma clear_selections_frame:
  "\<exists>q n m. fold (clear_selection_entry k) es s = s\<lparr>ssEventQueues := q, ssPendingEvents := n, ssSelections := m\<rparr>"
proof (induction es arbitrary: s)
  case Nil
  show ?case
    by (intro exI [of _ "ssEventQueues s"] exI [of _ "ssPendingEvents s"] exI [of _ "ssSelections s"]) simp
next
  case (Cons e es)
  obtain q n m where e: "clear_selection_entry k e s = s\<lparr>ssEventQueues := q, ssPendingEvents := n, ssSelections := m\<rparr>"
  proof (cases "slWindow (snd e) = k")
    case True
    obtain q n where "snd (queue_events_atomically (selection_notifications s (fst e) 2 1 0 (slChangedAt (snd e))) s)
        = s\<lparr>ssEventQueues := q, ssPendingEvents := n\<rparr>"
      using queue_events_server_frame by blast
    with True show ?thesis by (intro that) (simp add: clear_selection_entry_def Let_def)
  next
    case False
    then have "clear_selection_entry k e s = s" by (simp add: clear_selection_entry_def)
    with selection_frame_refl [of s] that show ?thesis by metis
  qed
  show ?case using Cons.IH [of "clear_selection_entry k e s"] by (auto simp: e)
qed


definition dropped_input :: "u32 \<Rightarrow> input_state \<Rightarrow> input_state" where
  "dropped_input k i =
     (let lost = (\<exists>g. inPointerGrab i = Some g \<and> (agWindow g = k \<or> agConfineTo g = k))
      in i\<lparr>inPointerGrab := (if lost then None else inPointerGrab i),
           inFrozenPointerEvent := (if lost then None else inFrozenPointerEvent i),
           inKeyboardGrab := (if \<exists>g. inKeyboardGrab i = Some g \<and> agWindow g = k then None else inKeyboardGrab i)\<rparr>)"

lemma drop_window_grabs_eq:
  "drop_window_grabs k s = s\<lparr>ssInput := dropped_input k (ssInput s),
     ssPassiveGrabs := filter (\<lambda>g. \<not> (pgWindow g = k \<or> pgConfineTo g = k)) (ssPassiveGrabs s)\<rparr>"
  by (auto simp: drop_window_grabs_def dropped_input_def Let_def split: option.splits)

text \<open>Everything between the focus and the unlinking, in the order of the code.\<close>

definition drop_references :: "u32 \<Rightarrow> window_record \<Rightarrow> server_state \<Rightarrow> server_state" where
  "drop_references k w s =
     drop_window_damages k (release_property_bytes w (drop_window_entries k (drop_window_presents k
       (drop_window_subscriptions k (clear_selections_for_window k (drop_window_buffers k (drop_window_grabs k s)))))))"

abbreviation window_buffers :: "server_state \<Rightarrow> u32 \<Rightarrow> u32 list" where
  "window_buffers s k \<equiv> map fst (filter (\<lambda>e. dbWindow (snd e) = k) (ssDbeBuffers s))"

abbreviation window_presents :: "server_state \<Rightarrow> u32 \<Rightarrow> u32 list" where
  "window_presents s k \<equiv> map psId (filter (\<lambda>p. psWindow p = k) (ssPresentSubscriptions s))"

abbreviation window_damages :: "server_state \<Rightarrow> u32 \<Rightarrow> u32 list" where
  "window_damages s k \<equiv> map fst (filter (\<lambda>e. dmDrawable (snd e) = k) (ssDamages s))"

lemma drop_references_form:
  "\<exists>q n m f v. map fst f = map fst (ssSyncFences s) \<and> drop_references k w s = s
     \<lparr>ssEventQueues := q, ssPendingEvents := n, ssSelections := m, ssSyncFences := f, ssSyncFenceWaits := v,
      ssInput := dropped_input k (ssInput s),
      ssPassiveGrabs := filter (\<lambda>g. \<not> (pgWindow g = k \<or> pgConfineTo g = k)) (ssPassiveGrabs s),
      ssResources := fold umap_erase (window_buffers s k @ window_presents s k @ window_damages s k) (ssResources s),
      ssDbeBuffers := umap_erase_if (\<lambda>_ b. dbWindow b = k) (ssDbeBuffers s),
      ssXi2Selections := filter (\<lambda>e. xlWindow e \<noteq> k) (ssXi2Selections s),
      ssXfixesSelectionInputs := filter (\<lambda>e. xsWindow e \<noteq> k) (ssXfixesSelectionInputs s),
      ssXfixesCursorInputs := filter (\<lambda>e. xcWindow e \<noteq> k) (ssXfixesCursorInputs s),
      ssRandr := (ssRandr s)\<lparr>rdSubscriptions := filter (\<lambda>e. rsWindow e \<noteq> k) (rdSubscriptions (ssRandr s))\<rparr>,
      ssPresentSubscriptions := filter (\<lambda>p. psWindow p \<noteq> k) (ssPresentSubscriptions s),
      ssPresentOperations := map (\<lambda>p. p\<lparr>poNotifies := filter (\<lambda>n. pnWindow n \<noteq> k) (poNotifies p)\<rparr>)
        (filter (\<lambda>p. poWindow p \<noteq> k) (ssPresentOperations s)),
      ssCompositeRedirects := filter (\<lambda>e. cmWindow e \<noteq> k) (ssCompositeRedirects s),
      ssSaveSets := umap_erase_if (\<lambda>_ entries. entries = [])
         (umap_map (\<lambda>_. filter (\<lambda>e. seWindow e \<noteq> k)) (ssSaveSets s)),
      ssPropertyBytes := fold (\<lambda>p n. size_sub n (length (pvData (snd p)))) (wnProperties w) (ssPropertyBytes s),
      ssDamages := umap_erase_if (\<lambda>_ d. dmDrawable d = k) (ssDamages s)\<rparr>"
proof -
  define s2 where "s2 = drop_window_buffers k (drop_window_grabs k s)"
  obtain q n m where c: "clear_selections_for_window k s2 = s2\<lparr>ssEventQueues := q, ssPendingEvents := n, ssSelections := m\<rparr>"
    using clear_selections_frame [of k "ssSelections s2" s2] by (auto simp: clear_selections_for_window_def)
  define s3 where "s3 = drop_window_subscriptions k (clear_selections_for_window k s2)"
  define s4 where "s4 = (fold unregister (map psId (filter (\<lambda>p. psWindow p = k) (ssPresentSubscriptions s3))) s3)
      \<lparr>ssPresentSubscriptions := filter (\<lambda>p. psWindow p \<noteq> k) (ssPresentSubscriptions s3)\<rparr>"
  define s5 where "s5 = snd (drop_operations k (ssPresentOperations s4) s4)"
  have s5: "s5 = s4\<lparr>ssSyncFences := ssSyncFences s5, ssSyncFenceWaits := ssSyncFenceWaits s5\<rparr>"
      "map fst (ssSyncFences s5) = map fst (ssSyncFences s4)"
    using fences_differ_frame(4,5) [OF drop_operations_run(2) [of s4 k "ssPresentOperations s4"]] by (simp_all only: s5_def)
  have p: "drop_window_presents k s3 = s5\<lparr>ssPresentOperations :=
      map (\<lambda>p. p\<lparr>poNotifies := filter (\<lambda>n. pnWindow n \<noteq> k) (poNotifies p)\<rparr>)
        (filter (\<lambda>p. poWindow p \<noteq> k) (ssPresentOperations s4))\<rparr>"
    using drop_operations_run(1) [of k "ssPresentOperations s4" s4]
    by (simp add: drop_window_presents_def Let_def split_beta s5_def s4_def fold_unregister_frame)
  have s4: "s4 = s3\<lparr>ssResources := fold umap_erase (window_presents s3 k) (ssResources s3),
      ssPresentSubscriptions := filter (\<lambda>p. psWindow p \<noteq> k) (ssPresentSubscriptions s3)\<rparr>"
    by (simp add: s4_def fold_unregister_frame)
  have s2: "s2 = s\<lparr>ssInput := dropped_input k (ssInput s),
      ssPassiveGrabs := filter (\<lambda>g. \<not> (pgWindow g = k \<or> pgConfineTo g = k)) (ssPassiveGrabs s),
      ssResources := fold umap_erase (window_buffers s k) (ssResources s),
      ssDbeBuffers := umap_erase_if (\<lambda>_ b. dbWindow b = k) (ssDbeBuffers s)\<rparr>"
    by (simp add: s2_def drop_window_buffers_def Let_def fold_unregister_frame drop_window_grabs_eq)
  have s3: "s3 = s2\<lparr>ssEventQueues := q, ssPendingEvents := n, ssSelections := m,
      ssXi2Selections := filter (\<lambda>e. xlWindow e \<noteq> k) (ssXi2Selections s2),
      ssXfixesSelectionInputs := filter (\<lambda>e. xsWindow e \<noteq> k) (ssXfixesSelectionInputs s2),
      ssXfixesCursorInputs := filter (\<lambda>e. xcWindow e \<noteq> k) (ssXfixesCursorInputs s2),
      ssRandr := (ssRandr s2)\<lparr>rdSubscriptions := filter (\<lambda>e. rsWindow e \<noteq> k) (rdSubscriptions (ssRandr s2))\<rparr>\<rparr>"
    by (simp add: s3_def c drop_window_subscriptions_def)
  have keys: "map fst (ssSyncFences s5) = map fst (ssSyncFences s)" unfolding s5(2) by (simp add: s4 s3 s2)
  show ?thesis
    unfolding drop_references_def s2_def [symmetric] s3_def [symmetric] p
    by (intro exI [of _ q] exI [of _ n] exI [of _ m] exI [of _ "ssSyncFences s5"] exI [of _ "ssSyncFenceWaits s5"],
        intro conjI keys, subst s5(1)) (simp add: drop_window_damages_def Let_def fold_unregister_frame release_property_bytes_def
        drop_window_entries_def s4 s3 s2)
qed


lemma drop_references_parts:
  fixes s :: server_state and k :: u32
  defines "s2 \<equiv> drop_window_buffers k (drop_window_grabs k s)"
  shows "ssEventQueues (drop_references k w s) = ssEventQueues (clear_selections_for_window k s2)"
    "ssPendingEvents (drop_references k w s) = ssPendingEvents (clear_selections_for_window k s2)"
    "ssSelections (drop_references k w s) = ssSelections (clear_selections_for_window k s2)"
    "sync_ok s \<Longrightarrow> sync_ok (drop_references k w s)"
proof -
  obtain q n m where c: "clear_selections_for_window k s2 = s2\<lparr>ssEventQueues := q, ssPendingEvents := n, ssSelections := m\<rparr>"
    using clear_selections_frame [of k "ssSelections s2" s2] by (auto simp: clear_selections_for_window_def)
  define s3 where "s3 = drop_window_subscriptions k (clear_selections_for_window k s2)"
  define s4 where "s4 = (fold unregister (map psId (filter (\<lambda>p. psWindow p = k) (ssPresentSubscriptions s3))) s3)
      \<lparr>ssPresentSubscriptions := filter (\<lambda>p. psWindow p \<noteq> k) (ssPresentSubscriptions s3)\<rparr>"
  define s5 where "s5 = snd (drop_operations k (ssPresentOperations s4) s4)"
  note D = drop_operations_run(2,3) [of s4 k "ssPresentOperations s4", folded s5_def]
  have p: "drop_window_presents k s3 = s5\<lparr>ssPresentOperations := fst (drop_operations k (ssPresentOperations s4) s4)\<rparr>"
    by (simp add: drop_window_presents_def Let_def split_beta s5_def s4_def fold_unregister_frame)
  note s5 = fences_differ_frame(1-3) [OF D(1)]
  note defs = drop_references_def s2_def [symmetric] s3_def [symmetric] p
  note frames = drop_window_damages_def Let_def fold_unregister_frame release_property_bytes_def drop_window_entries_def
  show "ssEventQueues (drop_references k w s) = ssEventQueues (clear_selections_for_window k s2)"
    "ssPendingEvents (drop_references k w s) = ssPendingEvents (clear_selections_for_window k s2)"
    "ssSelections (drop_references k w s) = ssSelections (clear_selections_for_window k s2)"
    unfolding defs by (simp_all add: frames s5, simp_all add: s4_def s3_def fold_unregister_frame drop_window_subscriptions_def)
  assume "sync_ok s"
  then have "sync_ok s4"
    by (rule sync_ok_cong) (simp_all add: s4_def s3_def fold_unregister_frame drop_window_subscriptions_def c,
      simp_all add: s2_def drop_window_buffers_def Let_def fold_unregister_frame drop_window_grabs_eq)
  from D(2) [OF this] show "sync_ok (drop_references k w s)"
    unfolding defs by (rule sync_ok_cong) (simp_all add: frames)
qed

subsection \<open>Selections and the focus\<close>

lemma clear_selection_entry_queues:
  assumes "queues_ok s"
  shows "queues_ok (clear_selection_entry k e s)"
    "\<exists>es. \<forall>c. queued_events (clear_selection_entry k e s) c = queued_events s c @ es c"
proof -
  obtain q s1 where q: "queue_events_atomically (selection_notifications s (fst e) 2 1 0 (slChangedAt (snd e))) s = (q, s1)"
    by fastforce
  have "queues_ok s1 \<and> (\<exists>es. \<forall>c. queued_events s1 c = queued_events s c @ es c)"
    using assms q by (cases rule: queue_run) (simp_all add: assms, auto intro: exI [of _ "\<lambda>_. []"])
  then show "queues_ok (clear_selection_entry k e s)"
    "\<exists>es. \<forall>c. queued_events (clear_selection_entry k e s) c = queued_events s c @ es c"
    using assms q by (auto simp: clear_selection_entry_def Let_def queues_ok_def queued_events_def intro: exI [of _ "\<lambda>_. []"])
qed

lemma clear_selections_queues:
  "queues_ok s \<Longrightarrow> queues_ok (fold (clear_selection_entry k) es s) \<and>
     (\<exists>more. \<forall>c. queued_events (fold (clear_selection_entry k) es s) c = queued_events s c @ more c)"
proof (induction es arbitrary: s)
  case (Cons e es)
  obtain more1 where "\<forall>c. queued_events (clear_selection_entry k e s) c = queued_events s c @ more1 c"
    using clear_selection_entry_queues(2) [OF Cons.prems] by blast
  moreover obtain more2 where "\<forall>c. queued_events (fold (clear_selection_entry k) es (clear_selection_entry k e s)) c =
      queued_events (clear_selection_entry k e s) c @ more2 c"
    using Cons.IH [OF clear_selection_entry_queues(1) [OF Cons.prems]] by blast
  ultimately have "\<forall>c. queued_events (fold (clear_selection_entry k) (e # es) s) c = queued_events s c @ more1 c @ more2 c"
    by simp
  with Cons.IH [OF clear_selection_entry_queues(1) [OF Cons.prems]] show ?case
    by (simp only: fold_Cons comp_apply) (intro conjI exI [of _ "\<lambda>c. more1 c @ more2 c"], simp_all)
qed (auto intro: exI [of _ "\<lambda>_. []"])

lemma clear_selection_entry_selections:
  "ssSelections (clear_selection_entry k e s) =
     (if slWindow (snd e) = k
      then umap_put (fst e) \<lparr>slWindow = 0, slClient = 0, slChangedAt = ssCurrentTime s\<rparr> (ssSelections s)
      else ssSelections s)"
  "ssCurrentTime (clear_selection_entry k e s) = ssCurrentTime s"
  using queue_events_server_frame [of "selection_notifications s (fst e) 2 1 0 (slChangedAt (snd e))" s]
  by (auto simp: clear_selection_entry_def Let_def)

text \<open>A selection that was on the window is nobody's now, the others are what they were.\<close>

lemma fold_clear_selections:
  assumes "distinct (map fst es)" "\<And>e. e \<in> set es \<Longrightarrow> umap_find (fst e) (ssSelections s) = Some (snd e)"
  shows "umap_find a (ssSelections (fold (clear_selection_entry k) es s)) =
    (case umap_find a (ssSelections s) of
       None \<Rightarrow> None
     | Some r \<Rightarrow> Some (if a \<in> fst ` set es \<and> slWindow r = k
                      then \<lparr>slWindow = 0, slClient = 0, slChangedAt = ssCurrentTime s\<rparr> else r))"
  using assms
proof (induction es arbitrary: s)
  case (Cons e es)
  let ?s = "clear_selection_entry k e s"
  have e: "umap_find (fst e) (ssSelections s) = Some (snd e)" using Cons.prems(2) by simp
  have "umap_find (fst d) (ssSelections ?s) = Some (snd d)" if "d \<in> set es" for d
  proof -
    have "fst d \<noteq> fst e" using Cons.prems(1) that by (auto simp: image_iff)
    then show ?thesis using Cons.prems(2) [of d] that by (simp add: clear_selection_entry_selections)
  qed
  with Cons.prems(1) have "umap_find a (ssSelections (fold (clear_selection_entry k) es ?s)) =
    (case umap_find a (ssSelections ?s) of
       None \<Rightarrow> None
     | Some r \<Rightarrow> Some (if a \<in> fst ` set es \<and> slWindow r = k
                      then \<lparr>slWindow = 0, slClient = 0, slChangedAt = ssCurrentTime ?s\<rparr> else r))"
    by (intro Cons.IH) auto
  moreover have "a = fst e \<Longrightarrow> a \<notin> fst ` set es" using Cons.prems(1) by auto
  ultimately show ?case using e by (auto simp: clear_selection_entry_selections split: option.splits)
qed (auto split: option.splits)

lemma fold_clear_selections_frame:
  "umap_ok (ssSelections s) \<Longrightarrow> umap_ok (ssSelections (fold (clear_selection_entry k) es s))"
  "ssCurrentTime (fold (clear_selection_entry k) es s) = ssCurrentTime s"
  by (induction es arbitrary: s) (simp_all add: clear_selection_entry_selections)

lemma clear_selections_run:
  fixes k :: u32
  assumes ok: "selections_ok s" "queues_ok s"
  defines "t \<equiv> clear_selections_for_window k s"
  shows "selections_ok t" "queues_ok t" "\<exists>more. \<forall>c. queued_events t c = queued_events s c @ more c"
    "umap_find a (ssSelections t) = (case umap_find a (ssSelections s) of None \<Rightarrow> None
       | Some r \<Rightarrow> Some (if slWindow r = k then \<lparr>slWindow = 0, slClient = 0, slChangedAt = ssCurrentTime s\<rparr> else r))"
proof -
  have u: "umap_ok (ssSelections s)" using ok(1) by (simp add: selections_ok_def)
  have find: "umap_find a (ssSelections t) = (case umap_find a (ssSelections s) of None \<Rightarrow> None
       | Some r \<Rightarrow> Some (if slWindow r = k then \<lparr>slWindow = 0, slClient = 0, slChangedAt = ssCurrentTime s\<rparr> else r))" for a
  proof -
    have "a \<in> fst ` set (ssSelections s)" if "umap_find a (ssSelections s) \<noteq> None" using that by (simp add: umap_find_keys)
    moreover have "umap_find (fst e) (ssSelections s) = Some (snd e)" if "e \<in> set (ssSelections s)" for e
      using that u by (simp add: umap_find_in)
    moreover have "distinct (map fst (ssSelections s))" using u by (simp add: umap_ok_def)
    ultimately show ?thesis using fold_clear_selections [of "ssSelections s" s a k]
      by (cases "umap_find a (ssSelections s)") (simp_all add: t_def clear_selections_for_window_def)
  qed
  then show "umap_find a (ssSelections t) = (case umap_find a (ssSelections s) of None \<Rightarrow> None
       | Some r \<Rightarrow> Some (if slWindow r = k then \<lparr>slWindow = 0, slClient = 0, slChangedAt = ssCurrentTime s\<rparr> else r))" .
  show "selections_ok t" using ok(1) fold_clear_selections_frame find
    by (auto simp: selections_ok_def t_def clear_selections_for_window_def split: option.splits if_splits)
  show "queues_ok t" "\<exists>more. \<forall>c. queued_events t c = queued_events s c @ more c"
    using clear_selections_queues [OF ok(2)] by (simp_all add: t_def clear_selections_for_window_def)
qed

lemma revert_focus_from_run:
  assumes ok: "tree_ok s"
  shows "\<exists>f. revert_focus_from k s = Some (s\<lparr>ssInput := (ssInput s)\<lparr>inFocus := f\<rparr>\<rparr>) \<and>
    (fsKind f = FocusWindow \<longrightarrow> fsWindow f \<noteq> k \<and> (f = inFocus (ssInput s) \<or> window s (fsWindow f) \<noteq> None))"
proof -
  let ?f = "inFocus (ssInput s)"
  obtain g where g: "reverted_focus_state k s = Some g" "fsKind g = FocusWindow \<longrightarrow> can_hold_focus s k (fsWindow g)"
    using focus_reverts_to_holder [OF ok, of k] by blast
  have hold: "can_hold_focus s k j \<Longrightarrow> j \<noteq> k \<and> window s j \<noteq> None" for j
    by (auto simp: can_hold_focus_def dest: all_mappedD)
  have same: "s = s\<lparr>ssInput := (ssInput s)\<lparr>inFocus := ?f\<rparr>\<rparr>" by simp
  show ?thesis
  proof (cases "fsKind ?f = FocusWindow \<and> (fsWindow ?f = k \<or> (fsWindow ?f, k) \<in> (parent_rel s)\<^sup>+)")
    case True
    then have "revert_focus_from k s = Some (s\<lparr>ssInput := (ssInput s)\<lparr>inFocus := g\<rparr>\<rparr>)"
      using g(1) by (auto simp: revert_focus_from_def Let_def is_descendant_returns [OF ok])
    with g(2) hold show ?thesis by blast
  next
    case False
    then have "revert_focus_from k s = Some s"
      by (auto simp: revert_focus_from_def Let_def is_descendant_returns [OF ok])
    with False same show ?thesis by (intro exI [of _ ?f]) auto
  qed
qed

lemma cursor_maybe_changed_run:
  assumes ok: "tree_ok s" "queues_ok s"
  shows "\<exists>r q n d. cursor_maybe_changed s = Some (r, s\<lparr>ssEventQueues := q, ssPendingEvents := n, ssDisplayedCursor := d\<rparr>) \<and>
    queues_ok (s\<lparr>ssEventQueues := q, ssPendingEvents := n, ssDisplayedCursor := d\<rparr>) \<and>
    (\<exists>more. \<forall>c. queued_events (s\<lparr>ssEventQueues := q, ssPendingEvents := n, ssDisplayedCursor := d\<rparr>) c = queued_events s c @ more c)"
proof -
  obtain c where c: "current_cursor s = Some c" using current_cursor_returns [OF ok(1)] by blast
  obtain q s1 where q: "queue_events_atomically (cursor_notices s c) s = (q, s1)" by fastforce
  have run: "cursor_maybe_changed s = Some (if \<not> q then (QueueFull, s1) else (fst (append_cursor_change s c []), s1\<lparr>ssDisplayedCursor := c\<rparr>))"
    by (simp add: cursor_maybe_changed_def c q split_beta Let_def)
  show ?thesis using ok(2) q
  proof (cases rule: queue_run)
    case refused
    then show ?thesis using run ok(2)
      by (intro exI [of _ QueueFull] exI [of _ "ssEventQueues s"] exI [of _ "ssPendingEvents s"] exI [of _ "ssDisplayedCursor s"])
        (simp, rule exI [of _ "\<lambda>_. []"], simp)
  next
    case (accepted eq n)
    have "queues_ok (s\<lparr>ssEventQueues := eq, ssPendingEvents := n, ssDisplayedCursor := c\<rparr>)"
      using accepted(3) by (simp add: accepted(2) queues_ok_def)
    moreover have "queued_events (s\<lparr>ssEventQueues := eq, ssPendingEvents := n, ssDisplayedCursor := c\<rparr>) k =
        queued_events s k @ stamped_for s k (cursor_notices s c)" for k
      using accepted(4) [of k] by (simp add: accepted(2) queued_events_def)
    ultimately show ?thesis using run accepted(1)
      by (intro exI [of _ "fst (append_cursor_change s c [])"] exI [of _ eq] exI [of _ n] exI [of _ c])
        (simp only: accepted(2), auto)
  qed
qed


subsection \<open>The window table\<close>

definition without_child :: "u32 \<Rightarrow> window_record \<Rightarrow> window_record" where
  "without_child k p = p\<lparr>wnChildren := filter (\<lambda>c. c \<noteq> k) (wnChildren p)\<rparr>"

lemma without_child_fields [simp]:
  "wnId (without_child k p) = wnId p" "wnParent (without_child k p) = wnParent p"
  "wnProperties (without_child k p) = wnProperties p" "wnMapped (without_child k p) = wnMapped p"
  by (simp_all add: without_child_def)

lemma tree_ok_removed:
  assumes ok: "tree_ok s" and w: "window s k = Some w" "k \<noteq> root_window_id" "wnChildren w = []"
    and t: "umap_ok (ssWindows t)" "\<And>j. window t j = (if j = k then None
      else if j = wnParent w then map_option (without_child k) (window s j) else window s j)"
  shows "tree_ok t"
proof -
  have leaf: "wnParent v \<noteq> k" if "window s j = Some v" "j \<noteq> root_window_id" for j v
    using tree_okD(6) [OF ok w(1), of j] that w(3) by auto
  have rooted: "rooted t j" if "rooted s j" "j \<noteq> k" for j
    using that
  proof (induction rule: rooted.induct)
    case root
    show ?case by (rule rooted.root)
  next
    case (step j v)
    obtain u where "window t j = Some u" "wnParent u = wnParent v"
      using step(1) step.prems by (cases "j = wnParent w") (auto simp: t(2))
    with step leaf [OF step(1,2)] show ?case by (intro rooted.step [of t j u]) simp_all
  qed
  have kid: "(\<exists>v. window t c = Some v \<and> wnParent v = j) \<longleftrightarrow> c \<noteq> k \<and> (\<exists>v. window s c = Some v \<and> wnParent v = j)" for c j
    by (auto simp: t(2))
  show ?thesis unfolding tree_ok_def
  proof (intro conjI allI impI)
    show "windows_keyed t" using windows_keyedD(2) [OF tree_okD(1) [OF ok]] t(1)
      by (auto simp: windows_keyed_def t(2) split: if_splits)
    show "window t 0 = None" using tree_okD(2) [OF ok] by (simp add: t(2))
    show "\<exists>r. window t root_window_id = Some r \<and> wnParent r = 0" using tree_okD(3) [OF ok] w(2) by (auto simp: t(2))
  next
    fix j u assume u: "window t j = Some u"
    then obtain v where v: "window s j = Some v" "j \<noteq> k" "u = (if j = wnParent w then without_child k v else v)"
      by (auto simp: t(2) split: if_splits)
    show "rooted t j" by (rule rooted [OF tree_okD(4) [OF ok v(1)] v(2)])
    show "distinct (wnChildren u)" using tree_okD(5) [OF ok v(1)] v(3) by (simp add: without_child_def)
    have "k \<in> set (wnChildren v) \<Longrightarrow> j = wnParent w" using tree_okD(6) [OF ok v(1), of k] w(1) by auto
    then show "c \<in> set (wnChildren u) = (c \<noteq> root_window_id \<and> (\<exists>v. window t c = Some v \<and> wnParent v = j))" for c
      using tree_okD(6) [OF ok v(1), of c] v(3) unfolding kid by (auto simp: without_child_def)
    show "window t (wnParent u) \<noteq> None" if "j \<noteq> root_window_id"
      using tree_okD(7) [OF ok v(1) that] leaf [OF v(1) that] v(3) by (auto simp: t(2))
  qed
qed

lemma umap_sum_cong:
  assumes "umap_ok m" "map fst m = map fst n" "\<And>k. map_option f (umap_find k m) = map_option f (umap_find k n)"
  shows "umap_sum f m = umap_sum f n"
proof -
  let ?g = "\<lambda>m. map (\<lambda>e. (fst e, f (snd e))) m"
  have find: "umap_find k (?g m) = map_option f (umap_find k m)" for k and m :: "('a, 'b) umap"
    by (induction m) (simp_all add: umap_find_def)
  have "?g m = ?g n"
    by (rule umap_eqI) (use assms in \<open>simp_all add: find umap_ok_def comp_def del: map_eq_conv\<close>)
  then have "map snd (?g m) = map snd (?g n)" by simp
  then show ?thesis by (simp add: umap_sum_def comp_def)
qed

lemma unlink_window_run:
  assumes keyed: "windows_keyed s"
  shows "windows_keyed (unlink_window k w s)"
    "window (unlink_window k w s) j = (if j = k then None
      else if j = wnParent w then map_option (without_child k) (window s j) else window s j)"
    "\<exists>ws. unlink_window k w s = s\<lparr>ssWindows := umap_erase k ws, ssResources := umap_erase k (ssResources s), ssSceneDirty := True\<rparr> \<and>
      umap_ok ws \<and> map fst ws = map fst (ssWindows s) \<and>
      (\<forall>j. umap_find j ws = (if j = wnParent w then map_option (without_child k) (window s j) else window s j))"
proof -
  have f: "(\<lambda>p. p\<lparr>wnChildren := filter (\<lambda>c. c \<noteq> k) (wnChildren p)\<rparr>) = without_child k"
    by (simp add: fun_eq_iff without_child_def)
  note M = window_modify [OF keyed, of "without_child k" "wnParent w"]
  obtain ws where ws: "modify_window (wnParent w) (without_child k) s = s\<lparr>ssWindows := ws\<rparr>"
      "map fst ws = map fst (ssWindows s)" using M(2) by (auto simp: windows_differ_def)
  have wsf: "umap_find j ws = (if j = wnParent w then map_option (without_child k) (window s j) else window s j)" for j
    using M(1) [of j] ws(1) by (auto simp: window_def)
  have wok: "umap_ok ws" using windows_keyedD(1) [OF keyed] ws(2) by (simp add: umap_ok_def)
  have u: "unlink_window k w s = s\<lparr>ssWindows := umap_erase k ws, ssResources := umap_erase k (ssResources s), ssSceneDirty := True\<rparr>"
    by (simp add: unlink_window_def f ws(1) Let_def unregister_def reg_erase_def invalidate_scene_def)
  show win: "window (unlink_window k w s) j = (if j = k then None
      else if j = wnParent w then map_option (without_child k) (window s j) else window s j)" for j
    by (simp add: u window_def, simp add: wsf window_def)
  show "\<exists>ws. unlink_window k w s = s\<lparr>ssWindows := umap_erase k ws, ssResources := umap_erase k (ssResources s), ssSceneDirty := True\<rparr> \<and>
      umap_ok ws \<and> map fst ws = map fst (ssWindows s) \<and>
      (\<forall>j. umap_find j ws = (if j = wnParent w then map_option (without_child k) (window s j) else window s j))"
    using u wok ws(2) wsf by blast
  show "windows_keyed (unlink_window k w s)"
    using windows_keyedD(2) [OF keyed] wok unfolding windows_keyed_def win
    by (auto simp: u split: if_splits)
qed

lemma release_property_bytes_exact:
  "umap_sum (\<lambda>v. length (pvData v)) ps \<le> n \<Longrightarrow>
     fold (\<lambda>p n. size_sub n (length (pvData (snd p)))) ps n = n - umap_sum (\<lambda>v. length (pvData v)) ps"
  by (induction ps arbitrary: n) (simp_all add: umap_sum_def)

end
