(* ===== verification/Window_Removal.thy ===== *)
theory Window_Removal
  imports Window_Destruction Xi2
begin

text \<open>
  What destroying windows keeps: the invariants of the parts of the state it touches, gathered as
  \<open>server_inv\<close>; that the removal of a subtree returns and removes exactly the subtree; and that
  nothing in the server refers to a removed window any more.
\<close>

subsection \<open>The invariant of the server\<close>

text \<open>Present subscriptions are registered under distinct identifiers.\<close>

definition presents_registered :: "server_state \<Rightarrow> bool" where
  "presents_registered s \<longleftrightarrow> distinct (map psId (ssPresentSubscriptions s)) \<and>
     (\<forall>p \<in> set (ssPresentSubscriptions s). reg_is (psId p) KPresentEvent (ssResources s))"

definition server_inv :: "server_state \<Rightarrow> bool" where
  "server_inv s \<longleftrightarrow> tree_ok s \<and> queues_ok s \<and> input_ok s \<and> properties_ok s \<and> resources_ok s \<and>
     presents_registered s \<and> sync_ok s \<and> selections_ok s \<and> passive_windows_ok s \<and>
     grabs_ok (ssPassiveGrabs s) \<and> xi2_ok s"

text \<open>Nothing in the server refers to the window.\<close>

definition unreferenced :: "server_state \<Rightarrow> u32 \<Rightarrow> bool" where
  "unreferenced s k \<longleftrightarrow>
     (fsKind (inFocus (ssInput s)) = FocusWindow \<longrightarrow> fsWindow (inFocus (ssInput s)) \<noteq> k) \<and>
     (\<forall>g. inPointerGrab (ssInput s) = Some g \<longrightarrow> agWindow g \<noteq> k \<and> agConfineTo g \<noteq> k) \<and>
     (\<forall>g. inKeyboardGrab (ssInput s) = Some g \<longrightarrow> agWindow g \<noteq> k) \<and>
     (\<forall>g \<in> set (ssPassiveGrabs s). pgWindow g \<noteq> k \<and> pgConfineTo g \<noteq> k) \<and>
     (\<forall>e \<in> set (ssDbeBuffers s). dbWindow (snd e) \<noteq> k) \<and>
     (\<forall>e \<in> set (ssDamages s). dmDrawable (snd e) \<noteq> k) \<and>
     (\<forall>a r. umap_find a (ssSelections s) = Some r \<longrightarrow> slWindow r \<noteq> k) \<and>
     (\<forall>e \<in> set (ssXi2Selections s). xlWindow e \<noteq> k) \<and>
     (\<forall>e \<in> set (ssXfixesSelectionInputs s). xsWindow e \<noteq> k) \<and>
     (\<forall>e \<in> set (ssXfixesCursorInputs s). xcWindow e \<noteq> k) \<and>
     (\<forall>e \<in> set (rdSubscriptions (ssRandr s)). rsWindow e \<noteq> k) \<and>
     (\<forall>p \<in> set (ssPresentSubscriptions s). psWindow p \<noteq> k) \<and>
     (\<forall>p \<in> set (ssPresentOperations s). poWindow p \<noteq> k \<and> (\<forall>n \<in> set (poNotifies p). pnWindow n \<noteq> k)) \<and>
     (\<forall>e \<in> set (ssCompositeRedirects s). cmWindow e \<noteq> k) \<and>
     (\<forall>e \<in> set (ssSaveSets s). \<forall>x \<in> set (snd e). seWindow x \<noteq> k)"

definition forgotten :: "server_state \<Rightarrow> u32 \<Rightarrow> bool" where
  "forgotten s k \<longleftrightarrow> window s k = None \<and> reg_find k (ssResources s) = None \<and> unreferenced s k"

text \<open>The registry after the removal of one window without children.\<close>

abbreviation released_ids :: "server_state \<Rightarrow> u32 \<Rightarrow> u32 list" where
  "released_ids s k \<equiv> window_buffers s k @ window_presents s k @ window_damages s k @ [k]"

lemma released_kinds:
  assumes "resources_ok s" "presents_registered s" "window s k \<noteq> None" "rid \<in> set (released_ids s k)"
  shows "reg_is rid (if rid \<in> set (window_buffers s k) then KDbeBuffer else if rid \<in> set (window_presents s k) then KPresentEvent
    else if rid \<in> set (window_damages s k) then KDamage else KWindow) (ssResources s)"
proof -
  have "k \<in> fst ` set (ssWindows s)" using assms(3) by (simp add: window_def umap_find_keys)
  then have "reg_is k KWindow (ssResources s)" using resources_okD [OF assms(1), of KWindow _ k] by simp
  moreover have "reg_is rid KDbeBuffer (ssResources s)" if "rid \<in> set (window_buffers s k)"
    using that resources_okD [OF assms(1), of KDbeBuffer _ rid] by force
  moreover have "reg_is rid KDamage (ssResources s)" if "rid \<in> set (window_damages s k)"
    using that resources_okD [OF assms(1), of KDamage _ rid] by force
  moreover have "reg_is rid KPresentEvent (ssResources s)" if "rid \<in> set (window_presents s k)"
    using that assms(2) by (auto simp: presents_registered_def)
  ultimately show ?thesis using assms(4) by auto
qed

lemma fold_erase_snoc: "fold umap_erase (xs @ ys @ zs @ [k]) m = umap_erase k (fold umap_erase (xs @ ys @ zs) m)"
  by simp

lemma resources_ok_released:
  assumes ok: "resources_ok s" "presents_registered s" "window s k \<noteq> None"
    and t: "tables_distinct t" "ssResources t = fold umap_erase (released_ids s k) (ssResources s)"
    and keys: "fst ` set (ssWindows t) = fst ` set (ssWindows s) - {k}"
      "ssDbeBuffers t = umap_erase_if (\<lambda>_ b. dbWindow b = k) (ssDbeBuffers s)"
      "ssDamages t = umap_erase_if (\<lambda>_ d. dmDrawable d = k) (ssDamages s)"
    and same: "\<And>kind. kind \<notin> {KWindow, KDbeBuffer, KDamage} \<Longrightarrow> table_ids kind t = table_ids kind s"
  shows "resources_ok t"
proof (rule resources_ok_remove_set [OF ok(1) t])
  have td: "tables_distinct s" using ok(1) by (simp add: resources_ok_def)
  define B P D where "B = set (window_buffers s k)" and "P = set (window_presents s k)" and "D = set (window_damages s k)"
  have ids: "set (released_ids s k) = B \<union> P \<union> D \<union> {k}" by (auto simp: B_def P_def D_def)
  have kinds: "rid \<in> B \<union> P \<union> D \<union> {k} \<Longrightarrow> reg_is rid (if rid \<in> B then KDbeBuffer else if rid \<in> P then KPresentEvent
      else if rid \<in> D then KDamage else KWindow) (ssResources s)" for rid
    using released_kinds [OF ok, of rid] unfolding ids B_def P_def D_def .
  fix kind
  have out: "kind = (if rid \<in> B then KDbeBuffer else if rid \<in> P then KPresentEvent else if rid \<in> D then KDamage else KWindow)"
    if "table_ids kind s = Some ids" "rid \<in> ids" "rid \<in> B \<union> P \<union> D \<union> {k}" for rid ids
    using kinds [OF that(3)] resources_okD [OF ok(1) that(1)] that(2) reg_is_unique by blast
  have outs: "rid \<in> B \<Longrightarrow> kind = KDbeBuffer" "rid \<notin> B \<Longrightarrow> rid \<in> P \<Longrightarrow> kind = KPresentEvent"
    "rid \<notin> B \<Longrightarrow> rid \<notin> P \<Longrightarrow> rid \<in> D \<Longrightarrow> kind = KDamage"
    "rid \<notin> B \<Longrightarrow> rid \<notin> P \<Longrightarrow> rid \<notin> D \<Longrightarrow> rid = k \<Longrightarrow> kind = KWindow"
    if "table_ids kind s = Some ids" "rid \<in> ids" for rid ids
    using out [OF that] by simp_all
  show "table_ids kind t = map_option (\<lambda>ids. ids - set (released_ids s k)) (table_ids kind s)"
  proof (cases "kind \<in> {KWindow, KDbeBuffer, KDamage}")
    case False
    show ?thesis
    proof (cases "table_ids kind s")
      case None
      with same [OF False] show ?thesis by simp
    next
      case (Some ids)
      have "kind \<noteq> KPresentEvent" using Some by auto
      with outs [OF Some] False have "ids \<inter> (B \<union> P \<union> D \<union> {k}) = {}" by blast
      with Some same [OF False] show ?thesis unfolding ids by auto
    qed
  next
    case True
    have b: "fst ` set (ssDbeBuffers t) = fst ` set (ssDbeBuffers s) - B"
      using td keys_erase_if [of "ssDbeBuffers s" "\<lambda>_ b. dbWindow b = k"] by (simp add: tables_distinct_def keys(2) B_def)
    have d: "fst ` set (ssDamages t) = fst ` set (ssDamages s) - D"
      using td keys_erase_if [of "ssDamages s" "\<lambda>_ d. dmDrawable d = k"] by (simp add: tables_distinct_def keys(3) D_def)
    from True consider "kind = KWindow" | "kind = KDbeBuffer" | "kind = KDamage" by blast
    then show ?thesis
    proof cases
      case 1
      have "fst ` set (ssWindows s) \<inter> (B \<union> P \<union> D) \<subseteq> {k}"
        using outs [of "fst ` set (ssWindows s)"] 1 by auto
      then show ?thesis using 1 keys(1) unfolding ids by auto
    next
      case 2
      have "fst ` set (ssDbeBuffers s) \<inter> (P \<union> D \<union> {k}) \<subseteq> B"
        using outs [of "fst ` set (ssDbeBuffers s)"] 2 by auto
      then show ?thesis using 2 b unfolding ids by auto
    next
      case 3
      have "fst ` set (ssDamages s) \<inter> (B \<union> P \<union> {k}) \<subseteq> D"
        using outs [of "fst ` set (ssDamages s)"] 3 by auto
      then show ?thesis using 3 d unfolding ids by auto
    qed
  qed
qed

subsection \<open>The removal of one window\<close>

text \<open>The state after the removal of window \<open>k\<close>, up to the focus, the queues, the selections, the
  fences, the window table and the cursor, which the code computes on the way.\<close>

definition removed_state ::
  "u32 \<Rightarrow> window_record \<Rightarrow> server_state \<Rightarrow> focus_state \<Rightarrow> (u32, client_event list) umap \<Rightarrow> nat \<Rightarrow>
     (u32, selection_record) umap \<Rightarrow> (u32, sync_fence_record) umap \<Rightarrow> (u32, u32 list) umap \<Rightarrow>
     (u32, window_record) umap \<Rightarrow> cursor_ref \<Rightarrow> server_state" where
  "removed_state k w s f q n m fe v ws d = s
     \<lparr>ssEventQueues := q, ssPendingEvents := n, ssSelections := m, ssSyncFences := fe, ssSyncFenceWaits := v,
      ssInput := dropped_input k ((ssInput s)\<lparr>inFocus := f\<rparr>),
      ssPassiveGrabs := filter (\<lambda>g. \<not> (pgWindow g = k \<or> pgConfineTo g = k)) (ssPassiveGrabs s),
      ssResources := fold umap_erase (released_ids s k) (ssResources s),
      ssDbeBuffers := umap_erase_if (\<lambda>_ b. dbWindow b = k) (ssDbeBuffers s),
      ssXi2Selections := filter (\<lambda>e. xlWindow e \<noteq> k) (ssXi2Selections s),
      ssXfixesSelectionInputs := filter (\<lambda>e. xsWindow e \<noteq> k) (ssXfixesSelectionInputs s),
      ssXfixesCursorInputs := filter (\<lambda>e. xcWindow e \<noteq> k) (ssXfixesCursorInputs s),
      ssRandr := (ssRandr s)\<lparr>rdSubscriptions := filter (\<lambda>e. rsWindow e \<noteq> k) (rdSubscriptions (ssRandr s))\<rparr>,
      ssPresentSubscriptions := filter (\<lambda>p. psWindow p \<noteq> k) (ssPresentSubscriptions s),
      ssPresentOperations := map (\<lambda>p. p\<lparr>poNotifies := filter (\<lambda>n. pnWindow n \<noteq> k) (poNotifies p)\<rparr>)
        (filter (\<lambda>p. poWindow p \<noteq> k) (ssPresentOperations s)),
      ssCompositeRedirects := filter (\<lambda>e. cmWindow e \<noteq> k) (ssCompositeRedirects s),
      ssSaveSets := umap_erase_if (\<lambda>_ entries. entries = [])
         (umap_map (\<lambda>_. filter (\<lambda>e. seWindow e \<noteq> k)) (ssSaveSets s)),
      ssPropertyBytes := fold (\<lambda>p n. size_sub n (length (pvData (snd p)))) (wnProperties w) (ssPropertyBytes s),
      ssDamages := umap_erase_if (\<lambda>_ d. dmDrawable d = k) (ssDamages s),
      ssWindows := umap_erase k ws, ssSceneDirty := True, ssDisplayedCursor := d\<rparr>"

lemma release_window_form:
  assumes ok: "tree_ok s" "queues_ok s" "selections_ok s" "sync_ok s"
    and w: "window s k = Some w" "k \<noteq> root_window_id" "wnChildren w = []"
  obtains f q n m fe v ws d t where "release_window k w s = Some t" "t = removed_state k w s f q n m fe v ws d"
    "queues_ok t" "selections_ok t" "sync_ok t" "\<exists>more. \<forall>c. queued_events t c = queued_events s c @ more c"
    "\<And>a. umap_find a m = (case umap_find a (ssSelections s) of None \<Rightarrow> None
       | Some r \<Rightarrow> Some (if slWindow r = k then \<lparr>slWindow = 0, slClient = 0, slChangedAt = ssCurrentTime s\<rparr> else r))"
    "umap_ok ws" "map fst ws = map fst (ssWindows s)"
    "\<And>j. umap_find j ws = (if j = wnParent w then map_option (without_child k) (window s j) else window s j)"
    "fsKind f = FocusWindow \<longrightarrow> fsWindow f \<noteq> k \<and> (f = inFocus (ssInput s) \<or> window s (fsWindow f) \<noteq> None)"
    "map fst fe = map fst (ssSyncFences s)"
proof -
  obtain f where f: "revert_focus_from k s = Some (s\<lparr>ssInput := (ssInput s)\<lparr>inFocus := f\<rparr>\<rparr>)"
      "fsKind f = FocusWindow \<longrightarrow> fsWindow f \<noteq> k \<and> (f = inFocus (ssInput s) \<or> window s (fsWindow f) \<noteq> None)"
    using revert_focus_from_run [OF ok(1)] by blast
  define s1 where "s1 = s\<lparr>ssInput := (ssInput s)\<lparr>inFocus := f\<rparr>\<rparr>"
  define s2 where "s2 = drop_window_buffers k (drop_window_grabs k s1)"
  have s2: "ssEventQueues s2 = ssEventQueues s" "ssPendingEvents s2 = ssPendingEvents s" "ssSelections s2 = ssSelections s"
      "ssCurrentTime s2 = ssCurrentTime s"
    by (simp_all add: s2_def s1_def drop_window_buffers_def Let_def fold_unregister_frame drop_window_grabs_eq)
  have ok2: "queues_ok s2" "selections_ok s2" "sync_ok s1"
    using ok(2-4) by (simp_all add: queues_ok_def selections_ok_def s2, simp add: s1_def sync_ok_cong)
  note C = clear_selections_run [OF ok2(2,1), where k = k]
  define dr where "dr = drop_references k w s1"
  note parts = drop_references_parts [where s = s1 and k = k and w = w, folded s2_def dr_def]
  obtain q n m fe v where form: "map fst fe = map fst (ssSyncFences s1)" "dr = s1
     \<lparr>ssEventQueues := q, ssPendingEvents := n, ssSelections := m, ssSyncFences := fe, ssSyncFenceWaits := v,
      ssInput := dropped_input k (ssInput s1),
      ssPassiveGrabs := filter (\<lambda>g. \<not> (pgWindow g = k \<or> pgConfineTo g = k)) (ssPassiveGrabs s1),
      ssResources := fold umap_erase (window_buffers s1 k @ window_presents s1 k @ window_damages s1 k) (ssResources s1),
      ssDbeBuffers := umap_erase_if (\<lambda>_ b. dbWindow b = k) (ssDbeBuffers s1),
      ssXi2Selections := filter (\<lambda>e. xlWindow e \<noteq> k) (ssXi2Selections s1),
      ssXfixesSelectionInputs := filter (\<lambda>e. xsWindow e \<noteq> k) (ssXfixesSelectionInputs s1),
      ssXfixesCursorInputs := filter (\<lambda>e. xcWindow e \<noteq> k) (ssXfixesCursorInputs s1),
      ssRandr := (ssRandr s1)\<lparr>rdSubscriptions := filter (\<lambda>e. rsWindow e \<noteq> k) (rdSubscriptions (ssRandr s1))\<rparr>,
      ssPresentSubscriptions := filter (\<lambda>p. psWindow p \<noteq> k) (ssPresentSubscriptions s1),
      ssPresentOperations := map (\<lambda>p. p\<lparr>poNotifies := filter (\<lambda>n. pnWindow n \<noteq> k) (poNotifies p)\<rparr>)
        (filter (\<lambda>p. poWindow p \<noteq> k) (ssPresentOperations s1)),
      ssCompositeRedirects := filter (\<lambda>e. cmWindow e \<noteq> k) (ssCompositeRedirects s1),
      ssSaveSets := umap_erase_if (\<lambda>_ entries. entries = [])
         (umap_map (\<lambda>_. filter (\<lambda>e. seWindow e \<noteq> k)) (ssSaveSets s1)),
      ssPropertyBytes := fold (\<lambda>p n. size_sub n (length (pvData (snd p)))) (wnProperties w) (ssPropertyBytes s1),
      ssDamages := umap_erase_if (\<lambda>_ d. dmDrawable d = k) (ssDamages s1)\<rparr>"
    using drop_references_form [where s = s1 and k = k and w = w] unfolding dr_def [symmetric] by blast
  have dr_windows: "ssWindows dr = ssWindows s" "ssCurrentTime dr = ssCurrentTime s" by (simp_all add: form(2) s1_def)
  then have dr_window: "window dr j = window s j" for j by (simp add: window_def)
  have keyed: "windows_keyed dr" using tree_okD(1) [OF ok(1)] by (simp add: windows_keyed_def dr_window dr_windows)
  define u where "u = unlink_window k w dr"
  note U = unlink_window_run [OF keyed, where k = k and w = w, folded u_def, unfolded dr_window]
  obtain ws where ws: "u = dr\<lparr>ssWindows := umap_erase k ws, ssResources := umap_erase k (ssResources dr), ssSceneDirty := True\<rparr>"
      "umap_ok ws" "map fst ws = map fst (ssWindows s)"
      "\<forall>j. umap_find j ws = (if j = wnParent w then map_option (without_child k) (window s j) else window s j)"
    using U(3) unfolding dr_windows by blast
  have utree: "tree_ok u" by (rule tree_ok_removed [OF ok(1) w windows_keyedD(1) [OF U(1)] U(2)])
  have uq: "ssEventQueues u = ssEventQueues (clear_selections_for_window k s2)"
      "ssPendingEvents u = ssPendingEvents (clear_selections_for_window k s2)"
    by (simp_all add: ws(1) parts)
  have uqueues: "queues_ok u" using C(2) by (simp add: queues_ok_def uq)
  obtain r q' n' d where c: "cursor_maybe_changed u = Some (r, u\<lparr>ssEventQueues := q', ssPendingEvents := n', ssDisplayedCursor := d\<rparr>)"
      "queues_ok (u\<lparr>ssEventQueues := q', ssPendingEvents := n', ssDisplayedCursor := d\<rparr>)"
      "\<exists>more. \<forall>c. queued_events (u\<lparr>ssEventQueues := q', ssPendingEvents := n', ssDisplayedCursor := d\<rparr>) c = queued_events u c @ more c"
    using cursor_maybe_changed_run [OF utree uqueues] by blast
  define t where "t = u\<lparr>ssEventQueues := q', ssPendingEvents := n', ssDisplayedCursor := d\<rparr>"
  have run: "release_window k w s = Some t"
    using f(1) c(1) by (simp add: release_window_def Let_def s1_def [symmetric] t_def u_def dr_def drop_references_def)
  have m: "m = ssSelections (clear_selections_for_window k s2)" using parts(3) by (simp add: form(2))
  have i1: "sync_ok t" using parts(4) [OF ok2(3)] by (rule sync_ok_cong) (simp_all add: t_def ws(1))
  have i2: "selections_ok t"
    using C(1) m fold_clear_selections_frame(2) [of k "ssSelections s2" s2] by (simp add: selections_ok_def t_def ws(1) form(2) s1_def s2 clear_selections_for_window_def)
  have i3: "\<exists>more. \<forall>c. queued_events t c = queued_events s c @ more c"
  proof -
    obtain m1 where "\<forall>c. queued_events t c = queued_events u c @ m1 c" using c(3) by (auto simp: t_def)
    moreover obtain m2 where "\<forall>c. queued_events (clear_selections_for_window k s2) c = queued_events s2 c @ m2 c" using C(3) by blast
    ultimately have "\<forall>c. queued_events t c = queued_events s c @ m2 c @ m1 c"
      by (simp add: queued_events_def uq s2)
    then show ?thesis by (intro exI)
  qed
  have i4: "umap_find a m = (case umap_find a (ssSelections s) of None \<Rightarrow> None
       | Some r \<Rightarrow> Some (if slWindow r = k then \<lparr>slWindow = 0, slClient = 0, slChangedAt = ssCurrentTime s\<rparr> else r))" for a
    using C(4) [of a] unfolding m s2 .
  have i5: "queues_ok t" using c(2) unfolding t_def .
  have i6: "umap_find j ws = (if j = wnParent w then map_option (without_child k) (window s j) else window s j)" for j
    using ws(4) by blast
  have i7: "map fst fe = map fst (ssSyncFences s)" using form(1) by (simp add: s1_def)
  show thesis
    by (rule that [OF run _ i5 i2 i1 i3 i4 ws(2,3) i6 f(2) i7, where q = q' and n = n' and v = v and d = d])
      (simp add: removed_state_def t_def ws(1) form(2) s1_def)
qed

lemma filter_same: "(\<And>x. x \<in> set xs \<Longrightarrow> P x) \<Longrightarrow> filter P xs = xs"
  by (simp add: filter_id_conv)

lemma sorted_wrt_kept: "grabs_ok gs \<Longrightarrow> grabs_ok (filter P gs)"
  by (auto simp: grabs_ok_def sorted_wrt_filter intro: order_trans [OF length_filter_le])

lemma removed_properties_ok:
  assumes ok: "properties_ok s" and w: "window s k = Some w"
    and t: "umap_ok ws" "map fst ws = map fst (ssWindows s)"
      "\<And>j. umap_find j ws = (if j = wnParent w then map_option (without_child k) (window s j) else window s j)"
    and leaf: "wnParent w \<noteq> k"
  shows "properties_ok (removed_state k w s f q n m fe v ws d)" (is "properties_ok ?t")
proof -
  note P = properties_okD [OF ok]
  have win: "window ?t j = (if j = k then None else if j = wnParent w then map_option (without_child k) (window s j)
      else window s j)" for j
    by (simp add: window_def removed_state_def t(3))
  have pb: "window_property_bytes (without_child k x) = window_property_bytes x" for x
    by (simp add: window_property_bytes_def)
  have bytes: "umap_sum window_property_bytes ws = umap_sum window_property_bytes (ssWindows s)"
    by (rule umap_sum_cong [OF t(1,2)]) (simp add: t(3) window_def option.map_comp comp_def pb)
  have erased: "umap_sum window_property_bytes (umap_erase k ws) + window_property_bytes w = umap_sum window_property_bytes (ssWindows s)"
    using umap_sum_erase [OF t(1), of window_property_bytes k] w leaf by (simp add: t(3) bytes)
  have dev: "device_property_bytes ?t = device_property_bytes s" by (simp add: device_property_bytes_def removed_state_def)
  have "window_property_bytes w \<le> ssPropertyBytes s" using erased P(5) by simp
  then have "ssPropertyBytes ?t = ssPropertyBytes s - window_property_bytes w"
    by (simp add: removed_state_def release_property_bytes_exact window_property_bytes_def)
  then have "ssPropertyBytes ?t = umap_sum window_property_bytes (ssWindows ?t) + device_property_bytes ?t"
    using erased P(5) unfolding dev by (simp add: removed_state_def)
  moreover have "ssPropertyBytes ?t \<le> maximum_server_property_bytes"
    using P(6) \<open>ssPropertyBytes ?t = ssPropertyBytes s - window_property_bytes w\<close> by simp
  moreover have "umap_ok (wnProperties u) \<and> (\<forall>p x. umap_find p (wnProperties u) = Some x \<longrightarrow> length (pvData x) \<le> maximum_property_bytes)"
    if "window ?t j = Some u" for j u
    using that P(3,4) by (auto simp: win split: if_splits)
  moreover have "windows_keyed ?t"
    using windows_keyedD(2) [OF P(1)] t(1) unfolding windows_keyed_def win by (auto simp: removed_state_def split: if_splits)
  ultimately show ?thesis unfolding properties_ok_def by blast
qed

lemma removed_resources_ok:
  assumes ok: "resources_ok s" "presents_registered s" and w: "window s k = Some w"
    and t: "umap_ok ws" "map fst ws = map fst (ssWindows s)" "map fst fe = map fst (ssSyncFences s)"
  shows "resources_ok (removed_state k w s f q n m fe v ws d)" (is "resources_ok ?t")
    "presents_registered (removed_state k w s f q n m fe v ws d)"
    "reg_find k (ssResources (removed_state k w s f q n m fe v ws d)) = None"
    "reg_find j (ssResources s) = None \<Longrightarrow> reg_find j (ssResources (removed_state k w s f q n m fe v ws d)) = None"
proof -
  have td: "tables_distinct s" using ok(1) by (simp add: resources_ok_def)
  have keys: "fst ` set fe = fst ` set (ssSyncFences s)" "fst ` set ws = fst ` set (ssWindows s)"
    using t(2,3) by (metis set_map)+
  have res: "ssResources ?t = fold umap_erase (released_ids s k) (ssResources s)" by (simp only: removed_state_def) simp
  have find: "reg_find j (ssResources ?t) = (if j \<in> set (released_ids s k) then None else reg_find j (ssResources s))" for j
    unfolding res reg_find_def by (rule umap_find_fold_erase)
  show "resources_ok ?t"
  proof (rule resources_ok_released [OF ok])
    show "window s k \<noteq> None" using w by simp
    have "umap_ok fe" using td t(3) by (simp add: tables_distinct_def umap_ok_def)
    then show "tables_distinct ?t" using td t(1) by (simp add: tables_distinct_def removed_state_def)
    show "fst ` set (ssWindows ?t) = fst ` set (ssWindows s) - {k}"
      using keys(2) by (simp add: removed_state_def keys_erase)
    show "table_ids kind ?t = table_ids kind s" if "kind \<notin> {KWindow, KDbeBuffer, KDamage}" for kind
      using that keys(1) by (cases kind) (simp_all add: removed_state_def)
  qed (simp_all add: removed_state_def)
  show "reg_find k (ssResources ?t) = None" by (simp add: find)
  show "reg_find j (ssResources s) = None \<Longrightarrow> reg_find j (ssResources ?t) = None" by (simp add: find)
  have ps: "ssPresentSubscriptions ?t = filter (\<lambda>p. psWindow p \<noteq> k) (ssPresentSubscriptions s)"
    by (simp add: removed_state_def)
  have dist: "distinct (map psId (ssPresentSubscriptions s))"
    and reg: "\<And>p. p \<in> set (ssPresentSubscriptions s) \<Longrightarrow> reg_is (psId p) KPresentEvent (ssResources s)"
    using ok(2) by (simp_all add: presents_registered_def)
  have "psId p \<notin> set (released_ids s k)" if p: "p \<in> set (ssPresentSubscriptions s)" "psWindow p \<noteq> k" for p
  proof -
    have "psId p \<notin> set (window_presents s k)" using dist p by (auto simp: distinct_map inj_on_def)
    then have "(if psId p \<in> set (window_buffers s k) then KDbeBuffer else if psId p \<in> set (window_presents s k) then KPresentEvent
        else if psId p \<in> set (window_damages s k) then KDamage else KWindow) \<noteq> KPresentEvent" by (simp only: if_False split: if_split) simp
    then show ?thesis using released_kinds [OF ok, of k "psId p"] w reg_is_unique [OF reg [OF p(1)]] by fastforce
  qed
  then show "presents_registered ?t"
    using dist reg unfolding presents_registered_def ps by (auto simp: distinct_map_filter reg_is_def find)
qed

text \<open>Everything that refers to window \<open>k\<close> is gone, and no new reference appears.\<close>

lemma removed_unreferenced:
  assumes sel: "\<And>a. umap_find a m = (case umap_find a (ssSelections s) of None \<Rightarrow> None
       | Some r \<Rightarrow> Some (if slWindow r = k then \<lparr>slWindow = 0, slClient = 0, slChangedAt = ssCurrentTime s\<rparr> else r))"
    and f: "fsKind f = FocusWindow \<longrightarrow> fsWindow f \<noteq> k \<and> (f = inFocus (ssInput s) \<or> window s (fsWindow f) \<noteq> None)"
    and j: "j \<noteq> 0" "j = k \<or> unreferenced s j \<and> window s j = None"
  shows "unreferenced (removed_state k w s f q n m fe v ws d) j" (is "unreferenced ?t j")
proof -
  have "slWindow r \<noteq> j" if "umap_find a m = Some r" for a r
    using that j sel [of a] by (auto simp: unreferenced_def split: option.splits if_splits)
  moreover have "fsKind f = FocusWindow \<longrightarrow> fsWindow f \<noteq> j" using f j by (auto simp: unreferenced_def)
  moreover have "agWindow g \<noteq> j \<and> agConfineTo g \<noteq> j" if "inPointerGrab (ssInput ?t) = Some g" for g
    using that j by (auto simp: removed_state_def dropped_input_def Let_def unreferenced_def split: if_splits)
  moreover have "agWindow g \<noteq> j" if "inKeyboardGrab (ssInput ?t) = Some g" for g
    using that j by (auto simp: removed_state_def dropped_input_def Let_def unreferenced_def split: if_splits)
  moreover have "\<forall>g \<in> set (ssPassiveGrabs ?t). pgWindow g \<noteq> j \<and> pgConfineTo g \<noteq> j"
    "\<forall>e \<in> set (ssDbeBuffers ?t). dbWindow (snd e) \<noteq> j" "\<forall>e \<in> set (ssDamages ?t). dmDrawable (snd e) \<noteq> j"
    "\<forall>e \<in> set (ssXi2Selections ?t). xlWindow e \<noteq> j" "\<forall>e \<in> set (ssXfixesSelectionInputs ?t). xsWindow e \<noteq> j"
    "\<forall>e \<in> set (ssXfixesCursorInputs ?t). xcWindow e \<noteq> j" "\<forall>e \<in> set (rdSubscriptions (ssRandr ?t)). rsWindow e \<noteq> j"
    "\<forall>p \<in> set (ssPresentSubscriptions ?t). psWindow p \<noteq> j" "\<forall>e \<in> set (ssCompositeRedirects ?t). cmWindow e \<noteq> j"
    using j(2) by (auto simp: removed_state_def unreferenced_def umap_erase_if_def)
  moreover have "\<forall>p \<in> set (ssPresentOperations ?t). poWindow p \<noteq> j \<and> (\<forall>n \<in> set (poNotifies p). pnWindow n \<noteq> j)"
    using j(2) by (auto simp: removed_state_def unreferenced_def)
  moreover have "\<forall>e \<in> set (ssSaveSets ?t). \<forall>x \<in> set (snd e). seWindow x \<noteq> j"
  proof -
    have "j = k \<or> (\<forall>e \<in> set (ssSaveSets s). \<forall>x \<in> set (snd e). seWindow x \<noteq> j)"
      using j(2) unfolding unreferenced_def by blast
    moreover have "ssSaveSets ?t = umap_erase_if (\<lambda>_ es. es = []) (umap_map (\<lambda>_. filter (\<lambda>e. seWindow e \<noteq> k)) (ssSaveSets s))"
      by (simp add: removed_state_def)
    ultimately show ?thesis by (fastforce simp: umap_erase_if_def umap_map_def)
  qed
  moreover have "inFocus (ssInput ?t) = f" "ssSelections ?t = m" by (simp_all add: removed_state_def dropped_input_def Let_def)
  ultimately show ?thesis by (simp add: unreferenced_def)
qed

lemma removed_input_ok:
  assumes ok: "input_ok s"
    and f: "fsKind f = FocusWindow \<longrightarrow> fsWindow f \<noteq> k \<and> (f = inFocus (ssInput s) \<or> window s (fsWindow f) \<noteq> None)"
    and t: "\<And>j. j \<noteq> k \<Longrightarrow> window s j \<noteq> None \<Longrightarrow> window (removed_state k w s f q n m fe v ws d) j \<noteq> None"
  shows "input_ok (removed_state k w s f q n m fe v ws d)" (is "input_ok ?t")
proof -
  have "ssInput ?t = dropped_input k ((ssInput s)\<lparr>inFocus := f\<rparr>)" by (simp add: removed_state_def)
  then have i: "inFocus (ssInput ?t) = f"
      "\<And>g. inPointerGrab (ssInput ?t) = Some g \<Longrightarrow> inPointerGrab (ssInput s) = Some g \<and> agWindow g \<noteq> k"
      "\<And>g. inKeyboardGrab (ssInput ?t) = Some g \<Longrightarrow> inKeyboardGrab (ssInput s) = Some g \<and> agWindow g \<noteq> k"
    by (auto simp: dropped_input_def Let_def split: if_splits)
  show ?thesis unfolding input_ok_def
    using ok f i(1) i(2,3) t by (simp add: input_ok_def) blast
qed

lemma removed_queues_of_keyed:
  "xi2_ok s \<Longrightarrow> xi2_ok (removed_state k w s f q n m fe v ws d)"
  "grabs_ok (ssPassiveGrabs s) \<Longrightarrow> grabs_ok (ssPassiveGrabs (removed_state k w s f q n m fe v ws d))"
  by (auto simp: removed_state_def sorted_wrt_kept xi2_ok_def distinct_map_filter intro: order_trans [OF length_filter_le])

lemma forgotten_nonzero: "tree_ok s \<Longrightarrow> window s k = Some w \<Longrightarrow> k \<noteq> 0"
  using tree_okD(2) by fastforce

theorem release_window_run:
  assumes inv: "server_inv s" and w: "window s k = Some w" "k \<noteq> root_window_id" "wnChildren w = []"
  obtains t where "release_window k w s = Some t" "server_inv t" "forgotten t k"
    "\<And>j. j \<noteq> 0 \<Longrightarrow> forgotten s j \<Longrightarrow> forgotten t j"
    "\<And>j. window t j = (if j = k then None else if j = wnParent w then map_option (without_child k) (window s j) else window s j)"
    "\<exists>more. \<forall>c. queued_events t c = queued_events s c @ more c"
proof -
  have ok: "tree_ok s" "queues_ok s" "input_ok s" "properties_ok s" "resources_ok s" "presents_registered s" "sync_ok s"
      "selections_ok s" "passive_windows_ok s" "grabs_ok (ssPassiveGrabs s)" "xi2_ok s"
    using inv by (simp_all add: server_inv_def)
  obtain f q n m fe v ws d t where r: "release_window k w s = Some t" "t = removed_state k w s f q n m fe v ws d"
      "queues_ok t" "selections_ok t" "sync_ok t" "\<exists>more. \<forall>c. queued_events t c = queued_events s c @ more c"
    and sel: "\<And>a. umap_find a m = (case umap_find a (ssSelections s) of None \<Rightarrow> None
       | Some r \<Rightarrow> Some (if slWindow r = k then \<lparr>slWindow = 0, slClient = 0, slChangedAt = ssCurrentTime s\<rparr> else r))"
    and ws: "umap_ok ws" "map fst ws = map fst (ssWindows s)"
      "\<And>j. umap_find j ws = (if j = wnParent w then map_option (without_child k) (window s j) else window s j)"
    and f: "fsKind f = FocusWindow \<longrightarrow> fsWindow f \<noteq> k \<and> (f = inFocus (ssInput s) \<or> window s (fsWindow f) \<noteq> None)"
    and fe: "map fst fe = map fst (ssSyncFences s)"
    by (rule release_window_form [OF ok(1,2,8,7) w]) (rule that; assumption)
  have leaf: "wnParent w \<noteq> k" using tree_okD(6) [OF ok(1) w(1), of k] w by auto
  have win: "window t j = (if j = k then None else if j = wnParent w then map_option (without_child k) (window s j)
      else window s j)" for j
    by (simp add: window_def r(2) removed_state_def ws(3))
  have "umap_ok (ssWindows t)" using ws(1) by (simp add: r(2) removed_state_def)
  then have tree: "tree_ok t" by (rule tree_ok_removed [OF ok(1) w _ win])
  have "properties_ok t" unfolding r(2) by (rule removed_properties_ok [OF ok(4) w(1) ws leaf])
  moreover note reg = removed_resources_ok [OF ok(5,6) w(1) ws(1,2) fe, where f = f and q = q and n = n and m = m and v = v and d = d, folded r(2)]
  moreover have kept: "j \<noteq> k \<Longrightarrow> window s j \<noteq> None \<Longrightarrow> window t j \<noteq> None" for j by (auto simp: win)
  have "input_ok t" unfolding r(2) by (rule removed_input_ok [OF ok(3) f kept [unfolded r(2)]])
  moreover have "passive_windows_ok t"
    using ok(9) kept by (auto simp: passive_windows_ok_def r(2) removed_state_def)
  moreover note removed_queues_of_keyed [where s = s and k = k and w = w and f = f and q = q and n = n and m = m and fe = fe and v = v and ws = ws and d = d, folded r(2)]
  ultimately have "server_inv t" using tree r(3-5) ok(10,11) by (simp add: server_inv_def)
  moreover have "forgotten t k"
    using removed_unreferenced [OF sel f, where j = k and w = w and q = q and n = n and fe = fe and v = v and ws = ws and d = d, folded r(2)] forgotten_nonzero [OF ok(1) w(1)] reg(3) by (simp add: forgotten_def win)
  moreover have "forgotten t j" if "j \<noteq> 0" "forgotten s j" for j
    using removed_unreferenced [OF sel f, where j = j and w = w and q = q and n = n and fe = fe and v = v and ws = ws and d = d, folded r(2)] reg(4) that by (auto simp: forgotten_def win)
  ultimately show thesis using that [OF r(1) _ _ _ win r(6)] by blast
qed

end
