(* ===== verification/Window_Subtrees.thy ===== *)
theory Window_Subtrees
  imports Window_Removal
begin

text \<open>
  Destroying windows with everything below them (\<^verbatim>\<open>src/server/server_state.cpp\<close>): \<open>erase_window_tree\<close>
  returns and removes exactly the subtree of its window, and after \<open>destroy_window\<close> and
  \<open>destroy_subwindows\<close> nothing in the server refers to a removed window.
\<close>

subsection \<open>The removal of a subtree\<close>

definition below :: "server_state \<Rightarrow> u32 \<Rightarrow> u32 set" where
  "below s k = {j. (j, k) \<in> (parent_rel s)\<^sup>*}"

lemma below_self [simp]: "k \<in> below s k"
  by (simp add: below_def)

lemma below_window: "j \<in> below s k \<Longrightarrow> window s k \<noteq> None \<Longrightarrow> window s j \<noteq> None"
  by (auto simp: below_def parent_rel_def elim: converse_rtranclE)

lemma below_finite: "finite (below s k)"
proof -
  have "below s k \<subseteq> insert k (Domain (parent_rel s))" by (auto simp: below_def elim: converse_rtranclE)
  then show ?thesis by (rule finite_subset) (simp add: finite_Domain parent_rel_finite)
qed

lemma below_closed: "(a, b) \<in> parent_rel s \<Longrightarrow> b \<in> below s k \<Longrightarrow> a \<in> below s k"
  by (simp add: below_def)

lemma below_trans: "j \<in> below s c \<Longrightarrow> c \<in> below s k \<Longrightarrow> j \<in> below s k"
  by (simp add: below_def)

lemma parent_not_below:
  assumes "tree_ok s" "(c, k) \<in> parent_rel s"
  shows "k \<notin> below s c"
proof
  assume "k \<in> below s c"
  with assms(2) have "(k, k) \<in> (parent_rel s)\<^sup>+" by (simp add: below_def rtrancl_into_trancl1)
  with parent_rel_acyclic [OF assms(1)] show False by (simp add: acyclic_def)
qed

text \<open>What is below a window once a set of windows that is closed downwards is gone.\<close>

lemma below_cut:
  assumes rel: "parent_rel t = {(a, b) \<in> parent_rel s. a \<notin> D}"
    and down: "\<And>a b. (a, b) \<in> parent_rel s \<Longrightarrow> b \<in> D \<Longrightarrow> a \<in> D" and k: "k \<notin> D"
  shows "below t k = below s k - D"
proof -
  have "(j, k) \<in> (parent_rel t)\<^sup>* \<Longrightarrow> (j, k) \<in> (parent_rel s)\<^sup>* \<and> j \<notin> D" for j
    by (induction rule: converse_rtrancl_induct) (use k rel in auto)
  moreover have "(j, k) \<in> (parent_rel s)\<^sup>* \<Longrightarrow> j \<notin> D \<longrightarrow> (j, k) \<in> (parent_rel t)\<^sup>*" for j
  proof (induction rule: converse_rtrancl_induct)
    case (step a b)
    then show ?case using down [of a b] rel by (auto intro: converse_rtrancl_into_rtrancl)
  qed simp
  ultimately show ?thesis unfolding below_def by blast
qed

text \<open>The subtree of \<open>k\<close>, whose window is \<open>w\<close>, is gone and nothing else changed in the tree; nothing
  refers to a removed window; the queues only grew.\<close>

definition erased :: "u32 \<Rightarrow> window_record \<Rightarrow> server_state \<Rightarrow> server_state \<Rightarrow> bool" where
  "erased k w s t \<longleftrightarrow> server_inv t \<and>
     (\<forall>j. window t j = (if j \<in> below s k then None
        else if j = wnParent w then map_option (without_child k) (window s j) else window s j)) \<and>
     (\<forall>j \<in> below s k. forgotten t j) \<and> (\<forall>j. j \<noteq> 0 \<longrightarrow> forgotten s j \<longrightarrow> forgotten t j) \<and>
     (\<exists>more. \<forall>c. queued_events t c = queued_events s c @ more c)"

lemma erased_parent_rel:
  assumes "erased k w s t"
  shows "parent_rel t = {(a, b) \<in> parent_rel s. a \<notin> below s k}"
  using assms by (auto simp: erased_def parent_rel_def split: if_splits)

lemma erased_below:
  assumes "erased c v s t" "j \<notin> below s c"
  shows "below t j = below s j - below s c"
  by (rule below_cut [OF erased_parent_rel [OF assms(1)] _ assms(2)]) (rule below_closed)

lemma queues_extend_trans:
  assumes "\<exists>more. \<forall>c. queued_events t c = queued_events s c @ more c" "\<exists>more. \<forall>c. queued_events u c = queued_events t c @ more c"
  shows "\<exists>more. \<forall>c. queued_events u c = queued_events s c @ more c"
proof -
  obtain m1 m2 where "\<forall>c. queued_events t c = queued_events s c @ m1 c" "\<forall>c. queued_events u c = queued_events t c @ m2 c"
    using assms by blast
  then have "\<forall>c. queued_events u c = queued_events s c @ (\<lambda>c. m1 c @ m2 c) c" by simp
  then show ?thesis by (rule exI [of _ "\<lambda>c. m1 c @ m2 c"])
qed

lemma erased_step:
  assumes ok: "tree_ok s" and w: "window s k = Some w" and c: "(c, k) \<in> parent_rel s" "window s c = Some v"
    and s1: "erased c v s s1" and t: "erased k (without_child c w) s1 t"
  shows "erased k w s t"
proof -
  have v: "wnParent v = k" using c by (auto simp: parent_rel_def)
  have k: "k \<notin> below s c" by (rule parent_not_below [OF ok c(1)])
  have b: "below s1 k = below s k - below s c" by (rule erased_below [OF s1 k])
  have sub: "below s c \<subseteq> below s k" using c(1) by (auto intro: below_trans simp: below_def)
  have s1w: "window s1 j = (if j \<in> below s c then None else if j = k then map_option (without_child c) (window s j)
      else window s j)" for j
    using s1 unfolding erased_def v by blast
  have tw: "window t j = (if j \<in> below s1 k then None else if j = wnParent w then map_option (without_child k) (window s1 j)
      else window s1 j)" for j
    using t by (simp add: erased_def)
  have "window t j = (if j \<in> below s k then None else if j = wnParent w then map_option (without_child k) (window s j)
      else window s j)" for j
  proof (cases "j \<in> below s c")
    case True
    then show ?thesis using sub by (auto simp: tw b s1w)
  next
    case False
    moreover have "j \<noteq> k" if "j \<notin> below s k" using that by auto
    ultimately show ?thesis by (auto simp: tw b s1w)
  qed
  moreover have "forgotten t j" if "j \<in> below s k" for j
  proof (cases "j \<in> below s c")
    case True
    then have "window s j \<noteq> None" using below_window c(2) by blast
    then have "j \<noteq> 0" using tree_okD(2) [OF ok] by auto
    with True s1 t show ?thesis by (simp add: erased_def)
  next
    case False
    with that t b show ?thesis by (simp add: erased_def)
  qed
  moreover have "\<exists>more. \<forall>c. queued_events t c = queued_events s c @ more c"
    by (rule queues_extend_trans [of s1]) (use s1 t in \<open>simp_all add: erased_def\<close>)
  ultimately show ?thesis using s1 t by (simp add: erased_def)
qed

lemma erase_window_tree_run:
  assumes "server_inv s" "window s k = Some w" "k \<noteq> root_window_id"
  shows "\<exists>t. erase_window_tree k s = Some t \<and> erased k w s t"
  using assms
proof (induction "card (below s k)" arbitrary: s k w rule: less_induct)
  case less
  have ok: "tree_ok s" using less.prems(1) by (simp add: server_inv_def)
  note w = less.prems(2,3)
  show ?case
  proof (cases "wnChildren w = []")
    case True
    have "j = k" if "j \<in> below s k" for j
      using that True parent_rel_iff [OF ok w(1)] by (auto simp: below_def elim: rtranclE)
    then have b: "below s k = {k}" by auto
    show ?thesis
      by (rule release_window_run [OF less.prems True])
        (simp add: erase_window_tree.simps [of k] w True erased_def b)
  next
    case False
    define c where "c = last (wnChildren w)"
    have c: "(c, k) \<in> parent_rel s" using last_in_set [OF False] parent_rel_iff [OF ok w(1)] by (simp add: c_def)
    then obtain v where v: "window s c = Some v" "c \<noteq> root_window_id" by (auto simp: parent_rel_def)
    have k: "k \<notin> below s c" by (rule parent_not_below [OF ok c])
    have sub: "below s c \<subseteq> below s k" using c by (auto intro: below_trans simp: below_def)
    have "below s c \<subset> below s k" using sub k by (auto simp: psubset_eq)
    from less.hyps [OF psubset_card_mono [OF below_finite this] less.prems(1) v]
    obtain s1 where s1: "erase_window_tree c s = Some s1" "erased c v s s1" by blast
    have "wnParent v = k" using c v(1) by (auto simp: parent_rel_def)
    then have w1: "window s1 k = Some (without_child c w)" using s1(2) k w(1) by (simp add: erased_def)
    have "below s1 k \<subset> below s k" using erased_below [OF s1(2) k] sub below_self [of c s] by blast
    from less.hyps [OF psubset_card_mono [OF below_finite this] _ w1 w(2)] s1(2)
    obtain t where t: "erase_window_tree k s1 = Some t" "erased k (without_child c w) s1 t" by (auto simp: erased_def)
    have "erase_window_tree k s = Some t"
      using False s1(1) t(1) by (simp add: erase_window_tree.simps [of k s] w c_def)
    with erased_step [OF ok w(1) c v(1) s1(2) t(2)] show ?thesis by blast
  qed
qed

definition children_erased :: "u32 \<Rightarrow> server_state \<Rightarrow> server_state \<Rightarrow> bool" where
  "children_erased k s t \<longleftrightarrow> server_inv t \<and>
     (\<forall>j. window t j = (if j = k then map_option (\<lambda>w. w\<lparr>wnChildren := []\<rparr>) (window s k)
        else if j \<in> below s k then None else window s j)) \<and>
     (\<forall>j \<in> below s k - {k}. forgotten t j) \<and> (\<forall>j. j \<noteq> 0 \<longrightarrow> forgotten s j \<longrightarrow> forgotten t j) \<and>
     (\<exists>more. \<forall>c. queued_events t c = queued_events s c @ more c)"

lemma children_erased_step:
  assumes ok: "tree_ok s" and w: "window s k = Some w" and c: "(c, k) \<in> parent_rel s" "window s c = Some v"
    and s1: "erased c v s s1" and t: "children_erased k s1 t"
  shows "children_erased k s t"
proof -
  have v: "wnParent v = k" using c by (auto simp: parent_rel_def)
  have k: "k \<notin> below s c" by (rule parent_not_below [OF ok c(1)])
  have b: "below s1 k = below s k - below s c" by (rule erased_below [OF s1 k])
  have sub: "below s c \<subseteq> below s k" using c(1) by (auto intro: below_trans simp: below_def)
  have s1w: "window s1 j = (if j \<in> below s c then None else if j = k then map_option (without_child c) (window s j)
      else window s j)" for j
    using s1 unfolding erased_def v by blast
  have tw: "window t j = (if j = k then map_option (\<lambda>w. w\<lparr>wnChildren := []\<rparr>) (window s1 k)
        else if j \<in> below s1 k then None else window s1 j)" for j
    using t unfolding children_erased_def by blast
  have "window t j = (if j = k then map_option (\<lambda>w. w\<lparr>wnChildren := []\<rparr>) (window s k)
        else if j \<in> below s k then None else window s j)" for j
    using sub k w by (auto simp: tw b s1w without_child_def)
  moreover have "forgotten t j" if "j \<in> below s k - {k}" for j
  proof (cases "j \<in> below s c")
    case True
    then have "window s j \<noteq> None" using below_window c(2) by blast
    then have "j \<noteq> 0" using tree_okD(2) [OF ok] by auto
    with True s1 t show ?thesis by (simp add: erased_def children_erased_def)
  next
    case False
    with that t b show ?thesis by (simp add: children_erased_def)
  qed
  moreover have "\<exists>more. \<forall>c. queued_events t c = queued_events s c @ more c"
    by (rule queues_extend_trans [of s1]) (use s1 t in \<open>simp_all add: erased_def children_erased_def\<close>)
  ultimately show ?thesis using s1 t unfolding erased_def children_erased_def by blast
qed

lemma erase_children_run:
  assumes "server_inv s" "window s k = Some w"
  shows "\<exists>t. erase_children k s = Some t \<and> children_erased k s t"
  using assms
proof (induction "length (wnChildren w)" arbitrary: s w rule: less_induct)
  case less
  have ok: "tree_ok s" using less.prems(1) by (simp add: server_inv_def)
  note w = less.prems(2)
  show ?case
  proof (cases "wnChildren w = []")
    case True
    have "j = k" if "j \<in> below s k" for j
      using that True parent_rel_iff [OF ok w] by (auto simp: below_def elim: rtranclE)
    then have b: "below s k = {k}" by auto
    have "w\<lparr>wnChildren := []\<rparr> = w" using True by simp
    with w less.prems(1) have "children_erased k s s"
      unfolding children_erased_def b by (auto intro: exI [of _ "\<lambda>_. []"])
    with w True show ?thesis by (simp add: erase_children.simps)
  next
    case False
    define c where "c = last (wnChildren w)"
    have "c \<in> set (wnChildren w)" using False by (simp add: c_def)
    then have c: "(c, k) \<in> parent_rel s" using parent_rel_iff [OF ok w] by simp
    then obtain v where v: "window s c = Some v" "c \<noteq> root_window_id" by (auto simp: parent_rel_def)
    have k: "k \<notin> below s c" by (rule parent_not_below [OF ok c])
    obtain s1 where s1: "erase_window_tree c s = Some s1" "erased c v s s1"
      using erase_window_tree_run [OF less.prems(1) v] by blast
    have "wnParent v = k" using c v(1) by (auto simp: parent_rel_def)
    then have w1: "window s1 k = Some (without_child c w)" using s1(2) k w by (simp add: erased_def)
    have "length (wnChildren (without_child c w)) < length (wnChildren w)"
      using \<open>c \<in> set (wnChildren w)\<close> by (simp add: without_child_def length_filter_less)
    from less.hyps [OF this _ w1] s1(2)
    obtain t where t: "erase_children k s1 = Some t" "children_erased k s1 t" by (auto simp: erased_def)
    have "erase_children k s = Some t"
      using False s1(1) t(1) by (simp add: erase_children.simps [of k s] w c_def)
    with children_erased_step [OF ok w c v(1) s1(2) t(2)] show ?thesis by blast
  qed
qed

subsection \<open>Unmapping keeps the invariant\<close>

lemma mapping_done_inv:
  assumes inv: "server_inv s" and d: "mapping_done changed mapped s r t" "r \<noteq> QueueFull"
  shows "server_inv t" "window t j = map_option (marking changed mapped j) (window s j)" "below t k = below s k"
    "\<exists>more. \<forall>c. queued_events t c = queued_events s c @ more c" "forgotten s j \<Longrightarrow> forgotten t j"
proof -
  have frame: "mapping_frame s t" and ok: "tree_ok t" "queues_ok t" "input_ok t"
      and ws: "ssWindows t = umap_map (marking changed mapped) (ssWindows s)"
    using d unfolding mapping_done_def by (simp_all only: if_False)
  from frame obtain q n i c where t: "t = s\<lparr>ssEventQueues := q, ssPendingEvents := n,
      ssWindows := umap_map (marking changed mapped) (ssWindows s), ssInput := i, ssDisplayedCursor := c, ssSceneDirty := True\<rparr>"
    unfolding mapping_frame_def ws by (rule that)
  show win: "window t j = map_option (marking changed mapped j) (window s j)" for j by (simp add: window_def ws)
  have "(a, b) \<in> parent_rel t \<longleftrightarrow> (a, b) \<in> parent_rel s" for a b
    by (cases "window s a") (simp_all add: parent_rel_def win)
  then have "parent_rel t = parent_rel s" by auto
  then show "below t k = below s k" by (simp add: below_def)
  obtain es where "\<forall>c. queued_events t c = queued_events s c @ stamped_for s c es"
    using d unfolding mapping_done_def by (simp only: if_False) blast
  then show "\<exists>more. \<forall>c. queued_events t c = queued_events s c @ more c"
    by (intro exI [of _ "\<lambda>c. stamped_for s c es"])
  obtain loss where "ssInput t = input_after loss s"
    using d unfolding mapping_done_def by (simp only: if_False) blast
  moreover have i: "ssInput t = i" by (simp add: t)
  ultimately have grabs: "inPointerGrab i = Some g \<Longrightarrow> inPointerGrab (ssInput s) = Some g"
      "inKeyboardGrab i = Some g \<Longrightarrow> inKeyboardGrab (ssInput s) = Some g" for g
    by (simp_all add: input_after_def drop_lost_def split: if_splits)
  show "forgotten t j" if f: "forgotten s j"
  proof -
    have none: "window t j = None" using f by (simp add: forgotten_def win)
    have "fsKind (inFocus i) = FocusWindow \<longrightarrow> fsWindow (inFocus i) \<noteq> j" using ok(3) none by (auto simp: input_ok_def i)
    moreover have "\<forall>g. inPointerGrab i = Some g \<longrightarrow> agWindow g \<noteq> j \<and> agConfineTo g \<noteq> j"
      "\<forall>g. inKeyboardGrab i = Some g \<longrightarrow> agWindow g \<noteq> j"
      using f grabs by (auto simp: forgotten_def unreferenced_def)
    ultimately have "unreferenced t j" using f unfolding forgotten_def unreferenced_def i by (simp add: t)
    with none f show ?thesis by (simp add: forgotten_def, simp add: t)
  qed
  have keys: "map fst (ssWindows t) = map fst (ssWindows s)" by (simp add: ws umap_map_def comp_def split_beta)
  have "properties_ok t"
  proof -
    have "properties_ok s" using inv by (simp add: server_inv_def)
    note P = properties_okD [OF this]
    have pb: "window_property_bytes (marking changed mapped j x) = window_property_bytes x" for j x
      by (simp add: window_property_bytes_def)
    have "umap_ok (ssWindows t)" using P(2) keys by (simp add: umap_ok_def)
    then have "umap_sum window_property_bytes (ssWindows t) = umap_sum window_property_bytes (ssWindows s)"
      by (rule umap_sum_cong [OF _ keys]) (simp add: ws option.map_comp comp_def pb)
    moreover have "device_property_bytes t = device_property_bytes s" "ssPropertyBytes t = ssPropertyBytes s"
      by (simp_all add: t device_property_bytes_def)
    moreover have "windows_keyed t" by (rule tree_okD(1) [OF ok(1)])
    moreover have "umap_ok (wnProperties u) \<and> (\<forall>p v. umap_find p (wnProperties u) = Some v \<longrightarrow> length (pvData v) \<le> maximum_property_bytes)"
      if u: "window t k = Some u" for k u
    proof -
      obtain x where "window s k = Some x" "wnProperties u = wnProperties x"
        using u unfolding win by (cases "window s k") auto
      then show ?thesis using P(3,4) by auto
    qed
    ultimately show ?thesis using P(5,6) unfolding properties_ok_def by simp
  qed
  moreover have "resources_ok t"
  proof -
    have ids: "table_ids kind t = table_ids kind s" for kind
    proof -
      have "fst ` set (ssWindows t) = fst ` set (ssWindows s)" using keys by (metis set_map)
      then show ?thesis by (cases kind) (simp_all, simp_all add: t)
    qed
    have r: "resources_ok s" using inv by (simp add: server_inv_def)
    then have "tables_distinct t" using tree_okD(1) [OF ok(1)] by (simp add: resources_ok_def tables_distinct_def windows_keyed_def, simp add: t)
    with r ids show ?thesis by (simp add: resources_ok_def t)
  qed
  moreover have "passive_windows_ok t" using inv win by (simp add: server_inv_def passive_windows_ok_def t)
  ultimately show "server_inv t"
    using inv ok sync_ok_cong [of s t] by (simp add: server_inv_def presents_registered_def selections_ok_def xi2_ok_def, simp add: t)
qed

lemma unmapped_run:
  assumes inv: "server_inv s" and w: "window s k = Some w" "k \<noteq> root_window_id"
  obtains r t where "set_window_mapped w False s = Some (r, t)" "r = QueueFull \<Longrightarrow> t = s"
    "r \<noteq> QueueFull \<Longrightarrow> server_inv t \<and> (\<forall>j. j \<noteq> k \<longrightarrow> window t j = window s j) \<and> window t k = Some (w\<lparr>wnMapped := False\<rparr>) \<and>
       below t k = below s k \<and> (\<forall>j. forgotten s j \<longrightarrow> forgotten t j) \<and>
       (\<exists>more. \<forall>c. queued_events t c = queued_events s c @ more c)"
proof -
  have ok: "tree_ok s" "queues_ok s" "input_ok s" using inv by (simp_all add: server_inv_def)
  have id: "wnId w = k" using windows_keyedD(2) [OF tree_okD(1) [OF ok(1)]] w(1) by simp
  have refl: "\<exists>more. \<forall>c. queued_events s c = queued_events s c @ more c" by (rule exI [of _ "\<lambda>_. []"]) simp
  show thesis
  proof (cases "wnMapped w")
    case False
    then have "w\<lparr>wnMapped := False\<rparr> = w" by simp
    with False refl show ?thesis
      by (intro that [of NoRecipient s]) (simp_all add: set_window_mapped_def id w inv)
  next
    case True
    have "markable s False [k]" using w True by (auto simp: markable_def)
    from update_window_mappings_run [OF ok this]
    obtain r t where r: "update_window_mappings [k] False s = Some (r, t)" "mapping_done [k] False s r t" by blast
    show ?thesis
    proof (rule that [of r t])
      show "set_window_mapped w False s = Some (r, t)" using r(1) True w(2) by (simp add: set_window_mapped_def id)
      show "r = QueueFull \<Longrightarrow> t = s" using r(2) by (simp add: mapping_done_def)
      assume "r \<noteq> QueueFull"
      note m = mapping_done_inv [OF inv r(2) this]
      show "server_inv t \<and> (\<forall>j. j \<noteq> k \<longrightarrow> window t j = window s j) \<and> window t k = Some (w\<lparr>wnMapped := False\<rparr>) \<and>
          below t k = below s k \<and> (\<forall>j. forgotten s j \<longrightarrow> forgotten t j) \<and>
       (\<exists>more. \<forall>c. queued_events t c = queued_events s c @ more c)"
        using m(1,3,4,5) w by (auto simp: m(2) option.map_ident)
    qed
  qed
qed

lemma destroy_window_effect_run:
  assumes inv: "server_inv s"
  shows "\<exists>r t. destroy_window k s = Some (r, t) \<and>
    (case window s k of
       None \<Rightarrow> r = NoRecipient \<and> t = s
     | Some w \<Rightarrow> if k = root_window_id then r = NoRecipient \<and> t = s
                else if r = QueueFull then t = s else erased k w s t)"
proof (cases "window s k")
  case None
  then show ?thesis by (simp add: destroy_window_def)
next
  case (Some w)
  show ?thesis
  proof (cases "k = root_window_id")
    case True
    with Some show ?thesis by (simp add: destroy_window_def)
  next
    case k: False
    obtain r s1 where s1: "set_window_mapped w False s = Some (r, s1)" "r = QueueFull \<Longrightarrow> s1 = s"
      "r \<noteq> QueueFull \<Longrightarrow> server_inv s1 \<and> (\<forall>j. j \<noteq> k \<longrightarrow> window s1 j = window s j) \<and> window s1 k = Some (w\<lparr>wnMapped := False\<rparr>) \<and>
         below s1 k = below s k \<and> (\<forall>j. forgotten s j \<longrightarrow> forgotten s1 j) \<and>
         (\<exists>more. \<forall>c. queued_events s1 c = queued_events s c @ more c)"
      by (rule unmapped_run [OF inv Some k]) (rule that; assumption)
    show ?thesis
    proof (cases "r = QueueFull")
      case True
      with s1 Some k show ?thesis by (simp add: destroy_window_def)
    next
      case False
      note m = s1(3) [OF False]
      obtain t where t: "erase_window_tree k s1 = Some t" "erased k (w\<lparr>wnMapped := False\<rparr>) s1 t"
        using erase_window_tree_run [of s1 k] m k by blast
      have s1w: "window s1 j = (if j = k then Some (w\<lparr>wnMapped := False\<rparr>) else window s j)" for j using m by simp
      have "window t j = (if j \<in> below s k then None
          else if j = wnParent w then map_option (without_child k) (window s j) else window s j)" for j
      proof -
        have "below s1 k = below s k" using m by blast
        then have "window t j = (if j \<in> below s k then None
            else if j = wnParent w then map_option (without_child k) (window s1 j) else window s1 j)"
          using t(2) unfolding erased_def by simp
        then show ?thesis by (cases "j = k") (simp_all add: s1w)
      qed
      moreover have e: "server_inv t" "\<forall>j \<in> below s1 k. forgotten t j" "\<forall>j. j \<noteq> 0 \<longrightarrow> forgotten s1 j \<longrightarrow> forgotten t j"
          "\<exists>more. \<forall>c. queued_events t c = queued_events s1 c @ more c"
        using t(2) unfolding erased_def by blast+
      moreover have m': "below s1 k = below s k" "\<forall>j. forgotten s j \<longrightarrow> forgotten s1 j"
          "\<exists>more. \<forall>c. queued_events s1 c = queued_events s c @ more c"
        using m by blast+
      moreover have "\<exists>more. \<forall>c. queued_events t c = queued_events s c @ more c" by (rule queues_extend_trans [OF m'(3) e(4)])
      ultimately have "erased k w s t" unfolding erased_def by simp
      with s1(1) t(1) Some k False show ?thesis by (simp add: destroy_window_def)
    qed
  qed
qed


lemma destroy_subwindows_effect_run:
  assumes inv: "server_inv s"
  shows "\<exists>r t. destroy_subwindows k s = Some (r, t) \<and>
    (if window s k = None then r = NoRecipient \<and> t = s
     else if r = QueueFull then t = s else children_erased k s t)"
proof (cases "window s k")
  case None
  then show ?thesis by (simp add: destroy_subwindows_def)
next
  case (Some w)
  have ok: "tree_ok s" "queues_ok s" "input_ok s" using inv by (simp_all add: server_inv_def)
  let ?ch = "filter (\<lambda>c. case window s c of None \<Rightarrow> False | Some w \<Rightarrow> wnMapped w \<noteq> False) (wnChildren w)"
  have run: "set_subwindows_mapped k False s = (if ?ch = [] then Some (NoRecipient, s) else update_window_mappings ?ch False s)"
    by (simp add: set_subwindows_mapped_def Some)
  show ?thesis
  proof (cases "?ch = []")
    case True
    with run erase_children_run [OF inv Some] Some show ?thesis by (auto simp: destroy_subwindows_def)
  next
    case False
    have mk: "markable s False ?ch"
      using tree_okD(6) [OF ok(1) Some] by (auto simp: markable_def split: option.splits)
    obtain r s1 where r: "update_window_mappings ?ch False s = Some (r, s1)" "mapping_done ?ch False s r s1"
      using update_window_mappings_run [OF ok mk] by blast
    have set: "set_subwindows_mapped k False s = Some (r, s1)" using run False r(1) by simp
    show ?thesis
    proof (cases "r = QueueFull")
      case True
      with set r(2) Some show ?thesis by (simp add: destroy_subwindows_def mapping_done_def)
    next
      case full: False
      note m = mapping_done_inv [OF inv r(2) full]
      have sub: "set ?ch \<subseteq> below s k - {k}"
      proof
        fix c assume "c \<in> set ?ch"
        then have c: "(c, k) \<in> parent_rel s" using parent_rel_iff [OF ok(1) Some] by simp
        then have "c \<noteq> k" using parent_not_below [OF ok(1) c] by auto
        with c show "c \<in> below s k - {k}" by (auto simp: below_def)
      qed
      have "window s1 k = Some w" using sub Some by (subst m(2)) auto
      from erase_children_run [OF m(1) this]
      obtain t where t: "erase_children k s1 = Some t" "children_erased k s1 t" by blast
      have tw: "window t j = (if j = k then map_option (\<lambda>w. w\<lparr>wnChildren := []\<rparr>) (window s1 k)
          else if j \<in> below s1 k then None else window s1 j)" for j
        using t(2) unfolding children_erased_def by blast
      have "window t j = (if j = k then map_option (\<lambda>w. w\<lparr>wnChildren := []\<rparr>) (window s k)
          else if j \<in> below s k then None else window s j)" for j
      proof -
        have "window s1 j = window s j" if "j \<notin> set ?ch" using that unfolding m(2) by (cases "window s j") auto
        then show ?thesis using sub \<open>window s1 k = Some w\<close> Some unfolding tw m(3) by auto
      qed
      moreover have e: "server_inv t" "\<forall>j \<in> below s1 k - {k}. forgotten t j" "\<forall>j. j \<noteq> 0 \<longrightarrow> forgotten s1 j \<longrightarrow> forgotten t j"
          "\<exists>more. \<forall>c. queued_events t c = queued_events s1 c @ more c"
        using t(2) unfolding children_erased_def by blast+
      moreover have "\<exists>more. \<forall>c. queued_events t c = queued_events s c @ more c" by (rule queues_extend_trans [OF m(4) e(4)])
      ultimately have "children_erased k s t" using m(5) unfolding children_erased_def m(3) by simp
      with set full t(1) Some show ?thesis by (simp add: destroy_subwindows_def)
    qed
  qed
qed

text \<open>Destroying the subwindows of a window leaves the window alone, without children.  From a
  state that satisfies the invariant of the server, \<open>destroy_subwindows\<close> returns; an identifier of no
  window changes nothing, nor does an unmapping refused by a full queue; otherwise exactly the
  windows strictly below the given one are gone, with every reference to them, and the window itself
  has lost its children and nothing else.\<close>

theorem destroy_subwindows_effect:
  assumes inv: "server_inv s"
  shows "\<exists>r t. destroy_subwindows k s = Some (r, t) \<and>
    (if window s k = None then r = NoRecipient \<and> t = s
     else if r = QueueFull then t = s else children_erased k s t)"
  using assms by (rule destroy_subwindows_effect_run)

subsection \<open>Instances\<close>

text \<open>Two windows of client 5 below the root; the first one has the focus and owns a selection.\<close>

definition owned_children_state :: server_state where
  "owned_children_state = two_children_state
     \<lparr>ssResources := ssResources two_children_state @
        [(7, \<lparr>rrKind = KWindow, rrOwner = 5\<rparr>), (8, \<lparr>rrKind = KWindow, rrOwner = 5\<rparr>)],
      ssSelections := [(1, \<lparr>slWindow = 7, slClient = 5, slChangedAt = 1\<rparr>)],
      ssInput := (ssInput two_children_state)\<lparr>inFocus := \<lparr>fsKind = FocusWindow, fsWindow = 7, fsChangedAt = 1, fsRevertTo = 0\<rparr>\<rparr>\<rparr>"

lemma owned_children_windows:
  "ssWindows owned_children_state = ssWindows two_children_state" "window owned_children_state k = window two_children_state k"
  by (simp_all add: owned_children_state_def window_def)

lemma owned_children_inv: "server_inv owned_children_state"
proof -
  let ?s = owned_children_state
  have "tree_ok ?s" using two_children_ok(1) tree_ok_cong [OF owned_children_windows(1)] by simp
  moreover have "queues_ok ?s" using two_children_ok(2) by (simp add: queues_ok_def owned_children_state_def)
  moreover have "input_ok ?s" by (simp add: input_ok_def owned_children_windows(2) two_children_window,
      simp add: owned_children_state_def two_children_state_def initial_state_def)
  moreover have "properties_ok ?s"
  proof -
    have "umap_sum window_property_bytes (ssWindows ?s) = 0" "device_property_bytes ?s = 0" "ssPropertyBytes ?s = 0"
      by (simp_all add: owned_children_state_def two_children_state_def initial_state_def umap_sum_def
          window_property_bytes_def sample_window_def window_default_def root_window_record_def device_property_bytes_def)
    moreover have "window ?s j = Some u \<Longrightarrow> wnProperties u = []" for j u
      by (auto simp: owned_children_windows(2) two_children_window sample_window_def window_default_def root_window_record_def split: if_splits)
    moreover have "windows_keyed ?s" by (rule tree_okD(1) [OF \<open>tree_ok ?s\<close>])
    ultimately show ?thesis by (auto simp: properties_ok_def)
  qed
  moreover have "resources_ok ?s"
  proof -
    have res: "ssResources ?s = [(root_window_id, \<lparr>rrKind = KWindow, rrOwner = 0\<rparr>),
        (default_colormap_id, \<lparr>rrKind = KColormap, rrOwner = 0\<rparr>), (7, \<lparr>rrKind = KWindow, rrOwner = 5\<rparr>), (8, \<lparr>rrKind = KWindow, rrOwner = 5\<rparr>)]"
      by (simp add: owned_children_state_def two_children_state_def initial_state_def)
    have "table_ids k ?s = Some ids \<Longrightarrow> rid \<in> ids \<longleftrightarrow> reg_is rid k (ssResources ?s)" for k ids rid
      unfolding res by (cases k) (auto simp: owned_children_state_def two_children_state_def initial_state_def
          reg_is_def reg_find_def umap_find_def root_window_id_def default_colormap_id_def)
    moreover have "reg_find 0 (ssResources ?s) = None" unfolding res
      by (simp add: reg_find_def umap_find_def root_window_id_def default_colormap_id_def)
    moreover have "umap_ok (ssResources ?s)" unfolding res by (simp add: umap_ok_def root_window_id_def default_colormap_id_def)
    then have "tables_distinct ?s" using two_children_ok(1)
      by (simp add: tables_distinct_def) (simp add: owned_children_state_def two_children_state_def initial_state_def umap_ok_def root_window_id_def)
    ultimately show ?thesis unfolding resources_ok_def by blast
  qed
  moreover have "selections_ok ?s"
    by (auto simp: selections_ok_def owned_children_state_def two_children_state_def initial_state_def umap_ok_def umap_find_def split: if_splits)
  moreover have "sync_ok ?s" by (rule sync_ok_cong [OF initial_sync_ok [of 640 480 0]])
    (simp_all add: owned_children_state_def two_children_state_def)
  moreover have "presents_registered ?s" "passive_windows_ok ?s" "grabs_ok (ssPassiveGrabs ?s)" "xi2_ok ?s"
    by (simp_all add: presents_registered_def passive_windows_ok_def grabs_ok_def xi2_ok_def
        owned_children_state_def two_children_state_def initial_state_def)
  ultimately show ?thesis by (simp add: server_inv_def)
qed


theorem destroy_subwindows_effect_witness:
  "\<exists>r t. destroy_subwindows root_window_id owned_children_state = Some (r, t) \<and>
     (r = QueueFull \<or> server_inv t \<and> (\<exists>w. window t root_window_id = Some w \<and> wnChildren w = []))"
  using destroy_subwindows_effect [OF owned_children_inv, of root_window_id]
  by (auto simp: owned_children_windows(2) two_children_window children_erased_def split: if_splits)

end
