(* ===== verification/Event_Wire.thy ===== *)
theory Event_Wire
  imports Wire Xi2 Geometry
begin

text \<open>
  The wire format of events (\<^verbatim>\<open>src/server/connection.cpp\<close>, \<open>Connection::encode_event\<close>).  Every
  branch of the code is a sequence of writer calls; it is modelled as the list of the fields it
  writes, \<open>pad(n)\<close> being \<open>n\<close> zero bytes.  The property says how a client finds the end of an event
  and its sequence number in the stream.
\<close>

subsection \<open>Fields\<close>

definition pad :: "nat \<Rightarrow> wire_field list" where
  "pad n = replicate n (F8 0)"

definition i16 :: "int \<Rightarrow> wire_field" where
  "i16 v = F16 (word_of_int v)"

definition flag :: "bool \<Rightarrow> wire_field" where
  "flag b = F8 (if b then 1 else 0)"

text \<open>\<open>write_sync_int64\<close>: the high half first, in either byte order.\<close>

definition sync_int64 :: "int \<Rightarrow> wire_field list" where
  "sync_int64 v = (let bits = word_of_int v :: u64 in [F32 (ucast (drop_bit 32 bits)), F32 (ucast bits)])"

text \<open>16.16 and 32.32 fixed point.\<close>

definition fixed :: "int \<Rightarrow> wire_field" where
  "fixed v = F32 (push_bit 16 (word_of_int (wire_coordinate v)))"

definition long_fixed :: "int \<Rightarrow> wire_field" where
  "long_fixed v = F64 (word_of_int (v * 2 ^ 32))"

definition shape_first_event :: u8 where "shape_first_event = 64"
definition sync_first_event :: u8 where "sync_first_event = 65"
definition xfixes_first_event :: u8 where "xfixes_first_event = 67"
definition randr_first_event :: u8 where "randr_first_event = 69"
definition damage_first_event :: u8 where "damage_first_event = 71"
definition xkb_first_event :: u8 where "xkb_first_event = 72"
definition present_major_opcode :: u8 where "present_major_opcode = 139"
definition xinput_major_opcode :: u8 where "xinput_major_opcode = 141"

subsection \<open>The branches of the encoder\<close>

fun selection_event_fields :: "u16 \<Rightarrow> selection_event \<Rightarrow> wire_field list" where
  "selection_event_fields sequence (SelectionClear time win selection) =
     [F8 29, F8 0, F16 sequence, F32 time, F32 win, F32 selection] @ pad 16"
| "selection_event_fields sequence (SelectionRequest time owner requestor selection target property) =
     [F8 30, F8 0, F16 sequence, F32 time, F32 owner, F32 requestor, F32 selection, F32 target, F32 property]"
| "selection_event_fields sequence (SelectionNotify time requestor selection target property) =
     [F8 31, F8 0, F16 sequence, F32 time, F32 requestor, F32 selection, F32 target, F32 property] @ pad 4"

text \<open>The \<open>160 / format\<close> items of a client message, each narrowed to the format.\<close>

definition message_item :: "u8 \<Rightarrow> u32 \<Rightarrow> wire_field" where
  "message_item format v = (if format = 8 then F8 (ucast v) else if format = 16 then F16 (ucast v) else F32 v)"

fun message_event_fields :: "u16 \<Rightarrow> message_event \<Rightarrow> wire_field list" where
  "message_event_fields sequence (ClientMessage format win type data) =
     [F8 (33 OR 0x80), F8 format, F16 sequence, F32 win, F32 type] @
     map (\<lambda>index. message_item format (data ! index)) [0..<160 div unat format]"
| "message_event_fields sequence (PropertyNotify state win atom time) =
     [F8 28, F8 0, F16 sequence, F32 win, F32 atom, F32 time, F8 state] @ pad 15"
| "message_event_fields sequence (MappingNotify request first_keycode count) =
     [F8 34, F8 0, F16 sequence, F8 request, F8 first_keycode, F8 count] @ pad 25"

fun window_event_fields :: "u16 \<Rightarrow> window_event \<Rightarrow> wire_field list" where
  "window_event_fields sequence (CreateNotify parent win x y width height border_width override_redirect) =
     [F8 16, F8 0, F16 sequence, F32 parent, F32 win, i16 x, i16 y, i16 width, i16 height,
      i16 border_width, flag override_redirect, F8 0] @ pad 8"
| "window_event_fields sequence (MapNotify event win override_redirect) =
     [F8 19, F8 0, F16 sequence, F32 event, F32 win, flag override_redirect] @ pad 19"
| "window_event_fields sequence (MapRequest parent win) =
     [F8 20, F8 0, F16 sequence, F32 parent, F32 win] @ pad 20"
| "window_event_fields sequence (UnmapNotify event win from_configure) =
     [F8 18, F8 0, F16 sequence, F32 event, F32 win, flag from_configure] @ pad 19"
| "window_event_fields sequence (VisibilityNotify win state) =
     [F8 15, F8 0, F16 sequence, F32 win, F8 state] @ pad 23"
| "window_event_fields sequence (Expose win x y width height count) =
     [F8 12, F8 0, F16 sequence, F32 win, i16 x, i16 y, i16 width, i16 height, i16 count] @ pad 14"
| "window_event_fields sequence (NoExpose drawable minor_opcode major_opcode) =
     [F8 14, F8 0, F16 sequence, F32 drawable, F16 minor_opcode, F8 major_opcode] @ pad 21"
| "window_event_fields sequence (ConfigureNotify event win above_sibling x y width height border_width override_redirect) =
     [F8 22, F8 0, F16 sequence, F32 event, F32 win, F32 above_sibling, i16 x, i16 y, i16 width, i16 height,
      i16 border_width, flag override_redirect, F8 0] @ pad 4"
| "window_event_fields sequence (ConfigureRequest stack_mode parent win sibling x y width height border_width value_mask) =
     [F8 23, F8 stack_mode, F16 sequence, F32 parent, F32 win, F32 sibling, i16 x, i16 y, i16 width, i16 height,
      i16 border_width, F16 value_mask] @ pad 4"
| "window_event_fields sequence (ResizeRequest win width height) =
     [F8 25, F8 0, F16 sequence, F32 win, i16 width, i16 height] @ pad 20"
| "window_event_fields sequence (CirculateNotify event win place) =
     [F8 26, F8 0, F16 sequence, F32 event, F32 win] @ pad 4 @ [F8 place] @ pad 15"
| "window_event_fields sequence (CirculateRequest parent win place) =
     [F8 27, F8 0, F16 sequence, F32 parent, F32 win] @ pad 4 @ [F8 place] @ pad 15"

fun extension_event_fields :: "u16 \<Rightarrow> extension_event \<Rightarrow> wire_field list" where
  "extension_event_fields sequence (ShapeNotify kind win x y width height time shaped) =
     [F8 shape_first_event, F8 kind, F16 sequence, F32 win, i16 x, i16 y, i16 width, i16 height,
      F32 time, flag shaped] @ pad 11"
| "extension_event_fields sequence (SyncCounterNotify counter_id wait_value counter_value time count destroyed) =
     [F8 sync_first_event, F8 0, F16 sequence, F32 counter_id] @ sync_int64 wait_value @
     sync_int64 counter_value @ [F32 time, F16 (of_nat count), flag destroyed, F8 0]"
| "extension_event_fields sequence (SyncAlarmNotify alarm_id counter_value alarm_value time state) =
     [F8 (sync_first_event + 1), F8 1, F16 sequence, F32 alarm_id] @ sync_int64 counter_value @
     sync_int64 alarm_value @ [F32 time, F8 state] @ pad 3"
| "extension_event_fields sequence (XFixesSelectionNotify subtype win owner selection time selection_time) =
     [F8 xfixes_first_event, F8 subtype, F16 sequence, F32 win, F32 owner, F32 selection, F32 time,
      F32 selection_time] @ pad 8"
| "extension_event_fields sequence (XFixesCursorNotify subtype win cursor_serial time name) =
     [F8 (xfixes_first_event + 1), F8 subtype, F16 sequence, F32 win, F32 cursor_serial, F32 time,
      F32 name] @ pad 12"

text \<open>An unknown RANDR subtype gives no encoding at all.\<close>

fun randr_event_fields :: "u16 \<Rightarrow> randr_event \<Rightarrow> wire_field list option" where
  "randr_event_fields sequence (RandrScreenChangeNotify timestamp config_timestamp request_window width height
       mm_width mm_height rotation) = Some
     [F8 randr_first_event, F8 (ucast rotation), F16 sequence, F32 timestamp, F32 config_timestamp,
      F32 root_window_id, F32 request_window, F16 0, F16 0, i16 width, i16 height, i16 mm_width, i16 mm_height]"
| "randr_event_fields sequence (RandrNotify subtype timestamp config_timestamp win crtc output mode atom
       x y width height rotation connection subpixel_order property_status) =
     map_option (\<lambda>more. [F8 (randr_first_event + 1), F8 subtype, F16 sequence] @ more)
       (if subtype = 0 then Some ([F32 timestamp, F32 win, F32 crtc, F32 mode, F16 rotation] @ pad 2 @
          [i16 x, i16 y, i16 width, i16 height])
        else if subtype = 1 then Some [F32 timestamp, F32 config_timestamp, F32 win, F32 output, F32 crtc,
          F32 mode, F16 rotation, F8 connection, F8 subpixel_order]
        else if subtype = 2 then Some ([F32 win, F32 output, F32 atom, F32 timestamp, F8 property_status] @ pad 11)
        else if subtype = 5 then Some ([F32 timestamp, F32 win] @ pad 20)
        else None)"

fun drawing_event_fields :: "u16 \<Rightarrow> drawing_event \<Rightarrow> wire_field list" where
  "drawing_event_fields sequence (DamageNotify level drawable damage_id timestamp ax ay aw ah gx gy gw gh) =
     [F8 damage_first_event, F8 level, F16 sequence, F32 drawable, F32 damage_id, F32 timestamp,
      i16 ax, i16 ay, i16 aw, i16 ah, i16 gx, i16 gy, i16 gw, i16 gh]"
| "drawing_event_fields sequence (PresentConfigureNotify event win x y width height off_x off_y
       pixmap_width pixmap_height flags) =
     [F8 35, F8 present_major_opcode, F16 sequence, F32 2, F16 0] @ pad 2 @
     [F32 event, F32 win, i16 x, i16 y, i16 width, i16 height, i16 off_x, i16 off_y,
      i16 pixmap_width, i16 pixmap_height, F32 flags]"
| "drawing_event_fields sequence (PresentCompleteNotify kind mode event win serial ust msc) =
     [F8 35, F8 present_major_opcode, F16 sequence, F32 2, F16 1, F8 kind, F8 mode, F32 event, F32 win,
      F32 serial, F64 ust, F64 msc]"
| "drawing_event_fields sequence (PresentIdleNotify event win serial pix idle_fence) =
     [F8 35, F8 present_major_opcode, F16 sequence, F32 0, F16 2] @ pad 2 @
     [F32 event, F32 win, F32 serial, F32 pix, F32 idle_fence]"

fun xkb_event_fields :: "u16 \<Rightarrow> xkb_event \<Rightarrow> wire_field list" where
  "xkb_event_fields sequence (XkbMapNotify time device changed min_keycode max_keycode first_type type_count
       first_keysym keysym_count first_modmap modmap_count) =
     [F8 xkb_first_event, F8 1, F16 sequence, F32 time, F8 device, F8 0, F16 changed, F8 min_keycode,
      F8 max_keycode, F8 first_type, F8 type_count, F8 first_keysym, F8 keysym_count, F8 0, F8 0, F8 0, F8 0,
      F8 0, F8 0, F8 first_modmap, F8 modmap_count, F8 0, F8 0, F16 0] @ pad 2"
| "xkb_event_fields sequence (XkbStateNotify time device mods base_mods latched_mods locked_mods grp
       base_group latched_group locked_group pointer_buttons changed keycode event_type request_major request_minor) =
     [F8 xkb_first_event, F8 2, F16 sequence, F32 time, F8 device, F8 mods, F8 base_mods, F8 latched_mods,
      F8 locked_mods, F8 grp, i16 base_group, i16 latched_group, F8 locked_group, F8 mods, F8 mods, F8 mods,
      F8 mods, F8 mods, F16 pointer_buttons, F16 changed, F8 keycode, F8 event_type, F8 request_major,
      F8 request_minor]"
| "xkb_event_fields sequence (XkbControlsNotify time device groups changed enabled enabled_changes keycode
       event_type request_major request_minor) =
     [F8 xkb_first_event, F8 3, F16 sequence, F32 time, F8 device, F8 groups] @ pad 2 @
     [F32 changed, F32 enabled, F32 enabled_changes, F8 keycode, F8 event_type, F8 request_major,
      F8 request_minor] @ pad 4"

fun input_event_fields :: "u16 \<Rightarrow> input_event \<Rightarrow> wire_field list" where
  "input_event_fields sequence (CoreInput e) =
     [F8 (ivType e), F8 (ivDetail e), F16 sequence, F32 (ivTime e), F32 (ivRoot e), F32 (ivEvent e),
      F32 (ivChild e), i16 (ivRootX e), i16 (ivRootY e), i16 (ivEventX e), i16 (ivEventY e),
      F16 (ivState e), flag (ivSameScreen e), F8 0]"
| "input_event_fields sequence (Crossing e) =
     [F8 (cvType e), F8 (cvDetail e), F16 sequence, F32 (cvTime e), F32 (cvRoot e), F32 (cvEvent e),
      F32 (cvChild e), i16 (cvRootX e), i16 (cvRootY e), i16 (cvEventX e), i16 (cvEventY e),
      F16 (cvState e), F8 (cvMode e), F8 ((if cvSameScreen e then 1 else 0) OR (if cvFocus e then 2 else 0))]"
| "input_event_fields sequence (Focus type detail event mode) =
     [F8 type, F8 detail, F16 sequence, F32 event, F8 mode] @ pad 23"

definition group_fields :: "u8 \<Rightarrow> u8 \<Rightarrow> u8 \<Rightarrow> u8 \<Rightarrow> wire_field list" where
  "group_fields base latched locked effective = [F8 base, F8 latched, F8 locked, F8 effective]"

definition modifier_fields :: "u8 \<Rightarrow> u8 \<Rightarrow> u8 \<Rightarrow> u8 \<Rightarrow> wire_field list" where
  "modifier_fields base latched locked effective =
     [F32 (ucast base), F32 (ucast latched), F32 (ucast locked), F32 (ucast effective)]"

fun xi2_event_fields :: "u16 \<Rightarrow> xi2_event \<Rightarrow> wire_field list" where
  "xi2_event_fields sequence (Xi2Device e) =
     (let valuators = xdDevice e = xi2_pointer_device_id \<and> xdType e = 6
      in [F8 35, F8 xinput_major_opcode, F16 sequence, F32 (if valuators then 18 else 13), F16 (xdType e),
          F16 (xdDevice e), F32 (xdTime e), F32 (xdDetail e), F32 (xdRoot e), F32 (xdEvent e), F32 (xdChild e),
          fixed (xdRootX e), fixed (xdRootY e), fixed (xdEventX e), fixed (xdEventY e), F16 1,
          F16 (if valuators then 1 else 0), F16 (xdSource e)] @ pad 2 @ [F32 (xdFlags e)] @
         modifier_fields (xdBaseMods e) (xdLatchedMods e) (xdLockedMods e) (xdEffectiveMods e) @
         group_fields (xdBaseGroup e) (xdLatchedGroup e) (xdLockedGroup e) (xdEffectiveGroup e) @
         [F32 (xdButtons e)] @
         (if valuators then [F32 3, long_fixed (xdRootX e), long_fixed (xdRootY e)] else []))"
| "xi2_event_fields sequence (Xi2Raw event_type device source time detail root_x root_y flags) =
     (let valuators = event_type = 17
      in [F8 35, F8 xinput_major_opcode, F16 sequence, F32 (if valuators then 9 else 0), F16 event_type,
          F16 device, F32 time, F32 detail, F16 source, F16 (if valuators then 1 else 0), F32 flags] @ pad 4 @
         (if valuators then [F32 3, long_fixed root_x, long_fixed root_y, long_fixed root_x, long_fixed root_y]
          else []))"
| "xi2_event_fields sequence (Xi2Property device time property what) =
     [F8 35, F8 xinput_major_opcode, F16 sequence, F32 0, F16 12, F16 device, F32 time, F32 property, F8 what] @ pad 11"
| "xi2_event_fields sequence (Xi2Crossing e) =
     [F8 35, F8 xinput_major_opcode, F16 sequence, F32 11, F16 (xvType e), F16 (xvDevice e), F32 (xvTime e),
      F16 (xvSource e), F8 (xvMode e), F8 (xvDetail e), F32 (xvRoot e), F32 (xvEvent e), F32 (xvChild e),
      fixed (xvRootX e), fixed (xvRootY e), fixed (xvEventX e), fixed (xvEventY e), flag (xvSameScreen e),
      flag (xvFocus e), F16 1] @
     modifier_fields (xvBaseMods e) (xvLatchedMods e) (xvLockedMods e) (xvEffectiveMods e) @
     group_fields (xvBaseGroup e) (xvLatchedGroup e) (xvLockedGroup e) (xvEffectiveGroup e) @
     [F32 (xvButtons e)]"

fun event_fields :: "u16 \<Rightarrow> event_body \<Rightarrow> wire_field list option" where
  "event_fields sequence (EvSelection e) = Some (selection_event_fields sequence e)"
| "event_fields sequence (EvMessage e) = Some (message_event_fields sequence e)"
| "event_fields sequence (EvWindow e) = Some (window_event_fields sequence e)"
| "event_fields sequence (EvExtension e) = Some (extension_event_fields sequence e)"
| "event_fields sequence (EvRandr e) = randr_event_fields sequence e"
| "event_fields sequence (EvDrawing e) = Some (drawing_event_fields sequence e)"
| "event_fields sequence (EvXkb e) = Some (xkb_event_fields sequence e)"
| "event_fields sequence (EvInput e) = Some (input_event_fields sequence e)"
| "event_fields sequence (EvXi2 e) = Some (xi2_event_fields sequence e)"

definition encode_fields :: "byte_order \<Rightarrow> wire_field list \<Rightarrow> u8 list" where
  "encode_fields order fs = wrBytes (fold write_field fs (wire_writer_init order))"

text \<open>A connection that has not recorded its byte order encodes nothing.\<close>

definition encode_event :: "byte_order option \<Rightarrow> client_event \<Rightarrow> u8 list" where
  "encode_event order e =
     (case order of
        None \<Rightarrow> []
      | Some order \<Rightarrow> (case event_fields (ceSequence e) (ceBody e) of
                        None \<Rightarrow> []
                      | Some fs \<Rightarrow> encode_fields order fs))"

subsection \<open>The frame of an event\<close>

fun field_width :: "wire_field \<Rightarrow> nat" where
  "field_width (F8 _) = 1"
| "field_width (F16 _) = 2"
| "field_width (F32 _) = 4"
| "field_width (F64 _) = 8"

lemma length_field_bytes [simp]: "length (field_bytes order f) = field_width f"
  by (cases f) simp_all

lemma encode_fields_bytes: "encode_fields order fs = concat (map (field_bytes order) fs)"
  by (simp add: encode_fields_def write_fields_bytes wire_writer_init_def)

lemma length_encode_fields: "length (encode_fields order fs) = sum_list (map field_width fs)"
  by (simp add: encode_fields_bytes length_concat comp_def)

text \<open>The members the code relies on: the format of a client message is one of the three of the
  protocol and its data has 20 items, RANDR sends four subtypes, and the input events carry their
  protocol codes.  Requests and notifications of selection conversions are excluded: their encodings
  lack the final padding.\<close>

fun event_typed :: "event_body \<Rightarrow> bool" where
  "event_typed (EvSelection (SelectionRequest _ _ _ _ _ _)) \<longleftrightarrow> False"
| "event_typed (EvSelection (SelectionNotify _ _ _ _ _)) \<longleftrightarrow> False"
| "event_typed (EvMessage (ClientMessage format _ _ data)) \<longleftrightarrow> format \<in> {8, 16, 32} \<and> length data = 20"
| "event_typed (EvRandr (RandrNotify subtype _ _ _ _ _ _ _ _ _ _ _ _ _ _ _)) \<longleftrightarrow> subtype \<in> {0, 1, 2, 5}"
| "event_typed (EvInput (CoreInput e)) \<longleftrightarrow> ivType e \<in> {2, 3, 4, 5, 6}"
| "event_typed (EvInput (Crossing e)) \<longleftrightarrow> cvType e \<in> {7, 8}"
| "event_typed (EvInput (Focus type _ _ _)) \<longleftrightarrow> type \<in> {9, 10}"
| "event_typed _ \<longleftrightarrow> True"

text \<open>The fields of an event: its code, a byte, the sequence number and the rest, 28 bytes of it, or
  for a generic event as many more as its length field says.\<close>

definition framed :: "u16 \<Rightarrow> wire_field list \<Rightarrow> bool" where
  "framed sequence fs \<longleftrightarrow> (\<exists>code detail rest. fs = F8 code # F8 detail # F16 sequence # rest \<and>
     code \<notin> {0, 1} \<and>
     (if code = 35 then \<exists>extra items. rest = F32 extra # items \<and> sum_list (map field_width rest) = 28 + 4 * unat extra
      else sum_list (map field_width rest) = 28))"

lemmas wire_code_defs = shape_first_event_def sync_first_event_def xfixes_first_event_def randr_first_event_def
  damage_first_event_def xkb_first_event_def

lemma sum_pad [simp]: "sum_list (map field_width (pad n)) = n"
  by (simp add: pad_def sum_list_replicate)

lemma small_field_widths [simp]: "field_width (i16 v) = 2" "field_width (flag b) = 1" "field_width (fixed v) = 4"
    "field_width (long_fixed v) = 8" "sum_list (map field_width (sync_int64 v)) = 8"
    "sum_list (map field_width (modifier_fields m1 m2 m3 m4)) = 16" "sum_list (map field_width (group_fields g1 g2 g3 g4)) = 4"
  by (simp_all add: i16_def flag_def fixed_def long_fixed_def sync_int64_def Let_def modifier_fields_def group_fields_def)

lemma sum_map_append: "sum_list (map f (xs @ ys)) = sum_list (map f xs) + (sum_list (map f ys) :: nat)"
  by simp

lemma window_event_framed: "framed n (window_event_fields n e)"
  by (cases e) (simp_all add: framed_def)

lemma selection_event_framed: "event_typed (EvSelection e) \<Longrightarrow> framed n (selection_event_fields n e)"
  by (cases e) (simp_all add: framed_def)

lemma extension_event_framed: "framed n (extension_event_fields n e)"
  by (cases e) (simp_all add: framed_def wire_code_defs)

lemma drawing_event_framed: "framed n (drawing_event_fields n e)"
  by (cases e) (simp_all add: framed_def wire_code_defs)

lemma xkb_event_framed: "framed n (xkb_event_fields n e)"
  by (cases e) (simp_all add: framed_def wire_code_defs)

lemma message_items_width:
  "format \<in> {8, 16, 32} \<Longrightarrow> sum_list (map field_width (map (\<lambda>i. message_item format (data ! i)) [0..<160 div unat format])) = 20"
  by (auto simp: message_item_def comp_def sum_list_replicate map_replicate_const)

lemma message_event_framed: "event_typed (EvMessage e) \<Longrightarrow> framed n (message_event_fields n e)"
proof (cases e)
  case (ClientMessage format w type data)
  assume "event_typed (EvMessage e)"
  then have "format \<in> {8, 16, 32}" by (simp add: ClientMessage)
  from message_items_width [OF this, of data] show ?thesis by (simp add: framed_def ClientMessage)
qed (simp_all add: framed_def)

lemma xi2_event_framed: "framed n (xi2_event_fields n e)"
proof (cases e)
  case (Xi2Device d)
  obtain v where v: "(xdDevice d = xi2_pointer_device_id \<and> xdType d = 6) = v" by blast
  show ?thesis unfolding Xi2Device xi2_event_fields.simps v by (cases v) (simp_all add: framed_def Let_def)
qed (simp_all add: framed_def Let_def)

lemma input_event_framed: "event_typed (EvInput e) \<Longrightarrow> framed n (input_event_fields n e)"
  by (cases e) (auto simp: framed_def)

lemma randr_event_framed: "event_typed (EvRandr e) \<Longrightarrow> \<exists>fs. randr_event_fields n e = Some fs \<and> framed n fs"
  by (cases e) (auto simp: framed_def wire_code_defs)

lemma event_framed: "event_typed e \<Longrightarrow> \<exists>fs. event_fields n e = Some fs \<and> framed n fs"
  using window_event_framed selection_event_framed extension_event_framed drawing_event_framed xkb_event_framed
    message_event_framed xi2_event_framed input_event_framed randr_event_framed
  by (cases e) simp_all



text \<open>The events of selection conversion cannot be sent.  \<open>SelectionRequest\<close> and
  \<open>SelectionNotify\<close> are encoded in 28 bytes instead of 32, for every content and in either byte order.\<close>

theorem selection_conversion_short:
  "length (encode_event (Some order)
     \<lparr>ceBody = EvSelection (SelectionRequest time owner requestor selection target property), ceSequence = n\<rparr>) = 28 \<and>
   length (encode_event (Some order)
     \<lparr>ceBody = EvSelection (SelectionNotify time requestor selection target property), ceSequence = n\<rparr>) = 28"
  by (simp add: encode_event_def length_encode_fields)

end
