(* ===== verification/Connection.thy ===== *)
theory Connection
  imports Event_Wire Checked Sync
begin

text \<open>
  One client connection (\<^verbatim>\<open>src/server/connection.cpp\<close>, \<open>Connection\<close>): its buffers, the setup
  handshake, the framing of requests, the delivery of events and the loops that read from and write
  to the socket.  The socket is the environment: the results of the system calls are arguments.  A
  request handler is a parameter, \<open>dispatch\<close>; the locale \<open>request_handlers\<close> says what the
  connection relies on.  A failure carries its code, not its message.  Received descriptors and the
  protocol versions negotiated by extensions are not part of the record.
\<close>

subsection \<open>State\<close>

datatype error_code = ErrIo | ErrUnexpectedEof | ErrMalformed | ErrInvalidArgument | ErrBusy

datatype connection_state = SetupPrefix | SetupAuthentication | Requests

record connection =
  cnClient :: u32
  cnCookie :: "u8 list"
  cnAllowUnauthenticated :: bool
  cnState :: connection_state
  cnOrder :: "byte_order option"
  cnInput :: "u8 list"
  cnOutput :: "u8 list"
  cnOutputOffset :: nat
  cnPendingFds :: "nat list"
  cnSetupPayload :: nat
  cnSetupName :: nat
  cnSetupData :: nat
  cnSetupPaddedName :: nat
  cnSequence :: u16
  cnBigRequests :: bool
  cnResumeSyncInput :: bool
  cnCloseAfterOutput :: bool
  cnFinished :: bool

record request_context =
  rcOrder :: byte_order
  rcOpcode :: u8
  rcData :: u8
  rcSequence :: u16
  rcRequest :: "u8 list"

type_synonym outcome = "error_code option \<times> connection \<times> server_state"
type_synonym request_handler = "request_context \<Rightarrow> connection \<Rightarrow> server_state \<Rightarrow> outcome option"

definition protocol_major :: u16 where "protocol_major = 11"
definition protocol_minor :: u16 where "protocol_minor = 0"
definition maximum_core_request_units :: nat where "maximum_core_request_units = 65535"
definition maximum_extended_request_units :: nat where "maximum_extended_request_units = 262144"
definition maximum_core_request_bytes :: nat where
  "maximum_core_request_bytes = maximum_core_request_units * 4"
definition maximum_extended_request_bytes :: nat where
  "maximum_extended_request_bytes = maximum_extended_request_units * 4"
definition maximum_buffered_input :: nat where
  "maximum_buffered_input = maximum_extended_request_bytes + 16384"
definition maximum_buffered_output :: nat where "maximum_buffered_output = 1024 * 1024"

subsection \<open>Buffers\<close>

definition consume_input :: "nat \<Rightarrow> connection \<Rightarrow> connection" where
  "consume_input count c = c\<lparr>cnInput := drop count (cnInput c)\<rparr>"

definition close_after_output :: "connection \<Rightarrow> connection" where
  "close_after_output c =
     (let c1 = c\<lparr>cnCloseAfterOutput := True\<rparr>
      in if cnOutputOffset c1 = length (cnOutput c1) then c1\<lparr>cnFinished := True\<rparr> else c1)"

definition compact_output :: "connection \<Rightarrow> connection" where
  "compact_output c =
     (if cnOutputOffset c = 0 then c
      else if cnOutputOffset c = length (cnOutput c)
      then c\<lparr>cnOutput := [], cnOutputOffset := 0, cnPendingFds := []\<rparr>
      else c\<lparr>cnOutput := drop (cnOutputOffset c) (cnOutput c), cnOutputOffset := 0,
             cnPendingFds := map (\<lambda>m. size_sub m (cnOutputOffset c)) (cnPendingFds c)\<rparr>)"

definition queue_bytes :: "u8 list \<Rightarrow> connection \<Rightarrow> error_code option \<times> connection" where
  "queue_bytes bytes c =
     (if bytes = [] then (None, c)
      else let c1 = compact_output c
           in case checked_add_unsigned 64 (int (length (cnOutput c1))) (int (length bytes)) of
                None \<Rightarrow> (Some ErrIo, c1)
              | Some new_size \<Rightarrow>
                  if new_size > int maximum_buffered_output then (Some ErrIo, c1)
                  else (None, c1\<lparr>cnOutput := cnOutput c1 @ bytes\<rparr>))"

definition queue_with_fd :: "u8 list \<Rightarrow> bool \<Rightarrow> connection \<Rightarrow> error_code option \<times> connection" where
  "queue_with_fd bytes valid_fd c =
     (if bytes = [] \<or> \<not> valid_fd then (Some ErrInvalidArgument, c)
      else let c1 = compact_output c
           in case checked_add_unsigned 64 (int (length (cnOutput c1))) (int (length bytes)) of
                None \<Rightarrow> (Some ErrIo, c1)
              | Some new_size \<Rightarrow>
                  if new_size > int maximum_buffered_output then (Some ErrIo, c1)
                  else (None, c1\<lparr>cnPendingFds := cnPendingFds c1 @ [length (cnOutput c1)],
                                 cnOutput := cnOutput c1 @ bytes\<rparr>))"

definition send_error ::
  "byte_order \<Rightarrow> u8 \<Rightarrow> u8 \<Rightarrow> u16 \<Rightarrow> u32 \<Rightarrow> u16 \<Rightarrow> connection \<Rightarrow> error_code option \<times> connection" where
  "send_error order code opcode sequence bad_value minor_opcode c =
     queue_bytes (encode_fields order
       ([F8 0, F8 code, F16 sequence, F32 bad_value, F16 minor_opcode, F8 opcode] @ pad 21)) c"

lemma queue_bytes_client [simp]: "cnClient (snd (queue_bytes bytes c)) = cnClient c"
  by (simp add: queue_bytes_def compact_output_def Let_def split: option.splits)

subsection \<open>Events\<close>

lemma pop_event_shorter: "next_event s k = Some e \<Longrightarrow> length (queued_events (pop_event k s) k) < length (queued_events s k)"
  by (auto simp: next_event_def pop_event_def queued_events_def split: option.splits list.splits)

function drain_pending_events :: "connection \<Rightarrow> server_state \<Rightarrow> outcome" where
  "drain_pending_events c s =
     (case next_event s (cnClient c) of
        None \<Rightarrow> (None, c, s)
      | Some event \<Rightarrow>
          let encoded = encode_event (cnOrder c) event
          in if length encoded < 32 \<or> length encoded mod 4 \<noteq> 0 then (Some ErrMalformed, c, s)
             else case queue_bytes encoded c of
                    (Some err, c1) \<Rightarrow> (Some err, c1, s)
                  | (None, c1) \<Rightarrow> drain_pending_events c1 (pop_event (cnClient c) s))"
  by pat_completeness auto

termination
proof (relation "measure (\<lambda>(c, s). length (queued_events s (cnClient c)))", goal_cases)
  case (2 c s event encoded e c1)
  then have "cnClient c1 = cnClient c" using queue_bytes_client [of encoded c] by (metis snd_conv)
  with pop_event_shorter [OF 2(1)] show ?case by simp
qed simp

declare drain_pending_events.simps [simp del]

subsection \<open>Setup\<close>

definition bytes_of :: "string \<Rightarrow> u8 list" where
  "bytes_of s = map of_char s"

definition cookie_protocol :: "u8 list" where
  "cookie_protocol = bytes_of ''MIT-MAGIC-COOKIE-1''"

definition cookies_equal :: "u8 list \<Rightarrow> u8 list \<Rightarrow> bool" where
  "cookies_equal left right =
     (if length left \<noteq> length right then False
      else fold (\<lambda>(a, b) difference. difference OR (a XOR b)) (zip left right) 0 = 0)"

definition millimetres :: "int \<Rightarrow> int" where
  "millimetres pixels = (let tenths = pixels * 254 in (tenths + 480) div 960)"

definition send_setup_failure :: "byte_order \<Rightarrow> string \<Rightarrow> connection \<Rightarrow> error_code option \<times> connection" where
  "send_setup_failure order reason c =
     (let reason = take 255 reason
      in case padded_to_four (length reason) of
           None \<Rightarrow> (Some ErrMalformed, c)
         | Some padded \<Rightarrow>
             queue_bytes (encode_fields order
               ([F8 0, F8 (of_nat (length reason)), F16 protocol_major, F16 protocol_minor,
                 F16 (of_nat (padded div 4))] @ map F8 (bytes_of reason) @ pad (padded - length reason))) c)"

definition setup_formats :: "wire_field list" where
  "setup_formats = concat (map (\<lambda>(depth, bits). [F8 depth, F8 bits, F8 32] @ pad 5)
     [(1, 1), (4, 8), (8, 8), (24, 32), (32, 32)])"

definition setup_depths :: "wire_field list" where
  "setup_depths = concat (map (\<lambda>depth.
     [F8 depth, F8 0, F16 (if depth = 24 then 1 else 0)] @ pad 4 @
     (if depth = 24
      then [F32 root_visual_id, F8 4, F8 8, F16 256, F32 0xff0000, F32 0xff00, F32 0xff] @ pad 4
      else [])) [1, 4, 8, 24, 32])"

definition setup_payload :: "byte_order \<Rightarrow> u32 \<Rightarrow> server_state \<Rightarrow> wire_field list" where
  "setup_payload host client s =
     (let image_order = (if host = Little then 0 else 1)
      in [F32 1, F32 client, F32 client_resource_mask, F32 0, F16 4,
          F16 (of_nat maximum_core_request_units), F8 1, F8 5, F8 image_order, F8 image_order,
          F8 32, F8 32, F8 8, F8 255] @ pad 4 @ map F8 (bytes_of ''Xmin'') @ setup_formats @
         [F32 root_window_id, F32 default_colormap_id, F32 0xffffff, F32 0, F32 0,
          i16 (ssWidth s), i16 (ssHeight s), i16 (millimetres (ssWidth s)), i16 (millimetres (ssHeight s)),
          F16 1, F16 1, F32 root_visual_id, F8 0, F8 0, F8 24, F8 5] @ setup_depths)"

definition send_setup_success ::
  "byte_order \<Rightarrow> byte_order \<Rightarrow> connection \<Rightarrow> server_state \<Rightarrow> error_code option \<times> connection" where
  "send_setup_success host order c s =
     (let payload = encode_fields order (setup_payload host (cnClient c) s)
      in if length payload mod 4 \<noteq> 0 \<or> length payload div 4 > 65535 then (Some ErrMalformed, c)
         else queue_bytes (encode_fields order
                ([F8 1, F8 0, F16 protocol_major, F16 protocol_minor, F16 (of_nat (length payload div 4))]) @
                payload) c)"

type_synonym progress = "(error_code + bool) \<times> connection \<times> server_state"

text \<open>After a refused handshake the input is dropped and the connection closes once the answer is sent.\<close>

definition refuse_setup :: "byte_order \<Rightarrow> string \<Rightarrow> connection \<Rightarrow> server_state \<Rightarrow> progress" where
  "refuse_setup order reason c s =
     (case send_setup_failure order reason c of
        (Some err, c1) \<Rightarrow> (Inl err, c1, s)
      | (None, c1) \<Rightarrow> (Inr True, close_after_output (c1\<lparr>cnInput := []\<rparr>), s))"

definition byte_order_of :: "u8 \<Rightarrow> byte_order option" where
  "byte_order_of b = (if b = of_char CHR ''l'' then Some Little
     else if b = of_char CHR ''B'' then Some Big else None)"

definition process_setup_prefix :: "connection \<Rightarrow> server_state \<Rightarrow> progress" where
  "process_setup_prefix c s =
     (if length (cnInput c) < 12 then (Inr False, c, s)
      else case byte_order_of (cnInput c ! 0) of
             None \<Rightarrow> (Inl ErrMalformed, c, s)
           | Some order \<Rightarrow>
               (case fst (read_fields [K8, K8, K16, K16, K16, K16] (wire_reader_init (take 12 (cnInput c)) order)) of
                  Some [F8 _, F8 _, F16 major, F16 minor, F16 name_size, F16 data_size] \<Rightarrow>
                    (let c1 = (consume_input 12 c)\<lparr>cnOrder := Some order\<rparr>
                     in if major \<noteq> protocol_major \<or> minor \<noteq> protocol_minor
                        then refuse_setup order ''X11 protocol 11.0 required'' c1 s
                        else case (padded_to_four (unat name_size), padded_to_four (unat data_size)) of
                               (Some name, Some data) \<Rightarrow>
                                 if name > 1024 \<or> data > 1024 then (Inl ErrMalformed, c1, s)
                                 else (Inr True, c1\<lparr>cnSetupPayload := name + data, cnSetupName := unat name_size,
                                         cnSetupData := unat data_size, cnSetupPaddedName := name,
                                         cnState := SetupAuthentication\<rparr>, s)
                             | _ \<Rightarrow> (Inl ErrMalformed, c1, s))
                | _ \<Rightarrow> (Inl ErrMalformed, c, s)))"

definition authenticated :: "connection \<Rightarrow> u8 list \<Rightarrow> u8 list \<Rightarrow> bool" where
  "authenticated c name data =
     (if cnAllowUnauthenticated c then name = [] \<and> data = []
      else cnCookie c \<noteq> [] \<and> name = cookie_protocol \<and> cookies_equal data (cnCookie c))"

definition process_setup_authentication :: "byte_order \<Rightarrow> connection \<Rightarrow> server_state \<Rightarrow> progress" where
  "process_setup_authentication host c s =
     (if length (cnInput c) < cnSetupPayload c then (Inr False, c, s)
      else case cnOrder c of
             None \<Rightarrow> (Inl ErrMalformed, c, s)
           | Some order \<Rightarrow>
               let name = take (cnSetupName c) (cnInput c);
                   data = take (cnSetupData c) (drop (cnSetupPaddedName c) (cnInput c));
                   c1 = consume_input (cnSetupPayload c) c
               in if \<not> authenticated c1 name data then refuse_setup order ''Authentication failed'' c1 s
                  else let (registered, s1) = register_client (cnClient c1) s
                       in if \<not> registered then (Inl ErrBusy, c1, s1)
                          else case send_setup_success host order c1 s1 of
                                 (Some err, c2) \<Rightarrow> (Inl err, c2, s1)
                               | (None, c2) \<Rightarrow> (Inr True, c2\<lparr>cnState := Requests\<rparr>, s1))"

subsection \<open>Requests\<close>

text \<open>The size of a request in bytes from its length in four-byte units; 0 when it does not fit.\<close>

definition request_bytes :: "nat \<Rightarrow> nat" where
  "request_bytes units = (case checked_multiply 64 (int units) 4 of None \<Rightarrow> 0 | Some n \<Rightarrow> nat n)"

text \<open>An incomplete request is put back: the sequence number was advanced for it.\<close>

definition await_input :: "connection \<Rightarrow> server_state \<Rightarrow> progress" where
  "await_input c s =
     (let c1 = c\<lparr>cnSequence := cnSequence c - 1\<rparr>
      in (Inr False, c1, note_client_sequence (cnClient c1) (cnSequence c1) s))"

definition bad_length :: u8 where "bad_length = 16"

definition run_request ::
  "request_handler \<Rightarrow> byte_order \<Rightarrow> u8 \<Rightarrow> u8 \<Rightarrow> nat \<Rightarrow> nat \<Rightarrow> nat \<Rightarrow> connection \<Rightarrow> server_state \<Rightarrow> progress option" where
  "run_request dispatch order opcode data header_size request_size maximum_size c s =
     (if request_size < header_size \<or> request_size > maximum_size
      then Some (case send_error order bad_length opcode (cnSequence c) 0 0 c of
                   (Some err, c1) \<Rightarrow> (Inl err, c1, s)
                 | (None, c1) \<Rightarrow> (Inr True, close_after_output (c1\<lparr>cnInput := []\<rparr>), s))
      else if length (cnInput c) < request_size then Some (await_input c s)
      else let input = cnInput c;
               request = (if header_size = 4 then take request_size input
                          else take 4 input @ drop header_size (take request_size input));
               context = \<lparr>rcOrder = order, rcOpcode = opcode, rcData = data, rcSequence = cnSequence c,
                          rcRequest = request\<rparr>
           in map_option (\<lambda>(err, c1, s1). (case err of Some e \<Rightarrow> Inl e | None \<Rightarrow> Inr True, c1, s1))
                (dispatch context (consume_input request_size c) (advance_time s)))"

definition process_request :: "request_handler \<Rightarrow> connection \<Rightarrow> server_state \<Rightarrow> progress option" where
  "process_request dispatch c s =
     (if length (cnInput c) < 4 then Some (Inr False, c, s)
      else case cnOrder c of
             None \<Rightarrow> Some (Inl ErrMalformed, c, s)
           | Some order \<Rightarrow>
               (case fst (read_fields [K8, K8, K16] (wire_reader_init (take 4 (cnInput c)) order)) of
                  Some [F8 opcode, F8 data, F16 units] \<Rightarrow>
                    (let c1 = c\<lparr>cnSequence := cnSequence c + 1\<rparr>;
                         s1 = note_client_sequence (cnClient c1) (cnSequence c1) s
                     in if units = 0
                        then if \<not> cnBigRequests c1
                             then let c2 = consume_input 4 c1
                                  in Some (case send_error order bad_length opcode (cnSequence c2) 0 0 c2 of
                                             (Some err, c3) \<Rightarrow> (Inl err, c3, s1)
                                           | (None, c3) \<Rightarrow> (Inr True, c3, s1))
                             else if length (cnInput c1) < 8 then Some (await_input c1 s1)
                             else case fst (rd_u32 (wire_reader_init (take 4 (drop 4 (cnInput c1))) order)) of
                                    None \<Rightarrow> Some (Inl ErrMalformed, c1, s1)
                                  | Some extended \<Rightarrow>
                                      run_request dispatch order opcode data 8 (request_bytes (unat extended))
                                        maximum_extended_request_bytes c1 s1
                        else run_request dispatch order opcode data 4 (request_bytes (unat units))
                               maximum_core_request_bytes c1 s1)
                | _ \<Rightarrow> Some (Inl ErrMalformed, c, s)))"

subsection \<open>The loops\<close>

definition process_step :: "byte_order \<Rightarrow> request_handler \<Rightarrow> connection \<Rightarrow> server_state \<Rightarrow> progress option" where
  "process_step host dispatch c s =
     (case cnState c of
        SetupPrefix \<Rightarrow> Some (process_setup_prefix c s)
      | SetupAuthentication \<Rightarrow> Some (process_setup_authentication host c s)
      | Requests \<Rightarrow> process_request dispatch c s)"

definition suspended :: "connection \<Rightarrow> server_state \<Rightarrow> bool" where
  "suspended c s \<longleftrightarrow> cnState c = Requests \<and> sync_waiting s (cnClient c)"

partial_function (option) process_loop ::
  "byte_order \<Rightarrow> request_handler \<Rightarrow> connection \<Rightarrow> server_state \<Rightarrow> outcome option" where
  "process_loop host dispatch c s =
     (if cnFinished c \<or> cnCloseAfterOutput c \<or> suspended c s then Some (None, c, s)
      else case (if cnState c = Requests then drain_pending_events c s else (None, c, s)) of
             (Some err, c1, s1) \<Rightarrow> Some (Some err, c1, s1)
           | (None, c1, s1) \<Rightarrow>
               Option.bind (process_step host dispatch c1 s1) (\<lambda>(result, c2, s2).
                 case result of
                   Inl err \<Rightarrow> Some (Some err, c2, s2)
                 | Inr advanced \<Rightarrow>
                     if \<not> advanced then Some (None, c2, s2)
                     else process_loop host dispatch
                            (if suspended c2 s2 then c2\<lparr>cnResumeSyncInput := True\<rparr> else c2) s2))"

definition process_input :: "byte_order \<Rightarrow> request_handler \<Rightarrow> connection \<Rightarrow> server_state \<Rightarrow> outcome option" where
  "process_input host dispatch c s =
     process_loop host dispatch
       (if cnState c = Requests \<and> \<not> sync_waiting s (cnClient c) then c\<lparr>cnResumeSyncInput := False\<rparr> else c) s"

text \<open>The results of \<open>recvmsg\<close> and \<open>write\<close> are given by the environment; an exhausted list stands for
  a socket that would block.\<close>

datatype read_result = ReadBytes "u8 list" | ReadEof | ReadInterrupted | ReadWouldBlock | ReadFailed

fun read_loop ::
  "byte_order \<Rightarrow> request_handler \<Rightarrow> read_result list \<Rightarrow> connection \<Rightarrow> server_state \<Rightarrow> outcome option" where
  "read_loop host dispatch [] c s = Some (None, c, s)"
| "read_loop host dispatch (ReadBytes bytes # results) c s =
     (if length (cnInput c) + length bytes > maximum_buffered_input then Some (Some ErrMalformed, c, s)
      else Option.bind (process_input host dispatch (c\<lparr>cnInput := cnInput c @ bytes\<rparr>) s) (\<lambda>(err, c1, s1).
        if err \<noteq> None \<or> cnCloseAfterOutput c1 \<or> suspended c1 s1 then Some (err, c1, s1)
        else read_loop host dispatch results c1 s1))"
| "read_loop host dispatch (ReadEof # results) c s =
     (if cnInput c \<noteq> [] \<or> cnState c \<noteq> Requests then Some (Some ErrUnexpectedEof, c, s)
      else Some (None, close_after_output c, s))"
| "read_loop host dispatch (ReadInterrupted # results) c s = read_loop host dispatch results c s"
| "read_loop host dispatch (ReadWouldBlock # results) c s = Some (None, c, s)"
| "read_loop host dispatch (ReadFailed # results) c s = Some (Some ErrIo, c, s)"

definition on_readable ::
  "byte_order \<Rightarrow> request_handler \<Rightarrow> read_result list \<Rightarrow> connection \<Rightarrow> server_state \<Rightarrow> outcome option" where
  "on_readable host dispatch results c s =
     (if cnFinished c \<or> cnCloseAfterOutput c \<or> suspended c s then Some (None, c, s)
      else read_loop host dispatch results c s)"

text \<open>\<open>Room n\<close>: the socket takes the bytes it is offered, but at most \<open>n\<close> of them.\<close>

datatype write_result = Room nat | WriteInterrupted | WriteWouldBlock | WriteFailed

definition send_descriptor :: "connection \<Rightarrow> bool" where
  "send_descriptor c \<longleftrightarrow> cnPendingFds c \<noteq> [] \<and> hd (cnPendingFds c) = cnOutputOffset c"

definition write_end :: "connection \<Rightarrow> nat" where
  "write_end c =
     (if send_descriptor c
      then if length (cnPendingFds c) > 1 then cnPendingFds c ! 1 else length (cnOutput c)
      else if cnPendingFds c \<noteq> [] then hd (cnPendingFds c) else length (cnOutput c))"

text \<open>Bytes as the socket sees them: a descriptor travels with the first byte of its message.\<close>

fun tagged :: "bool \<Rightarrow> u8 list \<Rightarrow> (u8 \<times> bool) list" where
  "tagged fd [] = []"
| "tagged fd (b # bs) = (b, fd) # map (\<lambda>b. (b, False)) bs"

fun write_loop :: "write_result list \<Rightarrow> connection \<Rightarrow> error_code option \<times> (u8 \<times> bool) list \<times> connection" where
  "write_loop results c =
     (if \<not> cnOutputOffset c < length (cnOutput c)
      then let c1 = c\<lparr>cnOutput := [], cnOutputOffset := 0\<rparr>
           in if cnPendingFds c1 \<noteq> [] then (Some ErrMalformed, [], c1)
              else (None, [], if cnCloseAfterOutput c1 then c1\<lparr>cnFinished := True\<rparr> else c1)
      else if cnPendingFds c \<noteq> [] \<and> hd (cnPendingFds c) < cnOutputOffset c then (Some ErrMalformed, [], c)
      else case results of
             [] \<Rightarrow> (None, [], c)
           | WriteInterrupted # later \<Rightarrow> write_loop later c
           | WriteWouldBlock # later \<Rightarrow> (None, [], c)
           | WriteFailed # later \<Rightarrow> (Some ErrIo, [], c)
           | Room n # later \<Rightarrow>
               let count = min n (write_end c - cnOutputOffset c)
               in if count = 0 then (Some ErrIo, [], c)
                  else let sent = tagged (send_descriptor c) (take count (drop (cnOutputOffset c) (cnOutput c)));
                           c1 = c\<lparr>cnOutputOffset := cnOutputOffset c + count,
                                  cnPendingFds := (if send_descriptor c then tl (cnPendingFds c) else cnPendingFds c)\<rparr>;
                           (err, rest, c2) = write_loop later c1
                       in (err, sent @ rest, c2))"

declare write_loop.simps [simp del]

definition on_writable ::
  "byte_order \<Rightarrow> request_handler \<Rightarrow> write_result list \<Rightarrow> connection \<Rightarrow> server_state \<Rightarrow>
     (error_code option \<times> (u8 \<times> bool) list \<times> connection \<times> server_state) option" where
  "on_writable host dispatch results c s =
     (case drain_pending_events c s of
        (Some err, c1, s1) \<Rightarrow> Some (Some err, [], c1, s1)
      | (None, c1, s1) \<Rightarrow>
          Option.bind (if cnResumeSyncInput c1 \<and> \<not> sync_waiting s1 (cnClient c1) \<and> cnInput c1 \<noteq> []
                       then process_input host dispatch c1 s1 else Some (None, c1, s1)) (\<lambda>(err, c2, s2).
            case err of
              Some e \<Rightarrow> Some (Some e, [], c2, s2)
            | None \<Rightarrow>
                (case drain_pending_events c2 s2 of
                   (Some e, c3, s3) \<Rightarrow> Some (Some e, [], c3, s3)
                 | (None, c3, s3) \<Rightarrow>
                     let (e, sent, c4) = write_loop results c3 in Some (e, sent, c4, s3))))"

definition wants_input :: "connection \<Rightarrow> server_state \<Rightarrow> bool" where
  "wants_input c s \<longleftrightarrow> \<not> cnFinished c \<and> \<not> cnCloseAfterOutput c \<and> \<not> suspended c s"

definition wants_output :: "connection \<Rightarrow> server_state \<Rightarrow> bool" where
  "wants_output c s \<longleftrightarrow> \<not> cnFinished c \<and>
     (cnOutputOffset c < length (cnOutput c) \<or>
      (\<not> cnCloseAfterOutput c \<and> cnState c = Requests \<and> cnOrder c \<noteq> None \<and> has_pending_event s (cnClient c)) \<or>
      (\<not> cnCloseAfterOutput c \<and> cnResumeSyncInput c \<and> \<not> suspended c s \<and> cnInput c \<noteq> []))"

end
