(* ===== verification/Connection_Stream.thy ===== *)
theory Connection_Stream
  imports Connection Selections
begin

text \<open>
  What a client of \<open>Connection\<close> receives.  Its events wait in the server's queue and its replies in
  the output buffer; \<open>stream\<close> reads the two as one sequence of bytes, each marked with whether a
  descriptor travels with it.  Queuing appends to it, writing removes from its front, and draining
  the queue into the buffer leaves it as it is: two buffers in a row refine one.
\<close>

subsection \<open>The output buffer\<close>

definition output_ok :: "connection \<Rightarrow> bool" where
  "output_ok c \<longleftrightarrow> cnOutputOffset c \<le> length (cnOutput c) \<and> sorted_wrt (<) (cnPendingFds c) \<and>
     (\<forall>m \<in> set (cnPendingFds c). cnOutputOffset c \<le> m \<and> m < length (cnOutput c))"

definition unsent :: "connection \<Rightarrow> (u8 \<times> bool) list" where
  "unsent c = map (\<lambda>i. (cnOutput c ! i, i \<in> set (cnPendingFds c))) [cnOutputOffset c..<length (cnOutput c)]"

lemma length_unsent: "length (unsent c) = length (cnOutput c) - cnOutputOffset c"
  by (simp add: unsent_def)

lemma nth_unsent:
  "i < length (cnOutput c) - cnOutputOffset c \<Longrightarrow>
   unsent c ! i = (cnOutput c ! (cnOutputOffset c + i), cnOutputOffset c + i \<in> set (cnPendingFds c))"
  by (simp add: unsent_def)

lemma unsent_bytes: "map fst (unsent c) = drop (cnOutputOffset c) (cnOutput c)"
  by (intro nth_equalityI) (simp_all add: length_unsent nth_unsent)

lemma length_tagged [simp]: "length (tagged fd bytes) = length bytes"
  by (cases bytes) simp_all

lemma nth_tagged: "i < length bytes \<Longrightarrow> tagged fd bytes ! i = (bytes ! i, fd \<and> i = 0)"
  by (cases bytes; cases i) simp_all

lemma compact_output_offset [simp]: "cnOutputOffset (compact_output c) = 0"
  by (simp add: compact_output_def)

lemma compact_markers:
  assumes "output_ok c" "cnOutputOffset c \<noteq> length (cnOutput c)"
  shows "cnPendingFds (compact_output c) = map (\<lambda>m. m - cnOutputOffset c) (cnPendingFds c)"
  using assms by (auto simp: compact_output_def output_ok_def)

lemma compact_end:
  "output_ok c \<Longrightarrow> cnOutputOffset c = length (cnOutput c) \<Longrightarrow>
   cnOutput (compact_output c) = [] \<and> cnPendingFds (compact_output c) = []"
  by (cases "cnPendingFds c") (auto simp: compact_output_def output_ok_def)

lemma compact_output_bytes: "cnOutput (compact_output c) = drop (cnOutputOffset c) (cnOutput c)"
  by (simp add: compact_output_def)

lemma compact_output_ok:
  assumes ok: "output_ok c"
  shows "output_ok (compact_output c)"
proof (cases "cnOutputOffset c = length (cnOutput c)")
  case True
  with compact_end [OF ok] show ?thesis by (simp add: output_ok_def)
next
  case False
  have "sorted_wrt (\<lambda>x y. x - cnOutputOffset c < y - cnOutputOffset c) (cnPendingFds c)"
    using ok by (auto simp: output_ok_def intro!: diff_less_mono elim: sorted_wrt_mono_rel [rotated])
  with ok show ?thesis
    by (auto simp: output_ok_def compact_markers [OF ok False] compact_output_bytes sorted_wrt_map intro!: diff_less_mono)
qed

lemma compact_unsent:
  assumes ok: "output_ok c"
  shows "unsent (compact_output c) = unsent c"
proof (cases "cnOutputOffset c = length (cnOutput c)")
  case True
  with compact_end [OF ok] show ?thesis by (simp add: unsent_def)
next
  case False
  have mem: "i \<in> (\<lambda>m. m - cnOutputOffset c) ` set (cnPendingFds c) \<longleftrightarrow> cnOutputOffset c + i \<in> set (cnPendingFds c)" for i
    using ok by (force simp: output_ok_def image_iff)
  show ?thesis
    by (intro nth_equalityI)
      (simp_all add: length_unsent nth_unsent compact_output_bytes compact_markers [OF ok False] mem add.commute)
qed

definition appended :: "bool \<Rightarrow> u8 list \<Rightarrow> connection \<Rightarrow> connection" where
  "appended fd bytes c = c\<lparr>cnPendingFds := cnPendingFds c @ (if fd then [length (cnOutput c)] else []),
     cnOutput := cnOutput c @ bytes\<rparr>"

lemma appended_ok: "output_ok c \<Longrightarrow> bytes \<noteq> [] \<Longrightarrow> output_ok (appended fd bytes c)"
  by (auto simp: output_ok_def appended_def sorted_wrt_append intro: trans_less_add1)

lemma appended_unsent:
  assumes ok: "output_ok c"
  shows "unsent (appended fd bytes c) = unsent c @ tagged fd bytes"
proof (intro nth_equalityI)
  fix i assume i: "i < length (unsent (appended fd bytes c))"
  show "unsent (appended fd bytes c) ! i = (unsent c @ tagged fd bytes) ! i"
  proof (cases "i < length (unsent c)")
    case True
    then show ?thesis using i by (auto simp: nth_append nth_unsent length_unsent appended_def)
  next
    case False
    then have le: "length (cnOutput c) \<le> cnOutputOffset c + i" using ok by (simp add: length_unsent output_ok_def)
    with i ok have "cnOutputOffset c + i \<notin> set (cnPendingFds c)" by (auto simp: output_ok_def)
    with False i le ok show ?thesis
      by (auto simp: nth_append nth_unsent length_unsent appended_def nth_tagged output_ok_def add.commute)
  qed
qed (use ok in \<open>simp add: length_unsent appended_def output_ok_def\<close>)

lemma queue_bytes_cases:
  "queue_bytes bytes c = (err, c') \<Longrightarrow>
   (bytes = [] \<and> err = None \<and> c' = c) \<or>
   (bytes \<noteq> [] \<and> err = Some ErrIo \<and> c' = compact_output c) \<or>
   (bytes \<noteq> [] \<and> err = None \<and> c' = appended False bytes (compact_output c))"
  by (auto simp: queue_bytes_def Let_def appended_def split: option.splits if_splits)

lemma queue_with_fd_cases:
  "queue_with_fd bytes valid_fd c = (err, c') \<Longrightarrow>
   (err = Some ErrInvalidArgument \<and> c' = c) \<or> (err = Some ErrIo \<and> c' = compact_output c) \<or>
   (bytes \<noteq> [] \<and> err = None \<and> c' = appended True bytes (compact_output c))"
  by (auto simp: queue_with_fd_def Let_def appended_def split: option.splits if_splits)

lemma queue_bytes_unsent:
  assumes "queue_bytes bytes c = (err, c')" "output_ok c"
  shows "output_ok c'" "unsent c' = unsent c @ (if err = None then tagged False bytes else [])"
  using queue_bytes_cases [OF assms(1)] assms(2)
  by (auto simp: appended_ok appended_unsent compact_output_ok compact_unsent)

lemma queue_with_fd_unsent:
  assumes "queue_with_fd bytes valid_fd c = (err, c')" "output_ok c"
  shows "output_ok c'" "unsent c' = unsent c @ (if err = None then tagged True bytes else [])"
  using queue_with_fd_cases [OF assms(1)] assms(2)
  by (auto simp: appended_ok appended_unsent compact_output_ok compact_unsent)

subsection \<open>The queue and the buffer\<close>

definition queued_bytes :: "connection \<Rightarrow> server_state \<Rightarrow> (u8 \<times> bool) list" where
  "queued_bytes c s = concat (map (\<lambda>e. tagged False (encode_event (cnOrder c) e)) (queued_events s (cnClient c)))"

definition stream :: "connection \<Rightarrow> server_state \<Rightarrow> (u8 \<times> bool) list" where
  "stream c s = unsent c @ queued_bytes c s"

lemma next_event_queued: "next_event s k = (case queued_events s k of [] \<Rightarrow> None | e # _ \<Rightarrow> Some e)"
  by (auto simp: next_event_def queued_events_def split: option.splits list.splits)

lemma queued_pop: "queued_events (pop_event k s) k' = (if k' = k then tl (queued_events s k) else queued_events s k')"
  by (auto simp: pop_event_def queued_events_def split: option.splits list.splits)

text \<open>What queuing and draining leave alone.\<close>

definition output_only :: "connection \<Rightarrow> connection \<Rightarrow> bool" where
  "output_only c c' \<longleftrightarrow> c' = c\<lparr>cnOutput := cnOutput c', cnOutputOffset := cnOutputOffset c', cnPendingFds := cnPendingFds c'\<rparr>"

definition queues_only :: "server_state \<Rightarrow> server_state \<Rightarrow> bool" where
  "queues_only s s' \<longleftrightarrow> s' = s\<lparr>ssEventQueues := ssEventQueues s', ssPendingEvents := ssPendingEvents s'\<rparr>"

lemma output_only_refl [simp]: "output_only c c"
  by (simp add: output_only_def)

lemma output_only_trans: "output_only c1 c2 \<Longrightarrow> output_only c2 c3 \<Longrightarrow> output_only c1 c3"
  unfolding output_only_def by (cases c1; cases c2; cases c3) simp

lemma output_onlyD:
  assumes "output_only c c'"
  shows "cnClient c' = cnClient c" "cnOrder c' = cnOrder c" "cnInput c' = cnInput c" "cnState c' = cnState c"
    "cnSequence c' = cnSequence c" "cnBigRequests c' = cnBigRequests c" "cnFinished c' = cnFinished c"
    "cnCloseAfterOutput c' = cnCloseAfterOutput c" "cnSetupPayload c' = cnSetupPayload c"
  by (subst assms [unfolded output_only_def], simp)+

lemma queues_only_refl [simp]: "queues_only s s"
  by (simp add: queues_only_def)

lemma queues_only_trans: "queues_only s1 s2 \<Longrightarrow> queues_only s2 s3 \<Longrightarrow> queues_only s1 s3"
  unfolding queues_only_def by (cases s1; cases s2; cases s3) simp

lemma pop_event_queues_only [simp]: "queues_only s (pop_event k s)"
  by (auto simp: queues_only_def pop_event_def split: option.splits list.splits)

lemma queue_bytes_frame: "queue_bytes bytes c = (err, c') \<Longrightarrow> output_only c c'"
  using queue_bytes_cases [of bytes c err c']
  by (cases c) (auto simp: appended_def compact_output_def output_only_def)

lemma drain_pending_events_run:
  assumes "drain_pending_events c s = (err, c', s')" "output_ok c"
  shows "output_ok c' \<and> stream c' s' = stream c s \<and> output_only c c' \<and> queues_only s s' \<and>
     (queues_ok s \<longrightarrow> queues_ok s') \<and> (err = None \<longrightarrow> queued_events s' (cnClient c) = []) \<and>
     (\<forall>k. k \<noteq> cnClient c \<longrightarrow> queued_events s' k = queued_events s k)"
  using assms
proof (induction c s arbitrary: err c' s' rule: drain_pending_events.induct)
  case (1 c s)
  show ?case
  proof (cases "queued_events s (cnClient c)")
    case Nil
    with "1.prems" show ?thesis
      by (auto simp: next_event_queued drain_pending_events.simps [of c])
  next
    case (Cons e es)
    then have next_e: "next_event s (cnClient c) = Some e" by (simp add: next_event_queued)
    let ?bytes = "encode_event (cnOrder c) e"
    show ?thesis
    proof (cases "length ?bytes < 32 \<or> length ?bytes mod 4 \<noteq> 0")
      case True
      with "1.prems" next_e show ?thesis by (auto simp: drain_pending_events.simps [of c])
    next
      case False
      obtain err1 c1 where q: "queue_bytes ?bytes c = (err1, c1)" by fastforce
      note c1 = queue_bytes_frame [OF q] and unsent = queue_bytes_unsent [OF q "1.prems"(2)]
      show ?thesis
      proof (cases err1)
        case (Some err2)
        with "1.prems"(1) next_e False q have r: "err = Some err2" "c' = c1" "s' = s"
          by (simp_all add: drain_pending_events.simps [of c])
        have "stream c1 s = stream c s"
          using unsent(2) Some output_onlyD [OF c1] by (simp add: stream_def queued_bytes_def)
        with r unsent(1) c1 show ?thesis by simp
      next
        case None
        let ?s1 = "pop_event (cnClient c) s"
        have run: "drain_pending_events c1 ?s1 = (err, c', s')"
          using "1.prems"(1) next_e False q None by (simp add: drain_pending_events.simps [of c])
        have "stream c1 ?s1 = stream c s"
          using unsent(2) None output_onlyD [OF c1] Cons by (simp add: stream_def queued_bytes_def queued_pop)
        with "1.IH" [OF next_e refl False q [symmetric, unfolded None] refl run unsent(1)]
        show ?thesis using output_onlyD(1) [OF c1] output_only_trans [OF c1]
            queues_only_trans [OF pop_event_queues_only] pop_event_ok [of s "cnClient c"] by (auto simp: queued_pop)
      qed
    qed
  qed
qed

subsection \<open>Writing\<close>

lemma write_end_ok:
  assumes ok: "output_ok c" and unsent: "cnOutputOffset c < length (cnOutput c)"
  shows "cnOutputOffset c < write_end c \<and> write_end c \<le> length (cnOutput c) \<and>
    (\<forall>i \<in> set (cnPendingFds c). i < write_end c \<longrightarrow> send_descriptor c \<and> i = cnOutputOffset c)"
proof (cases "cnPendingFds c")
  case Nil
  with unsent show ?thesis by (simp add: write_end_def send_descriptor_def)
next
  case (Cons m ms)
  with ok show ?thesis
    by (cases ms) (auto simp: output_ok_def write_end_def send_descriptor_def)
qed

lemma write_step:
  assumes ok: "output_ok c" and more: "cnOutputOffset c < length (cnOutput c)" and n: "0 < n" "n \<le> write_end c - cnOutputOffset c"
    and c1: "c1 = c\<lparr>cnOutputOffset := cnOutputOffset c + n,
      cnPendingFds := (if send_descriptor c then tl (cnPendingFds c) else cnPendingFds c)\<rparr>"
  shows "output_ok c1 \<and>
    unsent c = tagged (send_descriptor c) (take n (drop (cnOutputOffset c) (cnOutput c))) @ unsent c1"
proof -
  let ?o = "cnOutputOffset c" and ?out = "cnOutput c" and ?fds = "cnPendingFds c"
  note fin = write_end_ok [OF ok more]
  have len: "?o + n \<le> length ?out" using fin n by linarith
  have markers: "set (cnPendingFds c1) = {m \<in> set ?fds. ?o + n \<le> m}"
  proof (cases "send_descriptor c")
    case True
    then obtain ms where fds: "?fds = ?o # ms" by (cases ?fds) (auto simp: send_descriptor_def)
    have "?o + n \<le> m" if "m \<in> set ms" for m
    proof -
      have "?o < m" using ok that by (simp add: output_ok_def fds)
      then have "\<not> m < write_end c" using fin that unfolding fds by (metis list.set_intros(2) less_irrefl)
      with n show ?thesis by linarith
    qed
    then show ?thesis using n(1) by (auto simp: c1 True fds)
  next
    case False
    have "?o + n \<le> m" if "m \<in> set ?fds" for m
    proof -
      have "\<not> m < write_end c" using fin that False by blast
      with n show ?thesis by linarith
    qed
    then show ?thesis by (auto simp: c1 False)
  qed
  have "sorted_wrt (<) (cnPendingFds c1)"
    using ok c1 by (cases ?fds) (auto simp: output_ok_def)
  with markers len ok have "output_ok c1" by (auto simp: output_ok_def c1)
  moreover have "unsent c = tagged (send_descriptor c) (take n (drop ?o ?out)) @ unsent c1"
  proof (intro nth_equalityI)
    fix i assume i: "i < length (unsent c)"
    show "unsent c ! i = (tagged (send_descriptor c) (take n (drop ?o ?out)) @ unsent c1) ! i"
    proof (cases "i < n")
      case True
      have "?o \<in> set ?fds \<longleftrightarrow> send_descriptor c"
        using fin by (auto simp: send_descriptor_def) (metis hd_in_set)
      moreover have "?o + i \<in> set ?fds \<Longrightarrow> i = 0"
      proof -
        assume m: "?o + i \<in> set ?fds"
        have "?o + i < write_end c" using True n by linarith
        with fin m show ?thesis by fastforce
      qed
      ultimately have "?o + i \<in> set ?fds \<longleftrightarrow> send_descriptor c \<and> i = 0" by auto
      with True i len show ?thesis by (simp add: nth_append nth_unsent nth_tagged length_unsent)
    next
      case False
      with i len have "unsent c1 ! (i - n) = (?out ! (?o + i), ?o + i \<in> set (cnPendingFds c1))"
        by (subst nth_unsent) (simp_all add: length_unsent c1)
      with False i len show ?thesis by (simp add: nth_append nth_unsent length_unsent markers min_def)
    qed
  next
    have "min (length ?out - ?o) n = n" using len by linarith
    then show "length (unsent c) = length (tagged (send_descriptor c) (take n (drop ?o ?out)) @ unsent c1)"
      using len by (simp add: length_unsent c1)
  qed
  ultimately show ?thesis ..
qed

definition writes_only :: "connection \<Rightarrow> connection \<Rightarrow> bool" where
  "writes_only c c' \<longleftrightarrow> output_only (c\<lparr>cnFinished := cnFinished c'\<rparr>) c'"

lemma writes_only_trans: "writes_only c1 c2 \<Longrightarrow> writes_only c2 c3 \<Longrightarrow> writes_only c1 c3"
  unfolding writes_only_def output_only_def by (cases c1; cases c2; cases c3) simp

lemma writes_onlyD: "writes_only c c' \<Longrightarrow> cnClient c' = cnClient c \<and> cnOrder c' = cnOrder c"
  using output_onlyD(1,2) [of "c\<lparr>cnFinished := cnFinished c'\<rparr>" c'] by (simp add: writes_only_def)

text \<open>Without a descriptor marker out of order, writing never finds the connection malformed.\<close>

lemma write_loop_run:
  assumes "write_loop results c = (err, sent, c')" "output_ok c"
  shows "output_ok c' \<and> sent @ unsent c' = unsent c \<and> writes_only c c' \<and> err \<in> {None, Some ErrIo}"
  using assms
proof (induction results c arbitrary: err sent c' rule: write_loop.induct)
  case (1 results c)
  note run = "1.prems"(1) [unfolded write_loop.simps [of results c]] and ok = "1.prems"(2)
  have here: "output_ok c \<and> [] @ unsent c = unsent c \<and> writes_only c c" using ok by (simp add: writes_only_def)
  show ?case
  proof (cases "cnOutputOffset c < length (cnOutput c)")
    case False
    with ok have "cnPendingFds c = []" "cnOutputOffset c = length (cnOutput c)"
      by (cases "cnPendingFds c"; force simp: output_ok_def)+
    with run show ?thesis by (auto simp: output_ok_def unsent_def writes_only_def output_only_def Let_def split: if_splits)
  next
    case more: True
    have markers: "\<not> (cnPendingFds c \<noteq> [] \<and> hd (cnPendingFds c) < cnOutputOffset c)"
      using ok by (auto simp: output_ok_def) (metis hd_in_set not_less)
    show ?thesis
    proof (cases results)
      case Nil
      with run more markers here show ?thesis by auto
    next
      case (Cons r later)
      show ?thesis
      proof (cases r)
        case (Room n)
        define k where "k = min n (write_end c - cnOutputOffset c)"
        show ?thesis
        proof (cases "k = 0")
          case True
          with run more markers here show ?thesis by (auto simp: Cons Room k_def [symmetric])
        next
          case False
          define c1 where "c1 = c\<lparr>cnOutputOffset := cnOutputOffset c + k,
            cnPendingFds := (if send_descriptor c then tl (cnPendingFds c) else cnPendingFds c)\<rparr>"
          obtain err1 rest c2 where r: "write_loop later c1 = (err1, rest, c2)" by (cases "write_loop later c1")
          have step: "output_ok c1 \<and>
              unsent c = tagged (send_descriptor c) (take k (drop (cnOutputOffset c) (cnOutput c))) @ unsent c1"
            using write_step [OF ok more _ _ c1_def] False by (simp add: k_def)
          have "writes_only c c1" by (simp add: writes_only_def output_only_def c1_def)
          moreover have "output_ok c2 \<and> rest @ unsent c2 = unsent c1 \<and> writes_only c1 c2 \<and> err1 \<in> {None, Some ErrIo}"
            using "1.IH"(1) [OF _ _ Cons Room k_def _ refl c1_def r] r step more markers False by simp
          moreover have "err = err1" "c' = c2"
              "sent = tagged (send_descriptor c) (take k (drop (cnOutputOffset c) (cnOutput c))) @ rest"
            using run more markers False r by (simp_all add: Cons Room k_def [symmetric] c1_def [symmetric])
          ultimately show ?thesis using step writes_only_trans by auto
        qed
      next
        case WriteInterrupted
        with run more markers have "write_loop later c = (err, sent, c')" by (simp add: Cons)
        with "1.IH"(2) [OF _ _ Cons WriteInterrupted] more markers ok show ?thesis by simp
      qed (use run more markers here in \<open>auto simp: Cons\<close>)
    qed
  qed
qed

subsection \<open>Runs\<close>

text \<open>What happens to the stream of a connection: the server posts an event; a handler, before which
  the loop has drained the queue, answers, perhaps with a descriptor; the socket becomes writable.
  A run stops at the first failure.  It is observed in what the socket took and in what the server
  accepted for the client.\<close>

datatype channel_action = Post event_body | Answer "u8 list" | AnswerFd "u8 list" | Flush "write_result list"

type_synonym observed =
  "error_code option \<times> (u8 \<times> bool) list \<times> (u8 \<times> bool) list \<times> connection \<times> server_state"

definition posted_bytes :: "event_body \<Rightarrow> connection \<Rightarrow> server_state \<Rightarrow> (u8 \<times> bool) list" where
  "posted_bytes e c s = tagged False (encode_event (cnOrder c)
     \<lparr>ceBody = e, ceSequence = client_sequence s (cnClient c)\<rparr>)"

definition answer_with ::
  "bool \<Rightarrow> (connection \<Rightarrow> error_code option \<times> connection) \<Rightarrow> u8 list \<Rightarrow> connection \<Rightarrow> server_state \<Rightarrow> observed" where
  "answer_with fd queue bytes c s =
     (case drain_pending_events c s of
        (Some e, c1, s1) \<Rightarrow> (Some e, [], [], c1, s1)
      | (None, c1, s1) \<Rightarrow> (case queue c1 of
                            (Some e, c2) \<Rightarrow> (Some e, [], [], c2, s1)
                          | (None, c2) \<Rightarrow> (None, [], tagged fd bytes, c2, s1)))"

fun channel_act :: "channel_action \<Rightarrow> connection \<Rightarrow> server_state \<Rightarrow> observed" where
  "channel_act (Post e) c s =
     (let (queued, s1) = queue_event (cnClient c) e s
      in (None, [], if queued then posted_bytes e c s else [], c, s1))"
| "channel_act (Answer bytes) c s = answer_with False (queue_bytes bytes) bytes c s"
| "channel_act (AnswerFd bytes) c s = answer_with True (queue_with_fd bytes True) bytes c s"
| "channel_act (Flush results) c s =
     (case drain_pending_events c s of
        (Some e, c1, s1) \<Rightarrow> (Some e, [], [], c1, s1)
      | (None, c1, s1) \<Rightarrow> let (e, sent, c2) = write_loop results c1 in (e, sent, [], c2, s1))"

fun channel_run :: "channel_action list \<Rightarrow> connection \<Rightarrow> server_state \<Rightarrow> observed" where
  "channel_run [] c s = (None, [], [], c, s)"
| "channel_run (a # acts) c s =
     (case channel_act a c s of
        (Some e, sent, accepted, c1, s1) \<Rightarrow> (Some e, sent, accepted, c1, s1)
      | (None, sent, accepted, c1, s1) \<Rightarrow>
          let (e, sent', accepted', c2, s2) = channel_run acts c1 s1
          in (e, sent @ sent', accepted @ accepted', c2, s2))"

lemma posted_stream:
  assumes "queue_event (cnClient c) e s = (queued, s1)"
  shows "stream c s1 = stream c s @ (if queued then posted_bytes e c s else [])"
  using assms
  by (auto simp: queue_event_def stream_def queued_bytes_def posted_bytes_def queued_events_def split: if_splits)

lemma answer_with_run:
  assumes ok: "output_ok c" and run: "answer_with fd queue bytes c s = (err, sent, accepted, c', s')"
    and queue: "\<And>c e c'. output_ok c \<Longrightarrow> queue c = (e, c') \<Longrightarrow>
      output_ok c' \<and> output_only c c' \<and> unsent c' = unsent c @ (if e = None then tagged fd bytes else [])"
  shows "output_ok c' \<and> sent @ stream c' s' = stream c s @ accepted"
proof -
  obtain e1 c1 s1 where d: "drain_pending_events c s = (e1, c1, s1)" by (cases "drain_pending_events c s")
  note drained = drain_pending_events_run [OF d ok]
  show ?thesis
  proof (cases e1)
    case Some
    with d drained run show ?thesis by (simp add: answer_with_def)
  next
    case None
    obtain e2 c2 where q: "queue c1 = (e2, c2)" by (cases "queue c1")
    note queued = queue [OF drained [THEN conjunct1] q]
    have "queued_bytes c1 s1 = []" "queued_bytes c2 s1 = []"
      using drained None queued output_onlyD(1) by (auto simp: queued_bytes_def)
    with d drained run None q queued show ?thesis
      by (auto simp: answer_with_def stream_def split: option.splits)
  qed
qed

lemma channel_act_run:
  assumes ok: "output_ok c" and run: "channel_act a c s = (err, sent, accepted, c', s')"
  shows "output_ok c' \<and> sent @ stream c' s' = stream c s @ accepted"
proof (cases a)
  case (Post e)
  then show ?thesis using run ok posted_stream by (auto split: prod.splits)
next
  case (Answer bytes)
  show ?thesis
    using answer_with_run [OF ok run [unfolded Answer channel_act.simps]] queue_bytes_unsent queue_bytes_frame by blast
next
  case (AnswerFd bytes)
  have "output_only c c'" if "queue_with_fd bytes True c = (e, c')" for c e c'
    using queue_with_fd_cases [OF that] by (cases c) (auto simp: appended_def compact_output_def output_only_def)
  then show ?thesis
    using answer_with_run [OF ok run [unfolded AnswerFd channel_act.simps]] queue_with_fd_unsent by blast
next
  case (Flush results)
  obtain e1 c1 s1 where d: "drain_pending_events c s = (e1, c1, s1)" by (cases "drain_pending_events c s")
  note drained = drain_pending_events_run [OF d ok]
  show ?thesis
  proof (cases e1)
    case Some
    with d drained run show ?thesis by (simp add: Flush)
  next
    case None
    obtain e2 sent2 c2 where w: "write_loop results c1 = (e2, sent2, c2)" by (cases "write_loop results c1")
    note written = write_loop_run [OF w drained [THEN conjunct1]]
    have "queued_bytes c1 s1 = []" "queued_bytes c2 s1 = []"
      using drained None written writes_onlyD output_onlyD(1) by (auto simp: queued_bytes_def)
    with d drained run None w written show ?thesis by (auto simp: Flush stream_def)
  qed
qed


definition one_connection :: connection where
  "one_connection = \<lparr>cnClient = 0x200000, cnCookie = [], cnAllowUnauthenticated = True, cnState = Requests,
     cnOrder = Some Little, cnInput = [], cnOutput = [], cnOutputOffset = 0, cnPendingFds = [], cnSetupPayload = 0,
     cnSetupName = 0, cnSetupData = 0, cnSetupPaddedName = 0, cnSequence = 0, cnBigRequests = False,
     cnResumeSyncInput = False, cnCloseAfterOutput = False, cnFinished = False\<rparr>"

definition connected_state :: server_state where
  "connected_state = snd (register_client 0x200000 (initial_state 640 480 0))"

lemma connected_queue: "queued_events connected_state k = []"
  by (simp add: connected_state_def queued_events_def register_client_def initial_state_def)

lemma connected_drain: "queued_events s (cnClient c) = [] \<Longrightarrow> drain_pending_events c s = (None, c, s)"
  by (simp add: drain_pending_events.simps [of c] next_event_queued)

definition half_sent :: connection where
  "half_sent = one_connection\<lparr>cnOutput := [1, 2, 3, 4], cnOutputOffset := 3\<rparr>"

lemma half_sent_run:
  "channel_run [AnswerFd [1, 2, 3, 4], Flush [Room 3]] one_connection connected_state =
     (None, [(1, True), (2, False), (3, False)], [(1, True), (2, False), (3, False), (4, False)], half_sent, connected_state)"
proof -
  let ?c = "one_connection\<lparr>cnOutput := [1, 2, 3, 4], cnPendingFds := [0]\<rparr>"
  have "queue_with_fd [1, 2, 3, 4] True one_connection = (None, ?c)"
    by (simp add: queue_with_fd_def compact_output_def checked_add_unsigned_def u_max_def maximum_buffered_output_def)
      (simp add: one_connection_def)
  then have answer: "channel_act (AnswerFd [1, 2, 3, 4]) one_connection connected_state =
      (None, [], [(1, True), (2, False), (3, False), (4, False)], ?c, connected_state)"
    by (simp add: answer_with_def connected_drain connected_queue)
  have "write_loop [Room 3] ?c = (None, [(1, True), (2, False), (3, False)], half_sent)"
    by (simp add: write_loop.simps write_end_def send_descriptor_def half_sent_def)
      (simp add: one_connection_def write_loop.simps)
  then have "channel_act (Flush [Room 3]) ?c connected_state =
      (None, [(1, True), (2, False), (3, False)], [], half_sent, connected_state)"
    by (simp add: connected_drain connected_queue)
  with answer show ?thesis by (simp del: channel_act.simps)
qed


subsection \<open>What the channel accepts\<close>

lemma event_frame_length:
  assumes "event_typed (ceBody e)"
  shows "\<not> (length (encode_event (Some order) e) < 32 \<or> length (encode_event (Some order) e) mod 4 \<noteq> 0)"
proof -
  obtain fs where fs: "event_fields (ceSequence e) (ceBody e) = Some fs" "framed (ceSequence e) fs"
    using event_framed [OF assms] by blast
  then obtain code detail items k where "fs = F8 code # F8 detail # F16 (ceSequence e) # items"
      "sum_list (map field_width items) = 28 + 4 * k"
    unfolding framed_def by (metis mult_0_right add_0_right)
  then have "length (encode_event (Some order) e) = 32 + 4 * k"
    by (simp add: encode_event_def fs(1) length_encode_fields)
  then show ?thesis by simp
qed

lemma queue_bytes_room:
  assumes "queue_bytes bytes c = (err, c')" "length (unsent c) + length bytes \<le> maximum_buffered_output"
  shows "err = None"
  using assms
  by (auto simp: queue_bytes_def Let_def compact_output_bytes length_unsent checked_add_unsigned_def
      maximum_buffered_output_def u_max_def split: if_splits option.splits)

lemma drain_pending_events_delivers:
  assumes "output_ok c" "cnOrder c = Some order" "\<And>e. e \<in> set (queued_events s (cnClient c)) \<Longrightarrow> event_typed (ceBody e)"
    "length (stream c s) \<le> maximum_buffered_output"
  shows "fst (drain_pending_events c s) = None"
  using assms
proof (induction c s rule: drain_pending_events.induct)
  case (1 c s)
  show ?case
  proof (cases "queued_events s (cnClient c)")
    case Nil
    then show ?thesis by (simp add: next_event_queued drain_pending_events.simps [of c])
  next
    case (Cons e es)
    then have next_e: "next_event s (cnClient c) = Some e" by (simp add: next_event_queued)
    let ?bytes = "encode_event (cnOrder c) e"
    have len: "\<not> (length ?bytes < 32 \<or> length ?bytes mod 4 \<noteq> 0)"
      using event_frame_length "1.prems"(2,3) Cons by auto
    obtain err1 c1 where q: "queue_bytes ?bytes c = (err1, c1)" by fastforce
    have "length (unsent c) + length ?bytes \<le> maximum_buffered_output"
      using "1.prems"(4) Cons by (simp add: stream_def queued_bytes_def)
    then have room: "err1 = None" using q queue_bytes_room "1.prems"(1) by blast
    note c1 = queue_bytes_frame [OF q] and unsent = queue_bytes_unsent [OF q "1.prems"(1)]
    let ?s1 = "pop_event (cnClient c) s"
    have "length (stream c1 ?s1) = length (stream c s)"
      using unsent(2) room output_onlyD [OF c1] Cons by (simp add: stream_def queued_bytes_def queued_pop)
    moreover have "fst (drain_pending_events c s) = fst (drain_pending_events c1 ?s1)"
      using next_e len q room by (simp add: drain_pending_events.simps [of c])
    moreover note "1.IH" [OF next_e refl len q [symmetric, unfolded room] refl unsent(1)]
    ultimately show ?thesis
      using "1.prems" output_onlyD [OF c1] Cons by (simp add: queued_pop)
  qed
qed

fun conversion_event :: "event_body \<Rightarrow> bool" where
  "conversion_event (EvSelection (SelectionRequest _ _ _ _ _ _)) \<longleftrightarrow> True"
| "conversion_event (EvSelection (SelectionNotify _ _ _ _ _)) \<longleftrightarrow> True"
| "conversion_event _ \<longleftrightarrow> False"

lemma conversion_event_short:
  assumes "conversion_event (ceBody e)"
  shows "length (encode_event order e) < 32"
proof -
  have "\<exists>fs. event_fields (ceSequence e) (ceBody e) = Some fs \<and> sum_list (map field_width fs) = 28"
    using assms by (cases "ceBody e" rule: conversion_event.cases) auto
  then show ?thesis by (auto simp: encode_event_def length_encode_fields split: option.splits)
qed

lemma conversion_event_blocks:
  assumes "e \<in> set (queued_events s (cnClient c))" "conversion_event (ceBody e)"
  shows "fst (drain_pending_events c s) \<noteq> None"
  using assms
proof (induction c s rule: drain_pending_events.induct)
  case (1 c s)
  obtain e1 es where q: "queued_events s (cnClient c) = e1 # es" using "1.prems"(1) by (cases "queued_events s (cnClient c)") auto
  then have next_e: "next_event s (cnClient c) = Some e1" by (simp add: next_event_queued)
  let ?bytes = "encode_event (cnOrder c) e1"
  obtain err1 c1 where b: "queue_bytes ?bytes c = (err1, c1)" by fastforce
  show ?case
  proof (cases "(length ?bytes < 32 \<or> length ?bytes mod 4 \<noteq> 0) \<or> err1 \<noteq> None")
    case True
    with next_e b show ?thesis by (auto simp: drain_pending_events.simps [of c] Let_def)
  next
    case False
    then have len: "\<not> (length ?bytes < 32 \<or> length ?bytes mod 4 \<noteq> 0)" and none: "err1 = None" by blast+
    have "e \<noteq> e1" using len conversion_event_short "1.prems"(2) by blast
    with "1.prems"(1) q have "e \<in> set (queued_events (pop_event (cnClient c) s) (cnClient c1))"
      using output_onlyD(1) [OF queue_bytes_frame [OF b]] by (simp add: queued_pop)
    from "1.IH" [OF next_e refl len b [symmetric, unfolded none] refl this "1.prems"(2)] next_e len b none
    show ?thesis by (simp add: drain_pending_events.simps [of c])
  qed
qed

text \<open>Who receives the event of a conversion: the owner of the selection, or without one the requestor.\<close>

definition conversion_recipient :: "u32 \<Rightarrow> u32 \<Rightarrow> server_state \<Rightarrow> u32" where
  "conversion_recipient client selection s =
     (case umap_find selection (ssSelections s) of
        None \<Rightarrow> client
      | Some r \<Rightarrow> if slWindow r = 0 then client else slClient r)"

lemma queue_event_queued:
  "queue_event k event s = (True, s') \<Longrightarrow>
   \<lparr>ceBody = event, ceSequence = client_sequence s k\<rparr> \<in> set (queued_events s' k)"
  by (auto simp: queue_event_def queued_events_def Let_def split: if_splits)

lemma conversion_queued:
  assumes "convert_selection client requestor selection target property time s = (Delivered, s')"
  shows "\<exists>e \<in> set (queued_events s' (conversion_recipient client selection s)). conversion_event (ceBody e)"
proof -
  obtain event where "queue_event (conversion_recipient client selection s) event s = (True, s')" "conversion_event event"
    using assms by (force simp: convert_selection_def conversion_recipient_def Let_def split: option.splits if_splits prod.splits)
  from queue_event_queued [OF this(1)] this(2) show ?thesis by (metis client_event.select_convs(1))
qed

text \<open>C40. Converting a selection ends a connection.  When \<open>convert_selection\<close> reports that its event
  is delivered, the connection of its recipient, the owner of the selection or the requestor itself,
  can no longer drain its queue, in whatever state it is: the next time the socket is writable, or
  the next time it reads bytes of a request, it fails, and nothing more is sent.\<close>

theorem converted_selection_ends_connection:
  assumes converted: "convert_selection client requestor selection target property time s = (Delivered, s')"
    and recipient: "cnClient c = conversion_recipient client selection s"
  shows "fst (drain_pending_events c s') \<noteq> None \<and>
    (\<exists>err c2 s2. on_writable host dispatch writes c s' = Some (Some err, [], c2, s2)) \<and>
    (cnState c = Requests \<and> wants_input c s' \<longrightarrow>
       (\<exists>err c2 s2. on_readable host dispatch (ReadBytes bytes # reads) c s' = Some (Some err, c2, s2)))"
proof -
  have drain: "\<exists>err c2 s2. drain_pending_events c1 s' = (Some err, c2, s2)" if "cnClient c1 = cnClient c" for c1
  proof -
    have c1: "cnClient c1 = conversion_recipient client selection s" using that recipient by (rule trans)
    obtain e where "e \<in> set (queued_events s' (cnClient c1))" "conversion_event (ceBody e)"
      using conversion_queued [OF converted] unfolding c1 by blast
    from conversion_event_blocks [OF this] show ?thesis by (cases "drain_pending_events c1 s'") auto
  qed
  have "\<exists>err c2 s2. on_readable host dispatch (ReadBytes bytes # reads) c s' = Some (Some err, c2, s2)"
    if st: "cnState c = Requests" "wants_input c s'"
  proof (cases "length (cnInput c) + length bytes > maximum_buffered_input")
    case True
    with st show ?thesis by (simp add: on_readable_def wants_input_def)
  next
    case False
    let ?c = "c\<lparr>cnInput := cnInput c @ bytes, cnResumeSyncInput := False\<rparr>"
    obtain err c2 s2 where "drain_pending_events ?c s' = (Some err, c2, s2)" using drain [of ?c] by auto
    then have "process_input host dispatch (c\<lparr>cnInput := cnInput c @ bytes\<rparr>) s' = Some (Some err, c2, s2)"
      using st by (simp add: process_input_def wants_input_def suspended_def process_loop.simps [of _ _ ?c])
    with False st show ?thesis by (auto simp: on_readable_def wants_input_def)
  qed
  with drain [of c] show ?thesis by (auto simp: on_writable_def)
qed

theorem converted_selection_ends_connection_witness:
  "\<exists>s'. convert_selection 0x200000 root_window_id 1 2 3 0 connected_state = (Delivered, s') \<and>
     fst (drain_pending_events one_connection s') \<noteq> None"
proof -
  let ?convert = "convert_selection 0x200000 root_window_id 1 2 3 0 connected_state"
  have "fst ?convert = Delivered" "conversion_recipient 0x200000 1 connected_state = 0x200000"
    by (simp_all add: convert_selection_def conversion_recipient_def queue_event_def can_queue_event_def
        connected_state_def register_client_def initial_state_def Let_def maximum_pending_events_def)
  then show ?thesis
    using converted_selection_ends_connection [where client = "0x200000" and requestor = root_window_id and selection = 1 and
        target = 2 and property = 3 and time = 0 and s = connected_state and s' = "snd ?convert" and c = one_connection]
    by (intro exI [of _ "snd ?convert"]) (simp add: prod_eq_iff one_connection_def)
qed

end
