(* ===== verification/Requests.thy ===== *)
theory Requests
  imports Connection Selections Window_Properties Property_Data Atoms Window_Removal
begin

unbundle bit_operations_syntax

text \<open>
  The handlers of core requests on windows, properties, atoms and selections
  (\<^verbatim>\<open>src/server/connection.cpp\<close> and \<^verbatim>\<open>core_protocol.cpp\<close>, \<open>Connection::handle_*\<close>) and their table
  in \<open>dispatch\<close>.  A handler reads its arguments from the bytes of the request, checks them in the
  order of the code, calls the operation of the server and answers.  \<open>None\<close> says that the operation
  does not return.
\<close>

subsection \<open>Arguments and answers\<close>

definition bad_request :: u8 where "bad_request = 1"
definition bad_value :: u8 where "bad_value = 2"
definition bad_window :: u8 where "bad_window = 3"
definition bad_atom :: u8 where "bad_atom = 5"
definition bad_match :: u8 where "bad_match = 8"
definition bad_alloc :: u8 where "bad_alloc = 11"

text \<open>The reader over the request behind its header.\<close>

definition arguments :: "wire_kind list \<Rightarrow> request_context \<Rightarrow> wire_field list option" where
  "arguments ks ctx = fst (read_fields ks (wire_reader_init (drop 4 (rcRequest ctx)) (rcOrder ctx)))"

definition reject :: "u8 \<Rightarrow> u32 \<Rightarrow> request_handler" where
  "reject code value ctx c s =
     (let (err, c1) = send_error (rcOrder ctx) code (rcOpcode ctx) (rcSequence ctx) value 0 c in Some (err, c1, s))"

definition reply :: "wire_field list \<Rightarrow> request_handler" where
  "reply fs ctx c s = (let (err, c1) = queue_bytes (encode_fields (rcOrder ctx) fs) c in Some (err, c1, s))"

text \<open>A malformed request and one that needs no answer.\<close>

definition malformed :: request_handler where
  "malformed ctx c s = Some (Some ErrMalformed, c, s)"

definition succeed :: request_handler where
  "succeed ctx c s = Some (None, c, s)"

definition drain :: request_handler where
  "drain ctx c s = Some (drain_pending_events c s)"

text \<open>The end of the handlers that deliver events: a full queue is an allocation error.\<close>

definition delivered :: "request_context \<Rightarrow> connection \<Rightarrow> bool \<times> server_state \<Rightarrow> outcome option" where
  "delivered ctx c = (\<lambda>(full, t). if full then reject bad_alloc 0 ctx c t else drain ctx c t)"

abbreviation queue_full :: "event_delivery \<times> server_state \<Rightarrow> bool \<times> server_state" where
  "queue_full \<equiv> map_prod (\<lambda>d. d = QueueFull) id"

definition signed_word :: "u16 \<Rightarrow> int" where
  "signed_word v = (let widened = uint v in if widened \<le> 32767 then widened else widened - 65536)"

subsection \<open>Windows\<close>

definition handle_destroy_window :: request_handler where
  "handle_destroy_window ctx c s =
     (if length (rcRequest ctx) \<noteq> 8 then reject bad_length 0 ctx c s
      else case arguments [K32] ctx of
             Some [F32 k] \<Rightarrow>
               if window s k = None then reject bad_window k ctx c s
               else Option.bind (destroy_window k s) (\<lambda>r. delivered ctx c (queue_full r))
           | _ \<Rightarrow> malformed ctx c s)"

definition handle_destroy_subwindows :: request_handler where
  "handle_destroy_subwindows ctx c s =
     (if length (rcRequest ctx) \<noteq> 8 then reject bad_length 0 ctx c s
      else case arguments [K32] ctx of
             Some [F32 k] \<Rightarrow>
               if window s k = None then reject bad_window k ctx c s
               else Option.bind (destroy_subwindows k s) (\<lambda>r. delivered ctx c (queue_full r))
           | _ \<Rightarrow> malformed ctx c s)"

definition handle_change_save_set :: request_handler where
  "handle_change_save_set ctx c s =
     (if length (rcRequest ctx) \<noteq> 8 then reject bad_length 0 ctx c s
      else if rcData ctx > 1 then reject bad_value (ucast (rcData ctx)) ctx c s
      else case arguments [K32] ctx of
             Some [F32 k] \<Rightarrow>
               (case window s k of
                  None \<Rightarrow> reject bad_window k ctx c s
                | Some w \<Rightarrow>
                    if wnOwner w = cnClient c then reject bad_match 0 ctx c s
                    else let (updated, t) = alter_save_set (cnClient c) k (rcData ctx = 0) False True s
                         in if updated \<noteq> Updated then reject bad_alloc 0 ctx c t else succeed ctx c t)
           | _ \<Rightarrow> malformed ctx c s)"

definition handle_reparent_window :: request_handler where
  "handle_reparent_window ctx c s =
     (if length (rcRequest ctx) \<noteq> 16 then reject bad_length 0 ctx c s
      else case arguments [K32, K32, K16, K16] ctx of
             Some [F32 k, F32 p, F16 x, F16 y] \<Rightarrow>
               (if k = root_window_id then reject bad_window k ctx c s
                else case window s k of
                  None \<Rightarrow> reject bad_window k ctx c s
                | Some w \<Rightarrow>
                    (case window s p of
                       None \<Rightarrow> reject bad_window p ctx c s
                     | Some parent \<Rightarrow>
                         if wnClass parent = InputOnly \<and> wnClass w = InputOutput then reject bad_match 0 ctx c s
                         else Option.bind (reparent_window k p (signed_word x) (signed_word y) s) (\<lambda>(r, t).
                                if r = ReparentInvalid then reject bad_match 0 ctx c t
                                else delivered ctx c (r = ReparentQueueFull, t))))
           | _ \<Rightarrow> malformed ctx c s)"

definition handle_map_window :: request_handler where
  "handle_map_window ctx c s =
     (if length (rcRequest ctx) \<noteq> 8 then reject bad_length 0 ctx c s
      else case arguments [K32] ctx of
             Some [F32 k] \<Rightarrow>
               (case window s k of
                  None \<Rightarrow> reject bad_window k ctx c s
                | Some w \<Rightarrow>
                    (case redirect_map_request (cnClient c) w s of
                       (RedirectQueueFull, t) \<Rightarrow> reject bad_alloc 0 ctx c t
                     | (Redirected, t) \<Rightarrow> drain ctx c t
                     | (NotRedirected, t) \<Rightarrow>
                         Option.bind (set_window_mapped w True t) (\<lambda>r. delivered ctx c (queue_full r))))
           | _ \<Rightarrow> malformed ctx c s)"

definition handle_map_subwindows :: request_handler where
  "handle_map_subwindows ctx c s =
     (if length (rcRequest ctx) \<noteq> 8 then reject bad_length 0 ctx c s
      else case arguments [K32] ctx of
             Some [F32 k] \<Rightarrow>
               if window s k = None then reject bad_window k ctx c s
               else Option.bind (set_subwindows_mapped k True s) (\<lambda>r. delivered ctx c (queue_full r))
           | _ \<Rightarrow> malformed ctx c s)"

definition handle_unmap_window :: request_handler where
  "handle_unmap_window ctx c s =
     (if length (rcRequest ctx) \<noteq> 8 then reject bad_length 0 ctx c s
      else case arguments [K32] ctx of
             Some [F32 k] \<Rightarrow>
               (case window s k of
                  None \<Rightarrow> reject bad_window k ctx c s
                | Some w \<Rightarrow> Option.bind (set_window_mapped w False s) (\<lambda>r. delivered ctx c (queue_full r)))
           | _ \<Rightarrow> malformed ctx c s)"

definition handle_unmap_subwindows :: request_handler where
  "handle_unmap_subwindows ctx c s =
     (if length (rcRequest ctx) \<noteq> 8 then reject bad_length 0 ctx c s
      else case arguments [K32] ctx of
             Some [F32 k] \<Rightarrow>
               if window s k = None then reject bad_window k ctx c s
               else Option.bind (set_subwindows_mapped k False s) (\<lambda>r. delivered ctx c (queue_full r))
           | _ \<Rightarrow> malformed ctx c s)"

definition handle_circulate_window :: request_handler where
  "handle_circulate_window ctx c s =
     (if length (rcRequest ctx) \<noteq> 8 then reject bad_length 0 ctx c s
      else if rcData ctx > 1 then reject bad_value (ucast (rcData ctx)) ctx c s
      else case arguments [K32] ctx of
             Some [F32 k] \<Rightarrow>
               (case window s k of
                  None \<Rightarrow> reject bad_window k ctx c s
                | Some w \<Rightarrow>
                    (case redirect_circulate_request (cnClient c) w (rcData ctx = 0) s of
                       (RedirectQueueFull, t) \<Rightarrow> reject bad_alloc 0 ctx c t
                     | (Redirected, t) \<Rightarrow> drain ctx c t
                     | (NotRedirected, t) \<Rightarrow> delivered ctx c (queue_full (circulate_window k (rcData ctx = 0) t))))
           | _ \<Rightarrow> malformed ctx c s)"

definition handle_query_tree :: request_handler where
  "handle_query_tree ctx c s =
     (if length (rcRequest ctx) \<noteq> 8 then reject bad_length 0 ctx c s
      else case arguments [K32] ctx of
             Some [F32 k] \<Rightarrow>
               (case window s k of
                  None \<Rightarrow> reject bad_window k ctx c s
                | Some w \<Rightarrow>
                    let n = length (wnChildren w)
                    in if n > 65535 then Some (Some ErrIo, c, s)
                       else reply ([F8 1, F8 0, F16 (rcSequence ctx), F32 (of_nat n), F32 root_window_id,
                              F32 (wnParent w), F16 (of_nat n)] @ pad 14 @ map F32 (wnChildren w)) ctx c s)
           | _ \<Rightarrow> malformed ctx c s)"

subsection \<open>Atoms\<close>

definition padding :: "nat \<Rightarrow> nat" where
  "padding n = (4 - n mod 4) mod 4"

definition string_of :: "u8 list \<Rightarrow> string" where
  "string_of bytes = map (\<lambda>b. char_of (unat b)) bytes"

definition handle_intern_atom :: request_handler where
  "handle_intern_atom ctx c s =
     (if length (rcRequest ctx) < 8 then reject bad_length 0 ctx c s
      else case arguments [K16, K16] ctx of
             Some [F16 name_size, F16 _] \<Rightarrow>
               if (case padded_to_four (unat name_size) of None \<Rightarrow> True
                   | Some padded \<Rightarrow> length (rcRequest ctx) \<noteq> 8 + padded)
               then reject bad_length 0 ctx c s
               else if rcData ctx > 1 \<or> name_size = 0 \<or> name_size > 1024
               then reject bad_value (if rcData ctx > 1 then ucast (rcData ctx) else ucast name_size) ctx c s
               else let name = string_of (take (unat name_size) (drop 8 (rcRequest ctx)));
                        (atom, atoms) = intern name (rcData ctx \<noteq> 0) (ssAtoms s);
                        t = s\<lparr>ssAtoms := atoms\<rparr>
                    in if atom = 0 \<and> rcData ctx = 0 then reject bad_alloc 0 ctx c t
                       else reply ([F8 1, F8 0, F16 (rcSequence ctx), F32 0, F32 atom] @ pad 20) ctx c t
           | _ \<Rightarrow> malformed ctx c s)"

definition handle_get_atom_name :: request_handler where
  "handle_get_atom_name ctx c s =
     (if length (rcRequest ctx) \<noteq> 8 then reject bad_length 0 ctx c s
      else case arguments [K32] ctx of
             Some [F32 atom] \<Rightarrow>
               (case atom_name atom (ssAtoms s) of
                  None \<Rightarrow> reject bad_atom atom ctx c s
                | Some name \<Rightarrow>
                    let n = length name
                    in reply ([F8 1, F8 0, F16 (rcSequence ctx), F32 (of_nat ((n + 3) div 4)), F16 (of_nat n)] @
                         pad 22 @ map F8 (bytes_of name) @ pad (padding n)) ctx c s)
           | _ \<Rightarrow> malformed ctx c s)"

subsection \<open>Properties\<close>

text \<open>The new data of a property, by the mode of the request: 0 replace, 1 prepend, 2 append.\<close>

definition combined_data :: "u8 \<Rightarrow> property_value option \<Rightarrow> u8 list \<Rightarrow> u8 list" where
  "combined_data mode existing canonical =
     (if mode = 1 then canonical else []) @
     (case existing of Some v \<Rightarrow> if mode \<noteq> 0 then pvData v else [] | None \<Rightarrow> []) @
     (if mode \<noteq> 1 then canonical else [])"

definition change_property ::
  "request_context \<Rightarrow> window_record \<Rightarrow> u32 \<Rightarrow> u32 \<Rightarrow> nat \<Rightarrow> u8 list \<Rightarrow> connection \<Rightarrow> server_state \<Rightarrow> outcome option" where
  "change_property ctx w property type format canonical c s =
     (let existing = umap_find property (wnProperties w);
          previous_size = (case existing of None \<Rightarrow> 0 | Some v \<Rightarrow> length (pvData v));
          combined_size = (if rcData ctx = 0 then Some (int (length canonical))
                           else checked_add_unsigned 64 (int previous_size) (int (length canonical)))
      in if (case existing of None \<Rightarrow> False
             | Some v \<Rightarrow> rcData ctx \<noteq> 0 \<and> (pvType v \<noteq> type \<or> pvFormat v \<noteq> format))
         then reject bad_match 0 ctx c s
         else if (case combined_size of None \<Rightarrow> True | Some n \<Rightarrow> n > int maximum_property_bytes)
         then reject bad_alloc 0 ctx c s
         else delivered ctx c (queue_full (set_property w property
                \<lparr>pvType = type, pvFormat = format, pvData = combined_data (rcData ctx) existing canonical\<rparr> s)))"

definition handle_change_property :: request_handler where
  "handle_change_property ctx c s =
     (if length (rcRequest ctx) < 24 then reject bad_length 0 ctx c s
      else case arguments [K32, K32, K32, K8, K8, K16, K32] ctx of
             Some [F32 k, F32 property, F32 type, F8 format, F8 _, F16 _, F32 item_count] \<Rightarrow>
               if rcData ctx > 2 then reject bad_value (ucast (rcData ctx)) ctx c s
               else if format \<noteq> 8 \<and> format \<noteq> 16 \<and> format \<noteq> 32 then reject bad_value (ucast format) ctx c s
               else (case window s k of
                  None \<Rightarrow> reject bad_window k ctx c s
                | Some w \<Rightarrow>
                    if atom_name property (ssAtoms s) = None then reject bad_atom property ctx c s
                    else if atom_name type (ssAtoms s) = None then reject bad_atom type ctx c s
                    else
                      let data_size = map_option nat (checked_multiply 64 (uint item_count) (uint format div 8));
                          padded_size = Option.bind data_size padded_to_four;
                          expected_size = Option.bind padded_size (\<lambda>n. checked_add_unsigned 64 24 (int n))
                      in case (data_size, expected_size) of
                           (Some n, Some expected) \<Rightarrow>
                             if int (length (rcRequest ctx)) \<noteq> expected then reject bad_length 0 ctx c s
                             else (case canonical_property_data (take n (drop 24 (rcRequest ctx)))
                                     (unat format) (rcOrder ctx) of
                                     None \<Rightarrow> malformed ctx c s
                                   | Some canonical \<Rightarrow>
                                       change_property ctx w property type (unat format) canonical c s)
                         | _ \<Rightarrow> reject bad_length 0 ctx c s)
           | _ \<Rightarrow> malformed ctx c s)"

definition handle_delete_property :: request_handler where
  "handle_delete_property ctx c s =
     (if length (rcRequest ctx) \<noteq> 12 then reject bad_length 0 ctx c s
      else case arguments [K32, K32] ctx of
             Some [F32 k, F32 property] \<Rightarrow>
               (case window s k of
                  None \<Rightarrow> reject bad_window k ctx c s
                | Some w \<Rightarrow>
                    if atom_name property (ssAtoms s) = None then reject bad_atom property ctx c s
                    else delivered ctx c (queue_full (delete_property w property s)))
           | _ \<Rightarrow> malformed ctx c s)"

text \<open>What \<open>GetProperty\<close> returns of a value: where it starts, how much, and how much is left; or the
  value the error reports.\<close>

definition property_window ::
  "property_value option \<Rightarrow> bool \<Rightarrow> u32 \<Rightarrow> u32 \<Rightarrow> u32 + nat \<times> nat \<times> nat" where
  "property_window value matching_type long_offset long_length =
     (case value of
        None \<Rightarrow> Inr (0, 0, 0)
      | Some v \<Rightarrow>
          (case checked_multiply 64 (uint long_offset) 4 of
             None \<Rightarrow> Inl long_offset
           | Some byte_offset \<Rightarrow>
               if byte_offset > int (length (pvData v)) then Inl long_offset
               else let offset = nat byte_offset
                    in if matching_type
                       then (case checked_multiply 64 (uint long_length) 4 of
                               None \<Rightarrow> Inl long_length
                             | Some maximum_bytes \<Rightarrow>
                                 let returned = min (nat maximum_bytes) (length (pvData v) - offset)
                                 in Inr (offset, returned, length (pvData v) - offset - returned))
                       else Inr (offset, 0, length (pvData v))))"

definition send_property ::
  "request_context \<Rightarrow> window_record \<Rightarrow> u32 \<Rightarrow> property_value option \<Rightarrow> bool \<Rightarrow> nat \<Rightarrow> u8 list \<Rightarrow>
     connection \<Rightarrow> server_state \<Rightarrow> outcome option" where
  "send_property ctx w property value matching_type bytes_after encoded c s =
     (let format = (case value of None \<Rightarrow> 0 | Some v \<Rightarrow> pvFormat v);
          unit = (if format = 0 then 1 else format div 8);
          fs = [F8 1, F8 (of_nat format), F16 (rcSequence ctx), F32 (of_nat ((length encoded + 3) div 4)),
                F32 (case value of None \<Rightarrow> 0 | Some v \<Rightarrow> pvType v), F32 (of_nat bytes_after),
                F32 (of_nat (length encoded div unit))] @ pad 12 @ map F8 encoded @ pad (padding (length encoded));
          (full, t) = (if rcData ctx \<noteq> 0 \<and> matching_type \<and> bytes_after = 0
                       then queue_full (delete_property w property s) else (False, s))
      in if full then reject bad_alloc 0 ctx c t
         else case queue_bytes (encode_fields (rcOrder ctx) fs) c of
                (Some err, c1) \<Rightarrow> Some (Some err, c1, t)
              | (None, c1) \<Rightarrow> drain ctx c1 t)"

definition handle_get_property :: request_handler where
  "handle_get_property ctx c s =
     (if length (rcRequest ctx) \<noteq> 24 then reject bad_length 0 ctx c s
      else case arguments [K32, K32, K32, K32, K32] ctx of
             Some [F32 k, F32 property, F32 requested_type, F32 long_offset, F32 long_length] \<Rightarrow>
               if rcData ctx > 1 then reject bad_value (ucast (rcData ctx)) ctx c s
               else (case window s k of
                  None \<Rightarrow> reject bad_window k ctx c s
                | Some w \<Rightarrow>
                    if atom_name property (ssAtoms s) = None then reject bad_atom property ctx c s
                    else if requested_type \<noteq> 0 \<and> atom_name requested_type (ssAtoms s) = None
                    then reject bad_atom requested_type ctx c s
                    else
                      let value = umap_find property (wnProperties w);
                          matching_type = (case value of None \<Rightarrow> False
                            | Some v \<Rightarrow> requested_type = 0 \<or> pvType v = requested_type)
                      in case property_window value matching_type long_offset long_length of
                           Inl v \<Rightarrow> reject bad_value v ctx c s
                         | Inr (offset, returned, bytes_after) \<Rightarrow>
                             Option.bind (case value of
                                 Some v \<Rightarrow> if matching_type \<and> returned \<noteq> 0
                                           then wire_property_data (take returned (drop offset (pvData v))) (pvFormat v) (rcOrder ctx)
                                           else Some []
                               | None \<Rightarrow> Some []) (\<lambda>encoded.
                               send_property ctx w property value matching_type bytes_after encoded c s))
           | _ \<Rightarrow> malformed ctx c s)"

definition handle_list_properties :: request_handler where
  "handle_list_properties ctx c s =
     (if length (rcRequest ctx) \<noteq> 8 then reject bad_length 0 ctx c s
      else case arguments [K32] ctx of
             Some [F32 k] \<Rightarrow>
               (case window s k of
                  None \<Rightarrow> reject bad_window k ctx c s
                | Some w \<Rightarrow>
                    let n = length (wnProperties w); properties = sort (map fst (wnProperties w))
                    in if n > 65535 then Some (Some ErrIo, c, s)
                       else reply ([F8 1, F8 0, F16 (rcSequence ctx), F32 (of_nat n), F16 (of_nat n)] @ pad 22 @
                              map F32 properties) ctx c s)
           | _ \<Rightarrow> malformed ctx c s)"

text \<open>The check of the rotated atoms, in their order: the first error, if there is one.\<close>

fun rotation_error :: "server_state \<Rightarrow> window_record \<Rightarrow> u32 list \<Rightarrow> u32 list \<Rightarrow> (u8 \<times> u32) option" where
  "rotation_error s w atoms [] = None"
| "rotation_error s w atoms (a # rest) =
     (if atom_name a (ssAtoms s) = None then Some (bad_atom, a)
      else if length (filter (\<lambda>b. b = a) atoms) > 1 then Some (bad_match, 0)
      else if umap_find a (wnProperties w) = None then Some (bad_match, a)
      else rotation_error s w atoms rest)"

text \<open>The remainder of C++ has the sign of the dividend.\<close>

definition rotation_delta :: "int \<Rightarrow> int \<Rightarrow> int" where
  "rotation_delta signed_delta count =
     (let delta = (if signed_delta < 0 then - ((- signed_delta) mod count) else signed_delta mod count)
      in if delta < 0 then delta + count else delta)"

definition handle_rotate_properties :: request_handler where
  "handle_rotate_properties ctx c s =
     (if length (rcRequest ctx) < 12 then reject bad_length 0 ctx c s
      else case arguments [K32, K16, K16] ctx of
             Some [F32 k, F16 atom_count, F16 encoded_delta] \<Rightarrow>
               if (case Option.bind (checked_multiply 64 (uint atom_count) 4) (checked_add_unsigned 64 12) of
                     None \<Rightarrow> True | Some expected \<Rightarrow> int (length (rcRequest ctx)) \<noteq> expected)
               then reject bad_length 0 ctx c s
               else (case window s k of
                  None \<Rightarrow> reject bad_window k ctx c s
                | Some w \<Rightarrow>
                    if atom_count = 0 then succeed ctx c s
                    else (case fst (read_fields (replicate (unat atom_count) K32)
                                (wire_reader_init (drop 12 (rcRequest ctx)) (rcOrder ctx))) of
                       None \<Rightarrow> malformed ctx c s
                     | Some fs \<Rightarrow>
                         let atoms = map (\<lambda>f. case f of F32 a \<Rightarrow> a | _ \<Rightarrow> 0) fs
                         in case rotation_error s w atoms atoms of
                              Some (code, value) \<Rightarrow> reject code value ctx c s
                            | None \<Rightarrow>
                                let delta = rotation_delta (signed_word encoded_delta) (uint atom_count)
                                in if delta = 0 then succeed ctx c s
                                   else Option.bind (rotate_properties w atoms (nat delta) s) (\<lambda>r.
                                          delivered ctx c (queue_full r))))
           | _ \<Rightarrow> malformed ctx c s)"

subsection \<open>Selections and messages\<close>

definition handle_set_selection_owner :: request_handler where
  "handle_set_selection_owner ctx c s =
     (if length (rcRequest ctx) \<noteq> 16 then reject bad_length 0 ctx c s
      else case arguments [K32, K32, K32] ctx of
             Some [F32 owner, F32 selection, F32 time] \<Rightarrow>
               if owner \<noteq> 0 \<and> window s owner = None then reject bad_window owner ctx c s
               else if atom_name selection (ssAtoms s) = None then reject bad_atom selection ctx c s
               else let (updated, t) = set_selection_owner selection owner (cnClient c) time s
                    in delivered ctx c (updated = SelEventQueueFull, t)
           | _ \<Rightarrow> malformed ctx c s)"

definition handle_get_selection_owner :: request_handler where
  "handle_get_selection_owner ctx c s =
     (if length (rcRequest ctx) \<noteq> 8 then reject bad_length 0 ctx c s
      else case arguments [K32] ctx of
             Some [F32 selection] \<Rightarrow>
               if atom_name selection (ssAtoms s) = None then reject bad_atom selection ctx c s
               else reply ([F8 1, F8 0, F16 (rcSequence ctx), F32 0, F32 (selection_owner s selection)] @ pad 20) ctx c s
           | _ \<Rightarrow> malformed ctx c s)"

text \<open>The first of the atoms that is neither 0 nor the name of one.\<close>

definition unknown_atom :: "server_state \<Rightarrow> u32 list \<Rightarrow> u32 option" where
  "unknown_atom s atoms = List.find (\<lambda>a. a \<noteq> 0 \<and> atom_name a (ssAtoms s) = None) atoms"

definition handle_convert_selection :: request_handler where
  "handle_convert_selection ctx c s =
     (if length (rcRequest ctx) \<noteq> 24 then reject bad_length 0 ctx c s
      else case arguments [K32, K32, K32, K32, K32] ctx of
             Some [F32 requestor, F32 selection, F32 target, F32 property, F32 time] \<Rightarrow>
               if window s requestor = None then reject bad_window requestor ctx c s
               else (case unknown_atom s [selection, target, property] of
                  Some atom \<Rightarrow> reject bad_atom atom ctx c s
                | None \<Rightarrow> delivered ctx c (queue_full
                    (convert_selection (cnClient c) requestor selection target property time s)))
           | _ \<Rightarrow> malformed ctx c s)"

definition all_masks :: u32 where "all_masks = 0x01ffffff"

definition message_kind :: "u8 \<Rightarrow> wire_kind" where
  "message_kind format = (if format = 8 then K8 else if format = 16 then K16 else K32)"

fun message_value :: "wire_field \<Rightarrow> u32" where
  "message_value (F8 v) = ucast v"
| "message_value (F16 v) = ucast v"
| "message_value (F32 v) = v"
| "message_value (F64 v) = 0"

definition handle_send_event :: request_handler where
  "handle_send_event ctx c s =
     (if length (rcRequest ctx) \<noteq> 44 then reject bad_length 0 ctx c s
      else if rcData ctx > 1 then reject bad_value (ucast (rcData ctx)) ctx c s
      else case arguments [K32, K32] ctx of
             Some [F32 requested, F32 event_mask] \<Rightarrow>
               if event_mask AND NOT all_masks \<noteq> 0 then reject bad_value event_mask ctx c s
               else
                 let destination = (if requested \<le> 1 then root_window_id else requested);
                     event_type = rcRequest ctx ! 12 AND 0x7f; format = rcRequest ctx ! 13;
                     event_reader = wire_reader_init (drop 16 (rcRequest ctx)) (rcOrder ctx)
                 in if window s destination = None then reject bad_window requested ctx c s
                    else if event_type \<noteq> 33 then reject bad_value (ucast event_type) ctx c s
                    else if format \<noteq> 8 \<and> format \<noteq> 16 \<and> format \<noteq> 32 then reject bad_value (ucast format) ctx c s
                    else (case fst (read_fields ([K32, K32] @ replicate (160 div unat format) (message_kind format)) event_reader) of
                            Some (F32 w # F32 type # items) \<Rightarrow>
                              let values = map message_value items;
                                  event = EvMessage (ClientMessage format w type (values @ replicate (20 - length values) 0))
                              in Option.bind (deliver_client_message destination event_mask (rcData ctx \<noteq> 0) event s) (\<lambda>(d, t).
                                   if d = QueueFull then reject bad_alloc 0 ctx c t else succeed ctx c t)
                          | _ \<Rightarrow> malformed ctx c s)
           | _ \<Rightarrow> malformed ctx c s)"

definition handle_no_operation :: request_handler where
  "handle_no_operation ctx c s = succeed ctx c s"

subsection \<open>The table\<close>

end
