(* ===== verification/Query_Requests.thy ===== *)
theory Query_Requests
  imports Requests Keyboard
begin

text \<open>
  The handlers of requests that ask for the state of the server and change nothing of it, or whose
  effect this server leaves out (\<^verbatim>\<open>connection.cpp\<close> and \<^verbatim>\<open>core_protocol.cpp\<close>, \<open>Connection::handle_*\<close>),
  and of the three extensions that only answer questions.
\<close>

definition bad_drawable :: u8 where "bad_drawable = 9"

text \<open>The head of a reply with one data byte.\<close>

definition head :: "request_context \<Rightarrow> u8 \<Rightarrow> u32 \<Rightarrow> wire_field list" where
  "head ctx data units = [F8 1, F8 data, F16 (rcSequence ctx), F32 units]"

text \<open>The pending events of the client go before the reply.\<close>

definition reply_after_events :: "wire_field list \<Rightarrow> request_handler" where
  "reply_after_events fs ctx c s =
     (let (err, c1, s1) = drain_pending_events c s
      in case err of Some e \<Rightarrow> Some (Some e, c1, s1) | None \<Rightarrow> reply fs ctx c1 s1)"

subsection \<open>Windows and the pointer\<close>

definition class_code :: "window_class \<Rightarrow> u16" where
  "class_code k = (case k of InputOutput \<Rightarrow> 1 | InputOnly \<Rightarrow> 2)"

definition handle_get_window_attributes :: request_handler where
  "handle_get_window_attributes ctx c s =
     (if length (rcRequest ctx) \<noteq> 8 then reject bad_length 0 ctx c s
      else case arguments [K32] ctx of
             Some [F32 k] \<Rightarrow>
               (case window s k of
                  None \<Rightarrow> reject bad_window k ctx c s
                | Some w \<Rightarrow>
                    Option.bind (map_state s k) (\<lambda>state.
                      reply (head ctx (wnBackingStore w) 3 @
                        [F32 (wnVisual w), F16 (class_code (wnClass w)), F8 (of_nat (wnBitGravity w)),
                         F8 (of_nat (wnWindowGravity w)), F32 (wnBackingPlanes w), F32 (wnBackingPixel w),
                         flag (wnSaveUnder w), flag (wnColormap w = ssInstalledColormap s), F8 (of_nat state),
                         flag (wnOverrideRedirect w), F32 (wnColormap w), F32 (all_event_masks w),
                         F32 (case umap_find (cnClient c) (wnEventMasks w) of None \<Rightarrow> 0 | Some m \<Rightarrow> m),
                         F16 (wnDoNotPropagateMask w)] @ pad 2) ctx c s))
           | _ \<Rightarrow> malformed ctx c s)"

definition handle_query_pointer :: request_handler where
  "handle_query_pointer ctx c s =
     (if length (rcRequest ctx) \<noteq> 8 then reject bad_length 0 ctx c s
      else case arguments [K32] ctx of
             Some [F32 k] \<Rightarrow>
               (case window s k of
                  None \<Rightarrow> reject bad_window k ctx c s
                | Some w \<Rightarrow>
                    let x = inPointerX (ssInput s); y = inPointerY (ssInput s)
                    in Option.bind (absolute_position s k) (\<lambda>(left, top).
                       Option.bind (map_state s k) (\<lambda>state.
                       Option.bind (if state = 2 \<and> left \<le> x \<and> x < left + wnWidth w \<and> top \<le> y \<and> y < top + wnHeight w
                                    then child_window_at s k x y else Some 0) (\<lambda>child.
                         reply (head ctx 1 0 @
                           [F32 root_window_id, F32 child, i16 (wire_coordinate x), i16 (wire_coordinate y),
                            i16 (wire_coordinate (x - left)), i16 (wire_coordinate (y - top)),
                            F16 (inModifierButtonMask (ssInput s))] @ pad 6) ctx c s))))
           | _ \<Rightarrow> malformed ctx c s)"

definition handle_get_motion_events :: request_handler where
  "handle_get_motion_events ctx c s =
     (if length (rcRequest ctx) \<noteq> 16 then reject bad_length 0 ctx c s
      else case arguments [K32, K32, K32] ctx of
             Some [F32 k, F32 _, F32 _] \<Rightarrow>
               if window s k = None then reject bad_window k ctx c s
               else reply (head ctx 0 0 @ [F32 0] @ pad 20) ctx c s
           | _ \<Rightarrow> malformed ctx c s)"

text \<open>The topmost mapped child around a point given in the coordinates of its parent.\<close>

definition child_around :: "server_state \<Rightarrow> int \<Rightarrow> int \<Rightarrow> u32 list \<Rightarrow> u32" where
  "child_around s x y children =
     (case List.find (\<lambda>k. case window s k of
          None \<Rightarrow> False
        | Some v \<Rightarrow> wnMapped v \<and> wnX v \<le> x \<and> wnY v \<le> y \<and> x < wnX v + wnWidth v \<and> y < wnY v + wnHeight v)
        (rev children) of
        None \<Rightarrow> 0
      | Some k \<Rightarrow> (case window s k of None \<Rightarrow> 0 | Some v \<Rightarrow> wnId v))"

definition handle_translate_coordinates :: request_handler where
  "handle_translate_coordinates ctx c s =
     (if length (rcRequest ctx) \<noteq> 16 then reject bad_length 0 ctx c s
      else case arguments [K32, K32, K16, K16] ctx of
             Some [F32 source, F32 destination, F16 source_x, F16 source_y] \<Rightarrow>
               if window s source = None then reject bad_window source ctx c s
               else (case window s destination of
                  None \<Rightarrow> reject bad_window destination ctx c s
                | Some w \<Rightarrow>
                    Option.bind (absolute_position s source) (\<lambda>(source_left, source_top).
                    Option.bind (absolute_position s destination) (\<lambda>(left, top).
                      let x = source_left + signed_word source_x - left;
                          y = source_top + signed_word source_y - top
                      in reply (head ctx 1 0 @ [F32 (child_around s x y (wnChildren w)),
                           i16 (wire_coordinate x), i16 (wire_coordinate y)] @ pad 16) ctx c s)))
           | _ \<Rightarrow> malformed ctx c s)"

text \<open>The smallest power of two that is not below a width.\<close>

function round_up :: "nat \<Rightarrow> nat \<Rightarrow> nat" where
  "round_up width rounded = (if 0 < rounded \<and> rounded < width then round_up width (2 * rounded) else rounded)"
  by pat_completeness auto

termination by (relation "measure (\<lambda>(width, rounded). width - rounded)") auto

declare round_up.simps [simp del]

definition best_size :: "u8 \<Rightarrow> int \<Rightarrow> int \<Rightarrow> u16 \<Rightarrow> u16 \<Rightarrow> u16 \<times> u16" where
  "best_size kind screen_width screen_height width height =
     (if kind = 0 then (word_of_int (min (uint width) screen_width), word_of_int (min (uint height) screen_height))
      else if width < 32 \<and> width AND (width - 1) \<noteq> 0 then (of_nat (round_up (unat width) 1), height)
      else (width, height))"

definition handle_query_best_size :: request_handler where
  "handle_query_best_size ctx c s =
     (if length (rcRequest ctx) \<noteq> 12 then reject bad_length 0 ctx c s
      else if rcData ctx > 2 then reject bad_value (ucast (rcData ctx)) ctx c s
      else case arguments [K32, K16, K16] ctx of
             Some [F32 drawable, F16 width, F16 height] \<Rightarrow>
               if window s drawable = None \<and> pixmap s drawable = None then reject bad_drawable drawable ctx c s
               else if rcData ctx \<noteq> 0 \<and> (case window s drawable of None \<Rightarrow> False | Some w \<Rightarrow> wnClass w = InputOnly)
               then reject bad_match 0 ctx c s
               else let (best_width, best_height) = best_size (rcData ctx) (ssWidth s) (ssHeight s) width height
                    in reply (head ctx 0 0 @ [F16 best_width, F16 best_height] @ pad 20) ctx c s
           | _ \<Rightarrow> malformed ctx c s)"

subsection \<open>Input devices\<close>

text \<open>The requests that consist of a header alone.\<close>

definition bare :: "(request_context \<Rightarrow> connection \<Rightarrow> server_state \<Rightarrow> wire_field list) \<Rightarrow> request_handler" where
  "bare answer ctx c s =
     (if length (rcRequest ctx) \<noteq> 4 then reject bad_length 0 ctx c s else reply (answer ctx c s) ctx c s)"

definition handle_get_keyboard_control :: request_handler where
  "handle_get_keyboard_control = bare (\<lambda>ctx c s. let i = ssInput s in
     head ctx (if inGlobalAutoRepeat i then 1 else 0) 5 @
     [F32 (inLedMask i), F8 (inKeyClickPercent i), F8 (inBellPercent i), i16 (inBellPitch i), i16 (inBellDuration i)] @
     pad 2 @ map F8 (inAutoRepeats i))"

definition handle_get_pointer_control :: request_handler where
  "handle_get_pointer_control = bare (\<lambda>ctx c s. let i = ssInput s in
     head ctx 0 0 @ [i16 (inPointerAccelerationNumerator i), i16 (inPointerAccelerationDenominator i),
                     i16 (inPointerThreshold i)] @ pad 18)"

definition handle_get_pointer_mapping :: request_handler where
  "handle_get_pointer_mapping ctx c s =
     (let buttons = inPointerMap (ssInput s)
      in if length (rcRequest ctx) \<noteq> 4 then reject bad_length 0 ctx c s
         else case padded_to_four (length buttons) of
                None \<Rightarrow> malformed ctx c s
              | Some padded \<Rightarrow>
                  reply (head ctx (of_nat (length buttons)) (of_nat (padded div 4)) @ pad 24 @ map F8 buttons @
                         pad (padded - length buttons)) ctx c s)"

definition handle_get_modifier_mapping :: request_handler where
  "handle_get_modifier_mapping = bare (\<lambda>ctx c s. let i = ssInput s in
     head ctx (of_nat (inModifierKeysPerGroup i)) (of_nat (length (inModifierMap i) div 4)) @ pad 24 @
     map F8 (inModifierMap i))"

definition handle_get_input_focus :: request_handler where
  "handle_get_input_focus = bare (\<lambda>ctx c s. let f = inFocus (ssInput s) in
     head ctx (of_nat (fsRevertTo f)) 0 @ [F32 (focus_wire_id f)] @ pad 20)"

definition handle_query_keymap :: request_handler where
  "handle_query_keymap = bare (\<lambda>ctx c s. head ctx 0 2 @ map F8 (inPressedKeys (ssInput s)))"

definition signed_byte :: "u8 \<Rightarrow> int" where
  "signed_byte v = (let widened = uint v in if widened \<le> 127 then widened else widened - 256)"

definition handle_bell :: request_handler where
  "handle_bell ctx c s =
     (if length (rcRequest ctx) \<noteq> 4 then reject bad_length 0 ctx c s
      else let percent = signed_byte (rcData ctx)
           in if percent < - 100 \<or> percent > 100 then reject bad_value (word_of_int percent) ctx c s
              else succeed ctx c s)"

subsection \<open>The screen saver and the host list\<close>

definition handle_get_screen_saver :: request_handler where
  "handle_get_screen_saver = bare (\<lambda>ctx c s. let v = ssScreenSaver s in
     head ctx 0 0 @ [i16 (svTimeout v), i16 (svInterval v), F8 (svPreferBlanking v), F8 (svAllowExposures v)] @ pad 18)"

definition handle_change_hosts :: request_handler where
  "handle_change_hosts ctx c s =
     (if rcData ctx > 1 \<or> length (rcRequest ctx) < 8
      then reject (if rcData ctx > 1 then bad_value else bad_length) (ucast (rcData ctx)) ctx c s
      else case arguments [K8, K8, K16] ctx of
             Some [F8 _, F8 _, F16 n] \<Rightarrow>
               if (case padded_to_four (unat n) of None \<Rightarrow> True | Some padded \<Rightarrow> length (rcRequest ctx) \<noteq> 8 + padded)
               then reject bad_length 0 ctx c s
               else succeed ctx c s
           | _ \<Rightarrow> malformed ctx c s)"

definition handle_list_hosts :: request_handler where
  "handle_list_hosts = bare (\<lambda>ctx c s.
     head ctx (if ssAccessControlEnabled s then 1 else 0) 0 @ [F16 0] @ pad 22)"

definition handle_set_close_down_mode :: request_handler where
  "handle_set_close_down_mode ctx c s =
     (if length (rcRequest ctx) \<noteq> 4 then reject bad_length 0 ctx c s
      else if rcData ctx > 2 then reject bad_value (ucast (rcData ctx)) ctx c s
      else succeed ctx c s)"

subsection \<open>Extensions\<close>

record extension_info =
  exName :: string
  exOpcode :: u8
  exFirstEvent :: u8
  exFirstError :: u8
  exMajorVersion :: u16
  exMinorVersion :: u16

text \<open>The registry in its order; MIT-SHM is in it when the build has shared memory.\<close>

definition extension_registry :: "bool \<Rightarrow> extension_info list" where
  "extension_registry mitshm =
     map (\<lambda>(name, opcode, event, err, major, minor).
            \<lparr>exName = name, exOpcode = opcode, exFirstEvent = event, exFirstError = err,
             exMajorVersion = major, exMinorVersion = minor\<rparr>)
     ([(''BIG-REQUESTS'', 128, 0, 0, 0, 0), (''XC-MISC'', 129, 0, 0, 1, 1),
       (''Generic Event Extension'', 130, 0, 0, 1, 0), (''XTEST'', 131, 0, 0, 2, 2), (''SHAPE'', 132, 64, 0, 1, 1),
       (''SYNC'', 133, 65, 128, 3, 1), (''RENDER'', 134, 0, 131, 0, 11), (''XFIXES'', 135, 67, 136, 6, 0),
       (''RANDR'', 136, 69, 138, 1, 6), (''DAMAGE'', 137, 71, 142, 1, 1), (''Composite'', 138, 0, 0, 0, 4),
       (''Present'', 139, 0, 0, 1, 4), (''XKEYBOARD'', 140, 72, 143, 1, 0), (''XInputExtension'', 141, 0, 144, 2, 4)] @
      (if mitshm then [(''MIT-SHM'', 142, 73, 149, 1, 2)] else []) @
      [(''XINERAMA'', 143, 0, 0, 1, 1), (''MIT-SCREEN-SAVER'', 144, 74, 0, 1, 1), (''DOUBLE-BUFFER'', 145, 0, 150, 1, 0),
       (''GLX'', 146, 75, 151, 1, 4)])"

definition extension_by_name :: "bool \<Rightarrow> string \<Rightarrow> extension_info option" where
  "extension_by_name mitshm name = List.find (\<lambda>e. exName e = name) (extension_registry mitshm)"

definition extension_by_opcode :: "bool \<Rightarrow> u8 \<Rightarrow> extension_info option" where
  "extension_by_opcode mitshm opcode = List.find (\<lambda>e. exOpcode e = opcode) (extension_registry mitshm)"

definition handle_query_extension :: "bool \<Rightarrow> request_handler" where
  "handle_query_extension mitshm ctx c s =
     (if length (rcRequest ctx) < 8 then reject bad_length 0 ctx c s
      else case arguments [K16, K16] ctx of
             Some [F16 n, F16 _] \<Rightarrow>
               if (case padded_to_four (unat n) of None \<Rightarrow> True | Some padded \<Rightarrow> length (rcRequest ctx) \<noteq> 8 + padded)
               then reject bad_length 0 ctx c s
               else reply (head ctx 0 0 @
                      (case extension_by_name mitshm (string_of (take (unat n) (drop 8 (rcRequest ctx)))) of
                         None \<Rightarrow> [F8 0, F8 0, F8 0, F8 0]
                       | Some e \<Rightarrow> [F8 1, F8 (exOpcode e), F8 (exFirstEvent e), F8 (exFirstError e)]) @ pad 20) ctx c s
           | _ \<Rightarrow> malformed ctx c s)"

definition handle_list_extensions :: "bool \<Rightarrow> request_handler" where
  "handle_list_extensions mitshm ctx c s =
     (let payload = concat (map (\<lambda>e. of_nat (length (exName e)) # bytes_of (exName e)) (extension_registry mitshm))
      in if length (rcRequest ctx) \<noteq> 4 then reject bad_length 0 ctx c s
         else case padded_to_four (length payload) of
                None \<Rightarrow> reject bad_alloc 0 ctx c s
              | Some padded \<Rightarrow>
                  reply (head ctx (of_nat (length (extension_registry mitshm))) (of_nat (padded div 4)) @ pad 24 @
                         map F8 payload @ pad (padded - length payload)) ctx c s)"

text \<open>The errors of extension requests carry the minor opcode.\<close>

definition refuse :: "u8 \<Rightarrow> request_handler" where
  "refuse code ctx c s =
     (let (err, c1) = send_error (rcOrder ctx) code (rcOpcode ctx) (rcSequence ctx) 0 (ucast (rcData ctx)) c
      in Some (err, c1, s))"

definition handle_big_requests :: request_handler where
  "handle_big_requests ctx c s =
     (if rcData ctx \<noteq> 0 then refuse bad_request ctx c s
      else if length (rcRequest ctx) \<noteq> 4 then refuse bad_length ctx c s
      else let (err, c1) = queue_bytes (encode_fields (rcOrder ctx)
                 (head ctx 0 0 @ [F32 (of_nat maximum_extended_request_units)] @ pad 20)) c
           in Some (err, if err = None then c1\<lparr>cnBigRequests := True\<rparr> else c1, s))"

definition handle_xc_misc :: request_handler where
  "handle_xc_misc ctx c s =
     (if rcData ctx = 0
      then if length (rcRequest ctx) \<noteq> 8 then refuse bad_length ctx c s
           else case arguments [K16, K16] ctx of
                  Some [F16 _, F16 _] \<Rightarrow> reply (head ctx 0 0 @ [F16 1, F16 1] @ pad 20) ctx c s
                | _ \<Rightarrow> malformed ctx c s
      else if rcData ctx = 1
      then if length (rcRequest ctx) \<noteq> 4 then refuse bad_length ctx c s
           else reply (head ctx 0 0 @ [F32 0, F32 0] @ pad 16) ctx c s
      else if rcData ctx = 2
      then if length (rcRequest ctx) \<noteq> 8 then refuse bad_length ctx c s
           else case arguments [K32] ctx of
                  Some [F32 _] \<Rightarrow> reply (head ctx 0 0 @ [F32 0] @ pad 20) ctx c s
                | _ \<Rightarrow> malformed ctx c s
      else refuse bad_request ctx c s)"

definition handle_generic_event :: request_handler where
  "handle_generic_event ctx c s =
     (if rcData ctx \<noteq> 0 then refuse bad_request ctx c s
      else if length (rcRequest ctx) \<noteq> 8 then refuse bad_length ctx c s
      else case arguments [K16, K16] ctx of
             Some [F16 _, F16 _] \<Rightarrow> reply (head ctx 0 0 @ [F16 1, F16 0] @ pad 20) ctx c s
           | _ \<Rightarrow> malformed ctx c s)"

end
