(* ===== verification/Color_Requests.thy ===== *)
theory Color_Requests
  imports Requests Color
begin

text \<open>
  The handlers of the colormap and color requests (\<^verbatim>\<open>connection.cpp\<close>, \<open>Connection::handle_*\<close>).  The
  server has one TrueColor visual, so colors are computed and nothing is allocated; a colormap is an
  identifier of the registry.
\<close>

definition bad_colormap :: u8 where "bad_colormap = 12"
definition bad_access :: u8 where "bad_access = 10"
definition bad_id_choice :: u8 where "bad_id_choice = 14"
definition bad_name :: u8 where "bad_name = 15"

subsection \<open>Colormaps\<close>

definition handle_create_colormap :: request_handler where
  "handle_create_colormap ctx c s =
     (if length (rcRequest ctx) \<noteq> 16 then reject bad_length 0 ctx c s
      else if rcData ctx > 1 then reject bad_value (ucast (rcData ctx)) ctx c s
      else case arguments [K32, K32, K32] ctx of
             Some [F32 rid, F32 k, F32 visual] \<Rightarrow>
               if \<not> valid_client_resource s rid (cnClient c) then reject bad_id_choice rid ctx c s
               else if resource_limit_reached s (cnClient c) then reject bad_alloc 0 ctx c s
               else (case window s k of
                  None \<Rightarrow> reject bad_window k ctx c s
                | Some w \<Rightarrow>
                    if wnClass w \<noteq> InputOutput \<or> visual \<noteq> root_visual_id \<or> rcData ctx \<noteq> 0
                    then reject bad_match 0 ctx c s
                    else let (added, t) = add_colormap rid (cnClient c) s
                         in if \<not> added then reject bad_alloc 0 ctx c t else succeed ctx c t)
           | _ \<Rightarrow> malformed ctx c s)"

definition handle_free_colormap :: request_handler where
  "handle_free_colormap ctx c s =
     (if length (rcRequest ctx) \<noteq> 8 then reject bad_length 0 ctx c s
      else case arguments [K32] ctx of
             Some [F32 rid] \<Rightarrow>
               if \<not> colormap_exists s rid then reject bad_colormap rid ctx c s
               else succeed ctx c (if rid \<noteq> default_colormap_id then snd (erase_colormap rid s) else s)
           | _ \<Rightarrow> malformed ctx c s)"

definition handle_copy_colormap :: request_handler where
  "handle_copy_colormap ctx c s =
     (if length (rcRequest ctx) \<noteq> 12 then reject bad_length 0 ctx c s
      else case arguments [K32, K32] ctx of
             Some [F32 rid, F32 source] \<Rightarrow>
               if \<not> valid_client_resource s rid (cnClient c) then reject bad_id_choice rid ctx c s
               else if \<not> colormap_exists s source then reject bad_colormap source ctx c s
               else if resource_limit_reached s (cnClient c) then reject bad_alloc 0 ctx c s
               else let (added, t) = add_colormap rid (cnClient c) s
                    in if \<not> added then reject bad_alloc 0 ctx c t else succeed ctx c t
           | _ \<Rightarrow> malformed ctx c s)"

definition install_colormap :: "u32 \<Rightarrow> server_state \<Rightarrow> server_state" where
  "install_colormap rid s = s\<lparr>ssInstalledColormap := rid\<rparr>"

definition handle_install_colormap :: request_handler where
  "handle_install_colormap ctx c s =
     (if length (rcRequest ctx) \<noteq> 8 then reject bad_length 0 ctx c s
      else case arguments [K32] ctx of
             Some [F32 rid] \<Rightarrow>
               if \<not> colormap_exists s rid then reject bad_colormap rid ctx c s
               else succeed ctx c (install_colormap rid s)
           | _ \<Rightarrow> malformed ctx c s)"

definition handle_uninstall_colormap :: request_handler where
  "handle_uninstall_colormap ctx c s =
     (if length (rcRequest ctx) \<noteq> 8 then reject bad_length 0 ctx c s
      else case arguments [K32] ctx of
             Some [F32 rid] \<Rightarrow>
               if \<not> colormap_exists s rid then reject bad_colormap rid ctx c s
               else succeed ctx c (if ssInstalledColormap s = rid then install_colormap default_colormap_id s else s)
           | _ \<Rightarrow> malformed ctx c s)"

definition handle_list_installed_colormaps :: request_handler where
  "handle_list_installed_colormaps ctx c s =
     (if length (rcRequest ctx) \<noteq> 8 then reject bad_length 0 ctx c s
      else case arguments [K32] ctx of
             Some [F32 k] \<Rightarrow>
               if window s k = None then reject bad_window k ctx c s
               else reply ([F8 1, F8 0, F16 (rcSequence ctx), F32 1, F16 1] @ pad 22 @ [F32 (ssInstalledColormap s)]) ctx c s
           | _ \<Rightarrow> malformed ctx c s)"

subsection \<open>Colors\<close>

definition rgb_fields :: "rgb_color \<Rightarrow> wire_field list" where
  "rgb_fields color = [F16 (rgbRed color), F16 (rgbGreen color), F16 (rgbBlue color)]"

definition handle_alloc_color :: request_handler where
  "handle_alloc_color ctx c s =
     (if length (rcRequest ctx) \<noteq> 16 then reject bad_length 0 ctx c s
      else case arguments [K32, K16, K16, K16, K16] ctx of
             Some [F32 colormap, F16 red, F16 green, F16 blue, F16 _] \<Rightarrow>
               if \<not> colormap_exists s colormap then reject bad_colormap colormap ctx c s
               else let pixel = true_color_pixel \<lparr>rgbRed = red, rgbGreen = green, rgbBlue = blue\<rparr>
                    in reply ([F8 1, F8 0, F16 (rcSequence ctx), F32 0] @ rgb_fields (true_color_rgb pixel) @ pad 2 @
                         [F32 pixel] @ pad 12) ctx c s
           | _ \<Rightarrow> malformed ctx c s)"

text \<open>The requests that name a color: the reply is written from the color of that name.\<close>

definition named_color :: "(rgb_color \<Rightarrow> wire_field list) \<Rightarrow> request_handler" where
  "named_color answer ctx c s =
     (if length (rcRequest ctx) < 12 then reject bad_length 0 ctx c s
      else case arguments [K32, K16, K16] ctx of
             Some [F32 colormap, F16 name_size, F16 _] \<Rightarrow>
               if (case padded_to_four (unat name_size) of
                     None \<Rightarrow> True | Some padded \<Rightarrow> length (rcRequest ctx) \<noteq> 12 + padded)
               then reject bad_length 0 ctx c s
               else if \<not> colormap_exists s colormap then reject bad_colormap colormap ctx c s
               else (case parse_color (string_of (take (unat name_size) (drop 12 (rcRequest ctx)))) of
                  None \<Rightarrow> reject bad_name 0 ctx c s
                | Some color \<Rightarrow> reply ([F8 1, F8 0, F16 (rcSequence ctx), F32 0] @ answer color) ctx c s)
           | _ \<Rightarrow> malformed ctx c s)"

definition handle_alloc_named_color :: request_handler where
  "handle_alloc_named_color = named_color (\<lambda>color.
     let pixel = true_color_pixel color
     in [F32 pixel] @ rgb_fields color @ rgb_fields (true_color_rgb pixel) @ pad 8)"

definition handle_lookup_color :: request_handler where
  "handle_lookup_color = named_color (\<lambda>color.
     rgb_fields color @ rgb_fields (true_color_rgb (true_color_pixel color)) @ pad 12)"

definition handle_alloc_color_cells :: request_handler where
  "handle_alloc_color_cells ctx c s =
     (if length (rcRequest ctx) \<noteq> 12 then reject bad_length 0 ctx c s
      else if rcData ctx > 1 then reject bad_value (ucast (rcData ctx)) ctx c s
      else case arguments [K32, K16, K16] ctx of
             Some [F32 colormap, F16 _, F16 _] \<Rightarrow>
               if \<not> colormap_exists s colormap then reject bad_colormap colormap ctx c s
               else reject bad_match 0 ctx c s
           | _ \<Rightarrow> malformed ctx c s)"

definition handle_alloc_color_planes :: request_handler where
  "handle_alloc_color_planes ctx c s =
     (if length (rcRequest ctx) \<noteq> 16 then reject bad_length 0 ctx c s
      else if rcData ctx > 1 then reject bad_value (ucast (rcData ctx)) ctx c s
      else case arguments [K32, K32, K32] ctx of
             Some [F32 colormap, F32 _, F32 _] \<Rightarrow>
               if \<not> colormap_exists s colormap then reject bad_colormap colormap ctx c s
               else reject bad_match 0 ctx c s
           | _ \<Rightarrow> malformed ctx c s)"

text \<open>A list of pixels is read and checked one by one: \<open>Inl None\<close> for one that is cut off, \<open>Inl (Some pixel)\<close> for
  one outside the visual.\<close>

function read_pixels :: "wire_reader \<Rightarrow> u32 option + u32 list" where
  "read_pixels r =
     (if rd_remaining r = 0 then Inr []
      else case rd_u32 r of
             (None, _) \<Rightarrow> Inl None
           | (Some pixel, r') \<Rightarrow>
               if pixel AND 0xff000000 \<noteq> 0 then Inl (Some pixel)
               else (case read_pixels r' of Inl e \<Rightarrow> Inl e | Inr pixels \<Rightarrow> Inr (pixel # pixels)))"
  by pat_completeness auto

termination
  by (relation "measure rd_remaining") (auto dest: rd_u32_decreases [OF sym])

declare read_pixels.simps [simp del]

definition handle_free_colors :: request_handler where
  "handle_free_colors ctx c s =
     (let n = length (rcRequest ctx)
      in if n < 12 \<or> (n - 12) mod 4 \<noteq> 0 then reject bad_length 0 ctx c s
         else case arguments [K32, K32] ctx of
                Some [F32 colormap, F32 _] \<Rightarrow>
                  if \<not> colormap_exists s colormap then reject bad_colormap colormap ctx c s
                  else (case read_pixels (wire_reader_init (drop 12 (rcRequest ctx)) (rcOrder ctx)) of
                     Inl None \<Rightarrow> malformed ctx c s
                   | Inl (Some pixel) \<Rightarrow> reject bad_value pixel ctx c s
                   | Inr _ \<Rightarrow> succeed ctx c s)
              | _ \<Rightarrow> malformed ctx c s)"

definition handle_query_colors :: request_handler where
  "handle_query_colors ctx c s =
     (let n = length (rcRequest ctx)
      in if n < 8 \<or> (n - 8) mod 4 \<noteq> 0 then reject bad_length 0 ctx c s
         else case arguments [K32] ctx of
                Some [F32 colormap] \<Rightarrow>
                  if \<not> colormap_exists s colormap then reject bad_colormap colormap ctx c s
                  else (case read_pixels (wire_reader_init (drop 8 (rcRequest ctx)) (rcOrder ctx)) of
                     Inl None \<Rightarrow> malformed ctx c s
                   | Inl (Some pixel) \<Rightarrow> reject bad_value pixel ctx c s
                   | Inr pixels \<Rightarrow>
                       reply ([F8 1, F8 0, F16 (rcSequence ctx), F32 (of_nat (length pixels * 2)),
                               F16 (of_nat (length pixels))] @ pad 22 @
                              concat (map (\<lambda>pixel. rgb_fields (true_color_rgb pixel) @ pad 2) pixels)) ctx c s)
              | _ \<Rightarrow> malformed ctx c s)"

text \<open>The items of \<open>StoreColors\<close>: a pixel, three intensities, flags and a byte of padding.\<close>

lemma read_field_remaining: "rd_remaining (snd (read_field k r)) \<le> rd_remaining r"
proof (cases "rd_remaining r < kind_width k")
  case True
  then show ?thesis using read_field_cases [of r k] by simp
next
  case False
  then obtain f where "read_field k r = (Some f, r\<lparr>rdOffset := rdOffset r + kind_width k\<rparr>)"
    using read_field_cases [of r k] by auto
  then show ?thesis by (simp add: rd_remaining_def)
qed

lemma read_fields_remaining: "rd_remaining (snd (read_fields ks r)) \<le> rd_remaining r"
proof (induction ks arbitrary: r)
  case (Cons k ks)
  show ?case
  proof (cases "read_field k r")
    case (Pair v r1)
    then show ?thesis
      using read_field_remaining [of k r] Cons.IH [of r1]
      by (cases v) (auto simp: Let_def split: prod.splits)
  qed
qed simp

function store_error :: "wire_reader \<Rightarrow> u8 option option" where
  "store_error r =
     (if rd_remaining r = 0 then None
      else case rd_u32 r of
             (None, _) \<Rightarrow> Some None
           | (Some _, r1) \<Rightarrow>
               (case read_fields [K16, K16, K16, K8, K8] r1 of
                  (Some [F16 _, F16 _, F16 _, F8 flags, F8 _], r2) \<Rightarrow>
                    if flags AND NOT 7 \<noteq> 0 then Some (Some flags) else store_error r2
                | _ \<Rightarrow> Some None))"
  by pat_completeness auto

termination
proof (relation "measure rd_remaining", goal_cases)
  case (2 r v r1 w fs r2)
  have "rd_remaining r1 < rd_remaining r" using 2 by (auto dest: rd_u32_decreases [OF sym])
  moreover have "rd_remaining r2 \<le> rd_remaining r1"
    using read_fields_remaining [of "[K16, K16, K16, K8, K8]" r1] 2(4) by (metis snd_conv)
  ultimately show ?case by simp
qed simp

declare store_error.simps [simp del]

definition handle_store_colors :: request_handler where
  "handle_store_colors ctx c s =
     (let n = length (rcRequest ctx)
      in if n < 8 \<or> (n - 8) mod 12 \<noteq> 0 then reject bad_length 0 ctx c s
         else case arguments [K32] ctx of
                Some [F32 colormap] \<Rightarrow>
                  if \<not> colormap_exists s colormap then reject bad_colormap colormap ctx c s
                  else (case store_error (wire_reader_init (drop 8 (rcRequest ctx)) (rcOrder ctx)) of
                     Some None \<Rightarrow> malformed ctx c s
                   | Some (Some flags) \<Rightarrow> reject bad_value (ucast flags) ctx c s
                   | None \<Rightarrow> if n = 8 then succeed ctx c s else reject bad_access 0 ctx c s)
              | _ \<Rightarrow> malformed ctx c s)"

definition handle_store_named_color :: request_handler where
  "handle_store_named_color ctx c s =
     (if length (rcRequest ctx) < 16 then reject bad_length 0 ctx c s
      else if rcData ctx AND NOT 7 \<noteq> 0 then reject bad_value (ucast (rcData ctx)) ctx c s
      else case arguments [K32, K32, K16, K16] ctx of
             Some [F32 colormap, F32 _, F16 name_size, F16 _] \<Rightarrow>
               if (case padded_to_four (unat name_size) of
                     None \<Rightarrow> True | Some padded \<Rightarrow> length (rcRequest ctx) \<noteq> 16 + padded)
               then reject bad_length 0 ctx c s
               else if \<not> colormap_exists s colormap then reject bad_colormap colormap ctx c s
               else if parse_color (string_of (take (unat name_size) (drop 16 (rcRequest ctx)))) = None
               then reject bad_name 0 ctx c s
               else reject bad_access 0 ctx c s
           | _ \<Rightarrow> malformed ctx c s)"

end
