(* ===== verification/Control_Requests.thy ===== *)
theory Control_Requests
  imports Query_Requests Color_Requests
begin

text \<open>
  The handlers of requests that set a control of the server: its grab, the screen saver, access
  control, the controls and mappings of the input devices, the end of a client
  (\<^verbatim>\<open>connection.cpp\<close>, \<^verbatim>\<open>core_protocol.cpp\<close>, and the setters of \<open>ServerState\<close>).
\<close>

subsection \<open>The server\<close>

definition grab_server :: "u32 \<Rightarrow> server_state \<Rightarrow> server_state" where
  "grab_server owner s =
     (if ssServerGrabOwner s = 0 \<or> ssServerGrabOwner s = owner then s\<lparr>ssServerGrabOwner := owner\<rparr> else s)"

definition ungrab_server :: "u32 \<Rightarrow> server_state \<Rightarrow> server_state" where
  "ungrab_server owner s = (if ssServerGrabOwner s = owner then s\<lparr>ssServerGrabOwner := 0\<rparr> else s)"

definition handle_grab_server :: request_handler where
  "handle_grab_server ctx c s =
     (if length (rcRequest ctx) \<noteq> 4 then reject bad_length 0 ctx c s
      else succeed ctx c (grab_server (cnClient c) s))"

definition handle_ungrab_server :: request_handler where
  "handle_ungrab_server ctx c s =
     (if length (rcRequest ctx) \<noteq> 4 then reject bad_length 0 ctx c s
      else succeed ctx c (ungrab_server (cnClient c) s))"

definition set_screen_saver :: "screen_saver_state \<Rightarrow> server_state \<Rightarrow> server_state" where
  "set_screen_saver v s = s\<lparr>ssScreenSaver := v\<rparr>"

definition handle_set_screen_saver :: request_handler where
  "handle_set_screen_saver ctx c s =
     (if length (rcRequest ctx) \<noteq> 12 then reject bad_length 0 ctx c s
      else case arguments [K16, K16, K8, K8, K16] ctx of
             Some [F16 encoded_timeout, F16 encoded_interval, F8 prefer_blanking, F8 allow_exposures, F16 _] \<Rightarrow>
               if signed_word encoded_timeout < - 1 then reject bad_value (ucast encoded_timeout) ctx c s
               else if signed_word encoded_interval < - 1 then reject bad_value (ucast encoded_interval) ctx c s
               else if prefer_blanking > 2 then reject bad_value (ucast prefer_blanking) ctx c s
               else if allow_exposures > 2 then reject bad_value (ucast allow_exposures) ctx c s
               else succeed ctx c (set_screen_saver ((ssScreenSaver s)
                      \<lparr>svTimeout := signed_word encoded_timeout, svInterval := signed_word encoded_interval,
                       svPreferBlanking := prefer_blanking, svAllowExposures := allow_exposures\<rparr>) s)
           | _ \<Rightarrow> malformed ctx c s)"

definition handle_force_screen_saver :: request_handler where
  "handle_force_screen_saver ctx c s =
     (if length (rcRequest ctx) \<noteq> 4 then reject bad_length 0 ctx c s
      else if rcData ctx > 1 then reject bad_value (ucast (rcData ctx)) ctx c s
      else succeed ctx c (set_screen_saver ((ssScreenSaver s)\<lparr>svActive := rcData ctx \<noteq> 0\<rparr>) s))"

definition handle_set_access_control :: request_handler where
  "handle_set_access_control ctx c s =
     (if length (rcRequest ctx) \<noteq> 4 then reject bad_length 0 ctx c s
      else if rcData ctx > 1 then reject bad_value (ucast (rcData ctx)) ctx c s
      else succeed ctx c (s\<lparr>ssAccessControlEnabled := rcData ctx \<noteq> 0\<rparr>))"

definition handle_kill_client :: request_handler where
  "handle_kill_client ctx c s =
     (if length (rcRequest ctx) \<noteq> 8 then reject bad_length 0 ctx c s
      else case arguments [K32] ctx of
             Some [F32 resource] \<Rightarrow>
               let (found, t) = request_client_termination resource s
               in if \<not> found then reject bad_value resource ctx c t else succeed ctx c t
           | _ \<Rightarrow> malformed ctx c s)"

subsection \<open>Freed resources\<close>

definition bad_pixmap :: u8 where "bad_pixmap = 4"
definition bad_cursor :: u8 where "bad_cursor = 6"
definition bad_graphics_context :: u8 where "bad_graphics_context = 13"

text \<open>The requests that only erase a resource, with the error for one that is not there.\<close>

definition free_resource :: "(u32 \<Rightarrow> server_state \<Rightarrow> bool \<times> server_state) \<Rightarrow> u8 \<Rightarrow> request_handler" where
  "free_resource erase code ctx c s =
     (if length (rcRequest ctx) \<noteq> 8 then reject bad_length 0 ctx c s
      else case arguments [K32] ctx of
             Some [F32 rid] \<Rightarrow>
               let (erased, t) = erase rid s in if \<not> erased then reject code rid ctx c t else succeed ctx c t
           | _ \<Rightarrow> malformed ctx c s)"

definition handle_free_pixmap :: request_handler where
  "handle_free_pixmap = free_resource erase_pixmap bad_pixmap"

definition handle_free_graphics_context :: request_handler where
  "handle_free_graphics_context = free_resource erase_graphics_context bad_graphics_context"

definition handle_free_cursor :: request_handler where
  "handle_free_cursor = free_resource erase_cursor bad_cursor"

subsection \<open>The pointer\<close>

text \<open>A signed value that may be -1 for the default; \<open>Inl\<close> is the value refused.\<close>

definition or_default :: "int \<Rightarrow> int \<Rightarrow> int \<Rightarrow> int + int" where
  "or_default least standard v = (if v = - 1 then Inr standard else if v < least then Inl v else Inr v)"

definition change_pointer_control ::
  "request_context \<Rightarrow> u16 \<Rightarrow> u16 \<Rightarrow> u16 \<Rightarrow> bool \<Rightarrow> bool \<Rightarrow> connection \<Rightarrow> server_state \<Rightarrow> outcome option" where
  "change_pointer_control ctx numerator denominator threshold change_acceleration change_threshold c s =
     (let i = ssInput s;
          new_numerator = (if change_acceleration
            then or_default 0 default_pointer_acceleration_numerator (signed_word numerator)
            else Inr (inPointerAccelerationNumerator i));
          new_denominator = (if change_acceleration
            then or_default 1 default_pointer_acceleration_denominator (signed_word denominator)
            else Inr (inPointerAccelerationDenominator i));
          new_threshold = (if change_threshold then or_default 0 default_pointer_threshold (signed_word threshold)
            else Inr (inPointerThreshold i))
      in case new_numerator of
           Inl v \<Rightarrow> reject bad_value (word_of_int v) ctx c s
         | Inr n \<Rightarrow>
             (case new_denominator of
                Inl v \<Rightarrow> reject bad_value (word_of_int v) ctx c s
              | Inr d \<Rightarrow>
                  (case new_threshold of
                     Inl v \<Rightarrow> reject bad_value (word_of_int v) ctx c s
                   | Inr t \<Rightarrow>
                       succeed ctx c (s\<lparr>ssInput := i\<lparr>inPointerAccelerationNumerator := n,
                         inPointerAccelerationDenominator := d, inPointerThreshold := t\<rparr>\<rparr>))))"

definition handle_change_pointer_control :: request_handler where
  "handle_change_pointer_control ctx c s =
     (if length (rcRequest ctx) \<noteq> 12 then reject bad_length 0 ctx c s
      else case arguments [K16, K16, K16, K8, K8] ctx of
             Some [F16 numerator, F16 denominator, F16 threshold, F8 change_acceleration, F8 change_threshold] \<Rightarrow>
               if change_acceleration > 1 then reject bad_value (ucast change_acceleration) ctx c s
               else if change_threshold > 1 then reject bad_value (ucast change_threshold) ctx c s
               else change_pointer_control ctx numerator denominator threshold (change_acceleration \<noteq> 0)
                      (change_threshold \<noteq> 0) c s
           | _ \<Rightarrow> malformed ctx c s)"

text \<open>\<open>broadcast_mapping_notify\<close> of \<^verbatim>\<open>server_state.cpp\<close>: every client is told, and the clients that
  selected the part of the XKB map that changed.\<close>

definition xkb_map_event :: "u8 \<Rightarrow> u8 \<Rightarrow> u8 \<Rightarrow> u32 \<Rightarrow> xkb_event" where
  "xkb_map_event request first_keycode count time =
     (if request = 1 then XkbMapNotify time 3 3 8 255 0 3 first_keycode count 0 0
      else XkbMapNotify time 3 4 8 255 0 0 0 0 8 248)"

definition broadcast_mapping_notify :: "u8 \<Rightarrow> u8 \<Rightarrow> u8 \<Rightarrow> server_state \<Rightarrow> bool \<times> server_state" where
  "broadcast_mapping_notify request first_keycode count s =
     (let changed = (if request = 1 then 3 else 4)
      in queue_events_atomically
        (map (\<lambda>e. (fst e, EvMessage (MappingNotify request first_keycode count))) (ssClients s) @
         (if request \<noteq> 2
          then map (\<lambda>e. (xeOwner e, EvXkb (xkb_map_event request first_keycode count (ssCurrentTime s))))
                 (filter (\<lambda>e. xeEvents e AND 2 \<noteq> 0 \<and> xeMap e AND changed \<noteq> 0) (ssXkbSelections s))
          else [])) s)"

text \<open>The first button that is mapped twice.\<close>

fun mapped_twice :: "u8 list \<Rightarrow> u8 list \<Rightarrow> u8 option" where
  "mapped_twice seen [] = None"
| "mapped_twice seen (b # bs) = (if b \<noteq> 0 \<and> b \<in> set seen then Some b else mapped_twice (b # seen) bs)"

definition handle_set_pointer_mapping :: request_handler where
  "handle_set_pointer_mapping ctx c s =
     (let i = ssInput s; n = length (inPointerMap i); wanted = take n (drop 4 (rcRequest ctx))
      in if (case padded_to_four (unat (rcData ctx)) of
               None \<Rightarrow> True | Some padded \<Rightarrow> length (rcRequest ctx) \<noteq> 4 + padded)
         then reject bad_length 0 ctx c s
         else if unat (rcData ctx) \<noteq> n then reject bad_value (ucast (rcData ctx)) ctx c s
         else (case mapped_twice [] wanted of
            Some b \<Rightarrow> reject bad_value (ucast b) ctx c s
          | None \<Rightarrow>
              let busy = list_ex (\<lambda>k. inPointerMap i ! k \<noteq> wanted ! k \<and> bit (inPressedButtons i) (k + 1)) [0..<n]
              in if busy then reply (head ctx 1 0 @ pad 24) ctx c s
                 else let (told, s1) = broadcast_mapping_notify 2 0 0 s
                      in if \<not> told then reject bad_alloc 0 ctx c s1
                         else reply_after_events (head ctx 0 0 @ pad 24) ctx c
                                (s1\<lparr>ssInput := (ssInput s1)\<lparr>inPointerMap := wanted\<rparr>\<rparr>)))"

subsection \<open>The keyboard\<close>

text \<open>The values of \<open>ChangeKeyboardControl\<close>, with the LED and the key the later values are about.\<close>

record keyboard_controls =
  kvRepeats :: "u8 list"
  kvLeds :: u32
  kvPitch :: int
  kvDuration :: int
  kvClick :: u8
  kvBell :: u8
  kvGlobalRepeat :: bool
  kvLed :: "u8 option"
  kvKey :: "u8 option"

definition percentage :: "u8 \<Rightarrow> u32 \<Rightarrow> (u8 \<times> u32) + u8" where
  "percentage standard v =
     (let percent = signed_byte (ucast v)
      in if percent = - 1 then Inr standard
         else if percent < 0 \<or> percent > 100 then Inl (bad_value, word_of_int percent)
         else Inr (word_of_int percent))"

definition tone :: "int \<Rightarrow> u32 \<Rightarrow> (u8 \<times> u32) + int" where
  "tone standard v =
     (case or_default 0 standard (signed_word (ucast v)) of Inl e \<Rightarrow> Inl (bad_value, word_of_int e) | Inr n \<Rightarrow> Inr n)"

definition choose_led :: "u32 \<Rightarrow> u8 \<Rightarrow> keyboard_controls \<Rightarrow> (u8 \<times> u32) + keyboard_controls" where
  "choose_led chosen led k =
     (if led < 1 \<or> led > 32 then Inl (bad_value, ucast led)
      else if \<not> bit chosen 5 then Inl (bad_match, 0)
      else Inr (k\<lparr>kvLed := Some led\<rparr>))"

definition set_leds :: "u8 \<Rightarrow> keyboard_controls \<Rightarrow> (u8 \<times> u32) + keyboard_controls" where
  "set_leds mode k =
     (let affected = (case kvLed k of Some led \<Rightarrow> push_bit (unat led - 1) 1 | None \<Rightarrow> 0xffffffff)
      in if mode > 1 then Inl (bad_value, ucast mode)
         else Inr (k\<lparr>kvLeds := (if mode = 0 then kvLeds k AND NOT affected else kvLeds k OR affected)\<rparr>))"

definition choose_key :: "u32 \<Rightarrow> u8 \<Rightarrow> keyboard_controls \<Rightarrow> (u8 \<times> u32) + keyboard_controls" where
  "choose_key chosen key k =
     (if key < 8 then Inl (bad_value, ucast key)
      else if \<not> bit chosen 7 then Inl (bad_match, 0)
      else Inr (k\<lparr>kvKey := Some key\<rparr>))"

definition repeat_byte :: "u8 \<Rightarrow> u8 \<Rightarrow> u8 \<Rightarrow> u8 \<Rightarrow> u8" where
  "repeat_byte mode standard chosen repeats =
     (if mode = 0 then repeats AND NOT chosen
      else if mode = 1 then repeats OR chosen
      else (repeats AND NOT chosen) OR (standard AND chosen))"

definition set_repeats :: "u8 \<Rightarrow> keyboard_controls \<Rightarrow> (u8 \<times> u32) + keyboard_controls" where
  "set_repeats mode k =
     (if mode > 2 then Inl (bad_value, ucast mode)
      else case kvKey k of
             None \<Rightarrow> Inr (k\<lparr>kvGlobalRepeat := (if mode = 2 then default_global_auto_repeat else mode = 1)\<rparr>)
           | Some key \<Rightarrow>
               let row = unat (drop_bit 3 key)
               in Inr (k\<lparr>kvRepeats := (kvRepeats k)[row :=
                    repeat_byte mode (default_auto_repeats ! row) (push_bit (unat (key AND 7)) 1) (kvRepeats k ! row)]\<rparr>))"

definition keyboard_control :: "u32 \<Rightarrow> nat \<Rightarrow> u32 \<Rightarrow> keyboard_controls \<Rightarrow> (u8 \<times> u32) + keyboard_controls" where
  "keyboard_control chosen b v k =
     (if b = 0 then map_sum id (\<lambda>n. k\<lparr>kvClick := n\<rparr>) (percentage default_key_click_percent v)
      else if b = 1 then map_sum id (\<lambda>n. k\<lparr>kvBell := n\<rparr>) (percentage default_bell_percent v)
      else if b = 2 then map_sum id (\<lambda>n. k\<lparr>kvPitch := n\<rparr>) (tone default_bell_pitch v)
      else if b = 3 then map_sum id (\<lambda>n. k\<lparr>kvDuration := n\<rparr>) (tone default_bell_duration v)
      else if b = 4 then choose_led chosen (ucast v) k
      else if b = 5 then set_leds (ucast v) k
      else if b = 6 then choose_key chosen (ucast v) k
      else if b = 7 then set_repeats (ucast v) k
      else Inl (bad_value, chosen))"

text \<open>The loop over the bits of the mask; \<open>Inl None\<close> stands for a missing value.\<close>

fun change_controls ::
  "u32 \<Rightarrow> nat list \<Rightarrow> wire_reader \<Rightarrow> keyboard_controls \<Rightarrow> (u8 \<times> u32) option + keyboard_controls" where
  "change_controls chosen [] r k = Inr k"
| "change_controls chosen (b # bs) r k =
     (if \<not> bit chosen b then change_controls chosen bs r k
      else case rd_u32 r of
             (None, _) \<Rightarrow> Inl None
           | (Some v, r') \<Rightarrow>
               (case keyboard_control chosen b v k of
                  Inl e \<Rightarrow> Inl (Some e)
                | Inr k' \<Rightarrow> change_controls chosen bs r' k'))"

definition current_controls :: "input_state \<Rightarrow> keyboard_controls" where
  "current_controls i =
     \<lparr>kvRepeats = inAutoRepeats i, kvLeds = inLedMask i, kvPitch = inBellPitch i, kvDuration = inBellDuration i,
      kvClick = inKeyClickPercent i, kvBell = inBellPercent i, kvGlobalRepeat = inGlobalAutoRepeat i,
      kvLed = None, kvKey = None\<rparr>"

definition commit_controls :: "keyboard_controls \<Rightarrow> server_state \<Rightarrow> server_state" where
  "commit_controls k s =
     (let i = ssInput s; controls = xkControls (inXkb i);
          enabled = (if kvGlobalRepeat k then kcEnabled controls OR 1 else kcEnabled controls AND NOT 1)
      in update_repeat_controls (s\<lparr>ssInput := i\<lparr>inAutoRepeats := kvRepeats k, inLedMask := kvLeds k,
           inBellPitch := kvPitch k, inBellDuration := kvDuration k, inKeyClickPercent := kvClick k,
           inBellPercent := kvBell k, inGlobalAutoRepeat := kvGlobalRepeat k,
           inXkb := (inXkb i)\<lparr>xkControls := controls\<lparr>kcPerKeyRepeat := kvRepeats k, kcEnabled := enabled\<rparr>\<rparr>\<rparr>\<rparr>))"

definition handle_change_keyboard_control :: request_handler where
  "handle_change_keyboard_control ctx c s =
     (if length (rcRequest ctx) < 8 then reject bad_length 0 ctx c s
      else case rd_u32 (wire_reader_init (drop 4 (rcRequest ctx)) (rcOrder ctx)) of
             (None, _) \<Rightarrow> malformed ctx c s
           | (Some chosen, r) \<Rightarrow>
               if length (rcRequest ctx) \<noteq> 8 + length (filter (bit chosen) [0..<32]) * 4
               then reject bad_length 0 ctx c s
               else (case change_controls chosen [0..<32] r (current_controls (ssInput s)) of
                  Inl None \<Rightarrow> malformed ctx c s
                | Inl (Some (code, v)) \<Rightarrow> reject code v ctx c s
                | Inr k \<Rightarrow> succeed ctx c (commit_controls k s)))"

text \<open>\<open>SetModifierMapping\<close>: eight rows of keycodes, as many in each as the data byte says.\<close>

fun modifier_error :: "u8 list \<Rightarrow> u8 list \<Rightarrow> u32 option" where
  "modifier_error seen [] = None"
| "modifier_error seen (k # ks) =
     (if k = 0 then modifier_error seen ks
      else if k \<in> set seen then Some 0
      else if k < 8 then Some (ucast k)
      else modifier_error (k # seen) ks)"

definition modifier_rows :: "nat \<Rightarrow> u8 list \<Rightarrow> u8 list list" where
  "modifier_rows n keys = map (\<lambda>g. sort (filter (\<lambda>k. k \<noteq> 0) (take n (drop (g * n) keys)))) [0..<8]"

definition canonical_modifiers :: "u8 list list \<Rightarrow> nat \<times> u8 list" where
  "canonical_modifiers rows =
     (let n = fold (\<lambda>row m. max m (length row)) rows 0
      in (n, concat (map (\<lambda>row. row @ replicate (n - length row) 0) rows)))"

definition handle_set_modifier_mapping :: request_handler where
  "handle_set_modifier_mapping ctx c s =
     (let n = unat (rcData ctx); keys = take (n * 8) (drop 4 (rcRequest ctx)); i = ssInput s;
          down = key_bit (inPressedKeys i)
      in if length (rcRequest ctx) \<noteq> 4 + n * 8 then reject bad_length 0 ctx c s
         else (case modifier_error [] keys of
            Some v \<Rightarrow> reject bad_value v ctx c s
          | None \<Rightarrow>
              if list_ex (\<lambda>k. k \<noteq> 0 \<and> down k) keys \<or> list_ex (\<lambda>k. k \<noteq> 0 \<and> down k) (inModifierMap i)
              then reply (head ctx 1 0 @ pad 24) ctx c s
              else let (per_group, canonical) = canonical_modifiers (modifier_rows n keys);
                       (told, s1) = broadcast_mapping_notify 0 0 0 s
                   in if \<not> told then reject bad_alloc 0 ctx c s1
                      else reply_after_events (head ctx 0 0 @ pad 24) ctx c
                             (s1\<lparr>ssInput := (ssInput s1)\<lparr>inModifierMap := canonical,
                                inModifierKeysPerGroup := per_group\<rparr>\<rparr>)))"

end
