(* ===== verification/Grab_Requests.thy ===== *)
theory Grab_Requests
  imports Control_Requests Grabs Passive_Grabs
begin

text \<open>
  The handlers of the requests on the focus and the grabs (\<^verbatim>\<open>connection.cpp\<close>, \<open>Connection::handle_*\<close>).
  A grab that is refused is not an error: the reply says why.
\<close>

definition pointer_grab_mask :: u16 where "pointer_grab_mask = 0x7ffc"

definition valid_passive_modifiers :: "u16 \<Rightarrow> bool" where
  "valid_passive_modifiers modifiers \<longleftrightarrow> modifiers = any_modifier \<or> modifiers AND NOT all_modifiers_mask = 0"

definition timestamp_later :: "u32 \<Rightarrow> u32 \<Rightarrow> bool" where
  "timestamp_later left right \<longleftrightarrow> (let difference = left - right in difference \<noteq> 0 \<and> difference < 0x80000000)"

definition timestamp_earlier :: "u32 \<Rightarrow> u32 \<Rightarrow> bool" where
  "timestamp_earlier left right \<longleftrightarrow> timestamp_later right left"

definition effective_time :: "server_state \<Rightarrow> u32 \<Rightarrow> u32" where
  "effective_time s time = (if time = 0 then ssCurrentTime s else time)"

text \<open>The image of a cursor; 0 stands for none.\<close>

definition cursor_image_of :: "server_state \<Rightarrow> u32 \<Rightarrow> cursor_ref" where
  "cursor_image_of s rid = (if rid = 0 then None else case cursor s rid of None \<Rightarrow> None | Some r \<Rightarrow> crImage r)"

text \<open>The reply to a request for a grab, after the events.\<close>

definition grab_reply :: "u8 \<Rightarrow> request_handler" where
  "grab_reply status ctx = reply_after_events (head ctx status 0 @ pad 24) ctx"

text \<open>The end of a request that may activate a grab: a full queue is an allocation error.\<close>

definition activated :: "request_context \<Rightarrow> connection \<Rightarrow> event_delivery \<times> server_state \<Rightarrow> outcome option" where
  "activated ctx c = (\<lambda>(d, t). if d = QueueFull then reject bad_alloc 0 ctx c t else grab_reply 0 ctx c t)"

subsection \<open>The pointer\<close>

definition viewable :: "server_state \<Rightarrow> u32 \<Rightarrow> bool option" where
  "viewable s k = map_option (\<lambda>state. state = 2) (map_state s k)"

definition grab_pointer ::
  "request_context \<Rightarrow> u32 \<Rightarrow> u16 \<Rightarrow> u8 \<Rightarrow> u8 \<Rightarrow> u32 \<Rightarrow> u32 \<Rightarrow> u32 \<Rightarrow> connection \<Rightarrow> server_state \<Rightarrow> outcome option" where
  "grab_pointer ctx k event_mask pointer_mode keyboard_mode confine_to image_id time c s =
     (let i = ssInput s; at = effective_time s time
      in if (case inPointerGrab i of None \<Rightarrow> False | Some g \<Rightarrow> agOwner g \<noteq> cnClient c)
         then grab_reply 1 ctx c s
         else Option.bind (viewable s k) (\<lambda>seen.
              Option.bind (if seen \<and> confine_to \<noteq> 0 then viewable s confine_to else Some seen) (\<lambda>confined.
                if \<not> confined then grab_reply 3 ctx c s
                else if timestamp_later at (ssCurrentTime s) \<or> timestamp_earlier at (inPointerGrabTime i)
                then grab_reply 2 ctx c s
                else Option.bind (activate_pointer_grab
                       \<lparr>agOwner = cnClient c, agWindow = k, agConfineTo = confine_to, agActivatedAt = at,
                        agEventMask = ucast event_mask, agPointerMode = pointer_mode, agKeyboardMode = keyboard_mode,
                        agOwnerEvents = (rcData ctx \<noteq> 0), agPassive = False, agPassiveDetail = 0, agAutomatic = False,
                        agCursor = cursor_image_of s image_id, agXi2 = False, agXi2EventMask = 0\<rparr> s)
                     (activated ctx c))))"

definition handle_grab_pointer :: request_handler where
  "handle_grab_pointer ctx c s =
     (if length (rcRequest ctx) \<noteq> 24 then reject bad_length 0 ctx c s
      else case arguments [K32, K16, K8, K8, K32, K32, K32] ctx of
             Some [F32 k, F16 event_mask, F8 pointer_mode, F8 keyboard_mode, F32 confine_to, F32 image_id, F32 time] \<Rightarrow>
               if event_mask AND NOT pointer_grab_mask \<noteq> 0 then reject bad_value (ucast event_mask) ctx c s
               else if confine_to \<noteq> 0 \<and> window s confine_to = None then reject bad_window confine_to ctx c s
               else if keyboard_mode > 1 then reject bad_value (ucast keyboard_mode) ctx c s
               else if pointer_mode > 1 then reject bad_value (ucast pointer_mode) ctx c s
               else if rcData ctx > 1 then reject bad_value (ucast (rcData ctx)) ctx c s
               else if window s k = None then reject bad_window k ctx c s
               else if image_id \<noteq> 0 \<and> cursor s image_id = None then reject bad_cursor image_id ctx c s
               else grab_pointer ctx k event_mask pointer_mode keyboard_mode confine_to image_id time c s
           | _ \<Rightarrow> malformed ctx c s)"

text \<open>The client holds the grab and the time lies between its activation and now.\<close>

definition may_change :: "active_grab option \<Rightarrow> u32 \<Rightarrow> connection \<Rightarrow> server_state \<Rightarrow> bool" where
  "may_change grab time c s \<longleftrightarrow>
     (case grab of
        None \<Rightarrow> False
      | Some g \<Rightarrow> agOwner g = cnClient c \<and> \<not> timestamp_later (effective_time s time) (ssCurrentTime s) \<and>
          \<not> timestamp_earlier (effective_time s time) (agActivatedAt g))"

definition handle_ungrab_pointer :: request_handler where
  "handle_ungrab_pointer ctx c s =
     (if length (rcRequest ctx) \<noteq> 8 then reject bad_length 0 ctx c s
      else case arguments [K32] ctx of
             Some [F32 time] \<Rightarrow>
               if may_change (inPointerGrab (ssInput s)) time c s
               then Option.bind (deactivate_pointer_grab s) (\<lambda>r. delivered ctx c (queue_full r))
               else drain ctx c s
           | _ \<Rightarrow> malformed ctx c s)"

definition handle_change_active_pointer_grab :: request_handler where
  "handle_change_active_pointer_grab ctx c s =
     (if length (rcRequest ctx) \<noteq> 16 then reject bad_length 0 ctx c s
      else case arguments [K32, K32, K16, K16] ctx of
             Some [F32 image_id, F32 time, F16 event_mask, F16 _] \<Rightarrow>
               if event_mask AND NOT pointer_grab_mask \<noteq> 0 then reject bad_value (ucast event_mask) ctx c s
               else if image_id \<noteq> 0 \<and> cursor s image_id = None then reject bad_cursor image_id ctx c s
               else if may_change (inPointerGrab (ssInput s)) time c s
               then Option.bind (set_pointer_grab_cursor (ucast event_mask) (cursor_image_of s image_id) s) (\<lambda>(r, t).
                      if r \<noteq> Updated then reject bad_alloc 0 ctx c t else drain ctx c t)
               else drain ctx c s
           | _ \<Rightarrow> malformed ctx c s)"

subsection \<open>The keyboard and the focus\<close>

definition grab_keyboard :: "request_context \<Rightarrow> u32 \<Rightarrow> u32 \<Rightarrow> u8 \<Rightarrow> u8 \<Rightarrow> connection \<Rightarrow> server_state \<Rightarrow> outcome option" where
  "grab_keyboard ctx k time pointer_mode keyboard_mode c s =
     (let i = ssInput s; at = effective_time s time
      in if (case inKeyboardGrab i of None \<Rightarrow> False | Some g \<Rightarrow> agOwner g \<noteq> cnClient c)
         then grab_reply 1 ctx c s
         else Option.bind (viewable s k) (\<lambda>seen.
                if \<not> seen then grab_reply 3 ctx c s
                else if timestamp_later at (ssCurrentTime s) \<or> timestamp_earlier at (inKeyboardGrabTime i)
                then grab_reply 2 ctx c s
                else Option.bind (activate_keyboard_grab
                       \<lparr>agOwner = cnClient c, agWindow = k, agConfineTo = 0, agActivatedAt = at,
                        agEventMask = 3, agPointerMode = pointer_mode, agKeyboardMode = keyboard_mode,
                        agOwnerEvents = (rcData ctx \<noteq> 0), agPassive = False, agPassiveDetail = 0, agAutomatic = False,
                        agCursor = None, agXi2 = False, agXi2EventMask = 0\<rparr> s)
                     (activated ctx c)))"

definition handle_grab_keyboard :: request_handler where
  "handle_grab_keyboard ctx c s =
     (if length (rcRequest ctx) \<noteq> 16 then reject bad_length 0 ctx c s
      else case arguments [K32, K32, K8, K8, K16] ctx of
             Some [F32 k, F32 time, F8 pointer_mode, F8 keyboard_mode, F16 _] \<Rightarrow>
               if keyboard_mode > 1 then reject bad_value (ucast keyboard_mode) ctx c s
               else if pointer_mode > 1 then reject bad_value (ucast pointer_mode) ctx c s
               else if rcData ctx > 1 then reject bad_value (ucast (rcData ctx)) ctx c s
               else if window s k = None then reject bad_window k ctx c s
               else grab_keyboard ctx k time pointer_mode keyboard_mode c s
           | _ \<Rightarrow> malformed ctx c s)"

definition handle_ungrab_keyboard :: request_handler where
  "handle_ungrab_keyboard ctx c s =
     (if length (rcRequest ctx) \<noteq> 8 then reject bad_length 0 ctx c s
      else case arguments [K32] ctx of
             Some [F32 time] \<Rightarrow>
               if may_change (inKeyboardGrab (ssInput s)) time c s
               then Option.bind (deactivate_keyboard_grab s) (\<lambda>r. delivered ctx c (queue_full r))
               else drain ctx c s
           | _ \<Rightarrow> malformed ctx c s)"

definition handle_set_input_focus :: request_handler where
  "handle_set_input_focus ctx c s =
     (if length (rcRequest ctx) \<noteq> 12 then reject bad_length 0 ctx c s
      else if rcData ctx > 2 then reject bad_value (ucast (rcData ctx)) ctx c s
      else case arguments [K32, K32] ctx of
             Some [F32 k, F32 time] \<Rightarrow>
               let kind = (if k = 0 then FocusNone else if k = pointer_root_id then FocusPointerRoot else FocusWindow)
               in if kind = FocusWindow \<and> window s k = None then reject bad_window k ctx c s
                  else Option.bind (if kind = FocusWindow then viewable s k else Some True) (\<lambda>seen.
                    if \<not> seen then reject bad_match 0 ctx c s
                    else Option.bind (set_input_focus kind k (unat (rcData ctx)) time s) (\<lambda>(r, t).
                      delivered ctx c (r = FocusQueueFull, t)))
           | _ \<Rightarrow> malformed ctx c s)"

subsection \<open>Passive grabs\<close>

definition install_grab :: "request_context \<Rightarrow> passive_grab \<Rightarrow> connection \<Rightarrow> server_state \<Rightarrow> outcome option" where
  "install_grab ctx grab c s =
     (let (r, t) = add_passive_grab grab s
      in if r = GrabAccessDenied then reject bad_access 0 ctx c t
         else if r = GrabResourceExhausted then reject bad_alloc 0 ctx c t
         else succeed ctx c t)"

definition remove_grab ::
  "request_context \<Rightarrow> passive_grab_kind \<Rightarrow> u32 \<Rightarrow> u16 \<Rightarrow> connection \<Rightarrow> server_state \<Rightarrow> outcome option" where
  "remove_grab ctx kind k modifiers c s =
     (let (r, t) = remove_passive_grab kind (cnClient c) k (passive_grab_details kind (rcData ctx))
            (passive_grab_modifiers modifiers) s
      in if r = GrabResourceExhausted then reject bad_alloc 0 ctx c t else succeed ctx c t)"

definition handle_grab_button :: request_handler where
  "handle_grab_button ctx c s =
     (if length (rcRequest ctx) \<noteq> 24 then reject bad_length 0 ctx c s
      else case arguments [K32, K16, K8, K8, K32, K32, K8, K8, K16] ctx of
             Some [F32 k, F16 event_mask, F8 pointer_mode, F8 keyboard_mode, F32 confine_to, F32 image_id,
                   F8 button, F8 _, F16 modifiers] \<Rightarrow>
               if pointer_mode > 1 then reject bad_value (ucast pointer_mode) ctx c s
               else if keyboard_mode > 1 then reject bad_value (ucast keyboard_mode) ctx c s
               else if \<not> valid_passive_modifiers modifiers then reject bad_value (ucast modifiers) ctx c s
               else if rcData ctx > 1 then reject bad_value (ucast (rcData ctx)) ctx c s
               else if event_mask AND NOT pointer_grab_mask \<noteq> 0 then reject bad_value (ucast event_mask) ctx c s
               else if window s k = None then reject bad_window k ctx c s
               else if confine_to \<noteq> 0 \<and> window s confine_to = None then reject bad_window confine_to ctx c s
               else if image_id \<noteq> 0 \<and> cursor s image_id = None then reject bad_cursor image_id ctx c s
               else install_grab ctx
                      \<lparr>pgKind = GrabsButton, pgDetails = passive_grab_details GrabsButton button,
                       pgModifiers = passive_grab_modifiers modifiers, pgOwner = cnClient c, pgWindow = k,
                       pgConfineTo = confine_to, pgEventMask = event_mask, pgPointerMode = pointer_mode,
                       pgKeyboardMode = keyboard_mode, pgOwnerEvents = (rcData ctx \<noteq> 0),
                       pgCursor = cursor_image_of s image_id, pgXi2 = False, pgXi2EventMask = 0\<rparr> c s
           | _ \<Rightarrow> malformed ctx c s)"

definition handle_ungrab_button :: request_handler where
  "handle_ungrab_button ctx c s =
     (if length (rcRequest ctx) \<noteq> 12 then reject bad_length 0 ctx c s
      else case arguments [K32, K16, K16] ctx of
             Some [F32 k, F16 modifiers, F16 _] \<Rightarrow>
               if \<not> valid_passive_modifiers modifiers then reject bad_value (ucast modifiers) ctx c s
               else if window s k = None then reject bad_window k ctx c s
               else remove_grab ctx GrabsButton k modifiers c s
           | _ \<Rightarrow> malformed ctx c s)"

definition handle_grab_key :: request_handler where
  "handle_grab_key ctx c s =
     (if length (rcRequest ctx) \<noteq> 16 then reject bad_length 0 ctx c s
      else case arguments [K32, K16, K8, K8, K8, K8, K16] ctx of
             Some [F32 k, F16 modifiers, F8 key, F8 pointer_mode, F8 keyboard_mode, F8 _, F16 _] \<Rightarrow>
               if keyboard_mode > 1 then reject bad_value (ucast keyboard_mode) ctx c s
               else if pointer_mode > 1 then reject bad_value (ucast pointer_mode) ctx c s
               else if \<not> valid_passive_modifiers modifiers then reject bad_value (ucast modifiers) ctx c s
               else if rcData ctx > 1 then reject bad_value (ucast (rcData ctx)) ctx c s
               else if key \<noteq> 0 \<and> unat key < minimum_keycode then reject bad_value (ucast key) ctx c s
               else if window s k = None then reject bad_window k ctx c s
               else install_grab ctx
                      \<lparr>pgKind = GrabsKey, pgDetails = passive_grab_details GrabsKey key,
                       pgModifiers = passive_grab_modifiers modifiers, pgOwner = cnClient c, pgWindow = k,
                       pgConfineTo = 0, pgEventMask = 3, pgPointerMode = pointer_mode,
                       pgKeyboardMode = keyboard_mode, pgOwnerEvents = (rcData ctx \<noteq> 0),
                       pgCursor = None, pgXi2 = False, pgXi2EventMask = 0\<rparr> c s
           | _ \<Rightarrow> malformed ctx c s)"

definition handle_ungrab_key :: request_handler where
  "handle_ungrab_key ctx c s =
     (if length (rcRequest ctx) \<noteq> 12 then reject bad_length 0 ctx c s
      else case arguments [K32, K16, K16] ctx of
             Some [F32 k, F16 modifiers, F16 _] \<Rightarrow>
               if window s k = None then reject bad_window k ctx c s
               else if rcData ctx \<noteq> 0 \<and> unat (rcData ctx) < minimum_keycode
               then reject bad_value (ucast (rcData ctx)) ctx c s
               else if \<not> valid_passive_modifiers modifiers then reject bad_value (ucast modifiers) ctx c s
               else remove_grab ctx GrabsKey k modifiers c s
           | _ \<Rightarrow> malformed ctx c s)"

end
