(* ===== verification/Dispatch.thy ===== *)
theory Dispatch
  imports Grab_Requests
begin

text \<open>
  \<open>Connection::dispatch\<close> (\<^verbatim>\<open>connection.cpp\<close>): an extension is found by its major opcode, a core request
  in the table of handlers.  The handlers that are not modelled, with the error for an opcode that
  has none, are the parameter \<open>others\<close>; \<open>mitshm\<close> says whether the build has shared memory.
\<close>

definition core_handlers :: "bool \<Rightarrow> (u8 \<times> request_handler) list" where
  "core_handlers mitshm =
     [(3, handle_get_window_attributes), (4, handle_destroy_window), (5, handle_destroy_subwindows),
      (6, handle_change_save_set), (7, handle_reparent_window), (8, handle_map_window),
      (9, handle_map_subwindows), (10, handle_unmap_window), (11, handle_unmap_subwindows),
      (13, handle_circulate_window), (15, handle_query_tree), (16, handle_intern_atom),
      (17, handle_get_atom_name), (18, handle_change_property), (19, handle_delete_property),
      (20, handle_get_property), (21, handle_list_properties), (22, handle_set_selection_owner),
      (23, handle_get_selection_owner), (24, handle_convert_selection), (25, handle_send_event),
      (26, handle_grab_pointer), (27, handle_ungrab_pointer), (28, handle_grab_button),
      (29, handle_ungrab_button), (30, handle_change_active_pointer_grab), (31, handle_grab_keyboard),
      (32, handle_ungrab_keyboard), (33, handle_grab_key), (34, handle_ungrab_key),
      (36, handle_grab_server), (37, handle_ungrab_server), (38, handle_query_pointer),
      (39, handle_get_motion_events), (40, handle_translate_coordinates), (42, handle_set_input_focus),
      (43, handle_get_input_focus), (44, handle_query_keymap), (54, handle_free_pixmap),
      (60, handle_free_graphics_context), (78, handle_create_colormap), (79, handle_free_colormap),
      (80, handle_copy_colormap), (81, handle_install_colormap), (82, handle_uninstall_colormap),
      (83, handle_list_installed_colormaps), (84, handle_alloc_color), (85, handle_alloc_named_color),
      (86, handle_alloc_color_cells), (87, handle_alloc_color_planes), (88, handle_free_colors),
      (89, handle_store_colors), (90, handle_store_named_color), (91, handle_query_colors),
      (92, handle_lookup_color), (95, handle_free_cursor), (97, handle_query_best_size),
      (98, handle_query_extension mitshm), (99, handle_list_extensions mitshm),
      (102, handle_change_keyboard_control), (103, handle_get_keyboard_control), (104, handle_bell),
      (105, handle_change_pointer_control), (106, handle_get_pointer_control),
      (107, handle_set_screen_saver), (108, handle_get_screen_saver), (109, handle_change_hosts),
      (110, handle_list_hosts), (111, handle_set_access_control), (112, handle_set_close_down_mode),
      (113, handle_kill_client), (114, handle_rotate_properties), (115, handle_force_screen_saver),
      (116, handle_set_pointer_mapping), (117, handle_get_pointer_mapping),
      (118, handle_set_modifier_mapping), (119, handle_get_modifier_mapping), (127, handle_no_operation)]"

definition extension_handlers :: "(u8 \<times> request_handler) list" where
  "extension_handlers = [(128, handle_big_requests), (129, handle_xc_misc), (130, handle_generic_event)]"

definition dispatch :: "bool \<Rightarrow> request_handler \<Rightarrow> request_handler" where
  "dispatch mitshm others ctx =
     (case extension_by_opcode mitshm (rcOpcode ctx) of
        Some e \<Rightarrow> (case map_of extension_handlers (exOpcode e) of Some handler \<Rightarrow> handler ctx | None \<Rightarrow> others ctx)
      | None \<Rightarrow>
          (case map_of (core_handlers mitshm) (rcOpcode ctx) of Some handler \<Rightarrow> handler ctx | None \<Rightarrow> others ctx))"

definition no_handler :: request_handler where
  "no_handler ctx c s = reject bad_request 0 ctx c s"

end
