(* ===== verification/Server_Requests.thy ===== *)
theory Server_Requests
  imports Requests Connection_Stream Window_Subtrees
begin

text \<open>
  What the operations behind the core requests keep.  \<open>request_frame\<close> says which parts of the server
  they may change; under it the invariant of the server comes down to the tree, the queues, the held
  input, the property budget and the selections.
\<close>

subsection \<open>What requests change\<close>

definition request_frame :: "server_state \<Rightarrow> server_state \<Rightarrow> bool" where
  "request_frame s t \<longleftrightarrow> t = s\<lparr>ssClients := ssClients t, ssEventQueues := ssEventQueues t, ssPendingEvents := ssPendingEvents t,
     ssCurrentTime := ssCurrentTime t, ssSyncPriorities := ssSyncPriorities t, ssAtoms := ssAtoms t, ssWindows := ssWindows t,
     ssSaveSets := ssSaveSets t, ssSelections := ssSelections t, ssPropertyBytes := ssPropertyBytes t,
     ssInput := ssInput t, ssDisplayedCursor := ssDisplayedCursor t, ssSceneDirty := ssSceneDirty t,
     ssClientsToTerminate := ssClientsToTerminate t, ssInstalledColormap := ssInstalledColormap t,
     ssServerGrabOwner := ssServerGrabOwner t, ssScreenSaver := ssScreenSaver t,
     ssAccessControlEnabled := ssAccessControlEnabled t, ssKeyRepeat := ssKeyRepeat t\<rparr>"

lemma request_frame_refl [simp]: "request_frame s s"
  by (simp add: request_frame_def)

lemma request_frame_trans: "request_frame s t \<Longrightarrow> request_frame t u \<Longrightarrow> request_frame s u"
  unfolding request_frame_def by (cases s; cases t; cases u) simp

lemma request_frame_steps [simp]:
  "request_frame s (put_window w s)" "request_frame s (s\<lparr>ssPropertyBytes := n\<rparr>)" "request_frame s (s\<lparr>ssSelections := m\<rparr>)"
  "request_frame s (s\<lparr>ssSaveSets := v\<rparr>)" "request_frame s (s\<lparr>ssAtoms := a\<rparr>)" "request_frame s (invalidate_scene s)"
  "request_frame s (advance_time s)" "request_frame s (note_client_sequence k number s)" "request_frame s (snd (register_client k s))"
  "request_frame s (s\<lparr>ssEventQueues := q, ssPendingEvents := n\<rparr>)"
  by (simp_all add: request_frame_def put_window_def invalidate_scene_def advance_time_def note_client_sequence_def
      register_client_def Let_def)

lemma request_frame_queues: "queues_only s t \<Longrightarrow> request_frame s t"
  by (subst queues_only_def [THEN iffD1], assumption) simp

lemma request_frame_mapping: "mapping_frame s t \<Longrightarrow> request_frame s t"
  by (subst mapping_frame_def [THEN iffD1], assumption) (simp add: request_frame_def)

lemma queue_event_queues_only [simp]: "queues_only s (snd (queue_event k e s))"
  by (subst queue_event_server_frame) (simp add: queues_only_def)

lemma queue_events_queues_only [simp]: "queues_only s (snd (queue_events_atomically es s))"
  using queue_events_server_frame [of es s] by (auto simp: queues_only_def)

lemma queues_onlyD:
  assumes "queues_only s t"
  shows "ssWindows t = ssWindows s" "ssInput t = ssInput s" "ssSelections t = ssSelections s" "ssAtoms t = ssAtoms s"
    "ssPropertyBytes t = ssPropertyBytes s" "ssXi2Properties t = ssXi2Properties s"
  by (subst assms [unfolded queues_only_def], simp)+

text \<open>\<open>resources_ok\<close> reads only which windows there are.\<close>

lemma server_inv_frame:
  assumes inv: "server_inv s" and fr: "request_frame s t"
    and t: "tree_ok t" "queues_ok t" "input_ok t" "properties_ok t" "selections_ok t"
    and wins: "\<And>j. window t j = None \<longleftrightarrow> window s j = None"
  shows "server_inv t"
proof -
  obtain cl q n time sp a ws sv m b i dc d ct ic go sc ac kr where t': "t = s\<lparr>ssClients := cl, ssEventQueues := q, ssPendingEvents := n,
     ssCurrentTime := time, ssSyncPriorities := sp, ssAtoms := a, ssWindows := ws,
     ssSaveSets := sv, ssSelections := m, ssPropertyBytes := b, ssInput := i, ssDisplayedCursor := dc, ssSceneDirty := d,
     ssClientsToTerminate := ct, ssInstalledColormap := ic, ssServerGrabOwner := go, ssScreenSaver := sc,
     ssAccessControlEnabled := ac, ssKeyRepeat := kr\<rparr>"
    using fr unfolding request_frame_def by (rule that)
  have "resources_ok t"
  proof -
    have "fst ` set (ssWindows t) = fst ` set (ssWindows s)"
      using wins by (auto simp: window_def umap_find_def map_of_eq_None_iff)
    then have ids: "table_ids kind t = table_ids kind s" for kind
      by (cases kind) (simp_all, simp_all add: t')
    have r: "resources_ok s" using inv by (simp add: server_inv_def)
    then have "tables_distinct t" using tree_okD(1) [OF t(1)] by (simp add: resources_ok_def tables_distinct_def windows_keyed_def, simp add: t')
    with r ids show ?thesis by (simp add: resources_ok_def t')
  qed
  moreover have "passive_windows_ok t" using inv wins by (simp add: server_inv_def passive_windows_ok_def t')
  moreover have "sync_ok t" using inv sync_ok_cong [of s t] by (simp add: server_inv_def, simp add: t')
  ultimately show ?thesis
    using inv t by (simp add: server_inv_def presents_registered_def xi2_ok_def, simp add: t')
qed

lemma server_inv_parts:
  assumes "server_inv s"
  shows "tree_ok s" "queues_ok s" "input_ok s" "properties_ok s" "selections_ok s" "windows_keyed s"
  using assms tree_okD(1) by (auto simp: server_inv_def)

text \<open>Steps that touch neither the windows nor the held input.\<close>

lemma server_inv_same_windows:
  assumes inv: "server_inv s" and fr: "request_frame s t" "ssWindows t = ssWindows s" "ssInput t = ssInput s"
      "ssPropertyBytes t = ssPropertyBytes s" and t: "queues_ok t" "selections_ok t"
  shows "server_inv t"
proof (rule server_inv_frame [OF inv fr(1) _ t(1) _ _ t(2)])
  note P = server_inv_parts [OF inv]
  show "tree_ok t" using P(1) tree_ok_cong [OF fr(2)] by simp
  show "input_ok t" using P(3) by (simp add: input_ok_def fr(2,3) window_def)
  have "device_property_bytes t = device_property_bytes s"
    by (subst fr(1) [unfolded request_frame_def]) (simp add: device_property_bytes_def)
  then show "properties_ok t" using P(4) by (simp add: properties_ok_def windows_keyed_def window_def fr(2,4))
  show "window t j = None \<longleftrightarrow> window s j = None" for j by (simp add: window_def fr(2))
qed

lemma server_inv_queues:
  assumes inv: "server_inv s" and "queues_only s t" "queues_ok t"
  shows "server_inv t"
  using server_inv_same_windows [OF inv request_frame_queues [OF assms(2)]] queues_onlyD [OF assms(2)] assms(3)
    server_inv_parts(5) [OF inv] by (simp add: selections_ok_def)

subsection \<open>The invariant between requests\<close>

definition root_mapped :: "server_state \<Rightarrow> bool" where
  "root_mapped s \<longleftrightarrow> (\<forall>w. window s root_window_id = Some w \<longrightarrow> wnMapped w)"

text \<open>The data of a property consists of whole items of its format; the reply of \<open>GetProperty\<close> is
  written from it without bounds checks.\<close>

definition value_ok :: "property_value \<Rightarrow> bool" where
  "value_ok v \<longleftrightarrow> pvFormat v \<in> {8, 16, 32} \<and> length (pvData v) mod (pvFormat v div 8) = 0"

definition values_ok :: "server_state \<Rightarrow> bool" where
  "values_ok s \<longleftrightarrow> (\<forall>k w p v. window s k = Some w \<longrightarrow> umap_find p (wnProperties w) = Some v \<longrightarrow> value_ok v)"

lemma values_ok_from:
  assumes "values_ok s" "\<And>k w. window t k = Some w \<Longrightarrow> \<exists>j v. window s j = Some v \<and> wnProperties w = wnProperties v"
  shows "values_ok t"
  using assms by (fastforce simp: values_ok_def)

lemma values_ok_map:
  assumes "values_ok s" "\<And>j. window t j = map_option (f j) (window s j)" "\<And>j w. wnProperties (f j w) = wnProperties w"
  shows "values_ok t"
  using assms by (auto simp: values_ok_def)

definition session_inv :: "server_state \<Rightarrow> bool" where
  "session_inv s \<longleftrightarrow> server_inv s \<and> root_mapped s \<and> values_ok s \<and> atoms_ok (ssAtoms s)"

lemma session_invI: "server_inv s \<Longrightarrow> root_mapped s \<Longrightarrow> values_ok s \<Longrightarrow> atoms_ok (ssAtoms s) \<Longrightarrow> session_inv s"
  by (simp add: session_inv_def)

lemma session_invD:
  assumes "session_inv s"
  shows "server_inv s" "root_mapped s" "atoms_ok (ssAtoms s)" "tree_ok s" "queues_ok s" "input_ok s" "properties_ok s"
    "selections_ok s" "windows_keyed s" "values_ok s"
  using assms server_inv_parts by (auto simp: session_inv_def)

lemma session_inv_same_windows:
  assumes "session_inv s" "request_frame s t" "ssWindows t = ssWindows s" "ssInput t = ssInput s"
      "ssPropertyBytes t = ssPropertyBytes s" "ssAtoms t = ssAtoms s" "queues_ok t" "selections_ok t"
  shows "session_inv t"
  using server_inv_same_windows [of s t] assms by (simp add: session_inv_def root_mapped_def values_ok_def window_def)

lemma session_inv_queues:
  assumes "session_inv s" "queues_only s t" "queues_ok t"
  shows "session_inv t"
  using server_inv_queues [of s t] queues_onlyD [OF assms(2)] assms by (simp add: session_inv_def root_mapped_def values_ok_def window_def)

lemma session_inv_queue_event: "session_inv s \<Longrightarrow> session_inv (snd (queue_event k e s))"
  by (rule session_inv_queues [OF _ queue_event_queues_only]) (simp_all add: session_invD queue_event_ok)

lemma session_inv_drain:
  assumes "drain_pending_events c s = (err, c', s')" "output_ok c" "session_inv s"
  shows "session_inv s'"
  using drain_pending_events_run [OF assms(1,2)] session_inv_queues [OF assms(3)] session_invD(5) [OF assms(3)] by blast

text \<open>Steps on the clients, the clock and the save sets.\<close>

lemma session_inv_minor:
  assumes "session_inv s" "request_frame s t" "ssWindows t = ssWindows s" "ssInput t = ssInput s"
      "ssPropertyBytes t = ssPropertyBytes s" "ssAtoms t = ssAtoms s" "ssEventQueues t = ssEventQueues s"
      "ssPendingEvents t = ssPendingEvents s" "ssSelections t = ssSelections s"
  shows "session_inv t"
proof (rule session_inv_same_windows [OF assms(1-6)])
  show "queues_ok t" using session_invD(5) [OF assms(1)] by (simp add: queues_ok_def assms(7,8))
  show "selections_ok t" using session_invD(8) [OF assms(1)] by (simp add: selections_ok_def assms(9))
qed

lemma session_inv_clock [simp]: "session_inv s \<Longrightarrow> session_inv (advance_time s)"
  by (rule session_inv_minor [OF _ request_frame_steps(7)]) (simp_all add: advance_time_def Let_def)

lemma session_inv_note [simp]: "session_inv s \<Longrightarrow> session_inv (note_client_sequence k number s)"
  by (rule session_inv_minor [OF _ request_frame_steps(8)]) (simp_all add: note_client_sequence_def)

lemma session_inv_register [simp]: "session_inv s \<Longrightarrow> session_inv (snd (register_client k s))"
  by (rule session_inv_minor [OF _ request_frame_steps(9)]) (simp_all add: register_client_def)

lemma session_inv_save_sets: "session_inv s \<Longrightarrow> session_inv (s\<lparr>ssSaveSets := v\<rparr>)"
  by (rule session_inv_minor [OF _ request_frame_steps(4)]) simp_all

lemma tree_kept_reshaped:
  assumes inv: "session_inv s" and fr: "request_frame s t" "ssInput t = ssInput s" "ssSelections t = ssSelections s"
      "ssAtoms t = ssAtoms s" and ok: "queues_ok t" "properties_ok t"
    and wins: "\<And>j. window t j = map_option (f j) (window s j)"
    and f: "\<And>j w. wnId (f j w) = wnId w" "\<And>j w. wnParent (f j w) = wnParent w"
      "\<And>j w. wnMapped (f j w) = wnMapped w" and tree: "tree_ok t" and vals: "values_ok t"
  shows "session_inv t"
proof (rule session_invI)
  note P = session_invD [OF inv]
  show "server_inv t"
  proof (rule server_inv_frame [OF P(1) fr(1) tree ok(1) _ ok(2)])
    show "input_ok t" using P(6) by (simp add: input_ok_def fr(2) wins)
    show "selections_ok t" using P(8) by (simp add: selections_ok_def fr(3))
  qed (simp add: wins)
  show "root_mapped t" using P(2) by (auto simp: root_mapped_def wins f)
qed (simp_all add: fr vals session_invD(3) [OF inv])

subsection \<open>The operations on windows\<close>

lemma mapping_done_keeps:
  assumes inv: "session_inv s" and d: "mapping_done changed mapped s r t"
  shows "session_inv t"
proof (cases "r = QueueFull")
  case True
  with d inv show ?thesis by (simp add: mapping_done_def)
next
  case False
  note m = mapping_done_inv [OF session_invD(1) [OF inv] d False]
  have "mapping_frame s t" using d False by (simp add: mapping_done_def)
  then have "ssAtoms t = ssAtoms s" by (subst mapping_frame_def [THEN iffD1], assumption) simp
  moreover have "window t root_window_id = window s root_window_id"
    unfolding m(2) by (cases "window s root_window_id") auto
  moreover have "values_ok t"
    by (rule values_ok_map [OF session_invD(10) [OF inv] m(2)]) simp
  ultimately show ?thesis using m(1) session_invD(2,3) [OF inv] by (simp add: session_inv_def root_mapped_def)
qed

lemma set_window_mapped_keeps:
  assumes inv: "session_inv s" and w: "window s k = Some w"
  shows "\<exists>r t. set_window_mapped w mapped s = Some (r, t) \<and> session_inv t"
proof -
  note P = session_invD [OF inv]
  have id: "wnId w = k" using windows_keyedD(2) [OF P(9) w] .
  let ?mapped = "if k = root_window_id then True else mapped"
  show ?thesis
  proof (cases "wnMapped w = ?mapped")
    case True
    with inv show ?thesis by (simp add: set_window_mapped_def id)
  next
    case False
    have "k \<noteq> root_window_id" using False w P(2) by (auto simp: root_mapped_def)
    with False w have "markable s mapped [k]" by (simp add: markable_def)
    from update_window_mappings_run [OF P(4-6) this] False \<open>k \<noteq> root_window_id\<close>
    show ?thesis by (auto simp: set_window_mapped_def id dest: mapping_done_keeps [OF inv])
  qed
qed

lemma mapping_done_atoms: "mapping_done changed mapped s r t \<Longrightarrow> ssAtoms t = ssAtoms s"
  unfolding mapping_done_def by (cases "r = QueueFull") (simp, simp, subst mapping_frame_def [THEN iffD1], blast, simp)

lemma set_window_mapped_atoms:
  assumes inv: "session_inv s" and w: "window s k = Some w" and run: "set_window_mapped w mapped s = Some (r, t)"
  shows "ssAtoms t = ssAtoms s"
proof -
  note P = session_invD [OF inv]
  have id: "wnId w = k" using windows_keyedD(2) [OF P(9) w] .
  show ?thesis
  proof (cases "wnMapped w = (k = root_window_id \<or> mapped)")
    case True
    with run show ?thesis by (simp add: set_window_mapped_def id split: if_splits)
  next
    case False
    have "k \<noteq> root_window_id" using False w P(2) by (auto simp: root_mapped_def)
    with False w have "markable s mapped [k]" by (simp add: markable_def)
    from update_window_mappings_run [OF P(4-6) this] run False \<open>k \<noteq> root_window_id\<close>
    show ?thesis by (auto simp: set_window_mapped_def id dest: mapping_done_atoms split: if_splits)
  qed
qed

lemma set_subwindows_mapped_keeps:
  assumes inv: "session_inv s"
  shows "\<exists>r t. set_subwindows_mapped k mapped s = Some (r, t) \<and> session_inv t \<and> ssAtoms t = ssAtoms s"
proof (cases "window s k")
  case None
  with inv show ?thesis by (simp add: set_subwindows_mapped_def)
next
  case (Some parent)
  note P = session_invD [OF inv]
  let ?ch = "filter (\<lambda>c. case window s c of None \<Rightarrow> False | Some w \<Rightarrow> wnMapped w \<noteq> mapped) (wnChildren parent)"
  have "markable s mapped ?ch"
    using tree_okD(6) [OF P(4) Some] by (auto simp: markable_def split: option.splits)
  from update_window_mappings_run [OF P(4-6) this] inv Some
  show ?thesis by (auto simp: set_subwindows_mapped_def Let_def dest: mapping_done_keeps [OF inv] mapping_done_atoms)
qed

lemma server_inv_session:
  assumes "session_inv s" "server_inv t" "values_ok t" "ssAtoms t = ssAtoms s"
    and "window t root_window_id = window s root_window_id \<or> (\<exists>f. window t root_window_id = map_option f (window s root_window_id) \<and>
      (\<forall>w. wnMapped (f w) = wnMapped w))"
  shows "session_inv t"
  using assms by (auto simp: session_inv_def root_mapped_def)

lemma umap_sum_sum:
  assumes "umap_ok m"
  shows "umap_sum f m = (\<Sum>k \<in> dom (map_of m). f (the (map_of m k)))"
proof -
  have "map (\<lambda>e. f (snd e)) m = map (\<lambda>k. f (the (map_of m k))) (map fst m)"
    using assms by (auto simp: umap_ok_def)
  then show ?thesis
    using assms by (simp add: umap_sum_def umap_ok_def dom_map_of_conv_image_fst sum_list_distinct_conv_sum_set del: map_map)
qed

lemma umap_sum_pointwise:
  assumes "umap_ok m" "umap_ok n" "\<And>k. map_option f (umap_find k m) = map_option f (umap_find k n)"
  shows "umap_sum f m = umap_sum f n"
proof -
  have eq: "map_option f (map_of m k) = map_option f (map_of n k)" for k using assms(3) by (simp add: umap_find_def)
  have "dom (map_of m) = dom (map_of n)" using eq by (auto simp: dom_def set_eq_iff simp del: not_None_eq) (metis map_option_is_None)+
  moreover have "f (the (map_of m k)) = f (the (map_of n k))" if "k \<in> dom (map_of n)" for k
    using eq [of k] that by (cases "map_of m k") auto
  ultimately show ?thesis by (simp add: umap_sum_sum [OF assms(1)] umap_sum_sum [OF assms(2)])
qed

lemma reparent_window_keeps:
  assumes inv: "session_inv s"
  shows "\<exists>r t. reparent_window k p x y s = Some (r, t) \<and> session_inv t"
proof -
  note P = session_invD [OF inv]
  obtain r t where run: "reparent_window k p x y s = Some (r, t)" and ok: "tree_ok t" "queues_ok t" "input_ok t"
    and R: "r \<noteq> ReparentUpdated \<longrightarrow> t = s" "r = ReparentUpdated \<longrightarrow> (\<exists>v. window s k = Some v \<and>
       (\<forall>j. window t j = map_option (moved k (wnParent v) p x y j) (window s j)) \<and> mapping_frame s t)"
    using reparent_window_effect_run [OF P(4-6), of k p x y] by blast
  show ?thesis
  proof (cases "r = ReparentUpdated")
    case False
    with R run inv show ?thesis by simp
  next
    case True
    from mp [OF R(2) True] obtain v where "window s k = Some v" and w': "\<forall>j. window t j = map_option (moved k (wnParent v) p x y j) (window s j)" and fr: "mapping_frame s t"
      by (elim exE conjE) (rule that)
    note w = w' [rule_format]
    have props: "wnProperties (moved k q p x y j w) = wnProperties w" "wnMapped (moved k q p x y j w) = wnMapped w" for q j w
      by (simp_all add: moved_def)
    then have pb: "window_property_bytes (moved k q p x y j w) = window_property_bytes w" for q j w
      by (simp add: window_property_bytes_def)
    have other: "ssAtoms t = ssAtoms s" "ssSelections t = ssSelections s" "ssPropertyBytes t = ssPropertyBytes s"
        "ssXi2Properties t = ssXi2Properties s"
      by (subst fr [unfolded mapping_frame_def], simp)+
    have "umap_sum window_property_bytes (ssWindows t) = umap_sum window_property_bytes (ssWindows s)"
      by (rule umap_sum_pointwise [OF windows_keyedD(1) [OF tree_okD(1) [OF ok(1)]] windows_keyedD(1) [OF P(9)]])
        (simp add: window_def [symmetric] w option.map_comp comp_def pb)
    then have "properties_ok t"
      using properties_okD [OF P(7)] tree_okD(1) [OF ok(1)] unfolding properties_ok_def
      by (auto simp: w other device_property_bytes_def props) 
    moreover have vals: "values_ok t"
      by (rule values_ok_map [OF P(10) w]) (rule props)
    ultimately have "server_inv t"
      using server_inv_frame [OF P(1) request_frame_mapping [OF fr] ok] P(8) w by (simp add: selections_ok_def other)
    then have "session_inv t"
      using server_inv_session [OF inv _ _ other(1)] w props(2) vals by blast
    with run show ?thesis by blast
  qed
qed

text \<open>Destruction leaves the atoms alone.\<close>

lemma release_window_atoms:
  assumes inv: "server_inv s" and w: "window s k = Some w" "k \<noteq> root_window_id" "wnChildren w = []"
    and run: "release_window k w s = Some t"
  shows "ssAtoms t = ssAtoms s \<and> server_inv t"
proof -
  have ok: "tree_ok s" "queues_ok s" "selections_ok s" "sync_ok s" using inv by (simp_all add: server_inv_def)
  obtain f q n m fe v ws d u where "release_window k w s = Some u" "u = removed_state k w s f q n m fe v ws d"
    by (rule release_window_form [OF ok w]) (rule that; assumption)
  then have "ssAtoms t = ssAtoms s" using run by (simp add: removed_state_def)
  moreover obtain u where "release_window k w s = Some u" "server_inv u" by (rule release_window_run [OF inv w])
  ultimately show ?thesis using run by simp
qed

lemma erase_window_tree_atoms:
  assumes ended: "erase_window_tree k s = Some t"
  shows "server_inv s \<longrightarrow> ssAtoms t = ssAtoms s \<and> server_inv t"
proof (rule erase_window_tree.raw_induct [where P = "\<lambda>k s t. server_inv s \<longrightarrow> ssAtoms t = ssAtoms s \<and> server_inv t", OF _ ended],
    goal_cases)
  case (1 erase k s t)
  note hyp = 1(1) and run = 1(2)
  show ?case
  proof
    assume inv: "server_inv s"
    show "ssAtoms t = ssAtoms s \<and> server_inv t"
    proof (cases "window s k = None \<or> k = root_window_id")
      case True
      with run inv show ?thesis by (auto split: option.splits if_splits)
    next
      case False
      then obtain w where w: "window s k = Some w" "k \<noteq> root_window_id" by auto
      show ?thesis
      proof (cases "wnChildren w = []")
        case True
        with run w release_window_atoms [OF inv w True] show ?thesis by simp
      next
        case False
        with run w obtain u where u: "erase (last (wnChildren w)) s = Some u" "erase k u = Some t"
          by (auto simp: bind_eq_Some_conv)
        with hyp inv show ?thesis by metis
      qed
    qed
  qed
qed

lemma erase_children_atoms:
  assumes ended: "erase_children k s = Some t"
  shows "server_inv s \<longrightarrow> ssAtoms t = ssAtoms s \<and> server_inv t"
proof (rule erase_children.raw_induct [where P = "\<lambda>k s t. server_inv s \<longrightarrow> ssAtoms t = ssAtoms s \<and> server_inv t", OF _ ended],
    goal_cases)
  case (1 erase k s t)
  note hyp = 1(1) and run = 1(2)
  show ?case
  proof (cases "\<exists>w. window s k = Some w \<and> wnChildren w \<noteq> []")
    case True
    with run obtain w u where "window s k = Some w" "erase_window_tree (last (wnChildren w)) s = Some u" "erase k u = Some t"
      by (auto simp: bind_eq_Some_conv)
    with hyp erase_window_tree_atoms show ?thesis by metis
  qed (use run in \<open>auto split: option.splits if_splits\<close>)
qed

lemma session_inv_root:
  assumes "session_inv s" "server_inv t" "values_ok t" "ssAtoms t = ssAtoms s"
    and "\<And>w. window t root_window_id = Some w \<Longrightarrow> \<exists>v. window s root_window_id = Some v \<and> wnMapped w = wnMapped v"
  shows "session_inv t"
  using assms by (fastforce simp: session_inv_def root_mapped_def)

lemma destroy_window_keeps:
  assumes inv: "session_inv s"
  shows "\<exists>r t. destroy_window k s = Some (r, t) \<and> session_inv t"
proof -
  note P = session_invD [OF inv]
  obtain r t where run: "destroy_window k s = Some (r, t)" and
    D: "case window s k of None \<Rightarrow> r = NoRecipient \<and> t = s
     | Some w \<Rightarrow> if k = root_window_id then r = NoRecipient \<and> t = s
                else if r = QueueFull then t = s else erased k w s t"
    using destroy_window_effect_run [OF P(1), of k] by blast
  show ?thesis
  proof (cases "t = s")
    case True
    with run inv show ?thesis by blast
  next
    case False
    then obtain w where e: "erased k w s t" using D by (auto split: option.splits if_splits)
    then have i: "server_inv t" by (simp add: erased_def)
    have "window t root_window_id \<noteq> None" using tree_okD(3) [OF server_inv_parts(1) [OF i]] by auto
    then have "window t root_window_id = (if root_window_id = wnParent w
        then map_option (without_child k) (window s root_window_id) else window s root_window_id)"
      using e unfolding erased_def by metis
    then have "\<exists>v. window s root_window_id = Some v \<and> wnMapped w = wnMapped v" if "window t root_window_id = Some w" for w
      using that by (cases "window s root_window_id") (auto simp: without_child_def split: if_splits)
    moreover have "ssAtoms t = ssAtoms s"
    proof -
      obtain v where v: "window s k = Some v" "k \<noteq> root_window_id" using False D by (auto split: option.splits if_splits)
      obtain d u where u: "set_window_mapped v False s = Some (d, u)" "session_inv u"
        using set_window_mapped_keeps [OF inv v(1)] by blast
      have "ssAtoms u = ssAtoms s" using u(1) set_window_mapped_atoms [OF inv v(1)] by blast
      then show ?thesis
        using run u v erase_window_tree_atoms [of k u t] session_invD(1) [OF u(2)]
        by (auto simp: destroy_window_def split: if_splits)
    qed
    moreover have "values_ok t"
    proof (rule values_ok_from [OF P(10)])
      fix j v assume "window t j = Some v"
      then have "\<exists>u. window s j = Some u \<and> wnProperties v = wnProperties u"
        using e by (auto simp: erased_def without_child_def split: if_splits)
      then show "\<exists>j u. window s j = Some u \<and> wnProperties v = wnProperties u" by blast
    qed
    ultimately have "session_inv t" by (intro session_inv_root [OF inv i])
    with run show ?thesis by blast
  qed
qed

lemma destroy_subwindows_keeps:
  assumes inv: "session_inv s"
  shows "\<exists>r t. destroy_subwindows k s = Some (r, t) \<and> session_inv t"
proof -
  note P = session_invD [OF inv]
  obtain r t where run: "destroy_subwindows k s = Some (r, t)" and
    D: "if window s k = None then r = NoRecipient \<and> t = s else if r = QueueFull then t = s else children_erased k s t"
    using destroy_subwindows_effect_run [OF P(1), of k] by blast
  show ?thesis
  proof (cases "t = s")
    case True
    with run inv show ?thesis by blast
  next
    case False
    then have e: "children_erased k s t" and k: "window s k \<noteq> None" using D by (auto split: if_splits)
    then have i: "server_inv t" by (simp add: children_erased_def)
    have "window t root_window_id \<noteq> None" using tree_okD(3) [OF server_inv_parts(1) [OF i]] by auto
    then have "window t root_window_id = (if root_window_id = k
        then map_option (\<lambda>w. w\<lparr>wnChildren := []\<rparr>) (window s root_window_id) else window s root_window_id)"
      using e unfolding children_erased_def by metis
    then have "\<exists>v. window s root_window_id = Some v \<and> wnMapped w = wnMapped v" if "window t root_window_id = Some w" for w
      using that by (cases "window s root_window_id") (auto split: if_splits)
    moreover have "ssAtoms t = ssAtoms s"
    proof -
      obtain d u where u: "set_subwindows_mapped k False s = Some (d, u)" "session_inv u" "ssAtoms u = ssAtoms s"
        using set_subwindows_mapped_keeps [OF inv] by blast
      then show ?thesis
        using run k erase_children_atoms [of k u t] session_invD(1) [OF u(2)]
        by (auto simp: destroy_subwindows_def split: if_splits)
    qed
    moreover have "values_ok t"
    proof (rule values_ok_from [OF P(10)])
      fix j v assume "window t j = Some v"
      then have "\<exists>u. window s j = Some u \<and> wnProperties v = wnProperties u"
        using e by (auto simp: children_erased_def without_child_def split: if_splits)
      then show "\<exists>j u. window s j = Some u \<and> wnProperties v = wnProperties u" by blast
    qed
    ultimately have "session_inv t" by (intro session_inv_root [OF inv i])
    with run show ?thesis by blast
  qed
qed

lemma redirect_to_parent_keeps: "session_inv s \<Longrightarrow> session_inv (snd (redirect_to_parent requester w event s))"
  by (auto simp: redirect_to_parent_def Let_def session_inv_queue_event split_beta split: option.splits)

lemma redirect_map_request_keeps: "session_inv s \<Longrightarrow> session_inv (snd (redirect_map_request requester w s))"
  by (simp add: redirect_map_request_def redirect_to_parent_keeps)

lemma redirect_map_request_windows: "ssWindows (snd (redirect_map_request requester w s)) = ssWindows s"
  by (simp add: redirect_map_request_def redirect_to_parent_def Let_def split_beta split: option.splits)

lemma redirect_circulate_request_keeps:
  "session_inv s \<Longrightarrow> session_inv (snd (redirect_circulate_request requester w raise_lowest s))"
  by (simp add: redirect_circulate_request_def Let_def session_inv_queue_event split_beta)

lemma properties_ok_children:
  assumes ok: "properties_ok u" and w: "window u (wnId w) = Some w"
  shows "properties_ok (invalidate_scene (put_window (w\<lparr>wnChildren := cs\<rparr>) u))"
proof -
  let ?w = "w\<lparr>wnChildren := cs\<rparr>"
  have b: "window_property_bytes ?w = window_property_bytes w" by (simp add: window_property_bytes_def)
  have "properties_ok ((put_window ?w u)\<lparr>ssPropertyBytes := ssPropertyBytes u\<rparr>)"
    by (rule properties_ok_put_window [OF ok w])
      (use properties_okD(3,4,6) [OF ok] w total_put_window(2) [OF ok w, of w] b in auto)
  moreover have "(put_window ?w u)\<lparr>ssPropertyBytes := ssPropertyBytes u\<rparr> = put_window ?w u" by (simp add: put_window_def)
  ultimately have "properties_ok (put_window ?w u)" by simp
  then show ?thesis
    by (simp add: properties_ok_def windows_keyed_def window_def invalidate_scene_def device_property_bytes_def)
qed

lemma circulate_window_keeps:
  assumes inv: "session_inv s"
  shows "session_inv (snd (circulate_window k raise_lowest s))"
proof (cases "window s k")
  case None
  with inv show ?thesis by (simp add: circulate_window_def)
next
  case (Some parent)
  note P = session_invD [OF inv]
  obtain d t where run: "circulate_window k raise_lowest s = (d, t)" by fastforce
  note C = circulate_window_effect_run [OF P(5,4) Some run]
  have id: "wnId parent = k" using windows_keyedD(2) [OF P(9) Some] .
  show ?thesis
  proof (cases "t = s")
    case True
    with inv run show ?thesis by simp
  next
    case False
    let ?c = "circulation_candidate s (wnChildren parent) raise_lowest"
    let ?restacked = "parent\<lparr>wnChildren := restack ?c raise_lowest (wnChildren parent)\<rparr>"
    obtain b u where q: "queue_events_atomically (circulate_events s parent ?c raise_lowest) s = (b, u)" by fastforce
    have "b" using False run Some q queues.refused [OF P(5)] by (cases b) (auto simp: circulate_window_def Let_def split: if_splits)
    then have t: "t = invalidate_scene (put_window ?restacked u)" "queues_only s u"
      using False run Some q queue_events_queues_only [of s "circulate_events s parent ?c raise_lowest"]
      by (auto simp: circulate_window_def Let_def split: if_splits)
    note U = queues_onlyD [OF t(2)]
    have wins: "window t j = map_option (\<lambda>w. if j = k then w\<lparr>wnChildren := wnChildren ?restacked\<rparr> else w) (window s j)" for j
      using Some by (simp add: t(1) invalidate_scene_def put_window_def window_def U(1) id option.map_ident)
    have fr: "request_frame s t"
      unfolding t(1) by (rule request_frame_trans [OF request_frame_queues [OF t(2)]
          request_frame_trans [OF request_frame_steps(1,6)]])
    have "properties_ok u" by (subst t(2) [unfolded queues_only_def]) (rule properties_ok_queues [OF P(7)])
    then have props: "properties_ok t"
      unfolding t(1) using Some by (intro properties_ok_children) (simp_all add: window_def U(1) id)
    have same: "ssInput t = ssInput s" "ssSelections t = ssSelections s" "ssAtoms t = ssAtoms s"
      by (simp_all add: t(1) U invalidate_scene_def put_window_def)
    have "session_inv t"
      by (rule tree_kept_reshaped [OF inv fr same _ props wins])
        (use C values_ok_map [OF P(10) wins] in simp_all)
    with run show ?thesis by simp
  qed
qed

subsection \<open>The operations on properties\<close>

definition property_frame :: "server_state \<Rightarrow> server_state \<Rightarrow> bool" where
  "property_frame s t \<longleftrightarrow> t = s\<lparr>ssEventQueues := ssEventQueues t, ssPendingEvents := ssPendingEvents t,
     ssWindows := ssWindows t, ssPropertyBytes := ssPropertyBytes t\<rparr>"

lemma property_frame_trans: "property_frame s t \<Longrightarrow> property_frame t u \<Longrightarrow> property_frame s u"
  unfolding property_frame_def by (cases s; cases t; cases u) simp

lemma property_frame_steps [simp]:
  "property_frame s s" "property_frame s (put_window w s)" "property_frame s (s\<lparr>ssPropertyBytes := n\<rparr>)"
  by (simp_all add: property_frame_def put_window_def)

lemma property_frame_queues: "queues_only s t \<Longrightarrow> property_frame s t"
  by (subst queues_only_def [THEN iffD1], assumption) (simp add: property_frame_def)

lemma property_frameD:
  assumes "property_frame s t"
  shows "request_frame s t" "ssInput t = ssInput s" "ssSelections t = ssSelections s" "ssAtoms t = ssAtoms s"
  by (subst assms [unfolded property_frame_def], simp add: request_frame_def)+

lemma property_notifications_frame: "queues_only s (snd (queue_property_notifications w ps n s))"
  using queue_events_queues_only by (auto simp: queue_property_notifications_def Let_def split_beta)

lemma put_bytes_frame: "property_frame s (put_window w (s\<lparr>ssPropertyBytes := n\<rparr>))" "property_frame s ((put_window w s)\<lparr>ssPropertyBytes := n\<rparr>)"
  by (simp_all add: property_frame_def put_window_def)

lemma set_property_frame: "property_frame s (snd (set_property w p v s))"
proof -
  have step: "property_frame s (put_window b ((snd (queue_property_notifications w1 ps n ((put_window a s)\<lparr>ssPropertyBytes := i\<rparr>)))\<lparr>ssPropertyBytes := j\<rparr>))"
      "property_frame s (snd (queue_property_notifications w1 ps n ((put_window a s)\<lparr>ssPropertyBytes := i\<rparr>)))" for a b w1 ps n i j
    using property_frame_trans [OF put_bytes_frame(2) property_frame_queues [OF property_notifications_frame]]
      property_frame_trans [OF _ put_bytes_frame(1)] by blast+
  show ?thesis unfolding set_property_def Let_def split_beta using step by simp
qed

lemma delete_property_frame: "property_frame s (snd (delete_property w p s))"
proof -
  have step: "property_frame s (put_window b ((snd (queue_property_notifications w ps n s))\<lparr>ssPropertyBytes := j\<rparr>))" for b ps n j
    using property_frame_trans [OF property_frame_queues [OF property_notifications_frame] put_bytes_frame(1)] .
  show ?thesis unfolding delete_property_def Let_def split_beta
    using step property_frame_queues [OF property_notifications_frame] by (simp split: option.split)
qed

lemma rotate_properties_frame: "rotate_properties w ps delta s = Some (d, t) \<Longrightarrow> property_frame s t"
proof -
  assume run: "rotate_properties w ps delta s = Some (d, t)"
  let ?u = "snd (queue_property_notifications w ps 0 s)"
  have q: "property_frame s ?u" by (rule property_frame_queues [OF property_notifications_frame])
  have "property_frame s (put_window b ?u)" for b using property_frame_trans [OF q property_frame_steps(2)] .
  with q run show ?thesis
    by (auto simp: rotate_properties_def Let_def split_beta split: if_splits option.splits)
qed

text \<open>The properties of one window are not part of the tree.\<close>

lemma session_inv_properties:
  assumes inv: "session_inv s" and w: "window s k = Some w" and fr: "property_frame s t"
    and ok: "queues_ok t" "properties_ok t" and at: "window t k = Some (w\<lparr>wnProperties := m\<rparr>)"
    and other: "\<And>j. j \<noteq> k \<Longrightarrow> window t j = window s j"
    and vals: "\<And>p v. umap_find p m = Some v \<Longrightarrow> value_ok v"
  shows "session_inv t"
proof -
  note F = property_frameD [OF fr]
  let ?f = "\<lambda>j v. if j = k then v\<lparr>wnProperties := m\<rparr> else v"
  have wins: "window t j = map_option (?f j) (window s j)" for j
    using w at other by (cases "j = k") (auto simp: option.map_ident)
  have "tree_ok t" by (rule tree_ok_reshaped(1) [OF session_invD(4) [OF inv] _ wins])
    (use properties_okD(2) [OF ok(2)] in auto)
  moreover have "values_ok t"
    using session_invD(10) [OF inv] vals by (auto simp: values_ok_def wins split: if_splits)
  ultimately show ?thesis by (intro tree_kept_reshaped [OF inv F ok wins]) simp_all
qed

lemma set_property_keeps:
  assumes inv: "session_inv s" and w: "window s k = Some w" and v: "value_ok v"
  shows "session_inv (snd (set_property w p v s))"
proof -
  note P = session_invD [OF inv]
  have id: "wnId w = k" using windows_keyedD(2) [OF P(9) w] .
  obtain d t where run: "set_property w p v s = (d, t)" by fastforce
  note E = set_property_effect_run [OF P(5,7) _ run, unfolded id, OF w]
  show ?thesis
  proof (cases "d = QueueFull")
    case True
    with E inv run show ?thesis by simp
  next
    case False
    with E obtain m where m: "window t k = Some (w\<lparr>wnProperties := m\<rparr>)"
      "\<forall>q. umap_find q m = (if q = p then Some v else umap_find q (wnProperties w))" by blast
    have "value_ok u" if "umap_find q m = Some u" for q u
      using that m(2) v P(10) w by (auto simp: values_ok_def split: if_splits)
    with session_inv_properties [OF inv w _ _ _ m(1)] E False set_property_frame [of s w p v] run show ?thesis by simp
  qed
qed

lemma delete_property_keeps:
  assumes inv: "session_inv s" and w: "window s k = Some w"
  shows "session_inv (snd (delete_property w p s))"
proof -
  note P = session_invD [OF inv]
  have id: "wnId w = k" using windows_keyedD(2) [OF P(9) w] .
  obtain d t where run: "delete_property w p s = (d, t)" by fastforce
  note E = delete_property_effect [OF P(5,7) _ run, unfolded id, OF w]
  show ?thesis
  proof (cases "d = QueueFull \<or> umap_find p (wnProperties w) = None")
    case True
    with E inv run show ?thesis by simp
  next
    case False
    then obtain v where "umap_find p (wnProperties w) = Some v" by auto
    with E False have at: "window t k = Some (w\<lparr>wnProperties := umap_erase p (wnProperties w)\<rparr>)"
      and "\<forall>j. j \<noteq> k \<longrightarrow> window t j = window s j" by auto
    have "value_ok u" if "umap_find q (umap_erase p (wnProperties w)) = Some u" for q u
      using that P(10) w properties_okD(3) [OF P(7) w] by (auto simp: values_ok_def umap_find_erase split: if_splits)
    with \<open>\<forall>j. j \<noteq> k \<longrightarrow> window t j = window s j\<close> show ?thesis
      using session_inv_properties [OF inv w _ _ _ at] E delete_property_frame [of s w p] run by simp
  qed
qed

lemma rotate_index_onto:
  assumes "q \<in> set ps"
  shows "\<exists>i < length ps. q = ps ! ((i + delta) mod length ps)"
proof -
  let ?n = "length ps"
  obtain j where j: "j < ?n" "q = ps ! j" using assms by (auto simp: in_set_conv_nth)
  let ?i = "(j + (?n - delta mod ?n)) mod ?n"
  have "(?i + delta) mod ?n = (j + (?n - delta mod ?n) + delta mod ?n) mod ?n" by (simp add: mod_simps)
  also have "j + (?n - delta mod ?n) + delta mod ?n = j + ?n"
    using j(1) mod_less_divisor [of ?n delta] by linarith
  also have "(j + ?n) mod ?n = j" using j(1) by simp
  finally have "(?i + delta) mod ?n = j" .
  moreover have "?i < ?n" using j(1) by (intro mod_less_divisor) linarith
  ultimately show ?thesis using j(2) by (intro exI [of _ ?i]) simp
qed

lemma rotate_properties_keeps:
  assumes inv: "session_inv s" and w: "window s k = Some w"
    and ps: "distinct ps" "\<forall>p \<in> set ps. umap_find p (wnProperties w) \<noteq> None"
  shows "\<exists>d t. rotate_properties w ps delta s = Some (d, t) \<and> session_inv t"
proof -
  note P = session_invD [OF inv]
  have id: "wnId w = k" using windows_keyedD(2) [OF P(9) w] .
  obtain d t m where run: "rotate_properties w ps delta s = Some (d, t)" and ok: "queues_ok t" "properties_ok t"
      and full: "d = QueueFull \<longrightarrow> t = s"
      and win: "window t k = Some (w\<lparr>wnProperties := m\<rparr>)" "\<forall>j. j \<noteq> k \<longrightarrow> window t j = window s j"
      and out: "\<forall>q. q \<notin> set ps \<longrightarrow> umap_find q m = umap_find q (wnProperties w)"
      and at: "d \<noteq> QueueFull \<longrightarrow> (\<forall>i < length ps.
        umap_find (ps ! ((i + delta) mod length ps)) m = umap_find (ps ! i) (wnProperties w))"
    using rotate_properties_exact_run [OF P(5,7) _ ps, unfolded id, OF w, of delta] by blast
  show ?thesis
  proof (cases "d = QueueFull")
    case True
    with run full inv show ?thesis by simp
  next
    case False
    have "value_ok v" if v: "umap_find q m = Some v" for q v
    proof (cases "q \<in> set ps")
      case True
      then obtain i where "i < length ps" "q = ps ! ((i + delta) mod length ps)"
        using rotate_index_onto by metis
      with at False v have "umap_find (ps ! i) (wnProperties w) = Some v" by simp
      with P(10) w show ?thesis by (auto simp: values_ok_def)
    next
      case False
      with out v P(10) w show ?thesis by (auto simp: values_ok_def)
    qed
    then have "session_inv t"
      by (intro session_inv_properties [OF inv w rotate_properties_frame [OF run] ok win(1)]) (use win(2) in simp_all)
    with run show ?thesis by blast
  qed
qed

subsection \<open>Atoms, save sets, selections and messages\<close>

lemma intern_keeps: "session_inv s \<Longrightarrow> session_inv (s\<lparr>ssAtoms := snd (intern name only (ssAtoms s))\<rparr>)"
proof -
  assume inv: "session_inv s"
  let ?t = "s\<lparr>ssAtoms := snd (intern name only (ssAtoms s))\<rparr>"
  note P = session_invD [OF inv]
  have "queues_ok ?t" "selections_ok ?t" using P(5,8) by (simp_all add: queues_ok_def selections_ok_def)
  then have "server_inv ?t" by (intro server_inv_same_windows [OF P(1) request_frame_steps(5)]) simp_all
  then show ?thesis using P(2,3,10) intern_ok by (simp add: session_inv_def root_mapped_def values_ok_def window_def)
qed

lemma alter_save_set_keeps: "session_inv s \<Longrightarrow> session_inv (snd (alter_save_set client w insert_entry to_root map_window s))"
  by (auto simp: alter_save_set_def Let_def session_inv_save_sets split: option.splits)

lemma alter_save_set_updated: "fst (alter_save_set client w insert_entry to_root map_window s) = Updated"
  by (simp add: alter_save_set_def Let_def split: option.splits)

lemma convert_selection_keeps: "session_inv s \<Longrightarrow> session_inv (snd (convert_selection client requestor selection target property time s))"
  by (auto simp: convert_selection_def Let_def session_inv_queue_event split_beta split: option.splits)

definition selection_frame :: "server_state \<Rightarrow> server_state \<Rightarrow> bool" where
  "selection_frame s t \<longleftrightarrow> t = s\<lparr>ssEventQueues := ssEventQueues t, ssPendingEvents := ssPendingEvents t, ssSelections := ssSelections t\<rparr>"

lemma selection_frame_trans: "selection_frame s t \<Longrightarrow> selection_frame t u \<Longrightarrow> selection_frame s u"
  unfolding selection_frame_def by (cases s; cases t; cases u) simp

lemma selection_frame_steps: "selection_frame s s" "selection_frame s (s\<lparr>ssSelections := m\<rparr>)"
    "queues_only s t \<Longrightarrow> selection_frame s t"
proof -
  show "queues_only s t \<Longrightarrow> selection_frame s t"
    by (subst queues_only_def [THEN iffD1], assumption) (simp add: selection_frame_def)
qed (simp_all add: selection_frame_def)

lemma selection_frameD:
  assumes "selection_frame s t"
  shows "request_frame s t" "ssWindows t = ssWindows s" "ssInput t = ssInput s" "ssPropertyBytes t = ssPropertyBytes s"
    "ssAtoms t = ssAtoms s"
  by (subst assms [unfolded selection_frame_def], simp add: request_frame_def)+

lemma set_selection_owner_frame: "selection_frame s (snd (set_selection_owner selection w client time s))"
proof -
  have q: "selection_frame s (snd (queue_events_atomically es s))"
      "selection_frame s ((snd (queue_events_atomically es s))\<lparr>ssSelections := m\<rparr>)" for es m and s :: server_state
    using selection_frame_steps(3) [OF queue_events_queues_only] selection_frame_trans [OF _ selection_frame_steps(2)] by blast+
  have "selection_frame s (snd (queue_events_atomically es (s\<lparr>ssSelections := n\<rparr>)))"
      "selection_frame s ((snd (queue_events_atomically es (s\<lparr>ssSelections := n\<rparr>)))\<lparr>ssSelections := m\<rparr>)" for es m n
    using selection_frame_trans [OF selection_frame_steps(2) q(1)] selection_frame_trans [OF selection_frame_steps(2) q(2)] by blast+
  then show ?thesis unfolding set_selection_owner_def Let_def split_beta using q selection_frame_steps(1) by simp
qed

lemma set_selection_owner_keeps:
  assumes inv: "session_inv s" and client: "client \<noteq> 0"
  shows "session_inv (snd (set_selection_owner selection w client time s))"
proof -
  note P = session_invD [OF inv]
  obtain r t where run: "set_selection_owner selection w client time s = (r, t)" by fastforce
  note F = selection_frameD [OF set_selection_owner_frame [of s selection w client time, unfolded run snd_conv]]
  have "queues_ok t" "selections_ok t"
    using set_selection_owner_effect_run [OF P(5) run] P(5,8) client by (cases "r = SelUpdated"; simp)+
  with session_inv_same_windows [OF inv F] run show ?thesis by simp
qed

lemma queue_to_all_frame: "queues_only s (snd (queue_to_all cs event s))"
proof (induction cs arbitrary: s)
  case (Cons k cs)
  show ?case
    using queue_event_queues_only [of s k event] queues_only_trans [OF queue_event_queues_only Cons.IH]
    by (simp add: Let_def split_beta)
qed simp

lemma queue_to_all_ok: "queues_ok s \<Longrightarrow> queues_ok (snd (queue_to_all cs event s))" for s :: server_state
proof (induction cs arbitrary: s)
  case (Cons k cs)
  then show ?case using queue_event_ok [of s k event] by (auto simp: Let_def split_beta)
qed simp

lemma deliver_client_message_keeps:
  assumes inv: "session_inv s" and k: "window s k \<noteq> None"
  shows "\<exists>d t. deliver_client_message k m propagate event s = Some (d, t) \<and> session_inv t"
proof -
  note P = session_invD [OF inv]
  have to: "session_inv (snd (deliver_to_recipients cs event s))" for cs
    using session_inv_queues [OF inv queue_to_all_frame queue_to_all_ok [OF P(5)]] inv
    by (simp add: deliver_to_recipients_def Let_def split_beta)
  obtain w where "window s k = Some w" using k by auto
  from message_walk_returns [OF P(4) tree_okD(4) [OF P(4) this], of propagate m event] to inv
  show ?thesis unfolding deliver_client_message_def by (metis prod.collapse)
qed

end
