(* ===== verification/Request_Safety.thy ===== *)
theory Request_Safety
  imports Server_Requests
begin

text \<open>
  Every modelled request is answered: its handler returns, the output buffer stays well-formed,
  nothing else of the connection changes, and the invariant of the server holds again.
\<close>

definition answered :: "connection \<Rightarrow> outcome option \<Rightarrow> bool" where
  "answered c out \<longleftrightarrow> (\<exists>err c' s'. out = Some (err, c', s') \<and> output_ok c' \<and> output_only c c' \<and> session_inv s')"

lemma answered_reject [intro]: "output_ok c \<Longrightarrow> session_inv s \<Longrightarrow> answered c (reject code v ctx c s)"
  using queue_bytes_unsent(1) queue_bytes_frame
  by (auto simp: reject_def answered_def send_error_def split: prod.splits)

lemma answered_reply [intro]: "output_ok c \<Longrightarrow> session_inv s \<Longrightarrow> answered c (reply fs ctx c s)"
  using queue_bytes_unsent(1) queue_bytes_frame by (auto simp: reply_def answered_def split: prod.splits)

lemma answered_done [intro]:
  "output_ok c \<Longrightarrow> session_inv s \<Longrightarrow> answered c (malformed ctx c s)"
  "output_ok c \<Longrightarrow> session_inv s \<Longrightarrow> answered c (succeed ctx c s)"
  "output_ok c \<Longrightarrow> session_inv s \<Longrightarrow> answered c (Some (err, c, s))"
  by (simp_all add: malformed_def succeed_def answered_def)

lemma answered_drain [intro]: "output_ok c \<Longrightarrow> session_inv s \<Longrightarrow> answered c (drain ctx c s)"
  using drain_pending_events_run session_inv_drain
  by (cases "drain_pending_events c s") (force simp: drain_def answered_def)

lemma answered_delivered [intro]: "output_ok c \<Longrightarrow> session_inv (snd r) \<Longrightarrow> answered c (delivered ctx c r)"
  by (cases r) (auto simp: delivered_def)

lemma answered_bind:
  "\<exists>r t. m = Some (r, t) \<and> session_inv t \<Longrightarrow> (\<And>r t. session_inv t \<Longrightarrow> answered c (f (r, t))) \<Longrightarrow>
   answered c (Option.bind m f)"
  by auto

lemma answered_delivery:
  "\<exists>r t. m = Some (r, t) \<and> session_inv t \<Longrightarrow> output_ok c \<Longrightarrow>
   answered c (Option.bind m (\<lambda>r. delivered ctx c (queue_full r)))"
  by (rule answered_bind) auto

text \<open>The branches of a handler, each answered on its own.\<close>

lemma answered_if: "(P \<Longrightarrow> answered c a) \<Longrightarrow> (\<not> P \<Longrightarrow> answered c b) \<Longrightarrow> answered c (if P then a else b)"
  by simp

lemma answered_let: "answered c (f x) \<Longrightarrow> answered c (Let x f)"
  by simp

lemma answered_option:
  "(m = None \<Longrightarrow> answered c a) \<Longrightarrow> (\<And>x. m = Some x \<Longrightarrow> answered c (f x)) \<Longrightarrow>
   answered c (case m of None \<Rightarrow> a | Some x \<Rightarrow> f x)"
  by (simp split: option.split)

lemma answered_list:
  "answered c a \<Longrightarrow> (\<And>x xs. l = x # xs \<Longrightarrow> answered c (f x xs)) \<Longrightarrow> answered c (case l of [] \<Rightarrow> a | x # xs \<Rightarrow> f x xs)"
  by (simp split: list.split)

lemma answered_field:
  "(\<And>v. answered c (f v)) \<Longrightarrow> (\<And>v. answered c (g v)) \<Longrightarrow> (\<And>v. answered c (h v)) \<Longrightarrow> (\<And>v. answered c (i v)) \<Longrightarrow>
   answered c (case x of F8 v \<Rightarrow> f v | F16 v \<Rightarrow> g v | F32 v \<Rightarrow> h v | F64 v \<Rightarrow> i v)"
  by (simp split: wire_field.split)

lemma answered_pair: "(\<And>x y. p = (x, y) \<Longrightarrow> answered c (f x y)) \<Longrightarrow> answered c (case p of (x, y) \<Rightarrow> f x y)"
  by (simp split: prod.split)

lemmas answered_branches = answered_if answered_let answered_option answered_list answered_field answered_pair
lemmas answered_ends = answered_reject answered_reply answered_done answered_drain

lemmas argument_splits = option.split list.split wire_field.split

subsection \<open>Whole items\<close>

lemma canonical_units_items:
  assumes "canonical_units format r acc = Some out" "format = 16 \<or> format = 32" "length acc mod (format div 8) = 0"
  shows "length out mod (format div 8) = 0"
  using assms
proof (induction format r acc rule: canonical_units.induct)
  case (1 format r acc)
  show ?case
  proof (cases "rd_remaining r = 0")
    case True
    with "1.prems" show ?thesis by (simp add: canonical_units.simps [of format r])
  next
    case False
    show ?thesis
    proof (cases "format = 16")
      case True
      from "1.prems"(1) False True obtain v r' where v: "rd_u16 r = (Some v, r')"
        "canonical_units format r' (acc @ [ucast v, ucast (drop_bit 8 v)]) = Some out"
        by (auto simp: canonical_units.simps [of 16 r] split: prod.splits option.splits)
      have "length (acc @ [ucast v, ucast (drop_bit 8 v)]) mod (format div 8) = 0"
        using "1.prems"(3) True by (simp; presburger?)
      with "1.IH"(1) [OF False True v(1) [symmetric] refl v(2) "1.prems"(2)] show ?thesis .
    next
      case f: False
      then have 32: "format = 32" using "1.prems"(2) by simp
      from "1.prems"(1) False f obtain v r' where v: "rd_u32 r = (Some v, r')"
        "canonical_units format r' (acc @ map (\<lambda>shift. ucast (drop_bit shift v)) [0, 8, 16, 24]) = Some out"
        using 32 by (auto simp: canonical_units.simps [of 32 r] split: prod.splits option.splits)
      have "length (acc @ map (\<lambda>shift. ucast (drop_bit shift v)) [0, 8, 16, 24]) mod (format div 8) = 0"
        using "1.prems"(3) 32 by (simp; presburger?)
      with "1.IH"(2) [OF False f v(1) [symmetric] refl v(2) "1.prems"(2)] show ?thesis .
    qed
  qed
qed

lemma canonical_property_data_items:
  assumes "canonical_property_data data format order = Some out" "format \<in> {8, 16, 32}"
  shows "length out mod (format div 8) = 0"
  using assms canonical_units_items [of format "wire_reader_init data order" "[]" out]
  by (auto simp: canonical_property_data_def)

lemma wire_units_16_total:
  assumes "length data mod 2 = 0" "offset mod 2 = 0"
  shows "wire_units 16 data offset w \<noteq> None"
  using assms
proof (induction "length data - offset" arbitrary: offset w rule: less_induct)
  case less
  show ?case
  proof (cases "offset < length data")
    case True
    with less.prems have "offset + 1 < length data" by presburger
    moreover from less.hyps [of "offset + 2"] True less.prems
    have "wire_units 16 data (offset + 2) w' \<noteq> None" for w' by simp
    ultimately show ?thesis by (subst wire_units.simps) (simp add: byte_at_def)
  qed (simp add: wire_units.simps)
qed

lemma wire_units_32_total:
  assumes "length data mod 4 = 0" "offset mod 4 = 0"
  shows "wire_units 32 data offset w \<noteq> None"
  using assms
proof (induction "length data - offset" arbitrary: offset w rule: less_induct)
  case less
  show ?case
  proof (cases "offset < length data")
    case True
    with less.prems have "offset + 3 < length data" by presburger
    moreover from less.hyps [of "offset + 4"] True less.prems
    have "wire_units 32 data (offset + 4) w' \<noteq> None" for w' by simp
    ultimately show ?thesis by (subst wire_units.simps) (simp add: byte_at_def)
  qed (simp add: wire_units.simps)
qed

text \<open>The slice of a value that \<open>GetProperty\<close> returns consists of whole items.\<close>

lemma wire_property_data_slice:
  assumes v: "value_ok v" and off: "offset mod 4 = 0" "offset \<le> length (pvData v)"
    and n: "n = min m (length (pvData v) - offset)" "m mod 4 = 0"
  shows "wire_property_data (take n (drop offset (pvData v))) (pvFormat v) order \<noteq> None"
proof -
  have "length (take n (drop offset (pvData v))) = n" using n by simp
  moreover have "n mod 2 = 0" if "length (pvData v) mod 2 = 0" using that off n by (cases "m \<le> length (pvData v) - offset"; simp; presburger?)
  moreover have "n mod 4 = 0" if "length (pvData v) mod 4 = 0" using that off n by (cases "m \<le> length (pvData v) - offset"; simp; presburger?)
  ultimately show ?thesis
    using v wire_units_16_total [of "take n (drop offset (pvData v))" 0] wire_units_32_total [of "take n (drop offset (pvData v))" 0]
    by (auto simp: wire_property_data_def value_ok_def)
qed

subsection \<open>The handlers\<close>

lemma delivered_keeps: "session_inv (snd r) \<Longrightarrow> session_inv (snd (queue_full r))"
  by (cases r) simp

lemma window_handlers_answered:
  assumes ok: "output_ok c" and inv: "session_inv s"
  shows "answered c (handle_destroy_window ctx c s)" "answered c (handle_destroy_subwindows ctx c s)"
    "answered c (handle_map_subwindows ctx c s)" "answered c (handle_unmap_subwindows ctx c s)"
    "answered c (handle_unmap_window ctx c s)" "answered c (handle_query_tree ctx c s)"
proof -
  have sub: "\<exists>r t. set_subwindows_mapped k mapped s = Some (r, t) \<and> session_inv t" for k mapped
    using set_subwindows_mapped_keeps [OF inv] by blast
  note ops = answered_delivery [OF destroy_window_keeps [OF inv] ok] answered_delivery [OF destroy_subwindows_keeps [OF inv] ok]
    answered_delivery [OF sub ok] answered_delivery [OF set_window_mapped_keeps [OF inv] ok]
  show "answered c (handle_destroy_window ctx c s)" "answered c (handle_destroy_subwindows ctx c s)"
    "answered c (handle_map_subwindows ctx c s)" "answered c (handle_unmap_subwindows ctx c s)"
    "answered c (handle_unmap_window ctx c s)" "answered c (handle_query_tree ctx c s)"
    unfolding handle_destroy_window_def handle_destroy_subwindows_def handle_map_subwindows_def
      handle_unmap_subwindows_def handle_unmap_window_def handle_query_tree_def Let_def
    using ok inv ops by (auto split: argument_splits)
qed

lemma change_save_set_answered:
  assumes ok: "output_ok c" and inv: "session_inv s"
  shows "answered c (handle_change_save_set ctx c s)"
proof -
  have "session_inv (snd (alter_save_set client k insert_entry r m s))" for client k insert_entry r m
    by (rule alter_save_set_keeps [OF inv])
  then show ?thesis
    using ok inv unfolding handle_change_save_set_def Let_def split_beta by (auto split: argument_splits)
qed

lemma reparent_window_answered:
  assumes ok: "output_ok c" and inv: "session_inv s"
  shows "answered c (handle_reparent_window ctx c s)"
proof -
  have "answered c (Option.bind (reparent_window k p x y s) (\<lambda>(r, t).
      if r = ReparentInvalid then reject bad_match 0 ctx c t else delivered ctx c (r = ReparentQueueFull, t)))" for k p x y
    by (rule answered_bind [OF reparent_window_keeps [OF inv]]) (use ok in auto)
  then show ?thesis
    using ok inv unfolding handle_reparent_window_def by (auto split: argument_splits)
qed

lemma map_window_answered:
  assumes ok: "output_ok c" and inv: "session_inv s"
  shows "answered c (handle_map_window ctx c s)"
proof -
  have "answered c (case redirect_map_request (cnClient c) w s of
       (RedirectQueueFull, t) \<Rightarrow> reject bad_alloc 0 ctx c t
     | (Redirected, t) \<Rightarrow> drain ctx c t
     | (NotRedirected, t) \<Rightarrow> Option.bind (set_window_mapped w True t) (\<lambda>r. delivered ctx c (queue_full r)))"
    if w: "window s k = Some w" for k w
  proof -
    obtain r t where r: "redirect_map_request (cnClient c) w s = (r, t)" by fastforce
    have t: "session_inv t" "window t k = Some w"
      using redirect_map_request_keeps [OF inv, of "cnClient c" w] redirect_map_request_windows [of "cnClient c" w s] w
      by (simp_all add: r window_def)
    show ?thesis
      using answered_delivery [OF set_window_mapped_keeps [OF t] ok] ok t(1) by (auto simp: r split: redirect_delivery.split)
  qed
  then show ?thesis using ok inv unfolding handle_map_window_def by (auto split: argument_splits)
qed

lemma circulate_window_answered:
  assumes ok: "output_ok c" and inv: "session_inv s"
  shows "answered c (handle_circulate_window ctx c s)"
proof -
  have "answered c (case redirect_circulate_request (cnClient c) w b s of
       (RedirectQueueFull, t) \<Rightarrow> reject bad_alloc 0 ctx c t
     | (Redirected, t) \<Rightarrow> drain ctx c t
     | (NotRedirected, t) \<Rightarrow> delivered ctx c (queue_full (circulate_window k b t)))" for k w b
  proof -
    obtain r t where r: "redirect_circulate_request (cnClient c) w b s = (r, t)" by fastforce
    have t: "session_inv t" using redirect_circulate_request_keeps [OF inv, of "cnClient c" w b] by (simp add: r)
    show ?thesis
      using answered_delivered [OF ok delivered_keeps [OF circulate_window_keeps [OF t]]] ok t
      by (auto simp: r split: redirect_delivery.split)
  qed
  then show ?thesis using ok inv unfolding handle_circulate_window_def by (auto split: argument_splits)
qed

lemma atom_handlers_answered:
  assumes ok: "output_ok c" and inv: "session_inv s"
  shows "answered c (handle_intern_atom ctx c s)" "answered c (handle_get_atom_name ctx c s)"
proof -
  have "session_inv (s\<lparr>ssAtoms := atoms\<rparr>)" if "intern name b (ssAtoms s) = (atom, atoms)" for name b atom atoms
    using intern_keeps [OF inv, of name b] that by simp
  then show "answered c (handle_intern_atom ctx c s)" "answered c (handle_get_atom_name ctx c s)"
    unfolding handle_intern_atom_def handle_get_atom_name_def
    by (intro answered_branches answered_ends ok inv; assumption)+
qed

lemma selection_handlers_answered:
  assumes ok: "output_ok c" and inv: "session_inv s" and client: "cnClient c \<noteq> 0"
  shows "answered c (handle_set_selection_owner ctx c s)" "answered c (handle_get_selection_owner ctx c s)"
    "answered c (handle_convert_selection ctx c s)"
  unfolding handle_set_selection_owner_def handle_get_selection_owner_def handle_convert_selection_def Let_def split_beta
  using ok inv set_selection_owner_keeps [OF inv client] answered_delivered [OF ok delivered_keeps [OF convert_selection_keeps [OF inv]]]
  by (auto split: argument_splits)

lemma send_event_answered:
  assumes ok: "output_ok c" and inv: "session_inv s"
  shows "answered c (handle_send_event ctx c s)"
proof -
  have "answered c (Option.bind (deliver_client_message k m p event s) (\<lambda>(d, t).
      if d = QueueFull then reject bad_alloc 0 ctx c t else succeed ctx c t))" if "window s k \<noteq> None" for k m p event
    by (rule answered_bind [OF deliver_client_message_keeps [OF inv that]]) (use ok in auto)
  then show ?thesis
    unfolding handle_send_event_def by (intro answered_branches answered_ends ok inv)
qed

lemma combined_data_ok:
  assumes "length canonical mod (format div 8) = 0" "format \<in> {8, 16, 32}"
    and "\<And>v. existing = Some v \<Longrightarrow> mode \<noteq> 0 \<Longrightarrow> value_ok v \<and> pvFormat v = format"
  shows "value_ok \<lparr>pvType = type, pvFormat = format, pvData = combined_data mode existing canonical\<rparr>"
proof -
  have "length (combined_data mode existing canonical) mod (format div 8) = 0"
    using assms(1) assms(3) by (cases existing) (auto simp: combined_data_def value_ok_def mod_eq_0_iff_dvd intro: dvd_add)
  with assms(2) show ?thesis by (simp add: value_ok_def)
qed

lemma change_property_answered:
  assumes ok: "output_ok c" and inv: "session_inv s" and w: "window s k = Some w"
    and items: "length canonical mod (format div 8) = 0" "format \<in> {8, 16, 32}"
  shows "answered c (change_property ctx w property type format canonical c s)"
proof -
  let ?existing = "umap_find property (wnProperties w)"
  have "answered c (delivered ctx c (queue_full (set_property w property
      \<lparr>pvType = type, pvFormat = format, pvData = combined_data (rcData ctx) ?existing canonical\<rparr> s)))"
    if "\<not> (case ?existing of None \<Rightarrow> False | Some v \<Rightarrow> rcData ctx \<noteq> 0 \<and> (pvType v \<noteq> type \<or> pvFormat v \<noteq> format))"
  proof (intro answered_delivered ok delivered_keeps set_property_keeps [OF inv w] combined_data_ok items)
    fix v assume v: "?existing = Some v" "rcData ctx \<noteq> 0"
    then have "value_ok v" using session_invD(10) [OF inv] w by (auto simp: values_ok_def)
    with v that show "value_ok v \<and> pvFormat v = format" by simp
  qed
  then show ?thesis
    unfolding change_property_def Let_def by (intro answered_branches answered_ends ok inv)
qed

lemma change_property_handler_answered:
  assumes ok: "output_ok c" and inv: "session_inv s"
  shows "answered c (handle_change_property ctx c s)"
proof -
  have step: "answered c (change_property ctx w property type (unat format) canonical c s)"
    if "window s k = Some w" "\<not> (format \<noteq> 8 \<and> format \<noteq> 16 \<and> format \<noteq> 32)"
      "canonical_property_data data (unat format) (rcOrder ctx) = Some canonical"
    for k w data property type canonical and format :: u8
  proof -
    have f: "unat format \<in> {8, 16, 32}" using that(2) by auto
    show ?thesis by (rule change_property_answered [OF ok inv that(1) canonical_property_data_items [OF that(3) f] f])
  qed
  show ?thesis
    unfolding handle_change_property_def Let_def by (intro answered_branches answered_ends ok inv step; assumption)
qed

lemma delete_property_answered:
  assumes ok: "output_ok c" and inv: "session_inv s"
  shows "answered c (handle_delete_property ctx c s)"
proof -
  note delete_property_keeps [OF inv]
  then show ?thesis
    unfolding handle_delete_property_def
    by (intro answered_branches answered_ends answered_delivered delivered_keeps ok inv)
qed

lemma send_property_answered:
  assumes ok: "output_ok c" and inv: "session_inv s" and w: "window s k = Some w"
  shows "answered c (send_property ctx w property value matching_type bytes_after encoded c s)"
proof -
  obtain full t where r: "(if rcData ctx \<noteq> 0 \<and> matching_type \<and> bytes_after = 0
      then queue_full (delete_property w property s) else (False, s)) = (full, t)" by fastforce
  have "session_inv (snd (queue_full (delete_property w property s)))"
    by (rule delivered_keeps [OF delete_property_keeps [OF inv w]])
  then have "session_inv (snd (if rcData ctx \<noteq> 0 \<and> matching_type \<and> bytes_after = 0
      then queue_full (delete_property w property s) else (False, s)))"
    using inv by simp
  then have t: "session_inv t" by (simp only: r snd_conv)
  have "answered c (case queue_bytes bytes c of (Some err, c1) \<Rightarrow> Some (Some err, c1, t) | (None, c1) \<Rightarrow> drain ctx c1 t)" for bytes
  proof -
    obtain err c1 where q: "queue_bytes bytes c = (err, c1)" by fastforce
    have c1: "output_ok c1" "output_only c c1" using queue_bytes_unsent(1) [OF q ok] queue_bytes_frame [OF q] .
    show ?thesis
      using answered_drain [OF c1(1) t, of ctx] c1 t output_only_trans [OF c1(2)]
      by (cases err) (auto simp: q answered_def)
  qed
  then show ?thesis
    unfolding send_property_def Let_def r by (auto intro: answered_reject ok t)
qed

lemma word_times_four: "checked_multiply 64 (uint (x :: u32)) 4 = Some (uint x * 4)"
proof -
  have "uint x < 4294967296" "0 \<le> uint x" using uint_lt2p [of x] by simp_all
  then show ?thesis by (subst checked_multiply_exact) (simp_all add: fits_unsigned_def u_max_def)
qed

lemma property_window_slice:
  assumes "property_window (Some v) matching_type long_offset long_length = Inr (offset, returned, bytes_after)" "matching_type"
  shows "offset mod 4 = 0" "offset \<le> length (pvData v)"
    "\<exists>m. returned = min m (length (pvData v) - offset) \<and> m mod 4 = 0"
proof -
  let ?off = "nat (uint long_offset * 4)" and ?m = "nat (uint long_length * 4)"
  from assms have r: "\<not> uint long_offset * 4 > int (length (pvData v))" "offset = ?off"
    "returned = min ?m (length (pvData v) - ?off)"
    by (auto simp: property_window_def word_times_four Let_def split: if_splits)
  have four: "nat (uint x * 4) mod 4 = 0" for x :: u32 by (simp add: nat_mult_distrib)
  show "offset mod 4 = 0" "offset \<le> length (pvData v)" using r four by simp_all
  show "\<exists>m. returned = min m (length (pvData v) - offset) \<and> m mod 4 = 0"
    using r four by blast
qed

lemma get_property_answered:
  assumes ok: "output_ok c" and inv: "session_inv s"
  shows "answered c (handle_get_property ctx c s)"
proof -
  have step: "answered c (case property_window stored matching_type long_offset long_length of
       Inl v \<Rightarrow> reject bad_value v ctx c s
     | Inr (offset, returned, bytes_after) \<Rightarrow>
         Option.bind (case stored of
             Some v \<Rightarrow> if matching_type \<and> returned \<noteq> 0
                       then wire_property_data (take returned (drop offset (pvData v))) (pvFormat v) (rcOrder ctx)
                       else Some []
           | None \<Rightarrow> Some []) (\<lambda>encoded.
           send_property ctx w property stored matching_type bytes_after encoded c s))"
    if w: "window s k = Some w" and found: "stored = umap_find property (wnProperties w)"
    for k w property matching_type long_offset long_length and stored :: "property_value option"
  proof (cases "property_window stored matching_type long_offset long_length")
    case (Inr r)
    obtain offset returned bytes_after where r: "r = (offset, returned, bytes_after)" by (metis prod_cases3)
    have "(case stored of Some v \<Rightarrow> if matching_type \<and> returned \<noteq> 0
        then wire_property_data (take returned (drop offset (pvData v))) (pvFormat v) (rcOrder ctx) else Some []
      | None \<Rightarrow> Some []) \<noteq> None"
    proof (cases stored)
      case (Some v)
      then have v: "value_ok v" using session_invD(10) [OF inv] w found by (auto simp: values_ok_def)
      show ?thesis
      proof (cases matching_type)
        case True
        note slice = property_window_slice [OF Inr [unfolded r Some] True]
        from slice(3) obtain m where m: "returned = min m (length (pvData v) - offset)" "m mod 4 = 0" by (elim exE conjE)
        show ?thesis using wire_property_data_slice [OF v slice(1,2) m] by (simp add: Some)
      qed (simp add: Some)
    qed simp
    then obtain encoded where e: "(case stored of Some v \<Rightarrow> if matching_type \<and> returned \<noteq> 0
        then wire_property_data (take returned (drop offset (pvData v))) (pvFormat v) (rcOrder ctx) else Some []
      | None \<Rightarrow> Some []) = Some encoded" by blast
    show ?thesis
      unfolding Inr r sum.case prod.case e bind.bind_lunit
      by (rule send_property_answered [OF ok inv w])
  qed (use ok inv in auto)
  show ?thesis
    unfolding handle_get_property_def Let_def
    apply (intro answered_if answered_option answered_list answered_field answered_ends ok inv)
    apply (rule step)
    apply assumption
    apply (rule refl)
    done
qed

lemma list_properties_answered:
  assumes ok: "output_ok c" and inv: "session_inv s"
  shows "answered c (handle_list_properties ctx c s)"
  unfolding handle_list_properties_def Let_def
  by (intro answered_branches answered_ends ok inv)

lemma rotation_error_None:
  assumes "rotation_error s w atoms rest = None" "a \<in> set rest"
  shows "count_list atoms a \<le> 1" "umap_find a (wnProperties w) \<noteq> None"
proof -
  have "length (filter (\<lambda>b. b = a) atoms) \<le> 1" "umap_find a (wnProperties w) \<noteq> None"
    using assms by (induction rest) (auto split: if_splits)
  moreover have "(\<lambda>b. b = a) = (=) a" by auto
  ultimately show "count_list atoms a \<le> 1" "umap_find a (wnProperties w) \<noteq> None"
    by (simp_all add: count_list_eq_length_filter)
qed

lemma distinct_count_list: "(\<forall>a \<in> set xs. count_list xs a \<le> 1) \<Longrightarrow> distinct xs"
  by (induction xs) (auto simp: count_list_0_iff split: if_splits)

lemma rotate_properties_answered:
  assumes ok: "output_ok c" and inv: "session_inv s"
  shows "answered c (handle_rotate_properties ctx c s)"
proof -
  have step: "answered c (Option.bind (rotate_properties w atoms (nat delta) s) (\<lambda>r. delivered ctx c (queue_full r)))"
    if w: "window s k = Some w" and none: "rotation_error s w atoms atoms = None" for k w atoms delta
  proof (rule answered_delivery [OF _ ok], rule rotate_properties_keeps [OF inv w])
    show "distinct atoms" "\<forall>p \<in> set atoms. umap_find p (wnProperties w) \<noteq> None"
      using rotation_error_None [OF none] by (auto intro: distinct_count_list)
  qed
  show ?thesis
    unfolding handle_rotate_properties_def Let_def
    by (intro answered_branches answered_ends ok inv step; assumption)
qed

lemma no_operation_answered:
  assumes ok: "output_ok c" and inv: "session_inv s"
  shows "answered c (handle_no_operation ctx c s)"
  unfolding handle_no_operation_def by (intro answered_branches answered_ends ok inv)

lemmas handlers_answered =
  window_handlers_answered change_save_set_answered reparent_window_answered map_window_answered
  circulate_window_answered atom_handlers_answered send_event_answered
  change_property_handler_answered delete_property_answered get_property_answered
  list_properties_answered rotate_properties_answered no_operation_answered

subsection \<open>The state the server starts in\<close>

lemma initial_session: "session_inv (initial_state width height bytes)"
proof (rule session_invI)
  let ?s = "initial_state width height bytes"
  have w: "window ?s k = (if k = root_window_id then Some (root_window_record width height) else None)" for k
    by (simp add: initial_state_def window_def umap_find_def)
  have "input_ok ?s" by (simp add: input_ok_def w) (simp add: initial_state_def)
  moreover have "properties_ok ?s"
  proof -
    have "umap_sum window_property_bytes (ssWindows ?s) = 0" "device_property_bytes ?s = 0" "ssPropertyBytes ?s = 0"
      by (simp_all add: initial_state_def umap_sum_def window_property_bytes_def root_window_record_def
          window_default_def device_property_bytes_def)
    moreover have "windows_keyed ?s" by (rule tree_okD(1) [OF initial_tree_ok])
    ultimately show ?thesis by (auto simp: properties_ok_def w root_window_record_def window_default_def split: if_splits)
  qed
  moreover have "selections_ok ?s"
    by (simp add: selections_ok_def initial_state_def umap_ok_def umap_find_def)
  moreover have "presents_registered ?s" "passive_windows_ok ?s" "grabs_ok (ssPassiveGrabs ?s)" "xi2_ok ?s"
    by (simp_all add: presents_registered_def passive_windows_ok_def grabs_ok_def xi2_ok_def initial_state_def)
  ultimately show "server_inv ?s"
    using initial_tree_ok initial_queues_ok initial_resources_ok initial_sync_ok by (simp add: server_inv_def)
  show "root_mapped ?s" by (simp add: root_mapped_def initial_state_def window_def umap_find_def root_window_record_def window_default_def)
  show "values_ok ?s" by (simp add: values_ok_def initial_state_def window_def umap_find_def root_window_record_def window_default_def)
  show "atoms_ok (ssAtoms ?s)" by (simp add: initial_state_def intern_ok atoms_ok_init)
qed

lemma connected_session: "session_inv connected_state"
  by (simp add: connected_state_def initial_session)

end
