(* ===== verification/Control_Safety.thy ===== *)
theory Control_Safety
  imports Request_Safety Grab_Requests
begin

text \<open>
  The queries, the controls, the colormaps and the grabs are answered as well (\<open>answered\<close> of
  \<open>Request_Safety\<close>): what their operations change of the server, its invariant does not read, or
  the operations of the grabs are known to keep.
\<close>

subsection \<open>Queries\<close>

lemma answered_refuse [intro]: "output_ok c \<Longrightarrow> session_inv s \<Longrightarrow> answered c (refuse code ctx c s)"
  using queue_bytes_unsent(1) queue_bytes_frame
  by (auto simp: refuse_def answered_def send_error_def split: prod.splits)

lemma answered_bind_pure: "m \<noteq> None \<Longrightarrow> (\<And>x. m = Some x \<Longrightarrow> answered c (f x)) \<Longrightarrow> answered c (Option.bind m f)"
  by auto

lemma answered_sum:
  "(\<And>e. v = Inl e \<Longrightarrow> answered c (f e)) \<Longrightarrow> (\<And>x. v = Inr x \<Longrightarrow> answered c (g x)) \<Longrightarrow>
   answered c (case v of Inl e \<Rightarrow> f e | Inr x \<Rightarrow> g x)"
  by (simp split: sum.split)

lemmas query_branches = answered_branches answered_sum answered_ends answered_refuse

lemma walks_return:
  assumes "session_inv s"
  shows "map_state s k \<noteq> None" "viewable s k \<noteq> None"
    "window s k \<noteq> None \<Longrightarrow> absolute_position s k \<noteq> None"
    "window s k = Some w \<Longrightarrow> child_window_at s k x y \<noteq> None"
proof -
  note tree = session_invD(4) [OF assms]
  show "map_state s k \<noteq> None" "viewable s k \<noteq> None" by (simp_all add: map_state_returns [OF tree] viewable_def)
  show "window s k \<noteq> None \<Longrightarrow> absolute_position s k \<noteq> None"
    using absolute_position_returns [OF tree] by fastforce
  show "window s k = Some w \<Longrightarrow> child_window_at s k x y \<noteq> None"
    using child_window_at_returns [OF tree] by fastforce
qed

lemma bare_answered: "output_ok c \<Longrightarrow> session_inv s \<Longrightarrow> answered c (bare answer ctx c s)"
  unfolding bare_def by (intro query_branches)

lemma query_handlers_answered:
  assumes ok: "output_ok c" and inv: "session_inv s"
  shows "answered c (handle_get_keyboard_control ctx c s)" "answered c (handle_get_pointer_control ctx c s)"
    "answered c (handle_get_modifier_mapping ctx c s)" "answered c (handle_get_input_focus ctx c s)"
    "answered c (handle_query_keymap ctx c s)" "answered c (handle_get_screen_saver ctx c s)"
    "answered c (handle_list_hosts ctx c s)" "answered c (handle_get_pointer_mapping ctx c s)"
    "answered c (handle_get_motion_events ctx c s)" "answered c (handle_query_best_size ctx c s)"
    "answered c (handle_bell ctx c s)" "answered c (handle_change_hosts ctx c s)"
    "answered c (handle_set_close_down_mode ctx c s)" "answered c (handle_query_extension mitshm ctx c s)"
    "answered c (handle_list_extensions mitshm ctx c s)" "answered c (handle_xc_misc ctx c s)"
    "answered c (handle_generic_event ctx c s)"
  unfolding handle_get_keyboard_control_def handle_get_pointer_control_def handle_get_modifier_mapping_def
    handle_get_input_focus_def handle_query_keymap_def handle_get_screen_saver_def handle_list_hosts_def
    handle_get_pointer_mapping_def handle_get_motion_events_def handle_query_best_size_def handle_bell_def
    handle_change_hosts_def handle_set_close_down_mode_def handle_query_extension_def handle_list_extensions_def
    handle_xc_misc_def handle_generic_event_def Let_def split_beta
  by (intro query_branches bare_answered ok inv)+

lemma window_queries_answered:
  assumes ok: "output_ok c" and inv: "session_inv s"
  shows "answered c (handle_get_window_attributes ctx c s)" "answered c (handle_query_pointer ctx c s)"
    "answered c (handle_translate_coordinates ctx c s)"
proof -
  note w = walks_return [OF inv]
  show "answered c (handle_get_window_attributes ctx c s)"
    unfolding handle_get_window_attributes_def by (intro query_branches answered_bind_pure ok inv w)
  have child: "(if P then child_window_at s k x y else Some 0) \<noteq> None" if "window s k = Some v" for P k v x y
    using w(4) [OF that] by simp
  show "answered c (handle_query_pointer ctx c s)"
    unfolding handle_query_pointer_def Let_def
    by (intro query_branches answered_bind_pure ok inv w(1) w(3) child) simp_all
  show "answered c (handle_translate_coordinates ctx c s)"
    unfolding handle_translate_coordinates_def Let_def
    by (intro query_branches answered_bind_pure ok inv w(3)) simp_all
qed

subsection \<open>Colors and colormaps\<close>

lemma color_queries_answered:
  assumes ok: "output_ok c" and inv: "session_inv s"
  shows "answered c (handle_list_installed_colormaps ctx c s)" "answered c (handle_alloc_color ctx c s)"
    "answered c (handle_alloc_named_color ctx c s)" "answered c (handle_lookup_color ctx c s)"
    "answered c (handle_alloc_color_cells ctx c s)" "answered c (handle_alloc_color_planes ctx c s)"
    "answered c (handle_free_colors ctx c s)" "answered c (handle_query_colors ctx c s)"
    "answered c (handle_store_colors ctx c s)" "answered c (handle_store_named_color ctx c s)"
  unfolding handle_list_installed_colormaps_def handle_alloc_color_def handle_alloc_named_color_def
    handle_lookup_color_def named_color_def handle_alloc_color_cells_def handle_alloc_color_planes_def
    handle_free_colors_def handle_query_colors_def handle_store_colors_def handle_store_named_color_def Let_def
  by (intro query_branches ok inv)+

subsection \<open>Controls\<close>

lemma session_inv_input:
  assumes inv: "session_inv s" and fr: "request_frame s t" "ssWindows t = ssWindows s" "ssPropertyBytes t = ssPropertyBytes s"
      "ssAtoms t = ssAtoms s" "ssSelections t = ssSelections s" and t: "queues_ok t" "input_ok t"
  shows "session_inv t"
proof (rule session_invI)
  note P = session_invD [OF inv]
  show "server_inv t"
  proof (rule server_inv_frame [OF P(1) fr(1) _ t])
    show "tree_ok t" using P(4) tree_ok_cong [OF fr(2)] by simp
    have "device_property_bytes t = device_property_bytes s"
      by (subst fr(1) [unfolded request_frame_def]) (simp add: device_property_bytes_def)
    then show "properties_ok t" using P(7) by (simp add: properties_ok_def windows_keyed_def window_def fr(2,3))
    show "selections_ok t" using P(8) by (simp add: selections_ok_def fr(5))
    show "window t j = None \<longleftrightarrow> window s j = None" for j by (simp add: window_def fr(2))
  qed
  show "root_mapped t" "values_ok t" "atoms_ok (ssAtoms t)"
    using P(2,3,10) by (simp_all add: root_mapped_def values_ok_def window_def fr(2,4))
qed

text \<open>Steps on scalars and on the parts of the input that are no windows.\<close>

lemma session_inv_scalars:
  assumes "session_inv s"
  shows "session_inv (s\<lparr>ssServerGrabOwner := k\<rparr>)" "session_inv (s\<lparr>ssScreenSaver := v\<rparr>)"
    "session_inv (s\<lparr>ssAccessControlEnabled := b\<rparr>)" "session_inv (s\<lparr>ssClientsToTerminate := ks\<rparr>)"
    "session_inv (s\<lparr>ssInstalledColormap := k\<rparr>)" "session_inv (s\<lparr>ssKeyRepeat := r\<rparr>)"
  by (rule session_inv_minor [OF assms]; simp add: request_frame_def)+

lemma session_inv_device:
  assumes "session_inv s" "inFocus i = inFocus (ssInput s)" "inPointerGrab i = inPointerGrab (ssInput s)"
    "inKeyboardGrab i = inKeyboardGrab (ssInput s)"
  shows "session_inv (s\<lparr>ssInput := i\<rparr>)"
  using session_invD(5,6) [OF assms(1)] assms(2-4)
  by (intro session_inv_input [OF assms(1)]) (simp_all add: request_frame_def queues_ok_def input_ok_def window_def)

lemma control_handlers_answered:
  assumes ok: "output_ok c" and inv: "session_inv s"
  shows "answered c (handle_grab_server ctx c s)" "answered c (handle_ungrab_server ctx c s)"
    "answered c (handle_set_screen_saver ctx c s)" "answered c (handle_force_screen_saver ctx c s)"
    "answered c (handle_set_access_control ctx c s)" "answered c (handle_install_colormap ctx c s)"
    "answered c (handle_uninstall_colormap ctx c s)"
proof -
  note k = session_inv_scalars [OF inv]
  have "session_inv (grab_server k s)" "session_inv (ungrab_server k s)" "session_inv (set_screen_saver v s)"
      "session_inv (install_colormap k s)" for k v
    using inv k by (simp_all add: grab_server_def ungrab_server_def set_screen_saver_def install_colormap_def)
  then show "answered c (handle_grab_server ctx c s)" "answered c (handle_ungrab_server ctx c s)"
    "answered c (handle_set_screen_saver ctx c s)" "answered c (handle_force_screen_saver ctx c s)"
    "answered c (handle_set_access_control ctx c s)" "answered c (handle_install_colormap ctx c s)"
    "answered c (handle_uninstall_colormap ctx c s)"
    unfolding handle_grab_server_def handle_ungrab_server_def handle_set_screen_saver_def handle_force_screen_saver_def
      handle_set_access_control_def handle_install_colormap_def handle_uninstall_colormap_def
    using ok inv k by (auto split: argument_splits)
qed

lemma kill_client_answered:
  assumes ok: "output_ok c" and inv: "session_inv s"
  shows "answered c (handle_kill_client ctx c s)"
proof -
  have "session_inv (snd (request_client_termination resource s))" for resource
    using inv session_inv_scalars(4) [OF inv] by (auto simp: request_client_termination_def split: option.split)
  then show ?thesis
    unfolding handle_kill_client_def Let_def split_beta by (intro query_branches ok inv)
qed

lemma change_pointer_control_answered:
  assumes ok: "output_ok c" and inv: "session_inv s"
  shows "answered c (handle_change_pointer_control ctx c s)"
proof -
  have "session_inv (s\<lparr>ssInput := (ssInput s)\<lparr>inPointerAccelerationNumerator := n,
      inPointerAccelerationDenominator := d, inPointerThreshold := t\<rparr>\<rparr>)" for n d t
    by (rule session_inv_device [OF inv]) simp_all
  then show ?thesis
    unfolding handle_change_pointer_control_def change_pointer_control_def Let_def by (intro query_branches ok inv)
qed

lemma session_inv_queue_events: "session_inv s \<Longrightarrow> session_inv (snd (queue_events_atomically es s))"
  by (rule session_inv_queues [OF _ queue_events_queues_only]) (simp_all add: session_invD queue_events_atomically_ok)

text \<open>The end of a mapping request: the events, then the reply.\<close>

lemma answered_after_drain:
  assumes "output_ok c" "session_inv s"
  shows "answered c (reply_after_events fs ctx c s)"
proof -
  obtain err c1 s1 where d: "drain_pending_events c s = (err, c1, s1)" by (metis prod_cases3)
  have c1: "output_ok c1" "output_only c c1" "session_inv s1"
    using drain_pending_events_run [OF d assms(1)] session_inv_drain [OF d assms] by blast+
  have "answered c1 (reply fs ctx c1 s1)" by (rule answered_reply [OF c1(1,3)])
  then show ?thesis
    using c1 output_only_trans [OF c1(2)] by (cases err) (auto simp: reply_after_events_def d answered_def)
qed

lemma mapping_handlers_answered:
  assumes ok: "output_ok c" and inv: "session_inv s"
  shows "answered c (handle_set_pointer_mapping ctx c s)" "answered c (handle_set_modifier_mapping ctx c s)"
proof -
  have told: "session_inv (snd (broadcast_mapping_notify request first count s))" for request first count
    by (simp add: broadcast_mapping_notify_def Let_def session_inv_queue_events [OF inv])
  have "session_inv (t\<lparr>ssInput := (ssInput t)\<lparr>inPointerMap := m\<rparr>\<rparr>)"
      "session_inv (t\<lparr>ssInput := (ssInput t)\<lparr>inModifierMap := m, inModifierKeysPerGroup := n\<rparr>\<rparr>)" if "session_inv t" for t m n
    by (rule session_inv_device [OF that]; simp)+
  then show "answered c (handle_set_pointer_mapping ctx c s)" "answered c (handle_set_modifier_mapping ctx c s)"
    unfolding handle_set_pointer_mapping_def handle_set_modifier_mapping_def Let_def split_beta
    using told by (intro query_branches answered_after_drain ok inv; blast)+
qed

lemma change_keyboard_control_answered:
  assumes ok: "output_ok c" and inv: "session_inv s"
  shows "answered c (handle_change_keyboard_control ctx c s)"
proof -
  have "session_inv (update_repeat_controls t)" if "session_inv t" for t
    using that session_inv_scalars(6) [OF that] by (simp add: update_repeat_controls_def Let_def split: option.split)
  moreover have "session_inv (s\<lparr>ssInput := (ssInput s)\<lparr>inAutoRepeats := a, inLedMask := l, inBellPitch := p,
      inBellDuration := d, inKeyClickPercent := k, inBellPercent := b, inGlobalAutoRepeat := g, inXkb := x\<rparr>\<rparr>)" for a l p d k b g x
    by (rule session_inv_device [OF inv]) simp_all
  ultimately have "session_inv (commit_controls k s)" for k
    unfolding commit_controls_def Let_def by blast
  then show ?thesis
    unfolding handle_change_keyboard_control_def by (intro query_branches ok inv)
qed

subsection \<open>Resources\<close>

text \<open>Steps on the registry and the tables of pixmaps, graphics contexts, cursors and damages.\<close>

lemma session_inv_resources:
  assumes inv: "session_inv s"
    and fr: "t = s\<lparr>ssResources := ssResources t, ssPixmaps := ssPixmaps t, ssDamages := ssDamages t,
      ssGraphicsContexts := ssGraphicsContexts t, ssCursors := ssCursors t\<rparr>"
    and ok: "resources_ok t"
    and kept: "\<And>k. reg_is k KPresentEvent (ssResources s) \<Longrightarrow> reg_is k KPresentEvent (ssResources t)"
  shows "session_inv t"
proof (rule session_invI)
  obtain r ps ds gs cs where t: "t = s\<lparr>ssResources := r, ssPixmaps := ps, ssDamages := ds, ssGraphicsContexts := gs,
      ssCursors := cs\<rparr>"
    using fr by (rule that)
  have presents: "\<And>k. reg_is k KPresentEvent (ssResources s) \<Longrightarrow> reg_is k KPresentEvent r" using kept by (simp add: t)
  note P = session_invD [OF inv]
  have "tree_ok t" using P(4) tree_ok_cong [of t s] by (simp add: t)
  moreover have "sync_ok t" using P(1) sync_ok_cong [of s t] by (simp add: server_inv_def, simp add: t)
  moreover have "queues_ok t" using P(5) by (simp add: queues_ok_def t)
  moreover have "input_ok t" using P(6) by (simp add: input_ok_def t window_def)
  moreover have "properties_ok t" using P(7) by (simp add: properties_ok_def windows_keyed_def device_property_bytes_def window_def t)
  moreover have "selections_ok t" using P(8) by (simp add: selections_ok_def t)
  ultimately show "server_inv t"
    using P(1) ok presents by (simp add: server_inv_def presents_registered_def passive_windows_ok_def xi2_ok_def window_def, simp add: t)
  show "root_mapped t" "values_ok t" "atoms_ok (ssAtoms t)"
    using P(2,3,10) by (simp_all add: root_mapped_def values_ok_def window_def t)
qed

lemma reg_is_fold_erase: "reg_is k kind (fold umap_erase ks r) \<longleftrightarrow> k \<notin> set ks \<and> reg_is k kind r"
  by (induction ks arbitrary: r) auto

text \<open>What an entry of a table is registered as.\<close>

lemma registered_kind:
  assumes "session_inv s" "table_ids kind s = Some ids" "k \<in> ids"
  shows "reg_is k kind (ssResources s)"
proof -
  have "resources_ok s" using session_invD(1) [OF assms(1)] by (simp add: server_inv_def)
  then show ?thesis using resources_okD [OF _ assms(2)] assms(3) by blast
qed

lemma erase_keeps:
  assumes inv: "session_inv s"
  shows "session_inv (snd (erase_pixmap rid s))" "session_inv (snd (erase_graphics_context rid s))"
    "session_inv (snd (erase_cursor rid s))"
proof -
  have res: "resources_ok s" using session_invD(1) [OF inv] by (simp add: server_inv_def)
  note kept = erase_keeps_ok [OF res, of rid]
  have other: "j \<noteq> k" if "reg_is j KPresentEvent (ssResources s)" "reg_is k kind (ssResources s)" "kind \<noteq> KPresentEvent" for j k kind
    using that reg_is_unique [of j KPresentEvent "ssResources s" kind] by auto
  show "session_inv (snd (erase_graphics_context rid s))"
  proof (cases "umap_contains rid (ssGraphicsContexts s)")
    case True
    have "reg_is rid KGraphicsContext (ssResources s)"
      using registered_kind [OF inv table_ids.simps(3)] True by (simp add: umap_contains_keys)
    then show ?thesis
      using kept(2) other True
      by (intro session_inv_resources [OF inv]) (auto simp: erase_graphics_context_def unregister_def reg_erase_def)
  qed (simp add: erase_graphics_context_def inv)
  show "session_inv (snd (erase_cursor rid s))"
  proof (cases "umap_contains rid (ssCursors s)")
    case True
    have "reg_is rid KCursor (ssResources s)"
      using registered_kind [OF inv table_ids.simps(10)] True by (simp add: umap_contains_keys)
    then show ?thesis
      using kept(7) other True
      by (intro session_inv_resources [OF inv]) (auto simp: erase_cursor_def unregister_def reg_erase_def)
  qed (simp add: erase_cursor_def inv)
  show "session_inv (snd (erase_pixmap rid s))"
  proof (cases "umap_contains rid (ssPixmaps s)")
    case True
    have "reg_is rid KPixmap (ssResources s)"
      using registered_kind [OF inv table_ids.simps(2)] True by (simp add: umap_contains_keys)
    moreover have "j \<notin> set (window_damages s rid)" if "reg_is j KPresentEvent (ssResources s)" for j
      using registered_kind [OF inv table_ids.simps(13), of j] other [OF that, of j] by force
    ultimately show ?thesis
      using kept(1) other True
      by (intro session_inv_resources [OF inv])
        (simp_all add: erase_pixmap_def unregister_def reg_erase_def Let_def fold_unregister_frame reg_is_fold_erase)
  qed (simp add: erase_pixmap_def inv)
qed

lemma free_handlers_answered:
  assumes ok: "output_ok c" and inv: "session_inv s"
  shows "answered c (handle_free_pixmap ctx c s)" "answered c (handle_free_graphics_context ctx c s)"
    "answered c (handle_free_cursor ctx c s)"
  unfolding handle_free_pixmap_def handle_free_graphics_context_def handle_free_cursor_def free_resource_def
    Let_def split_beta
  by (intro query_branches ok inv erase_keeps)+

text \<open>Colormaps have no table; the windows that use an erased one get the default.\<close>

lemma add_colormap_keeps:
  assumes inv: "session_inv s"
  shows "session_inv (snd (add_colormap rid owner s))"
proof -
  have "resources_ok s" using session_invD(1) [OF inv] by (simp add: server_inv_def)
  note kept = colormap_keeps_ok(1) [OF this, of rid owner]
  show ?thesis
  proof (cases "resource_exists s rid \<or> rid = 0")
    case True
    then show ?thesis using inv by (auto simp: add_colormap_def reg_insert_run Let_def)
  next
    case False
    then have "umap_find rid (ssResources s) = None" by (simp add: resource_exists_def reg_find_def)
    moreover from this have "\<not> reg_is rid KPresentEvent (ssResources s)" by (simp add: reg_is_def reg_find_def)
    then have "k \<noteq> rid" if "reg_is k KPresentEvent (ssResources s)" for k using that by auto
    ultimately show ?thesis
      using kept False
      by (intro session_inv_resources [OF inv])
        (simp_all add: add_colormap_def reg_insert_run resource_exists_def reg_find_def reg_is_append)
  qed
qed

lemma erase_colormap_keeps:
  assumes inv: "session_inv s"
  shows "session_inv (snd (erase_colormap rid s))"
proof (cases "rid = default_colormap_id \<or> \<not> colormap_exists s rid")
  case True
  then show ?thesis using inv by (auto simp: erase_colormap_def)
next
  case False
  let ?f = "\<lambda>w. if wnColormap w = rid then w\<lparr>wnColormap := default_colormap_id\<rparr> else w"
  define u where "u = (if ssInstalledColormap s = rid then s\<lparr>ssInstalledColormap := default_colormap_id\<rparr> else s)
      \<lparr>ssWindows := umap_map (\<lambda>_. ?f) (ssWindows s)\<rparr>"
  have wins: "window u j = map_option ?f (window s j)" for j unfolding u_def window_def by simp
  note P = session_invD [OF inv]
  have origin: "\<exists>v. window s k = Some v \<and> wnId w = wnId v \<and> wnProperties w = wnProperties v" if w: "window u k = Some w" for k w
  proof -
    from w wins obtain v where "window s k = Some v" "w = ?f v" by auto
    then show ?thesis by simp
  qed
  have keyed: "windows_keyed u"
  proof (rule windows_keyedI)
    show "umap_ok (ssWindows u)" using windows_keyedD(1) [OF P(9)] by (simp add: u_def)
    show "wnId w = k" if "window u k = Some w" for k w
      using origin [OF that] windows_keyedD(2) [OF P(9)] by metis
  qed
  have "umap_sum window_property_bytes (umap_map (\<lambda>_. ?f) m) = umap_sum window_property_bytes m" for m
    by (induction m) (auto simp: umap_sum_def umap_map_def window_property_bytes_def)
  then have bytes: "umap_sum window_property_bytes (ssWindows u) = umap_sum window_property_bytes (ssWindows s)"
      "ssPropertyBytes u = ssPropertyBytes s" "device_property_bytes u = device_property_bytes s"
    by (simp_all add: u_def device_property_bytes_def)
  have u: "session_inv u"
  proof (rule tree_kept_reshaped [OF inv, where f = "\<lambda>_. ?f"])
    show "tree_ok u" by (rule tree_ok_reshaped(1) [OF P(4) windows_keyedD(1) [OF keyed], where f = "\<lambda>_. ?f"]) (simp_all add: wins)
    show "queues_ok u" using P(5) by (simp add: u_def queues_ok_def)
    show "properties_ok u" using properties_okD(3-) [OF P(7)] P(7) keyed bytes origin
      unfolding properties_ok_def by metis
    show "values_ok u" using P(10) origin unfolding values_ok_def by metis
  qed (simp_all add: wins, simp_all add: u_def request_frame_def)
  have "reg_is rid KColormap (ssResources s)" using False by (simp add: colormap_exists_def)
  then have "k \<noteq> rid" if "reg_is k KPresentEvent (ssResources s)" for k
    using that reg_is_unique [of k KPresentEvent "ssResources s" KColormap] by auto
  moreover have "snd (erase_colormap rid s) = u\<lparr>ssResources := umap_erase rid (ssResources s)\<rparr>"
    using False by (simp add: erase_colormap_def Let_def reg_erase_def u_def)
  moreover have "ssResources u = ssResources s" by (simp add: u_def)
  moreover have "resources_ok (snd (erase_colormap rid s))"
    using colormap_keeps_ok(2) P(1) by (simp add: server_inv_def)
  ultimately show ?thesis by (intro session_inv_resources [OF u]) simp_all
qed

lemma colormap_handlers_answered:
  assumes ok: "output_ok c" and inv: "session_inv s"
  shows "answered c (handle_create_colormap ctx c s)" "answered c (handle_free_colormap ctx c s)"
    "answered c (handle_copy_colormap ctx c s)"
proof -
  have "session_inv (if rid \<noteq> default_colormap_id then snd (erase_colormap rid s) else s)" for rid
    using inv erase_colormap_keeps by simp
  then show "answered c (handle_free_colormap ctx c s)"
    unfolding handle_free_colormap_def by (intro query_branches ok inv)
  show "answered c (handle_create_colormap ctx c s)" "answered c (handle_copy_colormap ctx c s)"
    unfolding handle_create_colormap_def handle_copy_colormap_def Let_def split_beta
    by (intro query_branches ok inv add_colormap_keeps)+
qed

end
