(* ===== verification/Grab_Safety.thy ===== *)
theory Grab_Safety
  imports Control_Safety
begin

text \<open>
  The requests on the focus and the grabs are answered (\<open>answered\<close> of \<open>Request_Safety\<close>): the windows
  they hold exist, so their operations return and keep the invariant of the server.
\<close>

subsection \<open>What the operations change\<close>

definition input_frame :: "server_state \<Rightarrow> server_state \<Rightarrow> bool" where
  "input_frame s t \<longleftrightarrow> t = s\<lparr>ssEventQueues := ssEventQueues t, ssPendingEvents := ssPendingEvents t,
     ssInput := ssInput t, ssDisplayedCursor := ssDisplayedCursor t\<rparr>"

lemma input_frame_steps [simp]:
  "input_frame s s" "input_frame s (snd (queue_events_atomically es s))"
  "input_frame s ((snd (queue_events_atomically es s))\<lparr>ssInput := i\<rparr>)"
  "input_frame s ((snd (queue_events_atomically es s))\<lparr>ssInput := i, ssDisplayedCursor := k\<rparr>)"
  using queue_events_server_frame [of es s] by (auto simp: input_frame_def)

lemma input_frameD:
  assumes "input_frame s t"
  shows "request_frame s t" "ssWindows t = ssWindows s" "ssPropertyBytes t = ssPropertyBytes s" "ssAtoms t = ssAtoms s"
    "ssSelections t = ssSelections s"
  by (subst assms [unfolded input_frame_def], simp add: request_frame_def)+

lemma session_inv_input_frame: "session_inv s \<Longrightarrow> input_frame s t \<Longrightarrow> queues_ok t \<Longrightarrow> input_ok t \<Longrightarrow> session_inv t"
  by (rule session_inv_input) (simp_all add: input_frameD)

lemma commit_frames:
  "input_frame s (snd (commit_pointer_change change d es shape s))"
  "input_frame s (snd (commit_keyboard_change change d es s))"
  by (simp_all add: commit_pointer_change_def commit_keyboard_change_def Let_def split_beta)

lemma grab_frames:
  "activate_pointer_grab g s = Some (r, t) \<Longrightarrow> input_frame s t"
  "deactivate_pointer_grab s = Some (r, t) \<Longrightarrow> input_frame s t"
  "activate_keyboard_grab g s = Some (r, t) \<Longrightarrow> input_frame s t"
  "deactivate_keyboard_grab s = Some (r, t) \<Longrightarrow> input_frame s t"
  "set_input_focus kind k revert_to time s = Some (u, t) \<Longrightarrow> input_frame s t"
  unfolding activate_pointer_grab_def deactivate_pointer_grab_def activate_keyboard_grab_def
    deactivate_keyboard_grab_def set_input_focus_def Let_def split_beta
  by (auto simp: bind_eq_Some_conv split: option.splits if_splits; metis commit_frames snd_conv input_frame_steps)+

subsection \<open>The operations keep the invariant\<close>

lemma pointer_grab_keeps:
  assumes inv: "session_inv s"
  shows "window s (agWindow g) \<noteq> None \<Longrightarrow> \<exists>r t. activate_pointer_grab g s = Some (r, t) \<and> session_inv t"
    "\<exists>r t. deactivate_pointer_grab s = Some (r, t) \<and> session_inv t"
proof -
  note run = pointer_grab_changes_run [OF session_invD(4-6) [OF inv]]
  show "\<exists>r t. activate_pointer_grab g s = Some (r, t) \<and> session_inv t" if "window s (agWindow g) \<noteq> None"
    using run [OF that] grab_frames(1) session_inv_input_frame [OF inv] by blast
  show "\<exists>r t. deactivate_pointer_grab s = Some (r, t) \<and> session_inv t"
  proof (cases "inPointerGrab (ssInput s)")
    case None
    with inv show ?thesis by (simp add: deactivate_pointer_grab_def)
  next
    case (Some g)
    then have "window s (agWindow g) \<noteq> None" using session_invD(6) [OF inv] by (simp add: input_ok_def)
    then show ?thesis using run grab_frames(2) session_inv_input_frame [OF inv] by blast
  qed
qed

lemma keyboard_grab_keeps:
  assumes inv: "session_inv s"
  shows "window s (agWindow g) \<noteq> None \<Longrightarrow> \<exists>r t. activate_keyboard_grab g s = Some (r, t) \<and> session_inv t"
    "\<exists>r t. deactivate_keyboard_grab s = Some (r, t) \<and> session_inv t"
proof -
  note run = keyboard_grab_changes_run [OF session_invD(4-6) [OF inv]]
  show "\<exists>r t. activate_keyboard_grab g s = Some (r, t) \<and> session_inv t" if "window s (agWindow g) \<noteq> None"
    using run [OF that] grab_frames(3) session_inv_input_frame [OF inv] by blast
  obtain p where p: "pointer_window s = Some p" "window s p \<noteq> None"
    using pointer_window_exists [OF session_invD(4) [OF inv]] by blast
  show "\<exists>r t. deactivate_keyboard_grab s = Some (r, t) \<and> session_inv t"
    using deactivate_keyboard_run [OF session_invD(4-6) [OF inv] p] grab_frames(4) session_inv_input_frame [OF inv] by blast
qed

lemma set_input_focus_keeps:
  assumes inv: "session_inv s" and k: "kind = FocusWindow \<Longrightarrow> window s k \<noteq> None"
  shows "\<exists>r t. set_input_focus kind k revert_to time s = Some (r, t) \<and> session_inv t"
  using set_input_focus_effect_run [OF session_invD(4-6) [OF inv] k] grab_frames(5) session_inv_input_frame [OF inv] by blast

lemma set_pointer_grab_cursor_keeps:
  assumes inv: "session_inv s"
  shows "\<exists>r t. set_pointer_grab_cursor m shape s = Some (r, t) \<and> session_inv t"
proof (cases "inPointerGrab (ssInput s)")
  case None
  with inv show ?thesis by (simp add: set_pointer_grab_cursor_def)
next
  case (Some g)
  let ?g = "g\<lparr>agEventMask := m, agCursor := shape\<rparr>"
  obtain p where p: "pointer_window s = Some p" using pointer_window_exists [OF session_invD(4) [OF inv]] by blast
  obtain d where d: "current_cursor_for s p (Some ?g) = Some d"
    using current_cursor_for_returns [OF session_invD(4) [OF inv]] by blast
  define s1 where "s1 = snd (queue_events_atomically (snd (append_cursor_change s d [])) s)"
  let ?t = "s1\<lparr>ssInput := (ssInput s1)\<lparr>inPointerGrab := Some ?g\<rparr>, ssDisplayedCursor := d\<rparr>"
  have s1: "session_inv s1" unfolding s1_def by (rule session_inv_queue_events [OF inv])
  have "ssInput s1 = ssInput s" "ssWindows s1 = ssWindows s"
    unfolding s1_def using queues_onlyD(1,2) [OF queue_events_queues_only] by blast+
  then have "session_inv ?t"
    using session_invD(5,6) [OF s1] Some
    by (intro session_inv_input_frame [OF inv]) (simp add: s1_def, simp_all add: queues_ok_def input_ok_def window_def)
  moreover have "set_pointer_grab_cursor m shape s =
      Some (if \<not> fst (queue_events_atomically (snd (append_cursor_change s d [])) s) then (UpdateQueueFull, s1) else (Updated, ?t))"
    by (simp add: set_pointer_grab_cursor_def Some p d split_beta Let_def s1_def)
  ultimately show ?thesis using s1 by auto
qed

subsection \<open>The handlers of the active grabs\<close>

lemma answered_grab_reply [intro]: "output_ok c \<Longrightarrow> session_inv s \<Longrightarrow> answered c (grab_reply status ctx c s)"
  unfolding grab_reply_def by (rule answered_after_drain)

lemma answered_activated: "\<exists>r t. m = Some (r, t) \<and> session_inv t \<Longrightarrow> output_ok c \<Longrightarrow> answered c (Option.bind m (activated ctx c))"
  by (rule answered_bind) (auto simp: activated_def)

lemma pointer_grab_handlers_answered:
  assumes ok: "output_ok c" and inv: "session_inv s"
  shows "answered c (handle_grab_pointer ctx c s)" "answered c (handle_ungrab_pointer ctx c s)"
    "answered c (handle_change_active_pointer_grab ctx c s)"
proof -
  have confined: "(if P then viewable s j else Some b) \<noteq> None" for P j b using walks_return(2) [OF inv] by simp
  have grab: "answered c (grab_pointer ctx k em pm km conf image time c s)" if k: "window s k \<noteq> None" for k em pm km conf image time
  proof -
    have "answered c (Option.bind (activate_pointer_grab g s) (activated ctx c))" if "agWindow g = k" for g
      using answered_activated [OF pointer_grab_keeps(1) [OF inv] ok] k that by simp
    then show ?thesis
      unfolding grab_pointer_def Let_def
      by (intro query_branches answered_grab_reply ok inv answered_bind_pure [OF walks_return(2) [OF inv]]
          answered_bind_pure [OF confined]) simp_all
  qed
  show "answered c (handle_grab_pointer ctx c s)"
    unfolding handle_grab_pointer_def by (intro query_branches ok inv grab) simp
  show "answered c (handle_ungrab_pointer ctx c s)"
    unfolding handle_ungrab_pointer_def by (intro query_branches ok inv answered_delivery [OF pointer_grab_keeps(2) [OF inv] ok])
  have "answered c (Option.bind (set_pointer_grab_cursor m shape s) (\<lambda>(r, t).
      if r \<noteq> Updated then reject bad_alloc 0 ctx c t else drain ctx c t))" for m shape
    by (rule answered_bind [OF set_pointer_grab_cursor_keeps [OF inv]]) (use ok in auto)
  then show "answered c (handle_change_active_pointer_grab ctx c s)"
    unfolding handle_change_active_pointer_grab_def by (intro query_branches ok inv)
qed

lemma keyboard_grab_handlers_answered:
  assumes ok: "output_ok c" and inv: "session_inv s"
  shows "answered c (handle_grab_keyboard ctx c s)" "answered c (handle_ungrab_keyboard ctx c s)"
    "answered c (handle_set_input_focus ctx c s)"
proof -
  have grab: "answered c (grab_keyboard ctx k time pm km c s)" if k: "window s k \<noteq> None" for k time pm km
  proof -
    have "answered c (Option.bind (activate_keyboard_grab g s) (activated ctx c))" if "agWindow g = k" for g
      using answered_activated [OF keyboard_grab_keeps(1) [OF inv] ok] k that by simp
    then show ?thesis
      unfolding grab_keyboard_def Let_def
      by (intro query_branches answered_grab_reply ok inv answered_bind_pure [OF walks_return(2) [OF inv]]) simp_all
  qed
  show "answered c (handle_grab_keyboard ctx c s)"
    unfolding handle_grab_keyboard_def by (intro query_branches ok inv grab) simp
  show "answered c (handle_ungrab_keyboard ctx c s)"
    unfolding handle_ungrab_keyboard_def by (intro query_branches ok inv answered_delivery [OF keyboard_grab_keeps(2) [OF inv] ok])
  have focus: "answered c (Option.bind (set_input_focus kind k r time s) (\<lambda>(r, t). delivered ctx c (r = FocusQueueFull, t)))"
    if "kind = FocusWindow \<Longrightarrow> window s k \<noteq> None" for kind k r time
    by (rule answered_bind [OF set_input_focus_keeps [OF inv that]]) (use ok in auto)
  have seen: "(if P then viewable s j else Some b) \<noteq> None" for P j b using walks_return(2) [OF inv] by simp
  show "answered c (handle_set_input_focus ctx c s)"
    unfolding handle_set_input_focus_def Let_def
    by (intro query_branches focus answered_bind_pure [OF seen] ok inv)
      (simp only: de_Morgan_conj not_True_eq_False simp_thms)
qed

subsection \<open>The handlers of the passive grabs\<close>

lemma session_inv_passive:
  assumes inv: "session_inv s" and gs: "grabs_ok gs" "\<And>p. p \<in> set gs \<Longrightarrow> window s (pgWindow p) \<noteq> None"
  shows "session_inv (s\<lparr>ssPassiveGrabs := gs\<rparr>)"
proof (rule session_invI)
  let ?t = "s\<lparr>ssPassiveGrabs := gs\<rparr>"
  note P = session_invD [OF inv]
  have "tree_ok ?t" using P(4) tree_ok_cong [of ?t s] by simp
  moreover have "queues_ok ?t" using P(5) by (simp add: queues_ok_def)
  moreover have "input_ok ?t" using P(6) by (simp add: input_ok_def window_def)
  moreover have "properties_ok ?t" using P(7) by (simp add: properties_ok_def windows_keyed_def device_property_bytes_def window_def)
  moreover have "selections_ok ?t" using P(8) by (simp add: selections_ok_def)
  moreover have "resources_ok ?t"
  proof -
    have ids: "table_ids kind ?t = table_ids kind s" for kind by (cases kind) simp_all
    have "resources_ok s" using P(1) by (simp add: server_inv_def)
    then show ?thesis
      by (rule resources_ok_keys_unchanged) (use \<open>resources_ok s\<close> ids in \<open>simp_all add: resources_ok_def tables_distinct_def\<close>)
  qed
  moreover have "passive_windows_ok ?t" using gs(2) by (auto simp: passive_windows_ok_def window_def)
  ultimately show "server_inv ?t"
    using P(1) gs(1) sync_ok_cong [of s ?t] by (simp add: server_inv_def presents_registered_def xi2_ok_def)
  show "root_mapped ?t" "values_ok ?t" "atoms_ok (ssAtoms ?t)"
    using P(2,3,10) by (simp_all add: root_mapped_def values_ok_def window_def)
qed

lemma revised_windows:
  "revise_grabs kind owner k d m [] grabs = Some r \<Longrightarrow> h \<in> set r \<Longrightarrow> \<exists>g \<in> set grabs. pgWindow h = pgWindow g"
  by (frule revise_grabs_Some) (auto simp: revised_grabs_def grab_pieces_def split: if_splits)

lemma passive_grabs_keep:
  assumes inv: "session_inv s"
  shows "window s (pgWindow added) \<noteq> None \<Longrightarrow> session_inv (snd (add_passive_grab added s))"
    "session_inv (snd (remove_passive_grab kind owner k d m s))"
proof -
  have ok: "grabs_ok (ssPassiveGrabs s)" "\<And>p. p \<in> set (ssPassiveGrabs s) \<Longrightarrow> window s (pgWindow p) \<noteq> None"
    using session_invD(1) [OF inv] by (auto simp: server_inv_def passive_windows_ok_def)
  have still: "window s (pgWindow p) \<noteq> None"
    if "revise_grabs kind owner k d m [] (ssPassiveGrabs s) = Some r" "p \<in> set r" for kind owner k d m r p
    using revised_windows [OF that] ok(2) by fastforce
  show "session_inv (snd (remove_passive_grab kind owner k d m s))"
  proof -
    obtain r t where run: "remove_passive_grab kind owner k d m s = (r, t)" by fastforce
    then have "t = s \<or> (\<exists>gs. revise_grabs kind owner k d m [] (ssPassiveGrabs s) = Some gs \<and> t = s\<lparr>ssPassiveGrabs := gs\<rparr>)"
      by (auto simp: remove_passive_grab_def split: option.splits if_splits)
    moreover have "grabs_ok (ssPassiveGrabs t)" using remove_passive_grab_cells_run [OF ok(1) run] by blast
    ultimately have "session_inv t" using inv session_inv_passive [OF inv] still by fastforce
    with run show ?thesis by simp
  qed
  show "session_inv (snd (add_passive_grab added s))" if added: "window s (pgWindow added) \<noteq> None"
  proof -
    obtain r t where run: "add_passive_grab added s = (r, t)" by fastforce
    then have "t = s \<or> (\<exists>gs. revise_grabs (pgKind added) (pgOwner added) (pgWindow added) (pgDetails added)
        (pgModifiers added) [] (ssPassiveGrabs s) = Some gs \<and> t = s\<lparr>ssPassiveGrabs := gs @ [added]\<rparr>)"
      by (auto simp: add_passive_grab_def split: option.splits if_splits)
    moreover have "grabs_ok (ssPassiveGrabs t)" using add_passive_grab_cells_run [OF ok(1) run] by blast
    moreover have "window s (pgWindow p) \<noteq> None" if "p \<in> set (gs @ [added])" "revise_grabs (pgKind added) (pgOwner added)
        (pgWindow added) (pgDetails added) (pgModifiers added) [] (ssPassiveGrabs s) = Some gs" for gs p
      using that added still by auto
    ultimately have "session_inv t" using inv session_inv_passive [OF inv] by fastforce
    with run show ?thesis by simp
  qed
qed

lemma passive_grab_handlers_answered:
  assumes ok: "output_ok c" and inv: "session_inv s"
  shows "answered c (handle_grab_button ctx c s)" "answered c (handle_ungrab_button ctx c s)"
    "answered c (handle_grab_key ctx c s)" "answered c (handle_ungrab_key ctx c s)"
proof -
  have "answered c (install_grab ctx added c s)" if "window s (pgWindow added) \<noteq> None" for added
    using passive_grabs_keep(1) [OF inv that] ok unfolding install_grab_def Let_def split_beta by (intro query_branches)
  then have add: "answered c (install_grab ctx added c s)" if "pgWindow added = k" "window s k \<noteq> None" for added k
    using that by simp
  have remove: "answered c (remove_grab ctx kind k m c s)" for kind k m
    using passive_grabs_keep(2) [OF inv] ok unfolding remove_grab_def Let_def split_beta by (intro query_branches)
  show "answered c (handle_grab_button ctx c s)" "answered c (handle_grab_key ctx c s)"
    unfolding handle_grab_button_def handle_grab_key_def
    by (intro query_branches ok inv add; simp)+
  show "answered c (handle_ungrab_button ctx c s)" "answered c (handle_ungrab_key ctx c s)"
    unfolding handle_ungrab_button_def handle_ungrab_key_def
    by (intro query_branches ok inv remove)+
qed

end
