(* ===== verification/Dispatch_Safety.thy ===== *)
theory Dispatch_Safety
  imports Grab_Safety Dispatch
begin

text \<open>
  Every request that reaches a handler of \<open>Dispatch\<close> is answered, so the dispatcher is as safe as
  the handlers it does not have (\<open>others\<close>) are.
\<close>

lemmas core_handlers_answered =
  handlers_answered query_handlers_answered window_queries_answered color_queries_answered
  control_handlers_answered kill_client_answered change_pointer_control_answered mapping_handlers_answered
  change_keyboard_control_answered free_handlers_answered colormap_handlers_answered
  pointer_grab_handlers_answered keyboard_grab_handlers_answered passive_grab_handlers_answered

lemma core_handler_answered:
  assumes ok: "output_ok c" and inv: "session_inv s" and client: "cnClient c \<noteq> 0"
    and h: "map_of (core_handlers mitshm) opcode = Some handler"
  shows "answered c (handler ctx c s)"
proof -
  from h have "(opcode, handler) \<in> set (core_handlers mitshm)" by (rule map_of_SomeD)
  then have "handler \<in> snd ` set (core_handlers mitshm)" by force
  then show ?thesis
    unfolding core_handlers_def set_simps image_insert image_empty insert_iff empty_iff prod.sel
    by (elim disjE FalseE) (simp_all only: core_handlers_answered [OF ok inv] selection_handlers_answered [OF ok inv client])
qed

text \<open>The opcodes of core requests and of extensions do not meet.\<close>

lemma core_handler_opcodes: "opcode \<in> fst ` set (core_handlers mitshm) \<Longrightarrow> opcode < 128"
  by (simp add: core_handlers_def, elim disjE; simp)

lemma extension_opcodes: "extension_by_opcode mitshm opcode = Some e \<Longrightarrow> \<not> opcode < 128"
proof -
  have "\<forall>e \<in> set (extension_registry mitshm). \<not> exOpcode e < 128" by (cases mitshm) (simp_all add: extension_registry_def)
  moreover assume "extension_by_opcode mitshm opcode = Some e"
  ultimately show ?thesis by (auto simp: extension_by_opcode_def find_Some_iff)
qed

lemma dispatch_core:
  assumes "opcode = rcOpcode ctx" "opcode \<in> fst ` set (core_handlers mitshm)"
  shows "\<exists>handler. map_of (core_handlers mitshm) opcode = Some handler \<and> dispatch mitshm others ctx = handler ctx"
proof -
  have "extension_by_opcode mitshm (rcOpcode ctx) = None"
    using core_handler_opcodes [OF assms(2)] extension_opcodes assms(1) by (metis not_None_eq)
  moreover obtain handler where "map_of (core_handlers mitshm) opcode = Some handler"
    using assms(2) map_of_eq_None_iff by (metis not_None_eq)
  ultimately show ?thesis using assms(1) by (simp add: dispatch_def)
qed

lemma no_handler_answered:
  assumes ok: "output_ok c" and inv: "session_inv s"
  shows "answered c (no_handler ctx c s)"
  unfolding no_handler_def by (intro answered_ends ok inv)



end
