(* ===== verification/Connection_Loop.thy ===== *)
theory Connection_Loop
  imports Dispatch_Safety
begin

text \<open>
  The loops of a connection return.  Each step of \<open>process_input\<close> consumes input, leaves the setup
  or ends the connection, whatever the bytes are, so that a client cannot keep the server busy with
  a finite input; and when it stops without an error it stops for a reason the client or the server
  gives.  The interface is what the loops need of the request handlers; the core dispatcher meets it.
\<close>

subsection \<open>What stops the loop\<close>

text \<open>The number of bytes the next request takes, when its header is there.\<close>

definition request_need :: "u8 list \<Rightarrow> byte_order \<Rightarrow> nat option" where
  "request_need input order =
     (case fst (read_fields [K8, K8, K16] (wire_reader_init (take 4 input) order)) of
        Some [F8 _, F8 _, F16 units] \<Rightarrow>
          if units \<noteq> 0 then Some (request_bytes (unat units))
          else if length input < 8 then Some 8
          else map_option (\<lambda>n. request_bytes (unat n)) (fst (rd_u32 (wire_reader_init (take 4 (drop 4 input)) order)))
      | _ \<Rightarrow> None)"

definition next_request_size :: "connection \<Rightarrow> nat option" where
  "next_request_size c = Option.bind (cnOrder c) (request_need (cnInput c))"

definition starved :: "connection \<Rightarrow> bool" where
  "starved c \<longleftrightarrow>
     (case cnState c of
        SetupPrefix \<Rightarrow> length (cnInput c) < 12
      | SetupAuthentication \<Rightarrow> length (cnInput c) < cnSetupPayload c
      | Requests \<Rightarrow> length (cnInput c) < 4 \<or> (\<exists>n. next_request_size c = Some n \<and> length (cnInput c) < n))"

definition ended :: "connection \<Rightarrow> bool" where
  "ended c \<longleftrightarrow> cnFinished c \<or> cnCloseAfterOutput c"

definition work :: "connection \<Rightarrow> nat" where
  "work c = (if ended c then 0 else 1 + 2 * length (cnInput c) + (if cnState c = Requests then 0 else 1))"

text \<open>A result of a step or of a handler after which the connection and the server are sound.\<close>

definition sound :: "(server_state \<Rightarrow> bool) \<Rightarrow> connection \<Rightarrow> connection \<Rightarrow> server_state \<Rightarrow> bool" where
  "sound safe c c' s' \<longleftrightarrow> output_ok c' \<and> safe s' \<and> cnClient c' = cnClient c"

lemma soundI: "output_ok c' \<Longrightarrow> safe s' \<Longrightarrow> cnClient c' = cnClient c \<Longrightarrow> sound safe c c' s'"
  by (simp add: sound_def)

lemma output_ok_updates [simp]:
  "output_ok (c\<lparr>cnInput := i\<rparr>) = output_ok c" "output_ok (c\<lparr>cnOrder := r\<rparr>) = output_ok c"
  "output_ok (c\<lparr>cnState := t\<rparr>) = output_ok c" "output_ok (c\<lparr>cnSequence := q\<rparr>) = output_ok c"
  "output_ok (c\<lparr>cnResumeSyncInput := b\<rparr>) = output_ok c"
  "output_ok (c\<lparr>cnSetupPayload := n1, cnSetupName := n2, cnSetupData := n3, cnSetupPaddedName := n4, cnState := t\<rparr>) = output_ok c"
  by (simp_all add: output_ok_def)

lemma output_only_same:
  assumes "output_only c c'"
  shows "cnClient c' = cnClient c" "cnState c' = cnState c" "cnInput c' = cnInput c" "cnOrder c' = cnOrder c"
    "cnFinished c' = cnFinished c" "cnCloseAfterOutput c' = cnCloseAfterOutput c" "cnBigRequests c' = cnBigRequests c"
    "cnSetupPayload c' = cnSetupPayload c" "cnSequence c' = cnSequence c"
  by (subst assms [unfolded output_only_def], simp)+

lemma close_after_output_ended [simp]: "ended (close_after_output c)"
  by (simp add: ended_def close_after_output_def Let_def)

lemma close_after_output_simps [simp]:
  "cnClient (close_after_output c) = cnClient c" "output_ok (close_after_output c) = output_ok c"
  by (simp_all add: close_after_output_def Let_def output_ok_def)

lemma consume_input_simps [simp]:
  "cnClient (consume_input n c) = cnClient c" "cnInput (consume_input n c) = drop n (cnInput c)"
  "cnState (consume_input n c) = cnState c" "cnOrder (consume_input n c) = cnOrder c"
  "output_ok (consume_input n c) = output_ok c" "ended (consume_input n c) = ended c"
  by (simp_all add: consume_input_def output_ok_def ended_def)

lemma queue_bytes_sound:
  assumes "queue_bytes bytes c = (err, c')" "output_ok c"
  shows "output_ok c'" "output_only c c'"
  using queue_bytes_unsent(1) [OF assms] queue_bytes_frame [OF assms(1)] .

lemma send_error_sound:
  assumes "send_error order code opcode sequence v minor c = (err, c')" "output_ok c"
  shows "output_ok c'" "output_only c c'"
  using queue_bytes_sound [OF assms(1) [unfolded send_error_def] assms(2)] .

subsection \<open>The setup\<close>

text \<open>A step that goes on leaves less to do; a step that waits has too few bytes.\<close>

definition step_ok :: "(server_state \<Rightarrow> bool) \<Rightarrow> connection \<Rightarrow> progress \<Rightarrow> bool" where
  "step_ok safe c p \<longleftrightarrow>
     (case p of (result, c', s') \<Rightarrow>
        sound safe c c' s' \<and>
        (case result of
           Inl err \<Rightarrow> True
         | Inr True \<Rightarrow> work c' < work c
         | Inr False \<Rightarrow> starved c'))"

lemma step_ok_simps:
  "step_ok safe c (Inl err, c', s') \<longleftrightarrow> sound safe c c' s'"
  "step_ok safe c (Inr True, c', s') \<longleftrightarrow> sound safe c c' s' \<and> work c' < work c"
  "step_ok safe c (Inr False, c', s') \<longleftrightarrow> sound safe c c' s' \<and> starved c'"
  by (simp_all add: step_ok_def)

lemma work_ended: "ended c' \<Longrightarrow> \<not> ended c \<Longrightarrow> work c' < work c"
  by (simp add: work_def)

lemma send_setup_failure_sound:
  assumes "send_setup_failure order reason c = (err, c')" "output_ok c"
  shows "output_ok c'" "output_only c c'"
  using assms queue_bytes_sound by (auto simp: send_setup_failure_def Let_def split: option.splits)

lemma refuse_setup_ok:
  assumes "output_ok d" "safe s" "cnClient d = cnClient c" "\<not> ended c"
  shows "step_ok safe c (refuse_setup order reason d s)"
proof -
  obtain err c2 where f: "send_setup_failure order reason d = (err, c2)" by fastforce
  have c2: "output_ok c2" "output_only d c2" using send_setup_failure_sound [OF f assms(1)] .
  have "output_ok (close_after_output (c2\<lparr>cnInput := []\<rparr>))" using c2(1) by simp
  with c2 assms output_only_same(1) [OF c2(2)] show ?thesis
    by (cases err) (simp_all add: refuse_setup_def f step_ok_simps sound_def work_ended)
qed

lemma process_setup_prefix_ok:
  assumes ok: "output_ok c" and safe: "safe s" and state: "cnState c = SetupPrefix" and open_c: "\<not> ended c"
  shows "step_ok safe c (process_setup_prefix c s)"
proof (cases "length (cnInput c) < 12")
  case True
  then show ?thesis using assms by (simp add: process_setup_prefix_def step_ok_simps sound_def starved_def)
next
  case False
  let ?c1 = "\<lambda>order. (consume_input 12 c)\<lparr>cnOrder := Some order\<rparr>"
  have c1: "output_ok (?c1 order)" "cnClient (?c1 order) = cnClient c" for order
    using ok by (simp_all add: output_ok_def consume_input_def)
  have less: "work ((?c1 order)\<lparr>cnSetupPayload := a, cnSetupName := b, cnSetupData := d, cnSetupPaddedName := e,
      cnState := SetupAuthentication\<rparr>) < work c" for order a b d e
    using False open_c state by (simp add: work_def ended_def consume_input_def)
  have sound: "sound safe c ((?c1 order)\<lparr>cnSetupPayload := a, cnSetupName := b, cnSetupData := d, cnSetupPaddedName := e,
      cnState := SetupAuthentication\<rparr>) s" "sound safe c (?c1 order) s" "sound safe c c s" for order a b d e
    using ok safe by (simp_all add: sound_def output_ok_def consume_input_def)
  show ?thesis
    using False less sound refuse_setup_ok [where safe = safe and s = s and c = c and d = "?c1 order" for order, OF c1(1) safe c1(2) open_c]
    unfolding process_setup_prefix_def Let_def
    by (auto simp: step_ok_simps split: argument_splits)
qed

lemma process_setup_authentication_ok:
  assumes ok: "output_ok c" and safe: "safe s" and register: "\<And>k. safe (snd (register_client k s))"
    and state: "cnState c = SetupAuthentication" and open_c: "\<not> ended c"
  shows "step_ok safe c (process_setup_authentication host c s)"
proof -
  let ?c1 = "consume_input (cnSetupPayload c) c"
  obtain registered s1 where reg: "register_client (cnClient ?c1) s = (registered, s1)" by fastforce
  have s1: "safe s1" using register [of "cnClient ?c1"] by (simp only: reg snd_conv)
  have "step_ok safe c (case send_setup_success host order ?c1 s1 of
      (Some err, c2) \<Rightarrow> (Inl err, c2, s1) | (None, c2) \<Rightarrow> (Inr True, c2\<lparr>cnState := Requests\<rparr>, s1))" for order
  proof -
    obtain err c2 where f: "send_setup_success host order ?c1 s1 = (err, c2)" by fastforce
    then have c2: "output_ok c2" "output_only ?c1 c2"
      using queue_bytes_sound [of _ ?c1] ok unfolding send_setup_success_def Let_def by (auto split: if_splits)
    have "work (c2\<lparr>cnState := Requests\<rparr>) < work c"
      using output_only_same [OF c2(2)] state open_c by (simp add: work_def ended_def consume_input_def)
    moreover have "output_ok (c2\<lparr>cnState := Requests\<rparr>)" using c2(1) by simp
    ultimately show ?thesis using c2(1) s1 output_only_same(1) [OF c2(2)] by (cases err) (simp_all add: f step_ok_simps sound_def)
  qed
  moreover have "sound safe c c s" "sound safe c ?c1 s1" using ok safe s1 by (simp_all add: sound_def)
  ultimately show ?thesis
    using refuse_setup_ok [of ?c1 safe s c] ok safe open_c state reg
    unfolding process_setup_authentication_def Let_def
    by (auto simp: step_ok_simps starved_def sound_def split: option.split)
qed

subsection \<open>Requests\<close>

text \<open>What the loops ask of the request handlers: they return, the server is sound again, and only the
  output and the flags of the connection have changed.\<close>

definition handled :: "(server_state \<Rightarrow> bool) \<Rightarrow> connection \<Rightarrow> outcome option \<Rightarrow> bool" where
  "handled safe c out \<longleftrightarrow>
     (\<exists>err c' s'. out = Some (err, c', s') \<and> sound safe c c' s' \<and> cnState c' = cnState c \<and>
        length (cnInput c') \<le> length (cnInput c))"

lemma answered_handled:
  assumes "answered c out"
  shows "handled session_inv c out"
proof -
  from assms obtain err c' s' where r: "out = Some (err, c', s')" "output_ok c'" "output_only c c'" "session_inv s'"
    unfolding answered_def by (elim exE conjE) (rule that)
  then show ?thesis
    using output_only_same(1-3) [OF r(3)] unfolding handled_def sound_def r(1)
    by (intro exI [of _ err] exI [of _ c'] exI [of _ s']) simp
qed

locale request_server =
  fixes dispatch :: request_handler and safe :: "server_state \<Rightarrow> bool"
  assumes handles: "output_ok c \<Longrightarrow> safe s \<Longrightarrow> cnClient c \<noteq> 0 \<Longrightarrow> handled safe c (dispatch ctx c s)"
    and drained: "drain_pending_events c s = (err, c', s') \<Longrightarrow> output_ok c \<Longrightarrow> safe s \<Longrightarrow> safe s'"
    and clock: "safe s \<Longrightarrow> safe (advance_time s)"
    and noted: "safe s \<Longrightarrow> safe (note_client_sequence k number s)"
    and registered: "safe s \<Longrightarrow> safe (snd (register_client k s))"
begin

lemma run_request_ok:
  assumes ok: "output_ok c" and inv: "safe s" and client: "cnClient c \<noteq> 0" and state: "cnState c = Requests"
    and open_c: "\<not> ended c" and header: "4 \<le> header" "header \<le> length (cnInput c)"
    and order: "cnOrder c = Some order"
    and need: "next_request_size c = Some need" and c0: "cnClient c = cnClient c0" "work c = work c0"
  shows "\<exists>p. run_request dispatch order opcode data header need maximum c s = Some p \<and> step_ok safe c0 p"
proof (cases "need < header \<or> need > maximum")
  case True
  obtain err c1 where f: "send_error order bad_length opcode (cnSequence c) 0 0 c = (err, c1)" by fastforce
  note c1 = send_error_sound [OF f ok]
  have "work (close_after_output (c1\<lparr>cnInput := []\<rparr>)) < work c" using open_c by (rule work_ended [rotated]) simp
  with True f c1 inv c0 output_only_same(1) [OF c1(2)] show ?thesis
    by (cases err) (auto simp: run_request_def step_ok_simps sound_def)
next
  case size_ok: False
  show ?thesis
  proof (cases "length (cnInput c) < need")
    case True
    let ?c1 = "c\<lparr>cnSequence := cnSequence c - 1\<rparr>"
    have "next_request_size ?c1 = Some need" using need by (simp add: next_request_size_def)
    with True size_ok state ok c0(1) noted [OF inv] show ?thesis
      by (simp add: run_request_def await_input_def step_ok_simps sound_def starved_def Let_def)
  next
    case False
    let ?c1 = "consume_input need c" and ?ctx = "\<lambda>request. \<lparr>rcOrder = order, rcOpcode = opcode, rcData = data,
      rcSequence = cnSequence c, rcRequest = request\<rparr>"
    have "handled safe ?c1 (dispatch (?ctx request) ?c1 (advance_time s))" for request
      using handles [of ?c1 "advance_time s"] ok client clock [OF inv] by simp
    then obtain err c2 s2 where run: "dispatch (?ctx (if header = 4 then take need (cnInput c)
        else take 4 (cnInput c) @ drop header (take need (cnInput c)))) ?c1 (advance_time s) = Some (err, c2, s2)"
      and c2: "sound safe ?c1 c2 s2" "cnState c2 = Requests" "length (cnInput c2) \<le> length (cnInput ?c1)"
      unfolding handled_def using state by fastforce
    have "4 \<le> need" "need \<le> length (cnInput c)" using False size_ok header by simp_all
    then have "length (cnInput c2) < length (cnInput c)" using c2(3) by simp
    then have "work c2 < work c" using c2(2) open_c state by (simp add: work_def)
    with run c2(1) False size_ok c0 show ?thesis
      by (cases err) (simp_all add: run_request_def Let_def step_ok_simps sound_def)
  qed
qed

lemma process_request_ok:
  assumes ok: "output_ok c" and inv: "safe s" and client: "cnClient c \<noteq> 0" and state: "cnState c = Requests"
    and open_c: "\<not> ended c"
  shows "\<exists>p. process_request dispatch c s = Some p \<and> step_ok safe c p"
proof (cases "length (cnInput c) < 4")
  case True
  then show ?thesis using ok inv state by (simp add: process_request_def step_ok_simps sound_def starved_def)
next
  case long: False
  have here: "sound safe c c s" using ok inv by (simp add: sound_def)
  show ?thesis
  proof (cases "cnOrder c")
    case None
    then show ?thesis using long here by (simp add: process_request_def step_ok_simps)
  next
    case order: (Some order)
    let ?fields = "fst (read_fields [K8, K8, K16] (wire_reader_init (take 4 (cnInput c)) order))"
    let ?c1 = "c\<lparr>cnSequence := cnSequence c + 1\<rparr>" and ?s1 = "note_client_sequence (cnClient c) (cnSequence c + 1) s"
    have c1: "output_ok ?c1" "safe ?s1" "cnClient ?c1 \<noteq> 0" "cnState ?c1 = Requests" "\<not> ended ?c1"
        "cnClient ?c1 = cnClient c" "work ?c1 = work c" "cnOrder ?c1 = Some order" "cnInput ?c1 = cnInput c"
      using ok noted [OF inv] client state open_c order by (simp_all add: ended_def work_def)
    show ?thesis
    proof (cases "\<exists>opcode data units. ?fields = Some [F8 opcode, F8 data, F16 units]")
      case False
      then have "process_request dispatch c s = Some (Inl ErrMalformed, c, s)"
        using long order by (auto simp: process_request_def simp del: read_fields.simps split: argument_splits)
      then show ?thesis using here by (simp add: step_ok_simps)
    next
      case True
      then obtain opcode data units where fs: "?fields = Some [F8 opcode, F8 data, F16 units]" by blast
      have need: "next_request_size ?c1 = (if units \<noteq> 0 then Some (request_bytes (unat units))
          else if length (cnInput c) < 8 then Some 8
          else map_option (\<lambda>n. request_bytes (unat n)) (fst (rd_u32 (wire_reader_init (take 4 (drop 4 (cnInput c))) order))))"
        by (simp add: next_request_size_def request_need_def order fs del: read_fields.simps)
      note run = run_request_ok [OF c1(1-5) _ _ c1(8) _ c1(6,7)]
      consider (plain) "units \<noteq> 0" | (zero) "units = 0" "\<not> cnBigRequests c" | (short) "units = 0" "cnBigRequests c" "length (cnInput c) < 8"
        | (big) "units = 0" "cnBigRequests c" "\<not> length (cnInput c) < 8" by blast
      then show ?thesis
      proof cases
        case plain
        then show ?thesis
          using run [of 4 "request_bytes (unat units)" opcode data maximum_core_request_bytes] long order fs need
          by (simp add: process_request_def Let_def del: read_fields.simps)
      next
        case zero
        obtain err c3 where f: "send_error order bad_length opcode (cnSequence c + 1) 0 0 (consume_input 4 ?c1) = (err, c3)" by fastforce
        have c3: "output_ok c3" "output_only (consume_input 4 ?c1) c3"
          using send_error_sound [OF f] ok by simp_all
        have "work c3 < work c"
          using output_only_same [OF c3(2)] long open_c state by (simp add: work_def ended_def consume_input_def)
        with c3 output_only_same(1) [OF c3(2)] c1(2) show ?thesis
          using long order fs zero f
          by (cases err) (simp_all add: process_request_def Let_def step_ok_simps sound_def consume_input_def del: read_fields.simps)
      next
        case short
        have "next_request_size (?c1\<lparr>cnSequence := cnSequence c\<rparr>) = Some 8"
          using need short by (simp add: next_request_size_def)
        then show ?thesis using long order fs short ok state noted [OF noted [OF inv]]
          by (simp add: process_request_def Let_def await_input_def step_ok_simps sound_def starved_def next_request_size_def del: read_fields.simps)
      next
        case big
        show ?thesis
        proof (cases "fst (rd_u32 (wire_reader_init (take 4 (drop 4 (cnInput c))) order))")
          case None
          then show ?thesis using long order fs big c1(1,2)
            by (simp add: process_request_def Let_def step_ok_simps sound_def del: read_fields.simps)
        next
          case (Some extended)
          then show ?thesis
            using run [of 8 "request_bytes (unat extended)" opcode data maximum_extended_request_bytes] long order fs need big
            by (simp add: process_request_def Let_def del: read_fields.simps)
        qed
      qed
    qed
  qed
qed

lemma process_step_ok:
  assumes "output_ok c" "safe s" "cnClient c \<noteq> 0" "\<not> ended c"
  shows "\<exists>p. process_step host dispatch c s = Some p \<and> step_ok safe c p"
  using assms process_request_ok [OF assms(1-3) _ assms(4)]
    process_setup_prefix_ok [where safe = safe, OF assms(1,2) _ assms(4)]
    process_setup_authentication_ok [where safe = safe, OF assms(1,2) registered [OF assms(2)] _ assms(4)]
  by (cases "cnState c") (simp_all add: process_step_def)

text \<open>The loop has stopped: on an error, or because the connection ends, waits for a SYNC condition,
  or needs more input.\<close>

definition served :: "connection \<Rightarrow> outcome option \<Rightarrow> bool" where
  "served c out \<longleftrightarrow>
     (\<exists>err c' s'. out = Some (err, c', s') \<and> sound safe c c' s' \<and>
        (err = None \<longrightarrow> ended c' \<or> suspended c' s' \<or> starved c'))"

lemma servedI:
  "out = Some (err, c', s') \<Longrightarrow> sound safe c c' s' \<Longrightarrow>
   (err = None \<Longrightarrow> ended c' \<or> suspended c' s' \<or> starved c') \<Longrightarrow> served c out"
  by (auto simp: served_def)

lemma process_loop_served:
  assumes "output_ok c" "safe s" "cnClient c \<noteq> 0"
  shows "served c (process_loop host dispatch c s)"
  using assms
proof (induction "work c" arbitrary: c s rule: less_induct)
  case less
  show ?case
  proof (cases "ended c \<or> suspended c s")
    case True
    then have "process_loop host dispatch c s = Some (None, c, s)"
      by (subst process_loop.simps) (auto simp: ended_def)
    then show ?thesis by (rule servedI) (use less.prems True in \<open>auto simp: sound_def\<close>)
  next
    case False
    obtain err c1 s1 where d: "(if cnState c = Requests then drain_pending_events c s else (None, c, s)) = (err, c1, s1)"
      by (metis prod_cases3)
    have c1: "output_ok c1 \<and> output_only c c1 \<and> safe s1"
      using d drain_pending_events_run [of c s err c1 s1] drained [of c s err c1 s1] less.prems(1,2)
      by (auto split: if_splits)
    note same = output_only_same [OF conjunct1 [OF conjunct2 [OF c1]]]
    have open_c1: "\<not> ended c1" and work: "work c1 = work c" and client: "cnClient c1 \<noteq> 0"
      using False less.prems(3) same by (simp_all add: ended_def work_def)
    show ?thesis
    proof (cases err)
      case (Some e)
      with d False have "process_loop host dispatch c s = Some (Some e, c1, s1)"
        by (subst process_loop.simps) (simp add: ended_def)
      then show ?thesis by (rule servedI) (use c1 same in \<open>simp_all add: sound_def\<close>)
    next
      case None
      obtain result c2 s2 where step: "process_step host dispatch c1 s1 = Some (result, c2, s2)"
        and ok: "step_ok safe c1 (result, c2, s2)"
        using process_step_ok [of c1 s1 host] c1 client open_c1 by fastforce
      have c2: "sound safe c1 c2 s2" using ok by (simp add: step_ok_def)
      let ?c3 = "if suspended c2 s2 then c2\<lparr>cnResumeSyncInput := True\<rparr> else c2"
      have unroll: "process_loop host dispatch c s =
          (case result of Inl e \<Rightarrow> Some (Some e, c2, s2)
           | Inr advanced \<Rightarrow> if \<not> advanced then Some (None, c2, s2) else process_loop host dispatch ?c3 s2)"
        using d None False step by (subst process_loop.simps) (simp add: ended_def)
      show ?thesis
      proof (cases "result = Inr True")
        case True
        have "work ?c3 = work c2" by (simp add: work_def ended_def)
        also have "\<dots> < work c" using ok True work by (simp add: step_ok_simps)
        finally have "work ?c3 < work c" "output_ok ?c3" "safe s2" "cnClient ?c3 \<noteq> 0" "cnClient ?c3 = cnClient c"
          using c2 client same(1) by (simp_all add: sound_def)
        with less.hyps [of ?c3 s2] show ?thesis
          unfolding unroll True served_def by (simp add: sound_def)
      next
        case stop: False
        then obtain err2 where r: "process_loop host dispatch c s = Some (err2, c2, s2)"
          and why: "err2 = None \<Longrightarrow> starved c2"
          using ok unfolding unroll by (cases result) (auto simp: step_ok_simps)
        show ?thesis by (rule servedI [OF r]) (use c2 same(1) why in \<open>simp_all add: sound_def\<close>)
      qed
    qed
  qed
qed

lemma process_input_served:
  assumes "output_ok c" "safe s" "cnClient c \<noteq> 0"
  shows "served c (process_input host dispatch c s)"
proof -
  let ?c = "if cnState c = Requests \<and> \<not> sync_waiting s (cnClient c) then c\<lparr>cnResumeSyncInput := False\<rparr> else c"
  have "served ?c (process_loop host dispatch ?c s)" using assms by (intro process_loop_served) simp_all
  moreover have "cnClient ?c = cnClient c" by simp
  ultimately show ?thesis unfolding process_input_def served_def sound_def by (simp only:)
qed

text \<open>The reads and the writes return as well, whatever the socket gives.\<close>

lemma read_loop_sound:
  assumes "output_ok c" "safe s" "cnClient c \<noteq> 0"
  shows "\<exists>err c' s'. read_loop host dispatch results c s = Some (err, c', s') \<and> sound safe c c' s'"
  using assms
proof (induction results arbitrary: c s)
  case (Cons r results)
  show ?case
  proof (cases r)
    case (ReadBytes bytes)
    show ?thesis
    proof (cases "length (cnInput c) + length bytes > maximum_buffered_input")
      case False
      have "served (c\<lparr>cnInput := cnInput c @ bytes\<rparr>) (process_input host dispatch (c\<lparr>cnInput := cnInput c @ bytes\<rparr>) s)"
        using Cons.prems by (intro process_input_served) simp_all
      then obtain err c1 s1 where p: "process_input host dispatch (c\<lparr>cnInput := cnInput c @ bytes\<rparr>) s = Some (err, c1, s1)"
        and c1: "output_ok c1" "safe s1" "cnClient c1 = cnClient c"
        by (auto simp: served_def sound_def)
      show ?thesis using Cons.IH [OF c1(1,2)] c1 Cons.prems(3) ReadBytes False p by (auto simp: sound_def)
    qed (use Cons.prems ReadBytes in \<open>simp add: sound_def\<close>)
  qed (use Cons.prems Cons.IH in \<open>auto simp: sound_def\<close>)
qed (simp add: sound_def)

lemma on_readable_sound:
  assumes "output_ok c" "safe s" "cnClient c \<noteq> 0"
  shows "\<exists>err c' s'. on_readable host dispatch results c s = Some (err, c', s') \<and> sound safe c c' s'"
  using read_loop_sound [OF assms] assms by (auto simp: on_readable_def sound_def)

lemma on_writable_sound:
  assumes ok: "output_ok c" and inv: "safe s" and client: "cnClient c \<noteq> 0"
  shows "\<exists>err sent c' s'. on_writable host dispatch results c s = Some (err, sent, c', s') \<and> sound safe c c' s'"
proof -
  obtain err c1 s1 where d: "drain_pending_events c s = (err, c1, s1)" by (metis prod_cases3)
  have c1: "output_ok c1" "safe s1" "cnClient c1 = cnClient c"
    using drain_pending_events_run [OF d ok] drained [OF d ok inv] output_only_same(1) by blast+
  show ?thesis
  proof (cases err)
    case (Some e)
    then show ?thesis using c1 d by (simp add: on_writable_def sound_def)
  next
    case None
    let ?run = "if cnResumeSyncInput c1 \<and> \<not> sync_waiting s1 (cnClient c1) \<and> cnInput c1 \<noteq> []
      then process_input host dispatch c1 s1 else Some (None, c1, s1)"
    have "served c1 (process_input host dispatch c1 s1)" using c1 client by (intro process_input_served) simp_all
    then have "\<exists>err2 c2 s2. ?run = Some (err2, c2, s2) \<and> sound safe c1 c2 s2"
      using c1 by (auto simp: served_def sound_def)
    then obtain err2 c2 s2 where r: "?run = Some (err2, c2, s2)" and "sound safe c1 c2 s2" by (elim exE conjE)
    then have c2: "output_ok c2" "safe s2" "cnClient c2 = cnClient c" using c1(3) by (simp_all add: sound_def)
    obtain err3 c3 s3 where d2: "drain_pending_events c2 s2 = (err3, c3, s3)" by (metis prod_cases3)
    have c3: "output_ok c3" "safe s3" "cnClient c3 = cnClient c"
      using drain_pending_events_run [OF d2 c2(1)] drained [OF d2 c2(1,2)] output_only_same(1) [of c2 c3] c2(3) by auto
    obtain e sent c4 where w: "write_loop results c3 = (e, sent, c4)" by (metis prod_cases3)
    have c4: "output_ok c4" "cnClient c4 = cnClient c"
      using write_loop_run [OF w c3(1)] writes_onlyD c3(3) by auto
    show ?thesis
      unfolding on_writable_def d prod.case None option.case r bind.bind_lunit
      using c2 c3 c4 by (cases err2; cases err3) (simp_all add: d2 w sound_def)
  qed
qed

end

text \<open>The dispatcher over handlers that keep the promise keeps it.\<close>

lemma big_requests_handled:
  assumes ok: "output_ok c" and inv: "session_inv s"
  shows "handled session_inv c (handle_big_requests ctx c s)"
proof -
  have flag: "output_ok (d\<lparr>cnBigRequests := b\<rparr>) = output_ok d" for d b by (simp add: output_ok_def)
  have "handled session_inv c (case queue_bytes bytes c of (err, c1) \<Rightarrow>
      Some (err, if err = None then c1\<lparr>cnBigRequests := True\<rparr> else c1, s))" for bytes
  proof -
    obtain err c1 where q: "queue_bytes bytes c = (err, c1)" by fastforce
    note c1 = queue_bytes_sound [OF q ok] 
    show ?thesis using c1(1) inv output_only_same(1-3) [OF c1(2)] by (simp add: q handled_def sound_def flag)
  qed
  moreover have "handled session_inv c (refuse code ctx c s)" for code
    by (rule answered_handled [OF answered_refuse [OF ok inv]])
  ultimately show ?thesis by (simp add: handle_big_requests_def)
qed

lemma dispatch_handled:
  assumes c: "output_ok c" "session_inv s" "cnClient c \<noteq> 0" and others: "handled session_inv c (others ctx c s)"
  shows "handled session_inv c (dispatch mitshm others ctx c s)"
proof (cases "extension_by_opcode mitshm (rcOpcode ctx)")
  case None
  show ?thesis
  proof (cases "map_of (core_handlers mitshm) (rcOpcode ctx)")
    case (Some handler)
    with None answered_handled [OF core_handler_answered [OF c Some]] show ?thesis by (simp add: dispatch_def)
  qed (use None others in \<open>simp add: dispatch_def\<close>)
next
  case (Some e)
  show ?thesis
  proof (cases "map_of extension_handlers (exOpcode e)")
    case h: (Some handler)
    then have "(exOpcode e, handler) \<in> set extension_handlers" by (rule map_of_SomeD)
    then have "handled session_inv c (handler ctx c s)"
      using big_requests_handled [OF c(1,2)] answered_handled [OF query_handlers_answered(16) [OF c(1,2)]]
        answered_handled [OF query_handlers_answered(17) [OF c(1,2)]]
      by (auto simp: extension_handlers_def)
    with Some h show ?thesis by (simp add: dispatch_def)
  qed (use Some others in \<open>simp add: dispatch_def\<close>)
qed

lemma dispatch_request_server:
  assumes others: "\<And>ctx c s. output_ok c \<Longrightarrow> session_inv s \<Longrightarrow> cnClient c \<noteq> 0 \<Longrightarrow>
    handled session_inv c (others ctx c s)"
  shows "request_server (dispatch mitshm others) session_inv"
  by (rule request_server.intro) (auto intro: dispatch_handled others session_inv_drain)

interpretation core_session: request_server "dispatch mitshm no_handler" session_inv
  by (rule dispatch_request_server) (intro answered_handled no_handler_answered)



end
