(* ===== verification/Server_Loop.thy ===== *)
theory Server_Loop
  imports Connection_Loop
begin

text \<open>
  The loop of the server (\<^verbatim>\<open>src/server/server.cpp\<close>, \<open>Server::run\<close>): one round runs the timers, polls the
  sockets, accepts clients, serves the ones that are ready in the order of their priorities, and
  removes the ones that have ended.  What the sockets return is the environment of a round.  The timers
  (\<open>ServerState::process_timers\<close>) and what the server forgets of a client that ends
  (\<open>ServerState::disconnect_client\<close>, called by the destructor of the connection) are parameters.
\<close>

subsection \<open>Clients and slots\<close>

record client =
  clSlot :: nat
  clConnection :: connection

record server =
  svClients :: "client list"
  svSlots :: "bool list"
  svState :: server_state

text \<open>A server with no client, or \<open>None\<close> when it is started with a wrong number of slots.\<close>

definition start_server :: "nat \<Rightarrow> server_state \<Rightarrow> server option" where
  "start_server maximum_clients s =
     (if maximum_clients = 0 \<or> maximum_clients > 127 then None
      else Some \<lparr>svClients = [], svSlots = replicate maximum_clients False, svState = s\<rparr>)"

definition free_slot :: "bool list \<Rightarrow> nat option" where
  "free_slot slots = (let n = length (takeWhile (\<lambda>taken. taken) slots) in if n = length slots then None else Some n)"

definition slot_resource_base :: "nat \<Rightarrow> u32" where
  "slot_resource_base slot = of_nat ((slot + 1) * 0x200000)"

definition new_connection :: "u8 list \<Rightarrow> bool \<Rightarrow> u32 \<Rightarrow> connection" where
  "new_connection cookie allow_unauthenticated resource_base =
     \<lparr>cnClient = resource_base, cnCookie = cookie, cnAllowUnauthenticated = allow_unauthenticated,
      cnState = SetupPrefix, cnOrder = None, cnInput = [], cnOutput = [], cnOutputOffset = 0, cnPendingFds = [],
      cnSetupPayload = 0, cnSetupName = 0, cnSetupData = 0, cnSetupPaddedName = 0, cnSequence = 0,
      cnBigRequests = False, cnResumeSyncInput = False, cnCloseAfterOutput = False, cnFinished = False\<rparr>"

subsection \<open>The environment\<close>

text \<open>What the server is configured with, and the code its loop calls; the timers depend on the clock.\<close>

record setting =
  stHost :: byte_order
  stCookie :: "u8 list"
  stAllowUnauthenticated :: bool
  stDispatch :: request_handler
  stTimers :: "int \<Rightarrow> server_state \<Rightarrow> server_state"
  stDisconnect :: "u32 \<Rightarrow> server_state \<Rightarrow> server_state"

text \<open>The events of \<open>poll\<close>, and what a socket that is served returns.\<close>

record poll_set =
  plIn :: bool
  plOut :: bool
  plErr :: bool
  plHup :: bool
  plInvalid :: bool

record readiness =
  rdReady :: poll_set
  rdReads :: "read_result list"
  rdWrites :: "write_result list"

text \<open>The answers of \<open>accept_client\<close>: a client whose connection can be prepared or not, or a failure.  The
  end of the list stands for no further client.\<close>

datatype accept_result = AcceptedClient bool | AcceptFailed

record poll_round =
  prClock :: int
  prPollFailed :: bool
  prSignal :: poll_set
  prListener :: poll_set
  prAccepts :: "accept_result list"
  prClients :: "nat \<Rightarrow> readiness"

definition poll_bad :: "poll_set \<Rightarrow> bool" where
  "poll_bad p \<longleftrightarrow> plErr p \<or> plHup p \<or> plInvalid p"

text \<open>What a connection is polled for, and what \<open>poll\<close> reports of it.\<close>

definition poll_events :: "connection \<Rightarrow> server_state \<Rightarrow> bool \<times> bool" where
  "poll_events c s =
     (if cnFinished c then (False, False)
      else let waiting = cnState c = Requests \<and> sync_waiting s (cnClient c)
           in (\<not> cnCloseAfterOutput c \<and> \<not> waiting,
               cnOutputOffset c < length (cnOutput c) \<or>
               \<not> cnCloseAfterOutput c \<and> cnState c = Requests \<and> cnOrder c \<noteq> None \<and> has_pending_event s (cnClient c) \<or>
               \<not> cnCloseAfterOutput c \<and> cnResumeSyncInput c \<and> \<not> waiting \<and> cnInput c \<noteq> []))"

definition requested_events :: "connection \<Rightarrow> server_state \<Rightarrow> bool \<times> bool" where
  "requested_events c s =
     (let (readable, writable) = poll_events c s
      in (readable \<and> \<not> (ssServerGrabOwner s \<noteq> 0 \<and> cnClient c \<noteq> ssServerGrabOwner s), writable))"

definition reported :: "bool \<times> bool \<Rightarrow> poll_set \<Rightarrow> poll_set" where
  "reported requested p = p\<lparr>plIn := plIn p \<and> fst requested, plOut := plOut p \<and> snd requested\<rparr>"

subsection \<open>Accepting\<close>

fun accept_clients :: "setting \<Rightarrow> accept_result list \<Rightarrow> server \<Rightarrow> error_code option \<times> server" where
  "accept_clients st [] sv = (None, sv)"
| "accept_clients st (AcceptFailed # later) sv = (Some ErrIo, sv)"
| "accept_clients st (AcceptedClient prepared # later) sv =
     (case free_slot (svSlots sv) of
        None \<Rightarrow> accept_clients st later sv
      | Some slot \<Rightarrow>
          let base = slot_resource_base slot;
              c = new_connection (stCookie st) (stAllowUnauthenticated st) base
          in if \<not> prepared then accept_clients st later (sv\<lparr>svState := stDisconnect st base (svState sv)\<rparr>)
             else accept_clients st later
                    (sv\<lparr>svSlots := (svSlots sv)[slot := True], svClients := svClients sv @ [\<lparr>clSlot = slot, clConnection = c\<rparr>]\<rparr>))"

subsection \<open>Serving\<close>

text \<open>The indices of the polled clients, the highest priority first, ties in the order of arrival.\<close>

definition dispatch_order :: "server \<Rightarrow> nat \<Rightarrow> nat list" where
  "dispatch_order sv polled =
     sort_key (\<lambda>i. - sync_priority (svState sv) (cnClient (clConnection (svClients sv ! i)))) [0..<polled]"

definition may_process :: "connection \<Rightarrow> server_state \<Rightarrow> bool" where
  "may_process c s \<longleftrightarrow> ssServerGrabOwner s = 0 \<or> ssServerGrabOwner s = cnClient c"

text \<open>The end of the service of a client: whether it is removed.\<close>

definition ends_client :: "error_code option \<Rightarrow> connection \<Rightarrow> server_state \<Rightarrow> bool" where
  "ends_client err c s \<longleftrightarrow> err \<noteq> None \<or> cnFinished c \<or> client_termination_requested s (cnClient c)"

definition write_client :: "setting \<Rightarrow> bool \<Rightarrow> write_result list \<Rightarrow> connection \<Rightarrow> server_state \<Rightarrow> outcome option" where
  "write_client st wanted results c s =
     (if wanted
      then map_option (\<lambda>(err, sent, c1, s1). (err, c1, s1)) (on_writable (stHost st) (stDispatch st) results c s)
      else Some (None, c, s))"

definition read_client ::
  "setting \<Rightarrow> bool \<Rightarrow> read_result list \<Rightarrow> error_code option \<Rightarrow> connection \<Rightarrow> server_state \<Rightarrow> outcome option" where
  "read_client st wanted results err c s =
     (if err = None \<and> \<not> cnFinished c \<and> wanted then on_readable (stHost st) (stDispatch st) results c s
      else Some (err, c, s))"

definition serve_client ::
  "setting \<Rightarrow> poll_set \<Rightarrow> readiness \<Rightarrow> connection \<Rightarrow> server_state \<Rightarrow> (bool \<times> connection \<times> server_state) option" where
  "serve_client st p r c s =
     (let may = may_process c s
      in if plInvalid p then Some (True, c, s)
         else if \<not> may \<and> plHup p then Some (True, c, s)
         else Option.bind (write_client st (may \<and> plOut p) (rdWrites r) c s) (\<lambda>(err1, c1, s1).
              Option.bind (read_client st (may \<and> (plIn p \<or> plHup p)) (rdReads r) err1 c1 s1) (\<lambda>(err2, c2, s2).
                if err2 = None \<and> \<not> cnFinished c2 \<and> plHup p \<and> \<not> plOut p then Some (True, c2, s2)
                else let err3 = (if err2 = None \<and> plErr p \<and> \<not> (plIn p \<or> plOut p \<or> plHup p) then Some ErrIo else err2)
                     in Some (ends_client err3 c2 s2, c2, s2))))"

text \<open>The loop over the polled clients; \<open>removed\<close> marks the ones that end.\<close>

fun serve_clients ::
  "setting \<Rightarrow> (nat \<Rightarrow> poll_set) \<Rightarrow> (nat \<Rightarrow> readiness) \<Rightarrow> nat list \<Rightarrow> bool list \<Rightarrow> server \<Rightarrow> (bool list \<times> server) option" where
  "serve_clients st reports rs [] removed sv = Some (removed, sv)"
| "serve_clients st reports rs (i # order) removed sv =
     (let client = svClients sv ! i
      in Option.bind (serve_client st (reports i) (rs i) (clConnection client) (svState sv)) (\<lambda>(gone, c, s).
           serve_clients st reports rs order (removed[i := gone])
             (sv\<lparr>svClients := (svClients sv)[i := client\<lparr>clConnection := c\<rparr>], svState := s\<rparr>)))"

subsection \<open>A round\<close>

text \<open>Clients are removed from the back; the slot is free again and the server forgets the client.\<close>

definition remove_clients :: "setting \<Rightarrow> bool list \<Rightarrow> server \<Rightarrow> server" where
  "remove_clients st removed sv =
     foldr (\<lambda>(client, gone) sv.
         if gone then sv\<lparr>svSlots := (svSlots sv)[clSlot client := False],
                         svState := stDisconnect st (cnClient (clConnection client)) (svState sv)\<rparr>
         else sv\<lparr>svClients := client # svClients sv\<rparr>)
       (zip (svClients sv) removed) (sv\<lparr>svClients := []\<rparr>)"

datatype round_end = Stopped "error_code option" | Running server

definition serve_round :: "setting \<Rightarrow> poll_round \<Rightarrow> (nat \<Rightarrow> poll_set) \<Rightarrow> nat \<Rightarrow> server \<Rightarrow> round_end option" where
  "serve_round st env reports polled sv =
     map_option (\<lambda>(removed, sv2). Running (remove_clients st removed sv2))
       (serve_clients st reports (prClients env) (dispatch_order sv polled) (replicate (length (svClients sv)) False) sv)"

definition run_round :: "setting \<Rightarrow> poll_round \<Rightarrow> server \<Rightarrow> round_end option" where
  "run_round st env sv0 =
     (let sv = sv0\<lparr>svState := stTimers st (prClock env) (svState sv0)\<rparr>;
          reports = (\<lambda>i. reported (requested_events (clConnection (svClients sv ! i)) (svState sv)) (rdReady (prClients env i)))
      in if prPollFailed env then Some (Stopped (Some ErrIo))
         else if plIn (prSignal env) then Some (Stopped None)
         else if poll_bad (prSignal env) then Some (Stopped (Some ErrIo))
         else let (err, sv1) = (if plIn (prListener env) then accept_clients st (prAccepts env) sv else (None, sv))
              in if err \<noteq> None then Some (Stopped err)
                 else if poll_bad (prListener env) then Some (Stopped (Some ErrIo))
                 else serve_round st env reports (length (svClients sv)) sv1)"

subsection \<open>The invariant\<close>

text \<open>Slots and clients correspond; a client's identifiers are those of its slot.\<close>

definition client_ok :: "bool list \<Rightarrow> client \<Rightarrow> bool" where
  "client_ok slots k \<longleftrightarrow> clSlot k < length slots \<and> cnClient (clConnection k) = slot_resource_base (clSlot k) \<and>
     output_ok (clConnection k)"

definition server_ok :: "server \<Rightarrow> bool" where
  "server_ok sv \<longleftrightarrow> session_inv (svState sv) \<and> length (svSlots sv) \<le> 127 \<and>
     (\<forall>k \<in> set (svClients sv). client_ok (svSlots sv) k) \<and> distinct (map clSlot (svClients sv)) \<and>
     (\<forall>i < length (svSlots sv). svSlots sv ! i \<longleftrightarrow> i \<in> set (map clSlot (svClients sv)))"

text \<open>What the loop needs of the code it calls.\<close>

definition setting_ok :: "setting \<Rightarrow> bool" where
  "setting_ok st \<longleftrightarrow> request_server (stDispatch st) session_inv \<and>
     (\<forall>now s. session_inv s \<longrightarrow> session_inv (stTimers st now s)) \<and>
     (\<forall>k s. session_inv s \<longrightarrow> session_inv (stDisconnect st k s))"

lemma setting_okD:
  assumes "setting_ok st"
  shows "request_server (stDispatch st) session_inv" "session_inv s \<Longrightarrow> session_inv (stTimers st now s)"
    "session_inv s \<Longrightarrow> session_inv (stDisconnect st k s)"
  using assms by (simp_all add: setting_ok_def)

lemma slot_resource_base_value: "slot < 127 \<Longrightarrow> unat (slot_resource_base slot) = (slot + 1) * 0x200000"
  unfolding slot_resource_base_def unat_of_nat by (rule mod_less) simp

lemma slot_resource_base_nonzero: "slot < 127 \<Longrightarrow> slot_resource_base slot \<noteq> 0"
  using slot_resource_base_value [of slot] by (cases "slot_resource_base slot = 0") auto

lemma slot_resource_base_inj: "inj_on slot_resource_base {..<127}"
  by (rule inj_onI) (metis slot_resource_base_value lessThan_iff add_right_imp_eq mult_right_cancel zero_neq_numeral)

lemma free_slot_free: "free_slot slots = Some i \<Longrightarrow> i < length slots \<and> \<not> slots ! i"
  using nth_length_takeWhile [of "\<lambda>taken. taken" slots] length_takeWhile_le [of "\<lambda>taken. taken" slots]
  by (auto simp: free_slot_def Let_def split: if_splits)

lemma server_ok_client:
  assumes "server_ok sv" "k \<in> set (svClients sv)"
  shows "output_ok (clConnection k)" "cnClient (clConnection k) \<noteq> 0"
  using assms slot_resource_base_nonzero [of "clSlot k"] by (auto simp: server_ok_def client_ok_def)

lemma start_server_ok: "session_inv s \<Longrightarrow> start_server n s = Some sv \<Longrightarrow> server_ok sv"
  by (auto simp: start_server_def server_ok_def split: if_splits)

lemma server_ok_state: "server_ok sv \<Longrightarrow> session_inv s \<Longrightarrow> server_ok (sv\<lparr>svState := s\<rparr>)"
  by (simp add: server_ok_def)

subsection \<open>Accepting keeps it\<close>

lemma server_ok_arrival:
  assumes "server_ok sv" "free_slot (svSlots sv) = Some slot"
  shows "server_ok (sv\<lparr>svSlots := (svSlots sv)[slot := True],
    svClients := svClients sv @ [\<lparr>clSlot = slot, clConnection = new_connection cookie b (slot_resource_base slot)\<rparr>]\<rparr>)"
  using assms(1) free_slot_free [OF assms(2)]
  by (auto simp: server_ok_def client_ok_def new_connection_def output_ok_def nth_list_update)

lemma accept_clients_ok:
  assumes st: "setting_ok st"
  shows "accept_clients st results sv = (err, sv') \<Longrightarrow> server_ok sv \<Longrightarrow>
    server_ok sv' \<and> length (svClients sv) \<le> length (svClients sv')"
proof (induction results arbitrary: sv)
  case Nil
  then show ?case by simp
next
  case (Cons result later)
  show ?case
  proof (cases result)
    case AcceptFailed
    with Cons.prems show ?thesis by simp
  next
    case (AcceptedClient prepared)
    show ?thesis
    proof (cases "free_slot (svSlots sv)")
      case None
      with Cons AcceptedClient show ?thesis by simp
    next
      case (Some slot)
      have away: "server_ok (sv\<lparr>svState := stDisconnect st k (svState sv)\<rparr>)" for k
        using server_ok_state [OF Cons.prems(2)] setting_okD(3) [OF st] Cons.prems(2) by (simp add: server_ok_def)
      show ?thesis
        using Cons.prems(1) Cons.IH [OF _ away] Cons.IH [OF _ server_ok_arrival [OF Cons.prems(2) Some]]
        by (cases prepared) (force simp: AcceptedClient Some Let_def)+
    qed
  qed
qed

subsection \<open>Serving keeps it\<close>

context request_server
begin

lemma write_client_sound:
  assumes "output_ok c" "safe s" "cnClient c \<noteq> 0" "stDispatch st = dispatch"
  shows "\<exists>err c' s'. write_client st wanted results c s = Some (err, c', s') \<and> sound safe c c' s'"
  using on_writable_sound [OF assms(1-3), of "stHost st" results] assms
  by (auto simp: write_client_def sound_def)

lemma read_client_sound:
  assumes "output_ok c" "safe s" "cnClient c \<noteq> 0" "stDispatch st = dispatch"
  shows "\<exists>err' c' s'. read_client st wanted results err c s = Some (err', c', s') \<and> sound safe c c' s'"
  using on_readable_sound [OF assms(1-3), of "stHost st" results] assms
  by (auto simp: read_client_def sound_def)

lemma serve_client_sound:
  assumes "output_ok c" "safe s" "cnClient c \<noteq> 0" "stDispatch st = dispatch"
  shows "\<exists>gone c' s'. serve_client st p r c s = Some (gone, c', s') \<and> sound safe c c' s'"
proof -
  have here: "sound safe c c s" using assms by (simp add: sound_def)
  obtain err1 c1 s1 where w: "write_client st (may_process c s \<and> plOut p) (rdWrites r) c s = Some (err1, c1, s1)"
    and c1: "output_ok c1" "safe s1" "cnClient c1 = cnClient c"
    using write_client_sound [OF assms] unfolding sound_def by blast
  obtain err2 c2 s2 where "read_client st (may_process c s \<and> (plIn p \<or> plHup p)) (rdReads r) err1 c1 s1 = Some (err2, c2, s2)"
    and "sound safe c1 c2 s2"
    using read_client_sound [OF c1(1,2) _ assms(4)] c1(3) assms(3) by (metis prod_cases3)
  with w here c1(3) show ?thesis by (auto simp: serve_client_def Let_def sound_def)
qed

end

lemma server_ok_served:
  assumes ok: "server_ok sv" and i: "i < length (svClients sv)"
    and c: "sound session_inv (clConnection (svClients sv ! i)) c s"
  shows "server_ok (sv\<lparr>svClients := (svClients sv)[i := (svClients sv ! i)\<lparr>clConnection := c\<rparr>], svState := s\<rparr>)"
proof -
  let ?k = "svClients sv ! i"
  have slots: "map clSlot ((svClients sv)[i := ?k\<lparr>clConnection := c\<rparr>]) = map clSlot (svClients sv)"
    using i by (simp add: map_update list_update_same_conv)
  have "client_ok (svSlots sv) ?k" using ok i by (simp add: server_ok_def)
  then have "client_ok (svSlots sv) (?k\<lparr>clConnection := c\<rparr>)" using c by (simp add: client_ok_def sound_def)
  then have "client_ok (svSlots sv) k" if "k \<in> set ((svClients sv)[i := ?k\<lparr>clConnection := c\<rparr>])" for k
    using that ok set_update_subset_insert [of "svClients sv" i] by (fastforce simp: server_ok_def)
  with ok c slots show ?thesis by (simp add: server_ok_def sound_def)
qed

lemma serve_clients_ok:
  assumes st: "setting_ok st"
  shows "server_ok sv \<Longrightarrow> \<forall>i \<in> set order. i < length (svClients sv) \<Longrightarrow> length removed = length (svClients sv) \<Longrightarrow>
    \<exists>removed' sv'. serve_clients st reports rs order removed sv = Some (removed', sv') \<and> server_ok sv' \<and>
      length removed' = length (svClients sv')"
proof (induction order arbitrary: removed sv)
  case (Cons i order)
  let ?k = "svClients sv ! i"
  have i: "i < length (svClients sv)" using Cons.prems by simp
  then have k: "?k \<in> set (svClients sv)" by simp
  obtain gone c s where s: "serve_client st (reports i) (rs i) (clConnection ?k) (svState sv) = Some (gone, c, s)"
    and c: "sound session_inv (clConnection ?k) c s"
    using request_server.serve_client_sound [OF setting_okD(1) [OF st] server_ok_client(1) [OF Cons.prems(1) k] _
        server_ok_client(2) [OF Cons.prems(1) k] refl] Cons.prems(1) unfolding server_ok_def by blast
  show ?case
    using Cons.IH [OF server_ok_served [OF Cons.prems(1) i c], of "removed[i := gone]"] Cons.prems(2,3)
    by (simp add: Let_def s)
qed simp

subsection \<open>Removal keeps it\<close>

lemma nth_cleared: "i < length xs \<Longrightarrow> xs[j := False] ! i \<longleftrightarrow> i \<noteq> j \<and> xs ! i"
  by (cases "i = j") auto

lemma remove_clients_run:
  fixes removal :: "client \<times> bool \<Rightarrow> server \<Rightarrow> server"
  assumes st: "setting_ok st" and inv: "session_inv (svState sv)"
  defines "removal \<equiv> \<lambda>(client, gone) sv.
         if gone then sv\<lparr>svSlots := (svSlots sv)[clSlot client := False],
                         svState := stDisconnect st (cnClient (clConnection client)) (svState sv)\<rparr>
         else sv\<lparr>svClients := client # svClients sv\<rparr>"
  defines "left \<equiv> \<lambda>zs. foldr removal zs (sv\<lparr>svClients := []\<rparr>)"
  shows "session_inv (svState (left zs)) \<and> length (svSlots (left zs)) = length (svSlots sv) \<and>
    svClients (left zs) = map fst (filter (\<lambda>z. \<not> snd z) zs) \<and>
    (\<forall>i < length (svSlots sv). svSlots (left zs) ! i \<longleftrightarrow> svSlots sv ! i \<and> i \<notin> set (map (\<lambda>z. clSlot (fst z)) (filter snd zs)))"
proof (induction zs)
  case Nil
  then show ?case using inv by (simp add: left_def)
next
  case (Cons z zs)
  have step: "left (z # zs) = removal z (left zs)" by (simp add: left_def)
  obtain k gone where z: "z = (k, gone)" by (cases z)
  show ?case
  proof (cases gone)
    case True
    have "svSlots (left (z # zs)) = (svSlots (left zs))[clSlot k := False]"
        "svState (left (z # zs)) = stDisconnect st (cnClient (clConnection k)) (svState (left zs))"
        "svClients (left (z # zs)) = svClients (left zs)"
      using True unfolding step by (simp_all add: removal_def z)
    then show ?thesis
      using Cons.IH setting_okD(3) [OF st] True by (auto simp: z nth_cleared)
  next
    case False
    have "left (z # zs) = (left zs)\<lparr>svClients := k # svClients (left zs)\<rparr>" using False unfolding step by (simp add: removal_def z)
    then show ?thesis using Cons.IH False by (simp add: z)
  qed
qed

lemma zip_removed_slots:
  assumes "distinct (map clSlot ks)" "length gone = length ks"
  shows "set (map clSlot (map fst (filter (\<lambda>z. \<not> snd z) (zip ks gone)))) =
    set (map clSlot ks) - set (map (\<lambda>z. clSlot (fst z)) (filter snd (zip ks gone)))"
  using assms
proof (induction ks arbitrary: gone)
  case (Cons k ks)
  then obtain g gs where g: "gone = g # gs" "length gs = length ks" by (cases gone) auto
  have "set (map (\<lambda>z. clSlot (fst z)) (filter P (zip ks gs))) \<subseteq> set (map clSlot ks)" for P
    by (auto dest: set_zip_leftD)
  moreover have "clSlot k \<notin> set (map clSlot ks)" using Cons.prems(1) by simp
  ultimately have "clSlot k \<notin> set (map (\<lambda>z. clSlot (fst z)) (filter snd (zip ks gs)))" by blast
  then show ?case using Cons.IH [OF _ g(2)] Cons.prems(1) g(1) by (cases g) auto
qed simp

lemma remove_clients_ok:
  assumes st: "setting_ok st" and ok: "server_ok sv" and len: "length removed = length (svClients sv)"
  shows "server_ok (remove_clients st removed sv)"
proof -
  let ?zs = "zip (svClients sv) removed" and ?t = "remove_clients st removed sv"
  have inv: "session_inv (svState sv)" using ok by (simp add: server_ok_def)
  note run = remove_clients_run [OF st inv, of ?zs, folded remove_clients_def]
  have kept: "set (svClients ?t) \<subseteq> set (svClients sv)" using run by (auto dest: set_zip_leftD)
  have "distinct (map clSlot (svClients ?t))"
  proof -
    have "map clSlot (map fst ?zs) = map clSlot (svClients sv)" using len by (simp only: map_fst_zip)
    then have "map (\<lambda>z. clSlot (fst z)) ?zs = map clSlot (svClients sv)" by (simp add: comp_def)
    then have "distinct (map (\<lambda>z. clSlot (fst z)) ?zs)" using ok by (simp add: server_ok_def)
    then show ?thesis using run by (simp add: distinct_map_filter comp_def)
  qed
  moreover have "svSlots ?t ! i \<longleftrightarrow> i \<in> set (map clSlot (svClients ?t))" if "i < length (svSlots ?t)" for i
    using run that ok zip_removed_slots [of "svClients sv" removed] len by (simp add: server_ok_def)
  moreover have "client_ok (svSlots ?t) k" if "k \<in> set (svClients ?t)" for k
    using kept that ok run by (auto simp: server_ok_def client_ok_def)
  ultimately show ?thesis using run ok by (simp add: server_ok_def)
qed

subsection \<open>Every round returns\<close>

lemma dispatch_order_indices: "set (dispatch_order sv n) = {..<n}"
  by (auto simp: dispatch_order_def)

lemma run_round_ok:
  assumes st: "setting_ok st" and ok: "server_ok sv"
  shows "\<exists>r. run_round st env sv = Some r \<and> (\<forall>sv'. r = Running sv' \<longrightarrow> server_ok sv')"
proof -
  let ?sv = "sv\<lparr>svState := stTimers st (prClock env) (svState sv)\<rparr>"
  have timed: "server_ok ?sv"
    using server_ok_state [OF ok] setting_okD(2) [OF st] ok by (simp add: server_ok_def)
  have serve: "\<exists>r. serve_round st env reports n sv1 = Some r \<and> (\<forall>sv'. r = Running sv' \<longrightarrow> server_ok sv')"
    if sv1: "server_ok sv1" and n: "n \<le> length (svClients sv1)" for reports n sv1
  proof -
    have "\<forall>i \<in> set (dispatch_order sv1 n). i < length (svClients sv1)" using n by (auto simp: dispatch_order_indices)
    from serve_clients_ok [OF st sv1 this, of "replicate (length (svClients sv1)) False" reports "prClients env"]
    obtain removed sv2 where "serve_clients st reports (prClients env) (dispatch_order sv1 n)
        (replicate (length (svClients sv1)) False) sv1 = Some (removed, sv2)"
      and "server_ok sv2" "length removed = length (svClients sv2)" by auto
    with remove_clients_ok [OF st] show ?thesis by (simp add: serve_round_def)
  qed
  obtain err sv1 where a: "(if plIn (prListener env) then accept_clients st (prAccepts env) ?sv else (None, ?sv)) = (err, sv1)"
    by fastforce
  have "server_ok sv1 \<and> length (svClients ?sv) \<le> length (svClients sv1)"
    using a accept_clients_ok [OF st _ timed, of "prAccepts env"] timed by (auto split: if_splits)
  then show ?thesis using serve [of sv1 "length (svClients sv)"] unfolding run_round_def Let_def a by simp
qed

text \<open>The servers that a start and any rounds lead to.\<close>

inductive reachable_server :: "setting \<Rightarrow> server_state \<Rightarrow> server \<Rightarrow> bool" for st :: setting and s :: server_state where
  start: "start_server n s = Some sv \<Longrightarrow> reachable_server st s sv"
| round: "reachable_server st s sv \<Longrightarrow> run_round st env sv = Some (Running sv') \<Longrightarrow> reachable_server st s sv'"

lemma reachable_server_ok:
  assumes "reachable_server st s sv" "setting_ok st" "session_inv s"
  shows "server_ok sv"
  using assms
proof (induction rule: reachable_server.induct)
  case (start n sv)
  then show ?case by (blast intro: start_server_ok)
next
  case (round sv env sv')
  then show ?case using run_round_ok [of st sv env] by fastforce
qed

lemma server_ok_clients:
  assumes ok: "server_ok sv"
  shows "distinct (map (\<lambda>k. cnClient (clConnection k)) (svClients sv))" "length (svClients sv) \<le> 127"
proof -
  have slots: "distinct (map clSlot (svClients sv))" "set (map clSlot (svClients sv)) \<subseteq> {..<length (svSlots sv)}"
      "length (svSlots sv) \<le> 127"
    using ok by (auto simp: server_ok_def client_ok_def)
  have "map (\<lambda>k. cnClient (clConnection k)) (svClients sv) = map slot_resource_base (map clSlot (svClients sv))"
    using ok by (simp add: server_ok_def client_ok_def)
  moreover have "distinct (map slot_resource_base (map clSlot (svClients sv)))"
    unfolding distinct_map [of slot_resource_base] using slots by (auto intro!: inj_on_subset [OF slot_resource_base_inj])
  ultimately show "distinct (map (\<lambda>k. cnClient (clConnection k)) (svClients sv))" by (simp only:)
  have "length (svClients sv) = card (set (map clSlot (svClients sv)))"
    using distinct_card [OF slots(1)] by simp
  also have "\<dots> \<le> length (svSlots sv)" using card_mono [OF _ slots(2)] by simp
  finally show "length (svClients sv) \<le> 127" using slots(3) by simp
qed


definition sample_setting :: setting where
  "sample_setting = \<lparr>stHost = Little, stCookie = [], stAllowUnauthenticated = True,
     stDispatch = dispatch True no_handler, stTimers = (\<lambda>now. update_repeat_controls), stDisconnect = ungrab_server\<rparr>"

abbreviation no_events :: poll_set where
  "no_events \<equiv> \<lparr>plIn = False, plOut = False, plErr = False, plHup = False, plInvalid = False\<rparr>"

definition arrival :: poll_round where
  "arrival = \<lparr>prClock = 0, prPollFailed = False, prSignal = no_events, prListener = no_events\<lparr>plIn := True\<rparr>,
     prAccepts = [AcceptedClient True], prClients = (\<lambda>_. \<lparr>rdReady = no_events, rdReads = [], rdWrites = []\<rparr>)\<rparr>"

definition one_client :: "server_state \<Rightarrow> server" where
  "one_client s = \<lparr>svClients = [\<lparr>clSlot = 0, clConnection = new_connection [] True 0x200000\<rparr>], svSlots = [True], svState = s\<rparr>"

lemma one_client_reachable:
  "reachable_server sample_setting (initial_state 640 480 0) (one_client (update_repeat_controls (initial_state 640 480 0)))"
proof (rule reachable_server.round [OF reachable_server.start [of 1], where env = arrival])
  show "start_server 1 (initial_state 640 480 0) =
      Some \<lparr>svClients = [], svSlots = [False], svState = initial_state 640 480 0\<rparr>"
    by (simp add: start_server_def)
  show "run_round sample_setting arrival \<lparr>svClients = [], svSlots = [False], svState = initial_state 640 480 0\<rparr> =
      Some (Running (one_client (update_repeat_controls (initial_state 640 480 0))))"
    by (simp add: run_round_def arrival_def sample_setting_def poll_bad_def free_slot_def serve_round_def
        dispatch_order_def remove_clients_def one_client_def slot_resource_base_def)
qed


lemma serve_client_excluded:
  "\<not> may_process c s \<Longrightarrow> \<exists>gone. serve_client st p r c s = Some (gone, c, s)"
  by (cases "plInvalid p"; cases "plHup p") (auto simp: serve_client_def write_client_def read_client_def Let_def)

text \<open>C24. A server grab excludes everybody else.  While a client holds it, a pass over any polled clients
  that does not include the holder changes nothing: no byte of theirs is read or written, no request
  is dispatched, and the state of the server is what it was; and the others are not even polled
  for input.\<close>

theorem server_grab_excludes:
  assumes "ssServerGrabOwner (svState sv) \<noteq> 0" and "\<forall>i \<in> set order. i < length (svClients sv) \<and>
      cnClient (clConnection (svClients sv ! i)) \<noteq> ssServerGrabOwner (svState sv)"
  shows "\<exists>removed'. serve_clients st reports rs order removed sv = Some (removed', sv) \<and>
    (\<forall>i \<in> set order. \<not> fst (requested_events (clConnection (svClients sv ! i)) (svState sv)))"
  using assms(2)
proof (induction order arbitrary: removed)
  case (Cons i order)
  let ?k = "svClients sv ! i"
  have other: "cnClient (clConnection ?k) \<noteq> ssServerGrabOwner (svState sv)" using Cons.prems by simp
  then have "\<not> may_process (clConnection ?k) (svState sv)" using assms(1) by (auto simp: may_process_def)
  then obtain gone where "serve_client st (reports i) (rs i) (clConnection ?k) (svState sv) = Some (gone, clConnection ?k, svState sv)"
    using serve_client_excluded by blast
  moreover have "\<not> fst (requested_events (clConnection ?k) (svState sv))"
    using other assms(1) by (simp add: requested_events_def split_beta)
  ultimately show ?case using Cons.IH [of "removed[i := gone]"] Cons.prems by (simp add: Let_def)
qed simp

lemma server_grab_excludes_witness:
  "\<exists>removed'. serve_clients sample_setting (\<lambda>_. no_events\<lparr>plIn := True\<rparr>)
      (\<lambda>_. \<lparr>rdReady = no_events\<lparr>plIn := True\<rparr>, rdReads = [ReadBytes [66]], rdWrites = []\<rparr>) [0] [False]
      (one_client (grab_server 0x400000 (initial_state 640 480 0))) =
    Some (removed', one_client (grab_server 0x400000 (initial_state 640 480 0)))"
proof -
  let ?sv = "one_client (grab_server 0x400000 (initial_state 640 480 0))"
  have "ssServerGrabOwner (svState ?sv) = 0x400000" by (simp add: one_client_def grab_server_def initial_state_def)
  moreover from this have "ssServerGrabOwner (svState ?sv) \<noteq> 0" by simp
  moreover have "length (svClients ?sv) = 1" "cnClient (clConnection (svClients ?sv ! 0)) = 0x200000"
    by (simp_all add: one_client_def new_connection_def)
  ultimately show ?thesis using server_grab_excludes [of ?sv "[0]"] by fastforce
qed

end
