(* ===== verification/Spec2Isabelle.thy ===== *)
theory Spec2Isabelle
  imports Checked Wire Color Property_Data Atoms Region Geometry Barriers
    Event_Queue Server_Model Resources Sync Passive_Grabs Selections
    Window_Properties Window_Tree Window_Changes Cursors
    Keyboard Xi2 Crossing Grabs Input
    Window_Mapping Window_Reparenting Window_Destruction Window_Removal Window_Subtrees
    Event_Wire Connection Connection_Stream
    Requests Query_Requests Color_Requests Control_Requests Grab_Requests Dispatch
    Server_Requests Request_Safety Control_Safety Grab_Safety Dispatch_Safety Connection_Loop Server_Loop
begin

text \<open>
  \<^bold>\<open>Xmin, a small X11 server.\<close>  The program is a single-process X server: \<^verbatim>\<open>src/server/connection.cpp\<close>
  and the \<^verbatim>\<open>*_protocol.cpp\<close> files decode requests (with \<^verbatim>\<open>wire.cpp\<close>) and call operations of one
  object, \<open>ServerState\<close> (\<^verbatim>\<open>server_state.cpp\<close>, \<^verbatim>\<open>server_state.hpp\<close>), which holds everything clients
  share: the window tree, the resource tables, selections, grabs, input, SYNC objects, and one queue
  of pending events per client.  A \<open>Connection\<close> per client frames the bytes of its socket into requests,
  dispatches them and writes replies and pending events back.  This development models \<open>ServerState\<close>
  with the helpers it is made of, \<open>Connection\<close>, and most handlers of the core protocol.

  \<^bold>\<open>How the code is modelled.\<close>  The object is one record, \<open>server_state\<close> (theory \<open>Server_Model\<close>), which
  extends the record \<open>queue_state\<close> of the event queues, so that the queue operations are proved once
  for every extension.  A member function is a function that returns its result and the new state; a
  returned enumeration is a datatype with its constructors; an optional or a null pointer is an
  option; a \<open>std::unordered_map\<close> is an association list with unique keys (\<open>umap\<close>, theory
  \<open>Containers\<close>), whose order stands for the iteration order; identifiers, masks, serial numbers and
  times are words of the code's width; coordinates are integers, narrowed where the code narrows
  them; \<open>std::size_t\<close> is a natural number whose subtraction is written out as \<open>size_sub\<close> where it
  could wrap.  A loop over parent links ends only because of the shape of the tree; it is a
  \<open>partial_function\<close> into \<open>option\<close>, \<open>None\<close> meaning that it does not end, and the properties state
  that it does.  No fuel is used anywhere.  Allocation failure (the \<open>std::bad_alloc\<close> handlers) is
  not modelled: an allocation succeeds.

  \<^bold>\<open>Parts and theories.\<close>
  \<^item> Wire format: \<open>Wire\<close> (\<^verbatim>\<open>wire.cpp\<close>, \<^verbatim>\<open>wire.hpp\<close>), \<open>Property_Data\<close> (\<^verbatim>\<open>property_data.cpp\<close>): round trips
    in both byte orders, bounded reads, padding.
  \<^item> Small modules: \<open>Checked\<close> (\<^verbatim>\<open>checked.hpp\<close>), \<open>Color\<close> (\<^verbatim>\<open>color.cpp\<close>), \<open>Atoms\<close> (\<^verbatim>\<open>atom_table.cpp\<close>),
    \<open>Region\<close> (\<^verbatim>\<open>region.cpp\<close>; the set operations are calls into pixman), \<open>Geometry\<close> (the resize
    arithmetic of \<^verbatim>\<open>server_state.cpp\<close>), \<open>Barriers\<close> (pointer barriers).
  \<^item> Events and clients: \<open>Events\<close> (\<^verbatim>\<open>client_event.hpp\<close>), \<open>Event_Queue\<close> (registration, sequence numbers,
    bounded queues, atomic delivery).  The locale \<open>event_sink\<close> states what the other components rely
    on: an accepted plan is appended to each recipient's queue in order, a refused one changes
    nothing; it is interpreted on \<open>queue_events_atomically\<close>.
  \<^item> Resources: \<open>Resources\<close> (\<^verbatim>\<open>resource_registry.hpp\<close> and the add and erase operations of every
    table).  A locale states the contract of a table of resources and is interpreted on each one; the
    properties say that registry and tables never disagree and that the limits hold.
  \<^item> SYNC: \<open>Sync\<close>, counters, alarms, fences and the clients suspended on them; no wake-up is lost.
  \<^item> Passive grabs, selections: \<open>Passive_Grabs\<close>, \<open>Selections\<close>.
  \<^item> Windows: \<open>Window_Store\<close>, \<open>Window_Properties\<close>, \<open>Window_Tree\<close> and \<open>Window_Changes\<close> (the tree, its
    walks, hit testing, insertion, circulation, message delivery), \<open>Cursors\<close> (the cursor in force and
    the reversion of the focus), \<open>Crossing\<close> (the enter, leave and focus events of a move from one
    window to another, against the route over the two windows' lineages).
  \<^item> Input: \<open>Keyboard\<close> (modifiers, latches and locks, XKB selections and controls), \<open>Xi2\<close>
    (selections, device properties, raw and device events), \<open>Grabs\<close> (the focus, active grabs, the
    routing of an input event), \<open>Input\<close> (injected input with its grabs, crossings, routing and key
    repeat; the release of a frozen pointer).

  \<^item> Windows that come and go: \<open>Window_Mapping\<close> (mapping and unmapping with the focus and the grabs they
    end), \<open>Window_Reparenting\<close>, \<open>Window_Destruction\<close> (the operations), \<open>Window_Removal\<close> (one window: nothing
    refers to it afterwards), \<open>Window_Subtrees\<close> (destruction of a subtree, children first).
  \<^item> Connections: \<open>Event_Wire\<close> (the bytes of every event), \<open>Connection\<close> (\<^verbatim>\<open>connection.cpp\<close>: setup, framing,
    event draining, the output buffer with its descriptors, the read and write loops; what the socket
    returns is an argument), \<open>Connection_Stream\<close> (queue and buffer refine one FIFO channel),
    \<open>Connection_Loop\<close> (every loop returns, and why it stops).  The locale \<open>request_server\<close> states what the
    loops need of the request handlers; it is interpreted on the dispatcher of \<open>Dispatch\<close>.
  \<^item> Requests: a handler reads its arguments, checks them in the order of the code, calls the operation and
    answers.  \<open>Requests\<close> (windows, properties, atoms, selections, messages), \<open>Query_Requests\<close> (queries and
    the extensions BIG-REQUESTS, XC-MISC and Generic Event), \<open>Color_Requests\<close>, \<open>Control_Requests\<close> (server
    grab, screen saver, device controls and mappings), \<open>Grab_Requests\<close> (focus and grabs), \<open>Dispatch\<close> (the
    table).  \<open>Server_Requests\<close> shows that the operations keep the invariant of a session; \<open>Request_Safety\<close>,
    \<open>Control_Safety\<close>, \<open>Grab_Safety\<close> and \<open>Dispatch_Safety\<close> that every handler returns whatever the bytes are,
    changes only the output of its connection and keeps the invariant.
  \<^item> The server: \<open>Server_Loop\<close> (\<^verbatim>\<open>server.cpp\<close>, \<open>Server::run\<close>: polling, accepting, serving in the order of the
    priorities, removal), a round being a function of what the sockets return; the step relation
    \<open>reachable_server\<close> composes rounds, and every server it reaches is sound and goes on.

  \<^bold>\<open>Invariants.\<close>  \<open>queues_ok\<close> (the pending count is the sum of the queue lengths and within its
  bound), \<open>tree_ok\<close> (parent links and child lists are converse, everything hangs below the root),
  \<open>properties_ok\<close>, \<open>resources_ok\<close>, \<open>sync_ok\<close>, \<open>grabs_ok\<close>, \<open>selections_ok\<close>, \<open>atoms_ok\<close>, \<open>xi2_ok\<close>,
  \<open>devices_ok\<close>, \<open>input_ok\<close> (focus and grabs name existing windows), \<open>input_inv\<close> (what injected input
  keeps), \<open>input_viewable\<close> (what mapping changes keep of the input), \<open>selections_dated\<close>, \<open>server_inv\<close> (their
  conjunction, kept by the destruction of windows), \<open>session_inv\<close> (with the mapped root, the atoms and
  the property values, kept by every request).  Each is shown of the initial state and of what its
  operations return.

  \<^bold>\<open>Not modelled.\<close>  The configuration of windows (its pixels move with it); the handlers of drawing,
  fonts, window creation and configuration, cursor creation, keyboard mapping, \<open>AllowEvents\<close> and \<open>WarpPointer\<close>, and
  those of the other extensions: they are the parameter \<open>others\<close> of the dispatcher, and the
  liveness property assumes of them what it proves of the handlers here; the descriptors a client
  sends; the end of a client (\<open>disconnect_client\<close> releases surfaces and glyph sets too) and the timers
  (\<open>process_timers\<close> presents surfaces), parameters of the loop that must keep the invariant; the state of
  RANDR, RENDER, Present, DAMAGE and COMPOSITE beyond the tables of \<open>Resources\<close>; surfaces, rendering and
  fonts (pixman and FreeType calls); sockets, signals and process setup; the client library, the tools
  and the vendored code.
\<close>

end
